(* ===== verification/Prelude.thy ===== *)
theory Prelude
  imports Main "HOL-Library.Word" "HOL-Library.Monad_Syntax"
begin

text \<open>
  Shared vocabulary of the development: the C integer types, memory blocks as byte lists,
  the reading of undefined behaviour, and generic facts on lists and words that several
  components use.

  Conventions.
  \<^item> \<open>unsigned int\<close> is \<open>32 word\<close>; its arithmetic wraps as C's does.
  \<^item> A pointer is a natural number, 0 being NULL, unless a theory says otherwise.
  \<^item> A C function that can run into undefined behaviour (a NULL or dangling pointer is
    dereferenced, memory outside an allocation is touched, a failed \<open>assert\<close>) has an
    \<open>option\<close> result, and \<open>None\<close> is that outcome. AkLisp's own errors
    (\<open>akl_raise_error\<close>) are ordinary values of the state.
\<close>

type_synonym u32 = "32 word"
type_synonym addr = nat

text \<open>A byte of memory; \<open>None\<close> is an indeterminate byte (fresh \<open>malloc\<close>/\<open>realloc\<close> memory).\<close>

type_synonym mbyte = "8 word option"

named_theorems akl_defs \<open>definitions of the modelled C functions\<close>
named_theorems heap_simps \<open>reads after writes on the interpreter's heap\<close>
named_theorems frame_simps \<open>parts of the state an operation leaves alone\<close>

subsection \<open>Memory blocks\<close>

text \<open>\<open>memcpy(block + off, src, n)\<close>: undefined when it leaves the block or the source.\<close>

definition memcpy_at :: "mbyte list \<Rightarrow> nat \<Rightarrow> mbyte list \<Rightarrow> nat \<Rightarrow> mbyte list option" where
  "memcpy_at block off src n =
     (if off + n \<le> length block \<and> n \<le> length src
      then Some (take off block @ take n src @ drop (off + n) block) else None)"

text \<open>\<open>calloc\<close> gives zeroed bytes; \<open>realloc\<close> keeps a prefix and leaves the rest indeterminate.\<close>

definition calloc_block :: "nat \<Rightarrow> nat \<Rightarrow> mbyte list" where
  "calloc_block nmemb sz = replicate (nmemb * sz) (Some 0)"

definition malloc_block :: "nat \<Rightarrow> mbyte list" where
  "malloc_block sz = replicate sz None"

definition realloc_block :: "mbyte list \<Rightarrow> nat \<Rightarrow> mbyte list" where
  "realloc_block block sz = take sz block @ replicate (sz - length block) None"

lemma length_memcpy_at: "memcpy_at b off src n = Some b' \<Longrightarrow> length b' = length b"
  by (auto simp: memcpy_at_def split: if_splits)

lemma length_calloc_block [simp]: "length (calloc_block n m) = n * m"
  by (simp add: calloc_block_def)

lemma length_realloc_block [simp]: "length (realloc_block b n) = n"
  by (simp add: realloc_block_def)

lemma take_realloc_block: "k \<le> n \<Longrightarrow> k \<le> length b \<Longrightarrow> take k (realloc_block b n) = take k b"
  by (simp add: realloc_block_def)

text \<open>Two blocks with a common prefix agree on every slot inside it.\<close>

lemma take_drop_prefix:
  assumes "take k b' = take k b" "off + m \<le> k"
  shows "take m (drop off b') = take m (drop off b)"
proof -
  have "take m (drop off c) = take m (drop off (take k c))" for c :: "'a list"
    using assms(2) by (simp add: drop_take min_absorb1)
  then show ?thesis by (metis assms(1))
qed

lemma slot_in_block:
  assumes "(i::nat) < n" shows "i * m + m \<le> n * m"
proof -
  have "Suc i * m \<le> n * m" using assms by (intro mult_le_mono1) simp
  then show ?thesis by simp
qed

subsection \<open>Words\<close>

lemma unat_u32_less: "unat (w :: u32) < 4294967296"
  using unsigned_less [of w, where ?'a = nat] by simp

lemma unat_u32_plus:
  "unat (a :: u32) + unat b < 4294967296 \<Longrightarrow> unat (a + b) = unat a + unat b"
  by (simp add: unat_word_ariths)

lemma unat_u32_Suc: "unat (a :: u32) + 1 < 4294967296 \<Longrightarrow> unat (a + 1) = Suc (unat a)"
  by (simp add: unat_word_ariths)

lemma unat_u32_mult:
  "unat (a :: u32) * unat b < 4294967296 \<Longrightarrow> unat (a * b) = unat a * unat b"
  by (simp add: unat_word_ariths)

lemma unat_u32_minus1: "(a :: u32) \<noteq> 0 \<Longrightarrow> unat (a - 1) = unat a - 1"
  by (rule unat_minus_one)

lemma unat_u32_eq0 [simp]: "unat (a :: u32) = 0 \<longleftrightarrow> a = 0"
  by (rule unat_eq_zero)

lemma of_nat_u32_inj:
  "m < 4294967296 \<Longrightarrow> n < 4294967296 \<Longrightarrow> (of_nat m :: u32) = of_nat n \<longleftrightarrow> m = n"
  by (simp add: word_of_nat_eq_iff take_bit_nat_def)

end
