(* ===== verification/Interfaces.thy ===== *)
theory Interfaces
  imports Prelude
begin

text \<open>
  The contracts the components rely on, as locales. Each names the operations a client
  calls and the laws the provider promises; the client's lemmas are proved once here. The
  provider's theory interprets the locale on the model of its code.
  \<^item> \<open>lifo\<close>: a container that is pushed and popped at one end. Provided by the vector
    (\<open>Vector\<close>) and by the operand stack of the virtual machine (\<open>Frames\<close>).
  \<^item> \<open>allocator\<close>: a source of memory slots that are not in use. Provided by the pools of
    the collector while nothing is swept (\<open>GcPool\<close>) and by the object heap (\<open>Heap\<close>).
  \<^item> \<open>table\<close>: a finite table with lookup and insertion by key. Provided by the
    red-black trees of the symbols and of the global variables (\<open>RbTree\<close>).
\<close>

subsection \<open>Push and pop\<close>

locale lifo =
  fixes inv :: "'s \<Rightarrow> bool"
    and contents :: "'s \<Rightarrow> 'e list"
    and fits :: "'s \<Rightarrow> 'e \<Rightarrow> bool"
    and push :: "'s \<Rightarrow> 'e \<Rightarrow> 's option"
    and pop :: "'s \<Rightarrow> ('e \<times> 's) option"
  assumes push_law: "inv s \<Longrightarrow> fits s x \<Longrightarrow>
      \<exists>s'. push s x = Some s' \<and> inv s' \<and> contents s' = contents s @ [x]"
    and pop_law: "inv s \<Longrightarrow> contents s \<noteq> [] \<Longrightarrow>
      \<exists>s'. pop s = Some (last (contents s), s') \<and> inv s' \<and> contents s' = butlast (contents s)"
begin

lemma pop_after_push:
  assumes "inv s" "fits s x"
  shows "\<exists>s1 s2. push s x = Some s1 \<and> pop s1 = Some (x, s2) \<and> inv s2 \<and> contents s2 = contents s"
proof -
  obtain s1 where s1: "push s x = Some s1" "inv s1" "contents s1 = contents s @ [x]"
    using push_law [OF assms] by blast
  then show ?thesis using pop_law [of s1] by auto
qed

end

subsection \<open>Allocation\<close>

locale allocator =
  fixes inv :: "'s \<Rightarrow> bool"
    and live :: "'s \<Rightarrow> 'a set"
    and alloc :: "'s \<Rightarrow> ('a \<times> 's) option"
  assumes alloc_law: "inv s \<Longrightarrow> alloc s = Some (a, s') \<Longrightarrow>
      a \<notin> live s \<and> live s' = insert a (live s) \<and> inv s'"

fun alloc_n :: "('s \<Rightarrow> ('a \<times> 's) option) \<Rightarrow> nat \<Rightarrow> 's \<Rightarrow> ('a list \<times> 's) option" where
  "alloc_n al 0 s = Some ([], s)"
| "alloc_n al (Suc n) s =
     do {
       (a, s1) \<leftarrow> al s;
       (as, s2) \<leftarrow> alloc_n al n s1;
       Some (a # as, s2)
     }"

context allocator begin

lemma alloc_n_fresh:
  assumes "inv s" "alloc_n alloc n s = Some (as, s')"
  shows "distinct as \<and> set as \<inter> live s = {} \<and> live s' = set as \<union> live s \<and> inv s'"
  using assms
proof (induction n arbitrary: s as)
  case 0
  then show ?case by simp
next
  case (Suc n)
  from Suc.prems(2) obtain a s1 as1 where al: "alloc s = Some (a, s1)"
    and rest: "alloc_n alloc n s1 = Some (as1, s')" and as: "as = a # as1"
    by (auto simp: Option.bind_eq_Some_conv)
  from alloc_law [OF Suc.prems(1) al] Suc.IH [OF _ rest] show ?case
    unfolding as by auto
qed

end

subsection \<open>Tables\<close>

locale table =
  fixes inv :: "'t \<Rightarrow> bool"
    and lookup :: "'t \<Rightarrow> 'k \<Rightarrow> 'v option"
    and insert_new :: "'t \<Rightarrow> 'k \<Rightarrow> 'v \<Rightarrow> 't"
    and same :: "'k \<Rightarrow> 'k \<Rightarrow> bool"
  assumes insert_law: "inv t \<Longrightarrow> lookup t k = None \<Longrightarrow>
      inv (insert_new t k v) \<and>
      (\<forall>k'. lookup (insert_new t k v) k' = (if same k' k then Some v else lookup t k'))"
    and same_refl: "same k k"
begin

lemma insert_keeps:
  "inv t \<Longrightarrow> lookup t k = None \<Longrightarrow> lookup t k' = Some v' \<Longrightarrow> \<not> same k' k \<Longrightarrow>
   lookup (insert_new t k v) k' = Some v'"
  using insert_law by auto

lemma lookup_inserted: "inv t \<Longrightarrow> lookup t k = None \<Longrightarrow> lookup (insert_new t k v) k = Some v"
  using insert_law same_refl by auto

end

end
