(* ===== verification/GcPool.thy ===== *)
theory GcPool
  imports Interfaces
begin

text \<open>
  The memory side of \<open>src/gc.c\<close>: the free maps and pools of the collector, the search for
  a free slot, the sweep, the release of empty pools and \<open>akl_gc_malloc\<close>.

  A pool is the record \<open>gc_pool\<close>; its 64 slots are represented by the one part of their
  content the collector reads, the \<open>gc_mark\<close> bit. Pools live on a heap (\<open>gs_pools\<close>,
  addresses are the pointers) because the chain of pools is a linked list whose head can
  dangle. \<open>1 << N\<close> is taken modulo 32, as the 32-bit shift instruction does for the
  indices of the second word (in ISO C the shift itself is already undefined there).
\<close>

unbundle bit_operations_syntax

subsection \<open>Bits\<close>

definition AKL_GC_POOL_SIZE :: nat where
  "AKL_GC_POOL_SIZE = 64"

definition BITS_IN_UINT :: nat where
  "BITS_IN_UINT = 32"

definition shl1 :: "nat \<Rightarrow> u32" where
  "shl1 n = push_bit (n mod 32) 1"

definition SET_BIT :: "u32 \<Rightarrow> nat \<Rightarrow> u32" where
  "SET_BIT v n = v OR shl1 n"

definition CLEAR_BIT :: "u32 \<Rightarrow> nat \<Rightarrow> u32" where
  "CLEAR_BIT v n = v AND NOT (shl1 n)"

definition IS_BIT_SET :: "u32 \<Rightarrow> nat \<Rightarrow> bool" where
  "IS_BIT_SET v n \<longleftrightarrow> v AND shl1 n \<noteq> 0"

subsection \<open>The allocation functions of the interpreter\<close>

text \<open>
  \<open>akl_alloc\<close> and its kin call the callback, add the size to \<open>ai_gc_malloc_size\<close> and ask
  the out-of-memory handler when the callback failed. The callback is given by the list of
  its next answers (\<open>True\<close>: memory was returned), the handler by its answers; the
  functions return how the call ended, the counter and the answers not used yet.
\<close>

datatype nomem_action = NM_TERMINATE | NM_TRYAGAIN | NM_RETNULL

datatype alloc_result = A_ptr | A_null | A_exit

fun akl_alloc :: "u32 \<Rightarrow> u32 \<Rightarrow> bool list \<Rightarrow> nomem_action list \<Rightarrow>
    (alloc_result \<times> u32 \<times> bool list \<times> nomem_action list) option" where
  "akl_alloc msize size0 (True # ms) hs = Some (A_ptr, msize + size0, ms, hs)"
| "akl_alloc msize size0 (False # ms) (NM_TRYAGAIN # hs) = akl_alloc (msize + size0) size0 ms hs"
| "akl_alloc msize size0 (False # ms) (NM_TERMINATE # hs) = Some (A_exit, msize + size0, ms, hs)"
| "akl_alloc msize size0 (False # ms) (NM_RETNULL # hs) = Some (A_null, msize + size0, ms, hs)"
| "akl_alloc msize size0 _ _ = None"

definition akl_calloc :: "u32 \<Rightarrow> u32 \<Rightarrow> u32 \<Rightarrow> bool list \<Rightarrow> nomem_action list \<Rightarrow>
    (alloc_result \<times> u32 \<times> bool list \<times> nomem_action list) option" where
  "akl_calloc msize nmemb size0 ms hs = akl_alloc msize (size0 * nmemb) ms hs"

definition akl_realloc :: "u32 \<Rightarrow> u32 \<Rightarrow> bool list \<Rightarrow> nomem_action list \<Rightarrow>
    (alloc_result \<times> u32 \<times> bool list \<times> nomem_action list) option" where
  "akl_realloc msize size0 ms hs = akl_alloc msize size0 ms hs"

definition akl_free :: "u32 \<Rightarrow> u32 \<Rightarrow> u32" where
  "akl_free msize size0 = msize - size0"

subsection \<open>Pools and types\<close>

record gc_pool =
  gp_count :: u32              \<comment> \<open>\<open>gp_pool.av_count\<close>\<close>
  gp_marks :: "bool list"      \<comment> \<open>the \<open>gc_mark\<close> bit of each slot of \<open>gp_pool\<close>\<close>
  gp_next :: addr
  gp_freemap :: "u32 list"

record gc_type =
  gt_type_id :: nat
  gt_has_marker :: bool        \<comment> \<open>\<open>gt_marker_fn\<close> is not NULL\<close>
  gt_pool_last :: addr
  gt_pool_count :: u32
  gt_pool_head :: addr

record gc_state =
  gs_types :: "gc_type list"
  gs_pools :: "addr \<Rightarrow> gc_pool option"
  gs_fresh :: addr
  gs_use_gc :: bool            \<comment> \<open>\<open>AKL_CFG_USE_GC\<close>\<close>
  gs_last_was_mark :: bool

text \<open>A slot of memory handed out by the collector: the pool and the index in it.\<close>

type_synonym slot = "addr \<times> nat"

text \<open>The assertion allows indices below 64 * 32; beyond the two words the read is undefined.\<close>

definition akl_gc_pool_in_use :: "gc_pool \<Rightarrow> nat \<Rightarrow> bool option" where
  "akl_gc_pool_in_use p ind =
     (if ind < AKL_GC_POOL_SIZE * BITS_IN_UINT \<and> ind div BITS_IN_UINT < length (gp_freemap p)
      then Some (IS_BIT_SET (gp_freemap p ! (ind div BITS_IN_UINT)) ind) else None)"

definition akl_gc_pool_use :: "gc_pool \<Rightarrow> nat \<Rightarrow> gc_pool option" where
  "akl_gc_pool_use p ind =
     (if ind < AKL_GC_POOL_SIZE * BITS_IN_UINT \<and> ind div BITS_IN_UINT < length (gp_freemap p)
      then Some (p\<lparr>gp_count := gp_count p + 1,
                   gp_freemap := (gp_freemap p)[ind div BITS_IN_UINT :=
                     SET_BIT (gp_freemap p ! (ind div BITS_IN_UINT)) ind]\<rparr>)
      else None)"

definition akl_gc_pool_clear_use :: "gc_pool \<Rightarrow> nat \<Rightarrow> gc_pool option" where
  "akl_gc_pool_clear_use p ind =
     (if ind < AKL_GC_POOL_SIZE * BITS_IN_UINT \<and> ind div BITS_IN_UINT < length (gp_freemap p)
      then Some (p\<lparr>gp_count := gp_count p - 1,
                   gp_freemap := (gp_freemap p)[ind div BITS_IN_UINT :=
                     CLEAR_BIT (gp_freemap p ! (ind div BITS_IN_UINT)) ind]\<rparr>)
      else None)"

definition UINT_MAX :: u32 where
  "UINT_MAX = 4294967295"

definition akl_gc_pool_have_free :: "gc_pool \<Rightarrow> bool" where
  "akl_gc_pool_have_free p \<longleftrightarrow> (\<exists>w \<in> set (take (AKL_GC_POOL_SIZE div BITS_IN_UINT) (gp_freemap p)). w \<noteq> UINT_MAX)"

text \<open>The inner loop looks for the first clear bit; the outer one returns its bit number alone.\<close>

fun first_clear_bit :: "u32 \<Rightarrow> nat list \<Rightarrow> nat option" where
  "first_clear_bit w [] = None"
| "first_clear_bit w (j # js) = (if \<not> IS_BIT_SET w j then Some j else first_clear_bit w js)"

fun find_free_loop :: "u32 list \<Rightarrow> nat option" where
  "find_free_loop [] = None"
| "find_free_loop (w # ws) =
     (if w \<noteq> UINT_MAX
      then (case first_clear_bit w [0..<BITS_IN_UINT] of Some j \<Rightarrow> Some j
            | None \<Rightarrow> find_free_loop ws)
      else find_free_loop ws)"

text \<open>\<open>cnt\<close> is an \<open>int\<close>: a count above \<open>INT_MAX\<close> is negative and fails the assertion.\<close>

definition akl_gc_pool_find_free :: "gc_pool \<Rightarrow> int option" where
  "akl_gc_pool_find_free p =
     (let cnt = sint (gp_count p);
          slow = (case find_free_loop (take (AKL_GC_POOL_SIZE div BITS_IN_UINT) (gp_freemap p)) of
                    Some j \<Rightarrow> int j | None \<Rightarrow> - 1)
      in if cnt < int AKL_GC_POOL_SIZE
         then (if cnt < 0 then None
               else do { used \<leftarrow> akl_gc_pool_in_use p (nat cnt);
                         Some (if \<not> used then cnt else slow) })
         else Some slow)"

text \<open>The sum of the words, in an \<open>int\<close>.\<close>

definition akl_gc_pool_is_empty :: "gc_pool \<Rightarrow> bool" where
  "akl_gc_pool_is_empty p \<longleftrightarrow>
     sum_list (take (AKL_GC_POOL_SIZE div BITS_IN_UINT) (gp_freemap p)) = 0"

text \<open>
  A new pool. The free map comes from \<open>malloc\<close>, whose bytes are \<open>garbage\<close>; the \<open>memset\<close>
  clears \<open>AKL_GC_POOL_SIZE/BITS_IN_UINT\<close> = 2 bytes of it, the low half of the first word
  (little-endian). The slots come from \<open>calloc\<close>.
\<close>

definition new_freemap :: "u32 list \<Rightarrow> u32 list" where
  "new_freemap garbage = [garbage ! 0 AND 4294901760, garbage ! 1]"

definition akl_gc_pool_create :: "u32 list \<Rightarrow> gc_state \<Rightarrow> nat \<Rightarrow> (addr \<times> gc_state) option" where
  "akl_gc_pool_create garbage s tid =
     (if length (gs_types s) \<le> tid then None
      else let t = gs_types s ! tid; pool = gs_fresh s;
        s1 = s\<lparr>gs_fresh := gs_fresh s + 1,
               gs_pools := (gs_pools s)(pool \<mapsto>
                 \<lparr>gp_count = 0, gp_marks = replicate AKL_GC_POOL_SIZE False, gp_next = 0,
                  gp_freemap = new_freemap garbage\<rparr>)\<rparr>
      in do {
        s2 \<leftarrow> (if gt_pool_last t \<noteq> 0
               then (case gs_pools s1 (gt_pool_last t) of None \<Rightarrow> None
                     | Some lp \<Rightarrow> Some (s1\<lparr>gs_pools := (gs_pools s1)(gt_pool_last t \<mapsto> lp\<lparr>gp_next := pool\<rparr>)\<rparr>))
               else Some s1);
        Some (pool, s2\<lparr>gs_types := (gs_types s2)[tid :=
          t\<lparr>gt_pool_head := (if gt_pool_head t = 0 then pool else gt_pool_head t),
            gt_pool_last := pool, gt_pool_count := gt_pool_count t + 1\<rparr>]\<rparr>)
      })"

text \<open>The loop over the pools before the last one: it sets the pool, but not the index.\<close>

partial_function (option) type_have_free_loop :: "gc_state \<Rightarrow> addr \<Rightarrow> addr \<Rightarrow> addr option option" where
  "type_have_free_loop s p lastp =
     (if p = 0 \<or> p = lastp then Some None
      else do {
        pool \<leftarrow> gs_pools s p;
        (if akl_gc_pool_have_free pool
         then do { i \<leftarrow> akl_gc_pool_find_free pool;
                   (if i = - 1 then type_have_free_loop s p lastp else Some (Some p)) }
         else type_have_free_loop s (gp_next pool) lastp)
      })"

text \<open>
  Result: whether a free slot was found, its pool, and the index written through the last
  argument (\<open>None\<close>: not written, so the caller's variable is indeterminate).
\<close>

definition akl_gc_type_have_free ::
    "u32 list \<Rightarrow> gc_state \<Rightarrow> nat \<Rightarrow> ((bool \<times> addr \<times> int option) \<times> gc_state) option" where
  "akl_gc_type_have_free garbage s tid =
     (if length (gs_types s) \<le> tid then None
      else let t = gs_types s ! tid in
      if gt_pool_head t = 0
      then do { (pool, s1) \<leftarrow> akl_gc_pool_create garbage s tid; Some ((True, pool, Some 0), s1) }
      else do {
        lp \<leftarrow> gs_pools s (gt_pool_last t);
        (if akl_gc_pool_have_free lp
         then do { i \<leftarrow> akl_gc_pool_find_free lp; Some ((True, gt_pool_last t, Some i), s) }
         else do {
           r \<leftarrow> type_have_free_loop s (gt_pool_head t) (gt_pool_last t);
           Some (case r of None \<Rightarrow> ((False, 0, None), s) | Some p \<Rightarrow> ((True, p, None), s))
         })
      })"

subsection \<open>Releasing empty pools\<close>

text \<open>
  \<open>akl_gc_pool_free\<close> releases the slots of a pool, its free map and its structure, in this order;
  \<open>free\<close> is the callback. The free map is an array inside the structure, so the second pointer was
  never handed out by the allocator: for the \<open>free\<close> of the C library (\<open>std_free\<close>) this is undefined.
\<close>

datatype mem_ptr = P_slots addr | P_freemap addr | P_pool addr

type_synonym free_fn = "mem_ptr \<Rightarrow> gc_state \<Rightarrow> gc_state option"

definition std_free :: free_fn where
  "std_free q s =
     (case q of
        P_slots p \<Rightarrow> (if gs_pools s p = None then None else Some s)
      | P_freemap p \<Rightarrow> None
      | P_pool p \<Rightarrow> (if gs_pools s p = None then None else Some (s\<lparr>gs_pools := (gs_pools s)(p := None)\<rparr>)))"

definition akl_gc_pool_free :: "free_fn \<Rightarrow> gc_state \<Rightarrow> addr \<Rightarrow> gc_state option" where
  "akl_gc_pool_free free s p =
     do { s \<leftarrow> free (P_slots p) s; s \<leftarrow> free (P_freemap p) s; free (P_pool p) s }"

text \<open>\<open>gt_pool_head\<close> is never written here.\<close>

partial_function (option) type_tryfree_loop ::
    "free_fn \<Rightarrow> gc_state \<Rightarrow> nat \<Rightarrow> addr \<Rightarrow> addr \<Rightarrow> bool \<Rightarrow> (bool \<times> gc_state) option" where
  "type_tryfree_loop free s tid prev p succeed =
     (if p = 0 then Some (succeed, s)
      else do {
        pool \<leftarrow> gs_pools s p;
        (if akl_gc_pool_is_empty pool
         then do {
           s1 \<leftarrow> (if prev \<noteq> 0
                  then do { pp \<leftarrow> gs_pools s prev;
                            Some (s\<lparr>gs_pools := (gs_pools s)(prev \<mapsto> pp\<lparr>gp_next := gp_next pool\<rparr>)\<rparr>) }
                  else Some s);
           let s1 = (if gp_next pool = 0
               then s1\<lparr>gs_types := (gs_types s1)[tid := (gs_types s1 ! tid)\<lparr>gt_pool_last := prev\<rparr>]\<rparr>
               else s1);
           s1 \<leftarrow> akl_gc_pool_free free s1 p;
           type_tryfree_loop free s1 tid prev (gp_next pool) True
         }
         else type_tryfree_loop free s tid p (gp_next pool) succeed)
      })"

definition akl_gc_type_tryfree :: "free_fn \<Rightarrow> gc_state \<Rightarrow> nat \<Rightarrow> (bool \<times> gc_state) option" where
  "akl_gc_type_tryfree free s tid = type_tryfree_loop free s tid 0 (gt_pool_head (gs_types s ! tid)) False"

fun gc_tryfree_loop :: "free_fn \<Rightarrow> nat list \<Rightarrow> gc_state \<Rightarrow> bool \<Rightarrow> (bool \<times> gc_state) option" where
  "gc_tryfree_loop free [] s succeed = Some (succeed, s)"
| "gc_tryfree_loop free (i # is) s succeed =
     do { (b, s1) \<leftarrow> akl_gc_type_tryfree free s i; gc_tryfree_loop free is s1 (succeed \<or> b) }"

definition akl_gc_tryfree :: "free_fn \<Rightarrow> gc_state \<Rightarrow> (bool \<times> gc_state) option" where
  "akl_gc_tryfree free s = gc_tryfree_loop free [0..<length (gs_types s)] s False"

subsection \<open>Mark and sweep\<close>

text \<open>\<open>akl_gc_mark\<close> has an empty body.\<close>

definition akl_gc_mark :: "gc_state \<Rightarrow> gc_state" where
  "akl_gc_mark s = s"

text \<open>
  The sweep of one pool. \<open>mk\<close> is the marker function of the type, called with \<open>FALSE\<close> on a
  marked object.
\<close>

fun sweep_slots ::
    "(slot \<Rightarrow> gc_state \<Rightarrow> gc_state) \<Rightarrow> addr \<Rightarrow> nat list \<Rightarrow> gc_state \<Rightarrow> gc_state option" where
  "sweep_slots mk p [] s = Some s"
| "sweep_slots mk p (i # is) s =
     do {
       pool \<leftarrow> gs_pools s p;
       used \<leftarrow> akl_gc_pool_in_use pool i;
       s1 \<leftarrow> (if used
              then (if gp_marks pool ! i then Some (mk (p, i) s)
                    else do { pool' \<leftarrow> akl_gc_pool_clear_use pool i;
                              Some (s\<lparr>gs_pools := (gs_pools s)(p \<mapsto> pool')\<rparr>) })
              else Some s);
       sweep_slots mk p is s1
     }"

partial_function (option) akl_gc_sweep_pool ::
    "(slot \<Rightarrow> gc_state \<Rightarrow> gc_state) \<Rightarrow> bool \<Rightarrow> addr \<Rightarrow> gc_state \<Rightarrow> gc_state option" where
  "akl_gc_sweep_pool mk has_marker p s =
     (if p = 0 \<or> \<not> has_marker then Some s
      else do {
        s1 \<leftarrow> sweep_slots mk p [0..<AKL_GC_POOL_SIZE] s;
        pool \<leftarrow> gs_pools s1 p;
        akl_gc_sweep_pool mk has_marker (gp_next pool) s1
      })"

fun gc_sweep_types ::
    "(nat \<Rightarrow> slot \<Rightarrow> gc_state \<Rightarrow> gc_state) \<Rightarrow> nat list \<Rightarrow> gc_state \<Rightarrow> gc_state option" where
  "gc_sweep_types mk [] s = Some s"
| "gc_sweep_types mk (i # is) s =
     (if i < length (gs_types s)
      then do {
        s1 \<leftarrow> akl_gc_sweep_pool (mk i) (gt_has_marker (gs_types s ! i)) (gt_pool_head (gs_types s ! i)) s;
        gc_sweep_types mk is s1
      }
      else None)"

definition akl_gc_sweep :: "(nat \<Rightarrow> slot \<Rightarrow> gc_state \<Rightarrow> gc_state) \<Rightarrow> gc_state \<Rightarrow> gc_state option" where
  "akl_gc_sweep mk s =
     (if gs_use_gc s then gc_sweep_types mk [0..<length (gs_types s)] s else Some s)"

subsection \<open>Allocation\<close>

definition slot_use :: "gc_state \<Rightarrow> addr \<Rightarrow> nat \<Rightarrow> (slot \<times> gc_state) option" where
  "slot_use s p ind =
     do {
       pool \<leftarrow> gs_pools s p;
       pool' \<leftarrow> akl_gc_pool_use pool ind;
       Some ((p, ind), s\<lparr>gs_pools := (gs_pools s)(p \<mapsto> pool')\<rparr>)
     }"

text \<open>An index that was never written is read from an indeterminate variable.\<close>

function akl_gc_malloc ::
    "u32 list \<Rightarrow> (nat \<Rightarrow> slot \<Rightarrow> gc_state \<Rightarrow> gc_state) \<Rightarrow> gc_state \<Rightarrow> nat \<Rightarrow> (slot \<times> gc_state) option" where
  "akl_gc_malloc garbage mk s tid =
     (if length (gs_types s) \<le> tid then None
      else case akl_gc_type_have_free garbage s tid of
        None \<Rightarrow> None
      | Some ((True, p, None), s1) \<Rightarrow> None
      | Some ((True, p, Some ind), s1) \<Rightarrow> if ind < 0 then None else slot_use s1 p (nat ind)
      | Some ((False, _, _), s1) \<Rightarrow>
          if \<not> gs_last_was_mark s \<and> gs_use_gc s1
          then (case akl_gc_sweep mk (akl_gc_mark s1) of
                  None \<Rightarrow> None
                | Some s2 \<Rightarrow> akl_gc_malloc garbage mk (s2\<lparr>gs_last_was_mark := True\<rparr>) tid)
          else do {
            (p, s2) \<leftarrow> akl_gc_pool_create garbage s1 tid;
            slot_use (s2\<lparr>gs_last_was_mark := False\<rparr>) p 0
          })"
  by pat_completeness auto
termination
  by (relation "measure (\<lambda>(g, mk, s, tid). if gs_last_was_mark s then 0 else 1)") auto

declare akl_gc_malloc.simps [simp del]

subsection \<open>Free maps as sets of slots\<close>

lemma IS_BIT_SET_bit: "IS_BIT_SET v n \<longleftrightarrow> bit v (n mod 32)"
  by (simp add: IS_BIT_SET_def shl1_def push_bit_eq_mult and_exp_eq_0_iff_not_bit)

lemma bit_SET_BIT: "i < 32 \<Longrightarrow> bit (SET_BIT v n) i \<longleftrightarrow> bit v i \<or> i = n mod 32"
  by (auto simp: SET_BIT_def shl1_def bit_or_iff push_bit_eq_mult bit_exp_iff)

lemma bit_CLEAR_BIT: "i < 32 \<Longrightarrow> bit (CLEAR_BIT v n) i \<longleftrightarrow> bit v i \<and> i \<noteq> n mod 32"
  by (auto simp: CLEAR_BIT_def shl1_def bit_and_iff bit_not_iff push_bit_eq_mult bit_exp_iff)

lemma UINT_MAX_iff: "w = UINT_MAX \<longleftrightarrow> (\<forall>i<32. bit w i)"
proof -
  have "UINT_MAX = - 1" by (simp add: UINT_MAX_def)
  then show ?thesis by (auto simp: bit_eq_iff)
qed

text \<open>The slots a pool has in use.\<close>

definition used_slots :: "gc_pool \<Rightarrow> nat set" where
  "used_slots p = {i. i < 64 \<and> bit (gp_freemap p ! (i div 32)) (i mod 32)}"

definition pool_ok :: "gc_pool \<Rightarrow> bool" where
  "pool_ok p \<longleftrightarrow> length (gp_freemap p) = 2"

lemma used_slots_bound: "used_slots p \<subseteq> {..<64}"
  by (rule subsetI) (simp only: used_slots_def mem_Collect_eq lessThan_iff)

lemma in_use_iff:
  "pool_ok p \<Longrightarrow> i < 64 \<Longrightarrow> akl_gc_pool_in_use p i = Some (i \<in> used_slots p)"
  by (simp add: akl_gc_pool_in_use_def pool_ok_def used_slots_def IS_BIT_SET_bit
      AKL_GC_POOL_SIZE_def BITS_IN_UINT_def)

lemma bounded_Collect_full: "{i. i < n \<and> Q i} = {0..<n} \<longleftrightarrow> (\<forall>i<n::nat. Q i)"
  unfolding set_eq_iff by simp blast

lemma have_free_iff:
  assumes "pool_ok p" shows "akl_gc_pool_have_free p \<longleftrightarrow> used_slots p \<noteq> {0..<64}"
proof -
  obtain a b where ab: "gp_freemap p = [a, b]"
    using assms unfolding pool_ok_def
    by (metis (no_types, opaque_lifting) length_0_conv length_Suc_conv numeral_2_eq_2)
  have "used_slots p = {0..<64} \<longleftrightarrow> (\<forall>i<64. bit (gp_freemap p ! (i div 32)) (i mod 32))"
    unfolding used_slots_def by (rule bounded_Collect_full)
  also have "\<dots> \<longleftrightarrow> (\<forall>i<32. bit a i) \<and> (\<forall>i<32. bit b i)"
  proof safe
    fix i :: nat assume all: "\<forall>i<64. bit (gp_freemap p ! (i div 32)) (i mod 32)" and i: "i < 32"
    show "bit a i" using all [rule_format, of i] i by (simp add: ab)
    show "bit b i" using all [rule_format, of "i + 32"] i by (simp add: ab)
  next
    fix i :: nat assume a: "\<forall>i<32. bit a i" and b: "\<forall>i<32. bit b i" and i: "i < 64"
    then have "i div 32 = 0 \<or> i div 32 = 1" by linarith
    then show "bit (gp_freemap p ! (i div 32)) (i mod 32)" using a b by (auto simp: ab)
  qed
  finally show ?thesis
    by (auto simp: akl_gc_pool_have_free_def ab UINT_MAX_iff AKL_GC_POOL_SIZE_def BITS_IN_UINT_def)
qed

lemma used_slots_upd:
  assumes "pool_ok p" "ind < 64" "\<And>i. i < 32 \<Longrightarrow> bit w i \<longleftrightarrow> P (bit (gp_freemap p ! (ind div 32)) i) i"
    "\<And>b i. i < 32 \<Longrightarrow> i \<noteq> ind mod 32 \<Longrightarrow> P b i = b"
  shows "i < 64 \<Longrightarrow> i \<in> used_slots (p\<lparr>gp_count := c, gp_freemap := (gp_freemap p)[ind div 32 := w]\<rparr>) \<longleftrightarrow>
    (if i = ind then P (ind \<in> used_slots p) (ind mod 32) else i \<in> used_slots p)"
proof -
  assume i: "i < 64"
  have lt: "ind div 32 < 2" using assms(2) by linarith
  have "i = ind \<longleftrightarrow> i div 32 = ind div 32 \<and> i mod 32 = ind mod 32"
    by (metis div_mult_mod_eq)
  then show ?thesis
    using assms(1,2) i lt assms(3) [of "i mod 32"] assms(4) [of "i mod 32"]
    by (auto simp: used_slots_def pool_ok_def nth_list_update)
qed

lemma pool_use_ok:
  assumes "pool_ok p" "ind < 64"
  shows "\<exists>p'. akl_gc_pool_use p ind = Some p' \<and> pool_ok p' \<and> gp_count p' = gp_count p + 1
    \<and> used_slots p' = insert ind (used_slots p) \<and> gp_next p' = gp_next p"
proof -
  let ?w = "SET_BIT (gp_freemap p ! (ind div 32)) ind"
  have "i \<in> used_slots (p\<lparr>gp_count := gp_count p + 1, gp_freemap := (gp_freemap p)[ind div 32 := ?w]\<rparr>)
      \<longleftrightarrow> i \<in> insert ind (used_slots p)" (is "i \<in> ?A \<longleftrightarrow> _") for i
  proof (cases "i < 64")
    case True
    show ?thesis
      using used_slots_upd [OF assms, of ?w "\<lambda>b i. b \<or> i = ind mod 32" i "gp_count p + 1"] True
      by (auto simp: bit_SET_BIT)
  next
    case False
    then show ?thesis using assms(2) by (auto simp: used_slots_def)
  qed
  then have "?A = insert ind (used_slots p)" by (rule set_eqI)
  then show ?thesis
    using assms by (simp add: akl_gc_pool_use_def pool_ok_def AKL_GC_POOL_SIZE_def BITS_IN_UINT_def)
qed

lemma pool_clear_ok:
  assumes "pool_ok p" "ind < 64"
  shows "\<exists>p'. akl_gc_pool_clear_use p ind = Some p' \<and> pool_ok p' \<and> gp_count p' = gp_count p - 1
    \<and> used_slots p' = used_slots p - {ind} \<and> gp_next p' = gp_next p \<and> gp_marks p' = gp_marks p"
proof -
  let ?w = "CLEAR_BIT (gp_freemap p ! (ind div 32)) ind"
  have "i \<in> used_slots (p\<lparr>gp_count := gp_count p - 1, gp_freemap := (gp_freemap p)[ind div 32 := ?w]\<rparr>)
      \<longleftrightarrow> i \<in> used_slots p - {ind}" (is "i \<in> ?A \<longleftrightarrow> _") for i
  proof (cases "i < 64")
    case True
    show ?thesis
      using used_slots_upd [OF assms, of ?w "\<lambda>b i. b \<and> i \<noteq> ind mod 32" i "gp_count p - 1"] True
      by (auto simp: bit_CLEAR_BIT)
  next
    case False
    then show ?thesis by (auto simp: used_slots_def)
  qed
  then have "?A = used_slots p - {ind}" by (rule set_eqI)
  then show ?thesis
    using assms by (simp add: akl_gc_pool_clear_use_def pool_ok_def AKL_GC_POOL_SIZE_def BITS_IN_UINT_def)
qed

subsection \<open>Allocation while the collector is off\<close>

text \<open>
  \<open>AKL_CFG_USE_GC\<close> is off after \<open>akl_gc_init\<close>, so nothing is ever swept: the used slots
  of a pool are a prefix of it, of the length the vector's counter says.
\<close>

definition pool_pre :: "gc_pool \<Rightarrow> nat \<Rightarrow> bool" where
  "pool_pre p n \<longleftrightarrow> pool_ok p \<and> n \<le> 64 \<and> gp_count p = of_nat n \<and> used_slots p = {0..<n}"

fun full_chain ::
    "(addr \<Rightarrow> gc_pool option) \<Rightarrow> (addr \<Rightarrow> nat) \<Rightarrow> nat \<Rightarrow> addr \<Rightarrow> addr list \<Rightarrow> addr \<Rightarrow> bool" where
  "full_chain h own t p [] q \<longleftrightarrow> p = q"
| "full_chain h own t p (x # xs) q \<longleftrightarrow> p = x \<and> x \<noteq> 0 \<and> x \<noteq> q \<and> own x = t \<and>
     (case h x of None \<Rightarrow> False
      | Some P \<Rightarrow> pool_pre P 64 \<and> full_chain h own t (gp_next P) xs q)"

definition type_inv :: "gc_state \<Rightarrow> (addr \<Rightarrow> nat) \<Rightarrow> nat \<Rightarrow> bool" where
  "type_inv s own t \<longleftrightarrow>
     (let T = gs_types s ! t; q = gt_pool_last T in
      gt_pool_head T = 0 \<and> q = 0 \<or>
      q \<noteq> 0 \<and> gt_pool_head T \<noteq> 0 \<and> own q = t \<and>
      (\<exists>xs. full_chain (gs_pools s) own t (gt_pool_head T) xs q) \<and>
      (\<exists>L n. gs_pools s q = Some L \<and> pool_pre L n))"

definition gc_inv :: "gc_state \<Rightarrow> bool" where
  "gc_inv s \<longleftrightarrow> \<not> gs_use_gc s \<and> 0 < gs_fresh s \<and> (\<forall>p. gs_fresh s \<le> p \<longrightarrow> gs_pools s p = None)
     \<and> (\<exists>own. \<forall>t<length (gs_types s). type_inv s own t)"

definition live_slots :: "gc_state \<Rightarrow> slot set" where
  "live_slots s = {(p, i). \<exists>P. gs_pools s p = Some P \<and> i \<in> used_slots P}"

lemma pool_pre_free:
  assumes "pool_pre p n" shows "akl_gc_pool_have_free p \<longleftrightarrow> n < 64"
proof -
  have "{0..<n} = {0..<64} \<longleftrightarrow> n = 64" by (metis card_atLeastLessThan diff_zero)
  then show ?thesis
    using assms have_free_iff [of p] unfolding pool_pre_def by fastforce
qed

lemma pool_pre_unique: "pool_pre p m \<Longrightarrow> pool_pre p n \<Longrightarrow> m = n"
  unfolding pool_pre_def by (metis card_atLeastLessThan diff_zero)

lemma find_free_pre: "pool_pre p n \<Longrightarrow> n < 64 \<Longrightarrow> akl_gc_pool_find_free p = Some (int n)"
proof -
  assume pre: "pool_pre p n" and n: "n < 64"
  have "sint (gp_count p) = int n"
    using pre n by (simp add: pool_pre_def signed_of_nat signed_take_bit_int_eq_self)
  then show ?thesis
    using pre n in_use_iff [of p n]
    by (simp add: akl_gc_pool_find_free_def pool_pre_def AKL_GC_POOL_SIZE_def)
qed

lemma pool_pre_use:
  assumes "pool_pre p n" "n < 64"
  obtains p' where "akl_gc_pool_use p n = Some p'" "pool_pre p' (Suc n)" "gp_next p' = gp_next p"
proof -
  obtain p' where "akl_gc_pool_use p n = Some p'" "pool_ok p'" "gp_count p' = gp_count p + 1"
    "used_slots p' = insert n (used_slots p)" "gp_next p' = gp_next p"
    using pool_use_ok [of p n] assms by (auto simp: pool_pre_def)
  then show thesis
    using that [of p'] assms by (auto simp: pool_pre_def atLeast0_lessThan_Suc)
qed

lemma full_chain_frame:
  "full_chain h own t p xs q \<Longrightarrow> (\<And>x. x \<in> set xs \<Longrightarrow> h' x = h x \<and> own' x = own x) \<Longrightarrow>
   full_chain h' own' t p xs q"
  by (induction xs arbitrary: p) (auto split: option.splits)

lemma full_chain_set:
  "full_chain h own t p xs q \<Longrightarrow> x \<in> set xs \<Longrightarrow> h x \<noteq> None \<and> own x = t \<and> x \<noteq> q"
  by (induction xs arbitrary: p) (auto split: option.splits)

lemma full_chain_snoc:
  "full_chain h own t p xs q \<Longrightarrow> q \<noteq> 0 \<Longrightarrow> own q = t \<Longrightarrow> h q = Some P \<Longrightarrow> pool_pre P 64 \<Longrightarrow>
   gp_next P = r \<Longrightarrow> r \<notin> set xs \<Longrightarrow> r \<noteq> q \<Longrightarrow> full_chain h own t p (xs @ [q]) r"
  by (induction xs arbitrary: p) (auto split: option.splits)

lemma loop_full_chain:
  "full_chain (gs_pools s) own t p xs q \<Longrightarrow> type_have_free_loop s p q = Some None"
proof (induction xs arbitrary: p)
  case Nil
  then show ?case by (simp add: type_have_free_loop.simps)
next
  case (Cons x xs)
  then show ?case
    by (auto simp: type_have_free_loop.simps [of s x] pool_pre_free split: option.splits)
qed

lemma fresh_pool_pre: "pool_pre \<lparr>gp_count = 0, gp_marks = m, gp_next = 0, gp_freemap = new_freemap [0, 0]\<rparr> 0"
  by (auto simp: pool_pre_def pool_ok_def used_slots_def new_freemap_def nth_Cons split: nat.splits)

lemma type_inv_frame:
  assumes "type_inv s own t'" "gs_types s' ! t' = gs_types s ! t'"
    "\<And>x. own x = t' \<Longrightarrow> gs_pools s x \<noteq> None \<Longrightarrow> gs_pools s' x = gs_pools s x \<and> own' x = own x"
  shows "type_inv s' own' t'"
proof -
  have "full_chain (gs_pools s') own' t' p xs q" if "full_chain (gs_pools s) own t' p xs q" for p xs q
    using full_chain_frame [OF that] full_chain_set [OF that] assms(3) by metis
  then show ?thesis
    using assms(1) assms(3) unfolding type_inv_def assms(2) Let_def
    by (metis option.distinct(1))
qed

text \<open>Creating a pool for a type whose pools are all full, and taking its first slot.\<close>

lemma create_use:
  assumes inv: "gc_inv s" and tid: "tid < length (gs_types s)"
    and full: "\<And>L n. gs_pools s (gt_pool_last (gs_types s ! tid)) = Some L \<Longrightarrow>
       gt_pool_last (gs_types s ! tid) \<noteq> 0 \<Longrightarrow> pool_pre L n \<Longrightarrow> n = 64"
  shows "\<exists>s2 s3. akl_gc_pool_create [0, 0] s tid = Some (gs_fresh s, s2) \<and>
    slot_use (s2\<lparr>gs_last_was_mark := False\<rparr>) (gs_fresh s) 0 = Some ((gs_fresh s, 0), s3) \<and>
    slot_use s2 (gs_fresh s) 0 = Some ((gs_fresh s, 0), s3\<lparr>gs_last_was_mark := gs_last_was_mark s\<rparr>) \<and>
    gc_inv s3 \<and> live_slots s3 = insert (gs_fresh s, 0) (live_slots s)
    \<and> length (gs_types s3) = length (gs_types s)"
proof -
  let ?T = "gs_types s ! tid" and ?f = "gs_fresh s"
  define q where "q = gt_pool_last ?T"
  let ?P0 = "\<lparr>gp_count = 0, gp_marks = replicate AKL_GC_POOL_SIZE False, gp_next = 0,
      gp_freemap = new_freemap [0, 0]\<rparr>"
  obtain P1 where P1: "akl_gc_pool_use ?P0 0 = Some P1" "pool_pre P1 (Suc 0)"
    by (rule pool_pre_use [OF fresh_pool_pre]) auto
  from inv obtain own where own: "\<And>t. t < length (gs_types s) \<Longrightarrow> type_inv s own t"
    and fresh: "\<And>p. ?f \<le> p \<Longrightarrow> gs_pools s p = None" and f0: "0 < ?f" and off: "\<not> gs_use_gc s"
    by (auto simp: gc_inv_def)
  have T: "type_inv s own tid" by (rule own [OF tid])
  have qf: "q \<noteq> ?f" if "q \<noteq> 0"
    using T that fresh [of q] by (auto simp: type_inv_def Let_def q_def)
  define h2 where "h2 = (if q \<noteq> 0 then (gs_pools s)(?f \<mapsto> ?P0, q \<mapsto> (the (gs_pools s q))\<lparr>gp_next := ?f\<rparr>)
      else (gs_pools s)(?f \<mapsto> ?P0))"
  define T2 where "T2 = ?T\<lparr>gt_pool_head := (if gt_pool_head ?T = 0 then ?f else gt_pool_head ?T),
      gt_pool_last := ?f, gt_pool_count := gt_pool_count ?T + 1\<rparr>"
  define s2 where "s2 = s\<lparr>gs_fresh := ?f + 1, gs_pools := h2, gs_types := (gs_types s)[tid := T2]\<rparr>"
  have qSome: "\<exists>L. gs_pools s q = Some L \<and> pool_pre L 64" if "q \<noteq> 0"
    using T that full unfolding type_inv_def Let_def q_def by metis
  have create: "akl_gc_pool_create [0, 0] s tid = Some (?f, s2)"
  proof (cases "q = 0")
    case True
    then show ?thesis using tid
      by (simp add: akl_gc_pool_create_def s2_def h2_def T2_def Let_def q_def)
  next
    case False
    with qSome qf tid show ?thesis
      by (auto simp: akl_gc_pool_create_def s2_def h2_def T2_def Let_def q_def)
  qed
  have h2f: "h2 ?f = Some ?P0" using qf by (auto simp: h2_def)
  define h3 where "h3 = h2(?f \<mapsto> P1)"
  define s3 where "s3 = s2\<lparr>gs_last_was_mark := False, gs_pools := h3\<rparr>"
  have use1: "slot_use (s2\<lparr>gs_last_was_mark := False\<rparr>) ?f 0 = Some ((?f, 0), s3)"
    by (simp add: slot_use_def s3_def s2_def h2f P1(1) h3_def)
  have use2: "slot_use s2 ?f 0 = Some ((?f, 0), s3\<lparr>gs_last_was_mark := gs_last_was_mark s\<rparr>)"
    by (simp add: slot_use_def s3_def s2_def h2f P1(1) h3_def)
  define own' where "own' = own(?f := tid)"
  have h3x: "h3 x = gs_pools s x" if "x \<noteq> ?f" "x \<noteq> q \<or> q = 0" for x
    using that by (auto simp: h3_def h2_def)
  have ti: "type_inv s3 own' t" if t: "t < length (gs_types s)" for t
  proof (cases "t = tid")
    case True
    have "\<exists>xs. full_chain h3 own' tid (gt_pool_head T2) xs ?f"
    proof (cases "q = 0")
      case q0: True
      then have "gt_pool_head ?T = 0" using T by (simp add: type_inv_def Let_def q_def)
      then have "full_chain h3 own' tid (gt_pool_head T2) [] ?f" by (simp add: T2_def)
      then show ?thesis by blast
    next
      case q0: False
      then obtain xs where ch: "full_chain (gs_pools s) own tid (gt_pool_head ?T) xs q"
        and hd0: "gt_pool_head ?T \<noteq> 0" and oq: "own q = tid"
        using T by (auto simp: type_inv_def Let_def q_def)
      obtain L where L: "gs_pools s q = Some L" "pool_pre L 64" using qSome [OF q0] by blast
      have nf: "?f \<notin> set xs" using full_chain_set [OF ch, of ?f] fresh [of ?f] by auto
      have "full_chain h3 own' tid (gt_pool_head ?T) xs q"
      proof (rule full_chain_frame [OF ch])
        fix x assume x: "x \<in> set xs"
        then have "x \<noteq> ?f" "x \<noteq> q" using nf full_chain_set [OF ch x] by auto
        then show "h3 x = gs_pools s x \<and> own' x = own x" using h3x by (simp add: own'_def)
      qed
      moreover have "h3 q = Some (L\<lparr>gp_next := ?f\<rparr>)" using q0 qf L by (simp add: h3_def h2_def)
      moreover have "pool_pre (L\<lparr>gp_next := ?f\<rparr>) 64"
        using L(2) by (simp add: pool_pre_def pool_ok_def used_slots_def)
      ultimately have "full_chain h3 own' tid (gt_pool_head ?T) (xs @ [q]) ?f"
        using q0 qf nf oq by (intro full_chain_snoc) (auto simp: own'_def)
      then show ?thesis using hd0 by (auto simp: T2_def)
    qed
    then show ?thesis
      using True tid f0 P1(2) by (auto simp: type_inv_def Let_def s3_def s2_def T2_def h3_def own'_def)
  next
    case False
    show ?thesis
    proof (rule type_inv_frame [OF own [OF t]])
      show "gs_types s3 ! t = gs_types s ! t" using False by (simp add: s3_def s2_def)
      fix x assume x: "own x = t" "gs_pools s x \<noteq> None"
      then have "x \<noteq> ?f" using fresh [of ?f] by auto
      moreover have "x \<noteq> q \<or> q = 0"
        using x(1) False T by (auto simp: type_inv_def Let_def q_def)
      ultimately show "gs_pools s3 x = gs_pools s x \<and> own' x = own x"
        using h3x by (simp add: s3_def own'_def)
    qed
  qed
  have "gc_inv s3"
  proof -
    have "h3 p = None" if "?f + 1 \<le> p" for p
    proof -
      have "p \<noteq> ?f" "p \<noteq> q \<or> q = 0" using that fresh [of p] qSome by auto
      then show ?thesis using h3x fresh [of p] that by simp
    qed
    then show ?thesis
      unfolding gc_inv_def using ti off by (auto simp: s3_def s2_def intro!: exI [of _ own'])
  qed
  moreover have "live_slots s3 = insert (?f, 0) (live_slots s)"
  proof -
    have "(\<exists>P. h3 p = Some P \<and> i \<in> used_slots P) \<longleftrightarrow>
        (p, i) = (?f, 0) \<or> (\<exists>P. gs_pools s p = Some P \<and> i \<in> used_slots P)" for p i
    proof -
      consider "p = ?f" | "p \<noteq> ?f" "p = q" "q \<noteq> 0" | "p \<noteq> ?f" "p \<noteq> q \<or> q = 0" by auto
      then show ?thesis
      proof cases
        case 1
        then show ?thesis using P1(2) fresh [of ?f] by (auto simp: h3_def pool_pre_def)
      next
        case 2
        then show ?thesis using qSome by (auto simp: h3_def h2_def used_slots_def)
      next
        case 3
        then show ?thesis using h3x by auto
      qed
    qed
    then show ?thesis by (auto simp: live_slots_def s3_def)
  qed
  moreover have "length (gs_types s3) = length (gs_types s)" by (simp add: s3_def s2_def)
  ultimately show ?thesis using create use1 use2 by blast
qed

lemma gc_inv_mark [simp]: "gc_inv (s\<lparr>gs_last_was_mark := b\<rparr>) = gc_inv s"
  by (simp add: gc_inv_def type_inv_def)

lemma live_slots_mark [simp]: "live_slots (s\<lparr>gs_last_was_mark := b\<rparr>) = live_slots s"
  by (simp add: live_slots_def)

text \<open>Taking the next slot of a last pool that has room.\<close>

lemma last_use:
  assumes inv: "gc_inv s" and tid: "tid < length (gs_types s)"
    and q: "q = gt_pool_last (gs_types s ! tid)" "q \<noteq> 0"
    and L: "gs_pools s q = Some L" "pool_pre L n" "n < 64"
  shows "\<exists>s'. slot_use s q n = Some ((q, n), s') \<and> gc_inv s' \<and> (q, n) \<notin> live_slots s \<and>
    live_slots s' = insert (q, n) (live_slots s) \<and> gs_types s' = gs_types s"
proof -
  obtain L' where L': "akl_gc_pool_use L n = Some L'" "pool_pre L' (Suc n)" "gp_next L' = gp_next L"
    by (rule pool_pre_use [OF L(2,3)])
  define s' where "s' = s\<lparr>gs_pools := (gs_pools s)(q \<mapsto> L')\<rparr>"
  from inv obtain own where own: "\<And>t. t < length (gs_types s) \<Longrightarrow> type_inv s own t"
    and fresh: "\<And>p. gs_fresh s \<le> p \<Longrightarrow> gs_pools s p = None" and f0: "0 < gs_fresh s"
    and off: "\<not> gs_use_gc s"
    by (auto simp: gc_inv_def)
  have T: "type_inv s own tid" by (rule own [OF tid])
  have ti: "type_inv s' own t" if t: "t < length (gs_types s)" for t
  proof (cases "t = tid")
    case True
    obtain xs where ch: "full_chain (gs_pools s) own tid (gt_pool_head (gs_types s ! tid)) xs q"
      and hd0: "gt_pool_head (gs_types s ! tid) \<noteq> 0" and oq: "own q = tid"
      using T q by (auto simp: type_inv_def Let_def)
    have "full_chain (gs_pools s') own tid (gt_pool_head (gs_types s ! tid)) xs q"
      by (rule full_chain_frame [OF ch]) (use full_chain_set [OF ch] in \<open>auto simp: s'_def\<close>)
    then show ?thesis
      using True q hd0 oq L'(2) by (auto simp: type_inv_def Let_def s'_def)
  next
    case False
    show ?thesis
    proof (rule type_inv_frame [OF own [OF t]])
      show "gs_types s' ! t = gs_types s ! t" by (simp add: s'_def)
      fix x assume x: "own x = t" "gs_pools s x \<noteq> None"
      then have "x \<noteq> q" using T q False by (auto simp: type_inv_def Let_def)
      then show "gs_pools s' x = gs_pools s x \<and> own x = own x" by (simp add: s'_def)
    qed
  qed
  have "gs_pools s' p = None" if "gs_fresh s \<le> p" for p
    using fresh [OF that] L(1) by (auto simp: s'_def)
  then have "gc_inv s'"
    unfolding gc_inv_def using ti f0 off by (auto simp: s'_def intro!: exI [of _ own])
  moreover have "slot_use s q n = Some ((q, n), s')"
    using L(1) L'(1) by (simp add: slot_use_def s'_def)
  moreover have "(q, n) \<notin> live_slots s" using L by (auto simp: live_slots_def pool_pre_def)
  moreover have "live_slots s' = insert (q, n) (live_slots s)"
    using L L'(2) by (auto simp: live_slots_def s'_def pool_pre_def split: if_splits)
  ultimately show ?thesis by (auto simp: s'_def)
qed

lemma fresh_not_live: "gc_inv s \<Longrightarrow> (gs_fresh s, i) \<notin> live_slots s"
  by (auto simp: gc_inv_def live_slots_def)

lemma gc_malloc_step:
  assumes inv: "gc_inv s" and tid: "tid < length (gs_types s)"
  shows "\<exists>a s'. akl_gc_malloc [0, 0] mk s tid = Some (a, s') \<and> a \<notin> live_slots s \<and>
    live_slots s' = insert a (live_slots s) \<and> gc_inv s' \<and> length (gs_types s') = length (gs_types s)"
proof -
  let ?T = "gs_types s ! tid"
  define q where "q = gt_pool_last ?T"
  obtain own where T: "type_inv s own tid" using inv tid by (auto simp: gc_inv_def)
  have off: "\<not> gs_use_gc s" using inv by (simp add: gc_inv_def)
  consider (empty) "gt_pool_head ?T = 0" "q = 0"
    | (last) xs L n where "gt_pool_head ?T \<noteq> 0" "q \<noteq> 0" "gs_pools s q = Some L" "pool_pre L n"
        "full_chain (gs_pools s) own tid (gt_pool_head ?T) xs q"
    using T by (auto simp: type_inv_def Let_def q_def)
  then show ?thesis
  proof cases
    case empty
    then show ?thesis
      using create_use [OF inv tid] fresh_not_live [OF inv, of 0] tid
      by (auto simp: akl_gc_malloc.simps akl_gc_type_have_free_def Let_def q_def)
  next
    case last
    show ?thesis
    proof (cases "n < 64")
      case True
      then show ?thesis
        using last_use [OF inv tid q_def last(2-4)] last tid
        by (auto simp: akl_gc_malloc.simps akl_gc_type_have_free_def Let_def q_def
            pool_pre_free find_free_pre)
    next
      case False
      then have n: "n = 64" using last(4) by (simp add: pool_pre_def)
      have cu: "\<exists>s2 s3. akl_gc_pool_create [0, 0] s tid = Some (gs_fresh s, s2) \<and>
        slot_use (s2\<lparr>gs_last_was_mark := False\<rparr>) (gs_fresh s) 0 = Some ((gs_fresh s, 0), s3) \<and>
        gc_inv s3 \<and> live_slots s3 = insert (gs_fresh s, 0) (live_slots s)
        \<and> length (gs_types s3) = length (gs_types s)"
      proof -
        have "m = 64" if "gs_pools s (gt_pool_last ?T) = Some L'" "pool_pre L' m" for L' m
          using that last(3,4) n pool_pre_unique [of L m 64] by (auto simp: q_def)
        then show ?thesis using create_use [OF inv tid] by blast
      qed
      show ?thesis
        using cu fresh_not_live [OF inv, of 0] tid last n off
        by (auto simp: akl_gc_malloc.simps akl_gc_type_have_free_def Let_def q_def
            pool_pre_free loop_full_chain)
    qed
  qed
qed

text \<open>Only the free map that the \<open>memset\<close> leaves matters.\<close>

lemma have_free_garbage:
  "new_freemap g = new_freemap g' \<Longrightarrow> akl_gc_type_have_free g = akl_gc_type_have_free g'"
  "new_freemap g = new_freemap g' \<Longrightarrow> akl_gc_pool_create g = akl_gc_pool_create g'"
proof -
  assume "new_freemap g = new_freemap g'"
  then show c: "akl_gc_pool_create g = akl_gc_pool_create g'"
    by (intro ext) (simp only: akl_gc_pool_create_def)
  show "akl_gc_type_have_free g = akl_gc_type_have_free g'"
    by (intro ext) (simp only: akl_gc_type_have_free_def c)
qed

lemma gc_malloc_garbage:
  "new_freemap g = new_freemap g' \<Longrightarrow> akl_gc_malloc g mk s tid = akl_gc_malloc g' mk s tid"
proof (induction g mk s tid rule: akl_gc_malloc.induct)
  case (1 g mk s tid)
  note e = have_free_garbage [OF "1.prems"]
  consider "length (gs_types s) \<le> tid" | "akl_gc_type_have_free g s tid = None"
    | p i s1 where "\<not> length (gs_types s) \<le> tid" "akl_gc_type_have_free g s tid = Some ((True, p, i), s1)"
    | p i s1 where "\<not> length (gs_types s) \<le> tid" "akl_gc_type_have_free g s tid = Some ((False, p, i), s1)"
    by (cases "akl_gc_type_have_free g s tid") (auto, metis (full_types) prod.exhaust)
  then show ?case
  proof cases
    case 3
    then show ?thesis
      by (simp add: akl_gc_malloc.simps [of g mk s tid] akl_gc_malloc.simps [of g' mk s tid] e [symmetric])
  next
    case 4
    then show ?thesis
      using "1.IH" [OF 4 refl refl refl refl _ _ "1.prems"]
      by (auto simp: akl_gc_malloc.simps [of g mk s tid] akl_gc_malloc.simps [of g' mk s tid] e [symmetric] split: option.split)
  qed (simp_all add: akl_gc_malloc.simps [of g mk s tid] akl_gc_malloc.simps [of g' mk s tid] e [symmetric])
qed

interpretation gc: allocator "\<lambda>s. gc_inv s \<and> tid < length (gs_types s)" live_slots
  "\<lambda>s. akl_gc_malloc [0, 0] mk s tid" for tid mk
proof unfold_locales
  fix s a s'
  assume "gc_inv s \<and> tid < length (gs_types s)" "akl_gc_malloc [0, 0] mk s tid = Some (a, s')"
  then show "a \<notin> live_slots s \<and> live_slots s' = insert a (live_slots s) \<and>
      gc_inv s' \<and> tid < length (gs_types s')"
    using gc_malloc_step [of s tid mk] by auto
qed

lemma gc_malloc_n_total:
  "gc_inv s \<Longrightarrow> tid < length (gs_types s) \<Longrightarrow>
   \<exists>as s'. alloc_n (\<lambda>s. akl_gc_malloc [0, 0] mk s tid) n s = Some (as, s') \<and> length as = n"
proof (induction n arbitrary: s)
  case 0
  then show ?case by simp
next
  case (Suc n)
  obtain a s1 where a: "akl_gc_malloc [0, 0] mk s tid = Some (a, s1)" "gc_inv s1" "tid < length (gs_types s1)"
    using gc_malloc_step [OF Suc.prems, of mk] Suc.prems(2) by auto
  then show ?case using Suc.IH [OF a(2,3)] by auto
qed

subsection \<open>Allocation in memory that was not zero\<close>

lemma first_clear_bit_None: "first_clear_bit w js = None \<longleftrightarrow> (\<forall>j\<in>set js. IS_BIT_SET w j)"
  by (induction js) auto

lemma first_clear_bit_Some: "first_clear_bit w js = Some j \<Longrightarrow> j \<in> set js \<and> \<not> IS_BIT_SET w j"
  by (induction js) (auto split: if_splits)

lemma first_clear_bit_least:
  "first_clear_bit w js = Some j \<Longrightarrow> sorted js \<Longrightarrow> i \<in> set js \<Longrightarrow> \<not> IS_BIT_SET w i \<Longrightarrow> j \<le> i"
  by (induction js) (auto split: if_splits)

text \<open>The search when the first word is full and the slot that the counter names is taken.\<close>

lemma find_free_second_word:
  assumes "gp_freemap p = [UINT_MAX, w]" "w \<noteq> UINT_MAX" "gp_count p = of_nat c" "c < 64" "c \<in> used_slots p"
  shows "\<exists>j. akl_gc_pool_find_free p = Some (int j) \<and> j < 32 \<and> \<not> bit w j \<and> (\<forall>i<32. \<not> bit w i \<longrightarrow> j \<le> i)"
proof -
  have ok: "pool_ok p" using assms(1) by (simp add: pool_ok_def)
  obtain j where j: "first_clear_bit w [0..<32] = Some j"
    using assms(2) first_clear_bit_None [of w "[0..<32]"] UINT_MAX_iff [of w]
    by (cases "first_clear_bit w [0..<32]") (auto simp: IS_BIT_SET_bit)
  have "sint (gp_count p) = int c"
    using assms(3,4) by (simp add: signed_of_nat signed_take_bit_int_eq_self)
  then have "akl_gc_pool_find_free p = Some (int j)"
    using in_use_iff [OF ok assms(4)] assms j
    by (simp add: akl_gc_pool_find_free_def AKL_GC_POOL_SIZE_def BITS_IN_UINT_def)
  moreover have "j < 32" "\<not> bit w j" using first_clear_bit_Some [OF j] by (auto simp: IS_BIT_SET_bit)
  moreover have "j \<le> i" if "i < 32" "\<not> bit w i" for i
    using first_clear_bit_least [OF j, of i] that by (simp add: IS_BIT_SET_bit)
  ultimately show ?thesis by blast
qed

text \<open>
  The pool of a type whose free map had the high half of its first word set by \<open>malloc\<close>, after
  \<open>n\<close> allocations.
\<close>

definition dirty_pool :: "u32 \<Rightarrow> nat \<Rightarrow> gc_pool \<Rightarrow> bool" where
  "dirty_pool w n P \<longleftrightarrow> pool_ok P \<and> gp_count P = of_nat n \<and> gp_freemap P ! 1 = w \<and>
     (\<forall>i<32. bit (gp_freemap P ! 0) i \<longleftrightarrow> i < n \<or> 16 \<le> i)"

definition dirty_at :: "gc_state \<Rightarrow> nat \<Rightarrow> addr \<Rightarrow> u32 \<Rightarrow> nat \<Rightarrow> bool" where
  "dirty_at s tid p w n \<longleftrightarrow> tid < length (gs_types s) \<and> gt_pool_head (gs_types s ! tid) \<noteq> 0 \<and>
     gt_pool_last (gs_types s ! tid) = p \<and> (\<exists>P. gs_pools s p = Some P \<and> dirty_pool w n P)"

lemma dirty_used: "dirty_pool w n P \<Longrightarrow> i < 32 \<Longrightarrow> i \<in> used_slots P \<longleftrightarrow> i < n \<or> 16 \<le> i"
  by (simp add: dirty_pool_def used_slots_def)

lemma dirty_use:
  assumes "dirty_pool w n P" "n < 16"
  shows "\<exists>P'. akl_gc_pool_use P n = Some P' \<and> dirty_pool w (Suc n) P'"
proof -
  have len: "length (gp_freemap P) = 2" using assms(1) by (simp add: dirty_pool_def pool_ok_def)
  have n: "n div 32 = 0" "n mod 32 = n" using assms(2) by simp_all
  show ?thesis
    using assms len n
    by (auto simp: akl_gc_pool_use_def AKL_GC_POOL_SIZE_def BITS_IN_UINT_def dirty_pool_def pool_ok_def bit_SET_BIT)
qed

lemma dirty_malloc:
  assumes "dirty_at s tid p w n" "n < 16"
  shows "\<exists>s'. akl_gc_malloc g mk s tid = Some ((p, n), s') \<and> dirty_at s' tid p w (Suc n)"
proof -
  obtain P where P: "tid < length (gs_types s)" "gt_pool_head (gs_types s ! tid) \<noteq> 0"
    "gt_pool_last (gs_types s ! tid) = p" "gs_pools s p = Some P" "dirty_pool w n P"
    using assms(1) by (auto simp: dirty_at_def)
  obtain P' where P': "akl_gc_pool_use P n = Some P'" "dirty_pool w (Suc n) P'"
    using dirty_use [OF P(5) assms(2)] by blast
  have ok: "pool_ok P" "gp_count P = of_nat n" using P(5) by (simp_all add: dirty_pool_def)
  have nu: "n \<notin> used_slots P" using dirty_used [OF P(5), of n] assms(2) by simp
  then have free: "akl_gc_pool_have_free P" using have_free_iff [OF ok(1)] assms(2) by auto
  have "sint (gp_count P) = int n" using ok(2) assms(2) by (simp add: signed_of_nat signed_take_bit_int_eq_self)
  then have "akl_gc_pool_find_free P = Some (int n)"
    using in_use_iff [OF ok(1), of n] nu assms(2) by (simp add: akl_gc_pool_find_free_def AKL_GC_POOL_SIZE_def)
  then have "akl_gc_malloc g mk s tid = Some ((p, n), s\<lparr>gs_pools := (gs_pools s)(p \<mapsto> P')\<rparr>)"
    using P P'(1) free by (simp add: akl_gc_malloc.simps akl_gc_type_have_free_def Let_def slot_use_def)
  then show ?thesis using P(1-3) P'(2) by (auto simp: dirty_at_def)
qed

lemma dirty_malloc_17:
  assumes "dirty_at s tid p w 16" "j < 16" "\<not> bit w j"
  shows "\<exists>i s'. akl_gc_malloc g mk s tid = Some ((p, i), s') \<and> i \<le> j"
proof -
  obtain P where P: "tid < length (gs_types s)" "gt_pool_head (gs_types s ! tid) \<noteq> 0"
    "gt_pool_last (gs_types s ! tid) = p" "gs_pools s p = Some P" "dirty_pool w 16 P"
    using assms(1) by (auto simp: dirty_at_def)
  have ok: "pool_ok P" "gp_count P = of_nat 16" using P(5) by (simp_all add: dirty_pool_def)
  obtain a where a: "gp_freemap P = [a, w]"
    using P(5) unfolding dirty_pool_def pool_ok_def
    by (auto simp: numeral_2_eq_2 length_Suc_conv)
  have "\<forall>i<32. bit a i" using P(5) a by (auto simp: dirty_pool_def)
  then have m: "gp_freemap P = [UINT_MAX, w]" using a UINT_MAX_iff [of a] by simp
  have w: "w \<noteq> UINT_MAX" using assms(2,3) UINT_MAX_iff [of w] by auto
  have used: "16 \<in> used_slots P" using dirty_used [OF P(5), of 16] by simp
  obtain i where i: "akl_gc_pool_find_free P = Some (int i)" "i < 32" "\<forall>k<32. \<not> bit w k \<longrightarrow> i \<le> k"
    using find_free_second_word [OF m w ok(2) _ used] by auto
  have ij: "i \<le> j" using i(3) assms(2,3) by simp
  have "32 + j \<notin> used_slots P" using assms(2,3) by (simp add: used_slots_def m)
  then have free: "akl_gc_pool_have_free P" using have_free_iff [OF ok(1)] assms(2) by auto
  obtain P' where "akl_gc_pool_use P i = Some P'" using pool_use_ok [OF ok(1), of i] i(2) by auto
  then have "akl_gc_malloc g mk s tid = Some ((p, i), s\<lparr>gs_pools := (gs_pools s)(p \<mapsto> P')\<rparr>)"
    using P i(1) free by (simp add: akl_gc_malloc.simps akl_gc_type_have_free_def Let_def slot_use_def)
  then show ?thesis using ij by blast
qed

lemma dirty_first:
  assumes "tid < length (gs_types s)" "gt_pool_head (gs_types s ! tid) = 0" "gt_pool_last (gs_types s ! tid) = 0"
    "gs_fresh s \<noteq> 0" "new_freemap g = [0xFFFF0000, w]"
  shows "\<exists>s'. akl_gc_malloc g mk s tid = Some ((gs_fresh s, 0), s') \<and> dirty_at s' tid (gs_fresh s) w 1"
proof -
  let ?P = "\<lparr>gp_count = 0, gp_marks = replicate AKL_GC_POOL_SIZE False, gp_next = 0, gp_freemap = [0xFFFF0000, w]\<rparr>"
  have "bit (0xFFFF0000 :: u32) i \<longleftrightarrow> 16 \<le> i" if "i < 32" for i
  proof -
    have e: "(0xFFFF0000 :: u32) = NOT (mask 16)" by (simp add: mask_eq_exp_minus_1)
    show ?thesis using that unfolding e bit_not_iff bit_mask_iff by auto
  qed
  then have "dirty_pool w 0 ?P" by (simp add: dirty_pool_def pool_ok_def)
  then obtain P' where "akl_gc_pool_use ?P 0 = Some P'" "dirty_pool w 1 P'" using dirty_use [of w 0 ?P] by auto
  then show ?thesis
    using assms by (auto simp: akl_gc_malloc.simps akl_gc_type_have_free_def akl_gc_pool_create_def Let_def slot_use_def dirty_at_def)
qed

lemma alloc_n_Cons: "f s = Some (a, s1) \<Longrightarrow> alloc_n f n s1 = Some (as, s') \<Longrightarrow> alloc_n f (Suc n) s = Some (a # as, s')"
  by simp

lemma dirty_run:
  "dirty_at s tid p w n \<Longrightarrow> n \<le> 16 \<Longrightarrow> j < 16 \<Longrightarrow> \<not> bit w j \<Longrightarrow>
   \<exists>i s'. alloc_n (\<lambda>s. akl_gc_malloc g mk s tid) (17 - n) s = Some (map (Pair p) ([n..<16] @ [i]), s') \<and> i \<le> j"
proof (induction "16 - n" arbitrary: n s)
  case 0
  then have n: "n = 16" by simp
  obtain i s' where "akl_gc_malloc g mk s tid = Some ((p, i), s')" "i \<le> j"
    using dirty_malloc_17 [of s tid p w j g mk] 0 n by blast
  then show ?case unfolding n by auto
next
  case (Suc d)
  then have lt: "n < 16" "17 - n = Suc (17 - Suc n)" "d = 16 - Suc n" by simp_all
  obtain s1 where s1: "akl_gc_malloc g mk s tid = Some ((p, n), s1)" "dirty_at s1 tid p w (Suc n)"
    using dirty_malloc [OF Suc.prems(1) lt(1)] by blast
  obtain i s' where "alloc_n (\<lambda>s. akl_gc_malloc g mk s tid) (17 - Suc n) s1 = Some (map (Pair p) ([Suc n..<16] @ [i]), s')" "i \<le> j"
    using Suc.hyps(1) [OF lt(3) s1(2)] lt(1) Suc.prems(3,4) by auto
  then show ?case using s1(1) lt by (simp add: upt_conv_Cons [of n])
qed

subsection \<open>Sweeping\<close>

text \<open>A chain of pools in the heap.\<close>

fun pool_links :: "(addr \<Rightarrow> gc_pool option) \<Rightarrow> addr \<Rightarrow> addr list \<Rightarrow> bool" where
  "pool_links h p [] \<longleftrightarrow> p = 0"
| "pool_links h p (x # xs) \<longleftrightarrow> p = x \<and> x \<noteq> 0 \<and>
     (case h x of None \<Rightarrow> False | Some P \<Rightarrow> pool_ok P \<and> pool_links h (gp_next P) xs)"

text \<open>
  The markers, called to clear a mark, may clear the marks of other objects too, and change
  nothing else.
\<close>

definition fewer_marks :: "gc_pool \<Rightarrow> gc_pool \<Rightarrow> bool" where
  "fewer_marks P Q \<longleftrightarrow> Q = P\<lparr>gp_marks := gp_marks Q\<rparr> \<and> (\<forall>j. gp_marks Q ! j \<longrightarrow> gp_marks P ! j)"

definition only_unmarks :: "(slot \<Rightarrow> gc_state \<Rightarrow> gc_state) \<Rightarrow> bool" where
  "only_unmarks mk \<longleftrightarrow> (\<forall>sl s. \<exists>h. mk sl s = s\<lparr>gs_pools := h\<rparr> \<and> (\<forall>p. rel_option fewer_marks (gs_pools s p) (h p)))"

definition less_used :: "gc_pool \<Rightarrow> gc_pool \<Rightarrow> bool" where
  "less_used P Q \<longleftrightarrow> gp_next Q = gp_next P \<and> (pool_ok P \<longrightarrow> pool_ok Q) \<and> used_slots Q \<subseteq> used_slots P \<and>
     (\<forall>j. gp_marks Q ! j \<longrightarrow> gp_marks P ! j)"

text \<open>A sweep of the pools in \<open>A\<close>: these may lose slots, all may lose marks.\<close>

definition swept :: "addr set \<Rightarrow> gc_state \<Rightarrow> gc_state \<Rightarrow> bool" where
  "swept A s s' \<longleftrightarrow> (\<exists>h. s' = s\<lparr>gs_pools := h\<rparr>) \<and>
     (\<forall>q. rel_option (if q \<in> A then less_used else fewer_marks) (gs_pools s q) (gs_pools s' q))"

lemma fewer_less: "fewer_marks P Q \<Longrightarrow> less_used P Q"
  unfolding fewer_marks_def less_used_def pool_ok_def used_slots_def by (cases P, cases Q) simp

lemma fewer_refl [simp]: "fewer_marks P P" "less_used P P"
  by (simp_all add: fewer_marks_def less_used_def)

lemma fewer_trans: "fewer_marks P Q \<Longrightarrow> fewer_marks Q R \<Longrightarrow> fewer_marks P R"
  unfolding fewer_marks_def by (cases P, cases Q, cases R) simp

lemma less_trans: "less_used P Q \<Longrightarrow> less_used Q R \<Longrightarrow> less_used P R"
  unfolding less_used_def by auto

lemma rel_option_some: "rel_option R (Some P) y \<longleftrightarrow> (\<exists>Q. y = Some Q \<and> R P Q)"
  by (cases y) auto

lemma swept_refl [simp]: "swept A s s"
proof -
  have "s = s\<lparr>gs_pools := gs_pools s\<rparr>" by simp
  moreover have "rel_option (if q \<in> A then less_used else fewer_marks) (gs_pools s q) (gs_pools s q)" for q
    by (cases "gs_pools s q") simp_all
  ultimately show ?thesis unfolding swept_def by blast
qed

lemma swept_trans:
  assumes "swept A s t" "swept B t u" shows "swept (A \<union> B) s u"
proof -
  obtain h k where "t = s\<lparr>gs_pools := h\<rparr>" "u = t\<lparr>gs_pools := k\<rparr>" using assms unfolding swept_def by blast
  then have "u = s\<lparr>gs_pools := k\<rparr>" by simp
  moreover have "rel_option (if q \<in> A \<union> B then less_used else fewer_marks) (gs_pools s q) (gs_pools u q)" for q
  proof -
    have "rel_option (if q \<in> A then less_used else fewer_marks) (gs_pools s q) (gs_pools t q)"
      "rel_option (if q \<in> B then less_used else fewer_marks) (gs_pools t q) (gs_pools u q)"
      using assms unfolding swept_def by blast+
    then show ?thesis
      by (cases "gs_pools s q"; cases "gs_pools t q"; cases "gs_pools u q")
        (auto intro: fewer_trans less_trans fewer_less split: if_splits)
  qed
  ultimately show ?thesis unfolding swept_def by blast
qed

lemma swept_pool: "swept A s s' \<Longrightarrow> gs_pools s x = Some P \<Longrightarrow> \<exists>Q. gs_pools s' x = Some Q \<and> less_used P Q"
proof -
  assume a: "swept A s s'" "gs_pools s x = Some P"
  have "rel_option (if x \<in> A then less_used else fewer_marks) (gs_pools s x) (gs_pools s' x)"
    using a(1) unfolding swept_def by blast
  then show ?thesis using fewer_less by (auto simp: a(2) rel_option_some split: if_splits)
qed

lemma swept_types: "swept A s s' \<Longrightarrow> gs_types s' = gs_types s"
  unfolding swept_def by auto

lemma swept_links: "swept A s s' \<Longrightarrow> pool_links (gs_pools s) p xs \<Longrightarrow> pool_links (gs_pools s') p xs"
proof (induction xs arbitrary: p)
  case (Cons x xs)
  then obtain P where P: "gs_pools s x = Some P" "pool_ok P" "pool_links (gs_pools s) (gp_next P) xs" "p = x" "x \<noteq> 0"
    by (auto split: option.splits)
  obtain Q where "gs_pools s' x = Some Q" "less_used P Q" using swept_pool [OF Cons.prems(1) P(1)] by blast
  then show ?case using P Cons.IH [OF Cons.prems(1) P(3)] by (simp add: less_used_def)
qed simp

lemma swept_one: "gs_pools s p = Some P \<Longrightarrow> less_used P Q \<Longrightarrow> swept {p} s (s\<lparr>gs_pools := (gs_pools s)(p \<mapsto> Q)\<rparr>)"
proof -
  assume a: "gs_pools s p = Some P" "less_used P Q"
  have "rel_option (if q \<in> {p} then less_used else fewer_marks) (gs_pools s q) (((gs_pools s)(p \<mapsto> Q)) q)" for q
    using a by (cases "gs_pools s q") auto
  then show ?thesis unfolding swept_def by auto
qed

lemma sweep_slots_ok:
  assumes "only_unmarks mk" "gs_pools s p = Some P" "pool_ok P" "\<forall>i\<in>set is. i < 64"
  shows "\<exists>s' Q. sweep_slots mk p is s = Some s' \<and> swept {p} s s' \<and> gs_pools s' p = Some Q \<and>
    (\<forall>j\<in>set is. j \<in> used_slots Q \<longrightarrow> gp_marks P ! j)"
  using assms(2-4)
proof (induction "is" arbitrary: s P)
  case Nil
  then show ?case by simp
next
  case (Cons i "is")
  have i: "i < 64" using Cons.prems(3) by simp
  obtain s1 P1 where s1: "sweep_slots mk p (i # is) s = sweep_slots mk p is s1" "swept {p} s s1"
    "gs_pools s1 p = Some P1" "i \<in> used_slots P1 \<longrightarrow> gp_marks P ! i"
  proof (cases "i \<in> used_slots P")
    case used: True
    show thesis
    proof (cases "gp_marks P ! i")
      case True
      obtain h where h: "mk (p, i) s = s\<lparr>gs_pools := h\<rparr>" "\<And>q. rel_option fewer_marks (gs_pools s q) (h q)"
        using assms(1) unfolding only_unmarks_def by blast
      have "rel_option (if q \<in> {p} then less_used else fewer_marks) (gs_pools s q) (h q)" for q
        using h(2) [of q] fewer_less by (cases "gs_pools s q"; cases "h q") auto
      then have sw: "swept {p} s (s\<lparr>gs_pools := h\<rparr>)" unfolding swept_def by auto
      moreover obtain Q where "h p = Some Q" using h(2) [of p] Cons.prems(1) by (auto simp: rel_option_some)
      moreover have "sweep_slots mk p (i # is) s = sweep_slots mk p is (s\<lparr>gs_pools := h\<rparr>)"
        using Cons.prems(1) in_use_iff [OF Cons.prems(2) i] used True h(1) by simp
      ultimately show thesis using that True by simp
    next
      case False
      obtain Q where Q: "akl_gc_pool_clear_use P i = Some Q" "pool_ok Q" "used_slots Q = used_slots P - {i}"
        "gp_next Q = gp_next P" "gp_marks Q = gp_marks P"
        using pool_clear_ok [OF Cons.prems(2) i] by blast
      then have "less_used P Q" by (auto simp: less_used_def)
      then have "swept {p} s (s\<lparr>gs_pools := (gs_pools s)(p \<mapsto> Q)\<rparr>)" by (rule swept_one [OF Cons.prems(1)])
      moreover have "sweep_slots mk p (i # is) s = sweep_slots mk p is (s\<lparr>gs_pools := (gs_pools s)(p \<mapsto> Q)\<rparr>)"
        using Cons.prems(1) in_use_iff [OF Cons.prems(2) i] used False Q(1) by simp
      ultimately show thesis using that [of _ Q] Q(3) by simp
    qed
  next
    case False
    then show thesis using that [of s P] Cons.prems in_use_iff [OF Cons.prems(2) i] by simp
  qed
  obtain P2 where P2: "gs_pools s1 p = Some P2" "less_used P P2" using swept_pool [OF s1(2) Cons.prems(1)] by blast
  then have P1: "P2 = P1" "pool_ok P1" using s1(3) Cons.prems(2) by (auto simp: less_used_def)
  obtain s' Q where s': "sweep_slots mk p is s1 = Some s'" "swept {p} s1 s'" "gs_pools s' p = Some Q"
    "\<forall>j\<in>set is. j \<in> used_slots Q \<longrightarrow> gp_marks P1 ! j"
    using Cons.IH [OF s1(3) P1(2)] Cons.prems(3) by auto
  have "less_used P1 Q" using swept_pool [OF s'(2) s1(3)] s'(3) by auto
  then have "\<forall>j\<in>set (i # is). j \<in> used_slots Q \<longrightarrow> gp_marks P ! j"
    using s'(4) s1(4) P2(2) unfolding P1(1) less_used_def by auto
  then show ?case using s1(1) s'(1,3) swept_trans [OF s1(2) s'(2)] by auto
qed

text \<open>The pools in \<open>A\<close> keep at most what was marked.\<close>

definition kept_marked :: "addr set \<Rightarrow> gc_state \<Rightarrow> gc_state \<Rightarrow> bool" where
  "kept_marked A s s' \<longleftrightarrow> swept A s s' \<and>
     (\<forall>x\<in>A. \<forall>P Q. gs_pools s x = Some P \<longrightarrow> gs_pools s' x = Some Q \<longrightarrow> used_slots Q \<subseteq> {j. gp_marks P ! j})"

lemma kept_marked_trans:
  assumes "kept_marked A s t" "kept_marked B t u" shows "kept_marked (A \<union> B) s u"
proof -
  have sw: "swept A s t" "swept B t u" using assms by (simp_all add: kept_marked_def)
  have "used_slots R \<subseteq> {j. gp_marks P ! j}" if x: "x \<in> A \<union> B" "gs_pools s x = Some P" "gs_pools u x = Some R" for x P R
  proof -
    obtain Q where Q: "gs_pools t x = Some Q" "less_used P Q" using swept_pool [OF sw(1) x(2)] by blast
    have "less_used Q R" using swept_pool [OF sw(2) Q(1)] x(3) by auto
    moreover have "x \<in> A \<Longrightarrow> used_slots Q \<subseteq> {j. gp_marks P ! j}" "x \<in> B \<Longrightarrow> used_slots R \<subseteq> {j. gp_marks Q ! j}"
      using assms Q(1) x(2,3) unfolding kept_marked_def by blast+
    moreover have "{j. gp_marks Q ! j} \<subseteq> {j. gp_marks P ! j}" using Q(2) unfolding less_used_def by blast
    moreover have "used_slots R \<subseteq> used_slots Q" using calculation(1) unfolding less_used_def by blast
    ultimately show ?thesis using x(1) by blast
  qed
  then show ?thesis using swept_trans [OF sw] unfolding kept_marked_def by blast
qed

lemma sweep_pool_ok:
  assumes mk: "only_unmarks mk"
  shows "pool_links (gs_pools s) p xs \<Longrightarrow>
    \<exists>s'. akl_gc_sweep_pool mk True p s = Some s' \<and> kept_marked (set xs) s s'"
proof (induction xs arbitrary: p s)
  case Nil
  then show ?case by (simp add: akl_gc_sweep_pool.simps kept_marked_def)
next
  case (Cons x xs)
  then obtain P where P: "p = x" "x \<noteq> 0" "gs_pools s x = Some P" "pool_ok P" "pool_links (gs_pools s) (gp_next P) xs"
    by (auto split: option.splits)
  have "\<forall>i\<in>set [0..<64]. i < (64::nat)" unfolding set_upt by (blast dest: atLeastLessThan_iff [THEN iffD1])
  then obtain s1 Q where s1: "sweep_slots mk x [0..<64] s = Some s1" "swept {x} s s1" "gs_pools s1 x = Some Q"
    "\<forall>j\<in>{0..<64}. j \<in> used_slots Q \<longrightarrow> gp_marks P ! j"
    using sweep_slots_ok [OF mk P(3,4), of "[0..<64]"] unfolding set_upt by blast
  have n: "gp_next Q = gp_next P" using swept_pool [OF s1(2) P(3)] s1(3) by (auto simp: less_used_def)
  have "used_slots Q \<subseteq> {j. gp_marks P ! j}" using s1(4) used_slots_bound [of Q] unfolding atLeast0LessThan by blast
  then have k: "kept_marked {x} s s1" using s1(2,3) P(3) by (simp add: kept_marked_def)
  obtain s' where s': "akl_gc_sweep_pool mk True (gp_next P) s1 = Some s'" "kept_marked (set xs) s1 s'"
    using Cons.IH [OF swept_links [OF s1(2) P(5)]] by blast
  have "akl_gc_sweep_pool mk True p s = Some s'"
    using P(2) s1(1,3) n s'(1)
    unfolding P(1) akl_gc_sweep_pool.simps [of mk True x s] AKL_GC_POOL_SIZE_def by (simp del: upt_rec_numeral)
  then show ?case using kept_marked_trans [OF k s'(2)] by auto
qed

definition marker_pools :: "gc_state \<Rightarrow> (nat \<Rightarrow> addr list) \<Rightarrow> nat set \<Rightarrow> addr set" where
  "marker_pools s xs I = (\<Union>i\<in>{i\<in>I. gt_has_marker (gs_types s ! i)}. set (xs i))"

lemma sweep_types_ok:
  assumes mk: "\<And>i. only_unmarks (mk i)"
  shows "\<forall>i\<in>set is. i < length (gs_types s) \<and> pool_links (gs_pools s) (gt_pool_head (gs_types s ! i)) (xs i) \<Longrightarrow>
    \<exists>s'. gc_sweep_types mk is s = Some s' \<and> kept_marked (marker_pools s xs (set is)) s s'"
proof (induction "is" arbitrary: s)
  case Nil
  then show ?case by (simp add: kept_marked_def marker_pools_def)
next
  case (Cons i "is")
  let ?b = "gt_has_marker (gs_types s ! i)"
  obtain s1 where s1: "akl_gc_sweep_pool (mk i) ?b (gt_pool_head (gs_types s ! i)) s = Some s1"
    "kept_marked (if ?b then set (xs i) else {}) s s1"
  proof (cases ?b)
    case True
    then show thesis using that sweep_pool_ok [OF mk [of i], of s "gt_pool_head (gs_types s ! i)" "xs i"] Cons.prems by auto
  next
    case False
    then show thesis using that [of s] by (simp add: akl_gc_sweep_pool.simps kept_marked_def)
  qed
  have sw: "swept (if ?b then set (xs i) else {}) s s1" using s1(2) by (simp add: kept_marked_def)
  have t: "gs_types s1 = gs_types s" by (rule swept_types [OF sw])
  have "\<forall>i\<in>set is. i < length (gs_types s1) \<and> pool_links (gs_pools s1) (gt_pool_head (gs_types s1 ! i)) (xs i)"
    using Cons.prems swept_links [OF sw] by (simp add: t)
  then obtain s' where s': "gc_sweep_types mk is s1 = Some s'" "kept_marked (marker_pools s1 xs (set is)) s1 s'"
    using Cons.IH by blast
  have "marker_pools s xs (set (i # is)) = (if ?b then set (xs i) else {}) \<union> marker_pools s1 xs (set is)"
    by (auto simp: marker_pools_def t)
  then show ?case using kept_marked_trans [OF s1(2) s'(2)] s1(1) s'(1) Cons.prems by simp
qed

subsection \<open>Empty pools\<close>

text \<open>A pool counts as empty when no slot is in use, and also when the two words add up to \<open>2 ^ 32\<close>.\<close>

lemma mod_small_sum:
  fixes x M :: int assumes "0 \<le> x" "x < 2 * M"
  shows "x mod M = 0 \<longleftrightarrow> x = 0 \<or> x = M"
proof (cases "x < M")
  case False
  then have "x mod M = (x - M) mod M" by simp
  also have "\<dots> = x - M" by (rule mod_pos_pos_trivial) (use assms False in linarith)+
  finally show ?thesis using False assms by auto
qed (use assms in auto)

lemma pool_is_empty_iff:
  assumes "pool_ok P"
  shows "akl_gc_pool_is_empty P \<longleftrightarrow>
    used_slots P = {} \<or> uint (gp_freemap P ! 0) + uint (gp_freemap P ! 1) = 2 ^ 32"
proof -
  obtain a b where ab: "gp_freemap P = [a, b]"
    using assms unfolding pool_ok_def
    by (metis (no_types, opaque_lifting) length_0_conv length_Suc_conv numeral_2_eq_2)
  have bits: "w = 0 \<longleftrightarrow> (\<forall>i<32. \<not> bit w i)" for w :: u32
    by (auto simp: bit_eq_iff)
  have "used_slots P = {} \<longleftrightarrow> (\<forall>i<64. \<not> bit (gp_freemap P ! (i div 32)) (i mod 32))"
    by (auto simp: used_slots_def)
  also have "\<dots> \<longleftrightarrow> (\<forall>i<32. \<not> bit a i) \<and> (\<forall>i<32. \<not> bit b i)"
  proof safe
    fix i :: nat assume all: "\<forall>i<64. \<not> bit (gp_freemap P ! (i div 32)) (i mod 32)" and i: "i < 32"
    show "bit a i \<Longrightarrow> False" using all [rule_format, of i] i by (simp add: ab)
    show "bit b i \<Longrightarrow> False" using all [rule_format, of "i + 32"] i by (simp add: ab)
  next
    fix i :: nat assume a: "\<forall>i<32. \<not> bit a i" and b: "\<forall>i<32. \<not> bit b i" and i: "i < 64"
      and c: "bit (gp_freemap P ! (i div 32)) (i mod 32)"
    from i have "i div 32 = 0 \<or> i div 32 = 1" by linarith
    then show False using a b c by (auto simp: ab)
  qed
  finally have e: "used_slots P = {} \<longleftrightarrow> a = 0 \<and> b = 0" unfolding bits .
  have "a + b = 0 \<longleftrightarrow> a = 0 \<and> b = 0 \<or> uint a + uint b = 2 ^ 32"
  proof -
    have r: "0 \<le> uint a" "uint a < 2 ^ 32" "0 \<le> uint b" "uint b < 2 ^ 32"
      using uint_lt2p [of a] uint_lt2p [of b] by simp_all
    have "uint (a + b) = (uint a + uint b) mod 2 ^ 32" using uint_word_ariths(1) [of a b] by simp
    then have "a + b = 0 \<longleftrightarrow> (uint a + uint b) mod 2 ^ 32 = 0" by (metis uint_0_iff)
    also have "\<dots> \<longleftrightarrow> uint a + uint b = 0 \<or> uint a + uint b = 2 ^ 32"
      by (rule mod_small_sum) (use r in linarith)+
    also have "uint a + uint b = 0 \<longleftrightarrow> a = 0 \<and> b = 0" using r by (auto simp: unsigned_eq_0_iff add_nonneg_eq_0_iff)
    finally show ?thesis .
  qed
  then show ?thesis
    unfolding e by (simp add: akl_gc_pool_is_empty_def ab AKL_GC_POOL_SIZE_def BITS_IN_UINT_def)
qed

definition taken_for_empty :: "gc_state \<Rightarrow> addr \<Rightarrow> bool" where
  "taken_for_empty s x \<longleftrightarrow> (\<exists>P. gs_pools s x = Some P \<and>
     (used_slots P = {} \<or> uint (gp_freemap P ! 0) + uint (gp_freemap P ! 1) = 2 ^ 32))"

lemma pool_free_std: "akl_gc_pool_free std_free s p = None"
  by (simp add: akl_gc_pool_free_def std_free_def)

lemma tryfree_loop_std:
  "pool_links (gs_pools s) p xs \<Longrightarrow>
   type_tryfree_loop std_free s tid prev p b =
     (if \<exists>x\<in>set xs. taken_for_empty s x then None else Some (b, s))"
proof (induction xs arbitrary: prev p)
  case Nil
  then show ?case by (simp add: type_tryfree_loop.simps)
next
  case (Cons x xs)
  then obtain P where P: "p = x" "x \<noteq> 0" "gs_pools s x = Some P" "pool_ok P" "pool_links (gs_pools s) (gp_next P) xs"
    by (auto split: option.splits)
  have t: "taken_for_empty s x \<longleftrightarrow> akl_gc_pool_is_empty P" using P(3) pool_is_empty_iff [OF P(4)] by (simp add: taken_for_empty_def)
  show ?case
  proof (cases "akl_gc_pool_is_empty P")
    case True
    then show ?thesis
      using P(1-3) t by (simp add: type_tryfree_loop.simps [of _ s tid prev x] pool_free_std Let_def)
  next
    case False
    then show ?thesis using P(1-3) t Cons.IH [OF P(5)] by (simp add: type_tryfree_loop.simps [of _ s tid prev x])
  qed
qed

subsection \<open>Properties\<close>

text \<open>
  C31. With the collector off, whether allocation is safe depends on the memory that \<open>malloc\<close>
  returns for a pool, as \<open>akl_gc_pool_create\<close> clears only 2 of the 8 bytes of its free map. If the
  other bytes happen to be zero, allocation never fails and never hands out a slot twice: from any
  state the interpreter can build, \<open>n\<close> successive calls of \<open>akl_gc_malloc\<close> return \<open>n\<close> distinct slots,
  none of which was in use, and use up exactly those. But if the high half of the first word is
  set, and one of the low 16 bits of the second is not, then the 17th allocation for a type hands
  out a slot that one of the first 16 got.
\<close>

theorem gc_malloc_distinct:
  assumes "gc_inv s" "tid < length (gs_types s)"
  shows "(garbage ! 0 AND 0xFFFF0000 = 0 \<and> garbage ! 1 = 0 \<longrightarrow>
      (\<exists>as s'. alloc_n (\<lambda>s. akl_gc_malloc garbage mk s tid) n s = Some (as, s') \<and> length as = n \<and>
        distinct as \<and> set as \<inter> live_slots s = {} \<and> live_slots s' = set as \<union> live_slots s \<and> gc_inv s')) \<and>
    (gt_pool_head (gs_types s ! tid) = 0 \<and> garbage ! 0 AND 0xFFFF0000 = 0xFFFF0000 \<and> j < 16 \<and> \<not> bit (garbage ! 1) j \<longrightarrow>
      (\<exists>p i s'. alloc_n (\<lambda>s. akl_gc_malloc garbage mk s tid) 17 s = Some (map (Pair p) ([0..<16] @ [i]), s') \<and> i < 16))"
proof (intro conjI impI)
  assume "garbage ! 0 AND 0xFFFF0000 = 0 \<and> garbage ! 1 = 0"
  then have g: "new_freemap garbage = [0, 0]" by (simp add: new_freemap_def)
  have "new_freemap [0, 0] = [0, 0]" by (simp add: new_freemap_def)
  then have m: "(\<lambda>s. akl_gc_malloc garbage mk s tid) = (\<lambda>s. akl_gc_malloc [0, 0] mk s tid)"
    using gc_malloc_garbage [of garbage "[0, 0]"] g by simp
  obtain as s' where *: "alloc_n (\<lambda>s. akl_gc_malloc [0, 0] mk s tid) n s = Some (as, s')" "length as = n"
    using gc_malloc_n_total [OF assms, of mk n] by blast
  then show "\<exists>as s'. alloc_n (\<lambda>s. akl_gc_malloc garbage mk s tid) n s = Some (as, s') \<and> length as = n \<and>
        distinct as \<and> set as \<inter> live_slots s = {} \<and> live_slots s' = set as \<union> live_slots s \<and> gc_inv s'"
    using gc.alloc_n_fresh [of s tid mk n as s'] assms unfolding m by blast
next
  let ?w = "garbage ! 1"
  assume b: "gt_pool_head (gs_types s ! tid) = 0 \<and> garbage ! 0 AND 0xFFFF0000 = 0xFFFF0000 \<and> j < 16 \<and> \<not> bit ?w j"
  then have a: "gt_pool_head (gs_types s ! tid) = 0 \<and> new_freemap garbage = [0xFFFF0000, ?w] \<and> j < 16 \<and> \<not> bit ?w j"
    by (simp add: new_freemap_def)
  have "gt_pool_last (gs_types s ! tid) = 0" "gs_fresh s \<noteq> 0"
    using assms a by (auto simp: gc_inv_def type_inv_def Let_def)
  then obtain s1 where s1: "akl_gc_malloc garbage mk s tid = Some ((gs_fresh s, 0), s1)" "dirty_at s1 tid (gs_fresh s) ?w 1"
    using dirty_first [OF assms(2)] a by blast
  let ?al = "\<lambda>s. akl_gc_malloc garbage mk s tid" and ?p = "gs_fresh s"
  obtain i s' where r: "alloc_n ?al 16 s1 = Some (map (Pair ?p) ([1..<16] @ [i]), s')" "i \<le> j"
    using dirty_run [OF s1(2), of j garbage mk] a by auto
  have "alloc_n ?al (Suc 16) s = Some ((?p, 0) # map (Pair ?p) ([1..<16] @ [i]), s')"
    using alloc_n_Cons [of ?al s, OF s1(1) r(1)] .
  moreover have "(?p, 0) # map (Pair ?p) ([1..<16] @ [i]) = map (Pair ?p) ([0..<16] @ [i])"
    by (simp add: upt_conv_Cons [of 0] del: upt_rec_numeral)
  moreover have "Suc 16 = 17" "i < 16" using r(2) a by simp_all
  ultimately show "\<exists>p i s'. alloc_n ?al 17 s = Some (map (Pair p) ([0..<16] @ [i]), s') \<and> i < 16" by metis
qed

definition gc_state0 :: gc_state where
  "gc_state0 = \<lparr>gs_types = [\<lparr>gt_type_id = 0, gt_has_marker = True, gt_pool_last = 0, gt_pool_count = 0,
     gt_pool_head = 0\<rparr>], gs_pools = Map.empty, gs_fresh = 1, gs_use_gc = False, gs_last_was_mark = False\<rparr>"

lemma gc_inv_state0: "gc_inv gc_state0"
  by (simp add: gc_inv_def gc_state0_def type_inv_def)

theorem gc_malloc_distinct_witness:
  "(\<exists>as s'. alloc_n (\<lambda>s. akl_gc_malloc [7, 0] (\<lambda>_ _ s. s) s 0) 3 gc_state0 = Some (as, s') \<and> length as = 3 \<and> distinct as) \<and>
    (\<exists>p i s'. alloc_n (\<lambda>s. akl_gc_malloc [0xFFFF0000, 0] (\<lambda>_ _ s. s) s 0) 17 gc_state0 =
      Some (map (Pair p) ([0..<16] @ [i]), s') \<and> i < 16)"
proof (rule conjI)
  have t: "0 < length (gs_types gc_state0)" "gt_pool_head (gs_types gc_state0 ! 0) = 0" by (simp_all add: gc_state0_def)
  have g: "[7, 0 :: u32] ! 0 AND 0xFFFF0000 = 0 \<and> [7, 0 :: u32] ! 1 = 0" "[0xFFFF0000, 0 :: u32] ! 0 AND 0xFFFF0000 = 0xFFFF0000"
    by simp_all
  have b: "\<not> bit ([0xFFFF0000, 0 :: u32] ! 1) 0" "(0 :: nat) < 16" by simp_all
  note base = gc_malloc_distinct [OF gc_inv_state0 t(1)]
  show "\<exists>as s'. alloc_n (\<lambda>s. akl_gc_malloc [7, 0] (\<lambda>_ _ s. s) s 0) 3 gc_state0 = Some (as, s') \<and> length as = 3 \<and> distinct as"
    using conjunct1 [OF base] g(1) by blast
  show "\<exists>p i s'. alloc_n (\<lambda>s. akl_gc_malloc [0xFFFF0000, 0] (\<lambda>_ _ s. s) s 0) 17 gc_state0 =
      Some (map (Pair p) ([0..<16] @ [i]), s') \<and> i < 16"
    by (rule conjunct2 [OF base, THEN mp]) (use t(2) g(2) b in blast)
qed

text \<open>
  C32. The search of the free map forgets which word it is in. When the first word is full,
  the second is not and the slot numbered by the counter is taken, \<open>akl_gc_pool_find_free\<close>
  returns the bit number without \<open>32 * i\<close>: a slot of the first word, which is in use.
\<close>

theorem find_free_returns_used_slot:
  assumes "gp_freemap p = [UINT_MAX, w]" "w \<noteq> UINT_MAX" "gp_count p = of_nat c" "c < 64"
    "c \<in> used_slots p"
  shows "\<exists>j. akl_gc_pool_find_free p = Some (int j) \<and> j < 32 \<and> j + 32 \<notin> used_slots p \<and>
    akl_gc_pool_in_use p j = Some True"
proof -
  have ok: "pool_ok p" using assms(1) by (simp add: pool_ok_def)
  obtain j where j: "akl_gc_pool_find_free p = Some (int j)" "j < 32" "\<not> bit w j"
    using find_free_second_word [OF assms] by blast
  have "bit UINT_MAX j" using UINT_MAX_iff [of UINT_MAX] j(2) by auto
  then have used: "j \<in> used_slots p" using j(2) assms(1) by (simp add: used_slots_def)
  have "j + 32 \<notin> used_slots p" using j(2,3) assms(1) by (simp add: used_slots_def)
  moreover have "akl_gc_pool_in_use p j = Some True" using in_use_iff [OF ok, of j] j(2) used by simp
  ultimately show ?thesis using j(1,2) by blast
qed

text \<open>Forty slots used, then slot 35 released: slot 39, which the counter names, is in use.\<close>

definition pool39 :: gc_pool where
  "pool39 = \<lparr>gp_count = of_nat 39, gp_marks = replicate 64 False, gp_next = 0, gp_freemap = [UINT_MAX, 247]\<rparr>"

theorem find_free_returns_used_slot_witness:
  "\<exists>j. akl_gc_pool_find_free pool39 = Some (int j) \<and> j < 32 \<and> j + 32 \<notin> used_slots pool39 \<and>
    akl_gc_pool_in_use pool39 j = Some True"
  by (rule find_free_returns_used_slot [of _ 247 39])
    (simp_all add: pool39_def UINT_MAX_def used_slots_def)

text \<open>
  C33. A collection keeps only what was marked before it began, for any number of types and pools.
  In the pools of a type with a marker, a slot that is in use after mark and sweep was in use and
  marked before, and a pool in which nothing was marked is empty afterwards; all other pools keep
  exactly their slots. So, as \<open>akl_gc_mark\<close> marks nothing (and nothing else in the program does), a
  collection releases everything the program still refers to. The markers are only assumed to
  clear marks when they are called to clear one.
\<close>

theorem sweep_keeps_only_marked:
  assumes "gs_use_gc s" "\<And>i. only_unmarks (mk i)"
    "\<forall>i<length (gs_types s). pool_links (gs_pools s) (gt_pool_head (gs_types s ! i)) (xs i)"
  shows "\<exists>s'. akl_gc_sweep mk (akl_gc_mark s) = Some s' \<and> gs_types s' = gs_types s \<and>
    (\<forall>i<length (gs_types s). gt_has_marker (gs_types s ! i) \<longrightarrow>
      (\<forall>x\<in>set (xs i). \<exists>P Q. gs_pools s x = Some P \<and> gs_pools s' x = Some Q \<and>
         used_slots Q \<subseteq> {j \<in> used_slots P. gp_marks P ! j} \<and>
         ((\<forall>j<64. \<not> gp_marks P ! j) \<longrightarrow> used_slots Q = {}))) \<and>
    (\<forall>x. (\<forall>i<length (gs_types s). gt_has_marker (gs_types s ! i) \<longrightarrow> x \<notin> set (xs i)) \<longrightarrow>
       map_option used_slots (gs_pools s' x) = map_option used_slots (gs_pools s x))"
proof -
  let ?I = "set [0..<length (gs_types s)]"
  obtain s' where s': "gc_sweep_types mk [0..<length (gs_types s)] s = Some s'" "kept_marked (marker_pools s xs ?I) s s'"
    using sweep_types_ok [of mk "[0..<length (gs_types s)]" s xs] assms(2,3) by auto
  have sw: "swept (marker_pools s xs ?I) s s'" using s'(2) by (simp add: kept_marked_def)
  have pools: "\<exists>P Q. gs_pools s x = Some P \<and> gs_pools s' x = Some Q \<and> used_slots Q \<subseteq> {j \<in> used_slots P. gp_marks P ! j} \<and>
      ((\<forall>j<64. \<not> gp_marks P ! j) \<longrightarrow> used_slots Q = {})"
    if i: "i < length (gs_types s)" "gt_has_marker (gs_types s ! i)" "x \<in> set (xs i)" for i x
  proof -
    have "gs_pools s x \<noteq> None" if "pool_links (gs_pools s) p ys" "x \<in> set ys" for p ys
      using that by (induction ys arbitrary: p) (auto split: option.splits)
    then obtain P where P: "gs_pools s x = Some P" using assms(3) i(1,3) by blast
    obtain Q where Q: "gs_pools s' x = Some Q" "less_used P Q" using swept_pool [OF sw P] by blast
    have "x \<in> marker_pools s xs ?I" using i by (auto simp: marker_pools_def)
    then have "used_slots Q \<subseteq> {j. gp_marks P ! j}" using s'(2) P Q(1) unfolding kept_marked_def by blast
    then show ?thesis using P Q used_slots_bound [of Q] unfolding less_used_def by blast
  qed
  have other: "map_option used_slots (gs_pools s' x) = map_option used_slots (gs_pools s x)"
    if "\<forall>i<length (gs_types s). gt_has_marker (gs_types s ! i) \<longrightarrow> x \<notin> set (xs i)" for x
  proof -
    have "x \<notin> marker_pools s xs ?I" using that by (auto simp: marker_pools_def)
    then have "rel_option fewer_marks (gs_pools s x) (gs_pools s' x)" using sw unfolding swept_def by metis
    moreover have "fewer_marks P Q \<Longrightarrow> used_slots Q = used_slots P" for P Q
      unfolding fewer_marks_def by (cases P, cases Q) (simp add: used_slots_def)
    ultimately show ?thesis by (cases "gs_pools s x"; cases "gs_pools s' x") auto
  qed
  have "akl_gc_sweep mk (akl_gc_mark s) = Some s'" using s'(1) assms(1) by (simp add: akl_gc_sweep_def akl_gc_mark_def)
  then show ?thesis using swept_types [OF sw] pools other by blast
qed

text \<open>Two types, one without a marker; in the pool of the other one slot of 39 is marked.\<close>

definition gc_state_on :: gc_state where
  "gc_state_on = \<lparr>gs_types = [\<lparr>gt_type_id = 0, gt_has_marker = True, gt_pool_last = 5, gt_pool_count = 1, gt_pool_head = 5\<rparr>,
       \<lparr>gt_type_id = 1, gt_has_marker = False, gt_pool_last = 6, gt_pool_count = 1, gt_pool_head = 6\<rparr>],
     gs_pools = [5 \<mapsto> pool39\<lparr>gp_marks := (replicate 64 False)[3 := True]\<rparr>, 6 \<mapsto> pool39], gs_fresh = 7,
     gs_use_gc = True, gs_last_was_mark = False\<rparr>"

definition no_marker :: "slot \<Rightarrow> gc_state \<Rightarrow> gc_state" where "no_marker sl s = s"

lemma no_marker_ok: "only_unmarks no_marker"
  unfolding only_unmarks_def no_marker_def
proof (intro allI)
  fix s :: gc_state
  have "rel_option fewer_marks x x" for x by (cases x) simp_all
  then show "\<exists>h. s = s\<lparr>gs_pools := h\<rparr> \<and> (\<forall>p. rel_option fewer_marks (gs_pools s p) (h p))"
    by (intro exI [of _ "gs_pools s"]) simp
qed

lemma gc_state_on_two: "i < length (gs_types gc_state_on) \<Longrightarrow> i = 0 \<or> i = 1"
  by (auto simp: gc_state_on_def)

lemma gc_state_on_links:
  "\<forall>i<length (gs_types gc_state_on). pool_links (gs_pools gc_state_on) (gt_pool_head (gs_types gc_state_on ! i)) [5 + i]"
proof -
  have "pool_links (gs_pools gc_state_on) 5 [5]" "pool_links (gs_pools gc_state_on) 6 [6]"
    by (simp_all add: gc_state_on_def pool39_def pool_ok_def)
  moreover have "gt_pool_head (gs_types gc_state_on ! 0) = 5" "gt_pool_head (gs_types gc_state_on ! 1) = 6"
    by (simp_all add: gc_state_on_def)
  ultimately have "pool_links (gs_pools gc_state_on) (gt_pool_head (gs_types gc_state_on ! 0)) [5 + 0]"
    "pool_links (gs_pools gc_state_on) (gt_pool_head (gs_types gc_state_on ! 1)) [5 + 1]" by simp_all
  then show ?thesis using gc_state_on_two by blast
qed

theorem sweep_keeps_only_marked_witness:
  "\<exists>s' Q. akl_gc_sweep (\<lambda>_. no_marker) (akl_gc_mark gc_state_on) = Some s' \<and> gs_pools s' 5 = Some Q \<and>
    used_slots Q \<subseteq> {3} \<and> map_option used_slots (gs_pools s' 6) = Some (used_slots pool39)"
proof -
  have u: "gs_use_gc gc_state_on" by (simp add: gc_state_on_def)
  have l: "0 < length (gs_types gc_state_on)" "gt_has_marker (gs_types gc_state_on ! 0)" by (simp_all add: gc_state_on_def)
  note base = sweep_keeps_only_marked [of gc_state_on "\<lambda>_. no_marker" "\<lambda>i. [5 + i]", OF u no_marker_ok gc_state_on_links]
  have o: "\<forall>i<length (gs_types gc_state_on). gt_has_marker (gs_types gc_state_on ! i) \<longrightarrow> 6 \<notin> set [5 + i]"
  proof (intro allI impI)
    fix i assume i: "i < length (gs_types gc_state_on)" "gt_has_marker (gs_types gc_state_on ! i)"
    have "\<not> gt_has_marker (gs_types gc_state_on ! 1)" by (simp add: gc_state_on_def)
    then have "i = 0" using gc_state_on_two [OF i(1)] i(2) by blast
    then show "6 \<notin> set [5 + i]" by simp
  qed
  from base obtain s' where t: "akl_gc_sweep (\<lambda>_. no_marker) (akl_gc_mark gc_state_on) = Some s'"
    "\<forall>i<length (gs_types gc_state_on). gt_has_marker (gs_types gc_state_on ! i) \<longrightarrow>
      (\<forall>x\<in>set [5 + i]. \<exists>P Q. gs_pools gc_state_on x = Some P \<and> gs_pools s' x = Some Q \<and>
         used_slots Q \<subseteq> {j \<in> used_slots P. gp_marks P ! j} \<and> ((\<forall>j<64. \<not> gp_marks P ! j) \<longrightarrow> used_slots Q = {}))"
    "\<forall>x. (\<forall>i<length (gs_types gc_state_on). gt_has_marker (gs_types gc_state_on ! i) \<longrightarrow> x \<notin> set [5 + i]) \<longrightarrow>
       map_option used_slots (gs_pools s' x) = map_option used_slots (gs_pools gc_state_on x)"
    by (elim exE conjE) (rule that)
  have s': "akl_gc_sweep (\<lambda>_. no_marker) (akl_gc_mark gc_state_on) = Some s'" by (rule t(1))
  have six: "map_option used_slots (gs_pools s' 6) = map_option used_slots (gs_pools gc_state_on 6)"
    using t(3) [rule_format, OF o [rule_format]] .
  have five: "\<forall>x\<in>set [5 + 0]. \<exists>P Q. gs_pools gc_state_on x = Some P \<and> gs_pools s' x = Some Q \<and>
         used_slots Q \<subseteq> {j \<in> used_slots P. gp_marks P ! j} \<and> ((\<forall>j<64. \<not> gp_marks P ! j) \<longrightarrow> used_slots Q = {})"
    by (rule mp [OF mp [OF spec [OF t(2)] l(1)] l(2)])
  obtain P Q where P: "gs_pools gc_state_on 5 = Some P" "gs_pools s' 5 = Some Q" "used_slots Q \<subseteq> {j \<in> used_slots P. gp_marks P ! j}"
    using five by auto
  have "P = pool39\<lparr>gp_marks := (replicate 64 False)[3 := True]\<rparr>" using P(1) by (simp add: gc_state_on_def)
  then have "{j \<in> used_slots P. gp_marks P ! j} \<subseteq> {3}" by (auto simp: used_slots_def nth_list_update split: if_splits)
  moreover have "gs_pools gc_state_on 6 = Some pool39" by (simp add: gc_state_on_def)
  ultimately show ?thesis using s' six P(2,3) by auto
qed

text \<open>
  C34. Giving memory back does not work. With the \<open>free\<close> of the C library, \<open>akl_gc_tryfree\<close> does
  nothing and answers FALSE as long as no pool is taken for empty, and is undefined as soon as
  one is, because \<open>akl_gc_pool_free\<close> frees the array inside the structure of the pool. A pool is
  taken for empty when no slot of it is in use, but also when the two words of its free map add up
  to \<open>2 ^ 32\<close>, for instance when exactly the slots 31 and 63 are in use.
\<close>

theorem tryfree_is_undefined:
  assumes "\<forall>i<length (gs_types s). pool_links (gs_pools s) (gt_pool_head (gs_types s ! i)) (xs i)"
  shows "akl_gc_tryfree std_free s =
    (if \<exists>i<length (gs_types s). \<exists>x\<in>set (xs i). \<exists>P. gs_pools s x = Some P \<and>
          (used_slots P = {} \<or> uint (gp_freemap P ! 0) + uint (gp_freemap P ! 1) = 2 ^ 32)
     then None else Some (False, s))"
proof -
  have loop: "gc_tryfree_loop std_free is s b =
      (if \<exists>i\<in>set is. \<exists>x\<in>set (xs i). taken_for_empty s x then None else Some (b, s))"
    if "\<forall>i\<in>set is. i < length (gs_types s)" for "is" b
    using that
  proof (induction "is" arbitrary: b)
    case (Cons i "is")
    have "akl_gc_type_tryfree std_free s i = (if \<exists>x\<in>set (xs i). taken_for_empty s x then None else Some (False, s))"
      using assms Cons.prems tryfree_loop_std by (simp add: akl_gc_type_tryfree_def)
    then show ?case using Cons.IH [of b] Cons.prems by auto
  qed simp
  show ?thesis
    unfolding akl_gc_tryfree_def using loop [of "[0..<length (gs_types s)]" False] by (simp add: taken_for_empty_def Bex_def)
qed

text \<open>Nothing is given back in a state where both pools are in use; one where slots 31 and 63 are is undefined.\<close>

theorem tryfree_is_undefined_witness:
  "akl_gc_tryfree std_free gc_state_on = Some (False, gc_state_on) \<and>
    akl_gc_tryfree std_free (gc_state_on\<lparr>gs_pools := (gs_pools gc_state_on)(6 \<mapsto> pool39\<lparr>gp_freemap := [2147483648, 2147483648]\<rparr>)\<rparr>) = None"
proof
  let ?s = "gc_state_on\<lparr>gs_pools := (gs_pools gc_state_on)(6 \<mapsto> pool39\<lparr>gp_freemap := [2147483648, 2147483648]\<rparr>)\<rparr>"
  have z: "used_slots P \<noteq> {} \<and> uint (gp_freemap P ! 0) + uint (gp_freemap P ! 1) \<noteq> 2 ^ 32" if "gp_freemap P = [UINT_MAX, 247]" for P
  proof -
    have "0 \<in> used_slots P" using that UINT_MAX_iff [of UINT_MAX] by (simp add: used_slots_def)
    then show ?thesis using that by (auto simp: UINT_MAX_def)
  qed
  have m: "gp_freemap P = [UINT_MAX, 247]" if "i < length (gs_types gc_state_on)" "gs_pools gc_state_on (5 + i) = Some P" for i P
    using that gc_state_on_two [OF that(1)] by (auto simp: gc_state_on_def pool39_def)
  have "\<not> (\<exists>i<length (gs_types gc_state_on). \<exists>x\<in>set [5 + i]. \<exists>P. gs_pools gc_state_on x = Some P \<and>
        (used_slots P = {} \<or> uint (gp_freemap P ! 0) + uint (gp_freemap P ! 1) = 2 ^ 32))"
  proof (intro notI, elim exE conjE bexE)
    fix i x P assume "i < length (gs_types gc_state_on)" "x \<in> set [5 + i]" "gs_pools gc_state_on x = Some P"
      "used_slots P = {} \<or> uint (gp_freemap P ! 0) + uint (gp_freemap P ! 1) = 2 ^ 32"
    then show False using m [of i P] z [of P] by auto
  qed
  then show "akl_gc_tryfree std_free gc_state_on = Some (False, gc_state_on)"
    by (subst tryfree_is_undefined [OF gc_state_on_links]) (rule if_not_P)
  have l: "\<forall>i<length (gs_types ?s). pool_links (gs_pools ?s) (gt_pool_head (gs_types ?s ! i)) [5 + i]"
  proof -
    have "pool_links (gs_pools ?s) 5 [5]" "pool_links (gs_pools ?s) 6 [6]"
      by (simp_all add: gc_state_on_def pool39_def pool_ok_def)
    moreover have "gt_pool_head (gs_types ?s ! 0) = 5" "gt_pool_head (gs_types ?s ! 1) = 6"
      by (simp_all add: gc_state_on_def)
    ultimately have "pool_links (gs_pools ?s) (gt_pool_head (gs_types ?s ! 0)) [5 + 0]"
      "pool_links (gs_pools ?s) (gt_pool_head (gs_types ?s ! 1)) [5 + 1]" by simp_all
    moreover have "length (gs_types ?s) = length (gs_types gc_state_on)" by simp
    ultimately show ?thesis using gc_state_on_two by metis
  qed
  have "1 < length (gs_types ?s)" "6 \<in> set [5 + 1 :: nat]" by (simp_all add: gc_state_on_def)
  moreover have "gs_pools ?s 6 = Some (pool39\<lparr>gp_freemap := [2147483648, 2147483648]\<rparr>)"
    "uint (gp_freemap (pool39\<lparr>gp_freemap := [2147483648, 2147483648]\<rparr>) ! 0) +
      uint (gp_freemap (pool39\<lparr>gp_freemap := [2147483648, 2147483648]\<rparr>) ! 1) = 2 ^ 32"
    by simp_all
  ultimately have "\<exists>i<length (gs_types ?s). \<exists>x\<in>set [5 + i]. \<exists>P. gs_pools ?s x = Some P \<and>
        (used_slots P = {} \<or> uint (gp_freemap P ! 0) + uint (gp_freemap P ! 1) = 2 ^ 32)"
    by blast
  then show "akl_gc_tryfree std_free ?s = None"
    by (subst tryfree_is_undefined [OF l]) (rule if_P)
qed

end
