(* ===== verification/Vector.thy ===== *)
theory Vector
  imports Interfaces
begin

text \<open>
  The growable array of \<open>src/vector.c\<close>. The allocation is kept as its bytes
  (\<open>av_vector\<close>), the counts are \<open>unsigned int\<close>s, and a pointer into the array is its
  byte offset (\<open>None\<close> for NULL). The abstract value of a vector is the list of its
  elements, each a byte string of \<open>av_msize\<close> bytes (\<open>vec_elems\<close>); the lemmas show that
  the operations the interpreter uses implement the list operations under the
  representation invariant \<open>vec_ok\<close>, and what the ones with an unusual bound
  (\<open>akl_vector_truncate_by\<close>, a vector of capacity one) do instead.
\<close>

record akl_vector =
  av_vector :: "mbyte list"
  av_count :: u32
  av_size :: u32
  av_msize :: u32

subsection \<open>The operations\<close>

definition AKL_VECTOR_DEFSIZE :: u32 where
  "AKL_VECTOR_DEFSIZE = 10"

definition akl_init_vector :: "u32 \<Rightarrow> u32 \<Rightarrow> akl_vector" where
  "akl_init_vector nmemb0 size0 =
     (let nmemb = (if nmemb0 = 0 then AKL_VECTOR_DEFSIZE else nmemb0);
          sz = (if size0 = 0 then 8 else size0)
      in \<lparr>av_vector = calloc_block (unat nmemb) (unat sz), av_count = 0,
          av_size = nmemb, av_msize = sz\<rparr>)"

definition akl_vector_is_empty :: "akl_vector \<Rightarrow> bool" where
  "akl_vector_is_empty vec \<longleftrightarrow> av_vector vec = [] \<or> av_count vec = 0"

definition akl_vector_at :: "akl_vector \<Rightarrow> u32 \<Rightarrow> nat option" where
  "akl_vector_at vec ind =
     (if ind < av_size vec then Some (unat (ind * av_msize vec)) else None)"

definition akl_vector_pop :: "akl_vector \<Rightarrow> nat option \<times> akl_vector" where
  "akl_vector_pop vec =
     (if av_count vec = 0 then (None, vec)
      else let vec' = vec\<lparr>av_count := av_count vec - 1\<rparr>
           in (akl_vector_at vec' (av_count vec'), vec'))"

definition akl_vector_is_grow_need :: "akl_vector \<Rightarrow> bool" where
  "akl_vector_is_grow_need vec \<longleftrightarrow> av_count vec + 1 \<ge> av_size vec"

definition akl_vector_grow :: "akl_vector \<Rightarrow> u32 \<Rightarrow> akl_vector" where
  "akl_vector_grow vec to =
     (let sz = (if to \<noteq> 0 \<and> to > av_size vec then to
                else av_size vec + av_size vec div 2)
      in vec\<lparr>av_size := sz,
             av_vector := realloc_block (av_vector vec) (unat (sz * av_msize vec))\<rparr>)"

definition akl_vector_reserve :: "akl_vector \<Rightarrow> nat option \<times> akl_vector" where
  "akl_vector_reserve vec0 =
     (let vec = (if akl_vector_is_grow_need vec0 then akl_vector_grow vec0 0 else vec0)
      in (akl_vector_at vec (av_count vec), vec\<lparr>av_count := av_count vec + 1\<rparr>))"

fun akl_vector_reserve_loop :: "nat \<Rightarrow> akl_vector \<Rightarrow> akl_vector" where
  "akl_vector_reserve_loop 0 vec = vec"
| "akl_vector_reserve_loop (Suc cnt) vec =
     akl_vector_reserve_loop cnt (snd (akl_vector_reserve vec))"

definition akl_vector_reserve_more :: "akl_vector \<Rightarrow> int \<Rightarrow> (nat option \<times> akl_vector) option" where
  "akl_vector_reserve_more vec cnt =
     (if cnt < 0 then None
      else let (start, vec') = akl_vector_reserve vec
           in Some (start, akl_vector_reserve_loop (nat cnt) vec'))"

text \<open>\<open>data\<close> is the object the pointer argument points at.\<close>

definition akl_vector_push :: "akl_vector \<Rightarrow> mbyte list \<Rightarrow> (u32 \<times> akl_vector) option" where
  "akl_vector_push vec0 data =
     (let (ptr, vec) = akl_vector_reserve vec0
      in do {
        off \<leftarrow> ptr;
        block \<leftarrow> memcpy_at (av_vector vec) off data (unat (av_msize vec));
        Some (av_count vec - 1, vec\<lparr>av_vector := block\<rparr>)
      })"

text \<open>The code copies \<open>av_size\<close> (the capacity), not \<open>av_msize\<close>, bytes.\<close>

definition akl_vector_set :: "akl_vector \<Rightarrow> u32 \<Rightarrow> mbyte list \<Rightarrow> akl_vector option" where
  "akl_vector_set vec w data =
     do {
       block \<leftarrow> memcpy_at (av_vector vec) (unat (w * av_msize vec)) data (unat (av_size vec));
       Some (vec\<lparr>av_vector := block\<rparr>)
     }"

text \<open>The recursion of the source has no argument for its end: \<open>None\<close> also covers it.\<close>

partial_function (option) akl_vector_push_vec ::
    "akl_vector \<Rightarrow> akl_vector \<Rightarrow> akl_vector option" where
  "akl_vector_push_vec vec v =
     (if av_msize vec \<noteq> av_msize v then Some vec
      else if av_count vec + av_count v + 1 < av_size vec
      then akl_vector_push_vec (akl_vector_grow vec 0) v
      else do {
        off \<leftarrow> akl_vector_at vec (av_count vec + 1);
        block \<leftarrow> memcpy_at (av_vector vec) off (av_vector v) (unat (av_count v));
        Some (vec\<lparr>av_vector := block, av_count := av_count vec + av_count v\<rparr>)
      })"

definition vec_elem :: "akl_vector \<Rightarrow> nat \<Rightarrow> mbyte list" where
  "vec_elem vec off = take (unat (av_msize vec)) (drop off (av_vector vec))"

text \<open>
  The loop of \<open>akl_vector_find\<close>, from index \<open>i\<close> with \<open>fuel\<close> rounds left (there are
  \<open>av_count - i\<close> of them). \<open>cmp_fn\<close> gets the bytes of the element.
\<close>

fun akl_vector_find_from ::
    "nat \<Rightarrow> u32 \<Rightarrow> akl_vector \<Rightarrow> (mbyte list \<Rightarrow> 'a \<Rightarrow> int) \<Rightarrow> 'a \<Rightarrow> (nat option \<times> int) option" where
  "akl_vector_find_from 0 i vec cmp_fn arg = Some (None, - 1)"
| "akl_vector_find_from (Suc fuel) i vec cmp_fn arg =
     do {
       at \<leftarrow> akl_vector_at vec i;
       (if cmp_fn (vec_elem vec at) arg = 0 then Some (Some at, uint i)
        else akl_vector_find_from fuel (i + 1) vec cmp_fn arg)
     }"

definition akl_vector_find ::
    "akl_vector \<Rightarrow> (mbyte list \<Rightarrow> 'a \<Rightarrow> int) \<Rightarrow> 'a \<Rightarrow> (nat option \<times> int) option" where
  "akl_vector_find vec cmp_fn arg = akl_vector_find_from (unat (av_count vec)) 0 vec cmp_fn arg"

definition akl_vector_truncate_by :: "akl_vector \<Rightarrow> u32 \<Rightarrow> akl_vector" where
  "akl_vector_truncate_by vec n =
     (if av_count vec - n > 0 then vec\<lparr>av_count := av_count vec - n\<rparr>
      else vec\<lparr>av_count := 0\<rparr>)"

definition akl_vector_last :: "akl_vector \<Rightarrow> nat option" where
  "akl_vector_last vec = akl_vector_at vec (av_count vec)"

definition akl_vector_first :: "akl_vector \<Rightarrow> nat option" where
  "akl_vector_first vec = (if av_vector vec = [] then None else Some 0)"

definition akl_vector_size :: "akl_vector \<Rightarrow> u32" where
  "akl_vector_size vec = av_size vec"

definition akl_vector_count :: "akl_vector \<Rightarrow> u32" where
  "akl_vector_count vec = av_count vec"

subsection \<open>The abstract value and the representation invariant\<close>

definition vec_elems :: "akl_vector \<Rightarrow> mbyte list list" where
  "vec_elems vec = map (\<lambda>i. vec_elem vec (i * unat (av_msize vec))) [0..<unat (av_count vec)]"

definition vec_ok :: "akl_vector \<Rightarrow> bool" where
  "vec_ok vec \<longleftrightarrow> av_msize vec \<noteq> 0 \<and> 2 \<le> unat (av_size vec)
     \<and> unat (av_count vec) < unat (av_size vec)
     \<and> length (av_vector vec) = unat (av_size vec) * unat (av_msize vec)
     \<and> length (av_vector vec) < 4294967296"

text \<open>There is room for one more growth step below the width of \<open>unsigned int\<close>.\<close>

definition vec_room :: "akl_vector \<Rightarrow> bool" where
  "vec_room vec \<longleftrightarrow>
     (unat (av_size vec) + unat (av_size vec) div 2) * unat (av_msize vec) < 4294967296"

lemma length_vec_elems [simp]: "length (vec_elems vec) = unat (av_count vec)"
  by (simp add: vec_elems_def)

lemma vec_elems_nth:
  "i < unat (av_count vec) \<Longrightarrow> vec_elems vec ! i = vec_elem vec (i * unat (av_msize vec))"
  by (simp add: vec_elems_def)

lemma vec_okD:
  assumes "vec_ok vec"
  shows "0 < unat (av_msize vec)" "2 \<le> unat (av_size vec)"
    "unat (av_count vec) < unat (av_size vec)"
    "length (av_vector vec) = unat (av_size vec) * unat (av_msize vec)"
    "unat (av_size vec) * unat (av_msize vec) < 4294967296"
  using assms by (auto simp: vec_ok_def unat_gt_0)

lemma akl_vector_at_ok:
  assumes "vec_ok vec" "unat ind < unat (av_size vec)"
  shows "akl_vector_at vec ind = Some (unat ind * unat (av_msize vec))"
proof -
  have "unat ind * unat (av_msize vec) < 4294967296"
    using slot_in_block [OF assms(2), of "unat (av_msize vec)"] vec_okD(1,5) [OF assms(1)]
    by linarith
  then show ?thesis
    using assms(2) by (simp add: akl_vector_at_def word_less_nat_alt unat_u32_mult)
qed

text \<open>Growing keeps the elements and makes room for the next one.\<close>

lemma grow_size:
  assumes "vec_ok vec" "vec_room vec"
  shows "unat (av_size (akl_vector_grow vec 0)) =
           unat (av_size vec) + unat (av_size vec) div 2"
    and "length (av_vector (akl_vector_grow vec 0)) =
           (unat (av_size vec) + unat (av_size vec) div 2) * unat (av_msize vec)"
proof -
  let ?n = "unat (av_size vec) + unat (av_size vec) div 2"
  let ?m = "unat (av_msize vec)"
  have room: "?n * ?m < 4294967296" using assms(2) by (simp add: vec_room_def)
  have "?n * 1 \<le> ?n * ?m"
    using vec_okD(1) [OF assms(1)] by (intro mult_le_mono2) simp
  then have n: "?n < 4294967296" using room by (simp only: mult_1_right)
  have half: "unat (av_size vec div 2) = unat (av_size vec) div 2"
    by (simp add: unat_div)
  have sz: "unat (av_size vec + av_size vec div 2) = ?n"
    using n half unat_u32_plus [of "av_size vec" "av_size vec div 2"] by simp
  show "unat (av_size (akl_vector_grow vec 0)) = ?n"
    by (simp add: akl_vector_grow_def Let_def sz)
  show "length (av_vector (akl_vector_grow vec 0)) = ?n * ?m"
    using room sz unat_u32_mult [of "av_size vec + av_size vec div 2" "av_msize vec"]
    by (simp add: akl_vector_grow_def Let_def)
qed

lemma grow_fields [simp]:
  "av_count (akl_vector_grow vec n) = av_count vec"
  "av_msize (akl_vector_grow vec n) = av_msize vec"
  by (simp_all add: akl_vector_grow_def Let_def)

lemma vec_ok_grow:
  assumes "vec_ok vec" "vec_room vec"
  shows "vec_ok (akl_vector_grow vec 0)"
    "unat (av_count vec) + 1 < unat (av_size (akl_vector_grow vec 0))"
  using assms vec_okD [OF assms(1)] grow_size [OF assms]
  by (auto simp: vec_ok_def vec_room_def)

lemma vec_elems_grow:
  assumes "vec_ok vec" "vec_room vec"
  shows "vec_elems (akl_vector_grow vec 0) = vec_elems vec"
proof (rule nth_equalityI)
  fix i assume "i < length (vec_elems (akl_vector_grow vec 0))"
  then have i: "i < unat (av_count vec)" by simp
  let ?m = "unat (av_msize vec)" and ?k = "length (av_vector vec)"
  let ?b = "av_vector (akl_vector_grow vec 0)"
  have le: "?k \<le> length ?b"
    using grow_size(2) [OF assms] vec_okD(4) [OF assms(1)] by simp
  have b: "?b = realloc_block (av_vector vec) (length ?b)"
    by (simp add: akl_vector_grow_def Let_def)
  have tk: "take ?k ?b = take ?k (av_vector vec)"
    by (subst b) (rule take_realloc_block [OF le order_refl])
  have "i < unat (av_size vec)" using i vec_okD(3) [OF assms(1)] by linarith
  then have "i * ?m + ?m \<le> ?k"
    using slot_in_block vec_okD(4) [OF assms(1)] by simp
  then have "take ?m (drop (i * ?m) ?b) = take ?m (drop (i * ?m) (av_vector vec))"
    by (rule take_drop_prefix [OF tk])
  then show "vec_elems (akl_vector_grow vec 0) ! i = vec_elems vec ! i"
    using i by (simp add: vec_elems_nth vec_elem_def)
qed simp

subsection \<open>Reserve, push and pop implement the list operations\<close>

lemma reserve_ok:
  assumes "vec_ok vec" "vec_room vec"
  obtains v1 where
    "akl_vector_reserve vec =
       (Some (unat (av_count vec) * unat (av_msize vec)), v1\<lparr>av_count := av_count vec + 1\<rparr>)"
    "vec_ok v1" "vec_elems v1 = vec_elems vec" "av_count v1 = av_count vec"
    "av_msize v1 = av_msize vec" "unat (av_count vec) + 1 < unat (av_size v1)"
proof -
  define v1 where "v1 = (if akl_vector_is_grow_need vec then akl_vector_grow vec 0 else vec)"
  have ok: "vec_ok v1" and el: "vec_elems v1 = vec_elems vec"
    and cnt: "av_count v1 = av_count vec" and ms: "av_msize v1 = av_msize vec"
    using assms vec_ok_grow(1) [OF assms] by (auto simp: v1_def vec_elems_grow)
  have "unat (av_count vec + 1) = Suc (unat (av_count vec))"
    using vec_okD(3) [OF assms(1)] unat_u32_less [of "av_size vec"] by (intro unat_u32_Suc) linarith
  then have room: "unat (av_count vec) + 1 < unat (av_size v1)"
    using vec_ok_grow(2) [OF assms]
    by (auto simp: v1_def akl_vector_is_grow_need_def word_le_nat_alt)
  have "akl_vector_at v1 (av_count v1) = Some (unat (av_count vec) * unat (av_msize vec))"
    using akl_vector_at_ok [OF ok, of "av_count v1"] room by (simp add: cnt ms)
  then show thesis
    using that ok el cnt ms room by (simp add: akl_vector_reserve_def Let_def flip: v1_def)
qed

lemma vec_elems_snoc:
  assumes "take (unat (av_count v) * unat (av_msize v)) b' =
             take (unat (av_count v) * unat (av_msize v)) (av_vector v)"
    "take (unat (av_msize v)) (drop (unat (av_count v) * unat (av_msize v)) b') = x"
    "unat (av_count v + 1) = Suc (unat (av_count v))"
  shows "vec_elems (v\<lparr>av_vector := b', av_count := av_count v + 1\<rparr>) = vec_elems v @ [x]"
proof -
  have "vec_elem (v\<lparr>av_vector := b', av_count := av_count v + 1\<rparr>) (i * unat (av_msize v)) =
          vec_elem v (i * unat (av_msize v))" if "i < unat (av_count v)" for i
    using take_drop_prefix [OF assms(1) slot_in_block [OF that]] by (simp add: vec_elem_def)
  then show ?thesis
    using assms(2,3) by (simp add: vec_elems_def vec_elem_def)
qed

lemma push_ok:
  assumes "vec_ok vec" "vec_room vec" "unat (av_msize vec) \<le> length data"
  obtains v' where "akl_vector_push vec data = Some (av_count vec, v')" "vec_ok v'"
    "av_msize v' = av_msize vec"
    "vec_elems v' = vec_elems vec @ [take (unat (av_msize vec)) data]"
proof -
  let ?m = "unat (av_msize vec)" and ?c = "unat (av_count vec)"
  obtain v1 where v1:
    "akl_vector_reserve vec = (Some (?c * ?m), v1\<lparr>av_count := av_count vec + 1\<rparr>)"
    "vec_ok v1" "vec_elems v1 = vec_elems vec" "av_count v1 = av_count vec"
    "av_msize v1 = av_msize vec" "?c + 1 < unat (av_size v1)"
    by (rule reserve_ok [OF assms(1,2)])
  define b' where "b' = take (?c * ?m) (av_vector v1) @ take ?m data @ drop (?c * ?m + ?m) (av_vector v1)"
  have len: "?c * ?m + ?m \<le> length (av_vector v1)"
    using slot_in_block [of ?c "unat (av_size v1)" ?m] v1(5,6) vec_okD(4) [OF v1(2)] by simp
  then have mem: "memcpy_at (av_vector v1) (?c * ?m) data ?m = Some b'"
    using assms(3) by (simp add: memcpy_at_def b'_def)
  have lb: "length b' = length (av_vector v1)" by (rule length_memcpy_at [OF mem])
  have tk: "length (take ?m data) = ?m" using assms(3) by simp
  have p1: "take (?c * ?m) b' = take (?c * ?m) (av_vector v1)" using len by (simp add: b'_def)
  have p2: "take ?m (drop (?c * ?m) b') = take ?m data" using len assms(3) by (simp add: b'_def)
  have suc: "unat (av_count vec + 1) = Suc ?c"
    using v1(6) unat_u32_less [of "av_size v1"] by (intro unat_u32_Suc) linarith
  define v' where "v' = v1\<lparr>av_vector := b', av_count := av_count v1 + 1\<rparr>"
  have "vec_elems v' = vec_elems v1 @ [take ?m data]"
    unfolding v'_def using p1 p2 suc by (intro vec_elems_snoc) (simp_all add: v1(4,5))
  moreover have "akl_vector_push vec data = Some (av_count vec, v')"
    by (simp add: akl_vector_push_def v1(1,4,5) mem v'_def)
  moreover have "vec_ok v'"
    using v1(2,6) suc by (simp add: vec_ok_def v'_def lb v1(4,5))
  ultimately show thesis using that [of v'] by (simp add: v1(3,5) v'_def)
qed

lemma pop_ok:
  assumes "vec_ok vec" "av_count vec \<noteq> 0"
  obtains off v' where "akl_vector_pop vec = (Some off, v')" "vec_ok v'"
    "vec_elem v' off = last (vec_elems vec)" "vec_elems v' = butlast (vec_elems vec)"
proof -
  let ?m = "unat (av_msize vec)" and ?c = "unat (av_count vec)"
  define v' where "v' = vec\<lparr>av_count := av_count vec - 1\<rparr>"
  have c1: "unat (av_count vec - 1) = ?c - 1" by (rule unat_u32_minus1 [OF assms(2)])
  have pos: "0 < ?c" using assms(2) by (simp add: unat_gt_0)
  have lt: "?c < unat (av_size vec)" by (rule vec_okD(3) [OF assms(1)])
  have ok: "vec_ok v'"
    using assms(1) c1 lt by (simp add: v'_def vec_ok_def)
  have at: "akl_vector_at v' (av_count v') = Some ((?c - 1) * ?m)"
    using akl_vector_at_ok [OF ok, of "av_count v'"] c1 lt by (simp add: v'_def)
  have "vec_elems v' = butlast (vec_elems vec)"
    by (rule nth_equalityI) (simp_all add: v'_def c1 vec_elems_nth nth_butlast vec_elem_def)
  moreover have "vec_elem v' ((?c - 1) * ?m) = last (vec_elems vec)"
    using pos by (simp add: last_conv_nth vec_elems_nth v'_def vec_elem_def
      length_greater_0_conv [symmetric] del: length_greater_0_conv)
  ultimately show thesis
    using that [OF _ ok] at assms(2) by (simp add: akl_vector_pop_def Let_def flip: v'_def)
qed

subsection \<open>Search\<close>

fun find_index :: "('a \<Rightarrow> bool) \<Rightarrow> 'a list \<Rightarrow> nat option" where
  "find_index P [] = None"
| "find_index P (x # xs) = (if P x then Some 0 else map_option Suc (find_index P xs))"

lemma find_index_Some: "find_index P xs = Some i \<Longrightarrow> i < length xs \<and> P (xs ! i) \<and> (\<forall>j<i. \<not> P (xs ! j))"
proof (induction xs arbitrary: i)
  case (Cons x xs)
  then show ?case by (auto split: if_splits simp: less_Suc_eq_0_disj)
qed simp

lemma find_index_None: "find_index P xs = None \<longleftrightarrow> (\<forall>x\<in>set xs. \<not> P x)"
  by (induction xs) auto

lemma find_from_ok:
  assumes "vec_ok vec" "unat i + n = unat (av_count vec)"
  shows "akl_vector_find_from n i vec cmp arg =
    (case find_index (\<lambda>x. cmp x arg = 0) (drop (unat i) (vec_elems vec)) of
       None \<Rightarrow> Some (None, - 1)
     | Some j \<Rightarrow> Some (Some ((unat i + j) * unat (av_msize vec)), int (unat i + j)))"
  using assms(2)
proof (induction n arbitrary: i)
  case 0
  then show ?case by simp
next
  case (Suc n)
  have lt: "unat i < unat (av_count vec)" using Suc.prems by linarith
  then have size: "unat i < unat (av_size vec)" using vec_okD(3) [OF assms(1)] by linarith
  have i1: "unat (i + 1) = Suc (unat i)"
    using lt unat_u32_less [of "av_count vec"] by (intro unat_u32_Suc) linarith
  have dr: "drop (unat i) (vec_elems vec) =
      vec_elem vec (unat i * unat (av_msize vec)) # drop (unat (i + 1)) (vec_elems vec)"
    using lt i1 by (simp add: Cons_nth_drop_Suc [symmetric] vec_elems_nth)
  show ?case
    using Suc.IH [of "i + 1"] Suc.prems i1
    by (simp add: akl_vector_at_ok [OF assms(1) size] dr split: option.splits)
qed

lemma find_ok:
  assumes "vec_ok vec"
  shows "akl_vector_find vec cmp arg =
    (case find_index (\<lambda>x. cmp x arg = 0) (vec_elems vec) of
       None \<Rightarrow> Some (None, - 1)
     | Some j \<Rightarrow> Some (Some (j * unat (av_msize vec)), int j))"
  using find_from_ok [OF assms, of 0 "unat (av_count vec)" cmp arg]
  by (simp add: akl_vector_find_def split: option.splits)

subsection \<open>The vector as a \<open>lifo\<close>\<close>

definition vec_push1 :: "akl_vector \<Rightarrow> mbyte list \<Rightarrow> akl_vector option" where
  "vec_push1 vec x = map_option snd (akl_vector_push vec x)"

definition vec_pop1 :: "akl_vector \<Rightarrow> (mbyte list \<times> akl_vector) option" where
  "vec_pop1 vec = (case akl_vector_pop vec of (None, _) \<Rightarrow> None
                   | (Some off, v') \<Rightarrow> Some (vec_elem v' off, v'))"

interpretation vec: lifo vec_ok vec_elems
  "\<lambda>v x. vec_room v \<and> length x = unat (av_msize v)" vec_push1 vec_pop1
proof unfold_locales
  fix s and x :: "mbyte list"
  assume ok: "vec_ok s" and fits: "vec_room s \<and> length x = unat (av_msize s)"
  obtain v' where "akl_vector_push s x = Some (av_count s, v')" "vec_ok v'"
    "vec_elems v' = vec_elems s @ [take (unat (av_msize s)) x]"
    using push_ok [OF ok, of x] fits by auto
  then show "\<exists>s'. vec_push1 s x = Some s' \<and> vec_ok s' \<and> vec_elems s' = vec_elems s @ [x]"
    using fits by (simp add: vec_push1_def)
next
  fix s assume ok: "vec_ok s" and "vec_elems s \<noteq> []"
  then have "av_count s \<noteq> 0"
    using length_vec_elems [of s] by (metis length_0_conv unat_u32_eq0)
  from pop_ok [OF ok this] show "\<exists>s'. vec_pop1 s = Some (last (vec_elems s), s') \<and> vec_ok s'
      \<and> vec_elems s' = butlast (vec_elems s)"
    by (metis (no_types, lifting) old.prod.case option.case(2) vec_pop1_def)
qed

subsection \<open>Properties\<close>

text \<open>
  C30. Under the representation invariant, with room below the width of \<open>unsigned int\<close>,
  \<open>akl_vector_push\<close> returns the index of the new element, appends the first \<open>av_msize\<close>
  bytes of the object to the elements and keeps the invariant (it never touches memory
  outside the array, growing it when needed).
\<close>

theorem vector_push_appends:
  assumes "vec_ok vec" "vec_room vec" "unat (av_msize vec) \<le> length data"
  shows "\<exists>v'. akl_vector_push vec data = Some (of_nat (length (vec_elems vec)), v') \<and> vec_ok v'
    \<and> av_msize v' = av_msize vec
    \<and> vec_elems v' = vec_elems vec @ [take (unat (av_msize vec)) data]"
  using push_ok [OF assms] by (metis length_vec_elems of_nat_unat ucast_id)

theorem vector_push_appends_witness:
  "\<exists>v'. akl_vector_push (akl_init_vector 2 1) [Some 7]
      = Some (of_nat (length (vec_elems (akl_init_vector 2 1))), v') \<and> vec_ok v'
    \<and> av_msize v' = av_msize (akl_init_vector 2 1)
    \<and> vec_elems v' = vec_elems (akl_init_vector 2 1) @ [take (unat (av_msize (akl_init_vector 2 1))) [Some 7]]"
  by (rule vector_push_appends)
    (simp_all add: vec_ok_def vec_room_def akl_init_vector_def calloc_block_def)

text \<open>
  \<open>akl_vector_pop\<close> after \<open>akl_vector_push\<close> gives back the pushed element (its bytes at
  the returned pointer) and leaves the elements that were there before: the vector is a
  stack.
\<close>

theorem vector_pop_after_push:
  assumes "vec_ok vec" "vec_room vec" "length x = unat (av_msize vec)"
  shows "\<exists>v1 v2. vec_push1 vec x = Some v1 \<and> vec_pop1 v1 = Some (x, v2) \<and> vec_ok v2
    \<and> vec_elems v2 = vec_elems vec"
  using assms by (intro vec.pop_after_push) auto

theorem vector_pop_after_push_witness:
  "\<exists>v1 v2. vec_push1 (akl_init_vector 4 1) [Some 9] = Some v1 \<and> vec_pop1 v1 = Some ([Some 9], v2)
    \<and> vec_ok v2 \<and> vec_elems v2 = vec_elems (akl_init_vector 4 1)"
  by (rule vector_pop_after_push)
    (simp_all add: vec_ok_def vec_room_def akl_init_vector_def calloc_block_def)

text \<open>
  \<open>akl_vector_find\<close> returns a pointer to the first element the comparison function
  calls equal, with its index, and NULL with index -1 exactly when no element is equal.
\<close>

theorem vector_find_first_match:
  assumes "vec_ok vec" "akl_vector_find vec cmp arg = Some (ptr, ind)"
  shows "(ptr = None \<and> ind = -1 \<and> (\<forall>x\<in>set (vec_elems vec). cmp x arg \<noteq> 0)) \<or>
    (\<exists>i<length (vec_elems vec). ptr = Some (i * unat (av_msize vec)) \<and> ind = int i
       \<and> cmp (vec_elems vec ! i) arg = 0 \<and> (\<forall>j<i. cmp (vec_elems vec ! j) arg \<noteq> 0))"
  using assms(2) find_index_Some [of "\<lambda>x. cmp x arg = 0" "vec_elems vec"]
  by (auto simp: find_ok [OF assms(1)] find_index_None split: option.splits)

definition vec_example :: akl_vector where
  "vec_example = \<lparr>av_vector = [Some 5, Some 6, Some 6, Some 0], av_count = 3, av_size = 4, av_msize = 1\<rparr>"

definition byte_cmp :: "mbyte list \<Rightarrow> mbyte list \<Rightarrow> int" where
  "byte_cmp x y = (if x = y then 0 else 1)"

lemma vec_example_find: "akl_vector_find vec_example byte_cmp [Some 6] = Some (Some 1, 1)"
  by code_simp

lemma vec_example_ok: "vec_ok vec_example"
  by (simp add: vec_ok_def vec_example_def)

theorem vector_find_first_match_witness:
  "(Some (1::nat) = None \<and> (1::int) = -1 \<and> (\<forall>x\<in>set (vec_elems vec_example). byte_cmp x [Some 6] \<noteq> 0)) \<or>
    (\<exists>i<length (vec_elems vec_example). Some 1 = Some (i * unat (av_msize vec_example)) \<and> 1 = int i
       \<and> byte_cmp (vec_elems vec_example ! i) [Some 6] = 0
       \<and> (\<forall>j<i. byte_cmp (vec_elems vec_example ! j) [Some 6] \<noteq> 0))"
  by (rule vector_find_first_match [OF vec_example_ok vec_example_find])

text \<open>
  A vector of capacity one cannot grow (its capacity and half of it is one again): the
  first push succeeds and the second one stores through NULL. The invariant's bound
  \<open>2 \<le> av_size\<close> is therefore needed.
\<close>

theorem vector_capacity_one_breaks:
  "\<exists>v1. akl_vector_push (akl_init_vector 1 1) [Some a] = Some (0, v1)
    \<and> akl_vector_push v1 [Some b] = None"
  by (simp add: akl_vector_push_def akl_init_vector_def akl_vector_reserve_def
      akl_vector_is_grow_need_def akl_vector_grow_def akl_vector_at_def Let_def
      realloc_block_def memcpy_at_def calloc_block_def)

text \<open>
  The bound check of \<open>akl_vector_truncate_by\<close> compares an unsigned difference with 0,
  so truncating by more than the count does not stop at 0: the count wraps around to
  \<open>2\<^sup>3\<^sup>2\<close> minus the excess. Up to the count it drops exactly that many elements.
\<close>

theorem vector_truncate_by_wraps:
  "unat (av_count (akl_vector_truncate_by vec n)) =
     (if unat n \<le> unat (av_count vec) then unat (av_count vec) - unat n
      else 4294967296 - (unat n - unat (av_count vec)))"
proof -
  have "unat (av_count vec - n) =
     (if unat n \<le> unat (av_count vec) then unat (av_count vec) - unat n
      else unat (av_count vec) + 4294967296 - unat n)"
    by (simp add: unat_sub_if')
  moreover have "av_count vec - n = 0 \<longleftrightarrow> n = av_count vec" by auto
  ultimately show ?thesis
    using unat_u32_less [of n] by (auto simp: akl_vector_truncate_by_def word_gt_0)
qed

end
