(* ===== verification/Memory.thy ===== *)
theory Memory
  imports GcPool Vector
begin

text \<open>
  The start of the collector (\<open>src/gc.c\<close>: \<open>akl_gc_init\<close> and the registration of types) and the
  memory of vectors (\<open>src/vector.c\<close>: creation and release, with the counter of allocated bytes).
\<close>

subsection \<open>Types of objects\<close>

definition akl_gc_enable :: "gc_state \<Rightarrow> gc_state" where
  "akl_gc_enable s = s\<lparr>gs_use_gc := True\<rparr>"

definition akl_gc_disable :: "gc_state \<Rightarrow> gc_state" where
  "akl_gc_disable s = s\<lparr>gs_use_gc := False\<rparr>"

definition akl_gc_register_type :: "gc_state \<Rightarrow> bool \<Rightarrow> nat \<times> gc_state" where
  "akl_gc_register_type s marker =
     (let t = length (gs_types s) in
      (t, s\<lparr>gs_types := gs_types s @ [\<lparr>gt_type_id = t, gt_has_marker = marker, gt_pool_last = 0,
             gt_pool_count = 0, gt_pool_head = 0\<rparr>]\<rparr>))"

definition AKL_GC_NR_BASE_TYPES :: nat where
  "AKL_GC_NR_BASE_TYPES = 6"

text \<open>All base types have a marker (two of the six are empty functions).\<close>

definition akl_gc_init :: "gc_state \<Rightarrow> gc_state" where
  "akl_gc_init s =
     (let s = akl_gc_disable (s\<lparr>gs_last_was_mark := False\<rparr>)\<lparr>gs_types := []\<rparr>
      in fold (\<lambda>i s. snd (akl_gc_register_type s True)) [0..<AKL_GC_NR_BASE_TYPES] s)"

text \<open>After the start the pools satisfy the invariant under which no slot is handed out twice.\<close>

lemma gc_init_inv:
  assumes "0 < gs_fresh s" "\<forall>p. gs_fresh s \<le> p \<longrightarrow> gs_pools s p = None"
  shows "gc_inv (akl_gc_init s) \<and> length (gs_types (akl_gc_init s)) = AKL_GC_NR_BASE_TYPES"
  using assms
  by (auto simp: akl_gc_init_def akl_gc_disable_def akl_gc_register_type_def AKL_GC_NR_BASE_TYPES_def Let_def
      gc_inv_def type_inv_def upt_conv_Cons nth_Cons' split: nat.splits)

subsection \<open>The memory of vectors\<close>

text \<open>
  \<open>msize\<close> is the counter \<open>ai_gc_malloc_size\<close>, \<open>ms\<close> and \<open>hs\<close> the answers of the callbacks (see
  \<open>akl_alloc\<close>). The structure has 32 bytes. A NULL structure fails the assertion in
  \<open>akl_init_vector\<close>; a NULL block is kept (\<open>av_vector = []\<close>).
\<close>

definition sizeof_akl_vector :: u32 where
  "sizeof_akl_vector = 32"

definition akl_new_vector :: "u32 \<Rightarrow> u32 \<Rightarrow> u32 \<Rightarrow> bool list \<Rightarrow> nomem_action list \<Rightarrow>
    (akl_vector option \<times> u32 \<times> bool list \<times> nomem_action list) option" where
  "akl_new_vector msize nmemb sz ms hs =
     do {
       (r, msize, ms, hs) \<leftarrow> akl_alloc msize sizeof_akl_vector ms hs;
       (case r of
          A_exit \<Rightarrow> Some (None, msize, ms, hs)
        | A_null \<Rightarrow> None
        | A_ptr \<Rightarrow> do {
            let vec = akl_init_vector nmemb sz;
            (q, msize, ms, hs) \<leftarrow> akl_calloc msize (av_size vec) (av_msize vec) ms hs;
            (case q of
               A_exit \<Rightarrow> Some (None, msize, ms, hs)
             | A_null \<Rightarrow> Some (Some (vec\<lparr>av_vector := []\<rparr>), msize, ms, hs)
             | A_ptr \<Rightarrow> Some (Some vec, msize, ms, hs))
          })
     }"

definition akl_vector_destroy :: "u32 \<Rightarrow> akl_vector \<Rightarrow> u32" where
  "akl_vector_destroy msize vec = akl_free msize (av_size vec)"

definition akl_vector_free :: "u32 \<Rightarrow> akl_vector \<Rightarrow> u32" where
  "akl_vector_free msize vec = akl_free (akl_vector_destroy msize vec) sizeof_akl_vector"

text \<open>\<open>akl_vector_remove\<close> is not written: it returns NULL and removes nothing.\<close>

definition akl_vector_remove :: "akl_vector \<Rightarrow> u32 \<Rightarrow> nat option \<times> akl_vector" where
  "akl_vector_remove vec ind = (None, vec)"

text \<open>
  Releasing a vector subtracts its capacity, not its bytes: after creating and freeing one, the
  counter is too large by \<open>nmemb * (size - 1)\<close>.
\<close>

lemma vector_free_accounting:
  assumes "nmemb \<noteq> 0" "sz \<noteq> 0"
  shows "\<exists>vec msize'. akl_new_vector msize nmemb sz (True # True # ms) hs = Some (Some vec, msize', ms, hs) \<and>
    akl_vector_free msize' vec = msize + nmemb * (sz - 1)"
  using assms
  by (simp add: akl_new_vector_def akl_calloc_def akl_init_vector_def akl_vector_free_def akl_vector_destroy_def
      akl_free_def Let_def algebra_simps)

end
