(* ===== verification/CString.thy ===== *)
theory CString
  imports Prelude "HOL-Library.List_Lexorder"
begin

text \<open>
  The functions of the C library on strings and characters that AkLisp calls, in the "C"
  locale. A C string is the list of its characters before the terminating NUL; the
  comparisons return the sign alone, which is all the standard promises and all AkLisp uses.
\<close>

definition is_upper :: "char \<Rightarrow> bool" where
  "is_upper c \<longleftrightarrow> 65 \<le> (of_char c :: nat) \<and> (of_char c :: nat) \<le> 90"

definition is_lower :: "char \<Rightarrow> bool" where
  "is_lower c \<longleftrightarrow> 97 \<le> (of_char c :: nat) \<and> (of_char c :: nat) \<le> 122"

definition is_digit :: "char \<Rightarrow> bool" where
  "is_digit c \<longleftrightarrow> 48 \<le> (of_char c :: nat) \<and> (of_char c :: nat) \<le> 57"

definition is_space :: "char \<Rightarrow> bool" where
  "is_space c \<longleftrightarrow> (of_char c :: nat) = 32 \<or> 9 \<le> (of_char c :: nat) \<and> (of_char c :: nat) \<le> 13"

definition tolower :: "char \<Rightarrow> char" where
  "tolower c = (if is_upper c then char_of ((of_char c :: nat) + 32) else c)"

definition toupper :: "char \<Rightarrow> char" where
  "toupper c = (if is_lower c then char_of ((of_char c :: nat) - 32) else c)"

text \<open>Strings compare by the codes of their characters; the NUL makes a proper prefix smaller.\<close>

definition str_key :: "string \<Rightarrow> nat list" where
  "str_key s = map of_char s"

definition case_key :: "string \<Rightarrow> nat list" where
  "case_key s = map (\<lambda>c. of_char (tolower c)) s"

fun cmp_codes :: "nat list \<Rightarrow> nat list \<Rightarrow> int" where
  "cmp_codes [] [] = 0"
| "cmp_codes [] (b # bs) = - 1"
| "cmp_codes (a # as) [] = 1"
| "cmp_codes (a # as) (b # bs) = (if a < b then - 1 else if b < a then 1 else cmp_codes as bs)"

definition strcmp :: "string \<Rightarrow> string \<Rightarrow> int" where
  "strcmp a b = cmp_codes (str_key a) (str_key b)"

definition strcasecmp :: "string \<Rightarrow> string \<Rightarrow> int" where
  "strcasecmp a b = cmp_codes (case_key a) (case_key b)"

lemma cmp_codes_less: "cmp_codes as bs < 0 \<longleftrightarrow> as < bs"
  by (induction as bs rule: cmp_codes.induct) auto

lemma cmp_codes_greater: "0 < cmp_codes as bs \<longleftrightarrow> bs < as"
  by (induction as bs rule: cmp_codes.induct) auto

lemma cmp_codes_eq: "cmp_codes as bs = 0 \<longleftrightarrow> as = bs"
  by (induction as bs rule: cmp_codes.induct) auto

lemma strcmp_eq [simp]: "strcmp a b = 0 \<longleftrightarrow> a = b"
  by (simp add: strcmp_def cmp_codes_eq str_key_def inj_map_eq_map inj_def)

lemma strcasecmp_eq: "strcasecmp a b = 0 \<longleftrightarrow> case_key a = case_key b"
  by (simp add: strcasecmp_def cmp_codes_eq)

lemma strcasecmp_refl [simp]: "strcasecmp a a = 0"
  by (simp add: strcasecmp_eq)

lemma strcasecmp_less: "strcasecmp a b < 0 \<longleftrightarrow> case_key a < case_key b"
  by (simp add: strcasecmp_def cmp_codes_less)

lemma strcasecmp_greater: "0 < strcasecmp a b \<longleftrightarrow> case_key b < case_key a"
  by (simp add: strcasecmp_def cmp_codes_greater)

end
