(* ===== verification/RbTree.thy ===== *)
theory RbTree
  imports Interfaces CString
begin

text \<open>
  The red-black trees of \<open>src/akl_tree.h\<close>, which hold the symbols and the global variables:
  search, insertion with its rebalancing loop, minimum and successor.

  The nodes point to their parents, and the loops walk up. A position in a tree is modelled
  by the subtree at it and the path to the root: a list of crumbs, the parent first, each
  with the parent's element and colour and the subtree on its other side.
  \<open>RB_PARENT\<close> is the head of the path, NULL its end. \<open>None\<close> is a NULL dereference.
\<close>

subsection \<open>Trees, paths, rotations\<close>

datatype rb_color = RB_BLACK | RB_RED

datatype 'a rb_tree = RB_NULL
  | RB_NODE (rbe_elm: 'a) (rbe_color: rb_color) (rbe_left: "'a rb_tree") (rbe_right: "'a rb_tree")

datatype 'a crumb =
    IsLeft 'a rb_color "'a rb_tree"     \<comment> \<open>the parent, whose left child we are, and its right child\<close>
  | IsRight 'a rb_color "'a rb_tree"    \<comment> \<open>the parent, whose right child we are, and its left child\<close>

fun plug1 :: "'a crumb \<Rightarrow> 'a rb_tree \<Rightarrow> 'a rb_tree" where
  "plug1 (IsLeft x c r) t = RB_NODE x c t r"
| "plug1 (IsRight x c l) t = RB_NODE x c l t"

fun plug :: "'a crumb list \<Rightarrow> 'a rb_tree \<Rightarrow> 'a rb_tree" where
  "plug [] t = t"
| "plug (c # cs) t = plug cs (plug1 c t)"

fun crumb_color :: "'a crumb \<Rightarrow> rb_color" where
  "crumb_color (IsLeft x c r) = c"
| "crumb_color (IsRight x c l) = c"

fun sibling :: "'a crumb \<Rightarrow> 'a rb_tree" where
  "sibling (IsLeft x c r) = r"
| "sibling (IsRight x c l) = l"

fun is_left :: "'a crumb \<Rightarrow> bool" where
  "is_left (IsLeft x c r) = True"
| "is_left (IsRight x c l) = False"

fun crumb_elm :: "'a crumb \<Rightarrow> 'a" where
  "crumb_elm (IsLeft x c r) = x"
| "crumb_elm (IsRight x c l) = x"

fun is_red :: "'a rb_tree \<Rightarrow> bool" where
  "is_red (RB_NODE x RB_RED l r) = True"
| "is_red _ = False"

fun set_color :: "rb_color \<Rightarrow> 'a rb_tree \<Rightarrow> 'a rb_tree" where
  "set_color c RB_NULL = RB_NULL"
| "set_color c (RB_NODE x c0 l r) = RB_NODE x c l r"

fun RB_ROTATE_LEFT :: "'a rb_tree \<Rightarrow> 'a rb_tree option" where
  "RB_ROTATE_LEFT (RB_NODE x c l (RB_NODE y d m r)) = Some (RB_NODE y d (RB_NODE x c l m) r)"
| "RB_ROTATE_LEFT _ = None"

fun RB_ROTATE_RIGHT :: "'a rb_tree \<Rightarrow> 'a rb_tree option" where
  "RB_ROTATE_RIGHT (RB_NODE x c (RB_NODE y d l m) r) = Some (RB_NODE y d l (RB_NODE x c m r))"
| "RB_ROTATE_RIGHT _ = None"

subsection \<open>Search and insertion\<close>

text \<open>\<open>cmp x\<close> is the comparison of the element sought with the element \<open>x\<close> of the tree.\<close>

fun RB_FIND :: "('a \<Rightarrow> int) \<Rightarrow> 'a rb_tree \<Rightarrow> 'a option" where
  "RB_FIND cmp RB_NULL = None"
| "RB_FIND cmp (RB_NODE x c l r) =
     (if cmp x < 0 then RB_FIND cmp l else if cmp x > 0 then RB_FIND cmp r else Some x)"

text \<open>The loop of the colours. The test \<open>while\<close> is on the colour of the parent.\<close>

fun RB_INSERT_COLOR :: "'a rb_tree \<Rightarrow> 'a crumb list \<Rightarrow> 'a rb_tree option" where
  "RB_INSERT_COLOR elm [] = Some (set_color RB_BLACK elm)"
| "RB_INSERT_COLOR elm [parent] =
     (if crumb_color parent = RB_RED then None
      else Some (set_color RB_BLACK (plug [parent] elm)))"
| "RB_INSERT_COLOR elm (parent # gparent # cs) =
     (if crumb_color parent \<noteq> RB_RED
      then Some (set_color RB_BLACK (plug (parent # gparent # cs) elm))
      else if is_left gparent then
        (if is_red (sibling gparent)
         then RB_INSERT_COLOR
           (RB_NODE (crumb_elm gparent) RB_RED (set_color RB_BLACK (plug1 parent elm))
             (set_color RB_BLACK (sibling gparent))) cs
         else do {
           p \<leftarrow> (if \<not> is_left parent then RB_ROTATE_LEFT (plug1 parent elm) else Some (plug1 parent elm));
           g \<leftarrow> RB_ROTATE_RIGHT (RB_NODE (crumb_elm gparent) RB_RED (set_color RB_BLACK p) (sibling gparent));
           Some (set_color RB_BLACK (plug cs g))
         })
      else
        (if is_red (sibling gparent)
         then RB_INSERT_COLOR
           (RB_NODE (crumb_elm gparent) RB_RED (set_color RB_BLACK (sibling gparent))
             (set_color RB_BLACK (plug1 parent elm))) cs
         else do {
           p \<leftarrow> (if is_left parent then RB_ROTATE_RIGHT (plug1 parent elm) else Some (plug1 parent elm));
           g \<leftarrow> RB_ROTATE_LEFT (RB_NODE (crumb_elm gparent) RB_RED (sibling gparent) (set_color RB_BLACK p));
           Some (set_color RB_BLACK (plug cs g))
         }))"

text \<open>Result: the element found in the tree (then nothing changes), and the tree.\<close>

fun rb_insert_loop :: "('a \<Rightarrow> int) \<Rightarrow> 'a \<Rightarrow> 'a rb_tree \<Rightarrow> 'a crumb list \<Rightarrow> ('a option \<times> 'a rb_tree) option" where
  "rb_insert_loop cmp elm RB_NULL path =
     do { t \<leftarrow> RB_INSERT_COLOR (RB_NODE elm RB_RED RB_NULL RB_NULL) path; Some (None, t) }"
| "rb_insert_loop cmp elm (RB_NODE x c l r) path =
     (if cmp x < 0 then rb_insert_loop cmp elm l (IsLeft x c r # path)
      else if cmp x > 0 then rb_insert_loop cmp elm r (IsRight x c l # path)
      else Some (Some x, plug path (RB_NODE x c l r)))"

definition RB_INSERT :: "('a \<Rightarrow> int) \<Rightarrow> 'a \<Rightarrow> 'a rb_tree \<Rightarrow> ('a option \<times> 'a rb_tree) option" where
  "RB_INSERT cmp elm t = rb_insert_loop cmp elm t []"

subsection \<open>Invariants\<close>

fun rb_inorder :: "'a rb_tree \<Rightarrow> 'a list" where
  "rb_inorder RB_NULL = []"
| "rb_inorder (RB_NODE x c l r) = rb_inorder l @ x # rb_inorder r"

fun bheight :: "'a rb_tree \<Rightarrow> nat" where
  "bheight RB_NULL = 0"
| "bheight (RB_NODE x c l r) = bheight l + (if c = RB_BLACK then 1 else 0)"

text \<open>No red node has a red child, and both sides of a node have the same black height.\<close>

fun balanced :: "'a rb_tree \<Rightarrow> bool" where
  "balanced RB_NULL = True"
| "balanced (RB_NODE x c l r) \<longleftrightarrow> balanced l \<and> balanced r \<and> bheight l = bheight r \<and>
     (c = RB_RED \<longrightarrow> \<not> is_red l \<and> \<not> is_red r)"

definition rb_shape :: "'a rb_tree \<Rightarrow> bool" where
  "rb_shape t \<longleftrightarrow> balanced t \<and> \<not> is_red t"

text \<open>The same for a path around a subtree of black height \<open>n\<close>.\<close>

fun path_ok :: "'a crumb list \<Rightarrow> nat \<Rightarrow> bool" where
  "path_ok [] n = True"
| "path_ok (c # cs) n \<longleftrightarrow> balanced (sibling c) \<and> bheight (sibling c) = n \<and>
     (crumb_color c = RB_RED \<longrightarrow> \<not> is_red (sibling c) \<and> cs \<noteq> [] \<and> crumb_color (hd cs) = RB_BLACK) \<and>
     path_ok cs (n + (if crumb_color c = RB_BLACK then 1 else 0))"

lemma set_color_simps [simp]:
  "rb_inorder (set_color c t) = rb_inorder t"
  "\<not> is_red (set_color RB_BLACK t)"
  "balanced t \<Longrightarrow> balanced (set_color RB_BLACK t)"
  by (cases t; simp)+

lemma is_red_iff: "is_red t \<longleftrightarrow> (\<exists>x l r. t = RB_NODE x RB_RED l r)"
  by (cases t rule: is_red.cases) auto

lemma bheight_black: "bheight (set_color RB_BLACK t) = bheight t + (if is_red t then 1 else 0)"
  by (cases t rule: is_red.cases) auto

lemma rb_color_cases: "c \<noteq> RB_RED \<longleftrightarrow> c = RB_BLACK"
  by (cases c) auto

lemma plug_balanced:
  "path_ok cs n \<Longrightarrow> balanced t \<Longrightarrow> bheight t = n \<Longrightarrow>
   (is_red t \<longrightarrow> cs = [] \<or> crumb_color (hd cs) = RB_BLACK) \<Longrightarrow> balanced (plug cs t)"
proof (induction cs arbitrary: t n)
  case Nil
  then show ?case by simp
next
  case (Cons c cs)
  show ?case
    using Cons.prems
    by (cases c) (auto intro!: Cons.IH [where n = "n + (if crumb_color c = RB_BLACK then 1 else 0)"]
        simp: is_red_iff rb_color_cases [symmetric])
qed

lemma plug_shape:
  "path_ok cs n \<Longrightarrow> balanced t \<Longrightarrow> bheight t = n \<Longrightarrow> \<not> is_red t \<Longrightarrow> rb_shape (set_color RB_BLACK (plug cs t))"
  using plug_balanced [of cs n t] by (simp add: rb_shape_def)

lemma plug_inorder: "rb_inorder t = rb_inorder t' \<Longrightarrow> rb_inorder (plug cs t) = rb_inorder (plug cs t')"
proof (induction cs arbitrary: t t')
  case (Cons c cs)
  then show ?case by (cases c) auto
qed simp

lemma RB_INSERT_COLOR_ok:
  assumes "path_ok cs n" "is_red elm" "balanced elm" "bheight elm = n"
  shows "\<exists>t. RB_INSERT_COLOR elm cs = Some t \<and> rb_shape t \<and> rb_inorder t = rb_inorder (plug cs elm)"
  using assms
proof (induction elm cs arbitrary: n rule: RB_INSERT_COLOR.induct)
  case (1 elm)
  then show ?case by (simp add: rb_shape_def)
next
  case (2 elm parent)
  then show ?case
    using plug_balanced [of "[parent]" n elm] by (simp add: rb_shape_def rb_color_cases)
next
  case (3 elm parent gparent cs)
  show ?case
  proof (cases "crumb_color parent = RB_RED")
    case False
    then show ?thesis
      using 3(3-) plug_balanced [of "parent # gparent # cs" n elm] by (simp add: rb_shape_def rb_color_cases)
  next
    case red: True
    then have gb: "crumb_color gparent = RB_BLACK" and gs: "balanced (sibling gparent)"
      "bheight (sibling gparent) = n" and ps: "path_ok cs (Suc n)"
      using "3.prems"(1) by auto
    obtain e l r where e: "elm = RB_NODE e RB_RED l r"
      "balanced l" "balanced r" "bheight l = n" "bheight r = n" "\<not> is_red l" "\<not> is_red r"
      using "3.prems"(2-4) by (auto simp: is_red_iff)
    have sib: "balanced (sibling parent)" "bheight (sibling parent) = n" "\<not> is_red (sibling parent)"
      using "3.prems"(1) red by auto
    show ?thesis
    proof (cases "is_red (sibling gparent)")
      case uncle: True
      have P: "balanced (set_color RB_BLACK (plug1 parent elm))"
        "bheight (set_color RB_BLACK (plug1 parent elm)) = Suc n"
        using red sib e by (cases parent; simp)+
      have S: "balanced (set_color RB_BLACK (sibling gparent))"
        "bheight (set_color RB_BLACK (sibling gparent)) = Suc n"
        using gs uncle by (simp_all add: bheight_black)
      show ?thesis
      proof (cases gparent)
        case (IsLeft x c s)
        let ?G = "RB_NODE x RB_RED (set_color RB_BLACK (plug1 parent elm)) (set_color RB_BLACK s)"
        have "\<exists>t. RB_INSERT_COLOR ?G cs = Some t \<and> rb_shape t \<and> rb_inorder t = rb_inorder (plug cs ?G)"
          using "3.IH"(1) [of "Suc n"] IsLeft red uncle ps P S by simp
        moreover have "rb_inorder (plug cs ?G) = rb_inorder (plug cs (plug1 gparent (plug1 parent elm)))"
          by (rule plug_inorder) (simp add: IsLeft)
        ultimately show ?thesis using IsLeft red uncle by simp
      next
        case (IsRight x c s)
        let ?G = "RB_NODE x RB_RED (set_color RB_BLACK s) (set_color RB_BLACK (plug1 parent elm))"
        have "\<exists>t. RB_INSERT_COLOR ?G cs = Some t \<and> rb_shape t \<and> rb_inorder t = rb_inorder (plug cs ?G)"
          using "3.IH"(2) [of "Suc n"] IsRight red uncle ps P S by simp
        moreover have "rb_inorder (plug cs ?G) = rb_inorder (plug cs (plug1 gparent (plug1 parent elm)))"
          by (rule plug_inorder) (simp add: IsRight)
        ultimately show ?thesis using IsRight red uncle by simp
      qed
    next
      case False
      then show ?thesis
        using red gb gs ps sib e
        by (cases parent; cases gparent)
          (auto intro!: plug_shape [where n = "Suc n"] plug_inorder)
    qed
  qed
qed

subsection \<open>The elements before and after a position\<close>

fun before :: "'a crumb list \<Rightarrow> 'a list" where
  "before [] = []"
| "before (IsLeft x c r # cs) = before cs"
| "before (IsRight x c l # cs) = before cs @ rb_inorder l @ [x]"

fun after :: "'a crumb list \<Rightarrow> 'a list" where
  "after [] = []"
| "after (IsLeft x c r # cs) = x # rb_inorder r @ after cs"
| "after (IsRight x c l # cs) = after cs"

lemma inorder_plug: "rb_inorder (plug cs t) = before cs @ rb_inorder t @ after cs"
  by (induction cs arbitrary: t rule: before.induct) auto

text \<open>
  An order on the elements by a key, and a comparison function that agrees with it: what
  \<open>akl_rb_cmp_sym\<close> and \<open>akl_rb_cmp_var\<close> promise to the trees.
\<close>

locale rb_order =
  fixes key :: "'a \<Rightarrow> 'k::linorder"
    and qkey :: "'q \<Rightarrow> 'k"
    and cmp :: "'q \<Rightarrow> 'a \<Rightarrow> int"
  assumes cmp_less: "cmp q x < 0 \<longleftrightarrow> qkey q < key x"
    and cmp_greater: "0 < cmp q x \<longleftrightarrow> key x < qkey q"
begin

definition ordered :: "'a rb_tree \<Rightarrow> bool" where
  "ordered t \<longleftrightarrow> sorted_wrt (\<lambda>x y. key x < key y) (rb_inorder t)"

lemma find_iff:
  "ordered t \<Longrightarrow> RB_FIND (cmp q) t = Some x \<longleftrightarrow> x \<in> set (rb_inorder t) \<and> key x = qkey q"
proof (induction t)
  case RB_NULL
  then show ?case by simp
next
  case (RB_NODE y c l r)
  then have o: "ordered l" "ordered r" "\<forall>x\<in>set (rb_inorder l). key x < key y"
    "\<forall>x\<in>set (rb_inorder r). key y < key x"
    by (auto simp: ordered_def sorted_wrt_append)
  consider "qkey q < key y" | "key y < qkey q" | "qkey q = key y" by (rule linorder_cases)
  then show ?case
  proof cases
    case 1
    then show ?thesis using RB_NODE.IH(1) [OF o(1)] o(3,4) by (auto simp: cmp_less)
  next
    case 2
    then have "\<not> qkey q < key y" by simp
    then show ?thesis using RB_NODE.IH(2) [OF o(2)] o(3,4) 2 by (auto simp: cmp_less cmp_greater)
  next
    case 3
    then show ?thesis using o(3,4) by (auto simp: cmp_less cmp_greater)
  qed
qed

lemma find_None:
  "ordered t \<Longrightarrow> RB_FIND (cmp q) t = None \<longleftrightarrow> (\<forall>x\<in>set (rb_inorder t). key x \<noteq> qkey q)"
  using find_iff [of t q] by (cases "RB_FIND (cmp q) t") fastforce+

text \<open>What an insertion gives, by what the search finds: that element and the same tree, or a larger tree.\<close>

definition inserted :: "'a \<Rightarrow> 'a option \<Rightarrow> 'a rb_tree \<Rightarrow> ('a option \<times> 'a rb_tree) option \<Rightarrow> bool" where
  "inserted elm found t res \<longleftrightarrow> (case found of
      Some x \<Rightarrow> res = Some (Some x, t)
    | None \<Rightarrow> \<exists>t'. res = Some (None, t') \<and> rb_shape t' \<and> ordered t' \<and>
        set (rb_inorder t') = insert elm (set (rb_inorder t)))"

lemma insert_loop:
  assumes "ordered (plug path t)" "path_ok path (bheight t)" "balanced t"
    "is_red t \<longrightarrow> path \<noteq> [] \<and> crumb_color (hd path) = RB_BLACK"
    "\<forall>x\<in>set (before path). key x < qkey q" "\<forall>x\<in>set (after path). qkey q < key x"
    "key elm = qkey q"
  shows "inserted elm (RB_FIND (cmp q) t) (plug path t) (rb_insert_loop (cmp q) elm t path)"
  using assms
proof (induction t arbitrary: path)
  case RB_NULL
  let ?e = "RB_NODE elm RB_RED RB_NULL RB_NULL"
  have sorted: "sorted_wrt (\<lambda>x y. key x < key y) (before path @ after path)"
    using RB_NULL.prems(1) by (simp add: ordered_def inorder_plug)
  then obtain t' where t': "RB_INSERT_COLOR ?e path = Some t'" "rb_shape t'"
    "rb_inorder t' = before path @ elm # after path"
    using RB_INSERT_COLOR_ok [of path 0 ?e] RB_NULL.prems(2) by (auto simp: inorder_plug)
  have "ordered t'"
    using sorted RB_NULL.prems(5-7) t'(3) by (auto simp: ordered_def sorted_wrt_append)
  then show ?case using t' by (simp add: inorder_plug inserted_def)
next
  case (RB_NODE x c l r)
  have ord: "\<forall>y\<in>set (rb_inorder l). key y < key x" "\<forall>y\<in>set (rb_inorder r). key x < key y"
    "\<forall>y\<in>set (after path). key x < key y" "\<forall>y\<in>set (before path). key y < key x"
    "\<forall>y\<in>set (after path). \<forall>z\<in>set (rb_inorder r). key z < key y"
    "\<forall>y\<in>set (before path). \<forall>z\<in>set (rb_inorder l). key y < key z"
    using RB_NODE.prems(1) by (auto simp: ordered_def inorder_plug sorted_wrt_append)
  consider "qkey q < key x" | "key x < qkey q" | "qkey q = key x" by (rule linorder_cases)
  then show ?case
  proof cases
    case 1
    have "path_ok (IsLeft x c r # path) (bheight l)"
      using RB_NODE.prems(2-4) by auto
    moreover have "is_red l \<longrightarrow> crumb_color (hd (IsLeft x c r # path)) = RB_BLACK"
      using RB_NODE.prems(3) by (auto simp: rb_color_cases [symmetric])
    moreover have "\<forall>y\<in>set (after (IsLeft x c r # path)). qkey q < key y"
      using 1 ord(2) RB_NODE.prems(6) by (auto intro: less_trans)
    moreover have "ordered (plug (IsLeft x c r # path) l)" using RB_NODE.prems(1) by simp
    ultimately show ?thesis
      using RB_NODE.IH(1) [of "IsLeft x c r # path"] RB_NODE.prems(3,5,7) 1
      by (simp add: cmp_less)
  next
    case 2
    have "path_ok (IsRight x c l # path) (bheight r)"
      using RB_NODE.prems(2-4) by auto
    moreover have "is_red r \<longrightarrow> crumb_color (hd (IsRight x c l # path)) = RB_BLACK"
      using RB_NODE.prems(3) by (auto simp: rb_color_cases [symmetric])
    moreover have "\<forall>y\<in>set (before (IsRight x c l # path)). key y < qkey q"
      using 2 ord(1) RB_NODE.prems(5) by (auto intro: less_trans)
    moreover have "ordered (plug (IsRight x c l # path) r)" using RB_NODE.prems(1) by simp
    moreover have "\<not> qkey q < key x" using 2 by simp
    ultimately show ?thesis
      using RB_NODE.IH(2) [of "IsRight x c l # path"] RB_NODE.prems(3,6,7) 2
      by (simp add: cmp_less cmp_greater)
  next
    case 3
    then show ?thesis by (simp add: cmp_less cmp_greater inserted_def)
  qed
qed

lemma insert_ok:
  assumes "ordered t" "rb_shape t" "key elm = qkey q"
  shows "inserted elm (RB_FIND (cmp q) t) t (RB_INSERT (cmp q) elm t)"
  using insert_loop [of "[]" t q elm] assms by (simp add: RB_INSERT_def rb_shape_def)

end

subsection \<open>Traversal\<close>

text \<open>
  \<open>RB_MINMAX\<close> goes down on one side; \<open>RB_NEXT\<close> goes to the smallest element on the right, or
  up to the first parent whose left child it comes from. \<open>RB_FOREACH\<close> iterates the latter.
\<close>

fun RB_MINMAX :: "bool \<Rightarrow> 'a rb_tree \<Rightarrow> 'a crumb list \<Rightarrow> ('a rb_tree \<times> 'a crumb list) option" where
  "RB_MINMAX neg RB_NULL path = None"
| "RB_MINMAX neg (RB_NODE x c l r) path =
     (if neg
      then (if l = RB_NULL then Some (RB_NODE x c l r, path) else RB_MINMAX neg l (IsLeft x c r # path))
      else (if r = RB_NULL then Some (RB_NODE x c l r, path) else RB_MINMAX neg r (IsRight x c l # path)))"

fun rb_climb :: "'a rb_tree \<Rightarrow> 'a crumb list \<Rightarrow> ('a rb_tree \<times> 'a crumb list) option" where
  "rb_climb t [] = None"
| "rb_climb t (IsLeft x c r # cs) = Some (RB_NODE x c t r, cs)"
| "rb_climb t (IsRight x c l # cs) = rb_climb (RB_NODE x c l t) cs"

fun RB_NEXT :: "'a rb_tree \<times> 'a crumb list \<Rightarrow> ('a rb_tree \<times> 'a crumb list) option" where
  "RB_NEXT (RB_NULL, path) = None"
| "RB_NEXT (RB_NODE x c l r, path) =
     (if r \<noteq> RB_NULL then RB_MINMAX True r (IsRight x c l # path) else rb_climb (RB_NODE x c l r) path)"

text \<open>The elements a traversal has not reached yet.\<close>

fun rest :: "'a rb_tree \<times> 'a crumb list \<Rightarrow> 'a list" where
  "rest (RB_NULL, path) = []"
| "rest (RB_NODE x c l r, path) = rb_inorder r @ after path"

lemma rb_min_rest:
  "t \<noteq> RB_NULL \<Longrightarrow> \<exists>x c l r p. RB_MINMAX True t path = Some (RB_NODE x c l r, p) \<and>
     rb_inorder t @ after path = x # rest (RB_NODE x c l r, p)"
proof (induction t arbitrary: path)
  case (RB_NODE x c l r)
  show ?case
  proof (cases "l = RB_NULL")
    case False
    then show ?thesis using RB_NODE.IH(1) [OF False, of "IsLeft x c r # path"] by auto
  qed auto
qed simp

lemma rb_climb_rest:
  "case rb_climb t path of None \<Rightarrow> after path = []
   | Some q \<Rightarrow> \<exists>x c l r p. q = (RB_NODE x c l r, p) \<and> after path = x # rest q"
  by (induction t path rule: rb_climb.induct) (auto split: option.splits)

lemma RB_NEXT_rest:
  "case RB_NEXT (RB_NODE x c l r, path) of None \<Rightarrow> rest (RB_NODE x c l r, path) = []
   | Some q \<Rightarrow> \<exists>y d m n p. q = (RB_NODE y d m n, p) \<and> rest (RB_NODE x c l r, path) = y # rest q"
  using rb_min_rest [of r "IsRight x c l # path"] rb_climb_rest [where t = "RB_NODE x c l r" and path = path]
  by (cases "r = RB_NULL") (auto split: option.splits)

function rb_foreach_from :: "('a rb_tree \<times> 'a crumb list) option \<Rightarrow> 'a list" where
  "rb_foreach_from None = []"
| "rb_foreach_from (Some (RB_NULL, path)) = []"
| "rb_foreach_from (Some (RB_NODE x c l r, path)) = x # rb_foreach_from (RB_NEXT (RB_NODE x c l r, path))"
  by pat_completeness auto
termination
proof (relation "measure (\<lambda>q. case q of None \<Rightarrow> 0 | Some p \<Rightarrow> Suc (length (rest p)))")
  show "(RB_NEXT (RB_NODE x c l r, path), Some (RB_NODE x c l r, path)) \<in>
      measure (\<lambda>q. case q of None \<Rightarrow> 0 | Some p \<Rightarrow> Suc (length (rest p)))"
    for x :: 'a and c l r path
    using RB_NEXT_rest [of x c l r path]
    by (auto simp del: RB_NEXT.simps rest.simps split: option.splits)
qed simp

definition RB_FOREACH :: "'a rb_tree \<Rightarrow> 'a list" where
  "RB_FOREACH t = rb_foreach_from (RB_MINMAX True t [])"

lemma foreach_from_rest:
  "rb_foreach_from (Some (RB_NODE x c l r, path)) = x # rest (RB_NODE x c l r, path)"
proof (induction "length (rest (RB_NODE x c l r, path))" arbitrary: x c l r path)
  case 0
  then show ?case
    using RB_NEXT_rest [of x c l r path] by (auto simp del: RB_NEXT.simps rest.simps split: option.splits)
next
  case (Suc n)
  then obtain q y d m k p where q: "RB_NEXT (RB_NODE x c l r, path) = Some (RB_NODE y d m k, p)"
    "rest (RB_NODE x c l r, path) = y # rest (RB_NODE y d m k, p)"
    using RB_NEXT_rest [of x c l r path] by (auto simp del: RB_NEXT.simps rest.simps split: option.splits)
  then show ?case
    using Suc.hyps(1) [of y d m k p] Suc.hyps(2) by (simp del: RB_NEXT.simps rest.simps)
qed

lemma RB_FOREACH_inorder: "RB_FOREACH t = rb_inorder t"
proof (cases "t = RB_NULL")
  case True
  then show ?thesis by (simp add: RB_FOREACH_def)
next
  case False
  then show ?thesis
    using rb_min_rest [OF False, of "[]"]
    by (auto simp: RB_FOREACH_def foreach_from_rest simp del: rest.simps rb_foreach_from.simps)
qed

subsection \<open>Depth\<close>

fun rb_depth :: "'a rb_tree \<Rightarrow> nat" where
  "rb_depth RB_NULL = 0"
| "rb_depth (RB_NODE x c l r) = Suc (max (rb_depth l) (rb_depth r))"

text \<open>The entries on the path a comparison leads to; a search depends on the comparisons with them only.\<close>

fun cmp_path :: "('a \<Rightarrow> int) \<Rightarrow> 'a rb_tree \<Rightarrow> 'a list" where
  "cmp_path cmp RB_NULL = []"
| "cmp_path cmp (RB_NODE x c l r) =
     x # (if cmp x < 0 then cmp_path cmp l else if cmp x > 0 then cmp_path cmp r else [])"

lemma cmp_path_depth: "length (cmp_path cmp t) \<le> rb_depth t"
  by (induction t) auto

lemma cmp_path_set: "set (cmp_path cmp t) \<subseteq> set (rb_inorder t)"
  by (induction t) auto

lemma find_cong_path: "\<forall>x\<in>set (cmp_path cmp t). cmp' x = cmp x \<Longrightarrow> RB_FIND cmp' t = RB_FIND cmp t"
  by (induction t) (auto split: if_splits)

lemma depth_bheight: "balanced t \<Longrightarrow> rb_depth t \<le> 2 * bheight t + (if is_red t then 1 else 0)"
proof (induction t)
  case (RB_NODE x c l r)
  then show ?case by (cases c) (auto split: if_splits)
qed simp

lemma bheight_size: "balanced t \<Longrightarrow> 2 ^ bheight t \<le> Suc (length (rb_inorder t))"
proof (induction t)
  case (RB_NODE x c l r)
  then have "(2::nat) ^ bheight l \<le> Suc (length (rb_inorder l))" "2 ^ bheight l \<le> Suc (length (rb_inorder r))"
    by auto
  then show ?case by (cases c) simp_all
qed simp

subsection \<open>Tables keyed by name\<close>

text \<open>Entries with a name, compared as \<open>akl_rb_cmp_sym\<close> compares symbols: regardless of case.\<close>

definition name_cmp :: "string \<Rightarrow> string \<times> 'v \<Rightarrow> int" where
  "name_cmp k e = strcasecmp k (fst e)"

interpretation named: rb_order "\<lambda>e. case_key (fst e)" case_key name_cmp
  by unfold_locales (simp_all add: name_cmp_def strcasecmp_less strcasecmp_greater)

definition named_ok :: "(string \<times> 'v) rb_tree \<Rightarrow> bool" where
  "named_ok t \<longleftrightarrow> rb_shape t \<and> named.ordered t"

definition named_lookup :: "(string \<times> 'v) rb_tree \<Rightarrow> string \<Rightarrow> 'v option" where
  "named_lookup t k = map_option snd (RB_FIND (name_cmp k) t)"

definition named_insert :: "(string \<times> 'v) rb_tree \<Rightarrow> string \<Rightarrow> 'v \<Rightarrow> (string \<times> 'v) rb_tree" where
  "named_insert t k v = snd (the (RB_INSERT (name_cmp k) (k, v) t))"

lemma named_lookup_iff:
  "named_ok t \<Longrightarrow> named_lookup t k = Some v \<longleftrightarrow> (\<exists>k'. (k', v) \<in> set (rb_inorder t) \<and> strcasecmp k k' = 0)"
  by (auto simp: named_lookup_def named_ok_def named.find_iff strcasecmp_eq)

interpretation named: table named_ok named_lookup named_insert "\<lambda>k' k. strcasecmp k' k = 0"
proof unfold_locales
  fix t :: "(string \<times> 'v) rb_tree" and k v
  assume ok: "named_ok t" and new: "named_lookup t k = None"
  then have "RB_FIND (name_cmp k) t = None" by (simp add: named_lookup_def)
  then obtain t' where t': "RB_INSERT (name_cmp k) (k, v) t = Some (None, t')" "named_ok t'"
    "set (rb_inorder t') = insert (k, v) (set (rb_inorder t))"
    using named.insert_ok [of t "(k, v)" k] ok by (auto simp: named_ok_def named.inserted_def)
  have none: "\<forall>e\<in>set (rb_inorder t). strcasecmp k (fst e) \<noteq> 0"
    using new named.find_None [of t k] ok by (auto simp: named_lookup_def named_ok_def strcasecmp_eq)
  have eqv: "strcasecmp a b = 0 \<Longrightarrow> strcasecmp a c = 0 \<longleftrightarrow> strcasecmp b c = 0" for a b c
    by (simp add: strcasecmp_eq)
  have "named_lookup t' k' = Some w \<longleftrightarrow> (if strcasecmp k' k = 0 then Some v else named_lookup t k') = Some w" for k' w
  proof (cases "strcasecmp k' k = 0")
    case True
    then show ?thesis
      using none eqv [OF True] by (auto simp: named_lookup_iff [OF t'(2)] t'(3))
  next
    case False
    then show ?thesis
      by (auto simp: named_lookup_iff [OF t'(2)] named_lookup_iff [OF ok] t'(3))
  qed
  then have "named_lookup t' k' = (if strcasecmp k' k = 0 then Some v else named_lookup t k')" for k'
    by (metis not_Some_eq)
  then show "named_ok (named_insert t k v) \<and>
      (\<forall>k'. named_lookup (named_insert t k v) k' = (if strcasecmp k' k = 0 then Some v else named_lookup t k'))"
    using t' by (simp add: named_insert_def)
qed simp

subsection \<open>Properties\<close>

definition tree_example :: "(string \<times> nat) rb_tree" where
  "tree_example = RB_NODE (''b'', 1) RB_BLACK
     (RB_NODE (''a'', 2) RB_RED RB_NULL RB_NULL) (RB_NODE (''c'', 3) RB_RED RB_NULL RB_NULL)"

lemma tree_example_ok: "named_ok tree_example"
  unfolding tree_example_def named_ok_def rb_shape_def named.ordered_def
  by (simp add: case_key_def tolower_def is_upper_def)

text \<open>
  C13. Insertion into a red-black tree ordered by name either finds an entry of the same name
  (regardless of case), returns it and changes nothing, or succeeds without a NULL
  dereference: the new tree is ordered and balanced again, and maps the new name to the new
  value and every other name to what it had.
\<close>

theorem rb_insert_correct:
  assumes "named_ok t"
  shows "case named_lookup t k of
      Some w \<Rightarrow> \<exists>e. RB_INSERT (name_cmp k) (k, v) t = Some (Some e, t) \<and> snd e = w
    | None \<Rightarrow> \<exists>t'. RB_INSERT (name_cmp k) (k, v) t = Some (None, t') \<and> named_ok t' \<and>
        (\<forall>k'. named_lookup t' k' = (if strcasecmp k' k = 0 then Some v else named_lookup t k'))"
proof (cases "RB_FIND (name_cmp k) t")
  case (Some e)
  then show ?thesis
    using named.insert_ok [of t "(k, v)" k] assms
    by (auto simp: named_lookup_def named.inserted_def named_ok_def)
next
  case None
  then obtain t' where "RB_INSERT (name_cmp k) (k, v) t = Some (None, t')" "named_ok t'"
    using named.insert_ok [of t "(k, v)" k] assms by (auto simp: named.inserted_def named_ok_def)
  moreover have "named_lookup t k = None" using None by (simp add: named_lookup_def)
  ultimately show ?thesis
    using named.insert_law [OF assms, of k v] by (simp add: named_insert_def)
qed

theorem rb_insert_correct_witness:
  "case named_lookup tree_example ''d'' of
      Some w \<Rightarrow> \<exists>e. RB_INSERT (name_cmp ''d'') (''d'', 4) tree_example = Some (Some e, tree_example) \<and> snd e = w
    | None \<Rightarrow> \<exists>t'. RB_INSERT (name_cmp ''d'') (''d'', 4) tree_example = Some (None, t') \<and> named_ok t' \<and>
        (\<forall>k'. named_lookup t' k' = (if strcasecmp k' ''d'' = 0 then Some 4 else named_lookup tree_example k'))"
  by (rule rb_insert_correct [OF tree_example_ok])

text \<open>
  C35. A search in a tree the insertions built is right and takes logarithmic time. For every name
  there are entries \<open>xs\<close> of the tree, no more than \<open>2 log2 (n + 1)\<close> of its \<open>n\<close> entries, that decide
  the search: whatever the comparison function answers for the others, as long as it compares
  these by name, \<open>RB_FIND\<close> returns exactly the entry of that name (regardless of case), and NULL
  if there is none.
\<close>

theorem rb_find_logarithmic:
  assumes "named_ok t"
  shows "\<exists>xs. set xs \<subseteq> set (rb_inorder t) \<and> 2 ^ length xs \<le> (Suc (length (rb_inorder t)))\<^sup>2 \<and>
    (\<forall>cmp. (\<forall>x\<in>set xs. cmp x = strcasecmp k (fst x)) \<longrightarrow>
      (\<forall>e. RB_FIND cmp t = Some e \<longleftrightarrow> e \<in> set (rb_inorder t) \<and> strcasecmp k (fst e) = 0) \<and>
      (RB_FIND cmp t = None \<longleftrightarrow> (\<forall>e\<in>set (rb_inorder t). strcasecmp k (fst e) \<noteq> 0)))"
proof -
  let ?xs = "cmp_path (name_cmp k) t"
  have b: "balanced t" "\<not> is_red t" and o: "named.ordered t"
    using assms by (simp_all add: named_ok_def rb_shape_def)
  have "length ?xs \<le> bheight t * 2"
    using cmp_path_depth [of "name_cmp k" t] depth_bheight [OF b(1)] b(2) by simp
  then have "2 ^ length ?xs \<le> (2::nat) ^ (bheight t * 2)" by (rule power_increasing) simp
  also have "\<dots> = (2 ^ bheight t)\<^sup>2" by (rule power_mult)
  also have "\<dots> \<le> (Suc (length (rb_inorder t)))\<^sup>2" using bheight_size [OF b(1)] by (rule power_mono) simp
  finally have len: "2 ^ length ?xs \<le> (Suc (length (rb_inorder t)))\<^sup>2" .
  have "(\<forall>e. RB_FIND cmp t = Some e \<longleftrightarrow> e \<in> set (rb_inorder t) \<and> strcasecmp k (fst e) = 0) \<and>
      (RB_FIND cmp t = None \<longleftrightarrow> (\<forall>e\<in>set (rb_inorder t). strcasecmp k (fst e) \<noteq> 0))"
    if "\<forall>x\<in>set ?xs. cmp x = strcasecmp k (fst x)" for cmp
  proof -
    have "RB_FIND cmp t = RB_FIND (name_cmp k) t"
      by (rule find_cong_path) (use that in \<open>simp add: name_cmp_def\<close>)
    moreover have "strcasecmp k a = 0 \<longleftrightarrow> case_key a = case_key k" for a by (auto simp: strcasecmp_eq)
    ultimately show ?thesis using named.find_iff [OF o, of k] named.find_None [OF o, of k] by simp
  qed
  then show ?thesis using len cmp_path_set [of "name_cmp k" t] by blast
qed

theorem rb_find_logarithmic_witness:
  "\<exists>xs. set xs \<subseteq> set (rb_inorder tree_example) \<and> 2 ^ length xs \<le> (16 :: nat) \<and>
    (\<forall>cmp. (\<forall>x\<in>set xs. cmp x = strcasecmp ''C'' (fst x)) \<longrightarrow>
      (\<forall>e. RB_FIND cmp tree_example = Some e \<longleftrightarrow> e \<in> set (rb_inorder tree_example) \<and> strcasecmp ''C'' (fst e) = 0) \<and>
      (RB_FIND cmp tree_example = None \<longleftrightarrow> (\<forall>e\<in>set (rb_inorder tree_example). strcasecmp ''C'' (fst e) \<noteq> 0)))"
proof -
  have "(Suc (length (rb_inorder tree_example)))\<^sup>2 = 16" by (simp add: tree_example_def power2_eq_square)
  then show ?thesis using rb_find_logarithmic [OF tree_example_ok, of "''C''"] by simp
qed

text \<open>
  C36. \<open>RB_FOREACH\<close> ends, and visits every entry of the tree exactly once, in the strictly
  increasing order of the names.
\<close>

theorem rb_foreach_sorted:
  assumes "named_ok t"
  shows "sorted_wrt (\<lambda>a b. strcasecmp (fst a) (fst b) < 0) (RB_FOREACH t) \<and>
    (named_lookup t k = Some v \<longleftrightarrow> (\<exists>k'. (k', v) \<in> set (RB_FOREACH t) \<and> strcasecmp k k' = 0))"
  using assms named_lookup_iff [OF assms, of k v]
  by (simp add: RB_FOREACH_inorder named_ok_def named.ordered_def strcasecmp_less)

theorem rb_foreach_sorted_witness:
  "sorted_wrt (\<lambda>a b. strcasecmp (fst a) (fst b) < 0) (RB_FOREACH tree_example) \<and>
    (named_lookup tree_example ''C'' = Some 3 \<longleftrightarrow>
      (\<exists>k'. (k', 3) \<in> set (RB_FOREACH tree_example) \<and> strcasecmp ''C'' k' = 0))"
  by (rule rb_foreach_sorted [OF tree_example_ok])

end
