(* ===== verification/Double.thy ===== *)
theory Double
  imports CString
begin

text \<open>
  The C type \<open>double\<close> (IEEE 754 binary64, round to nearest even) with the operations AkLisp
  uses: the four arithmetic operators, comparison, conversion from and to integers,
  \<open>strtod\<close>/\<open>atof\<close> and \<open>printf("%g")\<close>.

  A finite value is \<open>Fin s m e\<close>: sign, mantissa, exponent, for \<open>m * 2 ^ e\<close>. Every operation
  computes the exact rational result and rounds it once; results are canonical, i.e.
  \<open>2 ^ 52 \<le> m < 2 ^ 53\<close>, or \<open>e = - 1074\<close> for the subnormals and the zeros. The payload of
  a NaN and the exception flags are not modelled.
\<close>

datatype double = NaN | Inf bool | Fin bool nat int

function bitlen :: "nat \<Rightarrow> nat" where
  "bitlen n = (if n = 0 then 0 else Suc (bitlen (n div 2)))"
  by auto
termination by (relation "measure id") auto

declare bitlen.simps [simp del]

subsection \<open>Rounding\<close>

text \<open>The fraction \<open>num / (den * 2 ^ e)\<close> as a numerator and a denominator.\<close>

definition scale_num :: "nat \<Rightarrow> int \<Rightarrow> nat" where
  "scale_num num e = (if 0 \<le> e then num else num * 2 ^ nat (- e))"

definition scale_den :: "nat \<Rightarrow> int \<Rightarrow> nat" where
  "scale_den den e = (if 0 \<le> e then den * 2 ^ nat e else den)"

definition scaled_div :: "nat \<Rightarrow> nat \<Rightarrow> int \<Rightarrow> nat" where
  "scaled_div num den e = scale_num num e div scale_den den e"

definition round_even :: "nat \<Rightarrow> nat \<Rightarrow> nat" where
  "round_even n d =
     (let q = n div d; r = n mod d in
      if 2 * r < d \<or> (2 * r = d \<and> even q) then q else Suc q)"

text \<open>The exponent that gives 53 bits, but not below the one of the subnormals.\<close>

definition dbl_exponent :: "nat \<Rightarrow> nat \<Rightarrow> int" where
  "dbl_exponent num den =
     (let e = int (bitlen num) - int (bitlen den) - 53 in
      max (- 1074) (if 2 ^ 53 \<le> scaled_div num den e then e + 1 else e))"

definition dbl_of_frac :: "bool \<Rightarrow> nat \<Rightarrow> nat \<Rightarrow> double" where
  "dbl_of_frac s num den =
     (if num = 0 then Fin s 0 (- 1074)
      else let e = dbl_exponent num den;
               m = round_even (scale_num num e) (scale_den den e);
               (m, e) = (if m = 2 ^ 53 then (2 ^ 52, e + 1) else (m, e))
           in if 971 < e then Inf s else Fin s m e)"

definition dbl_of_int :: "int \<Rightarrow> double" where
  "dbl_of_int n = dbl_of_frac (n < 0) (nat \<bar>n\<bar>) 1"

text \<open>\<open>k * 2 ^ e\<close> for an integer \<open>k\<close>, rounded; \<open>z\<close> is the sign of a zero result.\<close>

definition dbl_of_scaled :: "bool \<Rightarrow> int \<Rightarrow> int \<Rightarrow> double" where
  "dbl_of_scaled z k e =
     (let s = (if k = 0 then z else k < 0) in
      if 0 \<le> e then dbl_of_frac s (nat \<bar>k\<bar> * 2 ^ nat e) 1
      else dbl_of_frac s (nat \<bar>k\<bar>) (2 ^ nat (- e)))"

subsection \<open>Arithmetic\<close>

definition signed_mant :: "bool \<Rightarrow> nat \<Rightarrow> int" where
  "signed_mant s m = (if s then - int m else int m)"

fun dbl_neg :: "double \<Rightarrow> double" where
  "dbl_neg NaN = NaN"
| "dbl_neg (Inf s) = Inf (\<not> s)"
| "dbl_neg (Fin s m e) = Fin (\<not> s) m e"

fun dbl_add :: "double \<Rightarrow> double \<Rightarrow> double" where
  "dbl_add NaN _ = NaN"
| "dbl_add _ NaN = NaN"
| "dbl_add (Inf a) (Inf b) = (if a = b then Inf a else NaN)"
| "dbl_add (Inf a) (Fin _ _ _) = Inf a"
| "dbl_add (Fin _ _ _) (Inf b) = Inf b"
| "dbl_add (Fin s1 m1 e1) (Fin s2 m2 e2) =
     (let e = min e1 e2 in
      dbl_of_scaled (s1 \<and> s2) (signed_mant s1 (m1 * 2 ^ nat (e1 - e)) + signed_mant s2 (m2 * 2 ^ nat (e2 - e))) e)"

definition dbl_sub :: "double \<Rightarrow> double \<Rightarrow> double" where
  "dbl_sub a b = dbl_add a (dbl_neg b)"

fun dbl_mul :: "double \<Rightarrow> double \<Rightarrow> double" where
  "dbl_mul NaN _ = NaN"
| "dbl_mul _ NaN = NaN"
| "dbl_mul (Inf a) (Inf b) = Inf (a \<noteq> b)"
| "dbl_mul (Inf a) (Fin b m e) = (if m = 0 then NaN else Inf (a \<noteq> b))"
| "dbl_mul (Fin a m e) (Inf b) = (if m = 0 then NaN else Inf (a \<noteq> b))"
| "dbl_mul (Fin s1 m1 e1) (Fin s2 m2 e2) =
     dbl_of_scaled (s1 \<noteq> s2) (signed_mant (s1 \<noteq> s2) (m1 * m2)) (e1 + e2)"

fun dbl_div :: "double \<Rightarrow> double \<Rightarrow> double" where
  "dbl_div NaN _ = NaN"
| "dbl_div _ NaN = NaN"
| "dbl_div (Inf a) (Inf b) = NaN"
| "dbl_div (Inf a) (Fin b m e) = Inf (a \<noteq> b)"
| "dbl_div (Fin a m e) (Inf b) = Fin (a \<noteq> b) 0 (- 1074)"
| "dbl_div (Fin s1 m1 e1) (Fin s2 m2 e2) =
     (if m2 = 0 then (if m1 = 0 then NaN else Inf (s1 \<noteq> s2))
      else dbl_of_frac (s1 \<noteq> s2) (m1 * 2 ^ nat (e1 - e2)) (m2 * 2 ^ nat (e2 - e1)))"

subsection \<open>Comparison and conversion\<close>

fun dbl_lt :: "double \<Rightarrow> double \<Rightarrow> bool" where
  "dbl_lt NaN _ = False"
| "dbl_lt _ NaN = False"
| "dbl_lt (Inf a) (Inf b) = (a \<and> \<not> b)"
| "dbl_lt (Inf a) (Fin _ _ _) = a"
| "dbl_lt (Fin _ _ _) (Inf b) = (\<not> b)"
| "dbl_lt (Fin s1 m1 e1) (Fin s2 m2 e2) =
     (let e = min e1 e2 in signed_mant s1 (m1 * 2 ^ nat (e1 - e)) < signed_mant s2 (m2 * 2 ^ nat (e2 - e)))"

fun dbl_eq :: "double \<Rightarrow> double \<Rightarrow> bool" where
  "dbl_eq NaN _ = False"
| "dbl_eq _ NaN = False"
| "dbl_eq (Fin s1 m1 e1) (Fin s2 m2 e2) =
     (let e = min e1 e2 in signed_mant s1 (m1 * 2 ^ nat (e1 - e)) = signed_mant s2 (m2 * 2 ^ nat (e2 - e)))"
| "dbl_eq a b = (a = b)"

text \<open>The integer part; there is none for a NaN or an infinity.\<close>

fun dbl_trunc :: "double \<Rightarrow> int option" where
  "dbl_trunc NaN = None"
| "dbl_trunc (Inf s) = None"
| "dbl_trunc (Fin s m e) = Some (signed_mant s (if 0 \<le> e then m * 2 ^ nat e else m div 2 ^ nat (- e)))"

text \<open>The conversions to \<open>int\<close> and \<open>long\<close> are undefined out of range.\<close>

definition dbl_to_int :: "nat \<Rightarrow> double \<Rightarrow> int option" where
  "dbl_to_int w d = (case dbl_trunc d of None \<Rightarrow> None
     | Some n \<Rightarrow> if - (2 ^ (w - 1)) \<le> n \<and> n < 2 ^ (w - 1) then Some n else None)"

definition to_c_int :: "double \<Rightarrow> int option" where
  "to_c_int d = dbl_to_int 32 d"

definition to_c_long :: "double \<Rightarrow> int option" where
  "to_c_long d = dbl_to_int 64 d"

subsection \<open>Integers are exact\<close>

lemma bitlen_0 [simp]: "bitlen 0 = 0"
  by (simp add: bitlen.simps)

lemma bitlen_Suc: "0 < n \<Longrightarrow> bitlen n = Suc (bitlen (n div 2))"
  by (simp add: bitlen.simps [of n])

lemma bitlen_bounds: "0 < n \<Longrightarrow> 2 ^ (bitlen n - 1) \<le> n \<and> n < 2 ^ bitlen n"
proof (induction n rule: bitlen.induct)
  case (1 n)
  show ?case
  proof (cases "n div 2 = 0")
    case True
    then have "n = 1" using 1 by linarith
    then show ?thesis by (simp add: bitlen_Suc)
  next
    case False
    then have IH: "2 ^ (bitlen (n div 2) - 1) \<le> n div 2" "n div 2 < 2 ^ bitlen (n div 2)"
      using 1 by auto
    have "bitlen (n div 2) = Suc (bitlen (n div 2) - 1)" using False by (simp add: bitlen_Suc)
    then have "(2::nat) ^ bitlen (n div 2) = 2 * 2 ^ (bitlen (n div 2) - 1)" by (metis power_Suc)
    moreover have "2 * (n div 2) \<le> n" "n < 2 * (n div 2) + 2" by linarith+
    ultimately have "2 ^ bitlen (n div 2) \<le> n" "n < 2 * 2 ^ bitlen (n div 2)" using IH by linarith+
    then show ?thesis using 1(2) by (simp add: bitlen_Suc [of n])
  qed
qed

lemma bitlen_shift: "0 < n \<Longrightarrow> bitlen (n * 2 ^ k) = bitlen n + k"
proof (induction k)
  case (Suc k)
  have "n * 2 ^ Suc k div 2 = n * 2 ^ k" by simp
  then show ?case using Suc bitlen_Suc [of "n * 2 ^ Suc k"] by simp
qed simp

lemma scale_shift:
  "scale_num (n * 2 ^ k) e = scale_num n e * 2 ^ k"
  "scale_den (d * 2 ^ k) e = scale_den d e * 2 ^ k"
  by (simp_all add: scale_num_def scale_den_def)

lemma round_even_shift: "round_even (n * 2 ^ k) (d * 2 ^ k) = round_even n d"
proof -
  have "2 * (n mod d * 2 ^ k) < d * 2 ^ k \<longleftrightarrow> 2 * (n mod d) < d"
    "2 * (n mod d * 2 ^ k) = d * 2 ^ k \<longleftrightarrow> 2 * (n mod d) = d"
    by (simp_all add: mult.assoc [symmetric])
  then show ?thesis by (simp add: round_even_def Let_def mult_mod_left [symmetric])
qed

text \<open>Rounding sees the value of the fraction, not its representation.\<close>

lemma dbl_of_frac_shift:
  assumes "0 < d" shows "dbl_of_frac s (n * 2 ^ k) (d * 2 ^ k) = dbl_of_frac s n d"
proof (cases "n = 0")
  case True
  then show ?thesis by (simp add: dbl_of_frac_def)
next
  case False
  have "dbl_exponent (n * 2 ^ k) (d * 2 ^ k) = dbl_exponent n d"
    using False assms by (simp add: dbl_exponent_def bitlen_shift scaled_div_def scale_shift)
  then show ?thesis using False by (simp add: dbl_of_frac_def scale_shift round_even_shift)
qed

lemma dbl_of_frac_nat:
  assumes "0 < n" "n < 2 ^ 53"
  shows "dbl_of_frac s n 1 = Fin s (n * 2 ^ (53 - bitlen n)) (int (bitlen n) - 53)"
proof -
  define b where "b = bitlen n"
  have lo: "2 ^ (b - 1) \<le> n" and hi: "n < 2 ^ b" using bitlen_bounds [OF assms(1)] by (simp_all add: b_def)
  have b1: "0 < b" using assms(1) by (simp add: b_def bitlen_Suc)
  have "(2::nat) ^ (b - 1) < 2 ^ 53" using lo assms(2) by (rule le_less_trans)
  then have b53: "b \<le> 53" using power_strict_increasing_iff [of "2::nat" "b - 1" 53] by simp
  have l1: "bitlen (Suc 0) = 1" by (simp add: bitlen_Suc)
  have "(2::nat) ^ 53 = 2 ^ (b - 1) * 2 ^ (54 - b)" using b1 b53 by (simp add: power_add [symmetric])
  also have "\<dots> \<le> n * 2 ^ (54 - b)" using lo by (rule mult_le_mono1)
  finally have big: "2 ^ 53 \<le> n * 2 ^ (54 - b)" .
  have "n * 2 ^ (53 - b) < 2 ^ b * 2 ^ (53 - b)" using hi by simp
  also have "\<dots> = 2 ^ 53" using b53 by (simp add: power_add [symmetric])
  finally have small: "n * 2 ^ (53 - b) < 2 ^ 53" .
  have r1: "round_even m 1 = m" for m by (simp add: round_even_def)
  have nat54: "nat (54 - int b) = 54 - b" and nat53: "nat (53 - int b) = 53 - b" by simp_all
  have "scaled_div n 1 (int b - 54) = n * 2 ^ (54 - b)"
    using b53 nat54 by (simp add: scaled_div_def scale_num_def scale_den_def)
  then have e: "dbl_exponent n 1 = int b - 53"
    using big b1 l1 by (simp add: dbl_exponent_def Let_def b_def)
  have n53: "scale_num n (int b - 53) = n * 2 ^ (53 - b)" "scale_den 1 (int b - 53) = 1"
    using b53 nat53 by (auto simp: scale_num_def scale_den_def)
  show ?thesis
    unfolding dbl_of_frac_def Let_def e n53 r1 using assms(1) small b53 by (simp add: b_def)
qed

lemma dbl_of_int_repr:
  assumes "\<bar>a\<bar> < 2 ^ 53"
  obtains m e where "dbl_of_int a = Fin (a < 0) m e" "e \<le> 0" "signed_mant (a < 0) m = a * 2 ^ nat (- e)"
    "m = 0 \<longleftrightarrow> a = 0"
proof (cases "a = 0")
  case True
  then show thesis using that [of 0 "- 1074"] by (simp add: dbl_of_int_def dbl_of_frac_def signed_mant_def)
next
  case False
  let ?n = "nat \<bar>a\<bar>"
  have n: "0 < ?n" "?n < 2 ^ 53" using False assms by (simp_all add: nat_less_iff)
  have b: "bitlen ?n \<le> 53"
  proof -
    have "(2::nat) ^ (bitlen ?n - 1) < 2 ^ 53" using bitlen_bounds [OF n(1)] n(2) by linarith
    then show ?thesis using power_strict_increasing_iff [of "2::nat" "bitlen ?n - 1" 53] by simp
  qed
  have "nat (- (int (bitlen ?n) - 53)) = 53 - bitlen ?n" by simp
  then have "signed_mant (a < 0) (?n * 2 ^ (53 - bitlen ?n)) = a * 2 ^ nat (- (int (bitlen ?n) - 53))"
    using False by (simp add: signed_mant_def)
  then show thesis
    using that [of "?n * 2 ^ (53 - bitlen ?n)" "int (bitlen ?n) - 53"] dbl_of_frac_nat [OF n] b n False
    by (simp add: dbl_of_int_def)
qed

lemma dbl_of_scaled_int:
  assumes "e \<le> 0" "k = 0 \<longrightarrow> \<not> z"
  shows "dbl_of_scaled z (k * 2 ^ nat (- e)) e = dbl_of_int k"
proof -
  have "nat \<bar>k * 2 ^ nat (- e)\<bar> = nat \<bar>k\<bar> * 2 ^ nat (- e)" by (simp add: abs_mult nat_mult_distrib)
  then show ?thesis
    using assms dbl_of_frac_shift [of 1 "k < 0" "nat \<bar>k\<bar>" "nat (- e)"]
    by (auto simp: dbl_of_scaled_def dbl_of_int_def Let_def mult_less_0_iff)
qed

lemma signed_mult: "signed_mant s (m * n) = signed_mant s m * int n"
  by (simp add: signed_mant_def)

lemma align_int:
  assumes "e \<le> d" "d \<le> 0" "signed_mant s m = a * 2 ^ nat (- d)"
  shows "signed_mant s (m * 2 ^ nat (d - e)) = a * 2 ^ nat (- e)"
proof -
  have "nat (- d) + nat (d - e) = nat (- e)" using assms(1,2) by linarith
  then show ?thesis using assms(3) by (simp add: signed_mult power_add [symmetric] mult.assoc)
qed

lemma dbl_add_int:
  assumes "\<bar>a\<bar> < 2 ^ 53" "\<bar>b\<bar> < 2 ^ 53"
  shows "dbl_add (dbl_of_int a) (dbl_of_int b) = dbl_of_int (a + b)"
proof -
  obtain m1 e1 where 1: "dbl_of_int a = Fin (a < 0) m1 e1" "e1 \<le> 0" "signed_mant (a < 0) m1 = a * 2 ^ nat (- e1)"
    by (rule dbl_of_int_repr [OF assms(1)])
  obtain m2 e2 where 2: "dbl_of_int b = Fin (b < 0) m2 e2" "e2 \<le> 0" "signed_mant (b < 0) m2 = b * 2 ^ nat (- e2)"
    by (rule dbl_of_int_repr [OF assms(2)])
  let ?e = "min e1 e2"
  have "signed_mant (a < 0) (m1 * 2 ^ nat (e1 - ?e)) + signed_mant (b < 0) (m2 * 2 ^ nat (e2 - ?e))
      = (a + b) * 2 ^ nat (- ?e)"
    using align_int [of ?e e1] align_int [of ?e e2] 1 2 by (simp add: distrib_right)
  moreover have "dbl_of_scaled (a < 0 \<and> b < 0) ((a + b) * 2 ^ nat (- ?e)) ?e = dbl_of_int (a + b)"
    using 1(2) by (intro dbl_of_scaled_int) auto
  ultimately show ?thesis using 1 2 by (simp add: Let_def)
qed

lemma dbl_neg_int: "a \<noteq> 0 \<Longrightarrow> dbl_neg (dbl_of_int a) = dbl_of_int (- a)"
  by (auto simp: dbl_of_int_def dbl_of_frac_def Let_def split: prod.splits)

lemma dbl_add_zero_neg:
  assumes "\<bar>a\<bar> < 2 ^ 53" shows "dbl_add (dbl_of_int a) (dbl_neg (dbl_of_int 0)) = dbl_of_int a"
proof -
  obtain m e where 1: "dbl_of_int a = Fin (a < 0) m e" "e \<le> 0" "signed_mant (a < 0) m = a * 2 ^ nat (- e)"
    by (rule dbl_of_int_repr [OF assms])
  have z: "dbl_neg (dbl_of_int 0) = Fin True 0 (- 1074)" by (simp add: dbl_of_int_def dbl_of_frac_def)
  let ?e = "min e (- 1074)"
  have "signed_mant (a < 0) (m * 2 ^ nat (e - ?e)) = a * 2 ^ nat (- ?e)"
    using align_int [of ?e e] 1 by simp
  moreover have "dbl_of_scaled (a < 0) (a * 2 ^ nat (- ?e)) ?e = dbl_of_int a"
    using 1(2) by (intro dbl_of_scaled_int) auto
  ultimately show ?thesis unfolding z using 1 by (simp add: Let_def signed_mant_def)
qed

lemma dbl_sub_int:
  assumes "\<bar>a\<bar> < 2 ^ 53" "\<bar>b\<bar> < 2 ^ 53"
  shows "dbl_sub (dbl_of_int a) (dbl_of_int b) = dbl_of_int (a - b)"
  using dbl_add_int [of a "- b"] assms dbl_neg_int [of b] dbl_add_zero_neg [of a]
  by (cases "b = 0") (simp_all add: dbl_sub_def)

lemma dbl_mul_int:
  assumes "\<bar>a\<bar> < 2 ^ 53" "\<bar>b\<bar> < 2 ^ 53" "a * b \<noteq> 0"
  shows "dbl_mul (dbl_of_int a) (dbl_of_int b) = dbl_of_int (a * b)"
proof -
  obtain m1 e1 where 1: "dbl_of_int a = Fin (a < 0) m1 e1" "e1 \<le> 0" "signed_mant (a < 0) m1 = a * 2 ^ nat (- e1)"
    by (rule dbl_of_int_repr [OF assms(1)])
  obtain m2 e2 where 2: "dbl_of_int b = Fin (b < 0) m2 e2" "e2 \<le> 0" "signed_mant (b < 0) m2 = b * 2 ^ nat (- e2)"
    by (rule dbl_of_int_repr [OF assms(2)])
  have "signed_mant ((a < 0) \<noteq> (b < 0)) (m1 * m2) = signed_mant (a < 0) m1 * signed_mant (b < 0) m2"
    by (auto simp: signed_mant_def)
  also have "\<dots> = a * b * 2 ^ nat (- (e1 + e2))"
  proof -
    have "nat (- (e1 + e2)) = nat (- e1) + nat (- e2)" using 1(2) 2(2) by simp
    then show ?thesis using 1(3) 2(3) by (simp add: power_add algebra_simps)
  qed
  finally show ?thesis
    using 1 2 assms(3) dbl_of_scaled_int [of "e1 + e2" "a * b" "(a < 0) \<noteq> (b < 0)"] by simp
qed

lemma dbl_trunc_int:
  assumes "\<bar>a\<bar> < 2 ^ 53" shows "dbl_trunc (dbl_of_int a) = Some a"
proof -
  obtain m e where 1: "dbl_of_int a = Fin (a < 0) m e" "e \<le> 0" "signed_mant (a < 0) m = a * 2 ^ nat (- e)"
    by (rule dbl_of_int_repr [OF assms])
  have "int m = \<bar>a\<bar> * 2 ^ nat (- e)" using 1(3) by (cases "a < 0") (simp_all add: signed_mant_def)
  then have "int (m div 2 ^ nat (- e)) = \<bar>a\<bar>" "0 \<le> e \<Longrightarrow> int m = \<bar>a\<bar>" using 1(2) by (auto simp: zdiv_int)
  then show ?thesis using 1(1,2) by (auto simp: signed_mant_def)
qed

lemma dbl_compare_int:
  assumes "\<bar>a\<bar> < 2 ^ 53" "\<bar>b\<bar> < 2 ^ 53"
  shows "dbl_lt (dbl_of_int a) (dbl_of_int b) \<longleftrightarrow> a < b" "dbl_eq (dbl_of_int a) (dbl_of_int b) \<longleftrightarrow> a = b"
proof -
  obtain m1 e1 where 1: "dbl_of_int a = Fin (a < 0) m1 e1" "e1 \<le> 0" "signed_mant (a < 0) m1 = a * 2 ^ nat (- e1)"
    by (rule dbl_of_int_repr [OF assms(1)])
  obtain m2 e2 where 2: "dbl_of_int b = Fin (b < 0) m2 e2" "e2 \<le> 0" "signed_mant (b < 0) m2 = b * 2 ^ nat (- e2)"
    by (rule dbl_of_int_repr [OF assms(2)])
  let ?e = "min e1 e2"
  have "signed_mant (a < 0) (m1 * 2 ^ nat (e1 - ?e)) = a * 2 ^ nat (- ?e)"
    "signed_mant (b < 0) (m2 * 2 ^ nat (e2 - ?e)) = b * 2 ^ nat (- ?e)"
    using align_int [of ?e e1] align_int [of ?e e2] 1 2 by simp_all
  then show "dbl_lt (dbl_of_int a) (dbl_of_int b) \<longleftrightarrow> a < b" "dbl_eq (dbl_of_int a) (dbl_of_int b) \<longleftrightarrow> a = b"
    using 1 2 by (simp_all add: Let_def)
qed

end
