(* ===== verification/NumText.thy ===== *)
theory NumText
  imports Double
begin

text \<open>
  Numbers as text: \<open>printf\<close> with \<open>%g\<close>, \<open>%d\<close> and \<open>%u\<close>, \<open>strtod\<close> (\<open>atof\<close>), \<open>atoi\<close> and
  \<open>sscanf("%o")\<close>, in the "C" locale. Decimal conversion is exact, as the GNU library's is:
  the exact binary value is rounded once, to even. A NaN prints without its sign.
\<close>

subsection \<open>Digits\<close>

definition digit_char :: "nat \<Rightarrow> char" where
  "digit_char d = char_of (48 + d)"

function dec_digits :: "nat \<Rightarrow> string" where
  "dec_digits n = (if n < 10 then [digit_char n] else dec_digits (n div 10) @ [digit_char (n mod 10)])"
  by auto
termination by (relation "measure id") auto

declare dec_digits.simps [simp del]

definition show_int :: "int \<Rightarrow> string" where
  "show_int n = (if n < 0 then ''-'' else []) @ dec_digits (nat \<bar>n\<bar>)"

definition digit_value :: "char \<Rightarrow> nat" where
  "digit_value c = (if is_digit c then of_char c - 48
     else if is_lower c then of_char c - 87 else if is_upper c then of_char c - 55 else 99)"

definition is_base_digit :: "nat \<Rightarrow> char \<Rightarrow> bool" where
  "is_base_digit b c \<longleftrightarrow> digit_value c < b"

definition digits_value :: "nat \<Rightarrow> string \<Rightarrow> nat" where
  "digits_value b s = foldl (\<lambda>n c. n * b + digit_value c) 0 s"

subsection \<open>Printing with \<open>%g\<close>\<close>

text \<open>The decimal exponent of \<open>num / den\<close>; the smallest double is above \<open>10 ^ -324\<close>.\<close>

definition dec_exponent :: "nat \<Rightarrow> nat \<Rightarrow> int" where
  "dec_exponent num den =
     (if den \<le> num then int (length (dec_digits (num div den))) - 1
      else (case List.find (\<lambda>j. den \<le> num * 10 ^ j) [1..<400] of Some j \<Rightarrow> - int j | None \<Rightarrow> 0))"

text \<open>Six significant digits, and the exponent after rounding.\<close>

definition six_digits :: "nat \<Rightarrow> nat \<Rightarrow> nat \<times> int" where
  "six_digits num den =
     (let x = dec_exponent num den;
          d = (if x \<le> 5 then round_even (num * 10 ^ nat (5 - x)) den
               else round_even num (den * 10 ^ nat (x - 5)))
      in if d = 10 ^ 6 then (10 ^ 5, x + 1) else (d, x))"

definition strip_zeros :: "string \<Rightarrow> string" where
  "strip_zeros s = rev (dropWhile (\<lambda>c. c = CHR ''0'') (rev s))"

definition with_fraction :: "string \<Rightarrow> string \<Rightarrow> string" where
  "with_fraction i f = (if strip_zeros f = [] then i else i @ ''.'' @ strip_zeros f)"

fun format_g :: "double \<Rightarrow> string" where
  "format_g NaN = ''nan''"
| "format_g (Inf s) = (if s then ''-inf'' else ''inf'')"
| "format_g (Fin s m e) = (if s then ''-'' else []) @
     (if m = 0 then ''0'' else
      let (d, x) = six_digits (m * 2 ^ nat e) (2 ^ nat (- e)); ds = dec_digits d in
      if - 4 \<le> x \<and> x < 6
      then (if 0 \<le> x then with_fraction (take (nat x + 1) ds) (drop (nat x + 1) ds)
            else with_fraction ''0'' (replicate (nat (- x - 1)) (CHR ''0'') @ ds))
      else with_fraction (take 1 ds) (drop 1 ds) @ ''e'' @ (if x < 0 then ''-'' else ''+'') @
           (if \<bar>x\<bar> < 10 then ''0'' else []) @ dec_digits (nat \<bar>x\<bar>))"

subsection \<open>Reading\<close>

definition skip_space :: "string \<Rightarrow> string" where
  "skip_space s = dropWhile is_space s"

definition read_sign :: "string \<Rightarrow> bool \<times> string" where
  "read_sign s = (case s of [] \<Rightarrow> (False, [])
     | c # cs \<Rightarrow> if c = CHR ''-'' then (True, cs) else if c = CHR ''+'' then (False, cs) else (False, s))"

text \<open>An exponent part, \<open>e\<close> or \<open>p\<close>, a sign and at least one digit; otherwise there is none.\<close>

definition read_exponent :: "char \<Rightarrow> string \<Rightarrow> int" where
  "read_exponent mark s = (case s of [] \<Rightarrow> 0
     | c # cs \<Rightarrow> if tolower c \<noteq> mark then 0
                 else let (neg, ds) = read_sign cs; k = int (digits_value 10 (takeWhile is_digit ds)) in
                      if neg then - k else k)"

text \<open>Integer and fraction digits in a base, and what follows them.\<close>

definition read_digits :: "nat \<Rightarrow> string \<Rightarrow> string \<times> string \<times> string" where
  "read_digits b s =
     (let i = takeWhile (is_base_digit b) s; r = dropWhile (is_base_digit b) s in
      case r of [] \<Rightarrow> (i, [], [])
      | c # cs \<Rightarrow> if c = CHR ''.'' then (i, takeWhile (is_base_digit b) cs, dropWhile (is_base_digit b) cs)
                  else (i, [], r))"

definition is_hex_prefix :: "string \<Rightarrow> bool" where
  "is_hex_prefix s \<longleftrightarrow> (case s of z # x # r \<Rightarrow> z = CHR ''0'' \<and> tolower x = CHR ''x'' \<and>
       (let (i, f, _) = read_digits 16 r in i \<noteq> [] \<or> f \<noteq> []) | _ \<Rightarrow> False)"

definition strtod :: "string \<Rightarrow> double" where
  "strtod s =
     (let (neg, r) = read_sign (skip_space s) in
      if is_hex_prefix r then
        (let (i, f, t) = read_digits 16 (drop 2 r); e = read_exponent (CHR ''p'') t - 4 * int (length f)
         in dbl_of_frac neg (digits_value 16 (i @ f) * 2 ^ nat e) (2 ^ nat (- e)))
      else if map tolower (take 3 r) = ''inf'' then Inf neg
      else if map tolower (take 3 r) = ''nan'' then NaN
      else
        (let (i, f, t) = read_digits 10 r; e = read_exponent (CHR ''e'') t - int (length f)
         in if i = [] \<and> f = [] then dbl_of_int 0
            else dbl_of_frac neg (digits_value 10 (i @ f) * 10 ^ nat e) (10 ^ nat (- e))))"

definition atof :: "string \<Rightarrow> double" where
  "atof s = strtod s"

text \<open>
  \<open>atoi\<close> is \<open>(int) strtol\<close>: the value saturates at the limits of \<open>long\<close> and then keeps its
  low 32 bits. \<open>sscanf("%o")\<close> reads with \<open>strtoul\<close>; \<open>None\<close>: no digit, nothing is stored.
\<close>

definition atoi :: "string \<Rightarrow> int" where
  "atoi s =
     (let (neg, r) = read_sign (skip_space s); k = int (digits_value 10 (takeWhile is_digit r));
          n = max (- (2 ^ 63)) (min (2 ^ 63 - 1) (if neg then - k else k))
      in sint (word_of_int n :: 32 word))"

definition sscanf_o :: "string \<Rightarrow> nat option" where
  "sscanf_o s =
     (let (neg, r) = read_sign (skip_space s); ds = takeWhile (is_base_digit 8) r;
          k = min (digits_value 8 ds) (2 ^ 64 - 1)
      in if ds = [] then None
         else Some (unat (if neg then - word_of_nat k else word_of_nat k :: 32 word)))"

subsection \<open>Integers print and read back\<close>

lemma char_of_digit [simp]: "d < 10 \<Longrightarrow> (of_char (digit_char d) :: nat) = 48 + d"
  by (simp add: digit_char_def)

lemma digit_char_props:
  assumes "d < 10"
  shows "is_digit (digit_char d)" "digit_value (digit_char d) = d" "is_base_digit 10 (digit_char d)"
    "\<not> is_space (digit_char d)" "digit_char d \<noteq> CHR ''-''" "digit_char d \<noteq> CHR ''+''"
    "digit_char d = CHR ''0'' \<longleftrightarrow> d = 0"
proof -
  have c: "(of_char (digit_char d) :: nat) = 48 + d" using assms by simp
  show "is_digit (digit_char d)" "digit_value (digit_char d) = d" "is_base_digit 10 (digit_char d)"
    "\<not> is_space (digit_char d)"
    using assms by (simp_all add: is_digit_def digit_value_def is_base_digit_def is_space_def)
  have ne: "digit_char d \<noteq> x" if "(of_char x :: nat) < 48" for x
    using c that by auto
  show "digit_char d \<noteq> CHR ''-''" "digit_char d \<noteq> CHR ''+''" by (rule ne, simp)+
  have "digit_char d = CHR ''0'' \<longleftrightarrow> (of_char (digit_char d) :: nat) = of_char (CHR ''0'')"
    by (simp only: of_char_eq_iff)
  then show "digit_char d = CHR ''0'' \<longleftrightarrow> d = 0" by (simp add: c)
qed

lemma digit_char_0 [simp]: "digit_char 0 = CHR ''0''"
  using digit_char_props(7) [of 0] by simp

lemma dec_digits_small [simp]: "n < 10 \<Longrightarrow> dec_digits n = [digit_char n]"
  by (simp add: dec_digits.simps)

lemma dec_digits_step: "10 \<le> n \<Longrightarrow> dec_digits n = dec_digits (n div 10) @ [digit_char (n mod 10)]"
  by (simp add: dec_digits.simps [of n])

lemma dec_digits_neq_Nil [simp]: "dec_digits n \<noteq> []"
  by (cases "n < 10") (simp_all add: dec_digits.simps [of n])

lemma dec_digits_all: "c \<in> set (dec_digits n) \<Longrightarrow> \<exists>d<10. c = digit_char d"
proof (induction n rule: dec_digits.induct)
  case (1 n)
  then show ?case
    by (cases "n < 10") (auto simp: dec_digits_step not_less intro: exI [of _ "n mod 10"])
qed

lemma dec_digits_value: "digits_value 10 (dec_digits n) = n"
proof (induction n rule: dec_digits.induct)
  case (1 n)
  then show ?case
    by (cases "n < 10") (simp_all add: dec_digits_step not_less digits_value_def digit_char_props)
qed

lemma dec_digits_shift: "0 < n \<Longrightarrow> dec_digits (n * 10 ^ k) = dec_digits n @ replicate k (CHR ''0'')"
proof (induction k)
  case (Suc k)
  have "1 \<le> n * 10 ^ k" using Suc.prems by simp
  then have "10 \<le> n * 10 ^ Suc k" by simp
  then have "dec_digits (n * 10 ^ Suc k) = dec_digits (n * 10 ^ k) @ [CHR ''0'']"
    by (simp add: dec_digits_step)
  then show ?case using Suc by (simp add: replicate_append_same [symmetric])
qed simp

lemma dec_digits_length: "n < 10 ^ k \<Longrightarrow> 0 < k \<Longrightarrow> length (dec_digits n) \<le> k"
proof (induction n arbitrary: k rule: dec_digits.induct)
  case (1 n)
  show ?case
  proof (cases "n < 10")
    case False
    then obtain j where k: "k = Suc j" "0 < j" using 1(2,3) by (cases k; cases "k - 1") auto
    then have "n div 10 < 10 ^ j" using 1(2) by (simp add: less_mult_imp_div_less mult.commute)
    then show ?thesis using 1(1) [OF False, of j] k False by (simp add: dec_digits_step)
  qed (use 1 in simp)
qed

lemma dec_digits_bound: "n < 10 ^ length (dec_digits n)"
proof (induction n rule: dec_digits.induct)
  case (1 n)
  then show ?case by (cases "n < 10") (auto simp: dec_digits_step)
qed

text \<open>\<open>%g\<close> prints an integer of at most six digits as \<open>%d\<close> does.\<close>

lemma round_even_mult [simp]: "0 < d \<Longrightarrow> round_even (n * d) d = n"
  by (simp add: round_even_def)

lemma strip_zeros_replicate [simp]: "strip_zeros (replicate k (CHR ''0'')) = []"
  by (simp add: strip_zeros_def dropWhile_eq_Nil_conv)

lemma six_digits_nat:
  assumes "0 < n" "n < 10 ^ 6" "0 < d"
  shows "six_digits (n * d) d = (n * 10 ^ (6 - length (dec_digits n)), int (length (dec_digits n)) - 1)"
proof -
  let ?L = "length (dec_digits n)"
  have L: "0 < ?L" "?L \<le> 6" using dec_digits_length [of n 6] assms(2) by simp_all
  have x: "dec_exponent (n * d) d = int ?L - 1" using assms by (simp add: dec_exponent_def)
  have "n * 10 ^ (6 - ?L) < 10 ^ ?L * 10 ^ (6 - ?L)" using dec_digits_bound [of n] by simp
  also have "\<dots> = 10 ^ 6" using L by (simp add: power_add [symmetric])
  finally have small: "n * 10 ^ (6 - ?L) < 10 ^ 6" .
  have "nat (5 - (int ?L - 1)) = 6 - ?L" by simp
  moreover have "n * d * 10 ^ (6 - ?L) = n * 10 ^ (6 - ?L) * d" by simp
  ultimately have "round_even (n * d * 10 ^ nat (5 - (int ?L - 1))) d = n * 10 ^ (6 - ?L)"
    using round_even_mult [OF assms(3)] by metis
  then show ?thesis unfolding six_digits_def x Let_def using small L by simp
qed

lemma format_g_int:
  assumes "\<bar>n\<bar> < 10 ^ 6" shows "format_g (dbl_of_int n) = show_int n"
proof (cases "n = 0")
  case True
  then show ?thesis by (simp add: dbl_of_int_def dbl_of_frac_def show_int_def)
next
  case False
  have "\<bar>n\<bar> < 2 ^ 53" using assms by simp
  then obtain m e where r: "dbl_of_int n = Fin (n < 0) m e" "e \<le> 0"
    "signed_mant (n < 0) m = n * 2 ^ nat (- e)" "m = 0 \<longleftrightarrow> n = 0"
    by (rule dbl_of_int_repr)
  let ?n = "nat \<bar>n\<bar>" and ?L = "length (dec_digits (nat \<bar>n\<bar>))"
  have "int m = int (?n * 2 ^ nat (- e))"
    using r(3) by (cases "n < 0") (simp_all add: signed_mant_def)
  then have m: "m * 2 ^ nat e = ?n * 2 ^ nat (- e)" using r(2) by (simp only: of_nat_eq_iff) simp
  have n: "0 < ?n" "?n < 10 ^ 6" using False assms by simp_all
  have L: "0 < ?L" "?L \<le> 6" using dec_digits_length [of ?n 6] n(2) by simp_all
  have "six_digits (m * 2 ^ nat e) (2 ^ nat (- e)) = (?n * 10 ^ (6 - ?L), int ?L - 1)"
    unfolding m using six_digits_nat [OF n] by simp
  moreover have "dec_digits (?n * 10 ^ (6 - ?L)) = dec_digits ?n @ replicate (6 - ?L) (CHR ''0'')"
    using dec_digits_shift n by simp
  moreover have "nat (int ?L - 1) + 1 = ?L" using L(1) by linarith
  ultimately show ?thesis
    using r(1,4) False L by (simp add: with_fraction_def show_int_def)
qed

lemma takeWhile_dec_digits: "takeWhile (is_base_digit 10) (dec_digits n) = dec_digits n"
  by (rule takeWhile_eq_all_conv [THEN iffD2]) (auto dest!: dec_digits_all simp: digit_char_props)

lemma hd_dec_digits: "0 < n \<Longrightarrow> \<exists>d cs. dec_digits n = digit_char d # cs \<and> 0 < d \<and> d < 10"
proof (induction n rule: dec_digits.induct)
  case (1 n)
  show ?case
  proof (cases "n < 10")
    case False
    then have "0 < n div 10" by linarith
    then show ?thesis using 1(1) [OF False] False by (auto simp: dec_digits_step)
  qed (use 1 in auto)
qed

lemma digit_not_alpha: "d < 10 \<Longrightarrow> tolower (digit_char d) = digit_char d"
  by (simp add: tolower_def is_upper_def)

lemma strtod_dec_digits:
  assumes "0 < n"
  shows "strtod (dec_digits n) = dbl_of_frac False n 1" "strtod (CHR ''-'' # dec_digits n) = dbl_of_frac True n 1"
proof -
  obtain d cs where h: "dec_digits n = digit_char d # cs" "0 < d" "d < 10"
    using hd_dec_digits [OF assms] by blast
  have rd: "read_digits 10 (dec_digits n) = (dec_digits n, [], [])"
    by (simp add: read_digits_def takeWhile_dec_digits dropWhile_eq_Nil_conv [THEN iffD2]
        takeWhile_eq_all_conv [THEN iffD1, OF takeWhile_dec_digits])
  have sp: "skip_space (dec_digits n) = dec_digits n" "read_sign (dec_digits n) = (False, dec_digits n)"
    using h by (simp_all add: skip_space_def read_sign_def digit_char_props)
  have hex: "\<not> is_hex_prefix (dec_digits n)"
    using h digit_char_props(7) [of d] by (auto simp: is_hex_prefix_def split: list.splits)
  have al: "map tolower (take 3 (dec_digits n)) \<noteq> ''inf''" "map tolower (take 3 (dec_digits n)) \<noteq> ''nan''"
  proof -
    have "digit_char d \<noteq> CHR ''i''" "digit_char d \<noteq> CHR ''n''"
      using digit_char_props(1) [OF h(3)] by (auto simp: is_digit_def)
    then show "map tolower (take 3 (dec_digits n)) \<noteq> ''inf''" "map tolower (take 3 (dec_digits n)) \<noteq> ''nan''"
      using h digit_not_alpha [of d] by auto
  qed
  have e0: "read_exponent c [] = 0" for c by (simp add: read_exponent_def)
  show "strtod (dec_digits n) = dbl_of_frac False n 1"
    by (simp add: strtod_def sp hex al rd e0 dec_digits_value)
  have "read_sign (skip_space (CHR ''-'' # dec_digits n)) = (True, dec_digits n)"
    by (simp add: skip_space_def read_sign_def is_space_def)
  then show "strtod (CHR ''-'' # dec_digits n) = dbl_of_frac True n 1"
    by (simp add: strtod_def hex al rd e0 dec_digits_value)
qed

lemma strtod_show_int: "strtod (show_int n) = dbl_of_int n"
proof (cases "n = 0")
  case True
  have "strtod ''0'' = dbl_of_int 0"
    by (simp add: strtod_def skip_space_def read_sign_def is_space_def is_hex_prefix_def read_digits_def
        is_base_digit_def digit_value_def is_digit_def read_exponent_def digits_value_def
        dbl_of_frac_def dbl_of_int_def tolower_def is_upper_def)
  then show ?thesis using True by (simp add: show_int_def)
next
  case False
  then show ?thesis
    using strtod_dec_digits [of "nat \<bar>n\<bar>"]
    by (cases "n < 0") (simp_all add: show_int_def dbl_of_int_def)
qed

end
