(* ===== verification/Core.thy ===== *)
theory Core
  imports RbTree NumText
begin

text \<open>
  The data of the interpreter, \<open>src/aklisp.h\<close>, and its constructors, \<open>src/types.c\<close>.

  The structures live in the record \<open>akl_state\<close>, one map from addresses for each C type;
  addresses are unique across the maps and 0 is NULL. The collector's pools, modelled in
  \<open>GcPool\<close>, are seen from here as a counter: every allocation gives an address that was not
  in use. \<open>GcPool\<close> shows this of the pools when the memory they get from \<open>malloc\<close> is zero (for
  other memory it shows that a slot is handed out twice, which is not followed here); memory is
  never given back, as the collector is off. Structures that are never changed after their creation (lexical information,
  strings) are kept by value, an \<open>option\<close> where the pointer may be NULL. The two static
  values have the addresses 1 and 2, and the lists inside other structures have addresses
  of their own.
\<close>

subsection \<open>Types\<close>

datatype akl_value_type = VT_NIL | VT_TRUE | VT_SYMBOL | VT_VARIABLE | VT_NUMBER | VT_STRING
  | VT_LIST | VT_FUNCTION | VT_USERDATA

record akl_gc_object =
  gc_type_id :: nat
  gc_mark :: bool
  gc_le_is_obj :: bool
  gc_static :: bool

record akl_list_entry =
  le_gc :: akl_gc_object
  le_next :: addr
  le_prev :: addr
  le_data :: addr

record akl_list =
  li_gc :: akl_gc_object
  li_head :: addr
  li_last :: addr
  li_parent :: addr
  li_count :: u32
  li_quoted :: bool
  li_nil :: bool

record akl_userdata =
  ud_id :: u32
  ud_private :: addr

record akl_lex_info =
  li_name :: "string option"
  li_line :: u32
  li_column :: u32      \<comment> \<open>the C field is \<open>li_count\<close>, as the one of \<open>struct akl_list\<close>\<close>

text \<open>The union \<open>va_value\<close>. Reading another member than the one written last is undefined.\<close>

datatype va_union = V_number double | V_symbol addr | V_string "string option"
  | V_func addr | V_udata addr | V_list addr

record akl_value =
  va_gc :: akl_gc_object
  va_lex_info :: "akl_lex_info option"
  va_type :: akl_value_type
  va_value :: va_union
  va_quoted :: bool
  va_nil :: bool

record akl_symbol =
  sb_name :: "string option"
  sb_is_cdef :: bool

record akl_variable =
  vr_gc :: akl_gc_object
  vr_symbol :: addr
  vr_value :: addr
  vr_lex_info :: "akl_lex_info option"
  vr_desc :: "string option"
  vr_is_cdesc :: bool
  vr_is_const :: bool

text \<open>The functions written in C, by the names in their \<open>AKL_DEFINE_FUN\<close> and \<open>AKL_DEFINE_SFUN\<close>.\<close>

datatype akl_cfun = fn_inc | fn_dec | fn_plus | fn_minus | fn_mul | fn_ddiv | fn_idiv | fn_mod
  | fn_neq | fn_eq | fn_gt | fn_lt | fn_gteq | fn_lteq | fn_not | fn_and | fn_or
  | fn_iszero | fn_isnil | fn_isnumber | fn_isstring | fn_islist | fn_issymbol
  | fn_tonumber | fn_toint | fn_tostr | fn_list | fn_length | fn_ls_index | fn_ls_head | fn_ls_tail
  | fn_ls_last | fn_ls_append | fn_ls_insert | fn_split | fn_range | fn_progn | fn_akl_cfg | fn_describe
  | fn_map | fn_map_index | fn_foldl | fn_times | fn_times_index | fn_exit
  | fn_dump_stack | fn_clear_stack | fn_disassemble | fn_hello | fn_write_times | fn_about | fn_dump_vars
  | fn_print_symbol_ptr | fn_print | fn_display | fn_write | fn_read_number | fn_read_string
  | fn_getdatetime | fn_gettime | fn_load

datatype akl_sfun = sfun_sif | sfun_lambda | sfun_when | sfun_swhile | sfun_defun | sfun_set

record akl_lisp_fun =
  uf_args :: "string list"
  uf_body :: addr
  uf_labels :: addr
  uf_info :: "akl_lex_info option"

datatype fn_body = B_null | B_cfun akl_cfun | B_sfun akl_sfun | B_ufun akl_lisp_fun

datatype akl_function_type = FUNC_CFUN | FUNC_SPECIAL | FUNC_NOEVAL | FUNC_USER | FUNC_LAMBDA

record akl_function =
  fn_gc :: akl_gc_object
  fn_type :: akl_function_type
  fn_body :: fn_body

record akl_label =
  la_ir :: addr
  la_branch :: addr
  la_ind :: nat
  la_name :: "string option"

datatype akl_ir_op = IR_NOP | IR_PUSH | IR_LOAD | IR_CALL | IR_GET | IR_SET | IR_BRANCH | IR_JMP
  | IR_JT | IR_JN | IR_HEAD | IR_TAIL | IR_RET

datatype operand = A_none | A_value addr | A_symbol addr | A_label addr | A_num u32

record akl_ir_instruction =
  in_op :: akl_ir_op
  in_fun :: addr
  in_arg0 :: operand
  in_arg1 :: operand
  in_linfo :: "akl_lex_info option"

datatype akl_alert_type = ALERT_ERROR | ALERT_WARNING

record akl_error =
  err_info :: "akl_lex_info option"
  err_type :: akl_alert_type
  err_msg :: string

datatype akl_token = tEOF | tNIL | tATOM | tNUMBER | tSTRING | tTRUE | tLBRACE | tRBRACE | tQUOTE

text \<open>A file is what is left to read of it and its end-of-file flag; a string is not consumed.\<close>

datatype iod_source = DEVICE_FILE string bool | DEVICE_STRING string

record akl_io_device =
  iod_source :: iod_source
  iod_name :: "string option"
  iod_pos :: nat
  iod_buffer :: "string option option"   \<comment> \<open>NULL, or its text if any was written\<close>
  iod_buffer_size :: u32
  iod_char_count :: u32
  iod_line_count :: u32
  iod_column :: u32
  iod_backlog :: akl_token

record akl_context =
  cx_state :: bool           \<comment> \<open>not NULL: there is one interpreter\<close>
  cx_stack :: addr
  cx_ir :: addr
  cx_func :: addr
  cx_parent :: addr
  cx_frame :: addr
  cx_frame_len :: u32
  cx_func_name :: "string option"
  cx_comp_func :: addr
  cx_dev :: addr
  cx_lex_info :: "akl_lex_info option"
  cx_fn_main :: addr

text \<open>
  A word of the vector \<open>ai_utypes\<close>, whose elements have the size of a pointer: zero, never
  written, the name of a type, or a destructor.
\<close>

datatype akl_utype = UT_null | UT_indet | UT_name string | UT_destructor

record akl_state =
  st_next :: addr
  st_ents :: "addr \<Rightarrow> akl_list_entry option"
  st_lists :: "addr \<Rightarrow> akl_list option"
  st_vals :: "addr \<Rightarrow> akl_value option"
  st_syms :: "addr \<Rightarrow> akl_symbol option"
  st_vars :: "addr \<Rightarrow> akl_variable option"
  st_funs :: "addr \<Rightarrow> akl_function option"
  st_labels :: "addr \<Rightarrow> akl_label option"
  st_instrs :: "addr \<Rightarrow> akl_ir_instruction option"
  st_errs :: "addr \<Rightarrow> akl_error option"
  st_ctxs :: "addr \<Rightarrow> akl_context option"
  st_devs :: "addr \<Rightarrow> akl_io_device option"
  st_udatas :: "addr \<Rightarrow> akl_userdata option"
  ai_device :: addr
  ai_symbols :: "addr rb_tree"
  ai_global_vars :: "addr rb_tree"
  ai_utypes :: "akl_utype list"   \<comment> \<open>as many words as the vector has room for\<close>
  ai_utypes_count :: nat
  ai_modules :: addr
  ai_context :: addr
  ai_stack :: addr
  ai_errors :: addr
  ai_config :: "64 word"
  ai_interrupted :: bool
  ai_recent_var :: addr      \<comment> \<open>the static variable of \<open>update_recent_value\<close>\<close>
  st_out :: string           \<comment> \<open>what was printed to the standard output\<close>

subsection \<open>Constants\<close>

definition NIL_ADDR :: addr where "NIL_ADDR = 1"
definition TRUE_ADDR :: addr where "TRUE_ADDR = 2"

definition GC_VALUE :: nat where "GC_VALUE = 0"
definition GC_VARIABLE :: nat where "GC_VARIABLE = 1"
definition GC_LIST :: nat where "GC_LIST = 2"
definition GC_LIST_ENTRY :: nat where "GC_LIST_ENTRY = 3"
definition GC_FUNCTION :: nat where "GC_FUNCTION = 4"

definition AKL_GC_INIT_OBJ :: "nat \<Rightarrow> akl_gc_object" where
  "AKL_GC_INIT_OBJ tid = \<lparr>gc_type_id = tid, gc_mark = False, gc_le_is_obj = False, gc_static = False\<rparr>"

definition TRUE_VALUE :: akl_value where
  "TRUE_VALUE = \<lparr>va_gc = (AKL_GC_INIT_OBJ GC_VALUE)\<lparr>gc_static := True\<rparr>, va_lex_info = None,
     va_type = VT_TRUE, va_value = V_number (dbl_of_int 1), va_quoted = False, va_nil = False\<rparr>"

definition NIL_VALUE :: akl_value where
  "NIL_VALUE = \<lparr>va_gc = (AKL_GC_INIT_OBJ GC_VALUE)\<lparr>gc_static := True\<rparr>, va_lex_info = None,
     va_type = VT_NIL, va_value = V_number (dbl_of_int 0), va_quoted = False, va_nil = True\<rparr>"

definition AKL_CFG_USE_COLORS :: "64 word" where "AKL_CFG_USE_COLORS = 1"
definition AKL_CFG_USE_GC :: "64 word" where "AKL_CFG_USE_GC = 2"
definition AKL_CFG_INTERACTIVE :: "64 word" where "AKL_CFG_INTERACTIVE = 4"
definition AKL_DEBUG_INSTR :: "64 word" where "AKL_DEBUG_INSTR = 8"
definition AKL_DEBUG_STACK :: "64 word" where "AKL_DEBUG_STACK = 16"

fun akl_type_name :: "akl_value_type \<Rightarrow> string" where
  "akl_type_name VT_NIL = ''nil''"
| "akl_type_name VT_TRUE = ''true''"
| "akl_type_name VT_SYMBOL = ''symbol''"
| "akl_type_name VT_VARIABLE = ''variable''"
| "akl_type_name VT_NUMBER = ''number''"
| "akl_type_name VT_STRING = ''string''"
| "akl_type_name VT_LIST = ''list''"
| "akl_type_name VT_FUNCTION = ''function''"
| "akl_type_name VT_USERDATA = ''userdata''"

end
