(* ===== verification/Heap.thy ===== *)
theory Heap
  imports Core Interfaces
begin

text \<open>
  The constructors of \<open>src/types.c\<close> for values, lists, list entries, functions, labels,
  contexts and devices, and the invariant of the heap they keep.
\<close>

subsection \<open>Lists and entries\<close>

definition empty_list :: akl_list where
  "empty_list = \<lparr>li_gc = AKL_GC_INIT_OBJ GC_LIST, li_head = 0, li_last = 0, li_parent = 0,
     li_count = 0, li_quoted = False, li_nil = False\<rparr>"

definition akl_init_list :: "akl_state \<Rightarrow> addr \<Rightarrow> akl_state" where
  "akl_init_list s list = (if list = 0 then s else s\<lparr>st_lists := (st_lists s)(list \<mapsto> empty_list)\<rparr>)"

definition akl_new_list :: "akl_state \<Rightarrow> addr \<times> akl_state" where
  "akl_new_list s =
     (let list = st_next s in (list, akl_init_list (s\<lparr>st_next := list + 1\<rparr>) list))"

definition akl_new_list_entry :: "akl_state \<Rightarrow> addr \<times> akl_state" where
  "akl_new_list_entry s =
     (let ent = st_next s in
      (ent, s\<lparr>st_next := ent + 1, st_ents := (st_ents s)(ent \<mapsto>
         \<lparr>le_gc = AKL_GC_INIT_OBJ GC_LIST_ENTRY, le_next = 0, le_prev = 0, le_data = 0\<rparr>)\<rparr>))"

subsection \<open>Values\<close>

text \<open>\<open>akl_new_value\<close> leaves the type and the union alone: fresh pool memory is zeroed by \<open>calloc\<close>.\<close>

definition raw_value :: "akl_value_type \<Rightarrow> va_union \<Rightarrow> akl_value" where
  "raw_value t u = \<lparr>va_gc = AKL_GC_INIT_OBJ GC_VALUE, va_lex_info = None, va_type = t, va_value = u,
     va_quoted = False, va_nil = False\<rparr>"

definition new_value_with :: "akl_state \<Rightarrow> akl_value \<Rightarrow> addr \<times> akl_state" where
  "new_value_with s v =
     (let p = st_next s in (p, s\<lparr>st_next := p + 1, st_vals := (st_vals s)(p \<mapsto> v)\<rparr>))"

definition akl_new_value :: "akl_state \<Rightarrow> addr \<times> akl_state" where
  "akl_new_value s = new_value_with s (raw_value VT_NIL (V_number (dbl_of_int 0)))"

definition akl_new_string_value :: "akl_state \<Rightarrow> string option \<Rightarrow> addr \<times> akl_state" where
  "akl_new_string_value s str = new_value_with s (raw_value VT_STRING (V_string str))"

definition akl_new_number_value :: "akl_state \<Rightarrow> double \<Rightarrow> addr \<times> akl_state" where
  "akl_new_number_value s num = new_value_with s (raw_value VT_NUMBER (V_number num))"

text \<open>A NULL list fails the assertion.\<close>

definition akl_new_list_value :: "akl_state \<Rightarrow> addr \<Rightarrow> (addr \<times> akl_state) option" where
  "akl_new_list_value s lh =
     (if lh = 0 then None else Some (new_value_with s (raw_value VT_LIST (V_list lh))))"

definition akl_new_nil_value :: "akl_state \<Rightarrow> addr \<times> akl_state" where
  "akl_new_nil_value s = new_value_with s NIL_VALUE"

definition akl_new_true_value :: "akl_state \<Rightarrow> addr \<times> akl_state" where
  "akl_new_true_value s = new_value_with s TRUE_VALUE"

definition akl_new_sym_value :: "akl_state \<Rightarrow> addr \<Rightarrow> (addr \<times> akl_state) option" where
  "akl_new_sym_value s symb =
     (if symb = 0 then None else Some (new_value_with s (raw_value VT_SYMBOL (V_symbol symb))))"

definition akl_new_user_value :: "akl_state \<Rightarrow> u32 \<Rightarrow> addr \<Rightarrow> (addr \<times> akl_state) option" where
  "akl_new_user_value s type data =
     (if length (ai_utypes s) \<le> unat type then None
      else let p = st_next s;
               s = s\<lparr>st_next := p + 1, st_udatas := (st_udatas s)(p \<mapsto> \<lparr>ud_id = type, ud_private = data\<rparr>)\<rparr>
           in Some (new_value_with s (raw_value VT_USERDATA (V_udata p))))"

text \<open>
  \<open>akl_register_type\<close> reserves one element of the size of a pointer (growing by a half when one
  more would fill the vector) and writes a structure into it: its name in the first word, its
  destructor in the third. The result is the new count.
\<close>

definition akl_register_type :: "akl_state \<Rightarrow> string \<Rightarrow> (nat \<times> akl_state) option" where
  "akl_register_type s name =
     (let i = ai_utypes_count s;
          ws = (if length (ai_utypes s) \<le> i + 1
                then ai_utypes s @ replicate (length (ai_utypes s) div 2) UT_indet else ai_utypes s)
      in if length ws \<le> i + 2 then None
         else Some (i + 1, s\<lparr>ai_utypes := ws[i := UT_name name, i + 2 := UT_destructor], ai_utypes_count := i + 1\<rparr>))"

text \<open>The index of the name among the registered types, or -1.\<close>

fun find_utype :: "akl_utype list \<Rightarrow> string \<Rightarrow> int \<Rightarrow> int option" where
  "find_utype [] tname i = Some (- 1)"
| "find_utype (UT_name n # ws) tname i = (if strcmp n tname = 0 then Some i else find_utype ws tname (i + 1))"
| "find_utype (w # ws) tname i = None"

definition akl_get_typeid :: "akl_state \<Rightarrow> string \<Rightarrow> int option" where
  "akl_get_typeid s tname = find_utype (take (ai_utypes_count s) (ai_utypes s)) tname 0"

subsection \<open>Functions and variables\<close>

definition akl_new_function :: "akl_state \<Rightarrow> addr \<times> akl_state" where
  "akl_new_function s =
     (let f = st_next s in
      (f, s\<lparr>st_next := f + 1, st_funs := (st_funs s)(f \<mapsto>
         \<lparr>fn_gc = AKL_GC_INIT_OBJ GC_FUNCTION, fn_type = FUNC_CFUN, fn_body = B_null\<rparr>)\<rparr>))"

definition akl_new_function_value :: "akl_state \<Rightarrow> addr \<Rightarrow> addr \<times> akl_state" where
  "akl_new_function_value s f = new_value_with s (raw_value VT_FUNCTION (V_func f))"

definition akl_new_var :: "akl_state \<Rightarrow> addr \<Rightarrow> addr \<times> akl_state" where
  "akl_new_var s symb =
     (let p = st_next s in
      (p, s\<lparr>st_next := p + 1, st_vars := (st_vars s)(p \<mapsto>
         \<lparr>vr_gc = AKL_GC_INIT_OBJ GC_VARIABLE, vr_symbol = symb, vr_value = 0, vr_lex_info = None,
          vr_desc = None, vr_is_cdesc = False, vr_is_const = False\<rparr>)\<rparr>))"

subsection \<open>Contexts, devices, lexical information\<close>

definition init_context :: akl_context where
  "init_context = \<lparr>cx_state = False, cx_stack = 0, cx_ir = 0, cx_func = 0, cx_parent = 0, cx_frame = 0,
     cx_frame_len = 0, cx_func_name = None, cx_comp_func = 0, cx_dev = 0, cx_lex_info = None, cx_fn_main = 0\<rparr>"

definition akl_new_context :: "akl_state \<Rightarrow> addr \<times> akl_state" where
  "akl_new_context s =
     (let p = st_next s in
      (p, s\<lparr>st_next := p + 1, st_ctxs := (st_ctxs s)(p \<mapsto> init_context\<lparr>cx_state := True\<rparr>)\<rparr>))"

text \<open>
  Fields the constructors of devices do not set hold whatever \<open>malloc\<close> returned; \<open>junk\<close> is
  that device.
\<close>

definition akl_new_string_device ::
    "akl_io_device \<Rightarrow> akl_state \<Rightarrow> string option \<Rightarrow> string \<Rightarrow> addr \<times> akl_state" where
  "akl_new_string_device junk s name str =
     (let p = st_next s in
      (p, s\<lparr>st_next := p + 1, st_devs := (st_devs s)(p \<mapsto>
         junk\<lparr>iod_source := DEVICE_STRING str, iod_pos := 0, iod_line_count := 1, iod_char_count := 0,
              iod_name := name, iod_buffer := None, iod_buffer_size := 0\<rparr>)\<rparr>))"

definition akl_new_file_device ::
    "akl_io_device \<Rightarrow> akl_state \<Rightarrow> string option \<Rightarrow> string \<Rightarrow> addr \<times> akl_state" where
  "akl_new_file_device junk s file_name contents =
     (let p = st_next s in
      (p, s\<lparr>st_next := p + 1, st_devs := (st_devs s)(p \<mapsto>
         junk\<lparr>iod_source := DEVICE_FILE contents False, iod_pos := 0, iod_line_count := 1,
              iod_name := file_name, iod_buffer := None, iod_buffer_size := 0\<rparr>)\<rparr>))"

definition akl_reset_string_interpreter ::
    "akl_io_device \<Rightarrow> akl_state \<Rightarrow> string option \<Rightarrow> string \<Rightarrow> akl_state option" where
  "akl_reset_string_interpreter junk s name str =
     (if ai_device s = 0
      then (let (dev, s) = akl_new_string_device junk s name str in Some (s\<lparr>ai_device := dev\<rparr>))
      else do {
        d \<leftarrow> st_devs s (ai_device s);
        Some (s\<lparr>st_devs := (st_devs s)(ai_device s \<mapsto>
           d\<lparr>iod_source := DEVICE_STRING str, iod_pos := 0, iod_char_count := 0, iod_line_count := 0\<rparr>)\<rparr>)
      })"

definition akl_new_lex_info :: "akl_io_device option \<Rightarrow> akl_lex_info \<Rightarrow> akl_lex_info option" where
  "akl_new_lex_info dev junk =
     Some (case dev of None \<Rightarrow> junk
       | Some d \<Rightarrow> \<lparr>li_name = iod_name d, li_line = iod_line_count d, li_column = iod_column d\<rparr>)"

subsection \<open>Labels\<close>

definition akl_init_label :: "nat \<Rightarrow> akl_label" where
  "akl_init_label ind = \<lparr>la_ir = 0, la_branch = 0, la_ind = ind, la_name = None\<rparr>"

subsection \<open>Getters and conversions\<close>

definition is_type :: "akl_state \<Rightarrow> addr \<Rightarrow> akl_value_type \<Rightarrow> bool option" where
  "is_type s v t = (if v = 0 then Some False else do { V \<leftarrow> st_vals s v; Some (va_type V = t) })"

fun get_number :: "akl_value \<Rightarrow> double option" where
  "get_number V = (case va_value V of V_number d \<Rightarrow> Some d | _ \<Rightarrow> None)"

text \<open>\<open>AKL_GET_NUMBER_VALUE\<close> and its kin: 0 when the value has another type.\<close>

definition AKL_GET_NUMBER_VALUE :: "akl_state \<Rightarrow> addr \<Rightarrow> double option" where
  "AKL_GET_NUMBER_VALUE s v =
     (if v = 0 then Some (dbl_of_int 0)
      else do { V \<leftarrow> st_vals s v;
                (if va_type V = VT_NUMBER then get_number V else Some (dbl_of_int 0)) })"

definition AKL_GET_STRING_VALUE :: "akl_state \<Rightarrow> addr \<Rightarrow> string option option" where
  "AKL_GET_STRING_VALUE s v =
     (if v = 0 then Some None
      else do { V \<leftarrow> st_vals s v;
                (if va_type V = VT_STRING then (case va_value V of V_string x \<Rightarrow> Some x | _ \<Rightarrow> None)
                 else Some None) })"

definition AKL_GET_LIST_VALUE :: "akl_state \<Rightarrow> addr \<Rightarrow> addr option" where
  "AKL_GET_LIST_VALUE s v =
     (if v = 0 then Some 0
      else do { V \<leftarrow> st_vals s v;
                (if va_type V = VT_LIST then (case va_value V of V_list x \<Rightarrow> Some x | _ \<Rightarrow> None)
                 else Some 0) })"

definition AKL_IS_NIL :: "akl_state \<Rightarrow> addr \<Rightarrow> bool option" where
  "AKL_IS_NIL s v = (if v = 0 then Some True else map_option va_nil (st_vals s v))"

definition akl_get_userdata_value :: "akl_state \<Rightarrow> addr \<Rightarrow> addr option" where
  "akl_get_userdata_value s v =
     (if v = 0 then Some 0
      else do { V \<leftarrow> st_vals s v;
                (if va_type V = VT_USERDATA then (case va_value V of V_udata x \<Rightarrow> Some x | _ \<Rightarrow> None)
                 else Some 0) })"

definition akl_get_utype_value :: "akl_state \<Rightarrow> addr \<Rightarrow> u32 option" where
  "akl_get_utype_value s v =
     do { d \<leftarrow> akl_get_userdata_value s v;
          (if d = 0 then Some (- 1) else map_option ud_id (st_udatas s d)) }"

definition akl_get_udata_value :: "akl_state \<Rightarrow> addr \<Rightarrow> addr option" where
  "akl_get_udata_value s v =
     do { d \<leftarrow> akl_get_userdata_value s v;
          (if d = 0 then Some 0 else map_option ud_private (st_udatas s d)) }"

definition akl_check_user_type :: "akl_state \<Rightarrow> addr \<Rightarrow> u32 \<Rightarrow> bool option" where
  "akl_check_user_type s v type =
     do { d \<leftarrow> akl_get_userdata_value s v;
          (if d = 0 then Some False else map_option (\<lambda>u. ud_id u = type) (st_udatas s d)) }"

definition sym_name :: "akl_state \<Rightarrow> addr \<Rightarrow> string option option" where
  "sym_name s symb = (if symb = 0 then Some None else map_option sb_name (st_syms s symb))"

text \<open>\<open>akl_to_number\<close>: NULL when there is no conversion.\<close>

definition akl_to_number :: "akl_state \<Rightarrow> addr \<Rightarrow> (addr \<times> akl_state) option" where
  "akl_to_number s v =
     (if v = 0 then Some (0, s)
      else do {
        V \<leftarrow> st_vals s v;
        (if va_type V = VT_NUMBER then Some (v, s)
         else do {
           str \<leftarrow> (case va_type V of
               VT_STRING \<Rightarrow> AKL_GET_STRING_VALUE s v
             | VT_SYMBOL \<Rightarrow> (case va_value V of V_symbol y \<Rightarrow> sym_name s y | _ \<Rightarrow> None)
             | VT_NIL \<Rightarrow> Some (Some ''0'') | VT_TRUE \<Rightarrow> Some (Some ''1'') | _ \<Rightarrow> Some None);
           Some (case str of None \<Rightarrow> (0, s) | Some x \<Rightarrow> akl_new_number_value s (atof x))
         })
      })"

definition akl_num_to_str :: "double \<Rightarrow> string" where
  "akl_num_to_str number = format_g number"

text \<open>
  \<open>akl_to_string\<close> does not initialise \<open>str\<close>: for a list, a function or user data, and for a
  symbol value without a symbol, it reads an indeterminate pointer.
\<close>

definition akl_to_string :: "akl_state \<Rightarrow> addr \<Rightarrow> (addr \<times> akl_state) option" where
  "akl_to_string s v =
     (if v = 0 then Some (0, s)
      else do {
        V \<leftarrow> st_vals s v;
        (case va_type V of
           VT_STRING \<Rightarrow> Some (v, s)
         | VT_NUMBER \<Rightarrow> do { d \<leftarrow> get_number V; Some (akl_new_string_value s (Some (akl_num_to_str d))) }
         | VT_SYMBOL \<Rightarrow> (case va_value V of
               V_symbol y \<Rightarrow> (if y = 0 then None
                 else do { n \<leftarrow> sym_name s y;
                           Some (case n of None \<Rightarrow> (0, s) | Some x \<Rightarrow> akl_new_string_value s (Some x)) })
             | _ \<Rightarrow> None)
         | VT_NIL \<Rightarrow> Some (akl_new_string_value s (Some ''NIL''))
         | VT_TRUE \<Rightarrow> Some (akl_new_string_value s (Some ''T''))
         | _ \<Rightarrow> None)
      })"

subsection \<open>The heap invariant\<close>

text \<open>
  No structure is at NULL or beyond the counter. Addresses of the different types are
  disjoint because the counter never goes back; only the bounds are needed below.
\<close>

definition heap_live :: "akl_state \<Rightarrow> addr set" where
  "heap_live s = dom (st_ents s) \<union> dom (st_lists s) \<union> dom (st_vals s) \<union> dom (st_syms s) \<union> dom (st_vars s)
     \<union> dom (st_funs s) \<union> dom (st_labels s) \<union> dom (st_instrs s) \<union> dom (st_errs s) \<union> dom (st_ctxs s)
     \<union> dom (st_devs s) \<union> dom (st_udatas s)"

definition heap_ok :: "akl_state \<Rightarrow> bool" where
  "heap_ok s \<longleftrightarrow> 3 \<le> st_next s \<and> heap_live s \<subseteq> {0<..<st_next s} \<and>
     st_vals s NIL_ADDR = Some NIL_VALUE \<and> st_vals s TRUE_ADDR = Some TRUE_VALUE"

lemma heap_ok_fresh: "heap_ok s \<Longrightarrow> st_next s \<notin> heap_live s"
  by (auto simp: heap_ok_def)

lemma heap_live_upd:
  "heap_live (s\<lparr>st_next := n\<rparr>) = heap_live s"
  "heap_live (s\<lparr>st_ents := (st_ents s)(p \<mapsto> e)\<rparr>) = insert p (heap_live s)"
  "heap_live (s\<lparr>st_vals := (st_vals s)(p \<mapsto> v)\<rparr>) = insert p (heap_live s)"
  "heap_live (s\<lparr>st_lists := (st_lists s)(p \<mapsto> l)\<rparr>) = insert p (heap_live s)"
  by (simp_all add: heap_live_def del: fun_upd_apply)

text \<open>What an allocation does to the invariant.\<close>

lemma heap_ok_alloc:
  assumes "heap_ok s" "st_next s' = Suc (st_next s)" "heap_live s' = insert (st_next s) (heap_live s)"
    "st_vals s' NIL_ADDR = st_vals s NIL_ADDR" "st_vals s' TRUE_ADDR = st_vals s TRUE_ADDR"
  shows "st_next s \<notin> heap_live s \<and> heap_live s' = insert (st_next s) (heap_live s) \<and> heap_ok s'"
proof -
  have "{0<..<st_next s} \<subseteq> {0<..<Suc (st_next s)}" by auto
  then have "heap_live s \<subseteq> {0<..<Suc (st_next s)}" using assms(1) unfolding heap_ok_def by blast
  then show ?thesis using assms heap_ok_fresh [OF assms(1)] by (simp add: heap_ok_def)
qed

lemma new_list_entry_ok:
  assumes "heap_ok s" "akl_new_list_entry s = (ent, s')"
  shows "ent \<notin> heap_live s \<and> heap_live s' = insert ent (heap_live s) \<and> heap_ok s'"
proof -
  have e: "ent = st_next s" and s': "s' = snd (akl_new_list_entry s)" using assms(2) by (auto simp: akl_new_list_entry_def Let_def)
  have "heap_live s' = insert (st_next s) (heap_live s)"
    unfolding s' akl_new_list_entry_def Let_def snd_conv
    using heap_live_upd(1,2) [where s = "s\<lparr>st_next := st_next s + 1\<rparr>"] heap_live_upd(1) [where s = s]
    by (simp del: fun_upd_apply)
  then show ?thesis
    unfolding e using heap_ok_alloc [OF assms(1), of s'] by (simp add: s' akl_new_list_entry_def Let_def)
qed

lemma new_value_with_ok:
  assumes "heap_ok s" "new_value_with s v = (p, s')"
  shows "p \<notin> heap_live s \<and> heap_live s' = insert p (heap_live s) \<and> heap_ok s'"
proof -
  have e: "p = st_next s" and s': "s' = snd (new_value_with s v)" using assms(2) by (auto simp: new_value_with_def Let_def)
  have "heap_live s' = insert (st_next s) (heap_live s)"
    unfolding s' new_value_with_def Let_def snd_conv
    using heap_live_upd(3) [where s = "s\<lparr>st_next := st_next s + 1\<rparr>"] heap_live_upd(1) [where s = s]
    by (simp del: fun_upd_apply)
  moreover have "3 \<le> st_next s" using assms(1) by (simp add: heap_ok_def)
  ultimately show ?thesis
    unfolding e using heap_ok_alloc [OF assms(1), of s']
    by (simp add: s' new_value_with_def Let_def NIL_ADDR_def TRUE_ADDR_def)
qed

lemma new_list_ok:
  assumes "heap_ok s" "akl_new_list s = (p, s')"
  shows "p \<notin> heap_live s \<and> heap_live s' = insert p (heap_live s) \<and> heap_ok s'"
proof -
  have n: "3 \<le> st_next s" using assms(1) by (simp add: heap_ok_def)
  then have e: "p = st_next s" and
    s': "s' = s\<lparr>st_next := st_next s + 1, st_lists := (st_lists s)(st_next s \<mapsto> empty_list)\<rparr>"
    using assms(2) by (auto simp: akl_new_list_def akl_init_list_def Let_def)
  have "heap_live s' = insert (st_next s) (heap_live s)"
    unfolding s' using heap_live_upd(4) [where s = "s\<lparr>st_next := st_next s + 1\<rparr>"] heap_live_upd(1) [where s = s]
    by (simp del: fun_upd_apply)
  then show ?thesis
    unfolding e using heap_ok_alloc [OF assms(1), of s'] by (simp add: s')
qed

interpretation heap_entries: allocator heap_ok heap_live "\<lambda>s. Some (akl_new_list_entry s)"
  by unfold_locales (use new_list_entry_ok in \<open>simp add: prod_eq_iff\<close>)

interpretation heap_values: allocator heap_ok heap_live "\<lambda>s. Some (new_value_with s v)" for v
  by unfold_locales (use new_value_with_ok in \<open>simp add: prod_eq_iff\<close>)

interpretation heap_lists: allocator heap_ok heap_live "\<lambda>s. Some (akl_new_list s)"
  by unfold_locales (use new_list_ok in \<open>simp add: prod_eq_iff\<close>)

end
