(* ===== verification/DList.thy ===== *)
theory DList
  imports Heap
begin

text \<open>
  The doubly linked lists of \<open>src/list.c\<close>. A list is the structure \<open>akl_list\<close> with pointers to
  its first and last entry and a count; the entries are on the heap. The operations follow
  the code pointer by pointer; the predicate \<open>is_list\<close> relates them to lists of entries.
\<close>

subsection \<open>Memory accesses\<close>

definition upd_ent :: "akl_state \<Rightarrow> addr \<Rightarrow> (akl_list_entry \<Rightarrow> akl_list_entry) \<Rightarrow> akl_state option" where
  "upd_ent s p f = do { E \<leftarrow> st_ents s p; Some (s\<lparr>st_ents := (st_ents s)(p \<mapsto> f E)\<rparr>) }"

definition upd_list :: "akl_state \<Rightarrow> addr \<Rightarrow> (akl_list \<Rightarrow> akl_list) \<Rightarrow> akl_state option" where
  "upd_list s l f = do { L \<leftarrow> st_lists s l; Some (s\<lparr>st_lists := (st_lists s)(l \<mapsto> f L)\<rparr>) }"

definition entry_data :: "akl_state \<Rightarrow> addr \<Rightarrow> addr option" where
  "entry_data s ent = (if ent = 0 then Some 0 else map_option le_data (st_ents s ent))"

subsection \<open>Insertion\<close>

definition akl_list_append :: "akl_state \<Rightarrow> addr \<Rightarrow> addr \<Rightarrow> (addr \<times> akl_state) option" where
  "akl_list_append s list data =
     do {
       L \<leftarrow> st_lists s list;
       let (ent, s) = akl_new_list_entry s;
       s \<leftarrow> upd_ent s ent (\<lambda>E. E\<lparr>le_data := data\<rparr>);
       s \<leftarrow> (if li_head L = 0
             then upd_list s list (\<lambda>L. L\<lparr>li_head := ent\<rparr>)
             else do {
               s \<leftarrow> upd_ent s (li_last L) (\<lambda>E. E\<lparr>le_next := ent\<rparr>);
               upd_ent s ent (\<lambda>E. E\<lparr>le_prev := li_last L\<rparr>)
             });
       s \<leftarrow> upd_list s list (\<lambda>L. L\<lparr>li_last := ent, li_count := li_count L + 1, li_nil := False\<rparr>);
       Some (ent, s)
     }"

definition akl_list_append_value :: "akl_state \<Rightarrow> addr \<Rightarrow> addr \<Rightarrow> (addr \<times> akl_state) option" where
  "akl_list_append_value s list val =
     do {
       (ent, s) \<leftarrow> akl_list_append s list val;
       s \<leftarrow> upd_ent s ent (\<lambda>E. E\<lparr>le_gc := (le_gc E)\<lparr>gc_le_is_obj := True\<rparr>\<rparr>);
       Some (ent, s)
     }"

definition akl_list_insert_head :: "akl_state \<Rightarrow> addr \<Rightarrow> addr \<Rightarrow> (addr \<times> akl_state) option" where
  "akl_list_insert_head s list data =
     do {
       L \<leftarrow> st_lists s list;
       let (ent, s) = akl_new_list_entry s;
       s \<leftarrow> upd_ent s ent (\<lambda>E. E\<lparr>le_data := data\<rparr>);
       s \<leftarrow> (if li_head L = 0
             then upd_list s list (\<lambda>L. L\<lparr>li_last := ent\<rparr>)
             else do {
               s \<leftarrow> upd_ent s (li_head L) (\<lambda>E. E\<lparr>le_prev := ent\<rparr>);
               upd_ent s ent (\<lambda>E. E\<lparr>le_next := li_head L\<rparr>)
             });
       s \<leftarrow> upd_list s list (\<lambda>L. L\<lparr>li_head := ent, li_count := li_count L + 1, li_nil := False\<rparr>);
       Some (ent, s)
     }"

definition akl_list_insert_head_value :: "akl_state \<Rightarrow> addr \<Rightarrow> addr \<Rightarrow> (addr \<times> akl_state) option" where
  "akl_list_insert_head_value s list val =
     do {
       (ent, s) \<leftarrow> akl_list_insert_head s list val;
       s \<leftarrow> upd_ent s ent (\<lambda>E. E\<lparr>le_gc := (le_gc E)\<lparr>gc_le_is_obj := True\<rparr>\<rparr>);
       Some (ent, s)
     }"

subsection \<open>Access\<close>

definition akl_list_head :: "akl_state \<Rightarrow> addr \<Rightarrow> addr option" where
  "akl_list_head s list =
     (if list = 0 then Some 0
      else do { L \<leftarrow> st_lists s list;
                (if li_head L = 0 then Some 0 else map_option le_data (st_ents s (li_head L))) })"

definition akl_list_last :: "akl_state \<Rightarrow> addr \<Rightarrow> addr option" where
  "akl_list_last s list =
     (if list = 0 then Some 0
      else do { L \<leftarrow> st_lists s list;
                (if li_last L = 0 then Some 0 else map_option le_data (st_ents s (li_last L))) })"

definition akl_list_count :: "akl_state \<Rightarrow> addr \<Rightarrow> u32 option" where
  "akl_list_count s l = (if l = 0 then Some 0 else map_option li_count (st_lists s l))"

definition akl_list_is_empty :: "akl_state \<Rightarrow> addr \<Rightarrow> bool option" where
  "akl_list_is_empty s l = map_option (\<lambda>c. c = 0) (akl_list_count s l)"

text \<open>Following \<open>n\<close> links from an entry; the code stops at the first NULL.\<close>

fun walk_next :: "akl_state \<Rightarrow> nat \<Rightarrow> addr \<Rightarrow> addr option" where
  "walk_next s 0 ent = Some ent"
| "walk_next s (Suc n) ent =
     do { E \<leftarrow> st_ents s ent; (if le_next E = 0 then Some 0 else walk_next s n (le_next E)) }"

fun walk_prev :: "akl_state \<Rightarrow> nat \<Rightarrow> addr \<Rightarrow> addr option" where
  "walk_prev s 0 ent = Some ent"
| "walk_prev s (Suc n) ent =
     do { E \<leftarrow> st_ents s ent; (if le_prev E = 0 then Some 0 else walk_prev s n (le_prev E)) }"

definition akl_list_index_entry :: "akl_state \<Rightarrow> addr \<Rightarrow> int \<Rightarrow> addr option" where
  "akl_list_index_entry s list ind =
     do {
       L \<leftarrow> st_lists s list;
       (if li_nil L then None
        else if li_head L = 0 then Some 0
        else if 0 \<le> ind then walk_next s (nat ind) (li_head L)
        else if li_last L = 0 then (if ind = - 1 then Some 0 else None)
        else walk_prev s (nat (- ind) - 1) (li_last L))
     }"

definition akl_list_index :: "akl_state \<Rightarrow> addr \<Rightarrow> int \<Rightarrow> addr option" where
  "akl_list_index s list ind = do { ent \<leftarrow> akl_list_index_entry s list ind; entry_data s ent }"

definition akl_list_index_value :: "akl_state \<Rightarrow> addr \<Rightarrow> int \<Rightarrow> addr option" where
  "akl_list_index_value s list ind = akl_list_index s list ind"

definition akl_car :: "akl_state \<Rightarrow> addr \<Rightarrow> addr option" where
  "akl_car s l = akl_list_index_value s l 0"

text \<open>
  \<open>akl_list_find\<close>: \<open>find_loop\<close> is the loop over the entries with the counter \<open>i\<close>, \<open>find_body\<close> its
  body. The body ends with \<open>return\<close> (\<open>Inl\<close>: the entry, and the index if it was written through
  \<open>ind\<close>) or goes on with a new counter (\<open>Inr\<close>). As the \<open>if\<close> has no braces, only the assignment
  of the index depends on the comparison; the \<open>return\<close> behind it is always executed.
\<close>

definition find_body ::
    "(addr \<Rightarrow> addr \<Rightarrow> int option) \<Rightarrow> addr \<Rightarrow> addr \<Rightarrow> akl_list_entry \<Rightarrow> nat \<Rightarrow> ((addr \<times> nat option) + nat) option" where
  "find_body cmp_fn data ent E i =
     do {
       c \<leftarrow> cmp_fn (le_data E) data;
       let ind = (if c = 0 then Some i else None);
       Some (Inl (ent, ind))
     }"

partial_function (option) find_loop ::
    "akl_state \<Rightarrow> (addr \<Rightarrow> addr \<Rightarrow> int option) \<Rightarrow> addr \<Rightarrow> addr \<Rightarrow> nat \<Rightarrow> (addr \<times> nat option) option" where
  "find_loop s cmp_fn data ent i =
     (if ent = 0 then Some (0, None)
      else do {
        E \<leftarrow> st_ents s ent;
        r \<leftarrow> find_body cmp_fn data ent E i;
        (case r of Inl x \<Rightarrow> Some x | Inr j \<Rightarrow> find_loop s cmp_fn data (le_next E) j)
      })"

definition akl_list_find ::
    "akl_state \<Rightarrow> addr \<Rightarrow> (addr \<Rightarrow> addr \<Rightarrow> int option) \<Rightarrow> addr \<Rightarrow> (addr \<times> nat option) option" where
  "akl_list_find s list cmp_fn data = do { L \<leftarrow> st_lists s list; find_loop s cmp_fn data (li_head L) 0 }"

subsection \<open>Removal\<close>

definition akl_list_shift_entry :: "akl_state \<Rightarrow> addr \<Rightarrow> (addr \<times> akl_state) option" where
  "akl_list_shift_entry s list =
     do {
       L \<leftarrow> st_lists s list;
       let ohead = li_head L;
       nhead \<leftarrow> (if ohead = 0 then Some 0 else map_option le_next (st_ents s ohead));
       s \<leftarrow> upd_list s list (\<lambda>L. L\<lparr>li_head := nhead\<rparr>);
       s \<leftarrow> (if nhead = 0 then Some s else upd_ent s nhead (\<lambda>E. E\<lparr>le_prev := 0\<rparr>));
       s \<leftarrow> upd_list s list (\<lambda>L. L\<lparr>li_last := (if ohead = li_last L then nhead else li_last L),
                                   li_count := li_count L - 1\<rparr>);
       Some (ohead, s)
     }"

definition akl_list_shift :: "akl_state \<Rightarrow> addr \<Rightarrow> (addr \<times> akl_state) option" where
  "akl_list_shift s list =
     do { (ent, s) \<leftarrow> akl_list_shift_entry s list; d \<leftarrow> entry_data s ent; Some (d, s) }"

definition akl_list_remove_entry :: "akl_state \<Rightarrow> addr \<Rightarrow> addr \<Rightarrow> (addr \<times> akl_state) option" where
  "akl_list_remove_entry s list ent =
     (if ent = 0 then Some (ent, s)
      else do {
        E \<leftarrow> st_ents s ent;
        let prev = le_prev E;
        let nxt = le_next E;
        s \<leftarrow> (if prev = 0 then Some s else upd_ent s prev (\<lambda>E. E\<lparr>le_next := nxt\<rparr>));
        s \<leftarrow> (if nxt = 0 then Some s else upd_ent s nxt (\<lambda>E. E\<lparr>le_prev := prev\<rparr>));
        s \<leftarrow> upd_list s list (\<lambda>L. L\<lparr>li_head := (if li_head L = ent then nxt else li_head L),
                                    li_last := (if li_last L = ent then prev else li_last L),
                                    li_count := li_count L - 1\<rparr>);
        Some (ent, s)
      })"

definition akl_list_remove ::
    "akl_state \<Rightarrow> addr \<Rightarrow> (addr \<Rightarrow> addr \<Rightarrow> int option) \<Rightarrow> addr \<Rightarrow> (addr \<times> akl_state) option" where
  "akl_list_remove s list cmp_fn ptr =
     (if ptr = 0 then None
      else do { (ent, ind) \<leftarrow> akl_list_find s list cmp_fn ptr; akl_list_remove_entry s list ent })"

definition akl_list_pop_entry :: "akl_state \<Rightarrow> addr \<Rightarrow> (addr \<times> akl_state) option" where
  "akl_list_pop_entry s list =
     (if list = 0 then Some (0, s)
      else do { L \<leftarrow> st_lists s list;
                (if li_last L = 0 then Some (0, s) else akl_list_remove_entry s list (li_last L)) })"

definition akl_list_pop :: "akl_state \<Rightarrow> addr \<Rightarrow> (addr \<times> akl_state) option" where
  "akl_list_pop s list =
     do { (ent, s) \<leftarrow> akl_list_pop_entry s list; d \<leftarrow> entry_data s ent; Some (d, s) }"

text \<open>The rest of a list shares the entries of the list.\<close>

definition akl_cdr :: "akl_state \<Rightarrow> addr \<Rightarrow> (addr \<times> akl_state) option" where
  "akl_cdr s l =
     do {
       L \<leftarrow> st_lists s l;
       (if li_nil L \<or> li_count L = 0 then Some (0, s)
        else do {
          let (nhead, s) = akl_new_list s;
          (if li_count L - 1 = 0
           then do { s \<leftarrow> upd_list s nhead (\<lambda>N. N\<lparr>li_count := li_count L - 1, li_nil := True\<rparr>); Some (nhead, s) }
           else do {
             E \<leftarrow> st_ents s (li_head L);
             s \<leftarrow> upd_list s nhead (\<lambda>N. N\<lparr>li_count := li_count L - 1, li_head := le_next E, li_last := li_last L\<rparr>);
             Some (nhead, s)
           })
        })
     }"

subsection \<open>Iterators\<close>

definition akl_list_it_begin :: "akl_state \<Rightarrow> addr \<Rightarrow> addr option" where
  "akl_list_it_begin s l = (if l = 0 then Some 0 else map_option li_head (st_lists s l))"

definition akl_list_it_end :: "akl_state \<Rightarrow> addr \<Rightarrow> addr option" where
  "akl_list_it_end s l = (if l = 0 then Some 0 else map_option li_last (st_lists s l))"

definition akl_list_it_has_next :: "akl_state \<Rightarrow> addr \<Rightarrow> bool option" where
  "akl_list_it_has_next s it =
     (if it = 0 then Some False else map_option (\<lambda>E. le_next E \<noteq> 0) (st_ents s it))"

definition akl_list_it_has_prev :: "akl_state \<Rightarrow> addr \<Rightarrow> bool option" where
  "akl_list_it_has_prev s it =
     (if it = 0 then Some False else map_option (\<lambda>E. le_prev E \<noteq> 0) (st_ents s it))"

text \<open>The data at the iterator, and the iterator moved on.\<close>

definition akl_list_it_next :: "akl_state \<Rightarrow> addr \<Rightarrow> (addr \<times> addr) option" where
  "akl_list_it_next s it =
     (if it = 0 then Some (0, 0) else map_option (\<lambda>E. (le_data E, le_next E)) (st_ents s it))"

definition akl_list_it_prev :: "akl_state \<Rightarrow> addr \<Rightarrow> (addr \<times> addr) option" where
  "akl_list_it_prev s it =
     (if it = 0 then Some (0, 0) else map_option (\<lambda>E. (le_data E, le_prev E)) (st_ents s it))"

definition akl_list_it_data :: "akl_state \<Rightarrow> addr \<Rightarrow> addr option" where
  "akl_list_it_data s it = entry_data s it"

text \<open>\<open>AKL_LIST_FOREACH\<close>: the entries from one on. A cyclic list has no result.\<close>

partial_function (option) foreach_entries :: "akl_state \<Rightarrow> addr \<Rightarrow> addr list option" where
  "foreach_entries s ent =
     (if ent = 0 then Some []
      else do { E \<leftarrow> st_ents s ent; es \<leftarrow> foreach_entries s (le_next E); Some (ent # es) })"

definition AKL_LIST_FOREACH :: "akl_state \<Rightarrow> addr \<Rightarrow> addr list option" where
  "AKL_LIST_FOREACH s l = do { L \<leftarrow> st_lists s l; foreach_entries s (li_head L) }"

text \<open>The data of all entries.\<close>

fun entries_data :: "akl_state \<Rightarrow> addr list \<Rightarrow> addr list option" where
  "entries_data s [] = Some []"
| "entries_data s (e # es) =
     do { E \<leftarrow> st_ents s e; ds \<leftarrow> entries_data s es; Some (le_data E # ds) }"

text \<open>Is the name of a symbol among some strings?\<close>

definition akl_is_strings_include :: "akl_state \<Rightarrow> addr \<Rightarrow> string list option \<Rightarrow> bool option" where
  "akl_is_strings_include s symb strs =
     do { name \<leftarrow> sym_name s symb;
          Some (case (name, strs) of (Some n, Some xs) \<Rightarrow> (\<exists>x\<in>set xs. strcmp n x = 0) | _ \<Rightarrow> False) }"

subsection \<open>Lists of entries\<close>

text \<open>A doubly linked segment from \<open>p\<close> (before the first entry) to \<open>n\<close> (after the last).\<close>

fun dll :: "(addr \<Rightarrow> akl_list_entry option) \<Rightarrow> addr \<Rightarrow> addr list \<Rightarrow> addr \<Rightarrow> bool" where
  "dll h p [] n \<longleftrightarrow> True"
| "dll h p (e # es) n \<longleftrightarrow> e \<noteq> 0 \<and>
     (\<exists>E. h e = Some E \<and> le_prev E = p \<and> le_next E = (if es = [] then n else hd es)) \<and> dll h e es n"

definition chain :: "akl_state \<Rightarrow> addr list \<Rightarrow> bool" where
  "chain s es \<longleftrightarrow> distinct es \<and> dll (st_ents s) 0 es 0"

definition first0 :: "addr list \<Rightarrow> addr" where
  "first0 es = (if es = [] then 0 else hd es)"

definition last0 :: "addr list \<Rightarrow> addr" where
  "last0 es = (if es = [] then 0 else last es)"

lemma first0_simps [simp]: "first0 [] = 0" "first0 (e # es) = e"
  by (simp_all add: first0_def)

lemma last0_simps [simp]: "last0 [] = 0" "last0 (es @ [e]) = e" "last0 [e] = e"
  by (simp_all add: last0_def)

definition is_list :: "akl_state \<Rightarrow> addr \<Rightarrow> addr list \<Rightarrow> bool" where
  "is_list s l es \<longleftrightarrow> l \<noteq> 0 \<and> chain s es \<and>
     (\<exists>L. st_lists s l = Some L \<and> li_head L = first0 es \<and> li_last L = last0 es \<and> li_count L = of_nat (length es))"

text \<open>The data of the entries, and a list by its data.\<close>

definition edata :: "akl_state \<Rightarrow> addr \<Rightarrow> addr" where
  "edata s e = (case st_ents s e of None \<Rightarrow> 0 | Some E \<Rightarrow> le_data E)"

definition holds :: "akl_state \<Rightarrow> addr \<Rightarrow> addr list \<Rightarrow> bool" where
  "holds s l xs \<longleftrightarrow> (\<exists>es. is_list s l es \<and> xs = map (edata s) es)"

text \<open>
  What an operation may change: the links of the entries in \<open>A\<close>, the list \<open>l\<close>, and the part
  of the heap that was not in use. The data of an entry stays.
\<close>

definition list_op :: "addr set \<Rightarrow> addr \<Rightarrow> akl_state \<Rightarrow> akl_state \<Rightarrow> bool" where
  "list_op A l s s' \<longleftrightarrow>
     (\<exists>n h ls. s' = s\<lparr>st_next := n, st_ents := h, st_lists := ls\<rparr>) \<and> st_next s \<le> st_next s' \<and>
     (\<forall>x. x \<notin> A \<longrightarrow> st_ents s x \<noteq> None \<longrightarrow> st_ents s' x = st_ents s x) \<and>
     (\<forall>x. st_ents s x \<noteq> None \<longrightarrow> st_ents s' x \<noteq> None \<and> edata s' x = edata s x) \<and>
     (\<forall>k. k \<noteq> l \<longrightarrow> st_lists s' k = st_lists s k)"

lemma list_opI:
  assumes "s' = s\<lparr>st_next := st_next s', st_ents := st_ents s', st_lists := st_lists s'\<rparr>"
    "st_next s \<le> st_next s'"
    "\<And>x. x \<notin> A \<Longrightarrow> st_ents s x \<noteq> None \<Longrightarrow> st_ents s' x = st_ents s x"
    "\<And>x. st_ents s x \<noteq> None \<Longrightarrow> st_ents s' x \<noteq> None \<and> edata s' x = edata s x"
    "\<And>k. k \<noteq> l \<Longrightarrow> st_lists s' k = st_lists s k"
  shows "list_op A l s s'"
  unfolding list_op_def using assms by blast

lemma dll_append:
  "dll h p (xs @ ys) n \<longleftrightarrow>
     dll h p xs (if ys = [] then n else hd ys) \<and> dll h (if xs = [] then p else last xs) ys n"
  by (induction xs arbitrary: p) (auto simp: hd_append)

lemma dll_cong: "(\<And>x. x \<in> set es \<Longrightarrow> h x = h' x) \<Longrightarrow> dll h p es n \<longleftrightarrow> dll h' p es n"
  by (induction es arbitrary: p) auto

lemma dll_nonzero: "dll h p es n \<Longrightarrow> x \<in> set es \<Longrightarrow> x \<noteq> 0 \<and> h x \<noteq> None"
  by (induction es arbitrary: p) auto

lemma dll_hd: "dll h p (e # es) n \<Longrightarrow> \<exists>E. h e = Some E \<and> le_prev E = p \<and> le_next E = (if es = [] then n else hd es)"
  by simp

lemma dll_set_next:
  assumes "dll h p (xs @ [e]) n" "h e = Some E" "e \<notin> set xs"
  shows "dll (h(e \<mapsto> E\<lparr>le_next := m\<rparr>)) p (xs @ [e]) m"
proof -
  have "dll (h(e \<mapsto> E\<lparr>le_next := m\<rparr>)) p xs e \<longleftrightarrow> dll h p xs e"
    by (rule dll_cong) (use assms(3) in auto)
  then show ?thesis using assms by (auto simp: dll_append)
qed

lemma dll_set_prev:
  assumes "dll h p (e # es) n" "h e = Some E" "e \<notin> set es"
  shows "dll (h(e \<mapsto> E\<lparr>le_prev := q\<rparr>)) q (e # es) n"
proof -
  have "dll (h(e \<mapsto> E\<lparr>le_prev := q\<rparr>)) e es n \<longleftrightarrow> dll h e es n"
    by (rule dll_cong) (use assms(3) in auto)
  then show ?thesis using assms by auto
qed

text \<open>Unlinking an entry in the middle.\<close>

definition relink :: "(addr \<Rightarrow> akl_list_entry option) \<Rightarrow> addr \<Rightarrow> addr \<Rightarrow> addr \<Rightarrow> akl_list_entry option" where
  "relink h p n =
     (let h1 = (if p = 0 then h else h(p := map_option (\<lambda>E. E\<lparr>le_next := n\<rparr>) (h p)))
      in if n = 0 then h1 else h1(n := map_option (\<lambda>E. E\<lparr>le_prev := p\<rparr>) (h1 n)))"

lemma dll_relink_left:
  assumes "dll h 0 xs m" "xs \<noteq> []" "distinct xs" "n \<notin> set xs"
  shows "dll (relink h (last xs) n) 0 xs n"
proof -
  obtain ys l where xs: "xs = ys @ [l]" using assms(2) by (cases xs rule: rev_cases) auto
  obtain E where E: "h l = Some E" "l \<noteq> 0" using assms(1) xs by (auto simp: dll_append)
  let ?h = "h(l \<mapsto> E\<lparr>le_next := n\<rparr>)"
  have "dll ?h 0 xs n" using dll_set_next [of h 0 ys l m E n] assms(1,3) xs E by auto
  moreover have "relink h l n x = ?h x" if "x \<in> set xs" for x
    using that assms(4) E by (auto simp: relink_def Let_def)
  ultimately show ?thesis using dll_cong [of xs "relink h (last xs) n" ?h] by (simp add: xs)
qed

lemma dll_relink_right:
  assumes "dll h q (e # es) n" "distinct (e # es)" "p \<notin> set (e # es)"
  shows "dll (relink h p e) p (e # es) n"
proof -
  obtain E where E: "h e = Some E" "e \<noteq> 0" using assms(1) by auto
  let ?h = "h(e \<mapsto> E\<lparr>le_prev := p\<rparr>)"
  have "dll ?h p (e # es) n" by (rule dll_set_prev [OF assms(1) E(1)]) (use assms(2) in simp)
  moreover have "relink h p e x = ?h x" if "x \<in> set (e # es)" for x
    using that assms(3) E by (auto simp: relink_def Let_def)
  ultimately show ?thesis using dll_cong [of "e # es" "relink h p e" ?h p n] by simp
qed

lemma dll_remove:
  assumes "dll h 0 (xs @ e # ys) 0" "distinct (xs @ e # ys)"
  shows "dll (relink h (last0 xs) (first0 ys)) 0 (xs @ ys) 0"
proof -
  have xs: "dll h 0 xs e" and ys: "dll h e ys 0" using assms(1) by (auto simp: dll_append)
  have "dll (relink h (last0 xs) (first0 ys)) 0 xs (first0 ys)"
  proof (cases "xs = []")
    case False
    have "first0 ys \<notin> set xs"
      using assms(2) dll_nonzero [OF xs, of 0] by (cases ys) auto
    then show ?thesis using dll_relink_left [OF xs False] assms(2) False by (simp add: last0_def)
  qed simp
  moreover have "dll (relink h (last0 xs) (first0 ys)) (last0 xs) ys 0"
  proof (cases ys)
    case (Cons y zs)
    have "last xs \<notin> set ys" if "xs \<noteq> []"
      using last_in_set [OF that] assms(2) by (auto simp: disjoint_iff)
    then have "last0 xs \<notin> set ys" using dll_nonzero [OF ys, of 0] by (cases "xs = []") (auto simp: last0_def)
    then show ?thesis using dll_relink_right [of h e y zs 0 "last0 xs"] ys assms(2) Cons by simp
  qed simp
  ultimately show ?thesis by (auto simp: dll_append first0_def last0_def split: if_splits)
qed

lemma relink_None [simp]: "relink h p n x = None \<longleftrightarrow> h x = None"
  by (auto simp: relink_def Let_def)

lemma relink_data: "map_option le_data (relink h p n x) = map_option le_data (h x)"
  by (auto simp: relink_def Let_def option.map_comp comp_def)

lemma relink_other: "x \<noteq> p \<Longrightarrow> x \<noteq> n \<Longrightarrow> relink h p n x = h x"
  by (auto simp: relink_def Let_def)

subsection \<open>What the operations do to the heap\<close>

lemma state_ents_id [simp]: "s\<lparr>st_ents := st_ents s\<rparr> = (s::akl_state)"
  by simp

lemma remove_entry_raw:
  assumes "e \<noteq> 0" "st_ents s e = Some E" "st_lists s l = Some L"
    "le_prev E \<noteq> 0 \<Longrightarrow> st_ents s (le_prev E) \<noteq> None" "le_next E \<noteq> 0 \<Longrightarrow> st_ents s (le_next E) \<noteq> None"
  shows "akl_list_remove_entry s l e = Some (e, s\<lparr>st_ents := relink (st_ents s) (le_prev E) (le_next E),
    st_lists := (st_lists s)(l \<mapsto> L\<lparr>li_head := (if li_head L = e then le_next E else li_head L),
      li_last := (if li_last L = e then le_prev E else li_last L), li_count := li_count L - 1\<rparr>)\<rparr>)"
proof -
  let ?h = "st_ents s" and ?p = "le_prev E" and ?n = "le_next E"
  define h1 where "h1 = (if ?p = 0 then ?h else ?h(?p := map_option (\<lambda>E. E\<lparr>le_next := ?n\<rparr>) (?h ?p)))"
  have 1: "(if ?p = 0 then Some s else upd_ent s ?p (\<lambda>E. E\<lparr>le_next := ?n\<rparr>)) = Some (s\<lparr>st_ents := h1\<rparr>)"
    using assms(4) by (auto simp: h1_def upd_ent_def)
  have n1: "?n \<noteq> 0 \<Longrightarrow> h1 ?n \<noteq> None" using assms(5) by (auto simp: h1_def)
  have 2: "(if ?n = 0 then Some (s\<lparr>st_ents := h1\<rparr>) else upd_ent (s\<lparr>st_ents := h1\<rparr>) ?n (\<lambda>E. E\<lparr>le_prev := ?p\<rparr>))
      = Some (s\<lparr>st_ents := relink ?h ?p ?n\<rparr>)"
    using n1 by (auto simp: relink_def h1_def [symmetric] Let_def upd_ent_def)
  show ?thesis
    using assms(1-3) by (simp add: akl_list_remove_entry_def Let_def 1 2 upd_list_def)
qed

lemma shift_entry_raw:
  assumes "e \<noteq> 0" "st_ents s e = Some E" "st_lists s l = Some L" "li_head L = e"
    "le_next E \<noteq> 0 \<Longrightarrow> st_ents s (le_next E) \<noteq> None"
  shows "akl_list_shift_entry s l = Some (e, s\<lparr>st_ents := relink (st_ents s) 0 (le_next E),
    st_lists := (st_lists s)(l \<mapsto> L\<lparr>li_head := le_next E,
      li_last := (if e = li_last L then le_next E else li_last L), li_count := li_count L - 1\<rparr>)\<rparr>)"
  using assms
  by (auto simp: akl_list_shift_entry_def Let_def upd_list_def upd_ent_def relink_def)

definition append_links :: "akl_state \<Rightarrow> addr \<Rightarrow> addr \<Rightarrow> addr \<Rightarrow> akl_list_entry option" where
  "append_links s last_ent data =
     (let e = st_next s;
          N = \<lparr>le_gc = AKL_GC_INIT_OBJ GC_LIST_ENTRY, le_next = 0, le_prev = last_ent, le_data = data\<rparr>
      in if last_ent = 0 then (st_ents s)(e \<mapsto> N)
         else (st_ents s)(last_ent := map_option (\<lambda>E. E\<lparr>le_next := e\<rparr>) (st_ents s last_ent), e \<mapsto> N))"

lemma append_raw:
  assumes "heap_ok s" "st_lists s l = Some L" "li_head L = 0 \<longleftrightarrow> li_last L = 0"
    "li_last L \<noteq> 0 \<Longrightarrow> st_ents s (li_last L) \<noteq> None"
  shows "akl_list_append s l d = Some (st_next s, s\<lparr>st_next := Suc (st_next s),
    st_ents := append_links s (li_last L) d,
    st_lists := (st_lists s)(l \<mapsto> L\<lparr>li_head := (if li_head L = 0 then st_next s else li_head L),
      li_last := st_next s, li_count := li_count L + 1, li_nil := False\<rparr>)\<rparr>)"
proof -
  have "st_next s \<notin> heap_live s" by (rule heap_ok_fresh [OF assms(1)])
  then have "st_ents s (st_next s) = None" by (auto simp: heap_live_def)
  then have ne: "li_last L \<noteq> 0 \<Longrightarrow> li_last L \<noteq> st_next s" using assms(4) by auto
  show ?thesis
    using assms(2-4) ne
    by (auto simp: akl_list_append_def akl_new_list_entry_def Let_def upd_list_def upd_ent_def
        append_links_def fun_upd_twist)
qed

lemma dll_append_links:
  assumes "dll (st_ents s) 0 es 0" "distinct es" "st_next s \<notin> set es" "st_next s \<noteq> 0"
  shows "dll (append_links s (last0 es) d) 0 (es @ [st_next s]) 0"
proof (cases es rule: rev_cases)
  case Nil
  then show ?thesis using assms(4) by (simp add: append_links_def Let_def)
next
  case (snoc xs l)
  obtain E where E: "st_ents s l = Some E" "l \<noteq> 0" using assms(1) snoc by (auto simp: dll_append)
  let ?h = "(st_ents s)(l \<mapsto> E\<lparr>le_next := st_next s\<rparr>)"
  have "dll ?h 0 es (st_next s)"
    using dll_set_next [of "st_ents s" 0 xs l 0 E "st_next s"] assms(1,2) snoc E by auto
  moreover have "append_links s (last0 es) d x = ?h x" if "x \<in> set es" for x
    using that assms(3) E snoc by (auto simp: append_links_def Let_def)
  ultimately have "dll (append_links s (last0 es) d) 0 es (st_next s)"
    using dll_cong [of es "append_links s (last0 es) d" ?h] by blast
  then show ?thesis
    using assms(4) snoc E by (auto simp: dll_append append_links_def Let_def)
qed

subsection \<open>The operations on lists of entries\<close>

lemma is_list_first_last:
  assumes "is_list s l es"
  obtains L where "st_lists s l = Some L" "li_head L = 0 \<longleftrightarrow> es = []" "li_last L = 0 \<longleftrightarrow> es = []"
    "li_head L = first0 es" "li_last L = last0 es" "li_count L = of_nat (length es)"
proof -
  have nz: "x \<in> set es \<Longrightarrow> x \<noteq> 0" for x
    using assms dll_nonzero by (auto simp: is_list_def chain_def)
  obtain L where L: "st_lists s l = Some L" "li_head L = first0 es" "li_last L = last0 es"
    "li_count L = of_nat (length es)"
    using assms by (auto simp: is_list_def)
  have "first0 es = 0 \<longleftrightarrow> es = []" "last0 es = 0 \<longleftrightarrow> es = []"
    using nz by (auto simp: first0_def last0_def)
  then show thesis using that [OF L(1)] L by simp
qed

lemma is_list_ents: "is_list s l es \<Longrightarrow> x \<in> set es \<Longrightarrow> st_ents s x \<noteq> None \<and> x \<noteq> 0"
  using dll_nonzero by (auto simp: is_list_def chain_def)

lemma heap_live_lists:
  "dom h = dom (st_ents s) \<Longrightarrow> dom ls = dom (st_lists s) \<Longrightarrow>
   heap_live (s\<lparr>st_next := n, st_ents := h, st_lists := ls\<rparr>) = heap_live s"
  "dom h = insert p (dom (st_ents s)) \<Longrightarrow> dom ls = dom (st_lists s) \<Longrightarrow>
   heap_live (s\<lparr>st_next := n, st_ents := h, st_lists := ls\<rparr>) = insert p (heap_live s)"
  by (simp_all add: heap_live_def)

lemma append_ok:
  assumes "heap_ok s" "is_list s l es"
  shows "\<exists>s'. akl_list_append s l d = Some (st_next s, s') \<and> is_list s' l (es @ [st_next s]) \<and>
    edata s' (st_next s) = d \<and> list_op (set es) l s s' \<and> heap_ok s'"
proof -
  obtain L where L: "st_lists s l = Some L" "li_head L = 0 \<longleftrightarrow> es = []" "li_last L = 0 \<longleftrightarrow> es = []"
    "li_head L = first0 es" "li_last L = last0 es" "li_count L = of_nat (length es)"
    by (rule is_list_first_last [OF assms(2)])
  have l0: "l \<noteq> 0" using assms(2) by (simp add: is_list_def)
  have fr: "st_next s \<notin> heap_live s" by (rule heap_ok_fresh [OF assms(1)])
  then have fe: "st_ents s (st_next s) = None" by (auto simp: heap_live_def)
  have nz: "st_next s \<noteq> 0" using assms(1) by (simp add: heap_ok_def)
  have nes: "st_next s \<notin> set es" using is_list_ents [OF assms(2)] fe by blast
  have dl: "dll (st_ents s) 0 es 0" "distinct es" using assms(2) by (auto simp: is_list_def chain_def)
  have le: "st_ents s (li_last L) \<noteq> None" if "li_last L \<noteq> 0"
    using that is_list_ents [OF assms(2), of "last es"] L(3,5) by (auto simp: last0_def)
  define s' where "s' = s\<lparr>st_next := Suc (st_next s), st_ents := append_links s (li_last L) d,
    st_lists := (st_lists s)(l \<mapsto> L\<lparr>li_head := (if li_head L = 0 then st_next s else li_head L),
      li_last := st_next s, li_count := li_count L + 1, li_nil := False\<rparr>)\<rparr>"
  have run: "akl_list_append s l d = Some (st_next s, s')"
    unfolding s'_def by (rule append_raw [OF assms(1) L(1)]) (use L le in auto)
  have rep: "is_list s' l (es @ [st_next s])"
    using dll_append_links [OF dl nes nz, of d] l0 dl(2) nes L
    by (auto simp: is_list_def chain_def s'_def first0_def hd_append)
  have dt: "edata s' (st_next s) = d" by (simp add: edata_def s'_def append_links_def Let_def)
  have st: "st_ents s' = append_links s (last0 es) d" using L(5) by (simp add: s'_def)
  have other: "st_ents s' x = st_ents s x" if "x \<notin> set es" "x \<noteq> st_next s" for x
  proof (cases "es = []")
    case True
    then show ?thesis using that by (simp add: st append_links_def Let_def)
  next
    case False
    then have "x \<noteq> last0 es" using that(1) last_in_set [OF False] by (auto simp: last0_def)
    then show ?thesis using that by (simp add: st append_links_def Let_def)
  qed
  have data: "st_ents s' x \<noteq> None \<and> edata s' x = edata s x" if "st_ents s x \<noteq> None" for x
  proof -
    have "x \<noteq> st_next s" using that fe by auto
    then show ?thesis using that by (auto simp: st append_links_def Let_def edata_def split: option.splits)
  qed
  have op: "list_op (set es) l s s'"
  proof (rule list_opI)
    show "s' = s\<lparr>st_next := st_next s', st_ents := st_ents s', st_lists := st_lists s'\<rparr>" by (simp add: s'_def)
    show "st_ents s' x = st_ents s x" if "x \<notin> set es" "st_ents s x \<noteq> None" for x
      using other that fe by metis
    show "st_lists s' k = st_lists s k" if "k \<noteq> l" for k using that by (simp add: s'_def)
  qed (use data in \<open>simp_all add: s'_def\<close>)
  have dom: "dom (st_ents s') = insert (st_next s) (dom (st_ents s))"
    using L(3,5) le by (auto simp: st append_links_def Let_def split: if_splits)
  have doml: "dom (st_lists s') = dom (st_lists s)" using L(1) by (auto simp: s'_def)
  have "s' = s\<lparr>st_next := Suc (st_next s), st_ents := st_ents s', st_lists := st_lists s'\<rparr>" by (simp add: s'_def)
  then have live: "heap_live s' = insert (st_next s) (heap_live s)"
    using heap_live_lists(2) [OF dom doml, of "Suc (st_next s)"] by argo
  have "heap_ok s'"
    using heap_ok_alloc [OF assms(1) _ live] by (simp add: s'_def)
  then show ?thesis using run rep dt op by blast
qed

lemma edata_alt: "edata s x = (case map_option le_data (st_ents s x) of None \<Rightarrow> 0 | Some d \<Rightarrow> d)"
  by (simp add: edata_def split: option.splits)

lemma heap_ok_same:
  assumes "heap_ok s" "s' = s\<lparr>st_ents := h, st_lists := ls\<rparr>" "dom h = dom (st_ents s)" "dom ls = dom (st_lists s)"
  shows "heap_ok s'"
proof -
  have "heap_live s' = heap_live s"
    using heap_live_lists(1) [OF assms(3,4), of "st_next s"] assms(2) by simp
  then show ?thesis using assms(1,2) by (simp add: heap_ok_def)
qed

text \<open>Relinking an entry's neighbours and changing the list structure alone.\<close>

lemma relink_list_op:
  assumes "heap_ok s" "s' = s\<lparr>st_ents := relink (st_ents s) p n, st_lists := (st_lists s)(l \<mapsto> L')\<rparr>"
    "st_lists s l \<noteq> None" "{p, n} - {0} \<subseteq> A"
  shows "list_op A l s s' \<and> heap_ok s'"
proof -
  have e: "st_ents s' = relink (st_ents s) p n" using assms(2) by simp
  have "list_op A l s s'"
  proof (rule list_opI)
    show "st_ents s' x = st_ents s x" if x: "x \<notin> A" "st_ents s x \<noteq> None" for x
    proof (cases "x = p \<or> x = n")
      case True
      then have x0: "x = 0" using x(1) assms(4) by auto
      then show ?thesis unfolding e by (auto simp: relink_def Let_def)
    next
      case False
      then show ?thesis unfolding e using relink_other by metis
    qed
    show "st_ents s' x \<noteq> None \<and> edata s' x = edata s x" if "st_ents s x \<noteq> None" for x
      using that unfolding edata_alt e relink_data by simp
  qed (use assms(2) in auto)
  moreover have "heap_ok s'"
  proof (rule heap_ok_same [OF assms(1,2)])
    show "dom (relink (st_ents s) p n) = dom (st_ents s)" by (auto simp: dom_def)
    show "dom ((st_lists s)(l \<mapsto> L')) = dom (st_lists s)" using assms(3) by auto
  qed
  ultimately show ?thesis by blast
qed

lemma of_nat_Suc_minus: "(of_nat (Suc n) :: u32) - 1 = of_nat n"
  by simp

lemma first_last_simps:
  "first0 (xs @ e # ys) = (if xs = [] then e else hd xs)" "last0 (xs @ e # ys) = (if ys = [] then e else last ys)"
  "first0 (xs @ ys) = (if xs = [] then first0 ys else hd xs)"
  "last0 (xs @ ys) = (if ys = [] then last0 xs else last ys)"
  by (auto simp: first0_def last0_def)

lemma dll_mid:
  assumes "dll h 0 (xs @ e # ys) 0"
  shows "e \<noteq> 0 \<and> (\<exists>E. h e = Some E \<and> le_prev E = last0 xs \<and> le_next E = first0 ys)"
  using assms by (auto simp: dll_append last0_def first0_def)

lemma remove_entry_ok:
  assumes "heap_ok s" "is_list s l (xs @ e # ys)"
  shows "\<exists>s'. akl_list_remove_entry s l e = Some (e, s') \<and> is_list s' l (xs @ ys) \<and>
    list_op (set (xs @ e # ys)) l s s' \<and> heap_ok s'"
proof -
  let ?es = "xs @ e # ys"
  obtain L where L: "st_lists s l = Some L" "li_head L = 0 \<longleftrightarrow> ?es = []" "li_last L = 0 \<longleftrightarrow> ?es = []"
    "li_head L = first0 ?es" "li_last L = last0 ?es" "li_count L = of_nat (length ?es)"
    by (rule is_list_first_last [OF assms(2)])
  have dl: "dll (st_ents s) 0 ?es 0" "distinct ?es" and l0: "l \<noteq> 0"
    using assms(2) by (auto simp: is_list_def chain_def)
  obtain E where E: "e \<noteq> 0" "st_ents s e = Some E" "le_prev E = last0 xs" "le_next E = first0 ys"
    using dll_mid [OF dl(1)] by blast
  have nb: "x \<in> set ?es" if "x \<in> {last0 xs, first0 ys}" "x \<noteq> 0" for x
    using that by (auto simp: first0_def last0_def split: if_splits)
  have p: "le_prev E \<noteq> 0 \<Longrightarrow> st_ents s (le_prev E) \<noteq> None" and n: "le_next E \<noteq> 0 \<Longrightarrow> st_ents s (le_next E) \<noteq> None"
    using nb is_list_ents [OF assms(2)] E(3,4) by blast+
  define L' where "L' = L\<lparr>li_head := (if li_head L = e then le_next E else li_head L),
      li_last := (if li_last L = e then le_prev E else li_last L), li_count := li_count L - 1\<rparr>"
  define s' where "s' = s\<lparr>st_ents := relink (st_ents s) (le_prev E) (le_next E), st_lists := (st_lists s)(l \<mapsto> L')\<rparr>"
  have run: "akl_list_remove_entry s l e = Some (e, s')"
    unfolding s'_def L'_def by (rule remove_entry_raw [OF E(1,2) L(1) p n])
  have hd: "li_head L' = first0 (xs @ ys)"
    using dl(2) L(4) E(4) by (cases xs) (auto simp: L'_def first_last_simps)
  have lst: "li_last L' = last0 (xs @ ys)"
    using dl(2) L(5) E(3) by (cases ys rule: rev_cases) (auto simp: L'_def first_last_simps)
  have "li_count L' = of_nat (length (xs @ ys))" using L(6) by (simp add: L'_def)
  then have "is_list s' l (xs @ ys)"
    using dll_remove [OF dl] dl(2) l0 hd lst E(3,4) by (auto simp: is_list_def chain_def s'_def)
  moreover have "list_op (set ?es) l s s' \<and> heap_ok s'"
    by (rule relink_list_op [OF assms(1) s'_def]) (use L(1) nb E(3,4) in auto)
  ultimately show ?thesis using run by blast
qed

lemma shift_entry_ok:
  assumes "heap_ok s" "is_list s l (e # es)"
  shows "\<exists>s'. akl_list_shift_entry s l = Some (e, s') \<and> is_list s' l es \<and>
    list_op (set (e # es)) l s s' \<and> heap_ok s'"
proof -
  obtain L where L: "st_lists s l = Some L" "li_head L = 0 \<longleftrightarrow> e # es = []" "li_last L = 0 \<longleftrightarrow> e # es = []"
    "li_head L = first0 (e # es)" "li_last L = last0 (e # es)" "li_count L = of_nat (length (e # es))"
    by (rule is_list_first_last [OF assms(2)])
  have dl: "dll (st_ents s) 0 (e # es) 0" "distinct (e # es)" and l0: "l \<noteq> 0"
    using assms(2) by (auto simp: is_list_def chain_def)
  obtain E where E: "e \<noteq> 0" "st_ents s e = Some E" "le_prev E = 0" "le_next E = first0 es"
    using dll_mid [of "st_ents s" "[]" e es] dl(1) by auto
  have n: "le_next E \<noteq> 0 \<Longrightarrow> st_ents s (le_next E) \<noteq> None"
    using is_list_ents [OF assms(2)] E(4) by (cases es) auto
  define L' where "L' = L\<lparr>li_head := le_next E, li_last := (if e = li_last L then le_next E else li_last L),
      li_count := li_count L - 1\<rparr>"
  define s' where "s' = s\<lparr>st_ents := relink (st_ents s) 0 (le_next E), st_lists := (st_lists s)(l \<mapsto> L')\<rparr>"
  have run: "akl_list_shift_entry s l = Some (e, s')"
    unfolding s'_def L'_def by (rule shift_entry_raw [OF E(1,2) L(1) _ n]) (use L(4) in simp)
  have lst: "li_last L' = last0 es"
    using dl(2) L(5) E(4) by (cases es rule: rev_cases) (auto simp: L'_def last0_def)
  have "li_head L' = first0 es" "li_count L' = of_nat (length es)" using E(4) L(6) by (simp_all add: L'_def)
  then have "is_list s' l es"
    using dll_remove [of "st_ents s" "[]" e es] dl l0 lst E(4) by (auto simp: is_list_def chain_def s'_def)
  moreover have "list_op (set (e # es)) l s s' \<and> heap_ok s'"
    by (rule relink_list_op [OF assms(1) s'_def]) (use L(1) E(4) in \<open>auto simp: first0_def\<close>)
  ultimately show ?thesis using run by blast
qed

lemma pop_entry_ok:
  assumes "heap_ok s" "is_list s l (es @ [e])"
  shows "\<exists>s'. akl_list_pop_entry s l = Some (e, s') \<and> is_list s' l es \<and>
    list_op (set (es @ [e])) l s s' \<and> heap_ok s'"
proof -
  obtain L where L: "st_lists s l = Some L" "li_head L = 0 \<longleftrightarrow> es @ [e] = []" "li_last L = 0 \<longleftrightarrow> es @ [e] = []"
    "li_head L = first0 (es @ [e])" "li_last L = last0 (es @ [e])" "li_count L = of_nat (length (es @ [e]))"
    by (rule is_list_first_last [OF assms(2)])
  have "e \<noteq> 0" using is_list_ents [OF assms(2)] by auto
  moreover have "l \<noteq> 0" using assms(2) by (simp add: is_list_def)
  ultimately have "akl_list_pop_entry s l = akl_list_remove_entry s l e"
    using L(1,5) by (simp add: akl_list_pop_entry_def)
  then show ?thesis using remove_entry_ok [of s l es e "[]"] assms by simp
qed

lemma walk_next_dll:
  "dll (st_ents s) p es 0 \<Longrightarrow> es \<noteq> [] \<Longrightarrow> walk_next s n (hd es) = Some (if n < length es then es ! n else 0)"
proof (induction n arbitrary: p es)
  case 0
  then show ?case by (simp add: hd_conv_nth)
next
  case (Suc n)
  then obtain e fs where es: "es = e # fs" by (cases es) auto
  show ?case
  proof (cases fs)
    case Nil
    then show ?thesis using Suc.prems es by auto
  next
    case (Cons f gs)
    have "f \<noteq> 0" using Suc.prems(1) es Cons by simp
    then show ?thesis
      using Suc.IH [of e fs] Suc.prems(1) es Cons by auto
  qed
qed

lemma index_entry_ok:
  assumes "is_list s l es" "\<not> li_nil (the (st_lists s l))" "0 \<le> i"
  shows "akl_list_index_entry s l i = Some (if nat i < length es then es ! nat i else 0)"
proof -
  obtain L where L: "st_lists s l = Some L" "li_head L = 0 \<longleftrightarrow> es = []" "li_last L = 0 \<longleftrightarrow> es = []"
    "li_head L = first0 es" "li_last L = last0 es" "li_count L = of_nat (length es)"
    by (rule is_list_first_last [OF assms(1)])
  have "dll (st_ents s) 0 es 0" using assms(1) by (simp add: is_list_def chain_def)
  then show ?thesis
    using walk_next_dll [of s 0 es "nat i"] L assms(2,3)
    by (auto simp: akl_list_index_entry_def first0_def)
qed

lemma walk_prev_dll:
  "dll (st_ents s) 0 es q \<Longrightarrow> es \<noteq> [] \<Longrightarrow>
   walk_prev s n (last es) = Some (if n < length es then es ! (length es - 1 - n) else 0)"
proof (induction n arbitrary: es q)
  case 0
  then show ?case by (simp add: last_conv_nth)
next
  case (Suc n)
  then obtain fs e where es: "es = fs @ [e]" by (cases es rule: rev_cases) auto
  have e: "\<exists>E. st_ents s e = Some E \<and> le_prev E = last0 fs" "dll (st_ents s) 0 fs e"
    using Suc.prems(1) by (auto simp: es dll_append last0_def)
  show ?case
  proof (cases "fs = []")
    case True
    then show ?thesis using e(1) es by auto
  next
    case False
    have "last0 fs = last fs" "last fs \<noteq> 0" using False dll_nonzero [OF e(2), of "last fs"] by (simp_all add: last0_def)
    moreover have "fs ! (length fs - Suc n) = es ! (length es - 1 - Suc n)" if "n < length fs"
      using that False by (auto simp: es nth_append)
    ultimately show ?thesis using Suc.IH [OF e(2) False] e(1) by (auto simp: es)
  qed
qed

text \<open>The element that an index means: from the end if it is negative, NULL if it is out of range.\<close>

definition index_ref :: "addr list \<Rightarrow> int \<Rightarrow> addr" where
  "index_ref xs i = (let k = (if 0 \<le> i then i else int (length xs) + i) in
     if 0 \<le> k \<and> k < int (length xs) then xs ! nat k else 0)"

lemma index_entry_ref:
  assumes "is_list s l es"
  shows "akl_list_index_entry s l i = (if li_nil (the (st_lists s l)) then None else Some (index_ref es i))"
proof -
  obtain L where L: "st_lists s l = Some L" "li_head L = 0 \<longleftrightarrow> es = []" "li_last L = 0 \<longleftrightarrow> es = []"
    "li_head L = first0 es" "li_last L = last0 es" "li_count L = of_nat (length es)"
    by (rule is_list_first_last [OF assms(1)])
  have d: "dll (st_ents s) 0 es 0" using assms(1) by (simp add: is_list_def chain_def)
  consider "es = []" | "es \<noteq> []" "0 \<le> i" | "es \<noteq> []" "i < 0" by linarith
  then show ?thesis
  proof cases
    case 1
    then show ?thesis using L by (simp add: akl_list_index_entry_def index_ref_def)
  next
    case 2
    then show ?thesis
      using index_entry_ok [OF assms _ 2(2)] L by (auto simp: akl_list_index_entry_def index_ref_def nat_less_iff)
  next
    case 3
    have "length es - 1 - (nat (- i) - 1) = nat (int (length es) + i)" if "- i \<le> int (length es)" using that 3 by linarith
    moreover have "nat (- i) - 1 < length es \<longleftrightarrow> - i \<le> int (length es)" using 3 by linarith
    ultimately show ?thesis
      using walk_prev_dll [OF d 3(1), of "nat (- i) - 1"] L 3
      by (auto simp: akl_list_index_entry_def index_ref_def last0_def)
  qed
qed

lemma foreach_entries_dll:
  "dll (st_ents s) p es 0 \<Longrightarrow> foreach_entries s (first0 es) = Some es"
proof (induction es arbitrary: p)
  case Nil
  then show ?case by (simp add: foreach_entries.simps)
next
  case (Cons e es)
  then obtain E where E: "e \<noteq> 0" "st_ents s e = Some E" "le_next E = first0 es"
    by (auto simp: first0_def)
  have "foreach_entries s (first0 es) = Some es" using Cons.IH [of e] Cons.prems by simp
  then show ?case using E by (subst foreach_entries.simps) simp
qed

lemma FOREACH_ok: "is_list s l es \<Longrightarrow> AKL_LIST_FOREACH s l = Some es"
  using foreach_entries_dll [of s 0 es] by (auto simp: is_list_def chain_def AKL_LIST_FOREACH_def)

text \<open>An operation on one list leaves the others alone when they share no entry with it.\<close>

lemma list_op_frame:
  assumes "list_op A l s s'" "is_list s k fs" "k \<noteq> l" "set fs \<inter> A = {}"
  shows "is_list s' k fs \<and> map (edata s') fs = map (edata s) fs"
proof -
  have ne: "st_ents s x \<noteq> None" if "x \<in> set fs" for x using is_list_ents [OF assms(2) that] by blast
  have same: "st_ents s' x = st_ents s x" if "x \<in> set fs" for x
    using ne [OF that] that assms(1,4) unfolding list_op_def by blast
  have "dll (st_ents s') 0 fs 0 \<longleftrightarrow> dll (st_ents s) 0 fs 0" by (rule dll_cong) (rule same)
  moreover have "st_lists s' k = st_lists s k" using assms(1,3) unfolding list_op_def by blast
  ultimately have "is_list s' k fs" using assms(2) by (simp add: is_list_def chain_def)
  moreover have "map (edata s') fs = map (edata s) fs" using same by (simp add: edata_def)
  ultimately show ?thesis by blast
qed

lemma list_op_data:
  "list_op A l s s' \<Longrightarrow> is_list s k fs \<Longrightarrow> map (edata s') fs = map (edata s) fs"
  using is_list_ents unfolding list_op_def by auto

lemma append_holds:
  assumes "heap_ok s" "holds s l xs"
  shows "\<exists>e s'. akl_list_append s l d = Some (e, s') \<and> holds s' l (xs @ [d]) \<and> heap_ok s'"
proof -
  obtain es where es: "is_list s l es" "xs = map (edata s) es" using assms(2) by (auto simp: holds_def)
  obtain s' where s': "akl_list_append s l d = Some (st_next s, s')" "is_list s' l (es @ [st_next s])"
    "edata s' (st_next s) = d" "list_op (set es) l s s'" "heap_ok s'"
    using append_ok [OF assms(1) es(1)] by blast
  have "map (edata s') (es @ [st_next s]) = xs @ [d]"
    using list_op_data [OF s'(4) es(1)] s'(3) es(2) by simp
  then show ?thesis using s' unfolding holds_def by metis
qed

lemma entry_data_edata: "st_ents s e \<noteq> None \<Longrightarrow> e \<noteq> 0 \<Longrightarrow> entry_data s e = Some (edata s e)"
  by (auto simp: entry_data_def edata_def)

lemma pop_holds:
  assumes "heap_ok s" "holds s l (xs @ [x])"
  shows "\<exists>s'. akl_list_pop s l = Some (x, s') \<and> holds s' l xs \<and> heap_ok s'"
proof -
  obtain es e where es: "is_list s l (es @ [e])" "xs = map (edata s) es" "x = edata s e"
    using assms(2) by (auto simp: holds_def map_eq_append_conv append_eq_map_conv)
  obtain s' where s': "akl_list_pop_entry s l = Some (e, s')" "is_list s' l es"
    "list_op (set (es @ [e])) l s s'" "heap_ok s'"
    using pop_entry_ok [OF assms(1) es(1)] by blast
  have "map (edata s') (es @ [e]) = map (edata s) (es @ [e])" by (rule list_op_data [OF s'(3) es(1)])
  moreover have "st_ents s' e \<noteq> None \<and> e \<noteq> 0"
    using s'(3) is_list_ents [OF es(1), of e] unfolding list_op_def by auto
  ultimately show ?thesis
    using s' es(2,3) entry_data_edata [of s' e] by (auto simp: akl_list_pop_def holds_def)
qed

lemma shift_holds:
  assumes "heap_ok s" "holds s l (x # xs)"
  shows "\<exists>s'. akl_list_shift s l = Some (x, s') \<and> holds s' l xs \<and> heap_ok s'"
proof -
  obtain e es where es: "is_list s l (e # es)" "xs = map (edata s) es" "x = edata s e"
    using assms(2) by (auto simp: holds_def Cons_eq_map_conv)
  obtain s' where s': "akl_list_shift_entry s l = Some (e, s')" "is_list s' l es"
    "list_op (set (e # es)) l s s'" "heap_ok s'"
    using shift_entry_ok [OF assms(1) es(1)] by blast
  have "map (edata s') (e # es) = map (edata s) (e # es)" by (rule list_op_data [OF s'(3) es(1)])
  moreover have "st_ents s' e \<noteq> None \<and> e \<noteq> 0"
    using s'(3) is_list_ents [OF es(1), of e] unfolding list_op_def by auto
  ultimately show ?thesis
    using s' es(2,3) entry_data_edata [of s' e] by (auto simp: akl_list_shift_def holds_def)
qed

lemma count_holds: "holds s l xs \<Longrightarrow> akl_list_count s l = Some (of_nat (length xs))"
  by (auto simp: holds_def is_list_def akl_list_count_def)

lemma pop_empty: "holds s l [] \<Longrightarrow> akl_list_pop s l = Some (0, s)"
  by (auto simp: holds_def is_list_def akl_list_pop_def akl_list_pop_entry_def entry_data_def)

lemma index_holds:
  assumes "holds s l xs"
  shows "akl_list_index s l i = (if li_nil (the (st_lists s l)) then None else Some (index_ref xs i))"
proof -
  obtain es where es: "is_list s l es" "xs = map (edata s) es" using assms by (auto simp: holds_def)
  have "entry_data s (index_ref es i) = Some (index_ref xs i)"
  proof (cases "\<exists>n < length es. index_ref es i = es ! n \<and> index_ref xs i = xs ! n")
    case True
    then obtain n where n: "n < length es" "index_ref es i = es ! n" "index_ref xs i = xs ! n" by blast
    then have "st_ents s (es ! n) \<noteq> None \<and> es ! n \<noteq> 0" using is_list_ents [OF es(1)] by simp
    then show ?thesis using n entry_data_edata [of s "es ! n"] es(2) by simp
  next
    case False
    have "index_ref es i = 0 \<and> index_ref xs i = 0"
    proof (rule ccontr)
      let ?k = "if 0 \<le> i then i else int (length es) + i"
      assume "\<not> (index_ref es i = 0 \<and> index_ref xs i = 0)"
      then have "0 \<le> ?k \<and> ?k < int (length es)" by (auto simp: index_ref_def es(2) Let_def split: if_splits)
      then have "nat ?k < length es" "index_ref es i = es ! nat ?k" "index_ref xs i = xs ! nat ?k"
        by (auto simp: index_ref_def es(2) Let_def)
      then show False using False by blast
    qed
    then show ?thesis by (simp add: entry_data_def)
  qed
  then show ?thesis using index_entry_ref [OF es(1), of i] by (simp add: akl_list_index_def)
qed

lemma shift_empty:
  assumes "holds s l []"
  shows "\<exists>L. st_lists s l = Some L \<and>
    akl_list_shift s l = Some (0, s\<lparr>st_lists := (st_lists s)(l \<mapsto> L\<lparr>li_count := 4294967295\<rparr>)\<rparr>)"
proof -
  obtain L where L: "st_lists s l = Some L" "li_head L = 0" "li_last L = 0" "li_count L = 0"
    using assms by (auto simp: holds_def is_list_def)
  then have "akl_list_shift s l = Some (0, s\<lparr>st_lists := (st_lists s)(l \<mapsto> L\<lparr>li_head := 0, li_count := - 1\<rparr>)\<rparr>)"
    by (simp add: akl_list_shift_def akl_list_shift_entry_def upd_list_def entry_data_def)
  moreover have "L\<lparr>li_head := 0, li_count := - 1\<rparr> = L\<lparr>li_count := 4294967295\<rparr>"
    using L(2) by (cases L) simp
  ultimately show ?thesis using L(1) by metis
qed

lemma find_loop_first:
  "e \<noteq> 0 \<Longrightarrow> st_ents s e = Some E \<Longrightarrow>
   find_loop s cmp data e i = map_option (\<lambda>c. (e, if c = 0 then Some i else None)) (cmp (le_data E) data)"
  by (subst find_loop.simps) (simp add: find_body_def map_option_case split: option.splits)

lemma list_find_eq:
  assumes "is_list s l es"
  shows "akl_list_find s l cmp data = (case es of [] \<Rightarrow> Some (0, None)
    | e # fs \<Rightarrow> map_option (\<lambda>c. (e, if c = 0 then Some 0 else None)) (cmp (edata s e) data))"
proof (cases es)
  case Nil
  then show ?thesis using assms by (auto simp: akl_list_find_def is_list_def find_loop.simps)
next
  case (Cons e fs)
  obtain E where "st_ents s e = Some E" "e \<noteq> 0" using is_list_ents [OF assms, of e] Cons by auto
  then show ?thesis
    using assms find_loop_first [of e s E cmp data 0] Cons by (auto simp: akl_list_find_def is_list_def edata_def)
qed

subsection \<open>Properties\<close>

text \<open>
  C16. The linked lists implement lists. From a list structure that holds \<open>xs\<close>, no operation
  dereferences NULL or a dangling pointer, and: appending gives \<open>xs @ [d]\<close>; popping takes the
  last element, or gives NULL and changes nothing when there is none; shifting takes the first
  element, but from an empty list it gives NULL and lets the count wrap around to \<open>UINT_MAX\<close>; the
  count is the length. For any index, negative ones counted from the end, indexing gives the
  element, and NULL when the index is out of range (in an empty list every index is); on a list
  that is marked as nil the assertion of the function fails.
\<close>

theorem list_operations_refine:
  assumes "heap_ok s" "holds s l xs"
  shows "(\<exists>e s'. akl_list_append s l d = Some (e, s') \<and> holds s' l (xs @ [d]) \<and> heap_ok s') \<and>
    (if xs = [] then akl_list_pop s l = Some (0, s)
     else \<exists>s'. akl_list_pop s l = Some (last xs, s') \<and> holds s' l (butlast xs) \<and> heap_ok s') \<and>
    (if xs = []
     then \<exists>L. st_lists s l = Some L \<and>
            akl_list_shift s l = Some (0, s\<lparr>st_lists := (st_lists s)(l \<mapsto> L\<lparr>li_count := 4294967295\<rparr>)\<rparr>)
     else \<exists>s'. akl_list_shift s l = Some (hd xs, s') \<and> holds s' l (tl xs) \<and> heap_ok s') \<and>
    akl_list_count s l = Some (of_nat (length xs)) \<and>
    akl_list_index s l i =
      (if li_nil (the (st_lists s l)) then None
       else if 0 \<le> i \<and> i < int (length xs) then Some (xs ! nat i)
       else if i < 0 \<and> - i \<le> int (length xs) then Some (xs ! nat (int (length xs) + i))
       else Some 0)"
proof -
  have pop: "if xs = [] then akl_list_pop s l = Some (0, s)
     else \<exists>s'. akl_list_pop s l = Some (last xs, s') \<and> holds s' l (butlast xs) \<and> heap_ok s'"
    using pop_empty pop_holds [OF assms(1), of l "butlast xs" "last xs"] assms(2) by auto
  have shift: "if xs = []
     then \<exists>L. st_lists s l = Some L \<and>
            akl_list_shift s l = Some (0, s\<lparr>st_lists := (st_lists s)(l \<mapsto> L\<lparr>li_count := 4294967295\<rparr>)\<rparr>)
     else \<exists>s'. akl_list_shift s l = Some (hd xs, s') \<and> holds s' l (tl xs) \<and> heap_ok s'"
    using shift_empty [of s l] shift_holds [OF assms(1), of l "hd xs" "tl xs"] assms(2) by auto
  have "index_ref xs i = (if 0 \<le> i \<and> i < int (length xs) then xs ! nat i
      else if i < 0 \<and> - i \<le> int (length xs) then xs ! nat (int (length xs) + i) else 0)"
    by (simp add: index_ref_def Let_def)
  then have "akl_list_index s l i =
      (if li_nil (the (st_lists s l)) then None
       else if 0 \<le> i \<and> i < int (length xs) then Some (xs ! nat i)
       else if i < 0 \<and> - i \<le> int (length xs) then Some (xs ! nat (int (length xs) + i))
       else Some 0)"
    using index_holds [OF assms(2), of i] by simp
  then show ?thesis using append_holds [OF assms, of d] pop shift count_holds [OF assms(2)] by blast
qed

text \<open>A heap with a list of two entries.\<close>

definition state0 :: akl_state where
  "state0 = \<lparr>st_next = 3, st_ents = Map.empty, st_lists = Map.empty,
     st_vals = [NIL_ADDR \<mapsto> NIL_VALUE, TRUE_ADDR \<mapsto> TRUE_VALUE], st_syms = Map.empty, st_vars = Map.empty,
     st_funs = Map.empty, st_labels = Map.empty, st_instrs = Map.empty, st_errs = Map.empty,
     st_ctxs = Map.empty, st_devs = Map.empty, st_udatas = Map.empty, ai_device = 0,
     ai_symbols = RB_NULL, ai_global_vars = RB_NULL, ai_utypes = [], ai_utypes_count = 0, ai_modules = 0, ai_context = 0,
     ai_stack = 0, ai_errors = 0, ai_config = 0, ai_interrupted = False, ai_recent_var = 0, st_out = []\<rparr>"

lemma state0_ok: "heap_ok state0"
  by (auto simp: heap_ok_def heap_live_def state0_def NIL_ADDR_def TRUE_ADDR_def split: if_splits)

definition list2 :: akl_state where
  "list2 = state0\<lparr>st_next := 6, st_lists := [3 \<mapsto> empty_list\<lparr>li_head := 4, li_last := 5, li_count := 2\<rparr>],
     st_ents := [4 \<mapsto> \<lparr>le_gc = AKL_GC_INIT_OBJ GC_LIST_ENTRY, le_next = 5, le_prev = 0, le_data = 1\<rparr>,
                 5 \<mapsto> \<lparr>le_gc = AKL_GC_INIT_OBJ GC_LIST_ENTRY, le_next = 0, le_prev = 4, le_data = 2\<rparr>]\<rparr>"

lemma list2_ok: "heap_ok list2" "is_list list2 3 [4, 5]"
proof -
  show "heap_ok list2"
    by (auto simp: heap_ok_def heap_live_def list2_def state0_def NIL_ADDR_def TRUE_ADDR_def split: if_splits)
  show "is_list list2 3 [4, 5]"
    by (simp add: is_list_def chain_def list2_def first0_def last0_def)
qed

lemma list2_holds: "holds list2 3 [1, 2]"
  using list2_ok(2) by (auto simp: holds_def edata_def list2_def intro!: exI [of _ "[4, 5]"])

theorem list_operations_refine_witness:
  "(\<exists>e s'. akl_list_append list2 3 7 = Some (e, s') \<and> holds s' 3 [1, 2, 7] \<and> heap_ok s') \<and>
    (\<exists>s'. akl_list_pop list2 3 = Some (2, s') \<and> holds s' 3 [1] \<and> heap_ok s') \<and>
    (\<exists>s'. akl_list_shift list2 3 = Some (1, s') \<and> holds s' 3 [2] \<and> heap_ok s') \<and>
    akl_list_count list2 3 = Some 2 \<and> akl_list_index list2 3 (- 2) = Some 1"
  using list_operations_refine [OF list2_ok(1) list2_holds, of 7 "- 2"]
  by (simp add: list2_def empty_list_def)

text \<open>
  C37. Unlinking an entry from the middle of a list removes that entry and no other, and
  leaves every list that shares no entry with it as it was.
\<close>

theorem list_remove_entry_exact:
  assumes "heap_ok s" "is_list s l (xs @ e # ys)" "is_list s k fs" "k \<noteq> l" "set fs \<inter> set (xs @ e # ys) = {}"
  shows "\<exists>s'. akl_list_remove_entry s l e = Some (e, s') \<and> is_list s' l (xs @ ys) \<and>
    map (edata s') (xs @ ys) = map (edata s) (xs @ ys) \<and> is_list s' k fs \<and> map (edata s') fs = map (edata s) fs"
proof -
  obtain s' where s': "akl_list_remove_entry s l e = Some (e, s')" "is_list s' l (xs @ ys)"
    "list_op (set (xs @ e # ys)) l s s'"
    using remove_entry_ok [OF assms(1,2)] by blast
  have "map (edata s') (xs @ e # ys) = map (edata s) (xs @ e # ys)" by (rule list_op_data [OF s'(3) assms(2)])
  then have "map (edata s') (xs @ ys) = map (edata s) (xs @ ys)" by simp
  then show ?thesis using s' list_op_frame [OF s'(3) assms(3-5)] by blast
qed

definition list22 :: akl_state where
  "list22 = list2\<lparr>st_next := 8, st_lists := (st_lists list2)(6 \<mapsto> empty_list)\<rparr>"

theorem list_remove_entry_exact_witness:
  "\<exists>s'. akl_list_remove_entry list22 3 4 = Some (4, s') \<and> is_list s' 3 ([] @ [5]) \<and>
    map (edata s') ([] @ [5]) = map (edata list22) ([] @ [5]) \<and> is_list s' 6 [] \<and>
    map (edata s') [] = map (edata list22) []"
proof (rule list_remove_entry_exact)
  show "heap_ok list22"
    by (auto simp: heap_ok_def heap_live_def list22_def list2_def state0_def NIL_ADDR_def TRUE_ADDR_def
        split: if_splits)
  show "is_list list22 3 ([] @ 4 # [5])" "is_list list22 6 []"
    by (simp_all add: is_list_def chain_def list22_def list2_def first0_def last0_def empty_list_def)
qed simp_all

text \<open>The search that \<open>akl_list_find\<close> stands for: the first entry that compares equal, and its index.\<close>

fun find_ref :: "akl_state \<Rightarrow> (addr \<Rightarrow> addr \<Rightarrow> int option) \<Rightarrow> addr \<Rightarrow> addr list \<Rightarrow> nat \<Rightarrow> (addr \<times> nat option) option" where
  "find_ref s cmp data [] i = Some (0, None)"
| "find_ref s cmp data (e # es) i =
     do { c \<leftarrow> cmp (edata s e) data; (if c = 0 then Some (e, Some i) else find_ref s cmp data es (Suc i)) }"

lemma find_ref_in: "find_ref s cmp data es i = Some (e, j) \<Longrightarrow> e = 0 \<or> e \<in> set es"
  by (induction es arbitrary: i) (auto simp: Option.bind_eq_Some_conv split: if_splits)

text \<open>
  C38. \<open>akl_list_find\<close> is the search for an entry only by luck. On a list that is not empty it gives
  what the search gives if and only if the first entry compares equal; otherwise it returns the
  first entry all the same (without an index), also when the element is further behind or not
  there at all. So \<open>akl_list_remove\<close>, whatever pointer but NULL it is asked to remove, takes exactly the first entry
  out: the list is then its rest, in order, and the lists that share no entry with it stay.
\<close>

theorem list_find_takes_first:
  assumes "heap_ok s" "is_list s l (e # es)" "cmp (edata s e) data = Some c" "data \<noteq> 0"
    "is_list s k fs" "k \<noteq> l" "set fs \<inter> set (e # es) = {}"
  shows "(akl_list_find s l cmp data = find_ref s cmp data (e # es) 0 \<longleftrightarrow> c = 0) \<and>
    (c \<noteq> 0 \<longrightarrow> akl_list_find s l cmp data = Some (e, None)) \<and>
    (\<exists>s'. akl_list_remove s l cmp data = Some (e, s') \<and> is_list s' l es \<and> map (edata s') es = map (edata s) es \<and>
       heap_ok s' \<and> is_list s' k fs \<and> map (edata s') fs = map (edata s) fs)"
proof -
  have f: "akl_list_find s l cmp data = Some (e, if c = 0 then Some 0 else None)"
    using list_find_eq [OF assms(2)] assms(3) by simp
  have "e \<noteq> 0" "e \<notin> set es"
    using is_list_ents [OF assms(2), of e] assms(2) by (auto simp: is_list_def chain_def)
  then have "find_ref s cmp data es 1 \<noteq> Some (e, None)" using find_ref_in [of s cmp data es 1 e None] by blast
  moreover have "find_ref s cmp data (e # es) 0 = (if c = 0 then Some (e, Some 0) else find_ref s cmp data es 1)"
    using assms(3) by simp
  ultimately have eq: "akl_list_find s l cmp data = find_ref s cmp data (e # es) 0 \<longleftrightarrow> c = 0"
    unfolding f by (cases "c = 0") auto
  have l: "is_list s l ([] @ e # es)" using assms(2) by simp
  obtain s' where s': "akl_list_remove_entry s l e = Some (e, s')" "is_list s' l ([] @ es)"
    "list_op (set ([] @ e # es)) l s s'" "heap_ok s'"
    using remove_entry_ok [OF assms(1) l] by blast
  have "map (edata s') ([] @ e # es) = map (edata s) ([] @ e # es)" by (rule list_op_data [OF s'(3) l])
  moreover have "akl_list_remove s l cmp data = Some (e, s')"
    using f s'(1) assms(4) by (simp add: akl_list_remove_def)
  moreover have "is_list s' k fs \<and> map (edata s') fs = map (edata s) fs"
    by (rule list_op_frame [OF s'(3) assms(5,6)]) (use assms(7) in simp)
  ultimately show ?thesis using f eq s'(2,4) by simp
qed

text \<open>Searching the second of two elements.\<close>

theorem list_find_takes_first_witness:
  "akl_list_find list22 3 (\<lambda>a b. Some (if a = b then 0 else 1)) 2 = Some (4, None) \<and>
    find_ref list22 (\<lambda>a b. Some (if a = b then 0 else 1)) 2 [4, 5] 0 = Some (5, Some 1) \<and>
    (\<exists>s'. akl_list_remove list22 3 (\<lambda>a b. Some (if a = b then 0 else 1)) 2 = Some (4, s') \<and> is_list s' 3 [5])"
proof -
  let ?cmp = "\<lambda>a b :: addr. Some (if a = b then 0 else 1 :: int)"
  have l: "is_list list22 3 [4, 5]" "is_list list22 6 []"
    by (simp_all add: is_list_def chain_def list22_def list2_def first0_def last0_def empty_list_def)
  have ok: "heap_ok list22"
    by (auto simp: heap_ok_def heap_live_def list22_def list2_def state0_def NIL_ADDR_def TRUE_ADDR_def split: if_splits)
  have d: "edata list22 4 = 1" "edata list22 5 = 2" by (simp_all add: edata_def list22_def list2_def)
  have c: "?cmp (edata list22 4) 2 = Some 1" by (simp add: d)
  have r: "find_ref list22 ?cmp 2 [4, 5] 0 = Some (5, Some 1)" by (simp add: d)
  have k: "(6 :: addr) \<noteq> 3" "(2 :: addr) \<noteq> 0" "set ([] :: addr list) \<inter> set [4, 5] = {}" by simp_all
  note t = list_find_takes_first [of list22 3 4 "[5]" ?cmp 2 1 6 "[]", OF ok l(1) c k(2) l(2) k(1,3)]
  have "(1 :: int) \<noteq> 0" by simp
  then have f: "akl_list_find list22 3 ?cmp 2 = Some (4, None)" using t by blast
  obtain s' where "akl_list_remove list22 3 ?cmp 2 = Some (4, s')" "is_list s' 3 [5]" using t by blast
  then show ?thesis using f r by blast
qed

end
