(* ===== verification/Symbols.thy ===== *)
theory Symbols
  imports DList
begin

text \<open>
  The symbols and the global variables: the symbol functions of \<open>src/types.c\<close>, and
  \<open>src/util.c\<close> with the declaration of built-in functions and the interpreter's features.
  Both tables are red-black trees of pointers, ordered by name through
  \<open>akl_rb_cmp_sym\<close> and \<open>akl_rb_cmp_var\<close> of \<open>src/aklisp.h\<close>.
\<close>

unbundle bit_operations_syntax

subsection \<open>Comparison by name\<close>

text \<open>The value 1 is the one \<open>AKL_ASSERT\<close> returns for a missing name.\<close>

definition akl_rb_cmp_sym :: "string option \<Rightarrow> string option \<Rightarrow> int" where
  "akl_rb_cmp_sym f s = (case (f, s) of (Some a, Some b) \<Rightarrow> strcasecmp a b | _ \<Rightarrow> 1)"

definition symbol_name :: "akl_state \<Rightarrow> addr \<Rightarrow> string option" where
  "symbol_name s x = (case st_syms s x of None \<Rightarrow> None | Some S \<Rightarrow> sb_name S)"

definition variable_name :: "akl_state \<Rightarrow> addr \<Rightarrow> string option" where
  "variable_name s v = (case st_vars s v of None \<Rightarrow> None | Some V \<Rightarrow> symbol_name s (vr_symbol V))"

definition akl_rb_cmp_var :: "akl_state \<Rightarrow> string option \<Rightarrow> addr \<Rightarrow> int" where
  "akl_rb_cmp_var s f v = akl_rb_cmp_sym f (variable_name s v)"

subsection \<open>Symbols\<close>

definition addr0 :: "addr option \<Rightarrow> addr" where
  "addr0 x = (case x of None \<Rightarrow> 0 | Some p \<Rightarrow> p)"

definition akl_get_symbol :: "akl_state \<Rightarrow> string option \<Rightarrow> addr" where
  "akl_get_symbol s name = addr0 (RB_FIND (\<lambda>x. akl_rb_cmp_sym name (symbol_name s x)) (ai_symbols s))"

definition set_symbol :: "akl_state \<Rightarrow> addr \<Rightarrow> akl_symbol \<Rightarrow> akl_state" where
  "set_symbol s p S = s\<lparr>st_syms := (st_syms s)(p \<mapsto> S)\<rparr>"

definition get_or_create_symbol :: "akl_state \<Rightarrow> string option \<Rightarrow> (addr \<times> akl_state) option" where
  "get_or_create_symbol s name =
     (let symb = akl_get_symbol s name in
      if symb \<noteq> 0 then Some (symb, s)
      else do {
        let symb = st_next s;
        let s = set_symbol (s\<lparr>st_next := symb + 1\<rparr>) symb \<lparr>sb_name = name, sb_is_cdef = True\<rparr>;
        (old, t) \<leftarrow> RB_INSERT (\<lambda>x. akl_rb_cmp_sym name (symbol_name s x)) symb (ai_symbols s);
        Some (symb, set_symbol (s\<lparr>ai_symbols := t\<rparr>) symb \<lparr>sb_name = None, sb_is_cdef = True\<rparr>)
      })"

definition akl_new_symbol :: "akl_state \<Rightarrow> string option \<Rightarrow> bool \<Rightarrow> (addr \<times> akl_state) option" where
  "akl_new_symbol s name is_cname =
     do {
       (symb, s) \<leftarrow> get_or_create_symbol s name;
       (if symb \<noteq> 0 \<and> symbol_name s symb = None
        then Some (symb, set_symbol s symb \<lparr>sb_name = name, sb_is_cdef = is_cname\<rparr>)
        else Some (symb, s))
     }"

text \<open>\<open>strdup(NULL)\<close> is undefined.\<close>

definition akl_get_or_create_symbol :: "akl_state \<Rightarrow> string option \<Rightarrow> (addr \<times> akl_state) option" where
  "akl_get_or_create_symbol s name =
     do {
       (symb, s) \<leftarrow> get_or_create_symbol s name;
       (if symb \<noteq> 0 \<and> symbol_name s symb = None
        then (if name = None then None
              else Some (symb, set_symbol s symb \<lparr>sb_name = name, sb_is_cdef = False\<rparr>))
        else Some (symb, s))
     }"

definition akl_new_symbol_value :: "akl_state \<Rightarrow> string option \<Rightarrow> bool \<Rightarrow> (addr \<times> akl_state) option" where
  "akl_new_symbol_value s name is_cname =
     do {
       let (val, s) = akl_new_value s;
       (symb, s) \<leftarrow> akl_new_symbol s name is_cname;
       akl_new_sym_value s symb
     }"

definition akl_new_variable_value :: "akl_state \<Rightarrow> string option \<Rightarrow> bool \<Rightarrow> (addr \<times> akl_state) option" where
  "akl_new_variable_value s name is_cname =
     do {
       (sval, s) \<leftarrow> akl_new_symbol_value s name is_cname;
       V \<leftarrow> st_vals s sval;
       Some (sval, s\<lparr>st_vals := (st_vals s)(sval \<mapsto> V\<lparr>va_type := VT_VARIABLE\<rparr>)\<rparr>)
     }"

text \<open>\<open>akl_to_symbol\<close>: NULL when there is no conversion; a new symbol value is quoted.\<close>

definition akl_to_symbol :: "akl_state \<Rightarrow> addr \<Rightarrow> (addr \<times> akl_state) option" where
  "akl_to_symbol s v =
     (if v = 0 then Some (0, s)
      else do {
        V \<leftarrow> st_vals s v;
        (if va_type V = VT_SYMBOL then Some (v, s)
         else do {
           name \<leftarrow> (case va_type V of
               VT_NUMBER \<Rightarrow> do { d \<leftarrow> get_number V; Some (Some (akl_num_to_str d)) }
             | VT_STRING \<Rightarrow> AKL_GET_STRING_VALUE s v
             | VT_NIL \<Rightarrow> Some (Some ''NIL'') | VT_TRUE \<Rightarrow> Some (Some ''T'') | _ \<Rightarrow> Some None);
           (if name = None then Some (0, s)
            else do {
              (val, s) \<leftarrow> akl_new_symbol_value s name False;
              X \<leftarrow> st_vals s val;
              Some (val, s\<lparr>st_vals := (st_vals s)(val \<mapsto> X\<lparr>va_quoted := True\<rparr>)\<rparr>)
            })
         })
      })"

subsection \<open>Global variables\<close>

definition set_global ::
    "akl_state \<Rightarrow> string option \<Rightarrow> bool \<Rightarrow> addr \<Rightarrow> addr \<Rightarrow> (addr \<times> akl_state) option" where
  "set_global s desc is_cdesc v var =
     (if var = 0 then Some (0, s)
      else do {
        let ovar = addr0 (RB_FIND (akl_rb_cmp_var s (variable_name s var)) (ai_global_vars s));
        s \<leftarrow> (if ovar \<noteq> 0 then Some s
              else do {
                (old, t) \<leftarrow> RB_INSERT (akl_rb_cmp_var s (variable_name s var)) var (ai_global_vars s);
                Some (s\<lparr>ai_global_vars := t\<rparr>)
              });
        let var = (if ovar \<noteq> 0 then ovar else var);
        V \<leftarrow> st_vars s var;
        Some (var, s\<lparr>st_vars := (st_vars s)(var \<mapsto>
          V\<lparr>vr_value := v, vr_desc := desc, vr_is_cdesc := is_cdesc\<rparr>)\<rparr>)
      })"

definition akl_set_global_var ::
    "akl_state \<Rightarrow> addr \<Rightarrow> string option \<Rightarrow> bool \<Rightarrow> addr \<Rightarrow> (addr \<times> akl_state) option" where
  "akl_set_global_var s symb desc is_cdesc v =
     (if symb = 0 \<or> v = 0 then None
      else let (var, s) = akl_new_var s symb in set_global s desc is_cdesc v var)"

definition akl_new_variable :: "akl_state \<Rightarrow> string option \<Rightarrow> bool \<Rightarrow> (addr \<times> akl_state) option" where
  "akl_new_variable s name is_cname =
     do { (symb, s) \<leftarrow> akl_new_symbol s name is_cname; Some (akl_new_var s symb) }"

definition akl_set_global_variable ::
    "akl_state \<Rightarrow> string option \<Rightarrow> bool \<Rightarrow> string option \<Rightarrow> bool \<Rightarrow> addr \<Rightarrow> (addr \<times> akl_state) option" where
  "akl_set_global_variable s name is_cname desc is_cdesc v =
     (if v = 0 then None
      else do { (var, s) \<leftarrow> akl_new_variable s name is_cname; set_global s desc is_cdesc v var })"

definition akl_get_global_variable :: "akl_state \<Rightarrow> string option \<Rightarrow> addr" where
  "akl_get_global_variable s name = addr0 (RB_FIND (akl_rb_cmp_var s name) (ai_global_vars s))"

definition akl_get_global_var :: "akl_state \<Rightarrow> addr \<Rightarrow> addr" where
  "akl_get_global_var s symb = akl_get_global_variable s (symbol_name s symb)"

definition akl_get_global_value :: "akl_state \<Rightarrow> string option \<Rightarrow> addr option" where
  "akl_get_global_value s name =
     (let v = akl_get_global_variable s name in if v = 0 then Some 0 else map_option vr_value (st_vars s v))"

definition akl_var_is_function :: "akl_state \<Rightarrow> addr \<Rightarrow> bool option" where
  "akl_var_is_function s var =
     (if var = 0 then Some False else do { V \<leftarrow> st_vars s var; is_type s (vr_value V) VT_FUNCTION })"

definition akl_var_to_function :: "akl_state \<Rightarrow> addr \<Rightarrow> addr option" where
  "akl_var_to_function s var =
     (if var = 0 then Some 0
      else do {
        V \<leftarrow> st_vars s var;
        b \<leftarrow> is_type s (vr_value V) VT_FUNCTION;
        (if \<not> b then Some 0
         else do { X \<leftarrow> st_vals s (vr_value V);
                   (case va_value X of V_func f \<Rightarrow> Some f | _ \<Rightarrow> None) })
      })"

text \<open>The callback of \<open>akl_do_on_all_vars\<close> changes the state; the order is the one of the names.\<close>

definition akl_do_on_all_vars :: "akl_state \<Rightarrow> (addr \<Rightarrow> akl_state \<Rightarrow> akl_state) \<Rightarrow> akl_state" where
  "akl_do_on_all_vars s fn = fold fn (RB_FOREACH (ai_global_vars s)) s"

definition akl_do_on_all_syms :: "akl_state \<Rightarrow> (addr \<Rightarrow> akl_state \<Rightarrow> akl_state) \<Rightarrow> akl_state" where
  "akl_do_on_all_syms s fn = fold fn (RB_FOREACH (ai_symbols s)) s"

subsection \<open>Declaring the functions written in C\<close>

definition akl_add_global_function :: "akl_state \<Rightarrow> string \<Rightarrow> string option \<Rightarrow> (addr \<times> akl_state) option" where
  "akl_add_global_function s name desc =
     do {
       let (f, s) = akl_new_function s;
       let (vf, s) = akl_new_function_value s f;
       (var, s) \<leftarrow> akl_set_global_variable s (Some name) True desc True vf;
       Some (f, s)
     }"

definition akl_add_global_fun ::
    "akl_state \<Rightarrow> akl_function_type \<Rightarrow> fn_body \<Rightarrow> string \<Rightarrow> string option \<Rightarrow> akl_state option" where
  "akl_add_global_fun s type body name desc =
     do {
       (f, s) \<leftarrow> akl_add_global_function s name desc;
       F \<leftarrow> st_funs s f;
       Some (s\<lparr>st_funs := (st_funs s)(f \<mapsto> F\<lparr>fn_type := type, fn_body := body\<rparr>)\<rparr>)
     }"

definition akl_add_global_cfun :: "akl_state \<Rightarrow> akl_cfun \<Rightarrow> string \<Rightarrow> string option \<Rightarrow> akl_state option" where
  "akl_add_global_cfun s fn name desc = akl_add_global_fun s FUNC_CFUN (B_cfun fn) name desc"

definition akl_add_global_sfun :: "akl_state \<Rightarrow> akl_sfun \<Rightarrow> string \<Rightarrow> string option \<Rightarrow> akl_state option" where
  "akl_add_global_sfun s fn name desc = akl_add_global_fun s FUNC_SPECIAL (B_sfun fn) name desc"

datatype akl_fun_decl = Decl_cfun akl_cfun string "string option" | Decl_sfun akl_sfun string "string option"

fun akl_declare_functions :: "akl_state \<Rightarrow> akl_fun_decl list \<Rightarrow> akl_state option" where
  "akl_declare_functions s [] = Some s"
| "akl_declare_functions s (Decl_cfun fn name desc # ds) =
     do { s \<leftarrow> akl_add_global_cfun s fn name desc; akl_declare_functions s ds }"
| "akl_declare_functions s (Decl_sfun fn name desc # ds) =
     do { s \<leftarrow> akl_add_global_sfun s fn name desc; akl_declare_functions s ds }"

subsection \<open>Features\<close>

definition AKL_IS_FEATURE_ON :: "akl_state \<Rightarrow> 64 word \<Rightarrow> bool" where
  "AKL_IS_FEATURE_ON s feature \<longleftrightarrow> ai_config s AND feature \<noteq> 0"

definition akl_features :: "(string \<times> 64 word \<times> string) list" where
  "akl_features =
     [(''use-colors'', AKL_CFG_USE_COLORS, ''Use colorful prompt''),
      (''interactive'', AKL_CFG_INTERACTIVE, ''Enable interactive prompt''),
      (''use-gc'', AKL_CFG_USE_GC, ''Enable Garbage Collector''),
      (''debug-instr'', AKL_DEBUG_INSTR, ''Debug instructions''),
      (''debug-stack'', AKL_DEBUG_STACK, ''Debug stack'')]"

definition akl_set_feature_to :: "akl_state \<Rightarrow> string \<Rightarrow> bool \<Rightarrow> bool \<times> akl_state" where
  "akl_set_feature_to s feature to =
     (if feature = [] then (False, s)
      else case find (\<lambda>(n, b, d). strcmp n feature = 0) akl_features of
        None \<Rightarrow> (False, s)
      | Some (n, b, d) \<Rightarrow>
          (True, s\<lparr>ai_config := (if to then ai_config s OR b else ai_config s AND NOT b)\<rparr>))"

definition akl_set_feature :: "akl_state \<Rightarrow> string option \<Rightarrow> bool \<times> akl_state" where
  "akl_set_feature s feature =
     (case feature of None \<Rightarrow> (False, s)
      | Some f \<Rightarrow> if take 3 f = ''no-'' then akl_set_feature_to s (drop 3 f) False
                  else akl_set_feature_to s f True)"

subsection \<open>The tables as tables\<close>

interpretation by_name: rb_order "\<lambda>x. case_key (nm x)" case_key "\<lambda>k x. strcasecmp k (nm x)"
  for nm :: "addr \<Rightarrow> string"
  by unfold_locales (simp_all add: strcasecmp_less strcasecmp_greater)

lemma RB_FIND_cong: "(\<And>x. x \<in> set (rb_inorder t) \<Longrightarrow> cmp x = cmp' x) \<Longrightarrow> RB_FIND cmp t = RB_FIND cmp' t"
  by (induction t) auto

lemma rb_insert_loop_cong:
  "(\<And>x. x \<in> set (rb_inorder t) \<Longrightarrow> cmp x = cmp' x) \<Longrightarrow>
   rb_insert_loop cmp e t path = rb_insert_loop cmp' e t path"
  by (induction t arbitrary: path) auto

lemma RB_INSERT_cong:
  "(\<And>x. x \<in> set (rb_inorder t) \<Longrightarrow> cmp x = cmp' x) \<Longrightarrow> RB_INSERT cmp e t = RB_INSERT cmp' e t"
  unfolding RB_INSERT_def by (rule rb_insert_loop_cong)

text \<open>
  A tree of pointers whose names are given by \<open>nm\<close>: it is a red-black tree in the order of
  the names, and its pointers are allocated.
\<close>

definition name_tree :: "(addr \<Rightarrow> string option) \<Rightarrow> addr \<Rightarrow> addr rb_tree \<Rightarrow> bool" where
  "name_tree nm bound t \<longleftrightarrow> rb_shape t \<and> by_name.ordered (\<lambda>x. the (nm x)) t \<and>
     (\<forall>x\<in>set (rb_inorder t). x \<noteq> 0 \<and> x < bound \<and> nm x \<noteq> None)"

definition tree_get :: "(addr \<Rightarrow> string option) \<Rightarrow> addr rb_tree \<Rightarrow> string \<Rightarrow> addr" where
  "tree_get nm t n = addr0 (RB_FIND (\<lambda>x. akl_rb_cmp_sym (Some n) (nm x)) t)"

lemma cmp_sym_Some: "name_tree nm b t \<Longrightarrow> x \<in> set (rb_inorder t) \<Longrightarrow>
    akl_rb_cmp_sym (Some n) (nm x) = strcasecmp n (the (nm x))"
  by (auto simp: name_tree_def akl_rb_cmp_sym_def)

lemma tree_find:
  assumes "name_tree nm b t"
  shows "RB_FIND (\<lambda>x. akl_rb_cmp_sym (Some n) (nm x)) t = RB_FIND (\<lambda>x. strcasecmp n (the (nm x))) t"
  by (rule RB_FIND_cong) (rule cmp_sym_Some [OF assms])

lemma tree_get_iff:
  assumes "name_tree nm b t" "p \<noteq> 0"
  shows "tree_get nm t n = p \<longleftrightarrow> p \<in> set (rb_inorder t) \<and> case_key (the (nm p)) = case_key n"
proof -
  have o: "by_name.ordered (\<lambda>x. the (nm x)) t" using assms(1) by (simp add: name_tree_def)
  show ?thesis
    using by_name.find_iff [OF o, of n p] assms(2)
    unfolding tree_get_def tree_find [OF assms(1)] addr0_def by (auto split: option.splits)
qed

lemma tree_get_0:
  assumes "name_tree nm b t"
  shows "tree_get nm t n = 0 \<longleftrightarrow> RB_FIND (\<lambda>x. akl_rb_cmp_sym (Some n) (nm x)) t = None"
proof -
  have o: "by_name.ordered (\<lambda>x. the (nm x)) t" using assms(1) by (simp add: name_tree_def)
  have "p \<noteq> 0" if "RB_FIND (\<lambda>x. strcasecmp n (the (nm x))) t = Some p" for p
    using by_name.find_iff [OF o, of n p] that assms by (auto simp: name_tree_def)
  then show ?thesis unfolding tree_get_def tree_find [OF assms] addr0_def by (auto split: option.splits)
qed

text \<open>Inserting a new pointer under a name the tree does not have.\<close>

lemma tree_insert:
  assumes "name_tree nm b t" "tree_get nm t n = 0" "nm p = Some n" "p \<noteq> 0" "p < b"
  obtains t' where "RB_INSERT (\<lambda>x. akl_rb_cmp_sym (Some n) (nm x)) p t = Some (None, t')" "name_tree nm b t'"
    "set (rb_inorder t') = insert p (set (rb_inorder t))"
    "\<And>m. tree_get nm t' m = (if strcasecmp m n = 0 then p else tree_get nm t m)"
proof -
  have o: "by_name.ordered (\<lambda>x. the (nm x)) t" and sh: "rb_shape t"
    using assms(1) by (simp_all add: name_tree_def)
  have none: "RB_FIND (\<lambda>x. strcasecmp n (the (nm x))) t = None"
    using assms(2) tree_get_0 [OF assms(1)] tree_find [OF assms(1)] by simp
  have k: "case_key (the (nm p)) = case_key n" using assms(3) by simp
  obtain t' where t': "RB_INSERT (\<lambda>x. strcasecmp n (the (nm x))) p t = Some (None, t')" "rb_shape t'"
    "by_name.ordered (\<lambda>x. the (nm x)) t'" "set (rb_inorder t') = insert p (set (rb_inorder t))"
    using by_name.insert_ok [OF o sh k] none by (auto simp: by_name.inserted_def)
  have ins: "RB_INSERT (\<lambda>x. akl_rb_cmp_sym (Some n) (nm x)) p t = Some (None, t')"
    unfolding t'(1) [symmetric] by (rule RB_INSERT_cong) (rule cmp_sym_Some [OF assms(1)])
  have nt: "name_tree nm b t'" using t'(2-4) assms by (auto simp: name_tree_def)
  have "tree_get nm t' m = (if strcasecmp m n = 0 then p else tree_get nm t m)" for m
  proof (cases "strcasecmp m n = 0")
    case True
    then show ?thesis using tree_get_iff [OF nt assms(4), of m] t'(4) k by (simp add: strcasecmp_eq)
  next
    case False
    then have km: "case_key (the (nm p)) \<noteq> case_key m" using k by (simp add: strcasecmp_eq)
    have "tree_get nm t' m = q \<longleftrightarrow> tree_get nm t m = q" if "q \<noteq> 0" for q
      using tree_get_iff [OF nt that, of m] tree_get_iff [OF assms(1) that, of m] t'(4) km by auto
    then have "tree_get nm t' m = tree_get nm t m" by metis
    then show ?thesis using False by simp
  qed
  then show thesis using that [OF ins nt t'(4)] by blast
qed

lemma name_tree_cong:
  assumes "name_tree nm b t" "\<And>x. x \<in> set (rb_inorder t) \<Longrightarrow> nm' x = nm x" "b \<le> b'"
  shows "name_tree nm' b' t" "tree_get nm' t n = tree_get nm t n"
proof -
  have "sorted_wrt (\<lambda>x y. case_key (the (nm x)) < case_key (the (nm y))) (rb_inorder t)"
    using assms(1) by (simp add: name_tree_def by_name.ordered_def)
  then have "sorted_wrt (\<lambda>x y. case_key (the (nm' x)) < case_key (the (nm' y))) (rb_inorder t)"
    by (rule sorted_wrt_mono_rel [rotated]) (simp add: assms(2))
  then show "name_tree nm' b' t"
    using assms by (auto simp: name_tree_def by_name.ordered_def)
  show "tree_get nm' t n = tree_get nm t n"
    unfolding tree_get_def by (rule arg_cong [where f = addr0], rule RB_FIND_cong) (simp add: assms(2))
qed

subsection \<open>Symbols are interned\<close>

definition symbols_ok :: "akl_state \<Rightarrow> bool" where
  "symbols_ok s \<longleftrightarrow> 0 < st_next s \<and> name_tree (symbol_name s) (st_next s) (ai_symbols s)"

lemma get_symbol_tree: "akl_get_symbol s (Some n) = tree_get (symbol_name s) (ai_symbols s) n"
  by (simp add: akl_get_symbol_def tree_get_def)

lemma symbol_name_set: "symbol_name (set_symbol s p S) x = (if x = p then sb_name S else symbol_name s x)"
  by (simp add: symbol_name_def set_symbol_def)

lemma symbol_name_upd [simp]:
  "symbol_name (s\<lparr>st_next := n\<rparr>) x = symbol_name s x"
  "symbol_name (s\<lparr>st_vars := vs\<rparr>) x = symbol_name s x"
  "symbol_name (s\<lparr>st_next := n, st_vars := vs\<rparr>) x = symbol_name s x"
  "symbol_name (s\<lparr>ai_global_vars := t\<rparr>) x = symbol_name s x"
  "symbol_name (s\<lparr>ai_symbols := t\<rparr>) x = symbol_name s x"
  by (simp_all add: symbol_name_def)

lemma set_symbol_simps [simp]:
  "st_next (set_symbol s p S) = st_next s" "ai_symbols (set_symbol s p S) = ai_symbols s"
  by (simp_all add: set_symbol_def)

text \<open>The symbol of a new name, once it has its name.\<close>

lemma get_or_create_new:
  assumes ok: "symbols_ok s" and new: "akl_get_symbol s (Some n) = 0"
  shows "\<exists>s'. get_or_create_symbol s (Some n) = Some (st_next s, s') \<and> symbol_name s' (st_next s) = None \<and>
    (\<forall>c. let s2 = set_symbol s' (st_next s) \<lparr>sb_name = Some n, sb_is_cdef = c\<rparr> in
      symbols_ok s2 \<and> st_next s2 = Suc (st_next s) \<and>
      (\<forall>m. akl_get_symbol s2 (Some m) = (if strcasecmp m n = 0 then st_next s else akl_get_symbol s (Some m))) \<and>
      (\<forall>x. x \<noteq> st_next s \<longrightarrow> symbol_name s2 x = symbol_name s x))"
proof -
  let ?p = "st_next s"
  define s1 where "s1 = set_symbol (s\<lparr>st_next := ?p + 1\<rparr>) ?p \<lparr>sb_name = Some n, sb_is_cdef = True\<rparr>"
  have nm1: "symbol_name s1 x = (if x = ?p then Some n else symbol_name s x)" for x
    by (simp add: s1_def symbol_name_def set_symbol_def)
  have old: "x \<noteq> ?p" if "x \<in> set (rb_inorder (ai_symbols s))" for x
    using ok that by (auto simp: symbols_ok_def name_tree_def)
  have nt1: "name_tree (symbol_name s1) (Suc ?p) (ai_symbols s)"
    "tree_get (symbol_name s1) (ai_symbols s) m = tree_get (symbol_name s) (ai_symbols s) m" for m
    using name_tree_cong [of "symbol_name s" ?p "ai_symbols s" "symbol_name s1" "Suc ?p"] ok old nm1
    by (auto simp: symbols_ok_def)
  obtain t where t: "RB_INSERT (\<lambda>x. akl_rb_cmp_sym (Some n) (symbol_name s1 x)) ?p (ai_symbols s) = Some (None, t)"
    "name_tree (symbol_name s1) (Suc ?p) t"
    "\<And>m. tree_get (symbol_name s1) t m = (if strcasecmp m n = 0 then ?p else tree_get (symbol_name s1) (ai_symbols s) m)"
  proof (rule tree_insert [OF nt1(1), of n ?p])
    show "tree_get (symbol_name s1) (ai_symbols s) n = 0" using new by (simp add: nt1(2) get_symbol_tree)
    show "?p \<noteq> 0" using ok by (simp add: symbols_ok_def)
  qed (auto simp: nm1)
  define s' where "s' = set_symbol (s1\<lparr>ai_symbols := t\<rparr>) ?p \<lparr>sb_name = None, sb_is_cdef = True\<rparr>"
  have run: "get_or_create_symbol s (Some n) = Some (?p, s')"
    using new t(1) by (simp add: get_or_create_symbol_def Let_def s'_def s1_def)
  have "let s2 = set_symbol s' ?p \<lparr>sb_name = Some n, sb_is_cdef = c\<rparr> in
      symbols_ok s2 \<and> st_next s2 = Suc ?p \<and>
      (\<forall>m. akl_get_symbol s2 (Some m) = (if strcasecmp m n = 0 then ?p else akl_get_symbol s (Some m))) \<and>
      (\<forall>x. x \<noteq> ?p \<longrightarrow> symbol_name s2 x = symbol_name s x)" for c
  proof -
    define s2 where "s2 = set_symbol s' ?p \<lparr>sb_name = Some n, sb_is_cdef = c\<rparr>"
    have nm2: "symbol_name s2 = symbol_name s1"
      by (rule ext) (simp add: s2_def s'_def symbol_name_set s1_def)
    have "ai_symbols s2 = t" "st_next s2 = Suc ?p" by (simp_all add: s2_def s'_def s1_def)
    then have "symbols_ok s2 \<and> st_next s2 = Suc ?p \<and>
      (\<forall>m. akl_get_symbol s2 (Some m) = (if strcasecmp m n = 0 then ?p else akl_get_symbol s (Some m))) \<and>
      (\<forall>x. x \<noteq> ?p \<longrightarrow> symbol_name s2 x = symbol_name s x)"
      using t(2,3) nt1(2) nm1 by (simp add: symbols_ok_def nm2 get_symbol_tree)
    then show ?thesis unfolding Let_def s2_def .
  qed
  moreover have "symbol_name s' ?p = None" by (simp add: s'_def symbol_name_set)
  ultimately show ?thesis using run by blast
qed

lemma get_symbol_found:
  assumes "symbols_ok s" "akl_get_symbol s (Some n) = p" "p \<noteq> 0"
  shows "symbol_name s p \<noteq> None \<and> case_key (the (symbol_name s p)) = case_key n"
  using assms tree_get_iff [of "symbol_name s" "st_next s" "ai_symbols s" p n]
  by (auto simp: symbols_ok_def get_symbol_tree name_tree_def)

definition symbol_spec :: "akl_state \<Rightarrow> string \<Rightarrow> (addr \<times> akl_state) option \<Rightarrow> bool" where
  "symbol_spec s n r \<longleftrightarrow> (\<exists>p s'. r = Some (p, s') \<and> p \<noteq> 0 \<and> symbols_ok s' \<and>
     (\<forall>m. akl_get_symbol s' (Some m) = (if strcasecmp m n = 0 then p else akl_get_symbol s (Some m))) \<and>
     case_key (the (symbol_name s' p)) = case_key n \<and> symbol_name s' p \<noteq> None \<and>
     (\<forall>x. symbol_name s x \<noteq> None \<longrightarrow> x < st_next s \<longrightarrow> symbol_name s' x = symbol_name s x))"

lemma get_symbol_same:
  assumes "symbols_ok s" "strcasecmp m n = 0" shows "akl_get_symbol s (Some m) = akl_get_symbol s (Some n)"
proof -
  have nt: "name_tree (symbol_name s) (st_next s) (ai_symbols s)" using assms(1) by (simp add: symbols_ok_def)
  have "tree_get (symbol_name s) (ai_symbols s) m = q \<longleftrightarrow> tree_get (symbol_name s) (ai_symbols s) n = q"
    if "q \<noteq> 0" for q
    using tree_get_iff [OF nt that] assms(2) by (simp add: strcasecmp_eq)
  then show ?thesis unfolding get_symbol_tree by metis
qed

lemma symbol_creation:
  assumes ok: "symbols_ok s"
  shows "symbol_spec s n (akl_get_or_create_symbol s (Some n))" "symbol_spec s n (akl_new_symbol s (Some n) c)"
proof -
  let ?g = "akl_get_symbol s (Some n)"
  have "symbol_spec s n (akl_get_or_create_symbol s (Some n)) \<and> symbol_spec s n (akl_new_symbol s (Some n) c)"
  proof (cases "?g = 0")
    case False
    have f: "symbol_name s ?g \<noteq> None" "case_key (the (symbol_name s ?g)) = case_key n"
      using get_symbol_found [OF ok refl False] by auto
    have "get_or_create_symbol s (Some n) = Some (?g, s)" using False by (simp add: get_or_create_symbol_def Let_def)
    then have "akl_get_or_create_symbol s (Some n) = Some (?g, s)" "akl_new_symbol s (Some n) c = Some (?g, s)"
      using f(1) by (auto simp: akl_get_or_create_symbol_def akl_new_symbol_def)
    then show ?thesis using f False ok get_symbol_same [OF ok] by (simp add: symbol_spec_def)
  next
    case True
    have p0: "st_next s \<noteq> 0" using ok by (simp add: symbols_ok_def)
    obtain s' where s': "get_or_create_symbol s (Some n) = Some (st_next s, s')" "symbol_name s' (st_next s) = None"
      "\<And>c. let s2 = set_symbol s' (st_next s) \<lparr>sb_name = Some n, sb_is_cdef = c\<rparr> in
        symbols_ok s2 \<and> st_next s2 = Suc (st_next s) \<and>
        (\<forall>m. akl_get_symbol s2 (Some m) = (if strcasecmp m n = 0 then st_next s else akl_get_symbol s (Some m))) \<and>
        (\<forall>x. x \<noteq> st_next s \<longrightarrow> symbol_name s2 x = symbol_name s x)"
      using get_or_create_new [OF ok True] by blast
    have "symbol_spec s n (Some (st_next s, set_symbol s' (st_next s) \<lparr>sb_name = Some n, sb_is_cdef = c\<rparr>))" for c
      using s'(3) [of c] p0 by (auto simp: symbol_spec_def Let_def symbol_name_set)
    then show ?thesis using s'(1,2) p0 by (simp add: akl_get_or_create_symbol_def akl_new_symbol_def)
  qed
  then show "symbol_spec s n (akl_get_or_create_symbol s (Some n))" "symbol_spec s n (akl_new_symbol s (Some n) c)"
    by blast+
qed

subsection \<open>Variables are tables\<close>

definition vars_ok :: "akl_state \<Rightarrow> bool" where
  "vars_ok s \<longleftrightarrow> 0 < st_next s \<and> name_tree (variable_name s) (st_next s) (ai_global_vars s) \<and>
     (\<forall>v\<in>set (rb_inorder (ai_global_vars s)). st_vars s v \<noteq> None)"

lemma get_variable_tree: "akl_get_global_variable s (Some n) = tree_get (variable_name s) (ai_global_vars s) n"
  by (simp add: akl_get_global_variable_def tree_get_def akl_rb_cmp_var_def [abs_def])

lemma variable_name_upd:
  "variable_name (s\<lparr>ai_global_vars := t\<rparr>) x = variable_name s x"
  "st_vars s v = Some V \<Longrightarrow> vr_symbol V' = vr_symbol V \<Longrightarrow>
     variable_name (s\<lparr>st_vars := (st_vars s)(v \<mapsto> V')\<rparr>) x = variable_name s x"
  by (auto simp: variable_name_def split: option.splits)

text \<open>Writing the fields of a variable other than its symbol keeps the table.\<close>

lemma vars_ok_write:
  assumes "vars_ok s" "st_vars s v = Some V" "vr_symbol V' = vr_symbol V"
  shows "vars_ok (s\<lparr>st_vars := (st_vars s)(v \<mapsto> V')\<rparr>)"
    "akl_get_global_variable (s\<lparr>st_vars := (st_vars s)(v \<mapsto> V')\<rparr>) (Some m) = akl_get_global_variable s (Some m)"
proof -
  let ?s = "s\<lparr>st_vars := (st_vars s)(v \<mapsto> V')\<rparr>"
  have nm: "variable_name ?s = variable_name s" by (rule ext) (rule variable_name_upd(2) [OF assms(2,3)])
  show "vars_ok ?s" using assms(1) unfolding vars_ok_def nm by simp
  show "akl_get_global_variable ?s (Some m) = akl_get_global_variable s (Some m)"
    unfolding get_variable_tree nm by simp
qed

lemma set_global_var_spec:
  assumes ok: "vars_ok s" and nm: "symbol_name s symb = Some n" and "symb \<noteq> 0" "v \<noteq> 0"
  shows "\<exists>var s'. akl_set_global_var s symb desc c v = Some (var, s') \<and> var \<noteq> 0 \<and> vars_ok s' \<and>
    (akl_get_global_variable s (Some n) \<noteq> 0 \<longrightarrow> var = akl_get_global_variable s (Some n)) \<and>
    (\<forall>m. akl_get_global_value s' (Some m) = (if strcasecmp m n = 0 then Some v else akl_get_global_value s (Some m)))"
proof -
  let ?p = "st_next s"
  define W where "W = \<lparr>vr_gc = AKL_GC_INIT_OBJ GC_VARIABLE, vr_symbol = symb, vr_value = 0, vr_lex_info = None,
          vr_desc = None, vr_is_cdesc = False, vr_is_const = False\<rparr>"
  define s1 where "s1 = s\<lparr>st_next := ?p + 1, st_vars := (st_vars s)(?p \<mapsto> W)\<rparr>"
  have new: "akl_new_var s symb = (?p, s1)" by (simp add: akl_new_var_def Let_def s1_def W_def)
  have p0: "?p \<noteq> 0" using ok by (simp add: vars_ok_def)
  have vn: "variable_name s1 x = (if x = ?p then Some n else variable_name s x)" for x
    using nm by (simp add: variable_name_def s1_def W_def split: option.split)
  have old: "x \<noteq> ?p" if "x \<in> set (rb_inorder (ai_global_vars s))" for x
    using ok that by (auto simp: vars_ok_def name_tree_def)
  have nt1: "name_tree (variable_name s1) (Suc ?p) (ai_global_vars s)"
    "tree_get (variable_name s1) (ai_global_vars s) m = tree_get (variable_name s) (ai_global_vars s) m" for m
    using name_tree_cong [of "variable_name s" ?p "ai_global_vars s" "variable_name s1" "Suc ?p"] ok old vn
    by (auto simp: vars_ok_def)
  have vo1: "vars_ok s1"
    using nt1(1) ok by (auto simp: vars_ok_def s1_def)
  have gv1: "akl_get_global_variable s1 (Some m) = akl_get_global_variable s (Some m)" for m
    unfolding get_variable_tree using nt1(2) [of m] by (simp add: s1_def)
  have val1: "akl_get_global_value s1 (Some m) = akl_get_global_value s (Some m)" for m
  proof -
    have "akl_get_global_variable s (Some m) \<noteq> ?p"
      using tree_get_iff [of "variable_name s" ?p "ai_global_vars s" ?p m] ok p0 old
      by (auto simp: vars_ok_def get_variable_tree)
    then show ?thesis using gv1 [of m] by (simp add: akl_get_global_value_def Let_def s1_def)
  qed
  have wr: "vars_ok (s2\<lparr>st_vars := (st_vars s2)(var \<mapsto> V\<lparr>vr_value := v, vr_desc := desc, vr_is_cdesc := c\<rparr>)\<rparr>) \<and>
      (\<forall>m. akl_get_global_value (s2\<lparr>st_vars := (st_vars s2)(var \<mapsto>
            V\<lparr>vr_value := v, vr_desc := desc, vr_is_cdesc := c\<rparr>)\<rparr>) (Some m) =
          (if strcasecmp m n = 0 then Some v else akl_get_global_value s (Some m)))"
    if s2: "vars_ok s2" "st_vars s2 = st_vars s1" "st_vars s2 var = Some V" "var \<noteq> 0"
      "\<And>m. akl_get_global_variable s2 (Some m) = (if strcasecmp m n = 0 then var else akl_get_global_variable s (Some m))"
      "\<And>m. strcasecmp m n \<noteq> 0 \<Longrightarrow> akl_get_global_variable s (Some m) \<noteq> var" for s2 var V
  proof -
    let ?s3 = "s2\<lparr>st_vars := (st_vars s2)(var \<mapsto> V\<lparr>vr_value := v, vr_desc := desc, vr_is_cdesc := c\<rparr>)\<rparr>"
    have w: "vars_ok ?s3" "akl_get_global_variable ?s3 (Some m) = akl_get_global_variable s2 (Some m)" for m
      using vars_ok_write [OF s2(1,3)] by simp_all
    have "akl_get_global_value ?s3 (Some m) = (if strcasecmp m n = 0 then Some v else akl_get_global_value s (Some m))" for m
    proof (cases "strcasecmp m n = 0")
      case True
      then show ?thesis using w(2) [of m] s2(4,5) by (simp add: akl_get_global_value_def Let_def)
    next
      case False
      then have "akl_get_global_value ?s3 (Some m) = akl_get_global_value s1 (Some m)"
        using w(2) [of m] s2(2,5,6) gv1 [of m] by (simp add: akl_get_global_value_def Let_def)
      then show ?thesis using False val1 by simp
    qed
    then show ?thesis using w(1) by blast
  qed
  let ?g = "akl_get_global_variable s (Some n)"
  have find: "addr0 (RB_FIND (akl_rb_cmp_var s1 (variable_name s1 ?p)) (ai_global_vars s1)) = ?g"
    using gv1 [of n] vn [of ?p] by (simp add: akl_get_global_variable_def)
  have cmp: "akl_rb_cmp_var s1 (Some n) = (\<lambda>x. akl_rb_cmp_sym (Some n) (variable_name s1 x))"
    by (rule ext) (simp add: akl_rb_cmp_var_def)
  have same: "akl_get_global_variable s (Some m) = ?g" if mn: "strcasecmp m n = 0" for m
  proof -
    have nt: "name_tree (variable_name s) ?p (ai_global_vars s)" using ok by (simp add: vars_ok_def)
    have "tree_get (variable_name s) (ai_global_vars s) m = q \<longleftrightarrow> tree_get (variable_name s) (ai_global_vars s) n = q"
      if "q \<noteq> 0" for q
      using tree_get_iff [OF nt that] mn by (simp add: strcasecmp_eq)
    then show ?thesis unfolding get_variable_tree by metis
  qed
  have diff: "akl_get_global_variable s (Some m) \<noteq> q"
    if "q \<noteq> 0" "strcasecmp m n \<noteq> 0" "q = ?g \<or> q = ?p" for m q
  proof
    assume eq: "akl_get_global_variable s (Some m) = q"
    have nt: "name_tree (variable_name s) ?p (ai_global_vars s)" using ok by (simp add: vars_ok_def)
    have "q \<in> set (rb_inorder (ai_global_vars s)) \<and> case_key (the (variable_name s q)) = case_key m"
      using tree_get_iff [OF nt that(1), of m] eq by (simp add: get_variable_tree)
    moreover have "q = ?g" using calculation old that(3) by auto
    ultimately show False
      using tree_get_iff [OF nt that(1), of n] that(2) by (simp add: get_variable_tree strcasecmp_eq)
  qed
  show ?thesis
  proof (cases "?g = 0")
    case False
    have "?g \<in> set (rb_inorder (ai_global_vars s))"
      using tree_get_iff [of "variable_name s" ?p "ai_global_vars s" ?g n] ok False
      by (simp add: vars_ok_def get_variable_tree)
    then obtain V where V: "st_vars s1 ?g = Some V" using vo1 by (auto simp: vars_ok_def s1_def)
    have "akl_set_global_var s symb desc c v = Some (?g,
        s1\<lparr>st_vars := (st_vars s1)(?g \<mapsto> V\<lparr>vr_value := v, vr_desc := desc, vr_is_cdesc := c\<rparr>)\<rparr>)"
      using assms(3,4) new p0 find False V by (simp add: akl_set_global_var_def set_global_def Let_def)
    moreover have "akl_get_global_variable s1 (Some m) =
        (if strcasecmp m n = 0 then ?g else akl_get_global_variable s (Some m))" for m
      using gv1 [of m] same [of m] by (cases "strcasecmp m n = 0") (simp_all only: if_True if_False simp_thms)
    moreover have "akl_get_global_variable s (Some m) \<noteq> ?g" if "strcasecmp m n \<noteq> 0" for m
      using diff [OF False that] by simp
    ultimately show ?thesis using wr [OF vo1 refl V False] False by blast
  next
    case True
    obtain t where t: "RB_INSERT (akl_rb_cmp_var s1 (Some n)) ?p (ai_global_vars s) = Some (None, t)"
      "name_tree (variable_name s1) (Suc ?p) t"
      "set (rb_inorder t) = insert ?p (set (rb_inorder (ai_global_vars s)))"
      "\<And>m. tree_get (variable_name s1) t m =
        (if strcasecmp m n = 0 then ?p else tree_get (variable_name s1) (ai_global_vars s) m)"
      unfolding cmp
    proof (rule tree_insert [OF nt1(1), of n ?p])
      show "tree_get (variable_name s1) (ai_global_vars s) n = 0"
        using True by (simp add: nt1(2) get_variable_tree)
    qed (use p0 in \<open>auto simp: vn\<close>)
    define s2 where "s2 = s1\<lparr>ai_global_vars := t\<rparr>"
    have vn2: "variable_name s2 = variable_name s1" by (rule ext) (simp add: s2_def variable_name_upd)
    have vo2: "vars_ok s2"
      using t(2,3) vo1 unfolding vars_ok_def vn2 by (auto simp: s2_def s1_def)
    have gv2: "akl_get_global_variable s2 (Some m) = (if strcasecmp m n = 0 then ?p else akl_get_global_variable s (Some m))" for m
      unfolding get_variable_tree vn2 using t(4) [of m] nt1(2) [of m] by (simp add: s2_def)
    have W2: "st_vars s2 ?p = Some W" by (simp add: s2_def s1_def)
    have s1v: "ai_global_vars s1 = ai_global_vars s" by (simp add: s1_def)
    have "akl_set_global_var s symb desc c v = Some (?p,
        s2\<lparr>st_vars := (st_vars s2)(?p \<mapsto> W\<lparr>vr_value := v, vr_desc := desc, vr_is_cdesc := c\<rparr>)\<rparr>)"
      using assms(3,4) new p0 find True t(1) vn [of ?p] W2 s1v
      by (simp add: akl_set_global_var_def set_global_def Let_def s2_def del: fun_upd_apply)
    moreover have "akl_get_global_variable s (Some m) \<noteq> ?p" if "strcasecmp m n \<noteq> 0" for m
      using diff [OF p0 that] by simp
    moreover have "st_vars s2 = st_vars s1" by (simp add: s2_def)
    ultimately show ?thesis using wr [OF vo2 _ W2 p0 gv2] p0 True by blast
  qed
qed

subsection \<open>Properties\<close>

lemma state0_tables: "symbols_ok state0" "vars_ok state0"
  by (simp_all add: symbols_ok_def vars_ok_def name_tree_def state0_def rb_shape_def by_name.ordered_def)

text \<open>
  C14. Symbols are interned. Asking for the symbols of two names one after the other always
  gives two symbols, the pointers are equal exactly when the names are equal regardless of
  case, and both names then look up to the pointers they got.
\<close>

theorem symbol_interning:
  assumes "symbols_ok s"
  shows "\<exists>p s1 q s2. akl_get_or_create_symbol s (Some n) = Some (p, s1) \<and>
    akl_get_or_create_symbol s1 (Some m) = Some (q, s2) \<and> p \<noteq> 0 \<and> q \<noteq> 0 \<and>
    (p = q \<longleftrightarrow> strcasecmp n m = 0) \<and> symbols_ok s2 \<and>
    akl_get_symbol s2 (Some n) = p \<and> akl_get_symbol s2 (Some m) = q"
proof -
  obtain p s1 where p: "akl_get_or_create_symbol s (Some n) = Some (p, s1)" "p \<noteq> 0" "symbols_ok s1"
    "\<And>k. akl_get_symbol s1 (Some k) = (if strcasecmp k n = 0 then p else akl_get_symbol s (Some k))"
    using symbol_creation(1) [OF assms, of n] unfolding symbol_spec_def by blast
  obtain q s2 where q: "akl_get_or_create_symbol s1 (Some m) = Some (q, s2)" "q \<noteq> 0" "symbols_ok s2"
    "\<And>k. akl_get_symbol s2 (Some k) = (if strcasecmp k m = 0 then q else akl_get_symbol s1 (Some k))"
    using symbol_creation(1) [OF p(3), of m] unfolding symbol_spec_def by blast
  have sym: "strcasecmp n m = 0 \<longleftrightarrow> strcasecmp m n = 0" by (auto simp: strcasecmp_eq)
  have pn: "akl_get_symbol s1 (Some n) = p" using p(4) [of n] by simp
  have qm: "akl_get_symbol s2 (Some m) = q" using q(4) [of m] by simp
  show ?thesis
  proof (cases "strcasecmp n m = 0")
    case True
    then have "get_or_create_symbol s1 (Some m) = Some (p, s1)"
      using get_symbol_same [OF p(3) True] pn p(2) by (simp add: get_or_create_symbol_def Let_def)
    moreover have "symbol_name s1 p \<noteq> None" using get_symbol_found [OF p(3) pn p(2)] by simp
    ultimately have "akl_get_or_create_symbol s1 (Some m) = Some (p, s1)"
      by (auto simp: akl_get_or_create_symbol_def)
    then have "q = p" "s2 = s1" using q(1) by simp_all
    then show ?thesis using p(1-3) q(1) True pn qm by auto
  next
    case False
    then have n2: "akl_get_symbol s2 (Some n) = p" using q(4) [of n] pn by simp
    have "p \<noteq> q"
    proof
      assume "p = q"
      then have "case_key n = case_key m"
        using get_symbol_found [OF q(3) n2 p(2)] get_symbol_found [OF q(3) qm q(2)] by simp
      then show False using False by (simp add: strcasecmp_eq)
    qed
    then show ?thesis using p q False n2 qm by blast
  qed
qed

theorem symbol_interning_witness:
  "\<exists>p s1 q s2. akl_get_or_create_symbol state0 (Some ''Foo'') = Some (p, s1) \<and>
    akl_get_or_create_symbol s1 (Some ''fOO'') = Some (q, s2) \<and> p \<noteq> 0 \<and> q \<noteq> 0 \<and>
    (p = q \<longleftrightarrow> strcasecmp ''Foo'' ''fOO'' = 0) \<and> symbols_ok s2 \<and>
    akl_get_symbol s2 (Some ''Foo'') = p \<and> akl_get_symbol s2 (Some ''fOO'') = q"
  by (rule symbol_interning [OF state0_tables(1)])

text \<open>
  C15. Setting a global variable succeeds and changes exactly the variables of that name,
  regardless of case: reading it back gives the new value, every other name keeps its
  value, and a variable that existed keeps its structure (so the pointers to it stay good).
\<close>

theorem global_variable_set_get:
  assumes "vars_ok s" "symbol_name s symb = Some n" "symb \<noteq> 0" "v \<noteq> 0"
  shows "\<exists>var s'. akl_set_global_var s symb desc c v = Some (var, s') \<and> vars_ok s' \<and>
    (akl_get_global_variable s (Some n) \<noteq> 0 \<longrightarrow> var = akl_get_global_variable s (Some n)) \<and>
    akl_get_global_value s' (Some n) = Some v \<and>
    (\<forall>m. strcasecmp m n \<noteq> 0 \<longrightarrow> akl_get_global_value s' (Some m) = akl_get_global_value s (Some m))"
  using set_global_var_spec [OF assms] by fastforce

definition state_sym :: akl_state where
  "state_sym = state0\<lparr>st_next := 4, st_syms := [3 \<mapsto> \<lparr>sb_name = Some ''X'', sb_is_cdef = False\<rparr>]\<rparr>"

theorem global_variable_set_get_witness:
  "\<exists>var s'. akl_set_global_var state_sym 3 None True TRUE_ADDR = Some (var, s') \<and> vars_ok s' \<and>
    akl_get_global_value s' (Some ''X'') = Some TRUE_ADDR \<and>
    akl_get_global_value s' (Some ''y'') = akl_get_global_value state_sym (Some ''y'')"
proof -
  have ok: "vars_ok state_sym"
    by (simp add: vars_ok_def name_tree_def state_sym_def state0_def rb_shape_def by_name.ordered_def)
  obtain var s' where s': "akl_set_global_var state_sym 3 None True TRUE_ADDR = Some (var, s')" "vars_ok s'"
    "akl_get_global_value s' (Some ''X'') = Some TRUE_ADDR"
    "\<forall>m. strcasecmp m ''X'' \<noteq> 0 \<longrightarrow> akl_get_global_value s' (Some m) = akl_get_global_value state_sym (Some m)"
    using global_variable_set_get [OF ok, of 3 "''X''" TRUE_ADDR None True]
    by (auto simp: symbol_name_def state_sym_def TRUE_ADDR_def)
  moreover have "strcasecmp ''y'' ''X'' \<noteq> 0"
    by (simp add: strcasecmp_eq case_key_def tolower_def is_upper_def)
  ultimately show ?thesis by blast
qed

lemma feature_find:
  "(n, b, d) \<in> set akl_features \<Longrightarrow>
   find (\<lambda>(k, b, d). strcmp k n = 0) akl_features = Some (n, b, d) \<and> n \<noteq> [] \<and> take 3 n \<noteq> ''no-'' \<and> b \<noteq> 0"
  unfolding akl_features_def
  by (simp add: AKL_CFG_USE_COLORS_def AKL_CFG_USE_GC_def AKL_CFG_INTERACTIVE_def AKL_DEBUG_INSTR_def
      AKL_DEBUG_STACK_def, elim disjE) simp_all

lemma feature_bits:
  "(n, b, d) \<in> set akl_features \<Longrightarrow> (n', b', d') \<in> set akl_features \<Longrightarrow> n' \<noteq> n \<Longrightarrow> b AND b' = 0"
  unfolding akl_features_def
  by (simp add: AKL_CFG_USE_COLORS_def AKL_CFG_USE_GC_def AKL_CFG_INTERACTIVE_def AKL_DEBUG_INSTR_def
      AKL_DEBUG_STACK_def, elim disjE) simp_all

lemma mask_disjoint:
  assumes "(b :: 64 word) AND b' = 0"
  shows "(c OR b) AND b' = c AND b'" "(c AND NOT b) AND b' = c AND b'"
proof -
  have "\<not> (bit b i \<and> bit b' i)" for i using assms by (metis bit_0_eq bit_and_iff bot_apply bot_bool_def)
  then show "(c OR b) AND b' = c AND b'" "(c AND NOT b) AND b' = c AND b'"
    by (auto simp: bit_eq_iff bit_simps)
qed

text \<open>
  \<open>akl_set_feature\<close> switches the named feature on, with the prefix \<open>no-\<close> off, and leaves
  the other features as they were.
\<close>

theorem feature_switch:
  assumes "(n, b, d) \<in> set akl_features" "(n', b', d') \<in> set akl_features" "n' \<noteq> n"
  shows "\<exists>s1 s2. akl_set_feature s (Some n) = (True, s1) \<and> AKL_IS_FEATURE_ON s1 b \<and>
    (AKL_IS_FEATURE_ON s1 b' \<longleftrightarrow> AKL_IS_FEATURE_ON s b') \<and>
    akl_set_feature s (Some (''no-'' @ n)) = (True, s2) \<and> \<not> AKL_IS_FEATURE_ON s2 b \<and>
    (AKL_IS_FEATURE_ON s2 b' \<longleftrightarrow> AKL_IS_FEATURE_ON s b')"
proof -
  have n: "find (\<lambda>(k, b, d). strcmp k n = 0) akl_features = Some (n, b, d)" "n \<noteq> []" "take 3 n \<noteq> ''no-''" "b \<noteq> 0"
    using feature_find [OF assms(1)] by auto
  have disj: "b AND b' = 0" by (rule feature_bits [OF assms])
  let ?c = "ai_config s"
  have w: "(?c OR b) AND b = b" "(?c AND NOT b) AND b = 0"
    "(?c OR b) AND b' = ?c AND b'" "(?c AND NOT b) AND b' = ?c AND b'"
    using mask_disjoint [OF disj, of ?c] by (auto simp: bit_eq_iff bit_simps)
  show ?thesis
    using n w by (simp add: akl_set_feature_def akl_set_feature_to_def AKL_IS_FEATURE_ON_def)
qed

theorem feature_switch_witness:
  "\<exists>s1 s2. akl_set_feature state0 (Some ''use-gc'') = (True, s1) \<and> AKL_IS_FEATURE_ON s1 AKL_CFG_USE_GC \<and>
    (AKL_IS_FEATURE_ON s1 AKL_CFG_INTERACTIVE \<longleftrightarrow> AKL_IS_FEATURE_ON state0 AKL_CFG_INTERACTIVE) \<and>
    akl_set_feature state0 (Some (''no-'' @ ''use-gc'')) = (True, s2) \<and> \<not> AKL_IS_FEATURE_ON s2 AKL_CFG_USE_GC \<and>
    (AKL_IS_FEATURE_ON s2 AKL_CFG_INTERACTIVE \<longleftrightarrow> AKL_IS_FEATURE_ON state0 AKL_CFG_INTERACTIVE)"
  by (rule feature_switch [where d = "''Enable Garbage Collector''" and n' = "''interactive''" and
        d' = "''Enable interactive prompt''"]) (simp_all add: akl_features_def)

end
