(* ===== verification/Modules.thy ===== *)
theory Modules
  imports Symbols
begin

text \<open>
  Loadable modules: \<open>src/module.c\<close> and the part of \<open>src/os_unix.c\<close> that finds and opens them.

  A module descriptor is in the memory of the shared object; \<open>mods\<close> maps addresses to
  descriptors. The system calls are the parameters in \<open>os\<close>, as functions of the path; a module's
  own functions are C code of its shared object and are fields of the descriptor.
\<close>

subsection \<open>Descriptors\<close>

type_synonym akl_mod_load_t = "akl_state \<Rightarrow> (int \<times> akl_state) option"

text \<open>\<open>am_depends_on\<close>: the array with its terminating NULL, as declared by the module.\<close>

record akl_module =
  am_path :: "string option"
  am_name :: "string option"
  am_desc :: "string option"
  am_author :: "string option"
  am_funs :: "akl_fun_decl list option"
  am_size :: nat
  am_depends_on :: "string option list option"
  am_handle :: bool
  am_load :: "akl_mod_load_t option"
  am_unload :: "akl_mod_load_t option"

type_synonym mods = "addr \<Rightarrow> akl_module option"

definition AKL_LOAD_FAIL :: int where "AKL_LOAD_FAIL = 0"
definition AKL_LOAD_OK :: int where "AKL_LOAD_OK = 1"

text \<open>
  \<open>os_dlsym\<close>: the address of \<open>__module_desc\<close> in the object that was opened, 0 when there is none.
\<close>

record os =
  os_search_path :: string
  os_access :: "string \<Rightarrow> bool"
  os_realpath :: "string \<Rightarrow> string option"
  os_dlopen :: "string \<Rightarrow> bool"
  os_dlsym :: "string \<Rightarrow> addr"
  os_stat_size :: "string \<Rightarrow> nat"

subsection \<open>The operating system layer\<close>

text \<open>
  The path of a module, \<open>Some None\<close> for NULL. When the file is found by its own path, the function
  ends without a \<open>return\<close>: what the caller reads is undefined.
\<close>

definition akl_get_module_path :: "os \<Rightarrow> string \<Rightarrow> string option option" where
  "akl_get_module_path os modname =
     (let mod_path = os_search_path os @ modname in
      if os_access os mod_path then Some (Some mod_path)
      else let mod_path = mod_path @ ''.alm'' in
        if os_access os mod_path then Some (Some mod_path)
        else (case os_realpath os modname of
                None \<Rightarrow> Some None
              | Some p \<Rightarrow> if \<not> os_access os p then Some None else None))"

definition akl_load_module_desc :: "os \<Rightarrow> mods \<Rightarrow> string \<Rightarrow> (addr \<times> mods) option" where
  "akl_load_module_desc os ms modpath =
     (if \<not> os_dlopen os modpath then Some (0, ms)
      else let mod_desc = os_dlsym os modpath in
        if mod_desc = 0 then Some (0, ms)
        else do {
          M \<leftarrow> ms mod_desc;
          Some (mod_desc, ms(mod_desc \<mapsto> M\<lparr>am_handle := True, am_path := Some modpath, am_size := os_stat_size os modpath\<rparr>))
        })"

definition akl_module_free :: "mods \<Rightarrow> addr \<Rightarrow> mods option" where
  "akl_module_free ms md = do { M \<leftarrow> (if md = 0 then None else ms md); Some (ms(md := None)) }"

text \<open>The handler of SIGINT; \<open>None\<close>: the process exits.\<close>

definition interrupt_program :: "akl_state \<Rightarrow> akl_state option" where
  "interrupt_program s = (if ai_interrupted s then None else Some (s\<lparr>ai_interrupted := True\<rparr>))"

subsection \<open>Loading and unloading\<close>

definition module_finder_name :: "mods \<Rightarrow> string option \<Rightarrow> addr \<Rightarrow> int option" where
  "module_finder_name ms name m =
     (if m = 0 then Some 1
      else do {
        M \<leftarrow> ms m;
        (case am_name M of
           None \<Rightarrow> Some 1
         | Some n \<Rightarrow> (case name of None \<Rightarrow> None | Some x \<Rightarrow> Some (strcmp n x)))
      })"

text \<open>\<open>akl_find_module\<close> reads the data of the entry that was found, also when there is none.\<close>

definition akl_find_module :: "akl_state \<Rightarrow> mods \<Rightarrow> string option \<Rightarrow> addr option" where
  "akl_find_module s ms modname =
     do {
       (ent, ind) \<leftarrow> akl_list_find s (ai_modules s) (\<lambda>m d. module_finder_name ms modname m) 0;
       E \<leftarrow> (if ent = 0 then None else st_ents s ent);
       Some (le_data E)
     }"

text \<open>
  \<open>load\<close> stands for the recursive call. The loop over the dependencies tests the pointer into
  the array, which is never NULL: it ends at a module that does not load, or behind the array.
  Result: whether all of them were loaded.
\<close>

fun load_dependencies ::
    "(akl_state \<Rightarrow> mods \<Rightarrow> string option \<Rightarrow> (addr \<times> akl_state \<times> mods) option) \<Rightarrow> akl_state \<Rightarrow> mods \<Rightarrow>
       string option list \<Rightarrow> (bool \<times> akl_state \<times> mods) option" where
  "load_dependencies load s ms [] = None"
| "load_dependencies load s ms (dp # dps) =
     do { (m, s, ms) \<leftarrow> load s ms dp; (if m = 0 then Some (False, s, ms) else load_dependencies load s ms dps) }"

text \<open>The loader and the functions of a module whose descriptor is there: whether it succeeds.\<close>

definition start_module :: "akl_state \<Rightarrow> akl_module \<Rightarrow> (bool \<times> akl_state) option" where
  "start_module s M =
     do {
       (errcode, s) \<leftarrow> (case am_load M of None \<Rightarrow> Some (AKL_LOAD_OK, s) | Some f \<Rightarrow> f s);
       (if errcode \<noteq> AKL_LOAD_OK then Some (False, s)
        else do {
          s \<leftarrow> (case am_funs M of None \<Rightarrow> Some s | Some funs \<Rightarrow> akl_declare_functions s funs);
          (if am_load M = None \<and> am_funs M = None then None else Some (True, s))
        })
     }"

fun load_module :: "nat \<Rightarrow> os \<Rightarrow> akl_state \<Rightarrow> mods \<Rightarrow> string option \<Rightarrow> (addr \<times> akl_state \<times> mods) option" where
  "load_module 0 os s ms modname = None"
| "load_module (Suc n) os s ms modname =
     do {
       m \<leftarrow> akl_find_module s ms modname;
       (if m \<noteq> 0 then Some (0, s, ms)
        else do {
          name \<leftarrow> modname;
          path \<leftarrow> akl_get_module_path os name;
          (case path of
             None \<Rightarrow> Some (0, s, ms)
           | Some mod_path \<Rightarrow> do {
               (md, ms) \<leftarrow> akl_load_module_desc os ms mod_path;
               (ok, s, ms) \<leftarrow>
                 (if md = 0 then Some (False, s, ms)
                  else do {
                    M \<leftarrow> ms md;
                    (if am_name M = None then Some (False, s, ms)
                     else do {
                       (ok, s, ms) \<leftarrow> (case am_depends_on M of None \<Rightarrow> Some (True, s, ms)
                                     | Some dps \<Rightarrow> load_dependencies (load_module n os) s ms dps);
                       (if \<not> ok then Some (False, s, ms)
                        else do { (ok, s) \<leftarrow> start_module s M; Some (ok, s, ms) })
                     })
                  });
               (if ok then do { (ent, s) \<leftarrow> akl_list_append s (ai_modules s) md; Some (md, s, ms) }
                else do { ms \<leftarrow> akl_module_free ms md; Some (0, s, ms) })
             })
        })
     }"

text \<open>The depth of dependencies is bounded by the caller (modules may depend on each other).\<close>

definition akl_load_module :: "nat \<Rightarrow> os \<Rightarrow> akl_state \<Rightarrow> mods \<Rightarrow> string \<Rightarrow> (addr \<times> akl_state \<times> mods) option" where
  "akl_load_module depth os s ms modname = load_module (Suc depth) os s ms (Some modname)"

definition akl_unload_module :: "akl_state \<Rightarrow> mods \<Rightarrow> string \<Rightarrow> bool \<Rightarrow> (bool \<times> akl_state \<times> mods) option" where
  "akl_unload_module s ms modname use_force =
     do {
       (ent, ind) \<leftarrow> akl_list_find s (ai_modules s) (\<lambda>m d. module_finder_name ms (Some modname) m) 0;
       md \<leftarrow> (if ent = 0 then Some 0 else map_option le_data (st_ents s ent));
       (if md = 0 then Some (False, s, ms)
        else do {
          M \<leftarrow> ms md;
          (delete, s) \<leftarrow> (case am_unload M of None \<Rightarrow> Some (True, s)
             | Some f \<Rightarrow> do { (errcode, s) \<leftarrow> f s; Some (errcode \<noteq> AKL_LOAD_FAIL \<or> use_force, s) });
          (if \<not> delete then Some (False, s, ms)
           else do {
             (e, s) \<leftarrow> akl_list_remove_entry s (ai_modules s) ent;
             ms \<leftarrow> akl_module_free ms md;
             Some (True, s, ms)
           })
        })
     }"

subsection \<open>Properties\<close>

lemma find_first_module:
  assumes "is_list s (ai_modules s) es" "\<forall>e\<in>set es. \<exists>M n. edata s e \<noteq> 0 \<and> ms (edata s e) = Some M \<and> am_name M = Some n"
  shows "es = [] \<Longrightarrow> akl_list_find s (ai_modules s) (\<lambda>m d. module_finder_name ms (Some x) m) 0 = Some (0, None)"
    and "es = e # fs \<Longrightarrow> \<exists>i. akl_list_find s (ai_modules s) (\<lambda>m d. module_finder_name ms (Some x) m) 0 = Some (e, i)"
proof -
  show "es = [] \<Longrightarrow> akl_list_find s (ai_modules s) (\<lambda>m d. module_finder_name ms (Some x) m) 0 = Some (0, None)"
    using list_find_eq [OF assms(1)] by simp
  assume e: "es = e # fs"
  obtain M n where "edata s e \<noteq> 0" "ms (edata s e) = Some M" "am_name M = Some n"
    using assms(2) e by auto
  then show "\<exists>i. akl_list_find s (ai_modules s) (\<lambda>m d. module_finder_name ms (Some x) m) 0 = Some (e, i)"
    using list_find_eq [OF assms(1)] e by (simp add: module_finder_name_def)
qed

text \<open>The modules in the list have a descriptor with a name.\<close>

definition modules_ok :: "akl_state \<Rightarrow> mods \<Rightarrow> addr list \<Rightarrow> bool" where
  "modules_ok s ms es \<longleftrightarrow> is_list s (ai_modules s) es \<and>
     (\<forall>e\<in>set es. \<exists>M n. edata s e \<noteq> 0 \<and> ms (edata s e) = Some M \<and> am_name M = Some n)"

text \<open>
  C39. No module can be loaded. As \<open>akl_list_find\<close> returns the first entry whatever its name, and
  NULL only for the empty list, \<open>akl_load_module\<close> takes the first module for the one asked for
  when there is one (it returns NULL and changes nothing), and reads through the NULL pointer
  when there is none: whatever the name, the operating system and the modules.
\<close>

theorem no_module_loads:
  assumes "modules_ok s ms es"
  shows "akl_load_module depth os s ms modname = (if es = [] then None else Some (0, s, ms))"
proof (cases es)
  case Nil
  then have "akl_find_module s ms (Some modname) = None"
    using find_first_module(1) [of s es ms modname] assms by (simp add: akl_find_module_def modules_ok_def)
  then show ?thesis using Nil by (simp add: akl_load_module_def)
next
  case (Cons e fs)
  obtain E where E: "st_ents s e = Some E" "e \<noteq> 0" "le_data E \<noteq> 0"
    using assms Cons is_list_ents [of s "ai_modules s" es e] by (fastforce simp: modules_ok_def edata_def)
  then have "akl_find_module s ms (Some modname) = Some (le_data E)"
    using find_first_module(2) [of s es ms e fs modname] assms Cons by (auto simp: akl_find_module_def modules_ok_def)
  then show ?thesis using Cons E(3) by (simp add: akl_load_module_def)
qed

text \<open>
  Unloading takes the first module. When its unloader agrees (or there is none), the first
  module of the list is removed and its descriptor released, whatever the name asked for; the
  other modules stay, in order.
\<close>

theorem unload_takes_first:
  assumes "heap_ok s" "modules_ok s ms (e # es)" "ms (edata s e) = Some M" "am_unload M = None"
  shows "\<exists>s'. akl_unload_module s ms modname use_force = Some (True, s', ms(edata s e := None)) \<and>
    is_list s' (ai_modules s) es \<and> map (edata s') es = map (edata s) es \<and> heap_ok s'"
proof -
  have l: "is_list s (ai_modules s) ([] @ e # es)" using assms(2) by (simp add: modules_ok_def)
  obtain E where E: "st_ents s e = Some E" "e \<noteq> 0" "edata s e \<noteq> 0"
    using assms(2) is_list_ents [OF l, of e] by (fastforce simp: modules_ok_def)
  obtain i where f: "akl_list_find s (ai_modules s) (\<lambda>m d. module_finder_name ms (Some modname) m) 0 = Some (e, i)"
    using find_first_module(2) [of s "e # es" ms e es modname] assms(2) by (auto simp: modules_ok_def)
  obtain s' where s': "akl_list_remove_entry s (ai_modules s) e = Some (e, s')" "is_list s' (ai_modules s) ([] @ es)"
    "list_op (set ([] @ e # es)) (ai_modules s) s s'" "heap_ok s'"
    using remove_entry_ok [OF assms(1) l] by blast
  have "map (edata s') ([] @ e # es) = map (edata s) ([] @ e # es)" by (rule list_op_data [OF s'(3) l])
  moreover have "akl_unload_module s ms modname use_force = Some (True, s', ms(edata s e := None))"
    using f E assms(3,4) s'(1) by (simp add: akl_unload_module_def edata_def akl_module_free_def)
  ultimately show ?thesis using s'(2,4) by auto
qed

definition a_module :: "string \<Rightarrow> akl_module" where
  "a_module n = \<lparr>am_path = None, am_name = Some n, am_desc = None, am_author = None, am_funs = None, am_size = 0,
     am_depends_on = None, am_handle = True, am_load = None, am_unload = None\<rparr>"

text \<open>The list of \<open>list2\<close> read as a list of two modules.\<close>

definition mods2 :: akl_state where
  "mods2 = list2\<lparr>ai_modules := 3\<rparr>"

definition two_modules :: mods where
  "two_modules = [1 \<mapsto> a_module ''dir'', 2 \<mapsto> a_module ''curses'']"

lemma mods2_ok: "modules_ok mods2 two_modules [4, 5]"
  by (simp add: modules_ok_def is_list_def chain_def mods2_def list2_def edata_def two_modules_def a_module_def last0_def)

lemma mods2_heap: "heap_ok mods2"
  by (auto simp: heap_ok_def heap_live_def mods2_def list2_def state0_def NIL_ADDR_def TRUE_ADDR_def split: if_splits)

definition no_os :: os where
  "no_os = \<lparr>os_search_path = [], os_access = (\<lambda>p. True), os_realpath = (\<lambda>p. Some p), os_dlopen = (\<lambda>p. True),
     os_dlsym = (\<lambda>p. 2), os_stat_size = (\<lambda>p. 0)\<rparr>"

theorem no_module_loads_witness: "akl_load_module 1 no_os mods2 two_modules ''hello'' = Some (0, mods2, two_modules)"
  using no_module_loads [OF mods2_ok, of 1 no_os "''hello''"] by simp

theorem unload_takes_first_witness:
  "\<exists>s'. akl_unload_module mods2 two_modules ''curses'' False = Some (True, s', two_modules(1 := None)) \<and>
    is_list s' 3 [5] \<and> map (edata s') [5] = [2] \<and> heap_ok s'"
proof -
  have "edata mods2 4 = 1" "edata mods2 5 = 2" "ai_modules mods2 = 3" by (simp_all add: edata_def mods2_def list2_def)
  moreover have "two_modules 1 = Some (a_module ''dir'')" by (simp add: two_modules_def)
  ultimately show ?thesis
    using unload_takes_first [OF mods2_heap mods2_ok, of "a_module ''dir''" "''curses''" False]
    by (simp add: a_module_def)
qed

end
