(* ===== verification/Marks.thy ===== *)
theory Marks
  imports DList Vector
begin

text \<open>
  The marker functions of \<open>src/gc.c\<close> on the objects of the interpreter. (The collector never
  calls them to mark: \<open>akl_gc_mark\<close> is empty, see \<open>GcPool\<close>; a sweep calls them to clear marks.)

  The type of an object is read from its header, wherever the object is; the marker of a type
  is the one \<open>akl_gc_init\<close> registers (\<open>base_type_markers\<close>). The vector of types was created for
  these six and has grown once: the three slots behind them were never written, and the pointer
  to a marker in them is indeterminate.
\<close>

subsection \<open>The markers\<close>

datatype akl_gc_marker = Mark_value | Mark_variable | Mark_list | Mark_list_entry | Mark_function | Mark_udata

definition base_type_markers :: "akl_gc_marker list" where
  "base_type_markers = [Mark_value, Mark_variable, Mark_list, Mark_list_entry, Mark_function, Mark_udata]"

text \<open>The capacity of \<open>ai_gc_types\<close> after \<open>akl_gc_init\<close> has registered the types.\<close>

definition ai_gc_types_size :: nat where "ai_gc_types_size = 9"

lemma reserve_size:
  "av_size (snd (akl_vector_reserve v)) =
     (if av_count v + 1 \<ge> av_size v then av_size v + av_size v div 2 else av_size v)"
  "av_count (snd (akl_vector_reserve v)) = av_count v + 1"
  by (simp_all add: akl_vector_reserve_def akl_vector_is_grow_need_def akl_vector_grow_def Let_def)

lemma ai_gc_types_size_ok:
  "av_size (((\<lambda>v. snd (akl_vector_reserve v)) ^^ length base_type_markers)
     (akl_init_vector (of_nat (length base_type_markers)) sz)) = of_nat ai_gc_types_size"
proof -
  have "av_size (akl_init_vector 6 sz) = 6" "av_count (akl_init_vector 6 sz) = 0"
    by (simp_all add: akl_init_vector_def Let_def)
  moreover have "length base_type_markers = Suc (Suc (Suc (Suc (Suc (Suc 0)))))"
    by (simp add: base_type_markers_def)
  ultimately show ?thesis by (simp add: ai_gc_types_size_def reserve_size)
qed

definition gc_header :: "akl_state \<Rightarrow> addr \<Rightarrow> akl_gc_object option" where
  "gc_header s p =
     (case st_vals s p of Some V \<Rightarrow> Some (va_gc V) | None \<Rightarrow>
      (case st_vars s p of Some V \<Rightarrow> Some (vr_gc V) | None \<Rightarrow>
       (case st_lists s p of Some L \<Rightarrow> Some (li_gc L) | None \<Rightarrow>
        (case st_ents s p of Some E \<Rightarrow> Some (le_gc E) | None \<Rightarrow> map_option fn_gc (st_funs s p)))))"

definition mark_val :: "akl_state \<Rightarrow> addr \<Rightarrow> bool \<Rightarrow> akl_state option" where
  "mark_val s p m =
     do { V \<leftarrow> st_vals s p; Some (s\<lparr>st_vals := (st_vals s)(p \<mapsto> V\<lparr>va_gc := (va_gc V)\<lparr>gc_mark := m\<rparr>\<rparr>)\<rparr>) }"

definition mark_lst :: "akl_state \<Rightarrow> addr \<Rightarrow> bool \<Rightarrow> akl_state option" where
  "mark_lst s p m = upd_list s p (\<lambda>L. L\<lparr>li_gc := (li_gc L)\<lparr>gc_mark := m\<rparr>\<rparr>)"

definition mark_ent :: "akl_state \<Rightarrow> addr \<Rightarrow> bool \<Rightarrow> akl_state option" where
  "mark_ent s p m = upd_ent s p (\<lambda>E. E\<lparr>le_gc := (le_gc E)\<lparr>gc_mark := m\<rparr>\<rparr>)"

definition akl_gc_mark_value :: "akl_state \<Rightarrow> addr \<Rightarrow> bool \<Rightarrow> akl_state option" where
  "akl_gc_mark_value s v m =
     (if v = 0 then None
      else if v = NIL_ADDR \<or> v = TRUE_ADDR then Some s
      else do {
        V \<leftarrow> st_vals s v;
        s \<leftarrow> (if va_type V = VT_LIST
              then (case va_value V of V_list l \<Rightarrow> if l = 0 then Some s else mark_lst s l m | _ \<Rightarrow> None)
              else Some s);
        mark_val s v m
      })"

definition akl_gc_mark_variable :: "akl_state \<Rightarrow> addr \<Rightarrow> bool \<Rightarrow> akl_state option" where
  "akl_gc_mark_variable s var m =
     do {
       V \<leftarrow> st_vars s var;
       let s = s\<lparr>st_vars := (st_vars s)(var \<mapsto> V\<lparr>vr_gc := (vr_gc V)\<lparr>gc_mark := m\<rparr>\<rparr>)\<rparr>;
       (if vr_value V = 0 then Some s else akl_gc_mark_value s (vr_value V) m)
     }"

text \<open>\<open>mark\<close> stands for \<open>akl_gc_mark_object\<close>.\<close>

definition akl_gc_mark_list_entry ::
    "(akl_state \<Rightarrow> addr \<Rightarrow> bool \<Rightarrow> akl_state option) \<Rightarrow> akl_state \<Rightarrow> addr \<Rightarrow> bool \<Rightarrow> akl_state option" where
  "akl_gc_mark_list_entry mark s le m =
     do {
       s \<leftarrow> mark_ent s le m;
       E \<leftarrow> st_ents s le;
       (if gc_le_is_obj (le_gc E) \<and> le_data E \<noteq> 0 then mark s (le_data E) m else Some s)
     }"

fun mark_all :: "(akl_state \<Rightarrow> addr \<Rightarrow> bool \<Rightarrow> akl_state option) \<Rightarrow> akl_state \<Rightarrow> addr list \<Rightarrow> bool \<Rightarrow> akl_state option" where
  "mark_all mark s [] m = Some s"
| "mark_all mark s (e # es) m = do { s \<leftarrow> mark s e m; mark_all mark s es m }"

text \<open>The markers do not change the links, so the entries can be listed before they are marked.\<close>

definition akl_gc_mark_list ::
    "(akl_state \<Rightarrow> addr \<Rightarrow> bool \<Rightarrow> akl_state option) \<Rightarrow> akl_state \<Rightarrow> addr \<Rightarrow> bool \<Rightarrow> akl_state option" where
  "akl_gc_mark_list mark s l m =
     do { es \<leftarrow> AKL_LIST_FOREACH s l; s \<leftarrow> mark_all mark s es m; mark_lst s l m }"

text \<open>The depth is bounded: a list that contains itself as an object would be marked for ever.\<close>

fun akl_gc_mark_object :: "nat \<Rightarrow> akl_state \<Rightarrow> addr \<Rightarrow> bool \<Rightarrow> akl_state option" where
  "akl_gc_mark_object 0 s obj m = None"
| "akl_gc_mark_object (Suc n) s obj m =
     do {
       H \<leftarrow> gc_header s obj;
       (if ai_gc_types_size \<le> gc_type_id H then Some s
        else if length base_type_markers \<le> gc_type_id H then None
        else case base_type_markers ! gc_type_id H of
               Mark_value \<Rightarrow> akl_gc_mark_value s obj m
             | Mark_variable \<Rightarrow> akl_gc_mark_variable s obj m
             | Mark_list \<Rightarrow> akl_gc_mark_list (akl_gc_mark_object n) s obj m
             | Mark_list_entry \<Rightarrow> akl_gc_mark_list_entry (akl_gc_mark_object n) s obj m
             | Mark_function \<Rightarrow> Some s
             | Mark_udata \<Rightarrow> Some s)
     }"

declare akl_gc_mark_object.simps(2) [simp del]

subsection \<open>What marking a list reaches\<close>

definition val_marked :: "akl_state \<Rightarrow> bool \<Rightarrow> addr \<Rightarrow> bool" where
  "val_marked s m p \<longleftrightarrow> p = NIL_ADDR \<or> p = TRUE_ADDR \<or> (\<exists>V. st_vals s p = Some V \<and> gc_mark (va_gc V) = m)"

definition ent_marked :: "akl_state \<Rightarrow> bool \<Rightarrow> addr \<Rightarrow> bool" where
  "ent_marked s m e \<longleftrightarrow> (\<exists>E. st_ents s e = Some E \<and> gc_mark (le_gc E) = m)"

definition lst_marked :: "akl_state \<Rightarrow> bool \<Rightarrow> addr \<Rightarrow> bool" where
  "lst_marked s m l \<longleftrightarrow> (\<exists>L. st_lists s l = Some L \<and> gc_mark (li_gc L) = m)"

text \<open>The list that an entry holds as its value: an entry of a nested list.\<close>

definition inner_list :: "akl_state \<Rightarrow> addr \<Rightarrow> addr \<Rightarrow> bool" where
  "inner_list s e x \<longleftrightarrow> edata s e \<noteq> NIL_ADDR \<and> edata s e \<noteq> TRUE_ADDR \<and> x \<noteq> 0 \<and>
     (\<exists>V. st_vals s (edata s e) = Some V \<and> va_type V = VT_LIST \<and> va_value V = V_list x)"

text \<open>An entry of a list of values, as \<open>akl_list_append_value\<close> makes it.\<close>

definition value_entry :: "akl_state \<Rightarrow> addr \<Rightarrow> bool" where
  "value_entry s e \<longleftrightarrow> st_vals s e = None \<and> st_vars s e = None \<and> st_lists s e = None \<and>
     (\<exists>E V. st_ents s e = Some E \<and> gc_type_id (le_gc E) = GC_LIST_ENTRY \<and> gc_le_is_obj (le_gc E) \<and>
        le_data E \<noteq> 0 \<and> st_vals s (le_data E) = Some V \<and> gc_type_id (va_gc V) = GC_VALUE \<and>
        (va_type V = VT_LIST \<longrightarrow> (\<exists>l. va_value V = V_list l \<and> (l = 0 \<or> st_lists s l \<noteq> None))))"

text \<open>Marking changes marks alone: the links, the data, the types and the contents stay.\<close>

definition same_val :: "akl_value option \<Rightarrow> akl_value option \<Rightarrow> bool" where
  "same_val v w \<longleftrightarrow> map_option (\<lambda>V. V\<lparr>va_gc := (va_gc V)\<lparr>gc_mark := True\<rparr>\<rparr>) v =
     map_option (\<lambda>V. V\<lparr>va_gc := (va_gc V)\<lparr>gc_mark := True\<rparr>\<rparr>) w"

definition same_ent :: "akl_list_entry option \<Rightarrow> akl_list_entry option \<Rightarrow> bool" where
  "same_ent v w \<longleftrightarrow> map_option (\<lambda>V. V\<lparr>le_gc := (le_gc V)\<lparr>gc_mark := True\<rparr>\<rparr>) v =
     map_option (\<lambda>V. V\<lparr>le_gc := (le_gc V)\<lparr>gc_mark := True\<rparr>\<rparr>) w"

definition same_lst :: "akl_list option \<Rightarrow> akl_list option \<Rightarrow> bool" where
  "same_lst v w \<longleftrightarrow> map_option (\<lambda>V. V\<lparr>li_gc := (li_gc V)\<lparr>gc_mark := True\<rparr>\<rparr>) v =
     map_option (\<lambda>V. V\<lparr>li_gc := (li_gc V)\<lparr>gc_mark := True\<rparr>\<rparr>) w"

definition only_marks :: "akl_state \<Rightarrow> akl_state \<Rightarrow> bool" where
  "only_marks s s' \<longleftrightarrow> s' = s\<lparr>st_ents := st_ents s', st_lists := st_lists s', st_vals := st_vals s'\<rparr> \<and>
     (\<forall>x. same_val (st_vals s' x) (st_vals s x) \<and> same_ent (st_ents s' x) (st_ents s x) \<and>
          same_lst (st_lists s' x) (st_lists s x))"

text \<open>Marking with \<open>m\<close> keeps what is marked with \<open>m\<close>.\<close>

definition marks :: "bool \<Rightarrow> akl_state \<Rightarrow> akl_state \<Rightarrow> bool" where
  "marks m s s' \<longleftrightarrow> only_marks s s' \<and> (\<forall>x. val_marked s m x \<longrightarrow> val_marked s' m x) \<and>
     (\<forall>x. ent_marked s m x \<longrightarrow> ent_marked s' m x) \<and> (\<forall>x. lst_marked s m x \<longrightarrow> lst_marked s' m x)"

lemma same_refl [simp]: "same_val v v" "same_ent e e" "same_lst l l"
  by (simp_all add: same_val_def same_ent_def same_lst_def)

lemma only_marks_trans:
  assumes "only_marks s t" "only_marks t u" shows "only_marks s u"
proof -
  have "t = s\<lparr>st_ents := st_ents t, st_lists := st_lists t, st_vals := st_vals t\<rparr>"
    "u = t\<lparr>st_ents := st_ents u, st_lists := st_lists u, st_vals := st_vals u\<rparr>"
    using assms unfolding only_marks_def by blast+
  then have "u = s\<lparr>st_ents := st_ents u, st_lists := st_lists u, st_vals := st_vals u\<rparr>"
    by (cases s, cases t, cases u) simp
  then show ?thesis using assms unfolding only_marks_def same_val_def same_ent_def same_lst_def by simp
qed

lemma marks_trans: "marks m s t \<Longrightarrow> marks m t u \<Longrightarrow> marks m s u"
  unfolding marks_def using only_marks_trans by blast

lemma marks_refl [simp]: "marks m s s"
  by (simp add: marks_def only_marks_def)

lemma same_valD: "same_val v w \<Longrightarrow> w = Some V \<Longrightarrow> \<exists>b. v = Some (V\<lparr>va_gc := (va_gc V)\<lparr>gc_mark := b\<rparr>\<rparr>)"
proof -
  assume a: "same_val v w" "w = Some V"
  then obtain W where W: "v = Some W" "W\<lparr>va_gc := (va_gc W)\<lparr>gc_mark := True\<rparr>\<rparr> = V\<lparr>va_gc := (va_gc V)\<lparr>gc_mark := True\<rparr>\<rparr>"
    by (auto simp: same_val_def)
  have "W = V\<lparr>va_gc := (va_gc V)\<lparr>gc_mark := gc_mark (va_gc W)\<rparr>\<rparr>"
    using W(2) by (cases V, cases W, cases "va_gc V", cases "va_gc W") simp
  then show ?thesis using W(1) by blast
qed

lemma same_entD: "same_ent v w \<Longrightarrow> w = Some V \<Longrightarrow> \<exists>b. v = Some (V\<lparr>le_gc := (le_gc V)\<lparr>gc_mark := b\<rparr>\<rparr>)"
proof -
  assume a: "same_ent v w" "w = Some V"
  then obtain W where W: "v = Some W" "W\<lparr>le_gc := (le_gc W)\<lparr>gc_mark := True\<rparr>\<rparr> = V\<lparr>le_gc := (le_gc V)\<lparr>gc_mark := True\<rparr>\<rparr>"
    by (auto simp: same_ent_def)
  have "W = V\<lparr>le_gc := (le_gc V)\<lparr>gc_mark := gc_mark (le_gc W)\<rparr>\<rparr>"
    using W(2) by (cases V, cases W, cases "le_gc V", cases "le_gc W") simp
  then show ?thesis using W(1) by blast
qed

lemma same_None: "same_val v None \<longleftrightarrow> v = None" "same_lst l None \<longleftrightarrow> l = None" "same_lst None l \<longleftrightarrow> l = None"
  by (auto simp: same_val_def same_lst_def)

text \<open>The three kinds of marks.\<close>

lemma mark_val_ok:
  assumes "st_vals s p = Some V"
  shows "\<exists>s'. mark_val s p m = Some s' \<and> marks m s s' \<and> val_marked s' m p \<and> st_ents s' = st_ents s \<and>
    st_lists s' = st_lists s \<and> (\<forall>x. x \<noteq> p \<longrightarrow> st_vals s' x = st_vals s x)"
  using assms
  by (auto simp: mark_val_def marks_def only_marks_def val_marked_def ent_marked_def lst_marked_def same_val_def)

lemma mark_lst_ok:
  assumes "st_lists s p = Some L"
  shows "\<exists>s'. mark_lst s p m = Some s' \<and> marks m s s' \<and> lst_marked s' m p \<and> st_ents s' = st_ents s \<and>
    st_vals s' = st_vals s \<and> (\<forall>x. x \<noteq> p \<longrightarrow> st_lists s' x = st_lists s x)"
  using assms
  by (auto simp: mark_lst_def upd_list_def marks_def only_marks_def val_marked_def ent_marked_def lst_marked_def same_lst_def)

lemma mark_ent_ok:
  assumes "st_ents s p = Some E"
  shows "\<exists>s'. mark_ent s p m = Some s' \<and> marks m s s' \<and> ent_marked s' m p \<and> st_vals s' = st_vals s \<and>
    st_lists s' = st_lists s \<and> st_ents s' = (st_ents s)(p \<mapsto> E\<lparr>le_gc := (le_gc E)\<lparr>gc_mark := m\<rparr>\<rparr>)"
  using assms
  by (auto simp: mark_ent_def upd_ent_def marks_def only_marks_def val_marked_def ent_marked_def lst_marked_def same_ent_def)

lemma marks_edata:
  assumes "marks m s t" shows "edata t x = edata s x"
proof (cases "st_ents s x")
  case None
  moreover have "same_ent (st_ents t x) (st_ents s x)" using assms unfolding marks_def only_marks_def by blast
  ultimately have "st_ents t x = None" by (simp add: same_ent_def)
  then show ?thesis using None by (simp add: edata_def)
next
  case (Some E)
  then obtain b where "st_ents t x = Some (E\<lparr>le_gc := (le_gc E)\<lparr>gc_mark := b\<rparr>\<rparr>)"
    using assms same_entD [of "st_ents t x" "st_ents s x" E] unfolding marks_def only_marks_def by blast
  then show ?thesis using Some by (simp add: edata_def)
qed

lemma marks_inner:
  assumes "marks m s t" shows "inner_list t e x = inner_list s e x"
proof (cases "st_vals s (edata s e)")
  case None
  moreover have "same_val (st_vals t (edata s e)) (st_vals s (edata s e))"
    using assms unfolding marks_def only_marks_def by blast
  ultimately have "st_vals t (edata s e) = None" by (simp add: same_None)
  then show ?thesis using None by (simp add: inner_list_def marks_edata [OF assms])
next
  case (Some V)
  then obtain b where "st_vals t (edata s e) = Some (V\<lparr>va_gc := (va_gc V)\<lparr>gc_mark := b\<rparr>\<rparr>)"
    using assms same_valD [of "st_vals t (edata s e)" "st_vals s (edata s e)" V] unfolding marks_def only_marks_def by blast
  then show ?thesis using Some by (simp add: inner_list_def marks_edata [OF assms])
qed

lemma value_entry_marks: "marks m s s' \<Longrightarrow> value_entry s e \<Longrightarrow> value_entry s' e"
proof -
  assume a: "marks m s s'" "value_entry s e"
  have o: "same_val (st_vals s' x) (st_vals s x)" "same_ent (st_ents s' x) (st_ents s x)"
    "same_lst (st_lists s' x) (st_lists s x)" for x
    using a(1) unfolding marks_def only_marks_def by auto
  have "s' = s\<lparr>st_ents := st_ents s', st_lists := st_lists s', st_vals := st_vals s'\<rparr>"
    using a(1) unfolding marks_def only_marks_def by blast
  then have vars: "st_vars s' = st_vars s" by (cases s, cases s') simp
  obtain E V where E: "st_vals s e = None" "st_vars s e = None" "st_lists s e = None" "st_ents s e = Some E"
    "gc_type_id (le_gc E) = GC_LIST_ENTRY" "gc_le_is_obj (le_gc E)" "le_data E \<noteq> 0" "st_vals s (le_data E) = Some V"
    "gc_type_id (va_gc V) = GC_VALUE" "va_type V = VT_LIST \<Longrightarrow> \<exists>l. va_value V = V_list l \<and> (l = 0 \<or> st_lists s l \<noteq> None)"
    using a(2) unfolding value_entry_def by blast
  obtain b c where b: "st_ents s' e = Some (E\<lparr>le_gc := (le_gc E)\<lparr>gc_mark := b\<rparr>\<rparr>)"
    "st_vals s' (le_data E) = Some (V\<lparr>va_gc := (va_gc V)\<lparr>gc_mark := c\<rparr>\<rparr>)"
    using same_entD [OF o(2) E(4)] same_valD [OF o(1) E(8)] by blast
  have n: "st_vals s' e = None" "st_vars s' e = None" "st_lists s' e = None"
    using o(1,3) [of e] E(1-3) vars by (simp_all add: same_None)
  have "\<exists>l. va_value V = V_list l \<and> (l = 0 \<or> st_lists s' l \<noteq> None)" if t: "va_type V = VT_LIST"
  proof -
    obtain l where l: "va_value V = V_list l" "l = 0 \<or> st_lists s l \<noteq> None" using E(10) t by blast
    have "st_lists s' l \<noteq> None" if "st_lists s l \<noteq> None" using o(3) [of l] that by (metis same_None(3))
    then show ?thesis using l by blast
  qed
  then show ?thesis using b n E(5-7,9) by (simp add: value_entry_def)
qed

text \<open>One value.\<close>

lemma mark_value_ok:
  assumes "st_vals s v = Some V" "v \<noteq> 0"
    "va_type V = VT_LIST \<Longrightarrow> \<exists>l. va_value V = V_list l \<and> (l = 0 \<or> st_lists s l \<noteq> None)"
  shows "\<exists>s'. akl_gc_mark_value s v m = Some s' \<and> marks m s s' \<and> val_marked s' m v \<and> st_ents s' = st_ents s \<and>
    (\<forall>x. x \<noteq> v \<longrightarrow> st_vals s' x = st_vals s x) \<and>
    (\<forall>x. if v \<noteq> NIL_ADDR \<and> v \<noteq> TRUE_ADDR \<and> va_type V = VT_LIST \<and> va_value V = V_list x \<and> x \<noteq> 0
         then lst_marked s' m x else st_lists s' x = st_lists s x)"
proof (cases "v = NIL_ADDR \<or> v = TRUE_ADDR")
  case True
  then show ?thesis using assms(2) by (auto simp: akl_gc_mark_value_def val_marked_def)
next
  case False
  obtain t where t: "(if va_type V = VT_LIST then (case va_value V of V_list l \<Rightarrow> if l = 0 then Some s else mark_lst s l m
      | _ \<Rightarrow> None) else Some s) = Some t" "marks m s t" "st_ents t = st_ents s" "st_vals t = st_vals s"
    "\<forall>x. if va_type V = VT_LIST \<and> va_value V = V_list x \<and> x \<noteq> 0 then lst_marked t m x else st_lists t x = st_lists s x"
  proof (cases "va_type V = VT_LIST")
    case True
    then obtain l where l: "va_value V = V_list l" "l = 0 \<or> st_lists s l \<noteq> None" using assms(3) by auto
    then show thesis using True mark_lst_ok [of s l _ m] that by (cases "l = 0") fastforce+
  qed (use that in simp)
  obtain u where u: "mark_val t v m = Some u" "marks m t u" "val_marked u m v" "st_ents u = st_ents t"
    "st_lists u = st_lists t" "\<forall>x. x \<noteq> v \<longrightarrow> st_vals u x = st_vals t x"
    using mark_val_ok [of t v V m] assms(1) t(4) by auto
  have "akl_gc_mark_value s v m = Some u"
    using assms(1,2) False t(1) u(1) by (simp add: akl_gc_mark_value_def)
  moreover have "lst_marked u m x = lst_marked t m x" for x by (simp add: lst_marked_def u(5))
  ultimately show ?thesis using t(2-5) u(2-6) False marks_trans by auto
qed

text \<open>What marking the entries \<open>es\<close> reaches and what it leaves.\<close>

definition reaches :: "bool \<Rightarrow> akl_state \<Rightarrow> addr list \<Rightarrow> akl_state \<Rightarrow> bool" where
  "reaches m s es s' \<longleftrightarrow> marks m s s' \<and>
     (\<forall>e\<in>set es. ent_marked s' m e \<and> val_marked s' m (edata s e) \<and> (\<forall>x. inner_list s e x \<longrightarrow> lst_marked s' m x)) \<and>
     (\<forall>x. x \<notin> set es \<longrightarrow> st_ents s' x = st_ents s x) \<and>
     (\<forall>x. x \<notin> edata s ` set es \<longrightarrow> st_vals s' x = st_vals s x) \<and>
     (\<forall>x. (\<forall>e\<in>set es. \<not> inner_list s e x) \<longrightarrow> st_lists s' x = st_lists s x)"

text \<open>One entry.\<close>

lemma mark_entry_ok:
  assumes "value_entry s e"
  shows "\<exists>s'. akl_gc_mark_object (Suc (Suc n)) s e m = Some s' \<and> reaches m s [e] s'"
proof -
  obtain E V where E: "st_vals s e = None" "st_vars s e = None" "st_lists s e = None" "st_ents s e = Some E"
    "gc_type_id (le_gc E) = GC_LIST_ENTRY" "gc_le_is_obj (le_gc E)" "le_data E \<noteq> 0" "st_vals s (le_data E) = Some V"
    "gc_type_id (va_gc V) = GC_VALUE" "va_type V = VT_LIST \<Longrightarrow> \<exists>l. va_value V = V_list l \<and> (l = 0 \<or> st_lists s l \<noteq> None)"
    using assms unfolding value_entry_def by blast
  let ?v = "le_data E"
  obtain s1 where s1: "mark_ent s e m = Some s1" "marks m s s1" "ent_marked s1 m e" "st_vals s1 = st_vals s"
    "st_lists s1 = st_lists s" "st_ents s1 = (st_ents s)(e \<mapsto> E\<lparr>le_gc := (le_gc E)\<lparr>gc_mark := m\<rparr>\<rparr>)"
    using mark_ent_ok [OF E(4)] by blast
  have h: "gc_header s e = Some (le_gc E)" "gc_header s1 ?v = Some (va_gc V)"
    using E(1-4,8) s1(4) by (simp_all add: gc_header_def)
  have V1: "st_vals s1 ?v = Some V" using E(8) s1(4) by simp
  obtain s2 where s2: "akl_gc_mark_value s1 ?v m = Some s2" "marks m s1 s2" "val_marked s2 m ?v" "st_ents s2 = st_ents s1"
    "\<forall>x. x \<noteq> ?v \<longrightarrow> st_vals s2 x = st_vals s1 x"
    "\<forall>x. if ?v \<noteq> NIL_ADDR \<and> ?v \<noteq> TRUE_ADDR \<and> va_type V = VT_LIST \<and> va_value V = V_list x \<and> x \<noteq> 0
         then lst_marked s2 m x else st_lists s2 x = st_lists s1 x"
    using mark_value_ok [OF V1 E(7), of m] E(10) s1(5) by auto
  have d: "edata s e = ?v" using E(4) by (simp add: edata_def)
  have mo: "akl_gc_mark_object (Suc n) s1 ?v m = Some s2"
    using h(2) E(9) s2(1) by (simp add: akl_gc_mark_object.simps(2) base_type_markers_def ai_gc_types_size_def GC_VALUE_def)
  have e1: "st_ents s1 e = Some (E\<lparr>le_gc := (le_gc E)\<lparr>gc_mark := m\<rparr>\<rparr>)" using s1(6) by simp
  have "akl_gc_mark_list_entry (akl_gc_mark_object (Suc n)) s e m = Some s2"
    using s1(1) e1 E(6,7) mo by (simp add: akl_gc_mark_list_entry_def)
  then have run: "akl_gc_mark_object (Suc (Suc n)) s e m = Some s2"
    using h(1) E(5) by (simp add: akl_gc_mark_object.simps(2) [of "Suc n"] base_type_markers_def ai_gc_types_size_def GC_LIST_ENTRY_def)
  have i: "inner_list s e x \<longleftrightarrow> ?v \<noteq> NIL_ADDR \<and> ?v \<noteq> TRUE_ADDR \<and> va_type V = VT_LIST \<and> va_value V = V_list x \<and> x \<noteq> 0" for x
    using E(8) by (auto simp: inner_list_def d)
  have "ent_marked s2 m e" using s1(3) s2(2) by (simp add: marks_def)
  moreover have "\<forall>x. if inner_list s e x then lst_marked s2 m x else st_lists s2 x = st_lists s x"
    unfolding i using s2(6) s1(5) by simp
  ultimately have "reaches m s [e] s2"
    using marks_trans [OF s1(2) s2(2)] s2(3-5) s1(4,6) unfolding reaches_def d by (auto simp: d)
  then show ?thesis using run by blast
qed

lemma reaches_trans:
  assumes "reaches m s es t" "reaches m t fs u" shows "reaches m s (es @ fs) u"
proof -
  have m: "marks m s t" "marks m t u" using assms by (simp_all add: reaches_def)
  have d: "edata t = edata s" "inner_list t = inner_list s" using marks_edata [OF m(1)] marks_inner [OF m(1)] by blast+
  have k: "ent_marked t m x \<Longrightarrow> ent_marked u m x" "val_marked t m x \<Longrightarrow> val_marked u m x"
    "lst_marked t m x \<Longrightarrow> lst_marked u m x" for x
    using m(2) by (simp_all add: marks_def)
  show ?thesis
    using assms marks_trans [OF m] k unfolding reaches_def d by (simp add: ball_Un image_Un)
qed

lemma mark_all_ok:
  "\<forall>e\<in>set es. value_entry s e \<Longrightarrow>
   \<exists>s'. mark_all (akl_gc_mark_object (Suc (Suc n))) s es m = Some s' \<and> reaches m s es s'"
proof (induction es arbitrary: s)
  case Nil
  then show ?case by (simp add: reaches_def)
next
  case (Cons e es)
  obtain t where t: "akl_gc_mark_object (Suc (Suc n)) s e m = Some t" "reaches m s [e] t"
    using mark_entry_ok [of s e n m] Cons.prems by auto
  have "\<forall>e\<in>set es. value_entry t e"
    using Cons.prems value_entry_marks [of m s t] t(2) by (simp add: reaches_def)
  then obtain u where u: "mark_all (akl_gc_mark_object (Suc (Suc n))) t es m = Some u" "reaches m t es u"
    using Cons.IH by blast
  then show ?case using t(1) reaches_trans [OF t(2) u(2)] by auto
qed

subsection \<open>The property\<close>

text \<open>
  C40. Marking a list of values reaches one level. The marker of lists sets (or clears) the mark
  of the list, of every entry, of every value in it, and of the structure of every list among the
  values. It goes no further: every entry that is not the list's own, every value that is not the
  data of such an entry, and every other list is exactly as before, so what a nested list contains
  keeps its marks; and nothing but marks changes anywhere. (So a collector that relied on it
  would release what a nested list contains.)
\<close>

theorem marking_reaches_one_level:
  assumes "is_list s l es" "\<forall>e\<in>set es. value_entry s e" "gc_header s l = Some H" "gc_type_id H = GC_LIST"
  shows "\<exists>s'. akl_gc_mark_object (3 + n) s l m = Some s' \<and> only_marks s s' \<and> lst_marked s' m l \<and>
    (\<forall>e\<in>set es. ent_marked s' m e \<and> val_marked s' m (edata s e) \<and> (\<forall>x. inner_list s e x \<longrightarrow> lst_marked s' m x)) \<and>
    (\<forall>x. x \<notin> set es \<longrightarrow> st_ents s' x = st_ents s x) \<and>
    (\<forall>x. x \<notin> edata s ` set es \<longrightarrow> st_vals s' x = st_vals s x) \<and>
    (\<forall>x. x \<noteq> l \<and> (\<forall>e\<in>set es. \<not> inner_list s e x) \<longrightarrow> st_lists s' x = st_lists s x)"
proof -
  let ?mark = "akl_gc_mark_object (Suc (Suc n))"
  obtain t where t: "mark_all ?mark s es m = Some t" "reaches m s es t"
    using mark_all_ok [OF assms(2)] by blast
  obtain L0 where "st_lists s l = Some L0" using assms(1) by (auto simp: is_list_def)
  then obtain L where L: "st_lists t l = Some L"
    using t(2) unfolding reaches_def marks_def only_marks_def by (metis not_None_eq same_None(3))
  obtain u where u: "mark_lst t l m = Some u" "marks m t u" "lst_marked u m l" "st_ents u = st_ents t"
    "st_vals u = st_vals t" "\<forall>x. x \<noteq> l \<longrightarrow> st_lists u x = st_lists t x"
    using mark_lst_ok [OF L] by blast
  have "akl_gc_mark_list ?mark s l m = Some u"
    using FOREACH_ok [OF assms(1)] t(1) u(1) by (simp add: akl_gc_mark_list_def)
  moreover have three: "3 + n = Suc (Suc (Suc n))" by simp
  moreover have "base_type_markers ! gc_type_id H = Mark_list" "\<not> ai_gc_types_size \<le> gc_type_id H"
    "\<not> length base_type_markers \<le> gc_type_id H"
    using assms(4) by (simp_all add: base_type_markers_def ai_gc_types_size_def GC_LIST_def)
  ultimately have run: "akl_gc_mark_object (3 + n) s l m = Some u" using assms(3)
    unfolding three by (simp add: akl_gc_mark_object.simps(2))
  have "marks m s t" using t(2) by (simp only: reaches_def)
  then have om: "only_marks s u" using marks_trans [OF _ u(2)] unfolding marks_def by blast
  have k: "ent_marked t m x \<Longrightarrow> ent_marked u m x" "val_marked t m x \<Longrightarrow> val_marked u m x"
    "lst_marked t m x \<Longrightarrow> lst_marked u m x" for x
    using u(2) by (simp_all add: marks_def)
  have r: "\<forall>e\<in>set es. ent_marked t m e \<and> val_marked t m (edata s e) \<and> (\<forall>x. inner_list s e x \<longrightarrow> lst_marked t m x)"
    "\<forall>x. x \<notin> set es \<longrightarrow> st_ents t x = st_ents s x" "\<forall>x. x \<notin> edata s ` set es \<longrightarrow> st_vals t x = st_vals s x"
    "\<forall>x. (\<forall>e\<in>set es. \<not> inner_list s e x) \<longrightarrow> st_lists t x = st_lists s x"
    using t(2) unfolding reaches_def by blast+
  have "\<forall>e\<in>set es. ent_marked u m e \<and> val_marked u m (edata s e) \<and> (\<forall>x. inner_list s e x \<longrightarrow> lst_marked u m x)"
    using r(1) k by blast
  moreover have "\<forall>x. x \<noteq> l \<and> (\<forall>e\<in>set es. \<not> inner_list s e x) \<longrightarrow> st_lists u x = st_lists s x"
    using r(4) u(6) by simp
  ultimately show ?thesis using run om u(3) r(2,3) unfolding u(4,5) [symmetric] by blast
qed

text \<open>The list \<open>(1 (2))\<close>; 8 is the entry of the inner list.\<close>

definition nested :: akl_state where
  "nested = state0\<lparr>st_next := 20,
     st_lists := [3 \<mapsto> empty_list\<lparr>li_head := 4, li_last := 5, li_count := 2\<rparr>,
                  7 \<mapsto> empty_list\<lparr>li_head := 8, li_last := 8, li_count := 1\<rparr>],
     st_vals := [NIL_ADDR \<mapsto> NIL_VALUE, TRUE_ADDR \<mapsto> TRUE_VALUE,
                 10 \<mapsto> raw_value VT_NUMBER (V_number (dbl_of_int 1)), 11 \<mapsto> raw_value VT_LIST (V_list 7),
                 12 \<mapsto> raw_value VT_NUMBER (V_number (dbl_of_int 2))],
     st_ents := [4 \<mapsto> \<lparr>le_gc = (AKL_GC_INIT_OBJ GC_LIST_ENTRY)\<lparr>gc_le_is_obj := True\<rparr>, le_next = 5, le_prev = 0, le_data = 10\<rparr>,
                 5 \<mapsto> \<lparr>le_gc = (AKL_GC_INIT_OBJ GC_LIST_ENTRY)\<lparr>gc_le_is_obj := True\<rparr>, le_next = 0, le_prev = 4, le_data = 11\<rparr>,
                 8 \<mapsto> \<lparr>le_gc = (AKL_GC_INIT_OBJ GC_LIST_ENTRY)\<lparr>gc_le_is_obj := True\<rparr>, le_next = 0, le_prev = 0, le_data = 12\<rparr>]\<rparr>"

theorem marking_reaches_one_level_witness:
  "\<exists>s'. akl_gc_mark_object 3 nested 3 True = Some s' \<and> ent_marked s' True 4 \<and> val_marked s' True 10 \<and>
    ent_marked s' True 5 \<and> val_marked s' True 11 \<and> lst_marked s' True 7 \<and> ent_marked s' False 8 \<and> val_marked s' False 12"
proof -
  have l: "is_list nested 3 [4, 5]"
    by (simp add: is_list_def chain_def nested_def empty_list_def last0_def)
  have e: "\<forall>e\<in>set [4, 5]. value_entry nested e"
    by (simp add: value_entry_def) (simp add: nested_def state0_def raw_value_def AKL_GC_INIT_OBJ_def NIL_ADDR_def TRUE_ADDR_def)
  have h: "gc_header nested 3 = Some (li_gc empty_list)"
    by (simp add: gc_header_def nested_def state0_def NIL_ADDR_def TRUE_ADDR_def)
  have d: "edata nested 4 = 10" "edata nested 5 = 11" by (simp_all add: edata_def nested_def)
  have i: "inner_list nested 5 7" by (simp add: inner_list_def d(2)) (simp add: nested_def raw_value_def NIL_ADDR_def TRUE_ADDR_def)
  have g: "gc_type_id (li_gc empty_list) = GC_LIST" by (simp add: empty_list_def AKL_GC_INIT_OBJ_def)
  obtain s' where s': "akl_gc_mark_object (3 + 0) nested 3 True = Some s'"
    "\<forall>e\<in>set [4, 5]. ent_marked s' True e \<and> val_marked s' True (edata nested e) \<and> (\<forall>x. inner_list nested e x \<longrightarrow> lst_marked s' True x)"
    "\<forall>x. x \<notin> set [4, 5] \<longrightarrow> st_ents s' x = st_ents nested x"
    "\<forall>x. x \<notin> edata nested ` set [4, 5] \<longrightarrow> st_vals s' x = st_vals nested x"
    using marking_reaches_one_level [OF l e h g, of 0 True] by blast
  have "st_ents s' 8 = st_ents nested 8" "st_vals s' 12 = st_vals nested 12" using s'(3,4) d by simp_all
  then have "ent_marked s' False 8" "val_marked s' False 12"
    by (simp_all add: ent_marked_def val_marked_def nested_def AKL_GC_INIT_OBJ_def raw_value_def NIL_ADDR_def TRUE_ADDR_def)
  then show ?thesis using s'(1,2) d i by simp
qed

end
