(* ===== verification/Stack.thy ===== *)
theory Stack
  imports Symbols
begin

text \<open>
  Errors, the operand stack and the frames of \<open>src/aklisp.c\<close>, and \<open>akl_init_frame\<close> of
  \<open>src/types.c\<close>.

  The stack of a context is a list of values. A frame is a list structure of its own whose
  entries are those of the stack: \<open>akl_init_frame\<close> points it at the last \<open>argc\<close> entries, and
  shifting or popping a frame takes the entry out of both.
\<close>

subsection \<open>Contexts\<close>

definition upd_ctx :: "akl_state \<Rightarrow> addr \<Rightarrow> (akl_context \<Rightarrow> akl_context) \<Rightarrow> akl_state option" where
  "upd_ctx s c f = do { C \<leftarrow> st_ctxs s c; Some (s\<lparr>st_ctxs := (st_ctxs s)(c \<mapsto> f C)\<rparr>) }"

text \<open>Printing a string that may be NULL.\<close>

definition cstr :: "string option \<Rightarrow> string" where
  "cstr x = (case x of None \<Rightarrow> ''(null)'' | Some t \<Rightarrow> t)"

subsection \<open>Errors\<close>

definition is_lex_info_equal :: "akl_lex_info option \<Rightarrow> akl_lex_info option \<Rightarrow> bool" where
  "is_lex_info_equal l1 l2 =
     (case (l1, l2) of
        (Some a, Some b) \<Rightarrow>
          (case (li_name a, li_name b) of
             (Some x, Some y) \<Rightarrow> li_line a = li_line b \<and> li_column a = li_column b \<and> strcmp x y = 0
           | _ \<Rightarrow> False)
      | _ \<Rightarrow> False)"

partial_function (option) find_error ::
    "akl_state \<Rightarrow> akl_lex_info option \<Rightarrow> string \<Rightarrow> akl_alert_type \<Rightarrow> addr \<Rightarrow> bool option" where
  "find_error s info msg t ent =
     (if ent = 0 then Some False
      else do {
        E \<leftarrow> st_ents s ent;
        b \<leftarrow> (if le_data E = 0 then Some False
              else map_option (\<lambda>e. is_lex_info_equal info (err_info e) \<and> err_type e = t \<and>
                                   strcmp (err_msg e) msg = 0) (st_errs s (le_data E)));
        (if b then Some True else find_error s info msg t (le_prev E))
      })"

definition is_error_exist :: "akl_state \<Rightarrow> addr \<Rightarrow> string \<Rightarrow> akl_alert_type \<Rightarrow> bool option" where
  "is_error_exist s ctx msg t =
     do { C \<leftarrow> st_ctxs s ctx; L \<leftarrow> st_lists s (ai_errors s); find_error s (cx_lex_info C) msg t (li_last L) }"

text \<open>The message is formatted by the caller; \<open>vasprintf\<close> does not run out of memory here.\<close>

definition akl_raise_error :: "akl_state \<Rightarrow> addr \<Rightarrow> akl_alert_type \<Rightarrow> string \<Rightarrow> akl_state option" where
  "akl_raise_error s ctx type msg =
     do {
       C \<leftarrow> st_ctxs s ctx;
       (if \<not> cx_state C then Some s
        else do {
          let s = (if ai_errors s = 0 then (let (l, s) = akl_new_list s in s\<lparr>ai_errors := l\<rparr>) else s);
          ex \<leftarrow> is_error_exist s ctx msg type;
          (if ex then Some s
           else do {
             let err = st_next s;
             let s = s\<lparr>st_next := err + 1, st_errs := (st_errs s)(err \<mapsto>
                        \<lparr>err_info = cx_lex_info C, err_type = type, err_msg = msg\<rparr>)\<rparr>;
             (ent, s) \<leftarrow> akl_list_append s (ai_errors s) err;
             Some s
           })
        })
     }"

definition akl_clear_errors :: "akl_state \<Rightarrow> akl_state option" where
  "akl_clear_errors s =
     (if ai_errors s = 0 then Some s
      else do {
        es \<leftarrow> AKL_LIST_FOREACH s (ai_errors s);
        ds \<leftarrow> entries_data s es;
        let s = s\<lparr>st_errs := (\<lambda>p. if p \<in> set ds then None else st_errs s p)\<rparr>;
        upd_list s (ai_errors s) (\<lambda>L. L\<lparr>li_count := 0, li_head := 0, li_last := 0\<rparr>)
      })"

text \<open>What \<open>akl_print_errors\<close> writes to the standard error output.\<close>

definition ESC :: string where "ESC = [CHR 0x1B]"
definition AKL_GREEN :: string where "AKL_GREEN = ESC @ ''[32m''"
definition AKL_YELLOW :: string where "AKL_YELLOW = ESC @ ''[33m''"
definition AKL_BLUE :: string where "AKL_BLUE = ESC @ ''[34m''"
definition AKL_RED :: string where "AKL_RED = ESC @ ''[31m''"
definition AKL_PURPLE :: string where "AKL_PURPLE = ESC @ ''[35m''"
definition AKL_BRIGHT_GREEN :: string where "AKL_BRIGHT_GREEN = ESC @ ''[1;32m''"
definition AKL_BRIGHT_YELLOW :: string where "AKL_BRIGHT_YELLOW = ESC @ ''[1;33m''"
definition AKL_END_COLOR_MARK :: string where "AKL_END_COLOR_MARK = ESC @ ''[0m''"

definition AKL_COLORFUL :: "akl_state \<Rightarrow> string \<Rightarrow> string" where
  "AKL_COLORFUL s c = (if AKL_IS_FEATURE_ON s AKL_CFG_USE_COLORS then c else [])"

text \<open>
  The position of an error without one is the position of the error before it: \<open>name\<close>, \<open>line\<close>
  and \<open>count\<close> are not reset in the loop.
\<close>

fun print_errors_loop ::
    "akl_state \<Rightarrow> string option \<Rightarrow> u32 \<Rightarrow> u32 \<Rightarrow> addr list \<Rightarrow> string option" where
  "print_errors_loop s name line cnt [] = Some []"
| "print_errors_loop s name line cnt (d # ds) =
     (if d = 0 then print_errors_loop s name line cnt ds
      else do {
        e \<leftarrow> st_errs s d;
        let (name, line, cnt) = (case err_info e of None \<Rightarrow> (name, line, cnt)
                                 | Some i \<Rightarrow> (li_name i, li_line i, li_column i));
        rest \<leftarrow> print_errors_loop s name line cnt ds;
        let pos = cstr name @ '':'' @ show_int (sint line) @ '':'' @ show_int (sint cnt);
        Some ((if AKL_IS_FEATURE_ON s AKL_CFG_USE_COLORS
               then AKL_GREEN @ pos @ AKL_END_COLOR_MARK @ '': '' @
                    (if err_type e = ALERT_ERROR then AKL_RED else AKL_YELLOW) @ err_msg e @ [CHR 0x0A] @
                    AKL_END_COLOR_MARK
               else pos @ '': '' @ err_msg e @ [CHR 0x0A]) @ rest)
      })"

definition akl_print_errors :: "akl_state \<Rightarrow> string option" where
  "akl_print_errors s =
     (if ai_errors s = 0 then Some []
      else do {
        es \<leftarrow> AKL_LIST_FOREACH s (ai_errors s);
        ds \<leftarrow> entries_data s es;
        out \<leftarrow> print_errors_loop s (Some ''(unknown)'') 0 0 ds;
        Some (out @ (if AKL_IS_FEATURE_ON s AKL_CFG_INTERACTIVE then []
                     else show_int (int (length es)) @ '' error report generated.'' @ [CHR 0x0A]))
      })"

subsection \<open>The stack\<close>

definition akl_stack_clear :: "akl_state \<Rightarrow> addr \<Rightarrow> akl_state option" where
  "akl_stack_clear s ctx = do { C \<leftarrow> st_ctxs s ctx; Some (akl_init_list s (cx_stack C)) }"

definition akl_stack_push :: "akl_state \<Rightarrow> addr \<Rightarrow> addr \<Rightarrow> akl_state option" where
  "akl_stack_push s ctx val =
     (if ctx = 0 \<or> val = 0 then None
      else do { C \<leftarrow> st_ctxs s ctx; (ent, s) \<leftarrow> akl_list_append_value s (cx_stack C) val; Some s })"

definition akl_stack_head :: "akl_state \<Rightarrow> addr option" where
  "akl_stack_head s = akl_list_head s (ai_stack s)"

definition akl_stack_top :: "akl_state \<Rightarrow> addr \<Rightarrow> addr option" where
  "akl_stack_top s ctx =
     do { C \<leftarrow> st_ctxs s ctx; (if cx_state C then akl_list_last s (cx_stack C) else None) }"

definition akl_stack_pop :: "akl_state \<Rightarrow> addr \<Rightarrow> (addr \<times> akl_state) option" where
  "akl_stack_pop s ctx =
     do {
       C \<leftarrow> st_ctxs s ctx;
       (v, s) \<leftarrow> akl_list_pop s (cx_stack C);
       (if v = 0 \<and> cx_parent C \<noteq> 0
        then do { P \<leftarrow> st_ctxs s (cx_parent C); akl_list_pop s (cx_stack P) }
        else Some (v, s))
     }"

subsection \<open>Frames\<close>

text \<open>
  The walk of \<open>akl_init_frame\<close>: \<open>while (--fs && has_prev(it))\<close>. For \<open>fs \<le> 0\<close> it ends at the
  bottom of the stack.
\<close>

partial_function (option) frame_walk :: "akl_state \<Rightarrow> int \<Rightarrow> addr \<Rightarrow> addr option" where
  "frame_walk s fs it =
     (if fs - 1 = 0 then Some it
      else do {
        p \<leftarrow> akl_list_it_has_prev s it;
        (if p then do { (d, it) \<leftarrow> akl_list_it_prev s it; frame_walk s (fs - 1) it } else Some it)
      })"

definition akl_init_frame :: "akl_state \<Rightarrow> addr \<Rightarrow> int \<Rightarrow> akl_state option" where
  "akl_init_frame s ctx len =
     do {
       C \<leftarrow> st_ctxs s ctx;
       it \<leftarrow> akl_list_it_end s (cx_stack C);
       let (frame, s) = akl_new_list s;
       s \<leftarrow> upd_ctx s ctx (\<lambda>C. C\<lparr>cx_frame := frame\<rparr>);
       (if len = - 1 then Some s
        else do {
          s \<leftarrow> upd_list s frame (\<lambda>L. L\<lparr>li_count := of_int len, li_last := it\<rparr>);
          s \<leftarrow> upd_ctx s ctx (\<lambda>C. C\<lparr>cx_frame_len := of_int len\<rparr>);
          it \<leftarrow> frame_walk s len it;
          upd_list s frame (\<lambda>L. L\<lparr>li_head := it\<rparr>)
        })
     }"

definition akl_frame_get_count :: "akl_state \<Rightarrow> addr \<Rightarrow> u32 option" where
  "akl_frame_get_count s ctx = do { C \<leftarrow> st_ctxs s ctx; akl_list_count s (cx_frame C) }"

definition akl_frame_is_empty :: "akl_state \<Rightarrow> addr \<Rightarrow> bool option" where
  "akl_frame_is_empty s ctx = map_option (\<lambda>n. n = 0) (akl_frame_get_count s ctx)"

definition akl_frame_get_pointer :: "akl_state \<Rightarrow> addr \<Rightarrow> u32 option" where
  "akl_frame_get_pointer s ctx = akl_frame_get_count s ctx"

text \<open>The index is unsigned here and an \<open>int\<close> in \<open>akl_list_index_value\<close>.\<close>

definition akl_frame_at :: "akl_state \<Rightarrow> addr \<Rightarrow> u32 \<Rightarrow> addr option" where
  "akl_frame_at s ctx ind = do { C \<leftarrow> st_ctxs s ctx; akl_list_index_value s (cx_frame C) (sint ind) }"

definition akl_frame_shift :: "akl_state \<Rightarrow> addr \<Rightarrow> (addr \<times> akl_state) option" where
  "akl_frame_shift s ctx =
     (if ctx = 0 then Some (0, s)
      else do {
        n \<leftarrow> akl_frame_get_count s ctx;
        (if n = 0 then Some (0, s)
         else do {
           C \<leftarrow> st_ctxs s ctx;
           (ent, s) \<leftarrow> akl_list_shift_entry s (cx_frame C);
           (r, s) \<leftarrow> akl_list_remove_entry s (cx_stack C) ent;
           v \<leftarrow> entry_data s ent;
           Some (v, s)
         })
      })"

definition akl_frame_pop :: "akl_state \<Rightarrow> addr \<Rightarrow> (addr \<times> akl_state) option" where
  "akl_frame_pop s ctx =
     (if ctx = 0 then Some (0, s)
      else do {
        C \<leftarrow> st_ctxs s ctx;
        (if \<not> cx_state C then Some (0, s)
         else do {
           n \<leftarrow> akl_frame_get_count s ctx;
           (if n = 0 then Some (0, s)
            else do {
              (ent, s) \<leftarrow> akl_list_pop_entry s (cx_frame C);
              (r, s) \<leftarrow> akl_list_remove_entry s (cx_stack C) ent;
              v \<leftarrow> entry_data s ent;
              Some (v, s)
            })
         })
      })"

definition akl_frame_push :: "akl_state \<Rightarrow> addr \<Rightarrow> addr \<Rightarrow> akl_state option" where
  "akl_frame_push s ctx val =
     do { C \<leftarrow> st_ctxs s ctx; (if cx_state C \<and> val \<noteq> 0 then akl_stack_push s ctx val else None) }"

definition akl_frame_head :: "akl_state \<Rightarrow> addr \<Rightarrow> addr option" where
  "akl_frame_head s ctx =
     (if ctx = 0 then Some 0 else do { C \<leftarrow> st_ctxs s ctx; akl_list_head s (cx_frame C) })"

definition akl_frame_top :: "akl_state \<Rightarrow> addr \<Rightarrow> addr option" where
  "akl_frame_top s ctx = do { C \<leftarrow> st_ctxs s ctx; akl_list_last s (cx_frame C) }"

text \<open>
  \<open>akl_frame_destroy\<close> pops until the frame is empty. A frame whose count is larger than its
  entries gives NULL first.
\<close>

partial_function (option) akl_frame_destroy :: "akl_state \<Rightarrow> addr \<Rightarrow> akl_state option" where
  "akl_frame_destroy s cx =
     do { (v, s) \<leftarrow> akl_frame_pop s cx; (if v = 0 then Some s else akl_frame_destroy s cx) }"

text \<open>\<open>None\<close> in the first component is the NULL pointer.\<close>

definition akl_frame_pop_number :: "akl_state \<Rightarrow> addr \<Rightarrow> (double option \<times> akl_state) option" where
  "akl_frame_pop_number s ctx =
     do { (v, s) \<leftarrow> akl_frame_pop s ctx;
          b \<leftarrow> is_type s v VT_NUMBER;
          (if b then do { V \<leftarrow> st_vals s v; d \<leftarrow> get_number V; Some (Some d, s) } else Some (None, s)) }"

definition akl_frame_shift_number :: "akl_state \<Rightarrow> addr \<Rightarrow> (double option \<times> akl_state) option" where
  "akl_frame_shift_number s ctx =
     do { (v, s) \<leftarrow> akl_frame_shift s ctx;
          b \<leftarrow> is_type s v VT_NUMBER;
          (if b then do { V \<leftarrow> st_vals s v; d \<leftarrow> get_number V; Some (Some d, s) } else Some (None, s)) }"

definition akl_frame_pop_string :: "akl_state \<Rightarrow> addr \<Rightarrow> (string option \<times> akl_state) option" where
  "akl_frame_pop_string s ctx =
     do { (v, s) \<leftarrow> akl_frame_pop s ctx; x \<leftarrow> AKL_GET_STRING_VALUE s v; Some (x, s) }"

definition akl_frame_shift_string :: "akl_state \<Rightarrow> addr \<Rightarrow> (string option \<times> akl_state) option" where
  "akl_frame_shift_string s ctx =
     do { (v, s) \<leftarrow> akl_frame_shift s ctx; x \<leftarrow> AKL_GET_STRING_VALUE s v; Some (x, s) }"

definition akl_frame_pop_list :: "akl_state \<Rightarrow> addr \<Rightarrow> (addr \<times> akl_state) option" where
  "akl_frame_pop_list s ctx =
     do { (v, s) \<leftarrow> akl_frame_pop s ctx; x \<leftarrow> AKL_GET_LIST_VALUE s v; Some (x, s) }"

definition akl_frame_shift_list :: "akl_state \<Rightarrow> addr \<Rightarrow> (addr \<times> akl_state) option" where
  "akl_frame_shift_list s ctx =
     do { (v, s) \<leftarrow> akl_frame_shift s ctx; x \<leftarrow> AKL_GET_LIST_VALUE s v; Some (x, s) }"

definition akl_stack_top_type :: "akl_state \<Rightarrow> addr \<Rightarrow> (akl_value_type \<times> akl_state) option" where
  "akl_stack_top_type s ctx =
     do { (v, s) \<leftarrow> akl_frame_pop s ctx;
          (if v = 0 then Some (VT_NIL, s) else do { V \<leftarrow> st_vals s v; Some (va_type V, s) }) }"

subsection \<open>The arguments of a function\<close>

text \<open>\<open>None\<close> in the first component is the return value -1; otherwise the arguments in order.\<close>

fun get_args_loop :: "akl_state \<Rightarrow> addr \<Rightarrow> nat \<Rightarrow> nat \<Rightarrow> (addr list option \<times> akl_state) option" where
  "get_args_loop s ctx cnt 0 = Some (Some [], s)"
| "get_args_loop s ctx cnt (Suc ac) =
     do {
       (v, s) \<leftarrow> akl_frame_shift s ctx;
       (if v = 0
        then do {
          s \<leftarrow> akl_raise_error s ctx ALERT_ERROR
                 (''Bug in the interpreter (NULL in stack) at the '' @ show_int (int cnt) @ ''. argument'');
          Some (None, s)
        }
        else do {
          (vs, s) \<leftarrow> get_args_loop s ctx (cnt + 1) ac;
          Some (map_option (\<lambda>vs. v # vs) vs, s)
        })
     }"

definition expected_args :: "string option \<Rightarrow> int \<Rightarrow> u32 \<Rightarrow> string" where
  "expected_args name argc got =
     cstr name @ '': Expected '' @ show_int argc @ '' argument'' @ (if 1 < argc then ''s'' else []) @
     '', but got '' @ show_int (sint got)"

definition akl_get_args :: "akl_state \<Rightarrow> addr \<Rightarrow> nat \<Rightarrow> (addr list option \<times> akl_state) option" where
  "akl_get_args s ctx argc =
     do {
       C \<leftarrow> st_ctxs s ctx;
       n \<leftarrow> akl_frame_get_count s ctx;
       (if \<not> cx_state C then None
        else if of_nat argc \<noteq> n
        then do {
          s \<leftarrow> akl_raise_error s ctx ALERT_ERROR (expected_args (cx_func_name C) (int argc) n);
          Some (None, s)
        }
        else get_args_loop s ctx 1 argc)
     }"

text \<open>The expected types, and the arguments as the caller's variables receive them.\<close>

datatype arg_type = TYPE_ANY | TYPE_OPT | TYPE_REST | TYPE_OF akl_value_type

datatype arg_value = ARG_none | ARG_value addr | ARG_symbol addr | ARG_fun addr | ARG_list addr
  | ARG_udata addr | ARG_number double | ARG_string "string option" | ARG_bool bool

definition read_arg :: "akl_state \<Rightarrow> arg_type \<Rightarrow> addr \<Rightarrow> arg_value option" where
  "read_arg s t vp =
     do {
       V \<leftarrow> st_vals s vp;
       (case t of
          TYPE_ANY \<Rightarrow> Some (ARG_value vp)
        | TYPE_OPT \<Rightarrow> Some ARG_none
        | TYPE_REST \<Rightarrow> Some ARG_none
        | TYPE_OF VT_SYMBOL \<Rightarrow> (case va_value V of V_symbol y \<Rightarrow> Some (ARG_symbol y) | _ \<Rightarrow> None)
        | TYPE_OF VT_FUNCTION \<Rightarrow> (case va_value V of V_func f \<Rightarrow> Some (ARG_fun f) | _ \<Rightarrow> None)
        | TYPE_OF VT_LIST \<Rightarrow> map_option ARG_list (AKL_GET_LIST_VALUE s vp)
        | TYPE_OF VT_USERDATA \<Rightarrow> map_option ARG_udata (akl_get_userdata_value s vp)
        | TYPE_OF VT_NUMBER \<Rightarrow> map_option ARG_number (AKL_GET_NUMBER_VALUE s vp)
        | TYPE_OF VT_STRING \<Rightarrow> map_option ARG_string (AKL_GET_STRING_VALUE s vp)
        | TYPE_OF VT_NIL \<Rightarrow> Some (ARG_bool (va_nil V))
        | TYPE_OF VT_TRUE \<Rightarrow> Some (ARG_bool (\<not> va_nil V))
        | TYPE_OF VT_VARIABLE \<Rightarrow> Some ARG_none)
     }"

text \<open>
  The loop over the arguments: \<open>arg_opt\<close> and the number of arguments that are not optional.
  \<open>TYPE_NIL\<close> and \<open>TYPE_TRUE\<close> accept every type (as truth values), so do the pseudotypes.
\<close>

fun get_args_strict_loop ::
    "akl_state \<Rightarrow> addr \<Rightarrow> nat \<Rightarrow> bool \<Rightarrow> nat \<Rightarrow> arg_type list \<Rightarrow>
      ((arg_value list \<times> nat) option \<times> akl_state) option" where
  "get_args_strict_loop s ctx cnt arg_opt noopt [] = Some (Some ([], noopt), s)"
| "get_args_strict_loop s ctx cnt arg_opt noopt (t # ts) =
     do {
       (vp, s) \<leftarrow> akl_frame_shift s ctx;
       (if vp = 0
        then do {
          s \<leftarrow> akl_raise_error s ctx ALERT_ERROR
                 (''Bug in the interpreter (NULL in stack) for the '' @ show_int (int cnt) @ ''. argument'');
          Some (None, s)
        }
        else do {
          V \<leftarrow> st_vals s vp;
          (case t of
             TYPE_OF ty \<Rightarrow>
               (if ty \<noteq> VT_NIL \<and> ty \<noteq> VT_TRUE \<and> ty \<noteq> va_type V
                then (if arg_opt then Some (None, s)
                  else do {
                    s \<leftarrow> upd_ctx s ctx (\<lambda>C. C\<lparr>cx_lex_info := va_lex_info V\<rparr>);
                    C \<leftarrow> st_ctxs s ctx;
                    s \<leftarrow> akl_raise_error s ctx ALERT_ERROR (cstr (cx_func_name C) @ '': Expected '' @
                           akl_type_name ty @ '' but got '' @ akl_type_name (va_type V));
                    Some (None, s)
                  })
                else do {
                  a \<leftarrow> read_arg s t vp;
                  (r, s) \<leftarrow> get_args_strict_loop s ctx cnt arg_opt (noopt + 1) ts;
                  Some (map_option (\<lambda>(as, k). (a # as, k)) r, s)
                })
           | TYPE_OPT \<Rightarrow> get_args_strict_loop s ctx cnt True noopt ts
           | _ \<Rightarrow> do {
               a \<leftarrow> read_arg s t vp;
               (r, s) \<leftarrow> get_args_strict_loop s ctx cnt arg_opt (noopt + 1) ts;
               Some (map_option (\<lambda>(as, k). (a # as, k)) r, s)
             })
        })
     }"

text \<open>\<open>argc\<close> is -1 after the loop, and so it is in the message.\<close>

definition akl_get_args_strict ::
    "akl_state \<Rightarrow> addr \<Rightarrow> arg_type list \<Rightarrow> (arg_value list option \<times> akl_state) option" where
  "akl_get_args_strict s ctx ts =
     do {
       C \<leftarrow> st_ctxs s ctx;
       n \<leftarrow> akl_frame_get_count s ctx;
       (if \<not> cx_state C then None
        else if ts = [] then Some (None, s)
        else do {
          (r, s) \<leftarrow> get_args_strict_loop s ctx 1 False 0 ts;
          (case r of
             None \<Rightarrow> Some (None, s)
           | Some (as, noopt) \<Rightarrow>
               if n \<noteq> of_nat noopt
               then do {
                 s \<leftarrow> akl_raise_error s ctx ALERT_ERROR (expected_args (cx_func_name C) (- 1) (of_nat noopt));
                 Some (None, s)
               }
               else Some (Some as, s))
        })
     }"

subsection \<open>Calling\<close>

text \<open>
  \<open>akl_bound_function\<close>: a context for the call of a function, 0 when there is no function. The
  new context is a copy of the caller's, which is its parent.
\<close>

definition akl_bound_function :: "akl_state \<Rightarrow> addr \<Rightarrow> addr \<Rightarrow> addr \<Rightarrow> (addr \<times> akl_state) option" where
  "akl_bound_function s ctx symb fn =
     do {
       C \<leftarrow> st_ctxs s ctx;
       let (cx, s) = akl_new_context s;
       let s = s\<lparr>st_ctxs := (st_ctxs s)(cx \<mapsto> C)\<rparr>;
       name \<leftarrow> sym_name s symb;
       (fn, s) \<leftarrow>
         (if fn \<noteq> 0 then Some (Some fn, s)
          else if symb = 0
          then do { s \<leftarrow> akl_raise_error s ctx ALERT_ERROR
                      ''Interpreter error: Function and symbol can't be NULL at the same time.'';
                    Some (None, s) }
          else do {
            let v = akl_get_global_var s symb;
            isf \<leftarrow> akl_var_is_function s v;
            (if v = 0
             then do { s \<leftarrow> akl_raise_error s ctx ALERT_ERROR
                         (''Variable '' @ [CHR 0x27] @ cstr name @ [CHR 0x27] @ '' is not a found.'');
                       Some (None, s) }
             else if \<not> isf
             then do { s \<leftarrow> akl_raise_error s ctx ALERT_ERROR
                         (''Variable '' @ [CHR 0x27] @ cstr name @ [CHR 0x27] @ '' is not a function'');
                       Some (None, s) }
             else do { f \<leftarrow> akl_var_to_function s v; Some (Some f, s) })
          });
       (case fn of None \<Rightarrow> Some (0, s)
        | Some fn \<Rightarrow> do {
          s \<leftarrow> upd_ctx s cx (\<lambda>X. X\<lparr>cx_func := fn,
                 cx_func_name := (if symb = 0 then Some ''lambda'' else name), cx_parent := ctx\<rparr>);
          Some (cx, s)
        })
     }"

end
