(* ===== verification/Lexer.thy ===== *)
theory Lexer
  imports Symbols
begin

text \<open>
  The lexical analyser, \<open>src/lexer.c\<close>, over the two kinds of input devices.

  A string device reads \<open>string[pos++]\<close>: the terminating NUL is at \<open>pos = length\<close>, and
  reading behind it is undefined (\<open>None\<close>). A file device pops characters, returns EOF and
  sets its flag at the end; \<open>ungetc\<close> pushes one back (and ignores EOF). The variables of type
  \<open>char\<close> are characters: EOF becomes the character 255, which \<open>ch == EOF\<close> then recognises.
  The loops carry fuel; every iteration reads a character, and the fuel \<open>lex_fuel\<close> is more
  than there are (a loop that does not end at the end of a file has no result).
\<close>

subsection \<open>Devices\<close>

abbreviation NUL :: char where "NUL \<equiv> CHR 0x00"
abbreviation NL :: char where "NL \<equiv> CHR 0x0A"
abbreviation EOF_CHAR :: char where "EOF_CHAR \<equiv> CHR 0xFF"
abbreviation DQUOTE :: char where "DQUOTE \<equiv> CHR 0x22"
abbreviation QUOTE :: char where "QUOTE \<equiv> CHR 0x27"
abbreviation BACKSLASH :: char where "BACKSLASH \<equiv> CHR 0x5C"

text \<open>A \<open>char\<close> is signed; an \<open>int\<close> stored in a \<open>char\<close> keeps its low byte.\<close>

definition char_to_int :: "char \<Rightarrow> int" where
  "char_to_int c = (if 128 \<le> (of_char c :: nat) then int (of_char c) - 256 else int (of_char c))"

definition int_to_char :: "int \<Rightarrow> char" where
  "int_to_char i = char_of (nat (i mod 256))"

definition akl_io_getc :: "akl_io_device \<Rightarrow> (int \<times> akl_io_device) option" where
  "akl_io_getc dev =
     (let dev = dev\<lparr>iod_char_count := iod_char_count dev + 1\<rparr> in
      case iod_source dev of
        DEVICE_FILE [] e \<Rightarrow> Some (- 1, dev\<lparr>iod_source := DEVICE_FILE [] True\<rparr>)
      | DEVICE_FILE (c # cs) e \<Rightarrow> Some (int (of_char c), dev\<lparr>iod_source := DEVICE_FILE cs e\<rparr>)
      | DEVICE_STRING str \<Rightarrow>
          if iod_pos dev < length str
          then Some (char_to_int (str ! iod_pos dev), dev\<lparr>iod_pos := iod_pos dev + 1\<rparr>)
          else if iod_pos dev = length str then Some (0, dev\<lparr>iod_pos := iod_pos dev + 1\<rparr>)
          else None)"

definition akl_io_ungetc :: "int \<Rightarrow> akl_io_device \<Rightarrow> akl_io_device option" where
  "akl_io_ungetc ch dev =
     (let dev = dev\<lparr>iod_char_count := iod_char_count dev - 1\<rparr> in
      case iod_source dev of
        DEVICE_FILE cs e \<Rightarrow>
          Some (if ch = - 1 then dev else dev\<lparr>iod_source := DEVICE_FILE (int_to_char ch # cs) False\<rparr>)
      | DEVICE_STRING str \<Rightarrow> (if iod_pos dev = 0 then None else Some (dev\<lparr>iod_pos := iod_pos dev - 1\<rparr>)))"

definition akl_io_eof :: "akl_io_device \<Rightarrow> bool option" where
  "akl_io_eof dev =
     (case iod_source dev of
        DEVICE_FILE cs e \<Rightarrow> Some e
      | DEVICE_STRING str \<Rightarrow>
          if iod_pos dev < length str then Some (str ! iod_pos dev = NUL)
          else if iod_pos dev = length str then Some True else None)"

definition getc_char :: "akl_io_device \<Rightarrow> (char \<times> akl_io_device) option" where
  "getc_char dev = do { (i, dev) \<leftarrow> akl_io_getc dev; Some (int_to_char i, dev) }"

definition ungetc_char :: "char \<Rightarrow> akl_io_device \<Rightarrow> akl_io_device option" where
  "ungetc_char ch dev = akl_io_ungetc (char_to_int ch) dev"

definition lex_fuel :: "akl_io_device \<Rightarrow> nat" where
  "lex_fuel dev = (case iod_source dev of DEVICE_FILE cs e \<Rightarrow> length cs + 4
     | DEVICE_STRING str \<Rightarrow> length str + 4 - iod_pos dev)"

subsection \<open>The buffer\<close>

definition DEF_BUFFER_SIZE :: u32 where "DEF_BUFFER_SIZE = 50"

definition init_lexer :: "akl_io_device \<Rightarrow> akl_io_device" where
  "init_lexer dev = dev\<lparr>iod_buffer := Some None, iod_buffer_size := DEF_BUFFER_SIZE, iod_backlog := tEOF\<rparr>"

definition akl_lex_free :: "akl_io_device \<Rightarrow> akl_io_device" where
  "akl_lex_free dev = dev\<lparr>iod_buffer_size := 0, iod_buffer := None\<rparr>"

definition akl_lex_get_filename :: "akl_io_device \<Rightarrow> string option" where
  "akl_lex_get_filename dev = (case iod_source dev of DEVICE_FILE _ _ \<Rightarrow> iod_name dev | _ \<Rightarrow> None)"

text \<open>The buffer holds what precedes its NUL. Writing behind the text leaves a gap of garbage.\<close>

definition put_buffer :: "akl_io_device \<Rightarrow> nat \<Rightarrow> char \<Rightarrow> akl_io_device option" where
  "put_buffer dev pos ch =
     (let dev = (if iod_buffer_size dev \<le> of_nat (pos + 1)
                 then dev\<lparr>iod_buffer_size := iod_buffer_size dev + iod_buffer_size dev div 2\<rparr> else dev)
      in case iod_buffer dev of
        None \<Rightarrow> None
      | Some txt \<Rightarrow>
          (let t = (case txt of None \<Rightarrow> [] | Some t \<Rightarrow> t) in
           if length t < pos \<or> iod_buffer_size dev \<le> of_nat (pos + 1) then None
           else Some (dev\<lparr>iod_buffer := Some (Some (take pos t @ [ch]))\<rparr>)))"

text \<open>The buffer read as a C string.\<close>

definition buffer_text :: "akl_io_device \<Rightarrow> string option" where
  "buffer_text dev = (case iod_buffer dev of Some (Some t) \<Rightarrow> Some (takeWhile (\<lambda>c. c \<noteq> NUL) t) | _ \<Rightarrow> None)"

definition set_buffer :: "akl_io_device \<Rightarrow> string \<Rightarrow> akl_io_device" where
  "set_buffer dev t = dev\<lparr>iod_buffer := Some (Some t)\<rparr>"

subsection \<open>Numbers, strings, atoms\<close>

definition is_valid_in_number :: "char \<Rightarrow> bool" where
  "is_valid_in_number ch \<longleftrightarrow> is_digit ch \<or>
     tolower ch \<in> {CHR ''e'', CHR ''+'', CHR ''-'', CHR ''x'', CHR ''.'', CHR ''a'', CHR ''b'',
       CHR ''c'', CHR ''d'', CHR ''f''}"

fun copy_number_loop :: "nat \<Rightarrow> akl_io_device \<Rightarrow> nat \<Rightarrow> akl_io_device option" where
  "copy_number_loop 0 dev i = None"
| "copy_number_loop (Suc n) dev i =
     do {
       (ch, dev) \<leftarrow> akl_io_getc dev;
       (if ch = 0 then Some dev
        else if is_valid_in_number (int_to_char ch)
        then do {
          dev \<leftarrow> put_buffer dev i (int_to_char ch);
          e \<leftarrow> akl_io_eof dev;
          (if e then Some dev else copy_number_loop n dev (i + 1))
        }
        else akl_io_ungetc ch dev)
     }"

text \<open>
  After \<open>ungetc\<close> the loop breaks. (After the last iteration the code tests for the end of the
  input once more, without effect.)
\<close>

definition copy_number :: "akl_io_device \<Rightarrow> char option \<Rightarrow> akl_io_device option" where
  "copy_number dev op =
     (case op of None \<Rightarrow> copy_number_loop (lex_fuel dev) dev 0
      | Some c \<Rightarrow> do { dev \<leftarrow> put_buffer dev 0 c; copy_number_loop (lex_fuel dev) dev 1 })"

fun copy_string_loop :: "nat \<Rightarrow> akl_io_device \<Rightarrow> nat \<Rightarrow> akl_io_device option" where
  "copy_string_loop 0 dev i = None"
| "copy_string_loop (Suc n) dev i =
     do {
       (ch, dev) \<leftarrow> getc_char dev;
       (if ch = NUL then Some dev
        else if ch = BACKSLASH
        then do {
          (ch, dev) \<leftarrow> getc_char dev;
          (dev, i) \<leftarrow> (if ch = DQUOTE
             then do { dev \<leftarrow> put_buffer dev i ch; Some (dev, i + 1) }
             else do { dev \<leftarrow> put_buffer dev i BACKSLASH; dev \<leftarrow> put_buffer dev (i + 1) ch; Some (dev, i + 2) });
          e \<leftarrow> akl_io_eof dev;
          (if e then Some dev else copy_string_loop n dev i)
        }
        else if ch \<noteq> DQUOTE
        then do {
          dev \<leftarrow> put_buffer dev i ch;
          e \<leftarrow> akl_io_eof dev;
          (if e then Some dev else copy_string_loop n dev (i + 1))
        }
        else Some dev)
     }"

definition copy_string :: "akl_io_device \<Rightarrow> akl_io_device option" where
  "copy_string dev = copy_string_loop (lex_fuel dev) dev 0"

definition ends_atom :: "char \<Rightarrow> bool" where
  "ends_atom ch \<longleftrightarrow> ch = CHR '' '' \<or> ch = CHR ''('' \<or> ch = CHR '')'' \<or> ch = NL"

fun copy_atom_loop :: "nat \<Rightarrow> akl_io_device \<Rightarrow> nat \<Rightarrow> akl_io_device option" where
  "copy_atom_loop 0 dev i = None"
| "copy_atom_loop (Suc n) dev i =
     do {
       (ch, dev) \<leftarrow> getc_char dev;
       (if ch = NUL then Some dev
        else if \<not> ends_atom ch
        then do {
          dev \<leftarrow> put_buffer dev i (tolower ch);
          e \<leftarrow> akl_io_eof dev;
          (if e then Some dev else copy_atom_loop n dev (i + 1))
        }
        else ungetc_char ch dev)
     }"

definition copy_atom :: "akl_io_device \<Rightarrow> akl_io_device option" where
  "copy_atom dev = copy_atom_loop (lex_fuel dev) dev 0"

subsection \<open>Tokens\<close>

definition akl_lex_putback :: "akl_io_device \<Rightarrow> akl_token \<Rightarrow> akl_io_device" where
  "akl_lex_putback dev tok = dev\<lparr>iod_backlog := tok\<rparr>"

definition is_alpha :: "char \<Rightarrow> bool" where
  "is_alpha c \<longleftrightarrow> is_upper c \<or> is_lower c"

definition is_punct :: "char \<Rightarrow> bool" where
  "is_punct c \<longleftrightarrow> 33 \<le> (of_char c :: nat) \<and> (of_char c :: nat) \<le> 126 \<and> \<not> is_alpha c \<and> \<not> is_digit c"

text \<open>Skipping a shebang line: the character that ended it.\<close>

fun skip_shebang :: "nat \<Rightarrow> akl_io_device \<Rightarrow> (char \<times> akl_io_device) option" where
  "skip_shebang 0 dev = None"
| "skip_shebang (Suc n) dev =
     do { (ch, dev) \<leftarrow> getc_char dev;
          (if ch = NUL \<or> ch = NL then Some (ch, dev) else skip_shebang n dev) }"

text \<open>Skipping a comment: whether the input ended.\<close>

fun skip_comment :: "nat \<Rightarrow> akl_io_device \<Rightarrow> (bool \<times> akl_io_device) option" where
  "skip_comment 0 dev = None"
| "skip_comment (Suc n) dev =
     do { (ch, dev) \<leftarrow> getc_char dev;
          (if ch = NL then Some (False, dev)
           else do { e \<leftarrow> akl_io_eof dev; (if e then Some (True, dev) else skip_comment n dev) }) }"

text \<open>
  The main loop. \<open>op\<close> is a \<open>+\<close> or \<open>-\<close> that was read and not used yet. A
  character the lexer does not know is skipped.
\<close>

fun lex_loop :: "nat \<Rightarrow> akl_io_device \<Rightarrow> char option \<Rightarrow> (akl_token \<times> akl_io_device) option" where
  "lex_loop 0 dev op = None"
| "lex_loop (Suc n) dev op =
     do {
       (ch, dev) \<leftarrow> getc_char dev;
       (if ch = NUL then Some (tEOF, dev)
        else do {
          (ch, dev) \<leftarrow> (if iod_char_count dev = 1 \<and> ch = CHR ''#'' then skip_shebang n dev else Some (ch, dev));
          (if ch = EOF_CHAR then Some (tEOF, dev)
           else if ch = NL then lex_loop n (dev\<lparr>iod_line_count := iod_line_count dev + 1, iod_char_count := 0\<rparr>) op
           else if ch = CHR ''+'' \<or> ch = CHR ''-'' then
             (case op of Some c \<Rightarrow> Some (tATOM, set_buffer dev (if c = CHR ''+'' then ''++'' else ''--''))
              | None \<Rightarrow> lex_loop n dev (Some ch))
           else if is_digit ch then do {
             dev \<leftarrow> ungetc_char ch dev;
             dev \<leftarrow> copy_number dev op;
             Some (tNUMBER, dev)
           }
           else if ch = CHR '' '' \<or> ch = CHR '')'' then
             (let dev = dev\<lparr>iod_column := iod_char_count dev + 1\<rparr> in
              case op of
                Some c \<Rightarrow> do {
                  let dev = set_buffer dev (if c = CHR ''+'' then ''+'' else ''-'');
                  dev \<leftarrow> (if ch = CHR '')'' then ungetc_char ch dev else Some dev);
                  Some (tATOM, dev)
                }
              | None \<Rightarrow> (if ch = CHR '')'' then Some (tRBRACE, dev) else lex_loop n dev None))
           else if ch = DQUOTE then do {
             (ch, dev) \<leftarrow> getc_char dev;
             (if ch = DQUOTE then Some (tNIL, dev)
              else do {
                dev \<leftarrow> ungetc_char ch dev;
                dev \<leftarrow> copy_string dev;
                Some (tSTRING, dev)
              })
           }
           else if ch = CHR ''('' then do {
             let dev = dev\<lparr>iod_column := iod_char_count dev + 1\<rparr>;
             (ch, dev) \<leftarrow> getc_char dev;
             (if ch = CHR '')'' then Some (tNIL, dev)
              else do { dev \<leftarrow> ungetc_char ch dev; Some (tLBRACE, dev) })
           }
           else if ch = QUOTE \<or> ch = CHR '':'' then Some (tQUOTE, dev)
           else if ch = CHR '';'' then do {
             (e, dev) \<leftarrow> skip_comment n dev;
             (if e then Some (tEOF, dev) else lex_loop n dev op)
           }
           else if is_alpha ch \<or> is_punct ch then do {
             dev \<leftarrow> (case op of Some c \<Rightarrow> ungetc_char c dev | None \<Rightarrow> Some dev);
             dev \<leftarrow> ungetc_char ch dev;
             dev \<leftarrow> copy_atom dev;
             txt \<leftarrow> buffer_text dev;
             Some (if strcasecmp txt ''NIL'' = 0 then tNIL else if strcasecmp txt ''T'' = 0 then tTRUE else tATOM, dev)
           }
           else lex_loop n dev op)
        })
     }"

definition akl_lex :: "akl_io_device \<Rightarrow> (akl_token \<times> akl_io_device) option" where
  "akl_lex dev =
     (let dev = (if iod_buffer dev = None then init_lexer dev else dev) in
      if iod_backlog dev \<noteq> tEOF then Some (iod_backlog dev, dev\<lparr>iod_backlog := tEOF\<rparr>)
      else lex_loop (lex_fuel dev) dev None)"

subsection \<open>The text of a token\<close>

definition akl_lex_get_string :: "akl_io_device \<Rightarrow> (string \<times> akl_io_device) option" where
  "akl_lex_get_string dev = do { txt \<leftarrow> buffer_text dev; Some (txt, set_buffer dev []) }"

text \<open>The number in the buffer. \<open>sscanf\<close> always finds an octal digit: the text starts with 0.\<close>

definition akl_lex_get_number :: "akl_io_device \<Rightarrow> (double \<times> akl_io_device) option" where
  "akl_lex_get_number dev =
     do {
       txt \<leftarrow> buffer_text dev;
       let tch = (if 1 < length txt then txt ! 1 else NUL);
       n \<leftarrow> (if take 1 txt = ''0'' \<and> tch \<noteq> CHR ''x'' \<and> tch \<noteq> CHR ''.''
             then map_option (\<lambda>k. dbl_of_int (int k)) (sscanf_o txt) else Some (strtod txt));
       Some (n, set_buffer dev [])
     }"

text \<open>The symbol named by the buffer of a device of the interpreter.\<close>

definition upd_dev :: "akl_state \<Rightarrow> addr \<Rightarrow> akl_io_device \<Rightarrow> akl_state" where
  "upd_dev s p dev = s\<lparr>st_devs := (st_devs s)(p \<mapsto> dev)\<rparr>"

definition akl_lex_get_symbol :: "akl_state \<Rightarrow> addr \<Rightarrow> (addr \<times> akl_state) option" where
  "akl_lex_get_symbol s p =
     do {
       dev \<leftarrow> st_devs s p;
       txt \<leftarrow> buffer_text dev;
       (symb, s) \<leftarrow> akl_get_or_create_symbol s (Some txt);
       Some (symb, upd_dev s p (set_buffer dev []))
     }"

text \<open>Reading a token from a device of the interpreter.\<close>

definition lex_token :: "akl_state \<Rightarrow> addr \<Rightarrow> (akl_token \<times> akl_state) option" where
  "lex_token s p =
     do {
       dev \<leftarrow> st_devs s p;
       (tok, dev) \<leftarrow> akl_lex dev;
       Some (tok, upd_dev s p dev)
     }"

end
