(* ===== verification/Parser.thy ===== *)
theory Parser
  imports Stack Lexer
begin

text \<open>
  The parser of \<open>src/parser.c\<close>: from tokens to values and lists. The functions are mutually
  recursive and carry fuel; every call reads a token, and \<open>parse_fuel\<close> is larger than three
  times what the lexer can read.
\<close>

definition no_info :: akl_lex_info where
  "no_info = \<lparr>li_name = None, li_line = 0, li_column = 0\<rparr>"

definition akl_set_lex_info :: "akl_state \<Rightarrow> addr \<Rightarrow> addr \<Rightarrow> akl_state option" where
  "akl_set_lex_info s ctx val =
     do {
       C \<leftarrow> st_ctxs s ctx;
       V \<leftarrow> st_vals s val;
       dev \<leftarrow> st_devs s (cx_dev C);
       Some (s\<lparr>st_vals := (st_vals s)(val \<mapsto> V\<lparr>va_lex_info := akl_new_lex_info (Some dev) no_info\<rparr>)\<rparr>)
     }"

definition set_quoted :: "akl_state \<Rightarrow> addr \<Rightarrow> bool \<Rightarrow> akl_state option" where
  "set_quoted s val q =
     do { V \<leftarrow> st_vals s val; Some (s\<lparr>st_vals := (st_vals s)(val \<mapsto> V\<lparr>va_quoted := q\<rparr>)\<rparr>) }"

definition upd_val :: "akl_state \<Rightarrow> addr \<Rightarrow> (akl_value \<Rightarrow> akl_value) \<Rightarrow> akl_state option" where
  "upd_val s val f = do { V \<leftarrow> st_vals s val; Some (s\<lparr>st_vals := (st_vals s)(val \<mapsto> f V)\<rparr>) }"

text \<open>
  The value of a token, without its flag and position; \<open>plist\<close> stands for \<open>akl_parse_list\<close>.
  The code gives \<open>tQUOTE\<close> no value and writes through the NULL pointer.
\<close>

definition token_value ::
    "(akl_state \<Rightarrow> addr \<Rightarrow> (addr \<times> akl_state) option) \<Rightarrow> akl_state \<Rightarrow> addr \<Rightarrow> akl_token \<Rightarrow>
       (addr \<times> akl_state) option" where
  "token_value plist s ctx tok =
     do {
       C \<leftarrow> st_ctxs s ctx;
       let p = cx_dev C;
       dev \<leftarrow> st_devs s p;
       (case tok of
          tATOM \<Rightarrow> do {
            let (val, s) = akl_new_value s;
            (symb, s) \<leftarrow> akl_lex_get_symbol s p;
            s \<leftarrow> upd_val s val (\<lambda>V. V\<lparr>va_value := V_symbol symb, va_type := VT_SYMBOL\<rparr>);
            Some (val, s)
          }
        | tNUMBER \<Rightarrow> do {
            (n, dev) \<leftarrow> akl_lex_get_number dev;
            Some (akl_new_number_value (upd_dev s p dev) n)
          }
        | tSTRING \<Rightarrow> do {
            (x, dev) \<leftarrow> akl_lex_get_string dev;
            Some (akl_new_string_value (upd_dev s p dev) (Some x))
          }
        | tLBRACE \<Rightarrow> do { (l, s) \<leftarrow> plist s ctx; akl_new_list_value s l }
        | tNIL \<Rightarrow> Some (akl_new_nil_value s)
        | tTRUE \<Rightarrow> Some (akl_new_true_value s)
        | _ \<Rightarrow> None)
     }"

definition parse_token ::
    "(akl_state \<Rightarrow> addr \<Rightarrow> (addr \<times> akl_state) option) \<Rightarrow> akl_state \<Rightarrow> addr \<Rightarrow> akl_token \<Rightarrow> bool \<Rightarrow>
       (addr \<times> akl_state) option" where
  "parse_token plist s ctx tok is_quoted =
     do {
       C \<leftarrow> st_ctxs s ctx;
       (if \<not> cx_state C then None
        else if tok = tEOF
        then do { dev \<leftarrow> st_devs s (cx_dev C); Some (0, upd_dev s (cx_dev C) (akl_lex_free dev)) }
        else if tok = tRBRACE then Some (0, s)
        else do {
          (val, s) \<leftarrow> token_value plist s ctx tok;
          s \<leftarrow> set_quoted s val is_quoted;
          s \<leftarrow> akl_set_lex_info s ctx val;
          Some (val, s)
        })
     }"

definition parse_value ::
    "(akl_state \<Rightarrow> addr \<Rightarrow> (addr \<times> akl_state) option) \<Rightarrow> akl_state \<Rightarrow> addr \<Rightarrow> (addr \<times> akl_state) option" where
  "parse_value plist s ctx =
     do {
       C \<leftarrow> st_ctxs s ctx;
       (tok, s) \<leftarrow> lex_token s (cx_dev C);
       (if tok = tQUOTE
        then do { (tok, s) \<leftarrow> lex_token s (cx_dev C); parse_token plist s ctx tok True }
        else parse_token plist s ctx tok False)
     }"

text \<open>Appending values until there is none (a closing brace or the end of the input).\<close>

fun parse_list_loop :: "nat \<Rightarrow> akl_state \<Rightarrow> addr \<Rightarrow> addr \<Rightarrow> akl_state option" where
  "parse_list_loop 0 s ctx list = None"
| "parse_list_loop (Suc n) s ctx list =
     do {
       (val, s) \<leftarrow> parse_value
          (\<lambda>s ctx. do { let (l, s) = akl_new_list s;
                        s \<leftarrow> parse_list_loop n s ctx l;
                        s \<leftarrow> upd_list s l (\<lambda>L. L\<lparr>li_quoted := True\<rparr>);
                        Some (l, s) }) s ctx;
       (if val = 0 then Some s
        else do {
          b \<leftarrow> is_type s val VT_LIST;
          s \<leftarrow> (if b then do { lval \<leftarrow> AKL_GET_LIST_VALUE s val; upd_list s lval (\<lambda>L. L\<lparr>li_parent := list\<rparr>) }
                else Some s);
          (ent, s) \<leftarrow> akl_list_append_value s list val;
          parse_list_loop n s ctx list
        })
     }"

definition parse_list_n :: "nat \<Rightarrow> akl_state \<Rightarrow> addr \<Rightarrow> (addr \<times> akl_state) option" where
  "parse_list_n n s ctx =
     do {
       let (l, s) = akl_new_list s;
       s \<leftarrow> parse_list_loop n s ctx l;
       s \<leftarrow> upd_list s l (\<lambda>L. L\<lparr>li_quoted := True\<rparr>);
       Some (l, s)
     }"

definition parse_fuel :: "akl_state \<Rightarrow> addr \<Rightarrow> nat" where
  "parse_fuel s ctx =
     (case st_ctxs s ctx of None \<Rightarrow> 0
      | Some C \<Rightarrow> (case st_devs s (cx_dev C) of None \<Rightarrow> 0 | Some dev \<Rightarrow> 3 * lex_fuel dev + 3))"

definition akl_parse_list :: "akl_state \<Rightarrow> addr \<Rightarrow> (addr \<times> akl_state) option" where
  "akl_parse_list s ctx = parse_list_n (parse_fuel s ctx) s ctx"

definition akl_parse_token :: "akl_state \<Rightarrow> addr \<Rightarrow> akl_token \<Rightarrow> bool \<Rightarrow> (addr \<times> akl_state) option" where
  "akl_parse_token s ctx tok is_quoted = parse_token akl_parse_list s ctx tok is_quoted"

definition akl_parse_value :: "akl_state \<Rightarrow> addr \<Rightarrow> (addr \<times> akl_state) option" where
  "akl_parse_value s ctx = parse_value akl_parse_list s ctx"

text \<open>
  \<open>akl_str_to_list\<close>: NULL unless the text starts with a brace or a quote. After a quote the
  rest is read as the elements of the list, the brace included. \<open>junk\<close>: see
  \<open>akl_new_string_device\<close>.
\<close>

definition akl_str_to_list :: "akl_io_device \<Rightarrow> akl_state \<Rightarrow> string \<Rightarrow> (addr \<times> akl_state) option" where
  "akl_str_to_list junk s str =
     do {
       let (dev, s) = akl_new_string_device junk s (Some ''string'') str;
       let (ctx, s) = akl_new_context s;
       s \<leftarrow> upd_ctx s ctx (\<lambda>C. C\<lparr>cx_dev := dev\<rparr>);
       (tok, s) \<leftarrow> lex_token s dev;
       (l, s) \<leftarrow> (if tok \<noteq> tLBRACE \<and> tok \<noteq> tQUOTE then Some (0, s) else akl_parse_list s ctx);
       Some (l, s\<lparr>st_devs := (st_devs s)(dev := None), st_ctxs := (st_ctxs s)(ctx := None)\<rparr>)
     }"

end
