(* ===== verification/Compiler.thy ===== *)
theory Compiler
  imports Parser
begin

text \<open>
  The compiler, \<open>src/compile.c\<close>, with the special forms of \<open>src/lib_spec.c\<close> and the labels of
  \<open>src/types.c\<close>.

  The code of a function is the list \<open>uf_body\<close> of instructions. Its last instruction is always
  a NOP, the next one to be filled; a label points at the entry of an instruction. The lists
  \<open>uf_body\<close> and \<open>uf_labels\<close> inside a function have addresses of their own. The vector of the
  parameters holds the first word of each symbol, its name (\<open>akl_vector_push\<close> copies from the
  symbol, and the comparison reads the copy as a symbol), so \<open>uf_args\<close> is a list of names.
\<close>

subsection \<open>Functions under construction\<close>

definition upd_fun :: "akl_state \<Rightarrow> addr \<Rightarrow> (akl_function \<Rightarrow> akl_function) \<Rightarrow> akl_state option" where
  "upd_fun s f g = do { F \<leftarrow> st_funs s f; Some (s\<lparr>st_funs := (st_funs s)(f \<mapsto> g F)\<rparr>) }"

definition upd_instr :: "akl_state \<Rightarrow> addr \<Rightarrow> (akl_ir_instruction \<Rightarrow> akl_ir_instruction) \<Rightarrow> akl_state option" where
  "upd_instr s p f = do { I \<leftarrow> st_instrs s p; Some (s\<lparr>st_instrs := (st_instrs s)(p \<mapsto> f I)\<rparr>) }"

definition upd_label :: "akl_state \<Rightarrow> addr \<Rightarrow> (akl_label \<Rightarrow> akl_label) \<Rightarrow> akl_state option" where
  "upd_label s p f = do { I \<leftarrow> st_labels s p; Some (s\<lparr>st_labels := (st_labels s)(p \<mapsto> f I)\<rparr>) }"

definition get_ufun :: "akl_state \<Rightarrow> addr \<Rightarrow> akl_lisp_fun option" where
  "get_ufun s f = do { F \<leftarrow> st_funs s f; (case fn_body F of B_ufun u \<Rightarrow> Some u | _ \<Rightarrow> None) }"

text \<open>
  A function made to be compiled: its lists are initialised, the rest of the pool memory is
  zero. (\<open>akl_compile\<close> does not initialise the list of labels; zeroed memory is an empty list.)
\<close>

definition new_ufun :: "akl_state \<Rightarrow> addr \<times> akl_state" where
  "new_ufun s =
     (let (f, s) = akl_new_function s;
          (body, s) = akl_new_list s;
          (labels, s) = akl_new_list s
      in (f, s\<lparr>st_funs := (st_funs s)(f \<mapsto>
            \<lparr>fn_gc = AKL_GC_INIT_OBJ GC_FUNCTION, fn_type = FUNC_USER,
             fn_body = B_ufun \<lparr>uf_args = [], uf_body = body, uf_labels = labels, uf_info = None\<rparr>\<rparr>)\<rparr>))"

fun new_labels_loop :: "akl_state \<Rightarrow> addr \<Rightarrow> nat \<Rightarrow> nat \<Rightarrow> akl_state option" where
  "new_labels_loop s labels i 0 = Some s"
| "new_labels_loop s labels i (Suc n) =
     do {
       let l = st_next s;
       let s = s\<lparr>st_next := l + 1, st_labels := (st_labels s)(l \<mapsto> akl_init_label i)\<rparr>;
       (ent, s) \<leftarrow> akl_list_append s labels l;
       new_labels_loop s labels (i + 1) n
     }"

text \<open>Result: the list of labels and the number of labels before (\<open>loff\<close>).\<close>

definition akl_new_labels :: "akl_state \<Rightarrow> addr \<Rightarrow> nat \<Rightarrow> (addr \<times> nat \<times> akl_state) option" where
  "akl_new_labels s ctx n =
     do {
       C \<leftarrow> st_ctxs s ctx;
       uf \<leftarrow> get_ufun s (cx_comp_func C);
       cnt \<leftarrow> akl_list_count s (uf_labels uf);
       s \<leftarrow> new_labels_loop s (uf_labels uf) (unat cnt) n;
       Some (uf_labels uf, unat cnt, s)
     }"

subsection \<open>Instructions\<close>

definition akl_ir_set_lex_info :: "akl_state \<Rightarrow> addr \<Rightarrow> akl_lex_info option \<Rightarrow> akl_state option" where
  "akl_ir_set_lex_info s ctx info =
     do {
       C \<leftarrow> st_ctxs s ctx;
       (if cx_ir C = 0 then None
        else do {
          li \<leftarrow> akl_list_last s (cx_ir C);
          (if li \<noteq> 0 \<and> info \<noteq> None then upd_instr s li (\<lambda>I. I\<lparr>in_linfo := info\<rparr>) else Some s)
        })
     }"

fun find_arg :: "string list \<Rightarrow> string option \<Rightarrow> int \<Rightarrow> int" where
  "find_arg [] name i = - 1"
| "find_arg (a # as) name i = (if akl_rb_cmp_sym (Some a) name = 0 then i else find_arg as name (i + 1))"

definition argument_finder :: "akl_state \<Rightarrow> akl_lisp_fun \<Rightarrow> addr \<Rightarrow> int" where
  "argument_finder s uf symb = find_arg (uf_args uf) (symbol_name s symb) 0"

definition new_instr :: "akl_state \<Rightarrow> addr \<times> akl_state" where
  "new_instr s =
     (let p = st_next s in
      (p, s\<lparr>st_next := p + 1, st_instrs := (st_instrs s)(p \<mapsto>
         \<lparr>in_op = IR_NOP, in_fun = 0, in_arg0 = A_none, in_arg1 = A_none, in_linfo = None\<rparr>)\<rparr>))"

definition create_or_get_instr :: "akl_state \<Rightarrow> addr \<Rightarrow> (addr \<times> akl_state) option" where
  "create_or_get_instr s ctx =
     do {
       C \<leftarrow> st_ctxs s ctx;
       e \<leftarrow> akl_list_is_empty s (cx_ir C);
       (if e
        then do {
          let (instr, s) = new_instr s;
          (ent, s) \<leftarrow> akl_list_append s (cx_ir C) instr;
          Some (instr, s)
        }
        else do { instr \<leftarrow> akl_list_last s (cx_ir C); Some (instr, s) })
     }"

definition create_instr :: "akl_state \<Rightarrow> addr \<Rightarrow> (addr \<times> akl_state) option" where
  "create_instr s ctx =
     do {
       (instr, s) \<leftarrow> create_or_get_instr s ctx;
       C \<leftarrow> st_ctxs s ctx;
       let (nop, s) = new_instr s;
       (ent, s) \<leftarrow> akl_list_append s (cx_ir C) nop;
       Some (instr, s)
     }"

definition akl_build_push :: "akl_state \<Rightarrow> addr \<Rightarrow> addr \<Rightarrow> akl_state option" where
  "akl_build_push s ctx arg =
     do { (i, s) \<leftarrow> create_instr s ctx; upd_instr s i (\<lambda>I. I\<lparr>in_op := IR_PUSH, in_arg0 := A_value arg\<rparr>) }"

definition akl_build_set :: "akl_state \<Rightarrow> addr \<Rightarrow> addr \<Rightarrow> akl_state option" where
  "akl_build_set s ctx symb =
     do { (i, s) \<leftarrow> create_instr s ctx; upd_instr s i (\<lambda>I. I\<lparr>in_op := IR_SET, in_arg0 := A_symbol symb\<rparr>) }"

definition akl_build_get :: "akl_state \<Rightarrow> addr \<Rightarrow> addr \<Rightarrow> akl_state option" where
  "akl_build_get s ctx symb =
     do { (i, s) \<leftarrow> create_instr s ctx; upd_instr s i (\<lambda>I. I\<lparr>in_op := IR_GET, in_arg0 := A_symbol symb\<rparr>) }"

definition akl_build_load :: "akl_state \<Rightarrow> addr \<Rightarrow> addr \<Rightarrow> akl_state option" where
  "akl_build_load s ctx symb =
     do {
       C \<leftarrow> st_ctxs s ctx;
       F \<leftarrow> st_funs s (cx_comp_func C);
       (if fn_type F = FUNC_USER \<or> fn_type F = FUNC_LAMBDA
        then do {
          uf \<leftarrow> get_ufun s (cx_comp_func C);
          let ind = argument_finder s uf symb;
          (if ind \<noteq> - 1
           then do {
             (i, s) \<leftarrow> create_instr s ctx;
             upd_instr s i (\<lambda>I. I\<lparr>in_op := IR_LOAD, in_arg0 := A_num (of_int ind)\<rparr>)
           }
           else akl_build_get s ctx symb)
        }
        else Some s)
     }"

definition akl_build_call :: "akl_state \<Rightarrow> addr \<Rightarrow> addr \<Rightarrow> addr \<Rightarrow> nat \<Rightarrow> akl_state option" where
  "akl_build_call s ctx symb fn argc =
     do { (i, s) \<leftarrow> create_instr s ctx;
          upd_instr s i (\<lambda>I. I\<lparr>in_op := IR_CALL, in_arg0 := A_symbol symb, in_fun := fn,
                                 in_arg1 := A_num (of_nat argc)\<rparr>) }"

definition akl_build_label :: "akl_state \<Rightarrow> addr \<Rightarrow> addr \<Rightarrow> nat \<Rightarrow> akl_state option" where
  "akl_build_label s ctx labels lc =
     do {
       C \<leftarrow> st_ctxs s ctx;
       l \<leftarrow> akl_list_index s labels (int lc);
       s \<leftarrow> upd_label s l (\<lambda>L. L\<lparr>la_ir := cx_ir C\<rparr>);
       (i, s) \<leftarrow> create_or_get_instr s ctx;
       branch \<leftarrow> akl_list_it_end s (cx_ir C);
       upd_label s l (\<lambda>L. L\<lparr>la_branch := branch\<rparr>)
     }"

definition akl_build_jump :: "akl_state \<Rightarrow> addr \<Rightarrow> akl_ir_op \<Rightarrow> addr \<Rightarrow> nat \<Rightarrow> akl_state option" where
  "akl_build_jump s ctx jt l lc =
     do { (i, s) \<leftarrow> create_instr s ctx;
          la \<leftarrow> akl_list_index s l (int lc);
          upd_instr s i (\<lambda>I. I\<lparr>in_op := jt, in_arg0 := A_label la\<rparr>) }"

definition akl_build_branch :: "akl_state \<Rightarrow> addr \<Rightarrow> addr \<Rightarrow> nat \<Rightarrow> nat \<Rightarrow> akl_state option" where
  "akl_build_branch s ctx l lt lf =
     do { (i, s) \<leftarrow> create_instr s ctx;
          la \<leftarrow> akl_list_index s l (int lt);
          lb \<leftarrow> akl_list_index s l (int lf);
          upd_instr s i (\<lambda>I. I\<lparr>in_op := IR_BRANCH, in_arg0 := A_label la, in_arg1 := A_label lb\<rparr>) }"

definition akl_build_ret :: "akl_state \<Rightarrow> addr \<Rightarrow> akl_state option" where
  "akl_build_ret s ctx = do { (i, s) \<leftarrow> create_instr s ctx; upd_instr s i (\<lambda>I. I\<lparr>in_op := IR_RET\<rparr>) }"

definition akl_build_nop :: "akl_state \<Rightarrow> addr \<Rightarrow> akl_state option" where
  "akl_build_nop s ctx = do { (i, s) \<leftarrow> create_instr s ctx; upd_instr s i (\<lambda>I. I\<lparr>in_op := IR_NOP\<rparr>) }"

subsection \<open>Expressions\<close>

datatype PREFETCH_STATUS = PF_FN_NOT_FOUND | PF_FN_NORMAL | PF_FN_SFORM | PF_NOT_FN

definition prefetch_function :: "akl_state \<Rightarrow> addr \<Rightarrow> (PREFETCH_STATUS \<times> addr) option" where
  "prefetch_function s val =
     do {
       V \<leftarrow> st_vals s val;
       (case va_value V of
          V_symbol symb \<Rightarrow>
            (let var = akl_get_global_var s symb in
             if var = 0 then Some (PF_FN_NOT_FOUND, 0)
             else do {
               X \<leftarrow> st_vars s var;
               isf \<leftarrow> is_type s (vr_value X) VT_FUNCTION;
               (if \<not> isf then Some (PF_NOT_FN, 0)
                else do {
                  f \<leftarrow> akl_var_to_function s var;
                  (if f = 0 then Some (PF_NOT_FN, 0)
                   else do {
                     F \<leftarrow> st_funs s f;
                     Some (if fn_type F = FUNC_SPECIAL then PF_FN_SFORM else PF_FN_NORMAL, f)
                   })
                })
             })
        | _ \<Rightarrow> None)
     }"

text \<open>
  \<open>akl_compile_next\<close>; \<open>clist\<close> stands for \<open>akl_compile_list\<close>. The second component is the
  function that a list gave (what the code stores through \<open>fn\<close>).
\<close>

definition compile_next ::
    "(akl_state \<Rightarrow> addr \<Rightarrow> (addr \<times> akl_state) option) \<Rightarrow> akl_state \<Rightarrow> addr \<Rightarrow>
       (akl_token \<times> addr \<times> akl_state) option" where
  "compile_next clist s ctx =
     do {
       C \<leftarrow> st_ctxs s ctx;
       (tok, s) \<leftarrow> lex_token s (cx_dev C);
       (if tok = tLBRACE then do { (f, s) \<leftarrow> clist s ctx; Some (tok, f, s) }
        else if tok = tQUOTE
        then do {
          (tok, s) \<leftarrow> lex_token s (cx_dev C);
          (v, s) \<leftarrow> akl_parse_token s ctx tok True;
          s \<leftarrow> akl_build_push s ctx v;
          Some (tok, 0, s)
        }
        else if tok = tEOF then Some (tok, 0, s)
        else do {
          (v, s) \<leftarrow> akl_parse_token s ctx tok False;
          s \<leftarrow> akl_build_push s ctx v;
          Some (tok, 0, s)
        })
     }"

subsection \<open>Special forms\<close>

text \<open>
  Each gets the compiler of the next expression, \<open>next\<close>, and gives the function it defines
  or 0.
\<close>

type_synonym next_fn = "akl_state \<Rightarrow> addr \<Rightarrow> (akl_token \<times> addr \<times> akl_state) option"

definition akl_sfun_when :: "next_fn \<Rightarrow> akl_state \<Rightarrow> addr \<Rightarrow> (addr \<times> akl_state) option" where
  "akl_sfun_when next s ctx =
     do {
       (label, loff, s) \<leftarrow> akl_new_labels s ctx 1;
       (t, f, s) \<leftarrow> next s ctx;
       s \<leftarrow> akl_build_jump s ctx IR_JN label (loff + 0);
       (t, f, s) \<leftarrow> next s ctx;
       s \<leftarrow> akl_build_label s ctx label (loff + 0);
       Some (0, s)
     }"

definition akl_sfun_set :: "next_fn \<Rightarrow> akl_state \<Rightarrow> addr \<Rightarrow> (addr \<times> akl_state) option" where
  "akl_sfun_set next s ctx =
     do {
       C \<leftarrow> st_ctxs s ctx;
       (tok, s) \<leftarrow> lex_token s (cx_dev C);
       (if tok \<noteq> tATOM
        then do {
          s \<leftarrow> akl_raise_error s ctx ALERT_ERROR ''Unexpected token, (need a valid atom for set!)'';
          Some (0, s)
        }
        else do {
          (symb, s) \<leftarrow> akl_lex_get_symbol s (cx_dev C);
          (t, fn, s) \<leftarrow> next s ctx;
          s \<leftarrow> (if fn \<noteq> 0 then (let (v, s) = akl_new_function_value s fn in akl_build_push s ctx v) else Some s);
          s \<leftarrow> akl_build_set s ctx symb;
          Some (0, s)
        })
     }"

definition akl_sfun_sif :: "next_fn \<Rightarrow> akl_state \<Rightarrow> addr \<Rightarrow> (addr \<times> akl_state) option" where
  "akl_sfun_sif next s ctx =
     do {
       (labels, loff, s) \<leftarrow> akl_new_labels s ctx 2;
       (t, f, s) \<leftarrow> next s ctx;
       s \<leftarrow> akl_build_jump s ctx IR_JN labels (loff + 1);
       (t, f, s) \<leftarrow> next s ctx;
       s \<leftarrow> akl_build_jump s ctx IR_JMP labels (loff + 0);
       s \<leftarrow> akl_build_label s ctx labels (loff + 1);
       (t, f, s) \<leftarrow> next s ctx;
       s \<leftarrow> akl_build_label s ctx labels (loff + 0);
       Some (0, s)
     }"

definition akl_sfun_swhile :: "next_fn \<Rightarrow> akl_state \<Rightarrow> addr \<Rightarrow> (addr \<times> akl_state) option" where
  "akl_sfun_swhile next s ctx =
     do {
       (labels, loff, s) \<leftarrow> akl_new_labels s ctx 2;
       s \<leftarrow> akl_build_label s ctx labels (loff + 0);
       (t, f, s) \<leftarrow> next s ctx;
       s \<leftarrow> akl_build_jump s ctx IR_JN labels (loff + 1);
       (t, f, s) \<leftarrow> next s ctx;
       s \<leftarrow> akl_build_jump s ctx IR_JMP labels (loff + 0);
       s \<leftarrow> akl_build_label s ctx labels (loff + 1);
       Some (0, s)
     }"

text \<open>The parameters until the closing brace; at the end of a file the loop does not end.\<close>

fun parse_params_loop :: "nat \<Rightarrow> akl_state \<Rightarrow> addr \<Rightarrow> addr \<Rightarrow> akl_state option" where
  "parse_params_loop 0 s ctx func = None"
| "parse_params_loop (Suc n) s ctx func =
     do {
       C \<leftarrow> st_ctxs s ctx;
       (tok, s) \<leftarrow> lex_token s (cx_dev C);
       (if tok = tRBRACE then Some s
        else if tok = tATOM
        then do {
          (symb, s) \<leftarrow> akl_lex_get_symbol s (cx_dev C);
          name \<leftarrow> symbol_name s symb;
          uf \<leftarrow> get_ufun s func;
          s \<leftarrow> upd_fun s func (\<lambda>F. F\<lparr>fn_body := B_ufun (uf\<lparr>uf_args := uf_args uf @ [name]\<rparr>)\<rparr>);
          parse_params_loop n s ctx func
        }
        else parse_params_loop n s ctx func)
     }"

definition akl_parse_params :: "akl_state \<Rightarrow> addr \<Rightarrow> string option \<Rightarrow> addr \<Rightarrow> akl_state option" where
  "akl_parse_params s ctx fname func =
     do {
       C \<leftarrow> st_ctxs s ctx;
       (tok, s) \<leftarrow> lex_token s (cx_dev C);
       (if tok = tNIL then Some s
        else if tok \<noteq> tLBRACE
        then akl_raise_error s ctx ALERT_ERROR
               (''Expected an argument list for function definition '' @ [CHR 0x27] @
                (case fname of None \<Rightarrow> ''lambda'' | Some x \<Rightarrow> x) @ [CHR 0x27])
        else parse_params_loop (parse_fuel s ctx) s ctx func)
     }"

text \<open>
  After a documentation string \<open>defun!\<close> and \<open>lambda\<close> read one token more, which is lost; any
  other token is put back.
\<close>

definition docstring_or_putback :: "akl_state \<Rightarrow> addr \<Rightarrow> (string option \<times> akl_state) option" where
  "docstring_or_putback s ctx =
     do {
       C \<leftarrow> st_ctxs s ctx;
       (tok, s) \<leftarrow> lex_token s (cx_dev C);
       dev \<leftarrow> st_devs s (cx_dev C);
       (if tok = tSTRING
        then do {
          (doc, dev) \<leftarrow> akl_lex_get_string dev;
          let s = upd_dev s (cx_dev C) dev;
          (tok, s) \<leftarrow> lex_token s (cx_dev C);
          Some (Some doc, s)
        }
        else Some (None, upd_dev s (cx_dev C) (akl_lex_putback dev tok)))
     }"

definition akl_sfun_defun :: "next_fn \<Rightarrow> akl_state \<Rightarrow> addr \<Rightarrow> (addr \<times> akl_state) option" where
  "akl_sfun_defun next s ctx =
     do {
       let (func, s) = new_ufun s;
       let (fval, s) = akl_new_function_value s func;
       C \<leftarrow> st_ctxs s ctx;
       let oir = cx_ir C;
       (tok, s) \<leftarrow> lex_token s (cx_dev C);
       (if tok \<noteq> tATOM
        then do {
          s \<leftarrow> akl_raise_error s ctx ALERT_ERROR
                 ''Unexpected token, defun! needs a parameter list and a function body'';
          Some (0, s)
        }
        else do {
          (fsym, s) \<leftarrow> akl_lex_get_symbol s (cx_dev C);
          s \<leftarrow> upd_ctx s ctx (\<lambda>C. C\<lparr>cx_comp_func := func\<rparr>);
          s \<leftarrow> akl_parse_params s ctx (symbol_name s fsym) func;
          uf \<leftarrow> get_ufun s func;
          s \<leftarrow> upd_ctx s ctx (\<lambda>C. C\<lparr>cx_ir := uf_body uf\<rparr>);
          (docstring, s) \<leftarrow> docstring_or_putback s ctx;
          (var, s) \<leftarrow> akl_set_global_var s fsym docstring False fval;
          (t, f, s) \<leftarrow> next s ctx;
          s \<leftarrow> upd_ctx s ctx (\<lambda>C. C\<lparr>cx_ir := oir\<rparr>);
          (v, s) \<leftarrow> akl_new_sym_value s fsym;
          s \<leftarrow> akl_build_push s ctx v;
          Some (func, s)
        })
     }"

definition akl_sfun_lambda :: "next_fn \<Rightarrow> akl_state \<Rightarrow> addr \<Rightarrow> (addr \<times> akl_state) option" where
  "akl_sfun_lambda next s ctx =
     do {
       let (func, s) = new_ufun s;
       s \<leftarrow> upd_ctx s ctx (\<lambda>C. C\<lparr>cx_comp_func := func\<rparr>);
       s \<leftarrow> akl_parse_params s ctx None func;
       uf \<leftarrow> get_ufun s func;
       s \<leftarrow> upd_ctx s ctx (\<lambda>C. C\<lparr>cx_ir := uf_body uf\<rparr>);
       (docstring, s) \<leftarrow> docstring_or_putback s ctx;
       (t, f, s) \<leftarrow> next s ctx;
       Some (func, s)
     }"

definition call_sfun :: "akl_sfun \<Rightarrow> next_fn \<Rightarrow> akl_state \<Rightarrow> addr \<Rightarrow> (addr \<times> akl_state) option" where
  "call_sfun f =
     (case f of sfun_sif \<Rightarrow> akl_sfun_sif | sfun_lambda \<Rightarrow> akl_sfun_lambda | sfun_when \<Rightarrow> akl_sfun_when
      | sfun_swhile \<Rightarrow> akl_sfun_swhile | sfun_defun \<Rightarrow> akl_sfun_defun | sfun_set \<Rightarrow> akl_sfun_set)"

definition akl_spec_forms :: "akl_fun_decl list" where
  "akl_spec_forms =
     [Decl_sfun sfun_sif ''if'' (Some ''Conditional expression''),
      Decl_sfun sfun_lambda ''lambda'' (Some ''Define a lambda function''),
      Decl_sfun sfun_lambda ''->'' (Some ''Define a lambda function''),
      Decl_sfun sfun_when ''when'' (Some ''Conditionally evaluate an expression''),
      Decl_sfun sfun_swhile ''while'' (Some ''Conditional loop expression''),
      Decl_sfun sfun_defun ''defun!'' (Some ''Define a new function''),
      Decl_sfun sfun_set ''set!'' (Some ''Define a new global variable'')]"

definition akl_spec_library_init :: "akl_state \<Rightarrow> akl_state option" where
  "akl_spec_library_init s = akl_declare_functions s akl_spec_forms"

definition akl_call_sform :: "next_fn \<Rightarrow> akl_state \<Rightarrow> addr \<Rightarrow> addr \<Rightarrow> addr \<Rightarrow> (addr \<times> akl_state) option" where
  "akl_call_sform next s ctx fsym sform =
     do {
       (cx, s) \<leftarrow> akl_bound_function s ctx fsym sform;
       (if cx = 0 then Some (0, s)
        else do {
          C \<leftarrow> st_ctxs s cx;
          (if cx_func C = 0 then Some (0, s)
           else do {
             F \<leftarrow> st_funs s (cx_func C);
             (case fn_body F of
                B_null \<Rightarrow> Some (0, s)
              | B_sfun f \<Rightarrow> call_sfun f next s cx
              | _ \<Rightarrow> None)
           })
        })
     }"

subsection \<open>Lists\<close>

text \<open>The variables of \<open>akl_compile_list\<close> that live through its loop.\<close>

record compile_vars =
  cl_argc :: nat
  cl_felem :: bool
  cl_fun :: addr
  cl_sym :: addr
  cl_pf_st :: PREFETCH_STATUS
  cl_call_info :: "akl_lex_info option"

definition init_vars :: compile_vars where
  "init_vars = \<lparr>cl_argc = 0, cl_felem = True, cl_fun = 0, cl_sym = 0, cl_pf_st = PF_FN_NOT_FOUND,
     cl_call_info = None\<rparr>"

text \<open>The case of an atom.\<close>

definition compile_atom ::
    "next_fn \<Rightarrow> akl_state \<Rightarrow> addr \<Rightarrow> bool \<Rightarrow> compile_vars \<Rightarrow> (compile_vars \<times> akl_state) option" where
  "compile_atom next s cx is_quoted vars =
     do {
       (v, s) \<leftarrow> akl_parse_token s cx tATOM is_quoted;
       V \<leftarrow> st_vals s v;
       symb \<leftarrow> (case va_value V of V_symbol y \<Rightarrow> Some y | _ \<Rightarrow> None);
       s \<leftarrow> upd_ctx s cx (\<lambda>C. C\<lparr>cx_lex_info := va_lex_info V\<rparr>);
       (if cl_felem vars
        then do {
          C \<leftarrow> st_ctxs s cx;
          dev \<leftarrow> st_devs s (cx_dev C);
          let call_info = akl_new_lex_info (Some dev) no_info;
          s \<leftarrow> upd_ctx s cx (\<lambda>C. C\<lparr>cx_lex_info := call_info\<rparr>);
          (pf_st, fun) \<leftarrow> prefetch_function s v;
          let vars = vars\<lparr>cl_call_info := call_info, cl_pf_st := pf_st, cl_fun := fun\<rparr>;
          (if pf_st = PF_FN_SFORM
           then do { (fun, s) \<leftarrow> akl_call_sform next s cx symb fun; Some (vars\<lparr>cl_fun := fun\<rparr>, s) }
           else if pf_st = PF_FN_NORMAL \<or> pf_st = PF_FN_NOT_FOUND then Some (vars\<lparr>cl_sym := symb\<rparr>, s)
           else Some (vars, s))
        }
        else do {
          s \<leftarrow> (if is_quoted then akl_build_push s cx v else akl_build_load s cx symb);
          Some (vars\<lparr>cl_argc := cl_argc vars + 1\<rparr>, s)
        })
     }"

text \<open>The case of the closing brace: the result of \<open>akl_compile_list\<close>.\<close>

definition compile_rbrace :: "akl_state \<Rightarrow> addr \<Rightarrow> compile_vars \<Rightarrow> (addr \<times> akl_state) option" where
  "compile_rbrace s cx vars =
     (if cl_sym vars = 0
      then (if cl_fun vars \<noteq> 0 then Some (cl_fun vars, s)
            else if cl_pf_st vars \<noteq> PF_FN_SFORM
            then do {
              let (v, s) = akl_new_nil_value s;
              s \<leftarrow> akl_build_push s cx v;
              s \<leftarrow> akl_raise_error s cx ALERT_WARNING ''No function to call.'';
              Some (0, s)
            }
            else Some (0, s))
      else do {
        s \<leftarrow> akl_ir_set_lex_info s cx (cl_call_info vars);
        s \<leftarrow> akl_build_call s cx (cl_sym vars) (cl_fun vars) (cl_argc vars);
        Some (0, s)
      })"

text \<open>The other tokens: numbers, strings, nil, true.\<close>

definition compile_const :: "akl_state \<Rightarrow> addr \<Rightarrow> akl_token \<Rightarrow> compile_vars \<Rightarrow> (compile_vars \<times> akl_state) option" where
  "compile_const s cx tok vars =
     do {
       (v, s) \<leftarrow> akl_parse_token s cx tok True;
       V \<leftarrow> st_vals s v;
       s \<leftarrow> upd_ctx s cx (\<lambda>C. C\<lparr>cx_lex_info := va_lex_info V\<rparr>);
       s \<leftarrow> akl_build_push s cx v;
       Some (vars\<lparr>cl_argc := cl_argc vars + 1\<rparr>, s)
     }"

text \<open>The case of an opening brace: a quoted list is a value, another one is compiled.\<close>

definition compile_lbrace ::
    "(akl_state \<Rightarrow> addr \<Rightarrow> (addr \<times> akl_state) option) \<Rightarrow> akl_state \<Rightarrow> addr \<Rightarrow> bool \<Rightarrow> compile_vars \<Rightarrow>
       (compile_vars \<times> akl_state) option" where
  "compile_lbrace clist s cx is_quoted vars =
     do {
       (vars, s) \<leftarrow>
         (if is_quoted
          then do { (v, s) \<leftarrow> akl_parse_token s cx tLBRACE True; s \<leftarrow> akl_build_push s cx v; Some (vars, s) }
          else do {
            (f, s) \<leftarrow> clist s cx;
            (if f = 0 then Some (vars, s)
             else if cl_felem vars then Some (vars\<lparr>cl_fun := f\<rparr>, s)
             else (let (v, s) = akl_new_function_value s f in
                   do { s \<leftarrow> akl_build_push s cx v; Some (vars, s) }))
          });
       Some (vars\<lparr>cl_argc := cl_argc vars + 1\<rparr>, s)
     }"

fun compile_list_loop :: "nat \<Rightarrow> akl_state \<Rightarrow> addr \<Rightarrow> compile_vars \<Rightarrow> (addr \<times> akl_state) option" where
  "compile_list_loop 0 s cx vars = None"
| "compile_list_loop (Suc n) s cx vars =
     do {
       C \<leftarrow> st_ctxs s cx;
       (tok, s) \<leftarrow> lex_token s (cx_dev C);
       (if tok = tEOF then Some (0, s)
        else if ai_interrupted s then Some (0, s\<lparr>ai_interrupted := False\<rparr>)
        else do {
          (is_quoted, tok, s) \<leftarrow>
            (if tok = tQUOTE then do { (tok, s) \<leftarrow> lex_token s (cx_dev C); Some (True, tok, s) }
             else Some (False, tok, s));
          (if tok = tRBRACE then compile_rbrace s cx vars
           else do {
             (vars, s) \<leftarrow>
               (if tok = tATOM
                then compile_atom (compile_next (\<lambda>s c. compile_list_loop n s c init_vars)) s cx is_quoted vars
                else if tok = tLBRACE
                then compile_lbrace (\<lambda>s c. compile_list_loop n s c init_vars) s cx is_quoted vars
                else compile_const s cx tok vars);
             compile_list_loop n s cx (vars\<lparr>cl_felem := False\<rparr>)
           })
        })
     }"

definition akl_compile_list :: "akl_state \<Rightarrow> addr \<Rightarrow> (addr \<times> akl_state) option" where
  "akl_compile_list s cx = compile_list_loop (parse_fuel s cx) s cx init_vars"

definition akl_compile_next :: "akl_state \<Rightarrow> addr \<Rightarrow> (akl_token \<times> addr \<times> akl_state) option" where
  "akl_compile_next s ctx = compile_next akl_compile_list s ctx"

subsection \<open>Programs\<close>

fun compile_loop :: "nat \<Rightarrow> akl_state \<Rightarrow> addr \<Rightarrow> akl_state option" where
  "compile_loop 0 s cx = None"
| "compile_loop (Suc n) s cx =
     do { (tok, f, s) \<leftarrow> akl_compile_next s cx; (if tok = tEOF then Some s else compile_loop n s cx) }"

definition akl_compile :: "akl_state \<Rightarrow> addr \<Rightarrow> (addr \<times> akl_state) option" where
  "akl_compile s dev =
     (if dev = 0 then None
      else do {
        let (cx, s) = akl_new_context s;
        let (f, s) = new_ufun s;
        uf \<leftarrow> get_ufun s f;
        s \<leftarrow> upd_ctx s cx (\<lambda>C. C\<lparr>cx_fn_main := f, cx_dev := dev, cx_comp_func := f, cx_ir := uf_body uf\<rparr>);
        s \<leftarrow> compile_loop (parse_fuel s cx) s cx;
        (lip, s) \<leftarrow> akl_list_pop s (uf_body uf);
        (if lip = 0 then Some (cx, s)
         else do {
           I \<leftarrow> st_instrs s lip;
           (if in_op I \<noteq> IR_NOP
            then do { (ent, s) \<leftarrow> akl_list_append s (uf_body uf) lip; Some (cx, s) }
            else Some (cx, s))
         })
      })"

end
