(* ===== verification/Print.thy ===== *)
theory Print
  imports Compiler
begin

text \<open>
  Printing and copying values, \<open>src/list.c\<close>, and the dumps of the code and of the stack in
  \<open>src/aklisp.c\<close>. The text is computed; \<open>out_text\<close> appends it to the standard output. A list
  that contains itself is printed for ever: the functions carry fuel, and \<open>text_fuel\<close> is more
  than the entries there are.
\<close>

definition out_text :: "akl_state \<Rightarrow> string \<Rightarrow> akl_state" where
  "out_text s t = s\<lparr>st_out := st_out s @ t\<rparr>"

definition AKL_GRAY :: string where "AKL_GRAY = ESC @ ''[30m''"
definition AKL_BRIGHT_GRAY :: string where "AKL_BRIGHT_GRAY = ESC @ ''[1;30m''"

definition colored :: "akl_state \<Rightarrow> string \<Rightarrow> string \<Rightarrow> string" where
  "colored s c t = AKL_COLORFUL s c @ t @ AKL_COLORFUL s AKL_END_COLOR_MARK"

subsection \<open>Values\<close>

text \<open>A value that is neither a list nor nil.\<close>

definition atom_text :: "akl_state \<Rightarrow> akl_value \<Rightarrow> string option" where
  "atom_text s V =
     (case va_type V of
        VT_NUMBER \<Rightarrow> do { d \<leftarrow> get_number V; Some (colored s AKL_YELLOW (format_g d)) }
      | VT_STRING \<Rightarrow> (case va_value V of
            V_string t \<Rightarrow> Some (colored s AKL_GREEN ([CHR 0x22] @ cstr t @ [CHR 0x22])) | _ \<Rightarrow> None)
      | VT_SYMBOL \<Rightarrow> (case va_value V of
            V_symbol y \<Rightarrow> do {
              n \<leftarrow> sym_name s y;
              Some (if va_quoted V
                    then colored s AKL_YELLOW (case n of None \<Rightarrow> [] | Some x \<Rightarrow> '':'' @ x)
                    else colored s AKL_PURPLE (case n of None \<Rightarrow> [] | Some x \<Rightarrow> x))
            }
          | _ \<Rightarrow> None)
      | VT_TRUE \<Rightarrow> Some (colored s AKL_BRIGHT_GREEN ''T'')
      | VT_USERDATA \<Rightarrow> (case va_value V of
            V_udata u \<Rightarrow> do {
              t \<leftarrow> (if u = 0 then Some (- 1) else map_option ud_id (st_udatas s u));
              name \<leftarrow> (if unat t < length (ai_utypes s)
                      then (case ai_utypes s ! unat t of
                              UT_name n \<Rightarrow> Some ('': '' @ n) | UT_null \<Rightarrow> Some '': (null)'' | _ \<Rightarrow> None)
                      else Some []);
              Some (colored s AKL_YELLOW (''<USERDATA'' @ name @ ''>''))
            }
          | _ \<Rightarrow> None)
      | VT_FUNCTION \<Rightarrow> Some (colored s AKL_YELLOW ''<FUNCTION>'')
      | _ \<Rightarrow> Some [])"

definition nil_list :: "akl_state \<Rightarrow> addr \<Rightarrow> bool option" where
  "nil_list s list =
     (if list = 0 then Some True
      else do { L \<leftarrow> st_lists s list; Some (li_nil L \<or> li_count L = 0) })"

fun value_text :: "nat \<Rightarrow> akl_state \<Rightarrow> addr \<Rightarrow> string option"
and list_text :: "nat \<Rightarrow> akl_state \<Rightarrow> addr \<Rightarrow> string option"
and entries_text :: "nat \<Rightarrow> akl_state \<Rightarrow> addr \<Rightarrow> string option" where
  "value_text 0 s val = None"
| "value_text (Suc n) s val =
     do {
       nil \<leftarrow> AKL_IS_NIL s val;
       (if nil then Some (colored s AKL_BRIGHT_GRAY ''NIL'')
        else do {
          V \<leftarrow> st_vals s val;
          (if va_type V = VT_LIST
           then (case va_value V of V_list l \<Rightarrow> list_text n s l | _ \<Rightarrow> None)
           else atom_text s V)
        })
     }"
| "list_text 0 s list = None"
| "list_text (Suc n) s list =
     do {
       nil \<leftarrow> nil_list s list;
       (if nil then Some (colored s AKL_GRAY ''NIL'')
        else do {
          L \<leftarrow> st_lists s list;
          t \<leftarrow> entries_text n s (li_head L);
          Some ((if li_quoted L then [CHR 0x27] else []) @ ''('' @ t @ '')'')
        })
     }"
| "entries_text 0 s ent = None"
| "entries_text (Suc n) s ent =
     (if ent = 0 then Some []
      else do {
        E \<leftarrow> st_ents s ent;
        (if le_data E = 0 then Some []
         else do {
           t \<leftarrow> value_text n s (le_data E);
           u \<leftarrow> entries_text n s (le_next E);
           Some (t @ (if le_next E = 0 then [] else '' '') @ u)
         })
      })"

definition text_fuel :: "akl_state \<Rightarrow> nat" where
  "text_fuel s = 3 * st_next s + 3"

definition akl_print_value :: "akl_state \<Rightarrow> addr \<Rightarrow> akl_state option" where
  "akl_print_value s val = map_option (out_text s) (value_text (text_fuel s) s val)"

definition akl_print_list :: "akl_state \<Rightarrow> addr \<Rightarrow> akl_state option" where
  "akl_print_list s list = map_option (out_text s) (list_text (text_fuel s) s list)"

subsection \<open>Copies\<close>

text \<open>
  Numbers, symbols, strings (the text is shared), functions and user data; nil and true are
  not copied. \<open>dup\<close> stands for the copy of a list.
\<close>

definition duplicate_with ::
    "(akl_state \<Rightarrow> addr \<Rightarrow> (addr \<times> akl_state) option) \<Rightarrow> akl_state \<Rightarrow> addr \<Rightarrow> (addr \<times> akl_state) option" where
  "duplicate_with dup s oval =
     (if oval = 0 then Some (0, s)
      else do {
        V \<leftarrow> st_vals s oval;
        (case va_type V of
           VT_LIST \<Rightarrow> do { l \<leftarrow> AKL_GET_LIST_VALUE s oval; (l', s) \<leftarrow> dup s l; akl_new_list_value s l' }
         | VT_SYMBOL \<Rightarrow> (case va_value V of
               V_symbol y \<Rightarrow> Some (new_value_with s (raw_value VT_SYMBOL (V_symbol y))) | _ \<Rightarrow> None)
         | VT_NUMBER \<Rightarrow> do { d \<leftarrow> get_number V; Some (akl_new_number_value s d) }
         | VT_STRING \<Rightarrow> do { x \<leftarrow> AKL_GET_STRING_VALUE s oval; Some (akl_new_string_value s x) }
         | VT_FUNCTION \<Rightarrow> Some (new_value_with s V)
         | VT_USERDATA \<Rightarrow> do {
             t \<leftarrow> akl_get_utype_value s oval;
             u \<leftarrow> akl_get_userdata_value s oval;
             U \<leftarrow> st_udatas s u;
             akl_new_user_value s t (ud_private U)
           }
         | VT_NIL \<Rightarrow> Some (NIL_ADDR, s)
         | VT_TRUE \<Rightarrow> Some (TRUE_ADDR, s)
         | VT_VARIABLE \<Rightarrow> Some (0, s))
      })"

fun duplicate_loop :: "nat \<Rightarrow> akl_state \<Rightarrow> addr \<Rightarrow> addr \<Rightarrow> akl_state option" where
  "duplicate_loop 0 s nlist ent = None"
| "duplicate_loop (Suc n) s nlist ent =
     (if ent = 0 then Some s
      else do {
        E \<leftarrow> st_ents s ent;
        (nval, s) \<leftarrow> duplicate_with
           (\<lambda>s l. do { let (nl, s) = akl_new_list s;
                       L \<leftarrow> st_lists s l;
                       s \<leftarrow> duplicate_loop n s nl (li_head L);
                       Some (nl, s) }) s (le_data E);
        (e, s) \<leftarrow> akl_list_append_value s nlist nval;
        E \<leftarrow> st_ents s ent;
        duplicate_loop n s nlist (le_next E)
      })"

definition akl_list_duplicate :: "akl_state \<Rightarrow> addr \<Rightarrow> (addr \<times> akl_state) option" where
  "akl_list_duplicate s list =
     do {
       let n = text_fuel s;
       let (nlist, s) = akl_new_list s;
       L \<leftarrow> st_lists s list;
       s \<leftarrow> duplicate_loop n s nlist (li_head L);
       Some (nlist, s)
     }"

definition akl_duplicate_value :: "akl_state \<Rightarrow> addr \<Rightarrow> (addr \<times> akl_state) option" where
  "akl_duplicate_value s oval = duplicate_with akl_list_duplicate s oval"

subsection \<open>The dump of a function\<close>

definition dump_jmp :: "akl_state \<Rightarrow> string \<Rightarrow> akl_ir_instruction \<Rightarrow> string option" where
  "dump_jmp s jname I =
     (case in_arg0 I of
        A_label l \<Rightarrow> do { L \<leftarrow> st_labels s l;
          Some (AKL_COLORFUL s AKL_BLUE @ jname @ '' '' @ colored s AKL_YELLOW (''.L'' @ show_int (int (la_ind L)))) }
      | _ \<Rightarrow> None)"

definition operand_name :: "akl_state \<Rightarrow> operand \<Rightarrow> string option" where
  "operand_name s a =
     (case a of A_symbol y \<Rightarrow> (if y = 0 then None else map_option cstr (sym_name s y)) | _ \<Rightarrow> None)"

definition operand_num :: "operand \<Rightarrow> string option" where
  "operand_num a = (case a of A_num k \<Rightarrow> Some (show_int (sint k)) | _ \<Rightarrow> None)"

definition instr_text :: "akl_state \<Rightarrow> akl_ir_instruction \<Rightarrow> string option" where
  "instr_text s I =
     (case in_op I of
        IR_NOP \<Rightarrow> Some (colored s AKL_BLUE ''nop'')
      | IR_CALL \<Rightarrow>
          (case in_arg0 I of
             A_symbol y \<Rightarrow> do {
               n \<leftarrow> sym_name s y;
               (case n of None \<Rightarrow> Some []
                | Some x \<Rightarrow> do {
                    k \<leftarrow> operand_num (in_arg1 I);
                    Some (AKL_COLORFUL s AKL_BLUE @ ''call '' @ colored s AKL_PURPLE x @ '', '' @
                          colored s AKL_YELLOW k)
                  })
             }
           | _ \<Rightarrow> None)
      | IR_JMP \<Rightarrow> dump_jmp s ''jmp'' I
      | IR_JN \<Rightarrow> dump_jmp s ''jn'' I
      | IR_JT \<Rightarrow> dump_jmp s ''jt'' I
      | IR_BRANCH \<Rightarrow>
          (case (in_arg0 I, in_arg1 I) of
             (A_label a, A_label b) \<Rightarrow> do {
               A \<leftarrow> st_labels s a; B \<leftarrow> st_labels s b;
               Some (AKL_COLORFUL s AKL_BLUE @ ''br '' @ colored s AKL_YELLOW (''.L'' @ show_int (int (la_ind A))) @
                     '', '' @ colored s AKL_YELLOW (''.L'' @ show_int (int (la_ind B))))
             }
           | _ \<Rightarrow> None)
      | IR_LOAD \<Rightarrow> do { k \<leftarrow> operand_num (in_arg0 I);
          Some (AKL_COLORFUL s AKL_BLUE @ ''load '' @ colored s AKL_BRIGHT_YELLOW (''%'' @ k)) }
      | IR_SET \<Rightarrow> do { x \<leftarrow> operand_name s (in_arg0 I);
          Some (AKL_COLORFUL s AKL_BLUE @ ''set '' @ colored s AKL_PURPLE x) }
      | IR_GET \<Rightarrow> do { x \<leftarrow> operand_name s (in_arg0 I);
          Some (AKL_COLORFUL s AKL_BLUE @ ''get '' @ colored s AKL_PURPLE x) }
      | IR_PUSH \<Rightarrow>
          (case in_arg0 I of
             A_value v \<Rightarrow> do { t \<leftarrow> value_text (text_fuel s) s v; Some (colored s AKL_BLUE ''push'' @ '' '' @ t) }
           | _ \<Rightarrow> None)
      | IR_HEAD \<Rightarrow> do { k \<leftarrow> operand_num (in_arg0 I); Some (''head '' @ k) }
      | IR_TAIL \<Rightarrow> do { k \<leftarrow> operand_num (in_arg0 I); Some (''tail '' @ k) }
      | IR_RET \<Rightarrow> Some ''ret'')"

text \<open>The labels that point at an entry, one line each.\<close>

fun labels_text :: "akl_state \<Rightarrow> addr \<Rightarrow> addr list \<Rightarrow> string option" where
  "labels_text s ent [] = Some []"
| "labels_text s ent (l # ls) =
     (if l = 0 then Some []
      else do {
        L \<leftarrow> st_labels s l;
        t \<leftarrow> labels_text s ent ls;
        Some ((if la_branch L = ent
               then AKL_COLORFUL s AKL_YELLOW @ ''.L'' @ show_int (int (la_ind L)) @ '':'' @
                    AKL_COLORFUL s AKL_END_COLOR_MARK @ [CHR 0x0A]
               else []) @ t)
      })"

fun dump_instrs :: "akl_state \<Rightarrow> addr list \<Rightarrow> addr list \<Rightarrow> string option" where
  "dump_instrs s labels [] = Some []"
| "dump_instrs s labels (ent # es) =
     do {
       E \<leftarrow> st_ents s ent;
       (if le_data E = 0 \<or> le_next E = ent then Some []
        else do {
          I \<leftarrow> st_instrs s (le_data E);
          l \<leftarrow> labels_text s ent labels;
          t \<leftarrow> instr_text s I;
          rest \<leftarrow> dump_instrs s labels es;
          Some (l @ [CHR 0x09] @ t @ [CHR 0x0A] @ rest)
        })
     }"

definition dump_ir_text :: "akl_state \<Rightarrow> addr \<Rightarrow> string option" where
  "dump_ir_text s fun =
     do {
       F \<leftarrow> st_funs s fun;
       (if fn_type F = FUNC_CFUN \<or> fn_type F = FUNC_SPECIAL then Some (''Compiled function'' @ [CHR 0x0A])
        else do {
          uf \<leftarrow> get_ufun s fun;
          lents \<leftarrow> AKL_LIST_FOREACH s (uf_labels uf);
          labels \<leftarrow> entries_data s lents;
          es \<leftarrow> AKL_LIST_FOREACH s (uf_body uf);
          dump_instrs s labels es
        })
     }"

definition akl_dump_ir :: "akl_state \<Rightarrow> addr \<Rightarrow> akl_state option" where
  "akl_dump_ir s fun = map_option (out_text s) (dump_ir_text s fun)"

text \<open>\<open>akl_clear_ir\<close> pops until the count is 0.\<close>

partial_function (option) clear_ir_loop :: "akl_state \<Rightarrow> addr \<Rightarrow> akl_state option" where
  "clear_ir_loop s ir =
     do { n \<leftarrow> akl_list_count s ir;
          (if n = 0 then Some s else do { (d, s) \<leftarrow> akl_list_pop s ir; clear_ir_loop s ir }) }"

definition akl_clear_ir :: "akl_state \<Rightarrow> addr \<Rightarrow> akl_state option" where
  "akl_clear_ir s ctx =
     (if ctx = 0 then Some s
      else do { C \<leftarrow> st_ctxs s ctx; (if cx_ir C = 0 then Some s else clear_ir_loop s (cx_ir C)) })"

partial_function (option) dump_stack_loop :: "akl_state \<Rightarrow> nat \<Rightarrow> addr \<Rightarrow> string option" where
  "dump_stack_loop s i ent =
     (if ent = 0 then Some []
      else do {
        E \<leftarrow> st_ents s ent;
        t \<leftarrow> value_text (text_fuel s) s (le_data E);
        rest \<leftarrow> dump_stack_loop s (i + 1) (le_prev E);
        Some ([CHR 0x09] @ colored s AKL_BRIGHT_YELLOW (''%'' @ show_int (int i)) @ '' - '' @ t @ [CHR 0x0A] @ rest)
      })"

definition akl_dump_stack :: "akl_state \<Rightarrow> addr \<Rightarrow> akl_state option" where
  "akl_dump_stack s ctx =
     do {
       C \<leftarrow> st_ctxs s ctx;
       it \<leftarrow> akl_list_it_end s (cx_stack C);
       t \<leftarrow> dump_stack_loop s 0 it;
       Some (out_text s (''--- Stack Dump ---'' @ [CHR 0x0A] @ t))
     }"

end
