(* ===== verification/Builtins.thy ===== *)
theory Builtins
  imports Print
begin

text \<open>
  The functions written in C, \<open>src/lib.c\<close>. Each takes its arguments from the frame of its
  context and gives its result; 0 is NULL. The functions that call back get the virtual
  machine's call, \<open>akl_call_function_bound\<close>, as an argument, and fuel for their loops over
  lists that the callback may extend.
\<close>

type_synonym cfun_result = "(addr \<times> akl_state) option"
type_synonym call_fn = "akl_state \<Rightarrow> addr \<Rightarrow> int \<Rightarrow> (addr \<times> akl_state) option"

definition AKL_BOOL :: "bool \<Rightarrow> addr" where
  "AKL_BOOL b = (if b then TRUE_ADDR else NIL_ADDR)"

definition AKL_NULLER :: "addr \<Rightarrow> addr" where
  "AKL_NULLER v = (if v = 0 then NIL_ADDR else v)"

definition AKL_NUMBER :: "akl_state \<Rightarrow> addr \<Rightarrow> double \<Rightarrow> cfun_result" where
  "AKL_NUMBER s ctx d =
     (if ctx = 0 then Some (0, s)
      else do { C \<leftarrow> st_ctxs s ctx; Some (if cx_state C then akl_new_number_value s d else (0, s)) })"

text \<open>C's integer division truncates; dividing by 0 and overflowing are undefined.\<close>

definition c_div :: "nat \<Rightarrow> int \<Rightarrow> int \<Rightarrow> int option" where
  "c_div w a b = (if b = 0 \<or> (a = - (2 ^ (w - 1)) \<and> b = - 1) then None
     else Some (sgn a * sgn b * (\<bar>a\<bar> div \<bar>b\<bar>)))"

definition c_mod :: "nat \<Rightarrow> int \<Rightarrow> int \<Rightarrow> int option" where
  "c_mod w a b = do { q \<leftarrow> c_div w a b; Some (a - q * b) }"

subsection \<open>Comparison\<close>

definition compare_numbers :: "int \<Rightarrow> int \<Rightarrow> int" where
  "compare_numbers n1 n2 = (if n1 = n2 then 0 else if n1 > n2 then 1 else - 1)"

text \<open>
  Numbers are compared as \<open>long\<close>s. In the loop over two lists the second iterator is never
  moved, \<open>v2\<close> is read through the first one; \<open>has_next\<close> asks for a further entry behind the
  current one. NULL fails the assertion.
\<close>

fun compare_values :: "nat \<Rightarrow> akl_state \<Rightarrow> addr \<Rightarrow> addr \<Rightarrow> int option"
and compare_lists :: "nat \<Rightarrow> akl_state \<Rightarrow> addr \<Rightarrow> addr \<Rightarrow> addr \<Rightarrow> addr \<Rightarrow> int option" where
  "compare_values 0 s c1 c2 = None"
| "compare_values (Suc n) s c1 c2 =
     (if c1 = 0 \<or> c2 = 0 then None
      else do {
        V1 \<leftarrow> st_vals s c1;
        V2 \<leftarrow> st_vals s c2;
        (if va_type V1 \<noteq> va_type V2 then Some (- 1)
         else case va_type V1 of
           VT_NUMBER \<Rightarrow> do {
             d1 \<leftarrow> get_number V1; d2 \<leftarrow> get_number V2;
             n1 \<leftarrow> to_c_long d1; n2 \<leftarrow> to_c_long d2;
             Some (compare_numbers n1 n2)
           }
         | VT_STRING \<Rightarrow> do {
             a \<leftarrow> AKL_GET_STRING_VALUE s c1; b \<leftarrow> AKL_GET_STRING_VALUE s c2;
             Some (case (a, b) of (Some x, Some y) \<Rightarrow> strcmp x y | _ \<Rightarrow> - 1)
           }
         | VT_SYMBOL \<Rightarrow> (case (va_value V1, va_value V2) of
               (V_symbol x, V_symbol y) \<Rightarrow> Some (compare_numbers (int x) (int y)) | _ \<Rightarrow> None)
         | VT_USERDATA \<Rightarrow> do {
             t1 \<leftarrow> akl_get_utype_value s c1; t2 \<leftarrow> akl_get_utype_value s c2;
             Some (compare_numbers (uint t1) (uint t2))
           }
         | VT_NIL \<Rightarrow> Some 0
         | VT_TRUE \<Rightarrow> Some 0
         | VT_LIST \<Rightarrow> do {
             l1 \<leftarrow> AKL_GET_LIST_VALUE s c1; l2 \<leftarrow> AKL_GET_LIST_VALUE s c2;
             e1 \<leftarrow> akl_list_it_begin s l1; e2 \<leftarrow> akl_list_it_begin s l2;
             compare_lists n s e1 e2 0 0
           }
         | _ \<Rightarrow> Some (- 1))
      })"
| "compare_lists 0 s e1 e2 v1 v2 = None"
| "compare_lists (Suc n) s e1 e2 v1 v2 =
     do {
       n1 \<leftarrow> akl_list_it_has_next s e1;
       (v1, e1) \<leftarrow> (if n1 then akl_list_it_next s e1 else Some (v1, e1));
       n2 \<leftarrow> akl_list_it_has_next s e2;
       (v2, e1) \<leftarrow> (if n2 then akl_list_it_next s e1 else Some (v2, e1));
       r \<leftarrow> compare_values n s v1 v2;
       (if r \<noteq> 0 then Some r else compare_lists n s e1 e2 v1 v2)
     }"

definition akl_compare_values :: "akl_state \<Rightarrow> addr \<Rightarrow> addr \<Rightarrow> int option" where
  "akl_compare_values s c1 c2 = compare_values (text_fuel s) s c1 c2"

definition akl_list_find_value :: "akl_state \<Rightarrow> addr \<Rightarrow> addr \<Rightarrow> (addr \<times> nat option) option" where
  "akl_list_find_value s list val = akl_list_find s list (akl_compare_values s) val"

definition akl_list_remove_value :: "akl_state \<Rightarrow> addr \<Rightarrow> addr \<Rightarrow> (addr \<times> akl_state) option" where
  "akl_list_remove_value s list val = akl_list_remove s list (akl_compare_values s) val"

definition get_and_compare_values :: "akl_state \<Rightarrow> addr \<Rightarrow> (int \<times> akl_state) option" where
  "get_and_compare_values s ctx =
     do {
       (r, s) \<leftarrow> akl_get_args s ctx 2;
       (case r of
          Some [a1, a2] \<Rightarrow> do { c \<leftarrow> akl_compare_values s a1 a2; Some (c, s) }
        | _ \<Rightarrow> Some (- 2, s))
     }"

definition akl_fn_gt :: "akl_state \<Rightarrow> addr \<Rightarrow> cfun_result" where
  "akl_fn_gt s ctx = do { (c, s) \<leftarrow> get_and_compare_values s ctx; Some (AKL_BOOL (c > 0), s) }"

definition akl_fn_gteq :: "akl_state \<Rightarrow> addr \<Rightarrow> cfun_result" where
  "akl_fn_gteq s ctx = do { (c, s) \<leftarrow> get_and_compare_values s ctx; Some (AKL_BOOL (c \<ge> 0), s) }"

definition akl_fn_lt :: "akl_state \<Rightarrow> addr \<Rightarrow> cfun_result" where
  "akl_fn_lt s ctx = do { (c, s) \<leftarrow> get_and_compare_values s ctx; Some (AKL_BOOL (c < 0), s) }"

definition akl_fn_lteq :: "akl_state \<Rightarrow> addr \<Rightarrow> cfun_result" where
  "akl_fn_lteq s ctx = do { (c, s) \<leftarrow> get_and_compare_values s ctx; Some (AKL_BOOL (c \<le> 0), s) }"

definition akl_fn_neq :: "akl_state \<Rightarrow> addr \<Rightarrow> cfun_result" where
  "akl_fn_neq s ctx = do { (c, s) \<leftarrow> get_and_compare_values s ctx; Some (AKL_BOOL (c \<noteq> 0), s) }"

definition akl_fn_eq :: "akl_state \<Rightarrow> addr \<Rightarrow> cfun_result" where
  "akl_fn_eq s ctx = do { (c, s) \<leftarrow> get_and_compare_values s ctx; Some (AKL_BOOL (c = 0), s) }"

subsection \<open>Arithmetic\<close>

text \<open>One number as the argument; nil when the arguments are wrong.\<close>

definition with_number ::
    "akl_state \<Rightarrow> addr \<Rightarrow> (akl_state \<Rightarrow> double \<Rightarrow> cfun_result) \<Rightarrow> cfun_result" where
  "with_number s ctx f =
     do {
       (r, s) \<leftarrow> akl_get_args_strict s ctx [TYPE_OF VT_NUMBER];
       (case r of Some [ARG_number n] \<Rightarrow> f s n | _ \<Rightarrow> Some (NIL_ADDR, s))
     }"

definition akl_fn_inc :: "akl_state \<Rightarrow> addr \<Rightarrow> cfun_result" where
  "akl_fn_inc s cx = with_number s cx (\<lambda>s n. AKL_NUMBER s cx (dbl_add n (dbl_of_int 1)))"

definition akl_fn_dec :: "akl_state \<Rightarrow> addr \<Rightarrow> cfun_result" where
  "akl_fn_dec s cx = with_number s cx (\<lambda>s n. AKL_NUMBER s cx (dbl_sub n (dbl_of_int 1)))"

definition akl_fn_iszero :: "akl_state \<Rightarrow> addr \<Rightarrow> cfun_result" where
  "akl_fn_iszero s cx = with_number s cx (\<lambda>s n. Some (AKL_BOOL (dbl_eq n (dbl_of_int 0)), s))"

text \<open>The loops end at the first argument (from the right) that is not a number.\<close>

partial_function (option) plus_loop :: "akl_state \<Rightarrow> addr \<Rightarrow> double \<Rightarrow> (double \<times> akl_state) option" where
  "plus_loop s cx acc =
     do { (n, s) \<leftarrow> akl_frame_pop_number s cx;
          (case n of None \<Rightarrow> Some (acc, s) | Some d \<Rightarrow> plus_loop s cx (dbl_add acc d)) }"

definition akl_fn_plus :: "akl_state \<Rightarrow> addr \<Rightarrow> cfun_result" where
  "akl_fn_plus s cx = do { (acc, s) \<leftarrow> plus_loop s cx (dbl_of_int 0); AKL_NUMBER s cx acc }"

partial_function (option) mul_loop :: "akl_state \<Rightarrow> addr \<Rightarrow> double \<Rightarrow> (double \<times> akl_state) option" where
  "mul_loop s cx acc =
     do { (n, s) \<leftarrow> akl_frame_pop_number s cx;
          (case n of None \<Rightarrow> Some (acc, s) | Some d \<Rightarrow> mul_loop s cx (dbl_mul acc d)) }"

definition akl_fn_mul :: "akl_state \<Rightarrow> addr \<Rightarrow> cfun_result" where
  "akl_fn_mul s cx = do { (acc, s) \<leftarrow> mul_loop s cx (dbl_of_int 1); AKL_NUMBER s cx acc }"

definition not_a_number :: "akl_state \<Rightarrow> addr \<Rightarrow> cfun_result" where
  "not_a_number s cx =
     do { s \<leftarrow> akl_raise_error s cx ALERT_ERROR ''Argument is not a number!''; AKL_NUMBER s cx (dbl_of_int 0) }"

partial_function (option) minus_loop :: "akl_state \<Rightarrow> addr \<Rightarrow> double \<Rightarrow> cfun_result" where
  "minus_loop s cx a =
     do {
       (v, s) \<leftarrow> akl_frame_shift s cx;
       (if v = 0 then AKL_NUMBER s cx a
        else do {
          b \<leftarrow> is_type s v VT_NUMBER;
          (if b then do { n \<leftarrow> AKL_GET_NUMBER_VALUE s v; minus_loop s cx (dbl_sub a n) }
           else not_a_number s cx)
        })
     }"

definition akl_fn_minus :: "akl_state \<Rightarrow> addr \<Rightarrow> cfun_result" where
  "akl_fn_minus s cx =
     do {
       (v, s) \<leftarrow> akl_frame_shift s cx;
       (if v = 0 then AKL_NUMBER s cx (dbl_of_int 0)
        else do {
          b \<leftarrow> is_type s v VT_NUMBER;
          (if b then do { a \<leftarrow> AKL_GET_NUMBER_VALUE s v; minus_loop s cx a } else not_a_number s cx)
        })
     }"

definition zero_division :: "akl_state \<Rightarrow> addr \<Rightarrow> cfun_result" where
  "zero_division s cx =
     do { s \<leftarrow> akl_raise_error s cx ALERT_ERROR ''Zero division.''; Some (NIL_ADDR, s) }"

partial_function (option) ddiv_loop :: "akl_state \<Rightarrow> addr \<Rightarrow> double \<Rightarrow> cfun_result" where
  "ddiv_loop s cx q =
     do {
       (n, s) \<leftarrow> akl_frame_shift_number s cx;
       (case n of
          None \<Rightarrow> AKL_NUMBER s cx q
        | Some d \<Rightarrow> if dbl_eq d (dbl_of_int 0) then zero_division s cx else ddiv_loop s cx (dbl_div q d))
     }"

definition akl_fn_ddiv :: "akl_state \<Rightarrow> addr \<Rightarrow> cfun_result" where
  "akl_fn_ddiv s cx =
     do {
       (n, s) \<leftarrow> akl_frame_shift_number s cx;
       (case n of None \<Rightarrow> AKL_NUMBER s cx (dbl_of_int 0) | Some d \<Rightarrow> ddiv_loop s cx d)
     }"

text \<open>The quotient is a \<open>long\<close>; each divisor is tested as a \<open>long\<close> and used as an \<open>int\<close>.\<close>

partial_function (option) idiv_loop :: "akl_state \<Rightarrow> addr \<Rightarrow> int \<Rightarrow> cfun_result" where
  "idiv_loop s cx q =
     do {
       (n, s) \<leftarrow> akl_frame_shift_number s cx;
       (case n of
          None \<Rightarrow> AKL_NUMBER s cx (dbl_of_int q)
        | Some d \<Rightarrow> do {
            l \<leftarrow> to_c_long d;
            (if l = 0 then zero_division s cx
             else do { i \<leftarrow> to_c_int d; q' \<leftarrow> c_div 64 q i; idiv_loop s cx q' })
          })
     }"

definition akl_fn_idiv :: "akl_state \<Rightarrow> addr \<Rightarrow> cfun_result" where
  "akl_fn_idiv s cx =
     do {
       (n, s) \<leftarrow> akl_frame_shift_number s cx;
       (case n of
          None \<Rightarrow> AKL_NUMBER s cx (dbl_of_int 0)
        | Some d \<Rightarrow> do { q \<leftarrow> to_c_long d; idiv_loop s cx q })
     }"

definition akl_fn_mod :: "akl_state \<Rightarrow> addr \<Rightarrow> cfun_result" where
  "akl_fn_mod s cx =
     do {
       (r, s) \<leftarrow> akl_get_args_strict s cx [TYPE_OF VT_NUMBER, TYPE_OF VT_NUMBER];
       (case r of
          Some [ARG_number a, ARG_number b] \<Rightarrow> do {
            x \<leftarrow> to_c_int a; y \<leftarrow> to_c_int b; m \<leftarrow> c_mod 32 x y;
            AKL_NUMBER s cx (dbl_of_int m)
          }
        | _ \<Rightarrow> Some (NIL_ADDR, s))
     }"

subsection \<open>Predicates and logic\<close>

definition akl_fn_isnil :: "akl_state \<Rightarrow> addr \<Rightarrow> cfun_result" where
  "akl_fn_isnil s cx = do { (v, s) \<leftarrow> akl_frame_pop s cx; b \<leftarrow> AKL_IS_NIL s v; Some (AKL_BOOL b, s) }"

definition akl_fn_isstring :: "akl_state \<Rightarrow> addr \<Rightarrow> cfun_result" where
  "akl_fn_isstring s cx = do { (x, s) \<leftarrow> akl_frame_pop_string s cx; Some (AKL_BOOL (x \<noteq> None), s) }"

definition akl_fn_islist :: "akl_state \<Rightarrow> addr \<Rightarrow> cfun_result" where
  "akl_fn_islist s cx =
     do { (v, s) \<leftarrow> akl_frame_pop s cx; b \<leftarrow> is_type s v VT_LIST; c \<leftarrow> is_type s v VT_NIL;
          Some (AKL_BOOL (v \<noteq> 0 \<and> (b \<or> c)), s) }"

definition akl_fn_isnumber :: "akl_state \<Rightarrow> addr \<Rightarrow> cfun_result" where
  "akl_fn_isnumber s cx = do { (n, s) \<leftarrow> akl_frame_pop_number s cx; Some (AKL_BOOL (n \<noteq> None), s) }"

definition akl_fn_issymbol :: "akl_state \<Rightarrow> addr \<Rightarrow> cfun_result" where
  "akl_fn_issymbol s cx =
     do { (v, s) \<leftarrow> akl_frame_pop s cx; b \<leftarrow> is_type s v VT_SYMBOL; Some (AKL_BOOL b, s) }"

definition akl_fn_not :: "akl_state \<Rightarrow> addr \<Rightarrow> cfun_result" where
  "akl_fn_not s ctx = do { (v, s) \<leftarrow> akl_frame_pop s ctx; b \<leftarrow> AKL_IS_NIL s v; Some (AKL_BOOL b, s) }"

partial_function (option) akl_fn_and :: "akl_state \<Rightarrow> addr \<Rightarrow> cfun_result" where
  "akl_fn_and s ctx =
     do {
       (v, s) \<leftarrow> akl_frame_pop s ctx;
       (if v = 0 then Some (TRUE_ADDR, s)
        else do { b \<leftarrow> AKL_IS_NIL s v; (if b then Some (NIL_ADDR, s) else akl_fn_and s ctx) })
     }"

partial_function (option) akl_fn_or :: "akl_state \<Rightarrow> addr \<Rightarrow> cfun_result" where
  "akl_fn_or s ctx =
     do {
       (v, s) \<leftarrow> akl_frame_pop s ctx;
       (if v = 0 then Some (NIL_ADDR, s)
        else do { b \<leftarrow> AKL_IS_NIL s v; (if \<not> b then Some (TRUE_ADDR, s) else akl_fn_or s ctx) })
     }"

subsection \<open>Lists and strings\<close>

definition list_or_string_error :: "akl_state \<Rightarrow> addr \<Rightarrow> akl_state option" where
  "list_or_string_error s ctx = akl_raise_error s ctx ALERT_ERROR ''Argument must be a list or a string!''"

definition nil_error :: "akl_state \<Rightarrow> addr \<Rightarrow> string \<Rightarrow> cfun_result" where
  "nil_error s ctx msg = do { s \<leftarrow> akl_raise_error s ctx ALERT_ERROR msg; Some (NIL_ADDR, s) }"

definition akl_fn_length :: "akl_state \<Rightarrow> addr \<Rightarrow> cfun_result" where
  "akl_fn_length s ctx =
     do {
       (r, s) \<leftarrow> akl_get_args s ctx 1;
       (case r of
          Some [vp] \<Rightarrow> do {
            V \<leftarrow> st_vals s vp;
            (case va_type V of
               VT_STRING \<Rightarrow> do {
                 t \<leftarrow> AKL_GET_STRING_VALUE s vp; t \<leftarrow> t;
                 Some (akl_new_number_value s (dbl_of_int (int (length t))))
               }
             | VT_LIST \<Rightarrow> do {
                 l \<leftarrow> AKL_GET_LIST_VALUE s vp; n \<leftarrow> akl_list_count s l;
                 Some (akl_new_number_value s (dbl_of_int (uint n)))
               }
             | _ \<Rightarrow> do { s \<leftarrow> list_or_string_error s ctx; Some (NIL_ADDR, s) })
          }
        | _ \<Rightarrow> Some (NIL_ADDR, s))
     }"

text \<open>
  \<open>index\<close>, \<open>head\<close>, \<open>last\<close> and \<open>tail\<close>. For a value of another type the value itself is the
  result, after the error.
\<close>

definition akl_fn_ls_index :: "akl_state \<Rightarrow> addr \<Rightarrow> cfun_result" where
  "akl_fn_ls_index s ctx =
     do {
       (n, s) \<leftarrow> akl_frame_shift_number s ctx;
       (v, s) \<leftarrow> akl_frame_pop s ctx;
       (case n of
          None \<Rightarrow> nil_error s ctx ''No index is given.''
        | Some d \<Rightarrow>
            if v = 0 then nil_error s ctx ''No indexable value is given.''
            else do {
              i \<leftarrow> to_c_int d;
              V \<leftarrow> st_vals s v;
              (case va_type V of
                 VT_STRING \<Rightarrow> do {
                   t \<leftarrow> AKL_GET_STRING_VALUE s v;
                   (if i < 0 then Some (NIL_ADDR, s)
                    else do { t \<leftarrow> t;
                      Some (if i < int (length t) then akl_new_string_value s (Some [t ! nat i]) else (NIL_ADDR, s)) })
                 }
               | VT_LIST \<Rightarrow> do {
                   l \<leftarrow> AKL_GET_LIST_VALUE s v; w \<leftarrow> akl_list_index_value s l i; Some (AKL_NULLER w, s)
                 }
               | _ \<Rightarrow> do { s \<leftarrow> list_or_string_error s ctx; Some (v, s) })
            })
     }"

definition akl_fn_ls_head :: "akl_state \<Rightarrow> addr \<Rightarrow> cfun_result" where
  "akl_fn_ls_head s ctx =
     do {
       (v, s) \<leftarrow> akl_frame_pop s ctx;
       (if v = 0 then nil_error s ctx ''No parameter is given.''
        else do {
          V \<leftarrow> st_vals s v;
          (case va_type V of
             VT_STRING \<Rightarrow> do {
               t \<leftarrow> AKL_GET_STRING_VALUE s v; t \<leftarrow> t;
               Some (if t \<noteq> [] then akl_new_string_value s (Some [hd t]) else (NIL_ADDR, s))
             }
           | VT_LIST \<Rightarrow> do { l \<leftarrow> AKL_GET_LIST_VALUE s v; w \<leftarrow> akl_list_head s l; Some (AKL_NULLER w, s) }
           | _ \<Rightarrow> do { s \<leftarrow> list_or_string_error s ctx; Some (v, s) })
        })
     }"

definition akl_fn_ls_last :: "akl_state \<Rightarrow> addr \<Rightarrow> cfun_result" where
  "akl_fn_ls_last s ctx =
     do {
       (v, s) \<leftarrow> akl_frame_pop s ctx;
       (if v = 0 then nil_error s ctx ''No parameter is given.''
        else do {
          V \<leftarrow> st_vals s v;
          (case va_type V of
             VT_STRING \<Rightarrow> do {
               t \<leftarrow> AKL_GET_STRING_VALUE s v; t \<leftarrow> t;
               Some (if t \<noteq> [] then akl_new_string_value s (Some [last t]) else (NIL_ADDR, s))
             }
           | VT_LIST \<Rightarrow> do { l \<leftarrow> AKL_GET_LIST_VALUE s v; w \<leftarrow> akl_list_last s l; Some (AKL_NULLER w, s) }
           | _ \<Rightarrow> do { s \<leftarrow> list_or_string_error s ctx; Some (v, s) })
        })
     }"

definition akl_fn_ls_tail :: "akl_state \<Rightarrow> addr \<Rightarrow> cfun_result" where
  "akl_fn_ls_tail s ctx =
     do {
       (v, s) \<leftarrow> akl_frame_pop s ctx;
       (if v = 0 then nil_error s ctx ''No parameter is given.''
        else do {
          V \<leftarrow> st_vals s v;
          (case va_type V of
             VT_STRING \<Rightarrow> do {
               t \<leftarrow> AKL_GET_STRING_VALUE s v; t \<leftarrow> t;
               Some (if t \<noteq> [] then akl_new_string_value s (Some (tl t)) else (NIL_ADDR, s))
             }
           | VT_LIST \<Rightarrow> do {
               l \<leftarrow> AKL_GET_LIST_VALUE s v;
               (l', s) \<leftarrow> akl_cdr s l;
               (if l' = 0 then Some (NIL_ADDR, s)
                else do { s \<leftarrow> upd_list s l' (\<lambda>L. L\<lparr>li_quoted := True\<rparr>); akl_new_list_value s l' })
             }
           | _ \<Rightarrow> do { s \<leftarrow> list_or_string_error s ctx; Some (v, s) })
        })
     }"

text \<open>
  \<open>insert!\<close> and \<open>append!\<close> change their second argument. The case of a string in \<open>insert!\<close>
  goes on into the case of nil: the result is a new list of the inserted value.
\<close>

definition new_list_of :: "bool \<Rightarrow> akl_state \<Rightarrow> addr \<Rightarrow> cfun_result" where
  "new_list_of at_head s iv =
     do {
       let (l, s) = akl_new_list s;
       (v, s) \<leftarrow> akl_new_list_value s l;
       (ent, s) \<leftarrow> (if at_head then akl_list_insert_head s l iv else akl_list_append s l iv);
       Some (v, s)
     }"

definition akl_fn_ls_insert :: "akl_state \<Rightarrow> addr \<Rightarrow> cfun_result" where
  "akl_fn_ls_insert s ctx =
     do {
       (iv, s) \<leftarrow> akl_frame_shift s ctx;
       (v, s) \<leftarrow> akl_frame_shift s ctx;
       (if iv = 0 \<or> v = 0 then nil_error s ctx ''Need a list or string as parameters.''
        else do {
          V \<leftarrow> st_vals s v;
          (case va_type V of
             VT_STRING \<Rightarrow> do {
               t \<leftarrow> AKL_GET_STRING_VALUE s v;
               x \<leftarrow> AKL_GET_STRING_VALUE s iv;
               b \<leftarrow> is_type s iv VT_STRING;
               s \<leftarrow> (if b then do { t \<leftarrow> t; x \<leftarrow> x; upd_val s v (\<lambda>V. V\<lparr>va_value := V_string (Some (x @ t))\<rparr>) }
                     else akl_raise_error s ctx ALERT_ERROR ''Must insert string.'');
               new_list_of True s iv
             }
           | VT_NIL \<Rightarrow> new_list_of True s iv
           | VT_LIST \<Rightarrow> do {
               l \<leftarrow> AKL_GET_LIST_VALUE s v; (ent, s) \<leftarrow> akl_list_insert_head_value s l iv; Some (v, s)
             }
           | _ \<Rightarrow> do { s \<leftarrow> list_or_string_error s ctx; Some (v, s) })
        })
     }"

definition akl_fn_ls_append :: "akl_state \<Rightarrow> addr \<Rightarrow> cfun_result" where
  "akl_fn_ls_append s ctx =
     do {
       (iv, s) \<leftarrow> akl_frame_shift s ctx;
       (v, s) \<leftarrow> akl_frame_shift s ctx;
       (if iv = 0 \<or> v = 0 then nil_error s ctx ''Need a list or string as parameters.''
        else do {
          V \<leftarrow> st_vals s v;
          (case va_type V of
             VT_STRING \<Rightarrow> do {
               t \<leftarrow> AKL_GET_STRING_VALUE s v;
               x \<leftarrow> AKL_GET_STRING_VALUE s iv;
               b \<leftarrow> is_type s iv VT_STRING;
               (if b
                then do { t \<leftarrow> t; x \<leftarrow> x; s \<leftarrow> upd_val s v (\<lambda>V. V\<lparr>va_value := V_string (Some (t @ x))\<rparr>); Some (v, s) }
                else nil_error s ctx ''Must append string.'')
             }
           | VT_LIST \<Rightarrow> do {
               l \<leftarrow> AKL_GET_LIST_VALUE s v; (ent, s) \<leftarrow> akl_list_append_value s l iv; Some (v, s)
             }
           | VT_NIL \<Rightarrow> new_list_of False s iv
           | _ \<Rightarrow> do { s \<leftarrow> list_or_string_error s ctx; Some (v, s) })
        })
     }"

definition akl_fn_progn :: "akl_state \<Rightarrow> addr \<Rightarrow> cfun_result" where
  "akl_fn_progn s ctx = akl_frame_pop s ctx"

text \<open>A new quoted list.\<close>

definition new_quoted_list :: "akl_state \<Rightarrow> addr \<times> akl_state" where
  "new_quoted_list s =
     (let l = st_next s in
      (l, s\<lparr>st_next := l + 1, st_lists := (st_lists s)(l \<mapsto> empty_list\<lparr>li_quoted := True\<rparr>)\<rparr>))"

partial_function (option) list_loop :: "akl_state \<Rightarrow> addr \<Rightarrow> addr \<Rightarrow> akl_state option" where
  "list_loop s ctx list =
     do { (v, s) \<leftarrow> akl_frame_shift s ctx;
          (if v = 0 then Some s
           else do { (ent, s) \<leftarrow> akl_list_append_value s list v; list_loop s ctx list }) }"

definition akl_fn_list :: "akl_state \<Rightarrow> addr \<Rightarrow> cfun_result" where
  "akl_fn_list s ctx =
     do {
       let (list, s) = akl_new_list s;
       s \<leftarrow> list_loop s ctx list;
       s \<leftarrow> upd_list s list (\<lambda>L. L\<lparr>li_quoted := True\<rparr>);
       akl_new_list_value s list
     }"

text \<open>\<open>range\<close>; stepping over the largest \<open>int\<close> is undefined.\<close>

fun range_loop :: "akl_state \<Rightarrow> addr \<Rightarrow> addr \<Rightarrow> int list \<Rightarrow> akl_state option" where
  "range_loop s ctx list [] = Some s"
| "range_loop s ctx list (f # fs) =
     do { (v, s) \<leftarrow> AKL_NUMBER s ctx (dbl_of_int f);
          (ent, s) \<leftarrow> akl_list_append_value s list v;
          range_loop s ctx list fs }"

definition akl_fn_range :: "akl_state \<Rightarrow> addr \<Rightarrow> cfun_result" where
  "akl_fn_range s ctx =
     do {
       (r, s) \<leftarrow> akl_get_args_strict s ctx [TYPE_OF VT_NUMBER, TYPE_OF VT_NUMBER];
       (case r of
          Some [ARG_number fp, ARG_number tp] \<Rightarrow> do {
            f \<leftarrow> to_c_int fp; t \<leftarrow> to_c_int tp;
            let (list, s) = new_quoted_list s;
            (if t = 2147483647 \<and> f \<le> t then None
             else do { s \<leftarrow> range_loop s ctx list [f..t]; akl_new_list_value s list })
          }
        | _ \<Rightarrow> Some (NIL_ADDR, s))
     }"

text \<open>\<open>strtok\<close> until it gives NULL: the maximal runs of characters that are no delimiters.\<close>

fun strtok_all :: "string \<Rightarrow> string \<Rightarrow> string \<Rightarrow> string list" where
  "strtok_all delim [] cur = (if cur = [] then [] else [cur])"
| "strtok_all delim (c # cs) cur =
     (if c \<in> set delim then (if cur = [] then [] else [cur]) @ strtok_all delim cs []
      else strtok_all delim cs (cur @ [c]))"

fun split_loop :: "akl_state \<Rightarrow> addr \<Rightarrow> string list \<Rightarrow> akl_state option" where
  "split_loop s ret [] = Some s"
| "split_loop s ret (sub # subs) =
     do { let (strent, s) = akl_new_string_value s (Some sub);
          (ent, s) \<leftarrow> akl_list_append_value s ret strent;
          split_loop s ret subs }"

definition akl_fn_split :: "akl_state \<Rightarrow> addr \<Rightarrow> cfun_result" where
  "akl_fn_split s cx =
     do {
       (vstr, s) \<leftarrow> akl_frame_shift s cx;
       b \<leftarrow> is_type s vstr VT_STRING;
       (if \<not> b then nil_error s cx ''No string to split!''
        else do {
          (vdelim, s) \<leftarrow> akl_frame_shift s cx;
          d \<leftarrow> is_type s vdelim VT_STRING;
          (delim, s) \<leftarrow>
            (if vdelim = 0 then Some (Some '' '', s)
             else if d then do { x \<leftarrow> AKL_GET_STRING_VALUE s vdelim; Some (x, s) }
             else do {
               s \<leftarrow> akl_raise_error s cx ALERT_WARNING
                      ''Delimiter is not a string! Falling back to default delimiter.'';
               Some (Some '' '', s)
             });
          str \<leftarrow> AKL_GET_STRING_VALUE s vstr;
          str \<leftarrow> str;
          delim \<leftarrow> delim;
          let (ret, s) = new_quoted_list s;
          s \<leftarrow> split_loop s ret (strtok_all delim str []);
          C \<leftarrow> st_ctxs s cx;
          (if cx_state C then akl_new_list_value s ret else Some (0, s))
        })
     }"

subsection \<open>Conversions\<close>

text \<open>For true, a list, a function or user data \<open>n\<close> is not initialised.\<close>

definition akl_fn_toint :: "akl_state \<Rightarrow> addr \<Rightarrow> cfun_result" where
  "akl_fn_toint s ctx =
     do {
       (r, s) \<leftarrow> akl_get_args s ctx 1;
       (case r of
          Some [v] \<Rightarrow> do {
            V \<leftarrow> st_vals s v;
            (case va_type V of
               VT_NIL \<Rightarrow> AKL_NUMBER s ctx (dbl_of_int 0)
             | VT_NUMBER \<Rightarrow> do { d \<leftarrow> get_number V; n \<leftarrow> to_c_int d; AKL_NUMBER s ctx (dbl_of_int n) }
             | VT_STRING \<Rightarrow> do {
                 x \<leftarrow> AKL_GET_STRING_VALUE s v;
                 (case x of None \<Rightarrow> Some (NIL_ADDR, s) | Some t \<Rightarrow> AKL_NUMBER s ctx (dbl_of_int (atoi t)))
               }
             | VT_SYMBOL \<Rightarrow> (case va_value V of
                   V_symbol y \<Rightarrow> do {
                     x \<leftarrow> sym_name s y;
                     (case x of None \<Rightarrow> Some (NIL_ADDR, s) | Some t \<Rightarrow> AKL_NUMBER s ctx (dbl_of_int (atoi t)))
                   }
                 | _ \<Rightarrow> None)
             | _ \<Rightarrow> None)
          }
        | _ \<Rightarrow> Some (NIL_ADDR, s))
     }"

definition akl_fn_tonumber :: "akl_state \<Rightarrow> addr \<Rightarrow> cfun_result" where
  "akl_fn_tonumber s ctx =
     do { (r, s) \<leftarrow> akl_get_args s ctx 1;
          (case r of Some [v] \<Rightarrow> akl_to_number s v | _ \<Rightarrow> Some (NIL_ADDR, s)) }"

definition akl_fn_tostr :: "akl_state \<Rightarrow> addr \<Rightarrow> cfun_result" where
  "akl_fn_tostr s ctx =
     do { (r, s) \<leftarrow> akl_get_args s ctx 1;
          (case r of Some [v] \<Rightarrow> akl_to_string s v | _ \<Rightarrow> Some (NIL_ADDR, s)) }"

subsection \<open>Functions that call back\<close>

text \<open>
  The loops of \<open>map\<close> and \<open>map-index\<close>; \<open>ind\<close> is the index when there is one. \<open>map-index\<close>
  pushes two values but calls with one argument.
\<close>

fun map_loop ::
    "nat \<Rightarrow> call_fn \<Rightarrow> akl_state \<Rightarrow> addr \<Rightarrow> addr \<Rightarrow> addr \<Rightarrow> int option \<Rightarrow> addr \<Rightarrow> akl_state option" where
  "map_loop 0 call s ctx cx nl ind it = None"
| "map_loop (Suc n) call s ctx cx nl ind it =
     do {
       (v, it) \<leftarrow> akl_list_it_next s it;
       (if v = 0 then Some s
        else do {
          s \<leftarrow> (case ind of None \<Rightarrow> Some s
                | Some i \<Rightarrow> do { (iv, s) \<leftarrow> AKL_NUMBER s ctx (dbl_of_int i); akl_stack_push s ctx iv });
          s \<leftarrow> akl_stack_push s ctx v;
          (r, s) \<leftarrow> call s cx 1;
          (w, s) \<leftarrow> akl_stack_pop s ctx;
          (ent, s) \<leftarrow> akl_list_append_value s nl w;
          map_loop n call s ctx cx nl (map_option (\<lambda>i. i + 1) ind) it
        })
     }"

definition map_impl :: "nat \<Rightarrow> call_fn \<Rightarrow> int option \<Rightarrow> akl_state \<Rightarrow> addr \<Rightarrow> cfun_result" where
  "map_impl n call ind s ctx =
     do {
       (r, s) \<leftarrow> akl_get_args_strict s ctx [TYPE_OF VT_LIST, TYPE_OF VT_FUNCTION];
       (case r of
          Some [ARG_list lp, ARG_fun fn] \<Rightarrow> do {
            it \<leftarrow> akl_list_it_begin s lp;
            (cx, s) \<leftarrow> akl_bound_function s ctx 0 fn;
            let (nl, s) = new_quoted_list s;
            s \<leftarrow> map_loop n call s ctx cx nl ind it;
            akl_new_list_value s nl
          }
        | _ \<Rightarrow> Some (NIL_ADDR, s))
     }"

definition akl_fn_map :: "nat \<Rightarrow> call_fn \<Rightarrow> akl_state \<Rightarrow> addr \<Rightarrow> cfun_result" where
  "akl_fn_map n call s ctx = map_impl n call None s ctx"

definition akl_fn_map_index :: "nat \<Rightarrow> call_fn \<Rightarrow> akl_state \<Rightarrow> addr \<Rightarrow> cfun_result" where
  "akl_fn_map_index n call s ctx = map_impl n call (Some 0) s ctx"

fun foldl_loop :: "nat \<Rightarrow> call_fn \<Rightarrow> akl_state \<Rightarrow> addr \<Rightarrow> addr \<Rightarrow> addr \<Rightarrow> (addr \<times> akl_state) option" where
  "foldl_loop 0 call s cx v it = None"
| "foldl_loop (Suc n) call s cx v it =
     do {
       (vl, it) \<leftarrow> akl_list_it_next s it;
       (if vl = 0 then Some (v, s)
        else do {
          s \<leftarrow> akl_stack_push s cx v;
          s \<leftarrow> akl_stack_push s cx vl;
          (r, s) \<leftarrow> call s cx 2;
          (v, s) \<leftarrow> akl_stack_pop s cx;
          foldl_loop n call s cx v it
        })
     }"

definition akl_fn_foldl :: "nat \<Rightarrow> call_fn \<Rightarrow> akl_state \<Rightarrow> addr \<Rightarrow> cfun_result" where
  "akl_fn_foldl n call s ctx =
     do {
       (r, s) \<leftarrow> akl_get_args_strict s ctx [TYPE_ANY, TYPE_OF VT_LIST, TYPE_OF VT_FUNCTION];
       (case r of
          Some [ARG_value v, ARG_list lp, ARG_fun fn] \<Rightarrow> do {
            it \<leftarrow> akl_list_it_begin s lp;
            (cx, s) \<leftarrow> akl_bound_function s ctx 0 fn;
            foldl_loop n call s cx v it
          }
        | _ \<Rightarrow> Some (NIL_ADDR, s))
     }"

fun times_loop ::
    "call_fn \<Rightarrow> bool \<Rightarrow> akl_state \<Rightarrow> addr \<Rightarrow> addr \<Rightarrow> addr \<Rightarrow> nat \<Rightarrow> nat \<Rightarrow> akl_state option" where
  "times_loop call is_indexed s ctx cx nl i 0 = Some s"
| "times_loop call is_indexed s ctx cx nl i (Suc k) =
     do {
       s \<leftarrow> (if is_indexed
             then do { (v, s) \<leftarrow> AKL_NUMBER s cx (dbl_of_int (int i)); akl_stack_push s cx v } else Some s);
       (r, s) \<leftarrow> call s cx (if is_indexed then 1 else 0);
       (w, s) \<leftarrow> akl_stack_pop s ctx;
       (ent, s) \<leftarrow> akl_list_append_value s nl w;
       times_loop call is_indexed s ctx cx nl (i + 1) k
     }"

definition times_impl :: "call_fn \<Rightarrow> bool \<Rightarrow> akl_state \<Rightarrow> addr \<Rightarrow> cfun_result" where
  "times_impl call is_indexed s ctx =
     do {
       (r, s) \<leftarrow> akl_get_args_strict s ctx [TYPE_OF VT_NUMBER, TYPE_OF VT_FUNCTION];
       (case r of
          Some [ARG_number d, ARG_fun fn] \<Rightarrow> do {
            (cx, s) \<leftarrow> akl_bound_function s ctx 0 fn;
            let (nl, s) = new_quoted_list s;
            k \<leftarrow> to_c_int d;
            s \<leftarrow> times_loop call is_indexed s ctx cx nl 0 (nat k);
            akl_new_list_value s nl
          }
        | _ \<Rightarrow> Some (NIL_ADDR, s))
     }"

definition akl_fn_times :: "call_fn \<Rightarrow> akl_state \<Rightarrow> addr \<Rightarrow> cfun_result" where
  "akl_fn_times call s ctx = times_impl call False s ctx"

definition akl_fn_times_index :: "call_fn \<Rightarrow> akl_state \<Rightarrow> addr \<Rightarrow> cfun_result" where
  "akl_fn_times_index call s ctx = times_impl call True s ctx"

subsection \<open>Output and the interpreter itself\<close>

definition NEWLINE :: string where "NEWLINE = [CHR 0x0A]"
definition TAB :: string where "TAB = [CHR 0x09]"

partial_function (option) print_loop :: "akl_state \<Rightarrow> addr \<Rightarrow> akl_state option" where
  "print_loop s cx =
     do { (v, s) \<leftarrow> akl_frame_shift s cx;
          (if v = 0 then Some s else do { s \<leftarrow> akl_print_value s v; print_loop s cx }) }"

definition akl_fn_print :: "akl_state \<Rightarrow> addr \<Rightarrow> cfun_result" where
  "akl_fn_print s cx = do { s \<leftarrow> print_loop s cx; Some (NIL_ADDR, out_text s NEWLINE) }"

partial_function (option) formatted_display :: "akl_state \<Rightarrow> addr \<Rightarrow> akl_state option" where
  "formatted_display s ctx =
     do {
       (v, s) \<leftarrow> akl_frame_shift s ctx;
       (if v = 0 then Some s
        else do {
          V \<leftarrow> st_vals s v;
          t \<leftarrow> (case va_type V of
                 VT_NUMBER \<Rightarrow> map_option format_g (AKL_GET_NUMBER_VALUE s v)
               | VT_STRING \<Rightarrow> map_option cstr (AKL_GET_STRING_VALUE s v)
               | _ \<Rightarrow> Some []);
          formatted_display (out_text s t) ctx
        })
     }"

definition akl_fn_display :: "akl_state \<Rightarrow> addr \<Rightarrow> cfun_result" where
  "akl_fn_display s cx = do { s \<leftarrow> formatted_display s cx; Some (TRUE_ADDR, out_text s NEWLINE) }"

definition akl_fn_write :: "akl_state \<Rightarrow> addr \<Rightarrow> cfun_result" where
  "akl_fn_write s cx = do { s \<leftarrow> formatted_display s cx; Some (TRUE_ADDR, s) }"

definition akl_fn_hello :: "akl_state \<Rightarrow> addr \<Rightarrow> cfun_result" where
  "akl_fn_hello s cx = Some (NIL_ADDR, out_text s (''This is a hello world function!'' @ NEWLINE))"

definition akl_fn_write_times :: "akl_state \<Rightarrow> addr \<Rightarrow> cfun_result" where
  "akl_fn_write_times s cx =
     do {
       (r, s) \<leftarrow> akl_get_args_strict s cx [TYPE_OF VT_NUMBER, TYPE_OF VT_STRING];
       (case r of
          Some [ARG_number n, ARG_string str] \<Rightarrow> do {
            k \<leftarrow> to_c_int n;
            AKL_NUMBER (out_text s (concat (replicate (nat k) (cstr str @ NEWLINE)))) cx n
          }
        | _ \<Rightarrow> Some (NIL_ADDR, s))
     }"

text \<open>\<open>n\<close> is not counted: every line starts with \<open>%0\<close>.\<close>

fun dump_stack_lines :: "akl_state \<Rightarrow> addr list \<Rightarrow> string option" where
  "dump_stack_lines s [] = Some []"
| "dump_stack_lines s (v # vs) =
     do { t \<leftarrow> value_text (text_fuel s) s v; rest \<leftarrow> dump_stack_lines s vs;
          Some (''%0: '' @ t @ NEWLINE @ rest) }"

definition akl_fn_dump_stack :: "akl_state \<Rightarrow> addr \<Rightarrow> cfun_result" where
  "akl_fn_dump_stack s cx =
     do {
       C \<leftarrow> st_ctxs s cx;
       es \<leftarrow> AKL_LIST_FOREACH s (cx_stack C);
       vs \<leftarrow> entries_data s es;
       t \<leftarrow> dump_stack_lines s vs;
       Some (NIL_ADDR, out_text s (''stack contents:'' @ NEWLINE @ t))
     }"

partial_function (option) clear_stack_loop :: "akl_state \<Rightarrow> addr \<Rightarrow> akl_state option" where
  "clear_stack_loop s ctx =
     do { (v, s) \<leftarrow> akl_stack_pop s ctx; (if v = 0 then Some s else clear_stack_loop s ctx) }"

definition akl_fn_clear_stack :: "akl_state \<Rightarrow> addr \<Rightarrow> cfun_result" where
  "akl_fn_clear_stack s ctx = do { s \<leftarrow> clear_stack_loop s ctx; Some (NIL_ADDR, s) }"

definition akl_fn_describe :: "akl_state \<Rightarrow> addr \<Rightarrow> cfun_result" where
  "akl_fn_describe s cx =
     do {
       (r, s) \<leftarrow> akl_get_args_strict s cx [TYPE_OF VT_SYMBOL];
       (case r of
          Some [ARG_symbol symb] \<Rightarrow> do {
            let var = akl_get_global_var s symb;
            desc \<leftarrow> (if var = 0 then Some None else map_option vr_desc (st_vars s var));
            (case desc of
               None \<Rightarrow> do {
                 name \<leftarrow> (if symb = 0 then None else sym_name s symb);
                 s \<leftarrow> akl_raise_error s cx ALERT_WARNING
                        (''Global atom '' @ [CHR 0x27] @ cstr name @ [CHR 0x27] @ '' cannot found'');
                 Some (NIL_ADDR, s)
               }
             | Some d \<Rightarrow> do {
                 C \<leftarrow> st_ctxs s cx;
                 Some (if cx_state C then akl_new_string_value s (Some d) else (0, s))
               })
          }
        | _ \<Rightarrow> Some (NIL_ADDR, s))
     }"

text \<open>\<open>%-10s\<close>: padded with blanks on the right.\<close>

definition pad_right :: "nat \<Rightarrow> string \<Rightarrow> string" where
  "pad_right n t = t @ replicate (n - length t) CHR '' ''"

definition feature_line :: "akl_state \<Rightarrow> string \<times> 64 word \<times> string \<Rightarrow> string" where
  "feature_line s f =
     (case f of (name, fbit, desc) \<Rightarrow>
        (if AKL_IS_FEATURE_ON s AKL_CFG_USE_COLORS
         then TAB @ AKL_YELLOW @ '':'' @ pad_right 10 name @ AKL_END_COLOR_MARK @ TAB @ pad_right 30 desc @
              pad_right 10 (if AKL_IS_FEATURE_ON s fbit then AKL_GREEN @ ''[on]'' else AKL_RED @ ''[off]'') @
              AKL_END_COLOR_MARK @ NEWLINE
         else TAB @ '':'' @ pad_right 10 name @ TAB @ pad_right 30 desc @
              pad_right 10 (if AKL_IS_FEATURE_ON s fbit then ''[on]'' else ''[off]'') @ NEWLINE))"

definition show_features :: "akl_state \<Rightarrow> string option \<Rightarrow> akl_state" where
  "show_features s fname =
     out_text s
       (NEWLINE @ ''Available options:'' @ NEWLINE @ concat (map (feature_line s) akl_features) @
        NEWLINE @ ''Usage:'' @ NEWLINE @
        TAB @ ''Enable: ('' @ colored s AKL_PURPLE (cstr fname) @ '' '' @ colored s AKL_YELLOW '':use-colors'' @ '')'' @ NEWLINE @
        TAB @ ''Disable: ('' @ colored s AKL_PURPLE (cstr fname) @ '' '' @ colored s AKL_YELLOW '':no-use-colors'' @ '')'' @ NEWLINE)"

text \<open>
  \<open>akl_cfg\<close> asks for one argument of the pseudotype \<open>AKL_VT_OPT\<close>; the type \<open>AKL_VT_SYMBOL\<close>
  and \<open>&sym\<close> behind it are never read. If the call returned 0, \<open>sym\<close> would be indeterminate.
\<close>

definition akl_fn_akl_cfg :: "akl_state \<Rightarrow> addr \<Rightarrow> cfun_result" where
  "akl_fn_akl_cfg s cx =
     do {
       (r, s) \<leftarrow> akl_get_args_strict s cx [TYPE_OPT];
       C \<leftarrow> st_ctxs s cx;
       (case r of None \<Rightarrow> Some (NIL_ADDR, show_features s (cx_func_name C)) | Some _ \<Rightarrow> None)
     }"

definition akl_fn_disassemble :: "akl_state \<Rightarrow> addr \<Rightarrow> int \<Rightarrow> cfun_result" where
  "akl_fn_disassemble s ctx argc =
     do {
       C \<leftarrow> st_ctxs s ctx;
       (if argc = 1
        then do {
          (r, s) \<leftarrow> akl_get_args_strict s ctx [TYPE_OF VT_SYMBOL];
          (case r of
             Some [ARG_symbol symb] \<Rightarrow> do {
               let var = akl_get_global_var s symb;
               isf \<leftarrow> akl_var_is_function s var;
               (if \<not> isf then Some (NIL_ADDR, s)
                else do {
                  fn \<leftarrow> akl_var_to_function s var;
                  V \<leftarrow> st_vars s var;
                  name \<leftarrow> sym_name s (vr_symbol V);
                  let s = out_text s (colored s AKL_YELLOW
                     (case name of None \<Rightarrow> [] | Some x \<Rightarrow> NEWLINE @ ''.'' @ x @ '':'' @ NEWLINE));
                  s \<leftarrow> akl_dump_ir s fn;
                  Some (NIL_ADDR, s)
                })
             }
           | _ \<Rightarrow> Some (0, s))
        }
        else do { s \<leftarrow> akl_dump_ir s (cx_fn_main C); Some (NIL_ADDR, s) })
     }"

subsection \<open>The table of the functions\<close>

text \<open>
  Functions that need what is outside the program (the clock, the standard input, files, the
  addresses of structures, the end of the process) are the parameter \<open>ext\<close>.
\<close>

type_synonym ext_fn = "akl_cfun \<Rightarrow> akl_state \<Rightarrow> addr \<Rightarrow> int \<Rightarrow> (addr \<times> akl_state) option"

definition call_cfun :: "ext_fn \<Rightarrow> nat \<Rightarrow> call_fn \<Rightarrow> akl_cfun \<Rightarrow> akl_state \<Rightarrow> addr \<Rightarrow> int \<Rightarrow> cfun_result" where
  "call_cfun ext n call f s cx argc =
     (case f of
        fn_inc \<Rightarrow> akl_fn_inc s cx
      | fn_dec \<Rightarrow> akl_fn_dec s cx
      | fn_plus \<Rightarrow> akl_fn_plus s cx
      | fn_minus \<Rightarrow> akl_fn_minus s cx
      | fn_mul \<Rightarrow> akl_fn_mul s cx
      | fn_ddiv \<Rightarrow> akl_fn_ddiv s cx
      | fn_idiv \<Rightarrow> akl_fn_idiv s cx
      | fn_mod \<Rightarrow> akl_fn_mod s cx
      | fn_neq \<Rightarrow> akl_fn_neq s cx
      | fn_eq \<Rightarrow> akl_fn_eq s cx
      | fn_gt \<Rightarrow> akl_fn_gt s cx
      | fn_lt \<Rightarrow> akl_fn_lt s cx
      | fn_gteq \<Rightarrow> akl_fn_gteq s cx
      | fn_lteq \<Rightarrow> akl_fn_lteq s cx
      | fn_not \<Rightarrow> akl_fn_not s cx
      | fn_and \<Rightarrow> akl_fn_and s cx
      | fn_or \<Rightarrow> akl_fn_or s cx
      | fn_iszero \<Rightarrow> akl_fn_iszero s cx
      | fn_isnil \<Rightarrow> akl_fn_isnil s cx
      | fn_isnumber \<Rightarrow> akl_fn_isnumber s cx
      | fn_isstring \<Rightarrow> akl_fn_isstring s cx
      | fn_islist \<Rightarrow> akl_fn_islist s cx
      | fn_issymbol \<Rightarrow> akl_fn_issymbol s cx
      | fn_tonumber \<Rightarrow> akl_fn_tonumber s cx
      | fn_toint \<Rightarrow> akl_fn_toint s cx
      | fn_tostr \<Rightarrow> akl_fn_tostr s cx
      | fn_list \<Rightarrow> akl_fn_list s cx
      | fn_length \<Rightarrow> akl_fn_length s cx
      | fn_ls_index \<Rightarrow> akl_fn_ls_index s cx
      | fn_ls_head \<Rightarrow> akl_fn_ls_head s cx
      | fn_ls_tail \<Rightarrow> akl_fn_ls_tail s cx
      | fn_ls_last \<Rightarrow> akl_fn_ls_last s cx
      | fn_ls_append \<Rightarrow> akl_fn_ls_append s cx
      | fn_ls_insert \<Rightarrow> akl_fn_ls_insert s cx
      | fn_split \<Rightarrow> akl_fn_split s cx
      | fn_range \<Rightarrow> akl_fn_range s cx
      | fn_progn \<Rightarrow> akl_fn_progn s cx
      | fn_akl_cfg \<Rightarrow> akl_fn_akl_cfg s cx
      | fn_describe \<Rightarrow> akl_fn_describe s cx
      | fn_map \<Rightarrow> akl_fn_map n call s cx
      | fn_map_index \<Rightarrow> akl_fn_map_index n call s cx
      | fn_foldl \<Rightarrow> akl_fn_foldl n call s cx
      | fn_times \<Rightarrow> akl_fn_times call s cx
      | fn_times_index \<Rightarrow> akl_fn_times_index call s cx
      | fn_dump_stack \<Rightarrow> akl_fn_dump_stack s cx
      | fn_clear_stack \<Rightarrow> akl_fn_clear_stack s cx
      | fn_disassemble \<Rightarrow> akl_fn_disassemble s cx argc
      | fn_hello \<Rightarrow> akl_fn_hello s cx
      | fn_write_times \<Rightarrow> akl_fn_write_times s cx
      | fn_print \<Rightarrow> akl_fn_print s cx
      | fn_display \<Rightarrow> akl_fn_display s cx
      | fn_write \<Rightarrow> akl_fn_write s cx
      | _ \<Rightarrow> ext f s cx argc)"

end
