(* ===== verification/Library.thy ===== *)
theory Library
  imports Builtins
begin

text \<open>
  The tables of the functions at the end of \<open>src/lib.c\<close>, and the start of the interpreter:
  \<open>akl_init_library\<close> and \<open>akl_init_state\<close> of \<open>src/types.c\<close>.
\<close>

definition akl_basic_funs :: "akl_fun_decl list" where
  "akl_basic_funs =
     [Decl_cfun fn_inc ''++'' (Some ''Increment a number by one''),
      Decl_cfun fn_dec ''--'' (Some ''Decrement a number by one''),
      Decl_cfun fn_plus ''+'' (Some ''Arithmetic addition''),
      Decl_cfun fn_minus ''-'' (Some ''Arithmetic substraction''),
      Decl_cfun fn_mul ''*'' (Some ''Arithmetic product''),
      Decl_cfun fn_ddiv ''/'' (Some ''Arithmetic division''),
      Decl_cfun fn_idiv ''div'' (Some ''Integer division''),
      Decl_cfun fn_mod ''mod'' (Some ''Integeral modulus''),
      Decl_cfun fn_mod ''%'' (Some ''Integeral modulus''),
      Decl_cfun fn_neq ''!='' (Some ''Compare to values for inequality''),
      Decl_cfun fn_eq ''='' (Some ''Compare to values for equality''),
      Decl_cfun fn_gt ''>'' (Some ''Greater compare function''),
      Decl_cfun fn_lt ''<'' (Some ''Lesser than''),
      Decl_cfun fn_gteq ''>='' (Some ''Greater than or equal''),
      Decl_cfun fn_lteq ''<='' (Some ''Less or equal than''),
      Decl_cfun fn_not ''not'' (Some ''Logical not''),
      Decl_cfun fn_and ''and'' (Some ''Logical and''),
      Decl_cfun fn_or ''or'' (Some ''Logical or''),
      Decl_cfun fn_iszero ''zero?'' (Some ''Gives true if the parameter is zero, nil otherwise''),
      Decl_cfun fn_isnil ''nil?'' (Some ''Gives true if the parameter is nil''),
      Decl_cfun fn_isnumber ''number?'' (Some ''Gives true if the parameter is a number''),
      Decl_cfun fn_isstring ''string?'' (Some ''Gives true if the parameter is a string''),
      Decl_cfun fn_islist ''list?'' (Some ''Gives true if the parameter is a list''),
      Decl_cfun fn_issymbol ''symbol?'' (Some ''Gives true if the parameter is a symbol''),
      Decl_cfun fn_tonumber ''number'' (Some ''Converts values to a floating point number''),
      Decl_cfun fn_toint ''int'' (Some ''Converts values to an integer number''),
      Decl_cfun fn_tostr ''string'' (Some ''Converts values to a string''),
      Decl_cfun fn_list ''list'' (Some ''Create a list from the given arguments''),
      Decl_cfun fn_length ''length'' (Some ''Get the length of a string or the element count for a list''),
      Decl_cfun fn_ls_index ''index'' (Some ''Index a list or a string''),
      Decl_cfun fn_ls_head ''head'' (Some ''Get the first element of a list or the first character of a string''),
      Decl_cfun fn_ls_head ''first'' (Some ''Get the first element of a list or the first character of a string''),
      Decl_cfun fn_ls_head ''car'' (Some ''Get the first element of a list or the first character of a string''),
      Decl_cfun fn_ls_tail ''cdr'' (Some ''Get the remaining elements or characters of a list or string (everything after head)''),
      Decl_cfun fn_ls_tail ''tail'' (Some ''Get the remaining elements or characters of a list or string (everything after head)''),
      Decl_cfun fn_ls_last ''last'' (Some ''Get the last element of a list or the last character of a string''),
      Decl_cfun fn_ls_append ''append!'' (Some ''Add an element to the end of a list or string''),
      Decl_cfun fn_ls_insert ''insert!'' (Some ''Insert an element to the start of the list or a string''),
      Decl_cfun fn_split ''split'' (Some ''Split a string by a delimiter (default is space) into a list''),
      Decl_cfun fn_range ''range'' (Some ''Make a list of numbers from a range''),
      Decl_cfun fn_progn ''$'' (Some ''Evaulate all elements and give back the last (primitive sequence)''),
      Decl_cfun fn_akl_cfg ''akl-cfg!'' (Some ''Set/unset interpreter features''),
      Decl_cfun fn_describe ''describe'' (Some ''Get a global atom help string''),
      Decl_cfun fn_map ''map'' (Some ''Call a function on list elements''),
      Decl_cfun fn_map_index ''map-index'' (Some (''Call a function on list with the elements'' @ [CHR 0x27] @ '' index (from 0) and the elements themselves'')),
      Decl_cfun fn_foldl ''foldl'' (Some ''Fold a list from left''),
      Decl_cfun fn_foldl ''fold'' (Some ''Fold a list from left''),
      Decl_cfun fn_times ''times'' (Some ''Call a function n times''),
      Decl_cfun fn_times_index ''times-index'' (Some ''Call a function n times (also passing the index to the function)''),
      Decl_cfun fn_exit ''exit!'' (Some ''Exit'')]"

definition akl_debug_funs :: "akl_fun_decl list" where
  "akl_debug_funs =
     [Decl_cfun fn_dump_stack ''dump-stack'' (Some ''Dump the stack contents''),
      Decl_cfun fn_clear_stack ''clear-stack'' (Some ''Clear the current stack''),
      Decl_cfun fn_disassemble ''disassemble'' (Some ''Disassemble a given function''),
      Decl_cfun fn_hello ''hello'' (Some ''Hello function''),
      Decl_cfun fn_write_times ''write-times'' (Some ''Write a string out n times''),
      Decl_cfun fn_about ''about'' (Some ''Informations about the interpreter''),
      Decl_cfun fn_dump_vars ''dump-vars'' (Some ''Display all global variables (with symbol pointers''),
      Decl_cfun fn_print_symbol_ptr ''print-symbol-ptr'' (Some (''Display the symbol'' @ [CHR 0x27] @ ''s internal pointer''))]"

definition akl_io_funs :: "akl_fun_decl list" where
  "akl_io_funs =
     [Decl_cfun fn_print ''print'' (Some ''Print a value in Lisp form''),
      Decl_cfun fn_display ''display'' (Some ''Display a value without formatting (with newline)''),
      Decl_cfun fn_write ''write'' (Some ''Display a value without formatting (without newline)''),
      Decl_cfun fn_read_number ''read-number'' (Some ''Read a number from the standard input''),
      Decl_cfun fn_read_string ''read-string'' (Some ''Read a string from the standard input''),
      Decl_cfun fn_read_string ''getline'' (Some ''Read a string from the standard input'')]"

definition akl_sys_funs :: "akl_fun_decl list" where
  "akl_sys_funs =
     [Decl_cfun fn_getdatetime ''get-date-time'' (Some (''Get the current date and time in a list with the elements: '' @ [CHR 0x27] @ ''(year month[0-11] day[1-31] day-of-the-week[:monday, :thuesday, ...] hour[0-23] min[0-59] sec[0-60])'')),
      Decl_cfun fn_gettime ''get-time'' (Some (''Current time in a list, in the order of: '' @ [CHR 0x27] @ ''(hour[0-23] min[0-59] sec[0-60])''))]"

definition akl_module_funs :: "akl_fun_decl list" where
  "akl_module_funs =
     [Decl_cfun fn_load ''load'' (Some ''Load a file or module'')]"

text \<open>Bits of \<open>flags\<close>.\<close>

definition AKL_LIB_BASIC :: u32 where "AKL_LIB_BASIC = 0x001"
definition AKL_LIB_SYSTEM :: u32 where "AKL_LIB_SYSTEM = 0x020"
definition AKL_LIB_FILE :: u32 where "AKL_LIB_FILE = 0x200"
definition AKL_LIB_ALL :: u32 where "AKL_LIB_ALL = 0x3FF"

definition akl_define_mod_path :: "akl_state \<Rightarrow> akl_state" where
  "akl_define_mod_path s = snd (akl_new_list s)"

definition akl_init_library :: "akl_state \<Rightarrow> u32 \<Rightarrow> akl_state option" where
  "akl_init_library s flags =
     do {
       s \<leftarrow> (if flags AND AKL_LIB_BASIC \<noteq> 0 then akl_declare_functions s akl_basic_funs else Some s);
       s \<leftarrow> akl_declare_functions s akl_debug_funs;
       s \<leftarrow> (if flags AND AKL_LIB_FILE \<noteq> 0 then akl_declare_functions s akl_io_funs else Some s);
       s \<leftarrow> (if flags AND AKL_LIB_SYSTEM \<noteq> 0
             then do { s \<leftarrow> akl_declare_functions s akl_module_funs; akl_declare_functions s akl_sys_funs }
             else Some s);
       s \<leftarrow> akl_spec_library_init s;
       Some (akl_define_mod_path s)
     }"

text \<open>
  The state of a fresh interpreter; \<open>config\<close> is what the memory of the state held for
  \<open>ai_config\<close>, which is not set but or-ed (0 for the static state of \<open>main.c\<close>);
  \<open>akl_gc_init\<close> switches the collector, just switched on, off again (see \<open>Memory\<close>). The list of
  the modules, the stack and the context inside the state have the addresses 3, 4 and 5.
\<close>

definition akl_init_state :: "64 word \<Rightarrow> akl_state" where
  "akl_init_state config =
     \<lparr>st_next = 6, st_ents = Map.empty, st_lists = [3 \<mapsto> empty_list, 4 \<mapsto> empty_list],
      st_vals = [NIL_ADDR \<mapsto> NIL_VALUE, TRUE_ADDR \<mapsto> TRUE_VALUE], st_syms = Map.empty, st_vars = Map.empty,
      st_funs = Map.empty, st_labels = Map.empty, st_instrs = Map.empty, st_errs = Map.empty,
      st_ctxs = [5 \<mapsto> init_context], st_devs = Map.empty, st_udatas = Map.empty, ai_device = 0,
      ai_symbols = RB_NULL, ai_global_vars = RB_NULL, ai_utypes = replicate 5 UT_null, ai_utypes_count = 0, ai_modules = 3, ai_context = 5,
      ai_stack = 4, ai_errors = 0, 
      ai_config = (config OR AKL_CFG_USE_COLORS OR AKL_CFG_USE_GC) AND NOT AKL_CFG_USE_GC,
      ai_interrupted = False, ai_recent_var = 0, st_out = []\<rparr>"

text \<open>
  Interpreters on the heap. With an allocation function of the caller (\<open>own_malloc\<close>) the pointer
  \<open>alloc\<close> is called without having been set. The features are or-ed to what \<open>malloc\<close> returned.
\<close>

definition akl_new_state :: "bool \<Rightarrow> 64 word \<Rightarrow> akl_state option" where
  "akl_new_state own_malloc config = (if own_malloc then None else Some (akl_init_state config))"

definition akl_new_file_interpreter ::
    "akl_io_device \<Rightarrow> bool \<Rightarrow> 64 word \<Rightarrow> string option \<Rightarrow> string \<Rightarrow> akl_state option" where
  "akl_new_file_interpreter junk own_malloc config file_name contents =
     do {
       s \<leftarrow> akl_new_state own_malloc config;
       let (dev, s) = akl_new_file_device junk s file_name contents;
       Some (s\<lparr>ai_device := dev\<rparr>)
     }"

definition akl_new_string_interpreter ::
    "akl_io_device \<Rightarrow> bool \<Rightarrow> 64 word \<Rightarrow> string option \<Rightarrow> string \<Rightarrow> akl_state option" where
  "akl_new_string_interpreter junk own_malloc config name str =
     do {
       s \<leftarrow> akl_new_state own_malloc config;
       let (dev, s) = akl_new_string_device junk s name str;
       Some (s\<lparr>ai_device := dev\<rparr>)
     }"

text \<open>\<open>init_aklisp\<close> of \<open>src/main.c\<close>.\<close>

definition init_aklisp :: "akl_state option" where
  "init_aklisp = akl_init_library (akl_init_state 0) AKL_LIB_ALL"

end
