(* ===== verification/Machine.thy ===== *)
theory Machine
  imports Library
begin

text \<open>
  The virtual machine, \<open>src/aklisp.c\<close>: one instruction (\<open>exec_instr\<close>), the call of a function
  (\<open>call_function_bound\<close>), the loop over the instructions, and the evaluation of a device.

  The machine is written once as functions with fuel (\<open>exec_branch\<close>, \<open>call_bound\<close>: a program
  may run for ever, which is \<open>None\<close> for every amount of fuel) and once as a step relation on
  configurations (\<open>ir_step\<close>).
\<close>

subsection \<open>Instructions\<close>

text \<open>
  The instruction at the entry \<open>ip\<close>: the next entry and the state. The next entry is 0 when
  the code ends or \<open>akl_ir_exec_branch\<close> returns. \<open>call\<close> is \<open>akl_call_function_bound\<close>.
\<close>

definition operand_value :: "operand \<Rightarrow> addr option" where
  "operand_value a = (case a of A_value v \<Rightarrow> Some v | _ \<Rightarrow> None)"

definition operand_symbol :: "operand \<Rightarrow> addr option" where
  "operand_symbol a = (case a of A_symbol v \<Rightarrow> Some v | _ \<Rightarrow> None)"

definition operand_label :: "operand \<Rightarrow> addr option" where
  "operand_label a = (case a of A_label v \<Rightarrow> Some v | _ \<Rightarrow> None)"

definition operand_ui_num :: "operand \<Rightarrow> u32 option" where
  "operand_ui_num a = (case a of A_num k \<Rightarrow> Some k | _ \<Rightarrow> None)"

definition set_lex_info :: "akl_state \<Rightarrow> addr \<Rightarrow> akl_lex_info option \<Rightarrow> akl_state option" where
  "set_lex_info s ctx info = upd_ctx s ctx (\<lambda>C. C\<lparr>cx_lex_info := info\<rparr>)"

definition exec_set :: "akl_state \<Rightarrow> addr \<Rightarrow> akl_ir_instruction \<Rightarrow> akl_state option" where
  "exec_set s ctx I =
     do {
       v \<leftarrow> akl_stack_top s ctx;
       (if v = 0 then Some s
        else do {
          V \<leftarrow> st_vals s v;
          s \<leftarrow> set_lex_info s ctx (va_lex_info V);
          symb \<leftarrow> operand_symbol (in_arg0 I);
          (var, s) \<leftarrow> akl_set_global_var s symb None True v;
          Some s
        })
     }"

definition exec_get :: "akl_state \<Rightarrow> addr \<Rightarrow> akl_ir_instruction \<Rightarrow> akl_state option" where
  "exec_get s ctx I =
     do {
       symb \<leftarrow> operand_symbol (in_arg0 I);
       let var = akl_get_global_var s symb;
       (if var = 0
        then do {
          name \<leftarrow> (if symb = 0 then None else sym_name s symb);
          s \<leftarrow> akl_raise_error s ctx ALERT_ERROR
                 (''Variable '' @ [CHR 0x27] @ cstr name @ [CHR 0x27] @ '' is undefined.'');
          let (v, s) = akl_new_nil_value s;
          akl_stack_push s ctx v
        }
        else do {
          X \<leftarrow> st_vars s var;
          s \<leftarrow> set_lex_info s ctx (vr_lex_info X);
          akl_stack_push s ctx (vr_value X)
        })
     }"

definition exec_push :: "akl_state \<Rightarrow> addr \<Rightarrow> addr \<Rightarrow> akl_ir_instruction \<Rightarrow> (addr \<times> akl_state) option" where
  "exec_push s ctx nxt I =
     do {
       v \<leftarrow> operand_value (in_arg0 I);
       (if v = 0
        then do { s \<leftarrow> akl_raise_error s ctx ALERT_WARNING ''Interpreter error: NULL pushed to stack.''; Some (0, s) }
        else do {
          V \<leftarrow> st_vals s v;
          s \<leftarrow> set_lex_info s ctx (va_lex_info V);
          s \<leftarrow> akl_stack_push s ctx v;
          Some (nxt, s)
        })
     }"

definition exec_load :: "akl_state \<Rightarrow> addr \<Rightarrow> akl_ir_instruction \<Rightarrow> akl_state option" where
  "exec_load s ctx I =
     do {
       k \<leftarrow> operand_ui_num (in_arg0 I);
       v \<leftarrow> akl_frame_at s ctx k;
       (if v = 0 then Some s
        else do {
          V \<leftarrow> st_vals s v;
          s \<leftarrow> set_lex_info s ctx (va_lex_info V);
          akl_stack_push s ctx v
        })
     }"

text \<open>\<open>akl_call_symbol\<close> without a context of its own: the function is looked up by its name.\<close>

definition akl_call_symbol :: "call_fn \<Rightarrow> akl_state \<Rightarrow> addr \<Rightarrow> addr \<Rightarrow> addr \<Rightarrow> int \<Rightarrow> (addr \<times> akl_state) option" where
  "akl_call_symbol call s ctx cx symb argc =
     (if ctx = 0 then Some (0, s)
      else do {
        (cx, s) \<leftarrow> (if cx = 0 then akl_bound_function s ctx symb 0 else Some (cx, s));
        (if cx = 0 then Some (0, s) else call s cx argc)
      })"

text \<open>When there is no symbol of the name, the message is made from the NULL symbol.\<close>

definition akl_call_function :: "call_fn \<Rightarrow> akl_state \<Rightarrow> addr \<Rightarrow> addr \<Rightarrow> string \<Rightarrow> int \<Rightarrow> (addr \<times> akl_state) option" where
  "akl_call_function call s ctx cx fname argc =
     (if ctx = 0 then None
      else let symb = akl_get_symbol s (Some fname) in
           if symb = 0 then None else akl_call_symbol call s ctx cx symb argc)"

definition exec_call :: "call_fn \<Rightarrow> akl_state \<Rightarrow> addr \<Rightarrow> akl_ir_instruction \<Rightarrow> akl_state option" where
  "exec_call call s ctx I =
     do {
       s \<leftarrow> set_lex_info s ctx (in_linfo I);
       symb \<leftarrow> operand_symbol (in_arg0 I);
       argc \<leftarrow> operand_ui_num (in_arg1 I);
       (if in_fun I \<noteq> 0
        then do {
          (cx, s) \<leftarrow> akl_bound_function s ctx symb (in_fun I);
          (if cx = 0 then Some s else do { (v, s) \<leftarrow> call s cx (sint argc); Some s })
        }
        else do { (v, s) \<leftarrow> akl_call_symbol call s ctx 0 symb (sint argc); Some s })
     }"

definition exec_head :: "akl_state \<Rightarrow> addr \<Rightarrow> akl_ir_instruction \<Rightarrow> akl_state option" where
  "exec_head s ctx I =
     do {
       k \<leftarrow> operand_ui_num (in_arg0 I);
       v \<leftarrow> akl_frame_at s ctx k;
       (if v = 0 then Some s
        else do { l \<leftarrow> AKL_GET_LIST_VALUE s v; w \<leftarrow> akl_car s l; akl_stack_push s ctx w })
     }"

definition exec_tail :: "akl_state \<Rightarrow> addr \<Rightarrow> akl_ir_instruction \<Rightarrow> akl_state option" where
  "exec_tail s ctx I =
     do {
       k \<leftarrow> operand_ui_num (in_arg0 I);
       v \<leftarrow> akl_frame_at s ctx k;
       (if v = 0 then Some s
        else do {
          l \<leftarrow> AKL_GET_LIST_VALUE s v;
          (l', s) \<leftarrow> akl_cdr s l;
          (lv, s) \<leftarrow> akl_new_list_value s l';
          akl_stack_push s ctx lv
        })
     }"

text \<open>The target of a label.\<close>

definition label_branch :: "akl_state \<Rightarrow> operand \<Rightarrow> addr option" where
  "label_branch s a = do { l \<leftarrow> operand_label a; L \<leftarrow> st_labels s l; Some (la_branch L) }"

text \<open>
  A conditional jump: the entry for a nil on top of the stack, and the one for anything else.
  The label is only read when the jump is taken.
\<close>

definition exec_cond ::
    "akl_state \<Rightarrow> addr \<Rightarrow> (akl_state \<Rightarrow> addr option) \<Rightarrow> (akl_state \<Rightarrow> addr option) \<Rightarrow> (addr \<times> akl_state) option" where
  "exec_cond s ctx on_nil on_true =
     do {
       (v, s) \<leftarrow> akl_stack_pop s ctx;
       nil \<leftarrow> AKL_IS_NIL s v;
       ip \<leftarrow> (if nil then on_nil s else on_true s);
       Some (ip, s)
     }"

definition exec_instr ::
    "call_fn \<Rightarrow> akl_state \<Rightarrow> addr \<Rightarrow> addr \<Rightarrow> akl_ir_instruction \<Rightarrow> (addr \<times> akl_state) option" where
  "exec_instr call s ctx nxt I =
     (let move = (\<lambda>r. map_option (\<lambda>s. (nxt, s)) r) in
      case in_op I of
        IR_NOP \<Rightarrow> Some (nxt, s)
      | IR_SET \<Rightarrow> move (exec_set s ctx I)
      | IR_GET \<Rightarrow> move (exec_get s ctx I)
      | IR_PUSH \<Rightarrow> exec_push s ctx nxt I
      | IR_LOAD \<Rightarrow> move (exec_load s ctx I)
      | IR_CALL \<Rightarrow> move (exec_call call s ctx I)
      | IR_HEAD \<Rightarrow> move (exec_head s ctx I)
      | IR_TAIL \<Rightarrow> move (exec_tail s ctx I)
      | IR_JMP \<Rightarrow> do { ip \<leftarrow> label_branch s (in_arg0 I); Some (ip, s) }
      | IR_JT \<Rightarrow> exec_cond s ctx (\<lambda>s. Some nxt) (\<lambda>s. label_branch s (in_arg0 I))
      | IR_JN \<Rightarrow> exec_cond s ctx (\<lambda>s. label_branch s (in_arg0 I)) (\<lambda>s. Some nxt)
      | IR_BRANCH \<Rightarrow> exec_cond s ctx (\<lambda>s. label_branch s (in_arg0 I)) (\<lambda>s. label_branch s (in_arg0 I))
      | IR_RET \<Rightarrow> Some (nxt, s))"

text \<open>
  The iteration of \<open>akl_ir_exec_branch\<close>: the interruption, the watchdog for an entry that is
  its own successor, the instruction.
\<close>

definition exec_step :: "call_fn \<Rightarrow> akl_state \<Rightarrow> addr \<Rightarrow> addr \<Rightarrow> (addr \<times> akl_state) option" where
  "exec_step call s ctx ip =
     (if ai_interrupted s
      then do { s \<leftarrow> akl_raise_error s ctx ALERT_WARNING ''Program interruption.''; Some (0, s) }
      else do {
        E \<leftarrow> st_ents s ip;
        (if le_next E = ip then Some (0, s)
         else do {
           I \<leftarrow> st_instrs s (le_data E);
           (nxt, s) \<leftarrow> exec_instr call s ctx (le_next E) I;
           Some (nxt, s)
         })
      })"

subsection \<open>Calls\<close>

text \<open>
  \<open>akl_call_function_bound\<close>; \<open>run\<close> executes the code of a function from an entry on,
  \<open>cfun\<close> calls a function written in C. Result: the value, 0 for NULL.
\<close>

definition call_function_bound ::
    "(akl_state \<Rightarrow> addr \<Rightarrow> addr \<Rightarrow> akl_state option) \<Rightarrow> (akl_cfun \<Rightarrow> call_fn) \<Rightarrow> call_fn" where
  "call_function_bound run cfun s cx argc =
     do {
       C \<leftarrow> st_ctxs s cx;
       s \<leftarrow> akl_init_frame s cx argc;
       F \<leftarrow> st_funs s (cx_func C);
       (case fn_type F of
          FUNC_CFUN \<Rightarrow>
            (case fn_body F of
               B_cfun f \<Rightarrow> do {
                 (val, s) \<leftarrow> cfun f s cx argc;
                 (if val = 0
                  then do {
                    s \<leftarrow> akl_raise_error s cx ALERT_ERROR
                           (''Function '' @ [CHR 0x27] @ cstr (cx_func_name C) @ [CHR 0x27] @ '' gave back NULL'');
                    s \<leftarrow> akl_frame_destroy s cx;
                    Some (0, s)
                  }
                  else do {
                    s \<leftarrow> akl_stack_push s cx val;
                    s \<leftarrow> akl_frame_destroy s cx;
                    Some (val, s)
                  })
               }
             | _ \<Rightarrow> None)
        | FUNC_USER \<Rightarrow>
            (case fn_body F of
               B_ufun uf \<Rightarrow> do {
                 s \<leftarrow> upd_ctx s cx (\<lambda>C. C\<lparr>cx_lex_info := uf_info uf, cx_ir := uf_body uf\<rparr>);
                 ip \<leftarrow> akl_list_it_begin s (uf_body uf);
                 s \<leftarrow> run s cx ip;
                 C \<leftarrow> st_ctxs s cx;
                 val \<leftarrow> akl_list_last s (cx_stack C);
                 s \<leftarrow> akl_frame_destroy s cx;
                 Some (val, s)
               }
             | _ \<Rightarrow> None)
        | _ \<Rightarrow> do { s \<leftarrow> akl_frame_destroy s cx; Some (0, s) })
     }"

fun exec_branch :: "ext_fn \<Rightarrow> nat \<Rightarrow> akl_state \<Rightarrow> addr \<Rightarrow> addr \<Rightarrow> akl_state option"
and call_bound :: "ext_fn \<Rightarrow> nat \<Rightarrow> akl_state \<Rightarrow> addr \<Rightarrow> int \<Rightarrow> (addr \<times> akl_state) option" where
  "exec_branch ext 0 s ctx ip = None"
| "exec_branch ext (Suc n) s ctx ip =
     (if ip = 0 then Some s
      else do { (nxt, s) \<leftarrow> exec_step (call_bound ext n) s ctx ip; exec_branch ext n s ctx nxt })"
| "call_bound ext 0 s cx argc = None"
| "call_bound ext (Suc n) s cx argc =
     call_function_bound (exec_branch ext n) (call_cfun ext n (call_bound ext n)) s cx argc"

definition akl_execute_ir :: "ext_fn \<Rightarrow> nat \<Rightarrow> akl_state \<Rightarrow> addr \<Rightarrow> akl_state option" where
  "akl_execute_ir ext n s ctx =
     do { C \<leftarrow> st_ctxs s ctx; ip \<leftarrow> akl_list_it_begin s (cx_ir C);
          (if cx_ir C = 0 then Some s else exec_branch ext n s ctx ip) }"

definition akl_execute :: "ext_fn \<Rightarrow> nat \<Rightarrow> akl_state \<Rightarrow> addr \<Rightarrow> akl_state option" where
  "akl_execute ext n s ctx =
     do {
       C \<leftarrow> st_ctxs s ctx;
       (if \<not> cx_state C \<or> cx_fn_main C = 0 then None
        else do {
          let s = s\<lparr>ai_interrupted := False\<rparr>;
          let (l, s) = akl_new_list s;
          s \<leftarrow> upd_ctx s ctx (\<lambda>C. C\<lparr>cx_stack := l\<rparr>);
          uf \<leftarrow> get_ufun s (cx_fn_main C);
          ip \<leftarrow> akl_list_it_begin s (uf_body uf);
          (if cx_ir C = 0 then Some s else exec_branch ext n s ctx ip)
        })
     }"

text \<open>
  \<open>akl_exec_eval\<close>: the result is popped from the stack of the interpreter's own context, not
  from that of the program.
\<close>

definition akl_exec_eval :: "ext_fn \<Rightarrow> nat \<Rightarrow> akl_state \<Rightarrow> (addr \<times> string \<times> akl_state) option" where
  "akl_exec_eval ext n s =
     do {
       (ctx, s) \<leftarrow> akl_compile s (ai_device s);
       s \<leftarrow> akl_execute ext n s ctx;
       err \<leftarrow> akl_print_errors s;
       (v, s) \<leftarrow> akl_stack_pop s (ai_context s);
       Some (v, err, s)
     }"

text \<open>\<open>eval_dev\<close> of \<open>src/main.c\<close>; the second component is what goes to the standard error output.\<close>

definition eval_dev :: "ext_fn \<Rightarrow> nat \<Rightarrow> bool \<Rightarrow> akl_state \<Rightarrow> addr \<Rightarrow> (string \<times> akl_state) option" where
  "eval_dev ext n peval_flag s dev =
     do {
       (ctx, s) \<leftarrow> akl_compile s dev;
       C \<leftarrow> st_ctxs s ctx;
       s \<leftarrow> (if AKL_IS_FEATURE_ON s AKL_DEBUG_INSTR then akl_dump_ir s (cx_fn_main C) else Some s);
       s \<leftarrow> akl_execute ext n s ctx;
       let s = (if AKL_IS_FEATURE_ON s AKL_CFG_INTERACTIVE then out_text s '' => '' else s);
       s \<leftarrow> (if AKL_IS_FEATURE_ON s AKL_CFG_INTERACTIVE \<or> peval_flag
             then do {
               (v, s) \<leftarrow> akl_stack_pop s ctx;
               s \<leftarrow> akl_print_value s v;
               Some (if peval_flag then out_text s NEWLINE else s)
             }
             else Some s);
       s \<leftarrow> (if AKL_IS_FEATURE_ON s AKL_DEBUG_STACK then akl_dump_stack s ctx else Some s);
       err \<leftarrow> akl_print_errors s;
       s \<leftarrow> akl_clear_errors s;
       s \<leftarrow> akl_clear_ir s ctx;
       Some (err, s)
     }"

text \<open>The variable \<open>$?\<close>; nothing calls this function.\<close>

definition update_recent_value :: "akl_state \<Rightarrow> addr \<Rightarrow> akl_state option" where
  "update_recent_value s val =
     do {
       s \<leftarrow> (if ai_recent_var s \<noteq> 0 then Some s
             else do {
               (var, s) \<leftarrow> akl_set_global_variable s (Some ''$?'') True (Some ''Previously returned value'') True val;
               X \<leftarrow> st_vars s var;
               Some (s\<lparr>st_vars := (st_vars s)(var \<mapsto> X\<lparr>vr_gc := (vr_gc X)\<lparr>gc_static := True\<rparr>\<rparr>),
                       ai_recent_var := var\<rparr>)
             });
       X \<leftarrow> st_vars s (ai_recent_var s);
       Some (s\<lparr>st_vars := (st_vars s)(ai_recent_var s \<mapsto> X\<lparr>vr_value := val\<rparr>)\<rparr>)
     }"

subsection \<open>The machine as a step relation\<close>

text \<open>
  A configuration is the next entry (0: the code has ended) and the state. Calls are steps of
  the caller's machine as a whole: \<open>call\<close> gives what they do.
\<close>

type_synonym ir_config = "addr \<times> akl_state"

inductive ir_step :: "call_fn \<Rightarrow> addr \<Rightarrow> ir_config \<Rightarrow> ir_config \<Rightarrow> bool" for call ctx where
  step_interrupted:
    "ip \<noteq> 0 \<Longrightarrow> ai_interrupted s \<Longrightarrow> akl_raise_error s ctx ALERT_WARNING ''Program interruption.'' = Some s' \<Longrightarrow>
     ir_step call ctx (ip, s) (0, s')"
| step_watchdog:
    "ip \<noteq> 0 \<Longrightarrow> \<not> ai_interrupted s \<Longrightarrow> st_ents s ip = Some E \<Longrightarrow> le_next E = ip \<Longrightarrow>
     ir_step call ctx (ip, s) (0, s)"
| step_instr:
    "ip \<noteq> 0 \<Longrightarrow> \<not> ai_interrupted s \<Longrightarrow> st_ents s ip = Some E \<Longrightarrow> le_next E \<noteq> ip \<Longrightarrow>
     st_instrs s (le_data E) = Some I \<Longrightarrow> exec_instr call s ctx (le_next E) I = Some (nxt, s') \<Longrightarrow>
     ir_step call ctx (ip, s) (nxt, s')"

inductive ir_steps :: "call_fn \<Rightarrow> addr \<Rightarrow> ir_config \<Rightarrow> ir_config \<Rightarrow> bool" for call ctx where
  steps_refl: "ir_steps call ctx c c"
| steps_step: "ir_step call ctx c c' \<Longrightarrow> ir_steps call ctx c' c'' \<Longrightarrow> ir_steps call ctx c c''"

inductive_cases ir_stepE: "ir_step call ctx (ip, s) c"

lemma ir_step_iff: "ir_step call ctx (ip, s) c \<longleftrightarrow> ip \<noteq> 0 \<and> exec_step call s ctx ip = Some c"
  by (cases c) (auto simp: exec_step_def Option.bind_eq_Some_conv ir_step.simps split: if_splits)

end
