(* ===== verification/Steps.thy ===== *)
theory Steps
  imports Machine
begin

text \<open>
  The two views of the machine agree: the function with fuel (\<open>exec_branch\<close>, \<open>call_bound\<close>) and
  the step relation (\<open>ir_step\<close>). More fuel never changes a result, so a program has at most one.
\<close>

subsection \<open>Results and more fuel\<close>

definition le_opt :: "'a option \<Rightarrow> 'a option \<Rightarrow> bool" where
  "le_opt x y \<longleftrightarrow> (\<forall>r. x = Some r \<longrightarrow> y = Some r)"

definition le_call :: "call_fn \<Rightarrow> call_fn \<Rightarrow> bool" where
  "le_call c c' \<longleftrightarrow> (\<forall>s cx argc. le_opt (c s cx argc) (c' s cx argc))"

named_theorems le_rules \<open>monotonicity of the option monad\<close>

lemma le_optD: "le_opt x y \<Longrightarrow> x = Some r \<Longrightarrow> y = Some r"
  by (simp add: le_opt_def)

lemma le_refl [le_rules]: "le_opt x x"
  by (simp add: le_opt_def)

lemma le_None [le_rules]: "le_opt None x"
  by (simp add: le_opt_def)

lemma le_bind [le_rules]: "le_opt x y \<Longrightarrow> (\<And>a. le_opt (f a) (g a)) \<Longrightarrow> le_opt (x \<bind> f) (y \<bind> g)"
  by (auto simp: le_opt_def Option.bind_eq_Some_conv)

lemma le_prod [le_rules]: "(\<And>a b. le_opt (f a b) (g a b)) \<Longrightarrow> le_opt (case p of (a, b) \<Rightarrow> f a b) (case p of (a, b) \<Rightarrow> g a b)"
  by (cases p) simp

lemma le_if [le_rules]: "(b \<Longrightarrow> le_opt x y) \<Longrightarrow> (\<not> b \<Longrightarrow> le_opt x' y') \<Longrightarrow> le_opt (if b then x else x') (if b then y else y')"
  by simp

lemma le_case_option [le_rules]:
  "le_opt x y \<Longrightarrow> (\<And>a. le_opt (f a) (g a)) \<Longrightarrow> le_opt (case_option x f z) (case_option y g z)"
  by (cases z) simp_all

lemma le_case_list [le_rules]:
  "le_opt x y \<Longrightarrow> (\<And>a as. le_opt (f a as) (g a as)) \<Longrightarrow> le_opt (case_list x f z) (case_list y g z)"
  by (cases z) simp_all

lemma le_Let [le_rules]: "(\<And>a. le_opt (f a) (g a)) \<Longrightarrow> le_opt (Let x f) (Let x g)"
  by simp

lemma le_map [le_rules]: "le_opt x y \<Longrightarrow> le_opt (map_option f x) (map_option f y)"
  by (auto simp: le_opt_def)

lemma le_case_arg [le_rules]:
  assumes "le_opt a0 b0" "\<And>x. le_opt (a1 x) (b1 x)" "\<And>x. le_opt (a2 x) (b2 x)" "\<And>x. le_opt (a3 x) (b3 x)"
    "\<And>x. le_opt (a4 x) (b4 x)" "\<And>x. le_opt (a5 x) (b5 x)" "\<And>x. le_opt (a6 x) (b6 x)" "\<And>x. le_opt (a7 x) (b7 x)"
    "\<And>x. le_opt (a8 x) (b8 x)"
  shows "le_opt (case_arg_value a0 a1 a2 a3 a4 a5 a6 a7 a8 z) (case_arg_value b0 b1 b2 b3 b4 b5 b6 b7 b8 z)"
  using assms by (cases z) simp_all

lemma le_case_body [le_rules]:
  assumes "le_opt a0 b0" "\<And>x. le_opt (a1 x) (b1 x)" "\<And>x. le_opt (a2 x) (b2 x)" "\<And>x. le_opt (a3 x) (b3 x)"
  shows "le_opt (case_fn_body a0 a1 a2 a3 z) (case_fn_body b0 b1 b2 b3 z)"
  using assms by (cases z) simp_all

lemma le_case_ftype [le_rules]:
  assumes "le_opt a0 b0" "le_opt a1 b1" "le_opt a2 b2" "le_opt a3 b3" "le_opt a4 b4"
  shows "le_opt (case_akl_function_type a0 a1 a2 a3 a4 z) (case_akl_function_type b0 b1 b2 b3 b4 z)"
  using assms by (cases z) simp_all

lemma le_callD: "le_call c c' \<Longrightarrow> le_opt (c s cx argc) (c' s cx argc)"
  by (simp add: le_call_def)

subsection \<open>The functions that call back\<close>

lemma map_loop_mono:
  "n \<le> m \<Longrightarrow> le_call c c' \<Longrightarrow> le_opt (map_loop n c s ctx cx nl ind it) (map_loop m c' s ctx cx nl ind it)"
proof (induction n arbitrary: m s ind it)
  case 0
  then show ?case by (simp add: le_rules)
next
  case (Suc n)
  then obtain k where k: "m = Suc k" "n \<le> k" by (cases m) auto
  show ?case unfolding k(1) map_loop.simps by (intro le_rules le_callD [OF Suc.prems(2)] Suc.IH [OF k(2) Suc.prems(2)])
qed

lemma foldl_loop_mono:
  "n \<le> m \<Longrightarrow> le_call c c' \<Longrightarrow> le_opt (foldl_loop n c s cx v it) (foldl_loop m c' s cx v it)"
proof (induction n arbitrary: m s v it)
  case 0
  then show ?case by (simp add: le_rules)
next
  case (Suc n)
  then obtain k where k: "m = Suc k" "n \<le> k" by (cases m) auto
  show ?case unfolding k(1) foldl_loop.simps by (intro le_rules le_callD [OF Suc.prems(2)] Suc.IH [OF k(2) Suc.prems(2)])
qed

lemma times_loop_mono:
  "le_call c c' \<Longrightarrow> le_opt (times_loop c ix s ctx cx nl i k) (times_loop c' ix s ctx cx nl i k)"
proof (induction k arbitrary: s i)
  case 0
  then show ?case by (simp add: le_rules)
next
  case (Suc k)
  show ?case unfolding times_loop.simps by (intro le_rules le_callD [OF Suc.prems] Suc.IH [OF Suc.prems])
qed

lemma call_cfun_mono:
  assumes "n \<le> m" "le_call c c'"
  shows "le_opt (call_cfun ext n c f s cx argc) (call_cfun ext m c' f s cx argc)"
proof -
  have "le_opt (map_impl n c ind s cx) (map_impl m c' ind s cx)" for ind
    unfolding map_impl_def by (intro le_rules map_loop_mono [OF assms])
  moreover have "le_opt (akl_fn_foldl n c s cx) (akl_fn_foldl m c' s cx)"
    unfolding akl_fn_foldl_def by (intro le_rules foldl_loop_mono [OF assms])
  moreover have "le_opt (times_impl c ix s cx) (times_impl c' ix s cx)" for ix
    unfolding times_impl_def by (intro le_rules times_loop_mono [OF assms(2)])
  ultimately show ?thesis
    by (cases f) (simp_all add: call_cfun_def akl_fn_map_def akl_fn_map_index_def akl_fn_times_def
        akl_fn_times_index_def le_refl)
qed

subsection \<open>The machine\<close>

lemma exec_instr_mono:
  assumes "le_call c c'"
  shows "le_opt (exec_instr c s ctx nxt I) (exec_instr c' s ctx nxt I)"
proof -
  have "le_opt (exec_call c s ctx I) (exec_call c' s ctx I)"
    unfolding exec_call_def akl_call_symbol_def by (intro le_rules le_callD [OF assms])
  then show ?thesis
    unfolding exec_instr_def Let_def by (cases "in_op I") (simp_all add: le_rules)
qed

lemma exec_step_mono:
  assumes "le_call c c'"
  shows "le_opt (exec_step c s ctx ip) (exec_step c' s ctx ip)"
  unfolding exec_step_def by (intro le_rules exec_instr_mono [OF assms])

lemma call_function_bound_mono:
  assumes "\<And>s cx ip. le_opt (run s cx ip) (run' s cx ip)" "\<And>f s cx argc. le_opt (cf f s cx argc) (cf' f s cx argc)"
  shows "le_opt (call_function_bound run cf s cx argc) (call_function_bound run' cf' s cx argc)"
  unfolding call_function_bound_def by (intro le_rules assms)

lemma fuel_mono:
  "n \<le> m \<Longrightarrow> le_opt (exec_branch ext n s ctx ip) (exec_branch ext m s ctx ip)"
  "n \<le> m \<Longrightarrow> le_call (call_bound ext n) (call_bound ext m)"
proof (induction n arbitrary: m s ctx ip)
  case 0
  {
    case 1
    show ?case by (simp add: le_rules)
  next
    case 2
    show ?case by (simp add: le_call_def le_rules)
  }
next
  case (Suc n)
  {
    case 1
    then obtain k where "m = Suc k" "n \<le> k" by (cases m) auto
    then show ?case
      by (simp only: exec_branch.simps) (intro le_rules exec_step_mono Suc.IH(1) Suc.IH(2))
  next
    case 2
    then obtain k where "m = Suc k" "n \<le> k" by (cases m) auto
    then show ?case
      unfolding le_call_def
      by (simp only: call_bound.simps) (intro allI call_function_bound_mono call_cfun_mono Suc.IH)
  }
qed

subsection \<open>Steps\<close>

lemma ir_steps_mono: "ir_steps c ctx x y \<Longrightarrow> le_call c c' \<Longrightarrow> ir_steps c' ctx x y"
proof (induction rule: ir_steps.induct)
  case (steps_refl x)
  show ?case by (rule ir_steps.steps_refl)
next
  case (steps_step x y z)
  obtain ip s where x: "x = (ip, s)" by force
  have "ir_step c' ctx x y"
    using steps_step.hyps(1) le_optD [OF exec_step_mono [OF steps_step.prems]] unfolding x ir_step_iff by blast
  then show ?case using steps_step.IH [OF steps_step.prems] by (rule ir_steps.steps_step)
qed

lemma exec_branch_steps: "exec_branch ext n s ctx ip = Some s' \<Longrightarrow> ir_steps (call_bound ext n) ctx (ip, s) (0, s')"
proof (induction n arbitrary: s ip)
  case 0
  then show ?case by simp
next
  case (Suc n)
  have le: "le_call (call_bound ext n) (call_bound ext (Suc n))" by (rule fuel_mono(2)) simp
  show ?case
  proof (cases "ip = 0")
    case True
    then show ?thesis using Suc.prems by (simp add: steps_refl)
  next
    case False
    then obtain nxt s1 where s1: "exec_step (call_bound ext n) s ctx ip = Some (nxt, s1)" "exec_branch ext n s1 ctx nxt = Some s'"
      using Suc.prems by (auto simp: Option.bind_eq_Some_conv)
    have "ir_step (call_bound ext (Suc n)) ctx (ip, s) (nxt, s1)"
      using False le_optD [OF exec_step_mono [OF le] s1(1)] by (simp add: ir_step_iff)
    then show ?thesis using ir_steps_mono [OF Suc.IH [OF s1(2)] le] by (rule steps_step)
  qed
qed

lemma steps_exec_branch:
  "ir_steps c ctx x y \<Longrightarrow> c = call_bound ext n \<Longrightarrow> x = (ip, s) \<Longrightarrow> y = (0, s') \<Longrightarrow> \<exists>m\<ge>n. exec_branch ext m s ctx ip = Some s'"
proof (induction arbitrary: ip s rule: ir_steps.induct)
  case (steps_refl x)
  then show ?case by (intro exI [of _ "Suc n"]) simp
next
  case (steps_step x y z)
  obtain nxt s1 where y: "y = (nxt, s1)" by force
  have st: "ip \<noteq> 0" "exec_step (call_bound ext n) s ctx ip = Some (nxt, s1)"
    using steps_step.hyps(1) steps_step.prems y by (simp_all add: ir_step_iff)
  obtain m where m: "n \<le> m" "exec_branch ext m s1 ctx nxt = Some s'"
    using steps_step.IH [OF steps_step.prems(1) y steps_step.prems(3)] by blast
  have "exec_step (call_bound ext m) s ctx ip = Some (nxt, s1)"
    by (rule le_optD [OF exec_step_mono [OF fuel_mono(2) [OF m(1)]] st(2)])
  then show ?case using st(1) m by (intro exI [of _ "Suc m"]) simp
qed

subsection \<open>The function and the relation\<close>

text \<open>
  The interpreter loop and the step relation of the machine are equivalent: execution from
  an entry ends in a state for some amount of fuel exactly when the step relation reaches the
  end of the code in that state, the calls being made with some amount of fuel.
\<close>

lemma machine_equivalence:
  "(\<exists>n. exec_branch ext n s ctx ip = Some s') \<longleftrightarrow> (\<exists>n. ir_steps (call_bound ext n) ctx (ip, s) (0, s'))"
  using exec_branch_steps steps_exec_branch by blast

end
