(* ===== verification/Frames.thy ===== *)
theory Frames
  imports Stack
begin

text \<open>
  What the stack and the frames of \<open>Stack\<close> promise: the operand stack is a stack
  (an instance of \<open>lifo\<close>), and a frame of \<open>n\<close> arguments is the last \<open>n\<close> entries of the
  stack, which shifting and popping give in order and remove from the stack.
\<close>

text \<open>The entries of a list are determined by the heap.\<close>

lemma dll_unique: "dll h p es 0 \<Longrightarrow> dll h p fs 0 \<Longrightarrow> first0 es = first0 fs \<Longrightarrow> es = fs"
proof (induction es arbitrary: p fs)
  case Nil
  then show ?case by (cases fs) auto
next
  case (Cons e es)
  then obtain gs where fs: "fs = e # gs" by (cases fs) auto
  have d: "dll h e es 0" "dll h e gs 0" using Cons.prems(1,2) fs by auto
  have "first0 es = first0 gs"
    using dll_hd [OF Cons.prems(1)] dll_hd [OF Cons.prems(2) [unfolded fs]] by (auto simp: first0_def)
  then show ?case using Cons.IH [OF d] fs by simp
qed

lemma is_list_unique:
  assumes "is_list s l es" "is_list s l fs"
  shows "es = fs"
proof (rule dll_unique)
  show "dll (st_ents s) 0 es 0" "dll (st_ents s) 0 fs 0" using assms unfolding is_list_def chain_def by blast+
  show "first0 es = first0 fs" using assms unfolding is_list_def by force
qed

subsection \<open>What the operations of a frame keep\<close>

text \<open>
  Taking values out of a frame changes links of the entries of the stack, the stack and the
  frame. The data of the entries stays, also of those that were taken out.
\<close>

definition stack_op :: "addr \<Rightarrow> akl_state \<Rightarrow> akl_state \<Rightarrow> bool" where
  "stack_op ctx s s' \<longleftrightarrow> (\<exists>h ls. s' = s\<lparr>st_ents := h, st_lists := ls\<rparr>) \<and>
     (\<forall>x. st_ents s x \<noteq> None \<longrightarrow> st_ents s' x \<noteq> None \<and> edata s' x = edata s x) \<and>
     (\<exists>C. st_ctxs s ctx = Some C \<and>
        (\<forall>l. l \<noteq> cx_stack C \<longrightarrow> l \<noteq> cx_frame C \<longrightarrow> st_lists s' l = st_lists s l) \<and>
        (\<forall>es. is_list s (cx_stack C) es \<longrightarrow>
           (\<exists>es'. is_list s' (cx_stack C) es' \<and> set es' \<subseteq> set es) \<and>
           (\<forall>x. x \<notin> set es \<longrightarrow> st_ents s' x = st_ents s x)))"

lemma stack_opI:
  assumes "s' = s\<lparr>st_ents := h, st_lists := ls\<rparr>" "st_ctxs s ctx = Some C"
    and data: "\<And>x. st_ents s x \<noteq> None \<Longrightarrow> st_ents s' x \<noteq> None \<and> edata s' x = edata s x"
    and lists: "\<And>l. l \<noteq> cx_stack C \<Longrightarrow> l \<noteq> cx_frame C \<Longrightarrow> st_lists s' l = st_lists s l"
    and es: "is_list s (cx_stack C) es" "is_list s' (cx_stack C) es'" "set es' \<subseteq> set es"
    and ents: "\<And>x. x \<notin> set es \<Longrightarrow> st_ents s' x = st_ents s x"
  shows "stack_op ctx s s'"
proof -
  have "fs = es" if "is_list s (cx_stack C) fs" for fs using is_list_unique [OF that es(1)] .
  then have "\<forall>fs. is_list s (cx_stack C) fs \<longrightarrow>
      (\<exists>es'. is_list s' (cx_stack C) es' \<and> set es' \<subseteq> set fs) \<and>
      (\<forall>x. x \<notin> set fs \<longrightarrow> st_ents s' x = st_ents s x)"
    using es(2,3) ents by blast
  then show ?thesis unfolding stack_op_def using assms(1,2) data lists by blast
qed

lemma stack_op_refl: "st_ctxs s ctx = Some C \<Longrightarrow> stack_op ctx s s"
  unfolding stack_op_def by (intro conjI exI [of _ "st_ents s"] exI [of _ "st_lists s"]) auto

lemma stack_op_fields [frame_simps]:
  assumes "stack_op ctx s s'"
  shows "st_vals s' = st_vals s" "st_ctxs s' = st_ctxs s" "st_next s' = st_next s" "st_funs s' = st_funs s"
    "st_syms s' = st_syms s" "st_vars s' = st_vars s" "ai_global_vars s' = ai_global_vars s"
    "st_errs s' = st_errs s" "ai_errors s' = ai_errors s" "ai_config s' = ai_config s" "st_out s' = st_out s"
  using assms by (auto simp: stack_op_def)

lemma stack_opD:
  assumes "stack_op ctx s t" "st_ctxs s ctx = Some C"
  shows "l \<noteq> cx_stack C \<Longrightarrow> l \<noteq> cx_frame C \<Longrightarrow> st_lists t l = st_lists s l"
    and "is_list s (cx_stack C) es \<Longrightarrow> \<exists>es'. is_list t (cx_stack C) es' \<and> set es' \<subseteq> set es"
    and "is_list s (cx_stack C) es \<Longrightarrow> x \<notin> set es \<Longrightarrow> st_ents t x = st_ents s x"
    and "st_ents s x \<noteq> None \<Longrightarrow> st_ents t x \<noteq> None \<and> edata t x = edata s x"
  using assms unfolding stack_op_def by auto

lemma stack_op_trans:
  assumes st: "stack_op ctx s t" and tu: "stack_op ctx t u"
  shows "stack_op ctx s u"
proof -
  obtain C where C: "st_ctxs s ctx = Some C" using st unfolding stack_op_def by blast
  then have Ct: "st_ctxs t ctx = Some C" using stack_op_fields(2) [OF st] by simp
  obtain h ls h' ls' where "t = s\<lparr>st_ents := h, st_lists := ls\<rparr>" "u = t\<lparr>st_ents := h', st_lists := ls'\<rparr>"
    using st tu unfolding stack_op_def by blast
  then have 1: "\<exists>h ls. u = s\<lparr>st_ents := h, st_lists := ls\<rparr>" by (intro exI [of _ h'] exI [of _ ls']) simp
  have 2: "\<forall>x. st_ents s x \<noteq> None \<longrightarrow> st_ents u x \<noteq> None \<and> edata u x = edata s x"
    using stack_opD(4) [OF st C] stack_opD(4) [OF tu Ct] by simp
  have 3: "\<forall>l. l \<noteq> cx_stack C \<longrightarrow> l \<noteq> cx_frame C \<longrightarrow> st_lists u l = st_lists s l"
    using stack_opD(1) [OF st C] stack_opD(1) [OF tu Ct] by simp
  have 4: "(\<exists>es'. is_list u (cx_stack C) es' \<and> set es' \<subseteq> set es) \<and> (\<forall>x. x \<notin> set es \<longrightarrow> st_ents u x = st_ents s x)"
    if es: "is_list s (cx_stack C) es" for es
  proof -
    obtain et where et: "is_list t (cx_stack C) et" "set et \<subseteq> set es" using stack_opD(2) [OF st C es] by blast
    obtain eu where "is_list u (cx_stack C) eu" "set eu \<subseteq> set et" using stack_opD(2) [OF tu Ct et(1)] by blast
    moreover have "st_ents u x = st_ents s x" if "x \<notin> set es" for x
      using stack_opD(3) [OF st C es that] stack_opD(3) [OF tu Ct et(1), of x] et(2) that by (metis subsetD)
    ultimately show ?thesis using et(2) by blast
  qed
  show ?thesis unfolding stack_op_def using 1 2 3 4 C by blast
qed

lemma stack_op_data:
  assumes "stack_op ctx s s'" "is_list s l es"
  shows "map (edata s') es = map (edata s) es"
proof -
  obtain C where C: "st_ctxs s ctx = Some C" using assms(1) unfolding stack_op_def by blast
  have "edata s' x = edata s x" if "x \<in> set es" for x
    using stack_opD(4) [OF assms(1) C] is_list_ents [OF assms(2) that] by blast
  then show ?thesis by (simp only: map_eq_conv) blast
qed

lemma relink_relink:
  assumes "q = 0 \<or> q = p" "p = 0 \<or> p \<noteq> n"
  shows "relink (relink h q n) p n = relink h p n"
  using assms
  by (cases "n = 0"; cases "p = 0"; cases "q = 0")
    (auto simp: relink_def Let_def fun_eq_iff option.map_comp comp_def)

text \<open>Taking an entry out of the stack when the frame has relinked its successor.\<close>

lemma take_entry:
  assumes ok: "heap_ok s" and lst: "is_list s stk (b @ e # r)"
    and C: "st_ctxs s ctx = Some C" "cx_stack C = stk" "cx_frame C = fr"
    and E: "st_ents s e = Some E" and F: "st_lists s fr = Some L0" "fr \<noteq> stk"
    and q: "q = 0 \<or> q = le_prev E"
    and s1: "s1 = s\<lparr>st_ents := relink (st_ents s) q (le_next E), st_lists := (st_lists s)(fr \<mapsto> L1)\<rparr>"
  shows "\<exists>s'. akl_list_remove_entry s1 stk e = Some (e, s') \<and> is_list s' stk (b @ r) \<and>
    st_lists s' fr = Some L1 \<and> stack_op ctx s s' \<and> heap_ok s' \<and> entry_data s' e = Some (edata s e)"
proof -
  let ?es = "b @ e # r"
  obtain s2 where s2: "akl_list_remove_entry s stk e = Some (e, s2)" "is_list s2 stk (b @ r)"
    "list_op (set ?es) stk s s2" "heap_ok s2"
    using remove_entry_ok [OF ok lst] by blast
  have dl: "dll (st_ents s) 0 ?es 0" "distinct ?es" using lst by (auto simp: is_list_def chain_def)
  have e0: "e \<noteq> 0" and pn: "le_prev E = last0 b" "le_next E = first0 r" using dll_mid [OF dl(1)] E by auto
  have nz: "0 \<notin> set ?es" using dll_nonzero [OF dl(1)] by blast
  have ne: "le_prev E = 0 \<or> le_prev E \<noteq> le_next E" "le_next E \<noteq> e" "le_prev E \<noteq> e"
    using dl(2) pn nz by (auto simp: last0_def first0_def split: if_splits dest: last_in_set hd_in_set)
  have nb: "st_ents s x \<noteq> None" if "x \<in> {le_prev E, le_next E}" "x \<noteq> 0" for x
    using that is_list_ents [OF lst, of x] pn by (auto simp: first0_def last0_def split: if_splits)
  obtain L where L: "st_lists s stk = Some L" using lst by (auto simp: is_list_def)
  have s2': "s2 = s\<lparr>st_ents := relink (st_ents s) (le_prev E) (le_next E),
    st_lists := (st_lists s)(stk \<mapsto> L\<lparr>li_head := (if li_head L = e then le_next E else li_head L),
      li_last := (if li_last L = e then le_prev E else li_last L), li_count := li_count L - 1\<rparr>)\<rparr>"
    using remove_entry_raw [OF e0 E L] nb s2(1) by auto
  have "st_ents s1 e = Some E"
    using q ne E e0 unfolding s1 by (auto simp: relink_other)
  moreover have "st_lists s1 stk = Some L" using F L by (simp add: s1)
  ultimately have run: "akl_list_remove_entry s1 stk e = Some (e, s2\<lparr>st_lists := (st_lists s2)(fr \<mapsto> L1)\<rparr>)"
    using remove_entry_raw [of e s1 E stk L] nb e0 relink_relink [OF q ne(1)] F(2)
    unfolding s2' by (simp add: s1 fun_upd_twist)
  let ?s' = "s2\<lparr>st_lists := (st_lists s2)(fr \<mapsto> L1)\<rparr>"
  have "is_list ?s' stk (b @ r)" using s2(2) F(2) by (simp add: is_list_def chain_def)
  moreover have d: "edata ?s' x = edata s x \<and> st_ents ?s' x \<noteq> None" if "st_ents s x \<noteq> None" for x
    using s2(3) that by (simp add: list_op_def edata_def)
  moreover have "st_ents ?s' x = st_ents s x" if "x \<notin> set ?es" for x
  proof (cases "st_ents s x")
    case None
    then show ?thesis using relink_None by (simp add: s2')
  next
    case (Some X)
    then show ?thesis using s2(3) that by (simp add: list_op_def)
  qed
  moreover have "st_lists ?s' l = st_lists s l" if "l \<noteq> stk" "l \<noteq> fr" for l using that by (simp add: s2')
  moreover have l': "is_list ?s' stk (b @ r)" using s2(2) F(2) by (simp add: is_list_def chain_def)
  moreover have "stack_op ctx s ?s'"
  proof (rule stack_opI [OF _ C(1)])
    show "?s' = s\<lparr>st_ents := st_ents ?s', st_lists := st_lists ?s'\<rparr>" by (simp add: s2')
    show "is_list s (cx_stack C) ?es" "is_list ?s' (cx_stack C) (b @ r)" using lst l' C(2) by simp_all
  qed (use d C(2,3) calculation in auto)
  moreover have "heap_ok ?s'"
    by (rule heap_ok_same [OF ok, where h = "st_ents ?s'" and ls = "st_lists ?s'"])
      (use L F in \<open>auto simp: s2' dom_def\<close>)
  moreover have "entry_data ?s' e = Some (edata s e)"
    using entry_data_edata [of ?s' e] d [of e] E e0 by simp
  ultimately show ?thesis using run by auto
qed

subsection \<open>Frames\<close>

text \<open>
  The frame of a context: the entries \<open>es\<close> of its stack, with \<open>b\<close> below and \<open>a\<close> above. An
  empty frame only has its count.
\<close>

definition is_frame :: "akl_state \<Rightarrow> addr \<Rightarrow> addr list \<Rightarrow> addr list \<Rightarrow> addr list \<Rightarrow> bool" where
  "is_frame s ctx b es a \<longleftrightarrow> ctx \<noteq> 0 \<and> length es < 4294967296 \<and>
     (\<exists>C L. st_ctxs s ctx = Some C \<and> cx_state C \<and> is_list s (cx_stack C) (b @ es @ a) \<and>
        cx_frame C \<noteq> 0 \<and> cx_frame C \<noteq> cx_stack C \<and> st_lists s (cx_frame C) = Some L \<and>
        li_count L = of_nat (length es) \<and> (es \<noteq> [] \<longrightarrow> li_head L = hd es \<and> li_last L = last es))"

lemma is_frameE:
  assumes "is_frame s ctx b es a"
  obtains C L where "ctx \<noteq> 0" "length es < 4294967296" "st_ctxs s ctx = Some C" "cx_state C"
    "is_list s (cx_stack C) (b @ es @ a)" "cx_frame C \<noteq> 0" "cx_frame C \<noteq> cx_stack C"
    "st_lists s (cx_frame C) = Some L" "li_count L = of_nat (length es)"
    "es \<noteq> [] \<Longrightarrow> li_head L = hd es \<and> li_last L = last es"
  using assms unfolding is_frame_def by blast

lemma frame_count: "is_frame s ctx b es a \<Longrightarrow> akl_frame_get_count s ctx = Some (of_nat (length es))"
  by (auto simp: is_frame_def akl_frame_get_count_def akl_list_count_def)

lemma frame_count_0:
  "is_frame s ctx b es a \<Longrightarrow> (of_nat (length es) :: u32) = 0 \<longleftrightarrow> es = []"
  using of_nat_u32_inj [of "length es" 0] by (auto simp: is_frame_def)

lemma frame_shift_empty: "is_frame s ctx b [] a \<Longrightarrow> akl_frame_shift s ctx = Some (0, s)"
  using frame_count [of s ctx b "[]" a] by (auto simp: akl_frame_shift_def is_frame_def)

lemma frame_pop_empty: "is_frame s ctx b [] a \<Longrightarrow> akl_frame_pop s ctx = Some (0, s)"
  using frame_count [of s ctx b "[]" a] by (auto simp: akl_frame_pop_def is_frame_def)

lemma frame_entry_links:
  assumes "is_list s stk (b @ e # r)"
  obtains E where "st_ents s e = Some E" "e \<noteq> 0" "le_prev E = last0 b" "le_next E = first0 r"
    "le_next E \<noteq> 0 \<Longrightarrow> st_ents s (le_next E) \<noteq> None" "le_prev E \<noteq> 0 \<Longrightarrow> st_ents s (le_prev E) \<noteq> None"
proof -
  have "dll (st_ents s) 0 (b @ e # r) 0" using assms by (simp add: is_list_def chain_def)
  from dll_mid [OF this] obtain E where "st_ents s e = Some E" "e \<noteq> 0" "le_prev E = last0 b" "le_next E = first0 r"
    by blast
  moreover have "last0 b \<noteq> 0 \<Longrightarrow> st_ents s (last0 b) \<noteq> None" "first0 r \<noteq> 0 \<Longrightarrow> st_ents s (first0 r) \<noteq> None"
    using is_list_ents [OF assms, of "last0 b"] is_list_ents [OF assms, of "first0 r"]
    by (auto simp: last0_def first0_def split: if_splits)
  ultimately show ?thesis using that by metis
qed

lemma frame_shift_ok:
  assumes ok: "heap_ok s" and fr: "is_frame s ctx b (e # es) a"
  shows "\<exists>s'. akl_frame_shift s ctx = Some (edata s e, s') \<and> is_frame s' ctx b es a \<and> stack_op ctx s s' \<and> heap_ok s'"
proof -
  obtain C L where C: "ctx \<noteq> 0" "length (e # es) < 4294967296" "st_ctxs s ctx = Some C" "cx_state C"
    "is_list s (cx_stack C) (b @ (e # es) @ a)" "cx_frame C \<noteq> 0" "cx_frame C \<noteq> cx_stack C"
    "st_lists s (cx_frame C) = Some L" "li_count L = of_nat (length (e # es))" "li_head L = e" "li_last L = last (e # es)"
    using fr by (elim is_frameE) auto
  have lst: "is_list s (cx_stack C) (b @ e # (es @ a))" using C(5) by simp
  obtain E where E: "st_ents s e = Some E" "e \<noteq> 0" "le_prev E = last0 b" "le_next E = first0 (es @ a)"
    "le_next E \<noteq> 0 \<Longrightarrow> st_ents s (le_next E) \<noteq> None"
    using frame_entry_links [OF lst] by blast
  define L1 where "L1 = L\<lparr>li_head := le_next E, li_last := (if e = li_last L then le_next E else li_last L),
     li_count := li_count L - 1\<rparr>"
  define s1 where "s1 = s\<lparr>st_ents := relink (st_ents s) 0 (le_next E), st_lists := (st_lists s)(cx_frame C \<mapsto> L1)\<rparr>"
  have sh: "akl_list_shift_entry s (cx_frame C) = Some (e, s1)"
    unfolding s1_def L1_def by (rule shift_entry_raw [OF E(2,1) C(8,10) E(5)])
  obtain s' where s': "akl_list_remove_entry s1 (cx_stack C) e = Some (e, s')" "is_list s' (cx_stack C) (b @ es @ a)"
    "st_lists s' (cx_frame C) = Some L1" "stack_op ctx s s'" "heap_ok s'" "entry_data s' e = Some (edata s e)"
    using take_entry [OF ok lst C(3) refl refl E(1) C(8,7) _ s1_def] by auto
  have "distinct (e # es)" using C(5) by (auto simp: is_list_def chain_def)
  then have "es \<noteq> [] \<longrightarrow> li_head L1 = hd es \<and> li_last L1 = last es"
    using C(11) E(4) by (auto simp: L1_def first0_def)
  moreover have "li_count L1 = of_nat (length es)" using C(9) by (simp add: L1_def)
  ultimately have "is_frame s' ctx b es a"
    using C s' by (simp add: is_frame_def stack_op_fields(2) [OF s'(4)])
  moreover have "akl_frame_shift s ctx = Some (edata s e, s')"
    using frame_count [OF fr] frame_count_0 [OF fr] C(1,3) sh s'(1,6) by (simp add: akl_frame_shift_def del: of_nat_Suc)
  ultimately show ?thesis using s' by blast
qed

lemma frame_pop_ok:
  assumes ok: "heap_ok s" and fr: "is_frame s ctx b (es @ [e]) a"
  shows "\<exists>s'. akl_frame_pop s ctx = Some (edata s e, s') \<and> is_frame s' ctx b es a \<and> stack_op ctx s s' \<and> heap_ok s'"
proof -
  obtain C L where C: "ctx \<noteq> 0" "length (es @ [e]) < 4294967296" "st_ctxs s ctx = Some C" "cx_state C"
    "is_list s (cx_stack C) (b @ (es @ [e]) @ a)" "cx_frame C \<noteq> 0" "cx_frame C \<noteq> cx_stack C"
    "st_lists s (cx_frame C) = Some L" "li_count L = of_nat (length (es @ [e]))" "li_head L = hd (es @ [e])" "li_last L = e"
    using fr by (elim is_frameE) auto
  have lst: "is_list s (cx_stack C) ((b @ es) @ e # a)" using C(5) by simp
  obtain E where E: "st_ents s e = Some E" "e \<noteq> 0" "le_prev E = last0 (b @ es)" "le_next E = first0 a"
    "le_next E \<noteq> 0 \<Longrightarrow> st_ents s (le_next E) \<noteq> None" "le_prev E \<noteq> 0 \<Longrightarrow> st_ents s (le_prev E) \<noteq> None"
    using frame_entry_links [OF lst] by blast
  define L1 where "L1 = L\<lparr>li_head := (if li_head L = e then le_next E else li_head L),
     li_last := (if li_last L = e then le_prev E else li_last L), li_count := li_count L - 1\<rparr>"
  define s1 where "s1 = s\<lparr>st_ents := relink (st_ents s) (le_prev E) (le_next E), st_lists := (st_lists s)(cx_frame C \<mapsto> L1)\<rparr>"
  have pp: "akl_list_pop_entry s (cx_frame C) = Some (e, s1)"
    using remove_entry_raw [OF E(2,1) C(8) E(6,5)] C(6,8,11) E(2) by (simp add: akl_list_pop_entry_def s1_def L1_def)
  obtain s' where s': "akl_list_remove_entry s1 (cx_stack C) e = Some (e, s')" "is_list s' (cx_stack C) ((b @ es) @ a)"
    "st_lists s' (cx_frame C) = Some L1" "stack_op ctx s s'" "heap_ok s'" "entry_data s' e = Some (edata s e)"
    using take_entry [OF ok lst C(3) refl refl E(1) C(8,7) _ s1_def] by auto
  have "distinct (es @ [e])" using C(5) by (auto simp: is_list_def chain_def)
  then have "es \<noteq> [] \<longrightarrow> li_head L1 = hd es \<and> li_last L1 = last es"
    using C(10,11) E(3) by (cases es) (auto simp: L1_def last0_def)
  moreover have "li_count L1 = of_nat (length es)" using C(9) by (simp add: L1_def)
  ultimately have "is_frame s' ctx b es a"
    using C s' by (simp add: is_frame_def stack_op_fields(2) [OF s'(4)])
  moreover have "akl_frame_pop s ctx = Some (edata s e, s')"
    using frame_count [OF fr] frame_count_0 [OF fr] C(1,3,4) pp s'(1,6) by (simp add: akl_frame_pop_def)
  ultimately show ?thesis using s' by blast
qed

subsection \<open>Frames by their values\<close>

definition in_frame :: "akl_state \<Rightarrow> addr \<Rightarrow> addr list \<Rightarrow> addr list \<Rightarrow> addr list \<Rightarrow> bool" where
  "in_frame s ctx bs xs as \<longleftrightarrow>
     (\<exists>b es a. is_frame s ctx b es a \<and> bs = map (edata s) b \<and> xs = map (edata s) es \<and> as = map (edata s) a)"

definition stack_holds :: "akl_state \<Rightarrow> addr \<Rightarrow> addr list \<Rightarrow> bool" where
  "stack_holds s ctx vs \<longleftrightarrow> ctx \<noteq> 0 \<and> (\<exists>C. st_ctxs s ctx = Some C \<and> cx_state C \<and> holds s (cx_stack C) vs)"

lemma is_frame_map_data:
  assumes "is_frame s ctx b es a" "stack_op ctx s s'"
  shows "map (edata s') b = map (edata s) b" "map (edata s') es = map (edata s) es" "map (edata s') a = map (edata s) a"
proof -
  obtain C :: akl_context where "is_list s (cx_stack C) (b @ es @ a)"
    using assms(1) unfolding is_frame_def by blast
  from stack_op_data [OF assms(2) this]
  show "map (edata s') b = map (edata s) b" "map (edata s') es = map (edata s) es" "map (edata s') a = map (edata s) a"
    by simp_all
qed

lemma shift_value:
  assumes "heap_ok s" "in_frame s ctx bs (x # xs) as"
  obtains s' where "akl_frame_shift s ctx = Some (x, s')" "in_frame s' ctx bs xs as" "stack_op ctx s s'" "heap_ok s'"
proof -
  obtain b e es a where f: "is_frame s ctx b (e # es) a" "bs = map (edata s) b" "x = edata s e"
    "xs = map (edata s) es" "as = map (edata s) a"
    using assms(2) by (auto simp: in_frame_def Cons_eq_map_conv)
  obtain s' where s': "akl_frame_shift s ctx = Some (x, s')" "is_frame s' ctx b es a" "stack_op ctx s s'" "heap_ok s'"
    using frame_shift_ok [OF assms(1) f(1)] f(3) by auto
  have "in_frame s' ctx bs xs as"
    using s'(2) is_frame_map_data [OF f(1) s'(3)] f(2,4,5) unfolding in_frame_def
    by (intro exI [of _ b] exI [of _ es] exI [of _ a]) simp
  then show ?thesis using s' that by blast
qed

lemma pop_value:
  assumes "heap_ok s" "in_frame s ctx bs (xs @ [x]) as"
  obtains s' where "akl_frame_pop s ctx = Some (x, s')" "in_frame s' ctx bs xs as" "stack_op ctx s s'" "heap_ok s'"
proof -
  obtain b e es a where f: "is_frame s ctx b (es @ [e]) a" "bs = map (edata s) b" "x = edata s e"
    "xs = map (edata s) es" "as = map (edata s) a"
    using assms(2) unfolding in_frame_def by (auto simp: map_eq_append_conv append_eq_map_conv)
  obtain s' where s': "akl_frame_pop s ctx = Some (x, s')" "is_frame s' ctx b es a" "stack_op ctx s s'" "heap_ok s'"
    using frame_pop_ok [OF assms(1) f(1)] f(3) by auto
  have "in_frame s' ctx bs xs as"
    using s'(2) is_frame_map_data [OF f(1) s'(3)] f(2,4,5) unfolding in_frame_def
    by (intro exI [of _ b] exI [of _ es] exI [of _ a]) simp
  then show ?thesis using s' that by blast
qed

lemma shift_none: "in_frame s ctx bs [] as \<Longrightarrow> akl_frame_shift s ctx = Some (0, s)"
  by (auto simp: in_frame_def frame_shift_empty)

lemma pop_none: "in_frame s ctx bs [] as \<Longrightarrow> akl_frame_pop s ctx = Some (0, s)"
  by (auto simp: in_frame_def frame_pop_empty)

lemma in_frame_count:
  "in_frame s ctx bs xs as \<Longrightarrow> akl_frame_get_count s ctx = Some (of_nat (length xs)) \<and> length xs < 4294967296"
  by (auto simp: in_frame_def frame_count) (auto simp: is_frame_def)

lemma in_frame_ctx: "in_frame s ctx bs xs as \<Longrightarrow> ctx \<noteq> 0 \<and> (\<exists>C. st_ctxs s ctx = Some C \<and> cx_state C)"
  by (auto simp: in_frame_def is_frame_def)

lemma in_frame_op_refl: "in_frame s ctx bs xs as \<Longrightarrow> stack_op ctx s s"
  using in_frame_ctx stack_op_refl by blast

lemma in_frame_stack: "in_frame s ctx bs xs as \<Longrightarrow> stack_holds s ctx (bs @ xs @ as)"
  unfolding in_frame_def stack_holds_def is_frame_def holds_def by (force simp: map_append [symmetric] simp del: map_append)

text \<open>Popping the rest of a frame.\<close>

lemma frame_destroy_ok:
  assumes "heap_ok s" "in_frame s ctx bs xs as" "0 \<notin> set xs"
  shows "\<exists>s'. akl_frame_destroy s ctx = Some s' \<and> in_frame s' ctx bs [] as \<and> stack_op ctx s s' \<and> heap_ok s'"
  using assms
proof (induction xs arbitrary: s rule: rev_induct)
  case Nil
  then show ?case
    by (subst akl_frame_destroy.simps) (use in_frame_op_refl in \<open>auto simp: pop_none\<close>)
next
  case (snoc x xs)
  obtain s1 where s1: "akl_frame_pop s ctx = Some (x, s1)" "in_frame s1 ctx bs xs as" "stack_op ctx s s1" "heap_ok s1"
    by (rule pop_value [OF snoc.prems(1,2)])
  obtain s2 where s2: "akl_frame_destroy s1 ctx = Some s2" "in_frame s2 ctx bs [] as" "stack_op ctx s1 s2" "heap_ok s2"
    using snoc.IH [OF s1(4,2)] snoc.prems(3) by auto
  moreover have "akl_frame_destroy s ctx = akl_frame_destroy s1 ctx"
    using s1(1) snoc.prems(3) by (subst akl_frame_destroy.simps) simp
  ultimately show ?case using stack_op_trans [OF s1(3)] by auto
qed

text \<open>Reading all arguments.\<close>

lemma get_args_loop_ok:
  assumes "heap_ok s" "in_frame s ctx bs xs as" "0 \<notin> set xs"
  shows "\<exists>s'. get_args_loop s ctx cnt (length xs) = Some (Some xs, s') \<and> in_frame s' ctx bs [] as \<and>
    stack_op ctx s s' \<and> heap_ok s'"
  using assms
proof (induction xs arbitrary: s cnt)
  case Nil
  then show ?case using in_frame_op_refl by auto
next
  case (Cons x xs)
  obtain s1 where s1: "akl_frame_shift s ctx = Some (x, s1)" "in_frame s1 ctx bs xs as" "stack_op ctx s s1" "heap_ok s1"
    by (rule shift_value [OF Cons.prems(1,2)])
  obtain s2 where s2: "get_args_loop s1 ctx (cnt + 1) (length xs) = Some (Some xs, s2)" "in_frame s2 ctx bs [] as"
    "stack_op ctx s1 s2" "heap_ok s2"
    using Cons.IH [OF s1(4,2)] Cons.prems(3) by auto
  then show ?case using s1 Cons.prems(3) stack_op_trans [OF s1(3)] by auto
qed

lemma get_args_ok:
  assumes "heap_ok s" "in_frame s ctx bs xs as" "0 \<notin> set xs"
  obtains s' where "akl_get_args s ctx (length xs) = Some (Some xs, s')" "in_frame s' ctx bs [] as"
    "stack_op ctx s s'" "heap_ok s'"
proof -
  obtain s' where s': "get_args_loop s ctx 1 (length xs) = Some (Some xs, s')" "in_frame s' ctx bs [] as"
    "stack_op ctx s s'" "heap_ok s'"
    using get_args_loop_ok [OF assms] by blast
  moreover obtain C where "st_ctxs s ctx = Some C" "cx_state C" using in_frame_ctx [OF assms(2)] by blast
  ultimately show ?thesis using in_frame_count [OF assms(2)] that by (auto simp: akl_get_args_def)
qed

subsection \<open>Setting up a frame\<close>

lemma frame_walk_step:
  assumes "is_list s stk (b @ d # e # r)" "fs \<noteq> 1"
  shows "frame_walk s fs e = frame_walk s (fs - 1) d"
proof -
  have "is_list s stk ((b @ [d]) @ e # r)" using assms(1) by simp
  from frame_entry_links [OF this] obtain E where E: "st_ents s e = Some E" "e \<noteq> 0" "le_prev E = d"
    by (metis last0_simps(2))
  have "d \<noteq> 0" using is_list_ents [OF assms(1), of d] by simp
  then show ?thesis
    using E assms(2) by (subst frame_walk.simps) (simp add: akl_list_it_has_prev_def akl_list_it_prev_def)
qed

lemma frame_walk_ok:
  "is_list s stk (b @ es @ e # r) \<Longrightarrow> frame_walk s (int (length es) + 1) e = Some (hd (es @ [e]))"
proof (induction es arbitrary: e r rule: rev_induct)
  case Nil
  show ?case by (subst frame_walk.simps) simp
next
  case (snoc d es)
  have "frame_walk s (int (length (es @ [d])) + 1) e = frame_walk s (int (length es) + 1) d"
    using frame_walk_step [of s stk "b @ es" d e r "int (length (es @ [d])) + 1"] snoc.prems
    by (simp add: add.commute)
  also have "\<dots> = Some (hd (es @ [d]))" by (rule snoc.IH [of d "e # r"]) (use snoc.prems in simp)
  finally show ?case by (simp add: hd_append)
qed

lemma frame_walk_bottom:
  "is_list s stk (es @ e # r) \<Longrightarrow> fs \<le> 0 \<Longrightarrow> \<exists>it. frame_walk s fs e = Some it"
proof (induction es arbitrary: e r fs rule: rev_induct)
  case Nil
  obtain E where "st_ents s e = Some E" "e \<noteq> 0" "le_prev E = 0"
    using frame_entry_links [of s stk "[]" e r] Nil by auto
  then show ?case using Nil by (subst frame_walk.simps) (simp add: akl_list_it_has_prev_def)
next
  case (snoc d es)
  have "frame_walk s fs e = frame_walk s (fs - 1) d"
    by (rule frame_walk_step [of s stk es d e r]) (use snoc.prems in auto)
  then show ?case using snoc.IH [of d "e # r" "fs - 1"] snoc.prems by auto
qed

text \<open>What a call leaves alone when it makes its frame.\<close>

definition framed :: "akl_state \<Rightarrow> addr \<Rightarrow> akl_state \<Rightarrow> bool" where
  "framed s ctx s' \<longleftrightarrow> (\<exists>n ls C fr len. st_ctxs s ctx = Some C \<and> st_next s \<le> n \<and> st_lists s fr = None \<and>
     (\<forall>l. l \<noteq> fr \<longrightarrow> ls l = st_lists s l) \<and>
     s' = s\<lparr>st_next := n, st_lists := ls, st_ctxs := (st_ctxs s)(ctx \<mapsto> C\<lparr>cx_frame := fr, cx_frame_len := len\<rparr>)\<rparr>)"

lemma framed_fields [frame_simps]:
  assumes "framed s ctx s'"
  shows "st_vals s' = st_vals s" "st_ents s' = st_ents s" "st_funs s' = st_funs s" "st_syms s' = st_syms s"
    "st_vars s' = st_vars s" "ai_global_vars s' = ai_global_vars s" "st_errs s' = st_errs s"
    "ai_errors s' = ai_errors s" "st_out s' = st_out s"
  using assms by (auto simp: framed_def)

lemma init_frame_ok:
  assumes ok: "heap_ok s" and st: "stack_holds s ctx (bs @ xs)" and n: "length xs < 2147483648"
  shows "\<exists>s'. akl_init_frame s ctx (int (length xs)) = Some s' \<and> in_frame s' ctx bs xs [] \<and> heap_ok s' \<and> framed s ctx s'"
proof -
  obtain C b es where C: "ctx \<noteq> 0" "st_ctxs s ctx = Some C" "cx_state C" "is_list s (cx_stack C) (b @ es)"
    "bs = map (edata s) b" "xs = map (edata s) es"
    using st unfolding stack_holds_def holds_def by (auto simp: append_eq_map_conv)
  let ?fr = "st_next s"
  obtain L where L: "st_lists s (cx_stack C) = Some L" "li_last L = last0 (b @ es)"
    using C(4) by (auto simp: is_list_def)
  have fr: "?fr \<notin> heap_live s" "?fr \<noteq> 0" using heap_ok_fresh [OF ok] ok by (auto simp: heap_ok_def)
  then have ne: "?fr \<noteq> cx_stack C" "st_lists s ?fr = None" using L by (auto simp: heap_live_def)
  define s1 where "s1 = s\<lparr>st_next := ?fr + 1, st_lists := (st_lists s)(?fr \<mapsto> empty_list)\<rparr>"
  have new: "akl_new_list s = (?fr, s1)" using fr by (simp add: akl_new_list_def akl_init_list_def s1_def Let_def)
  have ok1: "heap_ok s1" using new_list_ok [OF ok new] by simp
  define C1 where "C1 = C\<lparr>cx_frame := ?fr, cx_frame_len := of_nat (length xs)\<rparr>"
  define l1 where "l1 = empty_list\<lparr>li_count := of_nat (length xs), li_last := last0 (b @ es)\<rparr>"
  define s2 where "s2 = s1\<lparr>st_lists := (st_lists s1)(?fr \<mapsto> l1), st_ctxs := (st_ctxs s)(ctx \<mapsto> C1)\<rparr>"
  have l2: "is_list s2 (cx_stack C) (b @ es)" using C(4) ne by (simp add: is_list_def chain_def s2_def s1_def)
  have "\<exists>it. frame_walk s2 (int (length xs)) (last0 (b @ es)) = Some it \<and> (es \<noteq> [] \<longrightarrow> it = hd es)"
  proof (cases es rule: rev_cases)
    case Nil
    show ?thesis
    proof (cases b rule: rev_cases)
      case Nil
      then show ?thesis using \<open>es = []\<close> C(6)
        by (subst frame_walk.simps) (simp add: akl_list_it_has_prev_def)
    next
      case (snoc b' d)
      then show ?thesis using frame_walk_bottom [of s2 "cx_stack C" b' d "[]" 0] l2 \<open>es = []\<close> C(6) by simp
    qed
  next
    case (snoc es' e)
    then show ?thesis using frame_walk_ok [of s2 "cx_stack C" b es' e "[]"] l2 C(6)
      by (simp add: last0_def hd_append add.commute)
  qed
  then obtain it where it: "frame_walk s2 (int (length xs)) (last0 (b @ es)) = Some it" "es \<noteq> [] \<longrightarrow> it = hd es" by blast
  define s' where "s' = s2\<lparr>st_lists := (st_lists s2)(?fr \<mapsto> l1\<lparr>li_head := it\<rparr>)\<rparr>"
  have "akl_init_frame s ctx (int (length xs)) = Some s'"
    using C(2) L new it(1)
    by (simp add: akl_init_frame_def akl_list_it_end_def upd_ctx_def upd_list_def s1_def s2_def s'_def C1_def l1_def
        C(4) [unfolded is_list_def])
  moreover have "is_frame s' ctx b es []"
    using C it(2) ne fr l2 n
    by (auto simp: is_frame_def s'_def s2_def s1_def C1_def l1_def is_list_def chain_def last0_def empty_list_def)
  then have "in_frame s' ctx bs xs []"
    using C(5,6) unfolding in_frame_def
    by (intro exI [of _ b] exI [of _ es] exI [of _ "[]"]) (simp add: s'_def s2_def s1_def edata_def)
  moreover have "framed s ctx s'"
    unfolding framed_def s'_def s2_def s1_def C1_def using C(2) ne
    by (intro exI [of _ "?fr + 1"] exI [of _ "(st_lists s)(?fr \<mapsto> l1\<lparr>li_head := it\<rparr>)"] exI [of _ C]
        exI [of _ ?fr] exI [of _ "of_nat (length xs)"]) simp
  moreover have "heap_ok s'"
  proof -
    have "heap_live s' = heap_live s1"
      using C(2) by (auto simp: heap_live_def s'_def s2_def s1_def)
    then show ?thesis using ok1 by (simp add: heap_ok_def s'_def s2_def s1_def)
  qed
  ultimately show ?thesis by blast
qed

subsection \<open>The operand stack\<close>

text \<open>\<open>akl_list_append_value\<close> sets a flag of the new entry.\<close>

lemma append_value_ok:
  assumes ok: "heap_ok s" and l: "is_list s l es"
  shows "\<exists>s'. akl_list_append_value s l d = Some (st_next s, s') \<and> is_list s' l (es @ [st_next s]) \<and>
    edata s' (st_next s) = d \<and> list_op (set es) l s s' \<and> heap_ok s'"
proof -
  let ?e = "st_next s"
  obtain s1 where s1: "akl_list_append s l d = Some (?e, s1)" "is_list s1 l (es @ [?e])"
    "edata s1 ?e = d" "list_op (set es) l s s1" "heap_ok s1"
    using append_ok [OF ok l] by blast
  obtain E where E: "st_ents s1 ?e = Some E" using is_list_ents [OF s1(2), of ?e] by auto
  have fr: "st_ents s ?e = None" using heap_ok_fresh [OF ok] by (auto simp: heap_live_def)
  define E' where "E' = E\<lparr>le_gc := (le_gc E)\<lparr>gc_le_is_obj := True\<rparr>\<rparr>"
  define s' where "s' = s1\<lparr>st_ents := (st_ents s1)(?e \<mapsto> E')\<rparr>"
  have same: "st_ents s' x = st_ents s1 x" if "x \<noteq> ?e" for x using that by (simp add: s'_def)
  have data: "edata s' x = edata s1 x" for x using E by (simp add: s'_def edata_def E'_def)
  have "dll (st_ents s') p fs n \<longleftrightarrow> dll (st_ents s1) p fs n" for p fs n
    using E by (induction fs arbitrary: p) (auto simp: s'_def E'_def)
  then have "is_list s' l (es @ [?e])" using s1(2) by (simp add: is_list_def chain_def s'_def)
  moreover have "heap_ok s'"
    by (rule heap_ok_same [OF s1(5), where h = "st_ents s'" and ls = "st_lists s'"])
      (use E in \<open>auto simp: s'_def\<close>)
  moreover have "list_op (set es) l s s'"
  proof (rule list_opI)
    obtain n h ls where "s1 = s\<lparr>st_next := n, st_ents := h, st_lists := ls\<rparr>"
      using s1(4) unfolding list_op_def by blast
    then show "s' = s\<lparr>st_next := st_next s', st_ents := st_ents s', st_lists := st_lists s'\<rparr>"
      unfolding s'_def by simp
    show "st_next s \<le> st_next s'" using s1(4) by (simp add: list_op_def s'_def)
    show "st_ents s' x = st_ents s x" if "x \<notin> set es" "st_ents s x \<noteq> None" for x
      using s1(4) that same [of x] fr unfolding list_op_def by metis
    show "st_ents s' x \<noteq> None \<and> edata s' x = edata s x" if "st_ents s x \<noteq> None" for x
      using s1(4) that same [of x] fr unfolding list_op_def data by metis
    show "st_lists s' k = st_lists s k" if "k \<noteq> l" for k using s1(4) that by (simp add: list_op_def s'_def)
  qed
  moreover have "akl_list_append_value s l d = Some (?e, s')"
    using s1(1) E by (simp add: akl_list_append_value_def upd_ent_def s'_def E'_def)
  ultimately show ?thesis using s1(3) data by metis
qed

lemma list_op_fields:
  assumes "list_op A l s s'"
  shows "st_ctxs s' = st_ctxs s" "st_vals s' = st_vals s" "st_funs s' = st_funs s" "st_syms s' = st_syms s"
    "st_vars s' = st_vars s" "ai_global_vars s' = ai_global_vars s" "st_instrs s' = st_instrs s"
  using assms unfolding list_op_def by (elim conjE exE; simp)+

definition stack_values :: "akl_state \<Rightarrow> addr \<Rightarrow> addr list" where
  "stack_values s ctx =
     (case st_ctxs s ctx of None \<Rightarrow> []
      | Some C \<Rightarrow> (case AKL_LIST_FOREACH s (cx_stack C) of None \<Rightarrow> [] | Some es \<Rightarrow> map (edata s) es))"

definition stack_inv :: "addr \<Rightarrow> akl_state \<Rightarrow> bool" where
  "stack_inv ctx s \<longleftrightarrow> heap_ok s \<and> stack_holds s ctx (stack_values s ctx) \<and> 0 \<notin> set (stack_values s ctx)"

lemma stack_holds_values: "stack_holds s ctx vs \<Longrightarrow> stack_values s ctx = vs"
  by (auto simp: stack_holds_def stack_values_def holds_def FOREACH_ok)

lemma stack_push_ok:
  assumes "heap_ok s" "stack_holds s ctx vs" "v \<noteq> 0"
  shows "\<exists>s'. akl_stack_push s ctx v = Some s' \<and> stack_holds s' ctx (vs @ [v]) \<and> heap_ok s'"
proof -
  obtain C es where C: "ctx \<noteq> 0" "st_ctxs s ctx = Some C" "cx_state C" "is_list s (cx_stack C) es" "vs = map (edata s) es"
    using assms(2) by (auto simp: stack_holds_def holds_def)
  obtain s' where s': "akl_list_append_value s (cx_stack C) v = Some (st_next s, s')"
    "is_list s' (cx_stack C) (es @ [st_next s])" "edata s' (st_next s) = v" "list_op (set es) (cx_stack C) s s'" "heap_ok s'"
    using append_value_ok [OF assms(1) C(4)] by blast
  have "map (edata s') (es @ [st_next s]) = vs @ [v]" using list_op_data [OF s'(4) C(4)] s'(3) C(5) by simp
  then have "holds s' (cx_stack C) (vs @ [v])" using s'(2) unfolding holds_def by metis
  then have "stack_holds s' ctx (vs @ [v])"
    using C(1-3) by (simp add: stack_holds_def list_op_fields(1) [OF s'(4)])
  moreover have "akl_stack_push s ctx v = Some s'" using C(1,2) assms(3) s'(1) by (simp add: akl_stack_push_def)
  ultimately show ?thesis using s'(5) by blast
qed

lemma upd_ctxs [simp]:
  "upd_ent s p f = Some s' \<Longrightarrow> st_ctxs s' = st_ctxs s" "upd_list s l g = Some s' \<Longrightarrow> st_ctxs s' = st_ctxs s"
  by (auto simp: upd_ent_def upd_list_def Option.bind_eq_Some_conv)

lemma remove_entry_ctxs: "akl_list_remove_entry s l e = Some (x, s') \<Longrightarrow> st_ctxs s' = st_ctxs s"
  unfolding akl_list_remove_entry_def
  by (auto simp: Option.bind_eq_Some_conv Let_def split: if_split_asm)

lemma pop_holds_ctxs: "akl_list_pop s l = Some (x, s') \<Longrightarrow> st_ctxs s' = st_ctxs s"
  unfolding akl_list_pop_def akl_list_pop_entry_def
  by (auto simp: Option.bind_eq_Some_conv dest: remove_entry_ctxs split: if_split_asm)

lemma stack_pop_ok:
  assumes "heap_ok s" "stack_holds s ctx (vs @ [v])" "v \<noteq> 0"
  shows "\<exists>s'. akl_stack_pop s ctx = Some (v, s') \<and> stack_holds s' ctx vs \<and> heap_ok s'"
proof -
  obtain C where C: "ctx \<noteq> 0" "st_ctxs s ctx = Some C" "cx_state C" "holds s (cx_stack C) (vs @ [v])"
    using assms(2) by (auto simp: stack_holds_def)
  obtain s' where s': "akl_list_pop s (cx_stack C) = Some (v, s')" "holds s' (cx_stack C) vs" "heap_ok s'"
    using pop_holds [OF assms(1) C(4)] by blast
  then show ?thesis
    using C assms(3) pop_holds_ctxs [OF s'(1)] by (auto simp: akl_stack_pop_def stack_holds_def)
qed

interpretation operand_stack: lifo "stack_inv ctx" "\<lambda>s. stack_values s ctx" "\<lambda>s v. v \<noteq> 0"
  "\<lambda>s v. akl_stack_push s ctx v" "\<lambda>s. akl_stack_pop s ctx" for ctx
proof unfold_locales
  fix s :: akl_state and v :: addr
  assume i: "stack_inv ctx s" and v: "v \<noteq> 0"
  obtain s' where s': "akl_stack_push s ctx v = Some s'" "stack_holds s' ctx (stack_values s ctx @ [v])" "heap_ok s'"
    using stack_push_ok [of s ctx "stack_values s ctx" v] i v unfolding stack_inv_def by blast
  then have "stack_inv ctx s' \<and> stack_values s' ctx = stack_values s ctx @ [v]"
    using i v stack_holds_values [OF s'(2)] by (simp add: stack_inv_def)
  then show "\<exists>s'. akl_stack_push s ctx v = Some s' \<and> stack_inv ctx s' \<and> stack_values s' ctx = stack_values s ctx @ [v]"
    using s'(1) by blast
next
  fix s :: akl_state
  assume i: "stack_inv ctx s" and ne: "stack_values s ctx \<noteq> []"
  let ?vs = "stack_values s ctx"
  have v: "last ?vs \<noteq> 0" using i last_in_set [OF ne] unfolding stack_inv_def by metis
  obtain s' where s': "akl_stack_pop s ctx = Some (last ?vs, s')" "stack_holds s' ctx (butlast ?vs)" "heap_ok s'"
    using stack_pop_ok [OF _ _ v, of s ctx "butlast ?vs"] i ne by (auto simp: stack_inv_def)
  then have "stack_inv ctx s' \<and> stack_values s' ctx = butlast ?vs"
    using i stack_holds_values [OF s'(2)] by (auto simp: stack_inv_def dest: in_set_butlastD)
  then show "\<exists>s'. akl_stack_pop s ctx = Some (last ?vs, s') \<and> stack_inv ctx s' \<and> stack_values s' ctx = butlast ?vs"
    using s'(1) by blast
qed

subsection \<open>Properties\<close>

text \<open>
  C24. The operand stack is last in, first out: after a push of a value the pop gives that
  value back, and the stack below it is what it was.
\<close>

theorem operand_stack_lifo:
  assumes "stack_inv ctx s" "v \<noteq> 0"
  shows "\<exists>s1 s2. akl_stack_push s ctx v = Some s1 \<and> akl_stack_pop s1 ctx = Some (v, s2) \<and>
    stack_inv ctx s2 \<and> stack_values s2 ctx = stack_values s ctx"
  by (rule operand_stack.pop_after_push [OF assms])

text \<open>A context whose stack holds nil and true, and a function's context over the same stack.\<close>

definition stack2 :: akl_state where
  "stack2 = list2\<lparr>st_next := 8,
     st_ctxs := [6 \<mapsto> init_context\<lparr>cx_state := True, cx_stack := 3\<rparr>,
                 7 \<mapsto> init_context\<lparr>cx_state := True, cx_stack := 3, cx_parent := 6\<rparr>]\<rparr>"

lemma stack2_ok: "heap_ok stack2" "stack_holds stack2 6 [1, 2]" "stack_holds stack2 7 [1, 2]"
proof -
  have l: "is_list stack2 3 [4, 5]" using list2_ok(2) by (simp add: is_list_def chain_def stack2_def)
  have "map (edata stack2) [4, 5] = [1, 2]" by (simp add: edata_def stack2_def list2_def)
  then have "holds stack2 3 [1, 2]" using l unfolding holds_def by metis
  then show "stack_holds stack2 6 [1, 2]" "stack_holds stack2 7 [1, 2]"
    by (simp_all add: stack_holds_def stack2_def init_context_def)
  show "heap_ok stack2"
    by (auto simp: heap_ok_def heap_live_def stack2_def list2_def state0_def NIL_ADDR_def TRUE_ADDR_def split: if_splits)
qed

theorem operand_stack_lifo_witness:
  "\<exists>s1 s2. akl_stack_push stack2 6 2 = Some s1 \<and> akl_stack_pop s1 6 = Some (2, s2) \<and>
    stack_inv 6 s2 \<and> stack_values s2 6 = [1, 2]"
proof -
  have v: "stack_values stack2 6 = [1, 2]" by (rule stack_holds_values [OF stack2_ok(2)])
  then have "stack_inv 6 stack2" using stack2_ok by (simp add: stack_inv_def)
  from operand_stack_lifo [OF this, of 2] show ?thesis by (simp add: v)
qed

text \<open>
  C10. A call with \<open>n\<close> arguments sees exactly the last \<open>n\<close> values of the stack, in order.
  \<open>akl_init_frame\<close> makes them the frame, and \<open>akl_get_args\<close> for \<open>n\<close> arguments succeeds, gives
  them and leaves on the stack what was below them. Nothing is dereferenced that is not
  there, and no other stack, list or value changes.
\<close>

theorem call_sees_its_arguments:
  assumes "heap_ok s" "stack_holds s ctx (bs @ xs)" "0 \<notin> set xs" "length xs < 2147483648"
  shows "\<exists>s1 s2. akl_init_frame s ctx (int (length xs)) = Some s1 \<and>
    akl_frame_get_count s1 ctx = Some (of_nat (length xs)) \<and>
    akl_get_args s1 ctx (length xs) = Some (Some xs, s2) \<and>
    stack_holds s2 ctx bs \<and> akl_frame_get_count s2 ctx = Some 0 \<and> heap_ok s2 \<and>
    st_vals s2 = st_vals s \<and> st_errs s2 = st_errs s \<and> st_vars s2 = st_vars s"
proof -
  obtain s1 where s1: "akl_init_frame s ctx (int (length xs)) = Some s1" "in_frame s1 ctx bs xs []"
    "heap_ok s1" "framed s ctx s1"
    using init_frame_ok [OF assms(1,2,4)] by blast
  obtain s2 where s2: "akl_get_args s1 ctx (length xs) = Some (Some xs, s2)" "in_frame s2 ctx bs [] []"
    "stack_op ctx s1 s2" "heap_ok s2"
    by (rule get_args_ok [OF s1(3,2) assms(3)])
  show ?thesis
    using s1(1) s2(1,4) in_frame_count [OF s1(2)] in_frame_count [OF s2(2)] in_frame_stack [OF s2(2)]
      stack_op_fields [OF s2(3)] framed_fields [OF s1(4)] by simp
qed

theorem call_sees_its_arguments_witness:
  "\<exists>s1 s2. akl_init_frame stack2 7 1 = Some s1 \<and> akl_get_args s1 7 1 = Some (Some [2], s2) \<and>
    stack_holds s2 7 [1] \<and> heap_ok s2"
proof -
  have "stack_holds stack2 7 ([1] @ [2])" using stack2_ok(3) by simp
  from call_sees_its_arguments [OF stack2_ok(1) this] show ?thesis by auto
qed

end
