(* ===== verification/Reports.thy ===== *)
theory Reports
  imports Frames
begin

text \<open>
  The error reports: what \<open>akl_raise_error\<close> adds to the list of the interpreter, and when it
  takes a report for one that is there already.
\<close>

subsection \<open>The list of the reports\<close>

text \<open>No list yet, or one whose entries are error structures.\<close>

definition reports :: "akl_state \<Rightarrow> akl_error list" where
  "reports s =
     (if ai_errors s = 0 then []
      else case AKL_LIST_FOREACH s (ai_errors s) of None \<Rightarrow> []
        | Some es \<Rightarrow> map (\<lambda>e. the (st_errs s (edata s e))) es)"

definition reports_ok :: "akl_state \<Rightarrow> bool" where
  "reports_ok s \<longleftrightarrow> heap_ok s \<and>
     (ai_errors s \<noteq> 0 \<longrightarrow> (\<exists>es. is_list s (ai_errors s) es \<and>
        (\<forall>e\<in>set es. edata s e \<noteq> 0 \<and> st_errs s (edata s e) \<noteq> None)))"

text \<open>
  The test for an equal report: the position, which must be named, the severity and the text.
\<close>

definition same_report :: "akl_lex_info option \<Rightarrow> akl_alert_type \<Rightarrow> string \<Rightarrow> akl_error \<Rightarrow> bool" where
  "same_report info t msg e \<longleftrightarrow>
     is_lex_info_equal info (err_info e) \<and> err_type e = t \<and> strcmp (err_msg e) msg = 0"

lemma find_error_ok:
  assumes "is_list s l (es @ r)" "\<And>e. e \<in> set es \<Longrightarrow> edata s e \<noteq> 0 \<and> st_errs s (edata s e) \<noteq> None"
  shows "find_error s info msg t (last0 es) =
    Some (\<exists>e\<in>set es. same_report info t msg (the (st_errs s (edata s e))))"
  using assms
proof (induction es arbitrary: r rule: rev_induct)
  case Nil
  show ?case by (subst find_error.simps) simp
next
  case (snoc e es)
  have "is_list s l (es @ e # r)" using snoc.prems(1) by simp
  from frame_entry_links [OF this] obtain E where E: "st_ents s e = Some E" "e \<noteq> 0" "le_prev E = last0 es" by metis
  obtain x where x: "le_data E \<noteq> 0" "st_errs s (le_data E) = Some x" "edata s e = le_data E"
    using snoc.prems(2) [of e] E(1) by (auto simp: edata_def)
  have "find_error s info msg t (last0 es) = Some (\<exists>e\<in>set es. same_report info t msg (the (st_errs s (edata s e))))"
    by (rule snoc.IH [of "e # r"]) (use snoc.prems in auto)
  then show ?case
    using E x by (subst find_error.simps) (auto simp: same_report_def)
qed

lemma reports_holds:
  "ai_errors s \<noteq> 0 \<Longrightarrow> is_list s (ai_errors s) es \<Longrightarrow> reports s = map (\<lambda>e. the (st_errs s (edata s e))) es"
  by (simp add: reports_def FOREACH_ok)

text \<open>With a list, and a report that is not there.\<close>

definition add_report :: "akl_state \<Rightarrow> akl_lex_info option \<Rightarrow> akl_alert_type \<Rightarrow> string \<Rightarrow> akl_state" where
  "add_report s info t msg = s\<lparr>st_next := st_next s + 1, st_errs := (st_errs s)(st_next s \<mapsto>
       \<lparr>err_info = info, err_type = t, err_msg = msg\<rparr>)\<rparr>"

lemma add_report_ok:
  assumes "heap_ok s"
  shows "heap_ok (add_report s info t msg)"
proof -
  have "heap_live (add_report s info t msg) = insert (st_next s) (heap_live s)"
    by (simp add: heap_live_def add_report_def)
  then show ?thesis using heap_ok_alloc [OF assms, of "add_report s info t msg"] by (simp add: add_report_def)
qed

lemma append_report:
  assumes "heap_ok s" "ai_errors s \<noteq> 0" "is_list s (ai_errors s) es"
    "\<And>e. e \<in> set es \<Longrightarrow> edata s e \<noteq> 0 \<and> st_errs s (edata s e) \<noteq> None"
  shows "\<exists>s'. akl_list_append (add_report s info t msg) (ai_errors s) (st_next s) = Some (st_next s + 1, s') \<and>
    reports_ok s' \<and> reports s' = reports s @ [\<lparr>err_info = info, err_type = t, err_msg = msg\<rparr>]"
proof -
  let ?s = "add_report s info t msg"
  let ?e = "st_next s + 1"
  have fr: "st_errs s (st_next s) = None" "st_next s \<noteq> 0"
    using heap_ok_fresh [OF assms(1)] assms(1) by (auto simp: heap_live_def heap_ok_def)
  have old: "edata s e \<noteq> st_next s" if "e \<in> set es" for e using assms(4) [OF that] fr by auto
  have l: "is_list ?s (ai_errors s) es" using assms(3) by (simp add: is_list_def chain_def add_report_def)
  obtain s' where s': "akl_list_append ?s (ai_errors s) (st_next s) = Some (?e, s')"
    "is_list s' (ai_errors s) (es @ [?e])" "edata s' ?e = st_next s" "list_op (set es) (ai_errors s) ?s s'" "heap_ok s'"
    using append_ok [OF add_report_ok [OF assms(1)] l, of "st_next s"] by (auto simp: add_report_def)
  have f: "st_errs s' = st_errs ?s" "ai_errors s' = ai_errors s"
    using s'(4) unfolding list_op_def by (auto simp: add_report_def)
  have "map (edata s') es = map (edata ?s) es" by (rule list_op_data [OF s'(4) l])
  then have d: "edata s' e = edata s e" if "e \<in> set es" for e
    using that by (simp add: edata_def add_report_def map_eq_conv)
  have "reports s' = map (\<lambda>e. the (st_errs s' (edata s' e))) (es @ [?e])"
    using reports_holds [of s' "es @ [?e]"] assms(2) f(2) s'(2) by simp
  also have "\<dots> = reports s @ [\<lparr>err_info = info, err_type = t, err_msg = msg\<rparr>]"
    using reports_holds [OF assms(2,3)] d old s'(3) f(1) by (simp add: add_report_def)
  finally have "reports s' = reports s @ [\<lparr>err_info = info, err_type = t, err_msg = msg\<rparr>]" .
  moreover have "reports_ok s'"
    unfolding reports_ok_def using s'(2,3,5) f d old assms(4) fr(2)
    by (intro conjI impI exI [of _ "es @ [?e]"]) (auto simp: add_report_def)
  ultimately show ?thesis using s'(1) by blast
qed

lemma raise_error_with_list:
  assumes "reports_ok s" "ai_errors s \<noteq> 0" "st_ctxs s ctx = Some C" "cx_state C"
  shows "\<exists>s'. akl_raise_error s ctx t msg = Some s' \<and> reports_ok s' \<and>
    reports s' = (if \<exists>e\<in>set (reports s). same_report (cx_lex_info C) t msg e then reports s
       else reports s @ [\<lparr>err_info = cx_lex_info C, err_type = t, err_msg = msg\<rparr>])"
proof -
  obtain es where es: "is_list s (ai_errors s) es" "\<And>e. e \<in> set es \<Longrightarrow> edata s e \<noteq> 0 \<and> st_errs s (edata s e) \<noteq> None"
    and ok: "heap_ok s"
    using assms(1,2) by (auto simp: reports_ok_def)
  obtain L where L: "st_lists s (ai_errors s) = Some L" "li_last L = last0 es" using es(1) by (auto simp: is_list_def)
  let ?ex = "\<exists>e\<in>set (reports s). same_report (cx_lex_info C) t msg e"
  have ex: "is_error_exist s ctx msg t = Some ?ex"
    using find_error_ok [of s "ai_errors s" es "[]"] es L assms(3) reports_holds [OF assms(2) es(1)]
    by (simp add: is_error_exist_def)
  show ?thesis
  proof (cases ?ex)
    case True
    then show ?thesis using assms ex by (auto simp: akl_raise_error_def)
  next
    case False
    obtain s' where "akl_list_append (add_report s (cx_lex_info C) t msg) (ai_errors s) (st_next s) = Some (st_next s + 1, s')"
      "reports_ok s'" "reports s' = reports s @ [\<lparr>err_info = cx_lex_info C, err_type = t, err_msg = msg\<rparr>]"
      using append_report [OF ok assms(2) es] by blast
    then show ?thesis
      using assms(2-4) ex False by (auto simp: akl_raise_error_def add_report_def Let_def)
  qed
qed

lemma raise_error_new_list:
  assumes "reports_ok s" "ai_errors s = 0" "akl_new_list s = (l, s1)"
  shows "reports_ok (s1\<lparr>ai_errors := l\<rparr>) \<and> l \<noteq> 0 \<and> reports (s1\<lparr>ai_errors := l\<rparr>) = [] \<and> st_ctxs s1 = st_ctxs s"
proof -
  have ok: "heap_ok s" using assms(1) by (simp add: reports_ok_def)
  have n: "3 \<le> st_next s" using ok by (simp add: heap_ok_def)
  have l: "l = st_next s" "s1 = s\<lparr>st_next := st_next s + 1, st_lists := (st_lists s)(l \<mapsto> empty_list)\<rparr>"
    using assms(3) n by (auto simp: akl_new_list_def akl_init_list_def Let_def)
  have "heap_ok s1" using new_list_ok [OF ok assms(3)] by blast
  then have h: "heap_ok (s1\<lparr>ai_errors := l\<rparr>)" by (simp add: heap_ok_def heap_live_def)
  have "is_list (s1\<lparr>ai_errors := l\<rparr>) l []" using n l by (simp add: is_list_def chain_def empty_list_def)
  then show ?thesis
    using h n l reports_holds [of "s1\<lparr>ai_errors := l\<rparr>" "[]"] unfolding reports_ok_def by (auto intro!: exI [of _ "[]"])
qed

lemma raise_error_ok:
  assumes "reports_ok s" "st_ctxs s ctx = Some C" "cx_state C"
  shows "\<exists>s'. akl_raise_error s ctx t msg = Some s' \<and> reports_ok s' \<and>
    reports s' = (if \<exists>e\<in>set (reports s). same_report (cx_lex_info C) t msg e then reports s
       else reports s @ [\<lparr>err_info = cx_lex_info C, err_type = t, err_msg = msg\<rparr>])"
proof (cases "ai_errors s = 0")
  case False
  then show ?thesis using raise_error_with_list [OF assms(1) _ assms(2,3)] by blast
next
  case True
  obtain l s1 where n: "akl_new_list s = (l, s1)" by force
  let ?s = "s1\<lparr>ai_errors := l\<rparr>"
  have ok: "reports_ok ?s" "l \<noteq> 0" "reports ?s = []" "st_ctxs s1 = st_ctxs s"
    using raise_error_new_list [OF assms(1) True n] by blast+
  have "akl_raise_error s ctx t msg = akl_raise_error ?s ctx t msg"
    using n True ok(2,4) assms(2,3) by (simp add: akl_raise_error_def)
  moreover have "reports s = []" using True by (simp add: reports_def)
  ultimately show ?thesis using raise_error_with_list [OF ok(1), of ctx C t msg] ok assms(2,3) by simp
qed

subsection \<open>Properties\<close>

text \<open>
  C23. Raising an error adds one report, with the position the context is at, behind the
  others; unless there is a report of the same named position, severity and text: then
  nothing changes. The list is made for the first report.
\<close>

theorem raise_error_reports_once:
  assumes "reports_ok s" "st_ctxs s ctx = Some C" "cx_state C"
  shows "\<exists>s'. akl_raise_error s ctx t msg = Some s' \<and> reports_ok s' \<and>
    reports s' = (if \<exists>e\<in>set (reports s). same_report (cx_lex_info C) t msg e then reports s
       else reports s @ [\<lparr>err_info = cx_lex_info C, err_type = t, err_msg = msg\<rparr>])"
  by (rule raise_error_ok [OF assms])

definition named_pos :: akl_lex_info where
  "named_pos = \<lparr>li_name = Some ''stdin'', li_line = 1, li_column = 4\<rparr>"

definition stack3 :: akl_state where
  "stack3 = stack2\<lparr>st_ctxs := [6 \<mapsto> init_context\<lparr>cx_state := True, cx_stack := 3, cx_lex_info := Some named_pos\<rparr>]\<rparr>"

lemma stack3_ok: "reports_ok stack3"
proof -
  have "heap_live stack3 \<subseteq> heap_live stack2" by (auto simp: heap_live_def stack3_def stack2_def)
  then have "heap_ok stack3" using stack2_ok(1) by (auto simp: heap_ok_def stack3_def)
  then show ?thesis by (simp add: reports_ok_def stack3_def stack2_def list2_def state0_def)
qed

theorem raise_error_reports_once_witness:
  "\<exists>s1. akl_raise_error stack3 6 ALERT_ERROR ''Zero division.'' = Some s1 \<and>
    reports s1 = [\<lparr>err_info = Some named_pos, err_type = ALERT_ERROR, err_msg = ''Zero division.''\<rparr>]"
proof -
  have "st_ctxs stack3 6 = Some (init_context\<lparr>cx_state := True, cx_stack := 3, cx_lex_info := Some named_pos\<rparr>)"
    "reports stack3 = []"
    by (simp_all add: stack3_def reports_def stack2_def list2_def state0_def)
  from raise_error_reports_once [OF stack3_ok this(1)] this(2) show ?thesis by auto
qed

end
