(* ===== verification/Calls.thy ===== *)
theory Calls
  imports Steps Reports
begin

text \<open>
  Running code on the virtual machine: what an instruction and a call of a function written in
  C keep (\<open>vm_keeps\<close>), the arithmetic functions on a frame of numbers, and the code of
  arithmetic expressions, which leaves the value of the expression on the stack.
\<close>

subsection \<open>What running code keeps\<close>

text \<open>
  From \<open>s\<close> to \<open>s'\<close> only the stack \<open>k\<close> and its entries, new structures, and the positions of
  contexts change; the contexts in \<open>X\<close> may change altogether.
\<close>

definition ctx_keeps :: "addr set \<Rightarrow> akl_state \<Rightarrow> akl_state \<Rightarrow> bool" where
  "ctx_keeps X s s' \<longleftrightarrow>
     (\<forall>c C. c \<notin> X \<longrightarrow> st_ctxs s c = Some C \<longrightarrow> (\<exists>i. st_ctxs s' c = Some (C\<lparr>cx_lex_info := i\<rparr>)))"

definition ents_keep :: "addr \<Rightarrow> akl_state \<Rightarrow> akl_state \<Rightarrow> bool" where
  "ents_keep k s s' \<longleftrightarrow>
     (\<forall>x. st_ents s x \<noteq> None \<longrightarrow> st_ents s' x \<noteq> None \<and> edata s' x = edata s x) \<and>
     (\<forall>es. is_list s k es \<longrightarrow>
        (\<exists>es'. is_list s' k es' \<and> set es' \<subseteq> set es \<union> {x. st_ents s x = None}) \<and>
        (\<forall>x. x \<notin> set es \<longrightarrow> st_ents s x \<noteq> None \<longrightarrow> st_ents s' x = st_ents s x))"

definition vm_keeps :: "addr \<Rightarrow> addr set \<Rightarrow> akl_state \<Rightarrow> akl_state \<Rightarrow> bool" where
  "vm_keeps k X s s' \<longleftrightarrow>
     (\<exists>n h ls vs cs. s' = s\<lparr>st_next := n, st_ents := h, st_lists := ls, st_vals := vs, st_ctxs := cs\<rparr>) \<and>
     st_next s \<le> st_next s' \<and>
     (\<forall>x. st_vals s x \<noteq> None \<longrightarrow> st_vals s' x = st_vals s x) \<and>
     (\<forall>l. l \<noteq> k \<longrightarrow> st_lists s l \<noteq> None \<longrightarrow> st_lists s' l = st_lists s l) \<and>
     ents_keep k s s' \<and> ctx_keeps X s s'"

lemma vm_keeps_fields:
  assumes "vm_keeps k X s s'"
  shows "st_funs s' = st_funs s" "st_syms s' = st_syms s" "st_vars s' = st_vars s" "st_instrs s' = st_instrs s"
    "st_labels s' = st_labels s" "ai_global_vars s' = ai_global_vars s" "st_errs s' = st_errs s"
    "ai_errors s' = ai_errors s" "ai_interrupted s' = ai_interrupted s" "ai_config s' = ai_config s"
    "st_out s' = st_out s"
  using assms by (auto simp: vm_keeps_def)

lemma vm_keeps_vals: "vm_keeps k X s s' \<Longrightarrow> st_vals s x = Some V \<Longrightarrow> st_vals s' x = Some V"
  by (simp add: vm_keeps_def)

lemma ents_keepD:
  assumes "ents_keep k s s'"
  shows "st_ents s x \<noteq> None \<Longrightarrow> st_ents s' x \<noteq> None \<and> edata s' x = edata s x"
    and "is_list s k es \<Longrightarrow> \<exists>es'. is_list s' k es' \<and> set es' \<subseteq> set es \<union> {x. st_ents s x = None}"
    and "is_list s k es \<Longrightarrow> x \<notin> set es \<Longrightarrow> st_ents s x \<noteq> None \<Longrightarrow> st_ents s' x = st_ents s x"
  using assms unfolding ents_keep_def by auto

lemma ents_keep_trans:
  assumes "ents_keep k s t" "ents_keep k t u"
  shows "ents_keep k s u"
  unfolding ents_keep_def
proof (intro conjI allI impI)
  fix x assume x: "st_ents s x \<noteq> None"
  show "st_ents u x \<noteq> None" "edata u x = edata s x"
    using ents_keepD(1) [OF assms(1) x] ents_keepD(1) [OF assms(2), of x] by simp_all
next
  fix es assume es: "is_list s k es"
  obtain et where et: "is_list t k et" "set et \<subseteq> set es \<union> {x. st_ents s x = None}"
    using ents_keepD(2) [OF assms(1) es] by blast
  obtain eu where eu: "is_list u k eu" "set eu \<subseteq> set et \<union> {x. st_ents t x = None}"
    using ents_keepD(2) [OF assms(2) et(1)] by blast
  have "{x. st_ents t x = None} \<subseteq> {x. st_ents s x = None}" using ents_keepD(1) [OF assms(1)] by blast
  then have "set eu \<subseteq> set es \<union> {x. st_ents s x = None}"
    using et(2) eu(2) by (auto simp del: Un_iff dest!: subsetD)
  then show "\<exists>eu. is_list u k eu \<and> set eu \<subseteq> set es \<union> {x. st_ents s x = None}" using eu(1) by blast
  show "st_ents u x = st_ents s x" if x: "x \<notin> set es" "st_ents s x \<noteq> None" for x
  proof -
    have t: "st_ents t x = st_ents s x" by (rule ents_keepD(3) [OF assms(1) es x])
    have "x \<notin> set et" using subsetD [OF et(2), of x] x by auto
    then have "st_ents u x = st_ents t x" using ents_keepD(3) [OF assms(2) et(1), of x] t x(2) by simp
    then show ?thesis using t by simp
  qed
qed

lemma ctx_id: "\<exists>i. C = C\<lparr>cx_lex_info := i\<rparr>" for C :: akl_context
  by (rule exI [of _ "cx_lex_info C"]) simp

lemma ctx_keeps_trans: "ctx_keeps X s t \<Longrightarrow> ctx_keeps X t u \<Longrightarrow> ctx_keeps X s u"
proof -
  assume st: "ctx_keeps X s t" and tu: "ctx_keeps X t u"
  have "\<exists>i. st_ctxs u c = Some (C\<lparr>cx_lex_info := i\<rparr>)" if c: "c \<notin> X" "st_ctxs s c = Some C" for c C
  proof -
    obtain i where "st_ctxs t c = Some (C\<lparr>cx_lex_info := i\<rparr>)" using st c unfolding ctx_keeps_def by blast
    then obtain j where "st_ctxs u c = Some (C\<lparr>cx_lex_info := i, cx_lex_info := j\<rparr>)"
      using tu c(1) unfolding ctx_keeps_def by blast
    then show ?thesis by auto
  qed
  then show ?thesis unfolding ctx_keeps_def by blast
qed

lemma vm_keeps_trans:
  assumes st: "vm_keeps k X s t" and tu: "vm_keeps k X t u"
  shows "vm_keeps k X s u"
proof -
  obtain n h ls vs cs n' h' ls' vs' cs' where
    "t = s\<lparr>st_next := n, st_ents := h, st_lists := ls, st_vals := vs, st_ctxs := cs\<rparr>"
    "u = t\<lparr>st_next := n', st_ents := h', st_lists := ls', st_vals := vs', st_ctxs := cs'\<rparr>"
    using st tu unfolding vm_keeps_def by blast
  then have "\<exists>n h ls vs cs. u = s\<lparr>st_next := n, st_ents := h, st_lists := ls, st_vals := vs, st_ctxs := cs\<rparr>"
    by (intro exI [of _ n'] exI [of _ h'] exI [of _ ls'] exI [of _ vs'] exI [of _ cs']) simp
  moreover have "ents_keep k s u" using ents_keep_trans st tu unfolding vm_keeps_def by blast
  moreover have "ctx_keeps X s u" using ctx_keeps_trans st tu unfolding vm_keeps_def by blast
  moreover have "st_vals u x = st_vals s x" if "st_vals s x \<noteq> None" for x
    using st tu that unfolding vm_keeps_def by metis
  moreover have "st_lists u l = st_lists s l" if "l \<noteq> k" "st_lists s l \<noteq> None" for l
    using st tu that unfolding vm_keeps_def by metis
  moreover have "st_next s \<le> st_next u" using st tu unfolding vm_keeps_def by linarith
  ultimately show ?thesis unfolding vm_keeps_def by blast
qed

lemma vm_keeps_weaken: "vm_keeps k {} s s' \<Longrightarrow> vm_keeps k X s s'"
  by (auto simp: vm_keeps_def ctx_keeps_def)

text \<open>A context that did not exist before need not be exempt.\<close>

lemma vm_keeps_fresh_ctx: "vm_keeps k {c} s s' \<Longrightarrow> st_ctxs s c = None \<Longrightarrow> vm_keeps k {} s s'"
  unfolding vm_keeps_def ctx_keeps_def by (metis insert_iff option.distinct(1) singletonD)

lemma ents_keep_same:
  assumes "st_ents s' = st_ents s" "st_lists s' k = st_lists s k"
  shows "ents_keep k s s'"
proof -
  have "is_list s' k es = is_list s k es" for es using assms by (simp add: is_list_def chain_def)
  then show ?thesis using assms(1) unfolding ents_keep_def edata_def by auto
qed

text \<open>Structures that are not entries: new values, new contexts, changed positions.\<close>

lemma vm_keeps_heap:
  assumes "s' = s\<lparr>st_next := n, st_vals := vs, st_ctxs := cs\<rparr>" "st_next s \<le> n"
    "\<And>x. st_vals s x \<noteq> None \<Longrightarrow> vs x = st_vals s x"
    "\<And>c C. c \<notin> X \<Longrightarrow> st_ctxs s c = Some C \<Longrightarrow> \<exists>i. cs c = Some (C\<lparr>cx_lex_info := i\<rparr>)"
  shows "vm_keeps k X s s'"
proof -
  have "s' = s\<lparr>st_next := n, st_ents := st_ents s, st_lists := st_lists s, st_vals := vs, st_ctxs := cs\<rparr>"
    using assms(1) by simp
  then have "\<exists>n h ls vs cs. s' = s\<lparr>st_next := n, st_ents := h, st_lists := ls, st_vals := vs, st_ctxs := cs\<rparr>"
    by blast
  moreover have "ents_keep k s s'" by (rule ents_keep_same) (simp_all add: assms(1))
  moreover have "ctx_keeps X s s'" using assms(4) by (simp add: ctx_keeps_def assms(1))
  ultimately show ?thesis using assms(2,3) by (simp add: vm_keeps_def assms(1))
qed

text \<open>Pushing.\<close>

lemma ents_keep_push:
  assumes op: "list_op (set es) k s s'" and es: "is_list s k es" "is_list s' k (es @ [e])" "st_ents s e = None"
  shows "ents_keep k s s'"
  unfolding ents_keep_def
proof (intro conjI allI impI)
  fix x assume "st_ents s x \<noteq> None"
  then show "st_ents s' x \<noteq> None" "edata s' x = edata s x" using op unfolding list_op_def by auto
next
  fix fs assume "is_list s k fs"
  then have fs: "fs = es" using is_list_unique es(1) by blast
  show "\<exists>es'. is_list s' k es' \<and> set es' \<subseteq> set fs \<union> {x. st_ents s x = None}"
    using es fs by (intro exI [of _ "es @ [e]"]) auto
  fix x assume "x \<notin> set fs" "st_ents s x \<noteq> None"
  then show "st_ents s' x = st_ents s x" using op fs unfolding list_op_def by blast
qed

lemma push_keeps:
  assumes "list_op (set es) k s s'" "is_list s k es" "is_list s' k (es @ [e])" "st_ents s e = None"
  shows "vm_keeps k {} s s'"
proof -
  obtain n h ls where "s' = s\<lparr>st_next := n, st_ents := h, st_lists := ls\<rparr>" using assms(1) unfolding list_op_def by blast
  then have s': "s' = s\<lparr>st_next := n, st_ents := h, st_lists := ls, st_vals := st_vals s, st_ctxs := st_ctxs s\<rparr>" by simp
  then have "\<exists>n h ls vs cs. s' = s\<lparr>st_next := n, st_ents := h, st_lists := ls, st_vals := vs, st_ctxs := cs\<rparr>" by blast
  moreover have "ctx_keeps {} s s'" unfolding s' ctx_keeps_def
    using ctx_id by simp
  moreover have "st_vals s' = st_vals s" by (simp add: s')
  ultimately show ?thesis
    using ents_keep_push [OF assms] assms(1) unfolding vm_keeps_def list_op_def by simp
qed

text \<open>Setting up a frame and taking values out of it.\<close>

lemma frame_keeps:
  assumes fr: "framed s c s1" and op: "stack_op c s1 s2" and C: "st_ctxs s c = Some C" "cx_stack C = k"
    and k: "is_list s k es"
  shows "vm_keeps k {c} s s2"
proof -
  obtain n ls fr len where s1: "st_next s \<le> n" "st_lists s fr = None" "\<And>l. l \<noteq> fr \<Longrightarrow> ls l = st_lists s l"
    "s1 = s\<lparr>st_next := n, st_lists := ls, st_ctxs := (st_ctxs s)(c \<mapsto> C\<lparr>cx_frame := fr, cx_frame_len := len\<rparr>)\<rparr>"
    using fr C(1) unfolding framed_def by auto
  obtain h ls' where s2: "s2 = s1\<lparr>st_ents := h, st_lists := ls'\<rparr>" using op unfolding stack_op_def by blast
  have kf: "k \<noteq> fr" using k s1(2) by (auto simp: is_list_def)
  have C1: "st_ctxs s1 c = Some (C\<lparr>cx_frame := fr, cx_frame_len := len\<rparr>)" by (simp add: s1(4))
  have l1: "is_list s1 k fs = is_list s k fs" for fs using s1(3) kf by (simp add: is_list_def chain_def s1(4))
  have "s2 = s\<lparr>st_next := n, st_ents := h, st_lists := ls', st_vals := st_vals s,
      st_ctxs := (st_ctxs s)(c \<mapsto> C\<lparr>cx_frame := fr, cx_frame_len := len\<rparr>)\<rparr>"
    using s1(4) s2 by simp
  then have "\<exists>n h ls vs cs. s2 = s\<lparr>st_next := n, st_ents := h, st_lists := ls, st_vals := vs, st_ctxs := cs\<rparr>" by blast
  moreover have "ents_keep k s s2"
    unfolding ents_keep_def
  proof (intro conjI allI impI)
    fix x assume x: "st_ents s x \<noteq> None"
    then show "st_ents s2 x \<noteq> None" "edata s2 x = edata s x"
      using stack_opD(4) [OF op C1, of x] by (simp_all add: s1(4) edata_def)
  next
    fix fs assume fs: "is_list s k fs"
    then have f1: "is_list s1 (cx_stack (C\<lparr>cx_frame := fr, cx_frame_len := len\<rparr>)) fs" using l1 C(2) by simp
    show "\<exists>es'. is_list s2 k es' \<and> set es' \<subseteq> set fs \<union> {x. st_ents s x = None}"
      using stack_opD(2) [OF op C1 f1] C(2) by auto
    fix x assume "x \<notin> set fs" "st_ents s x \<noteq> None"
    then show "st_ents s2 x = st_ents s x" using stack_opD(3) [OF op C1 f1] by (simp add: s1(4))
  qed
  moreover have "st_lists s2 l = st_lists s l" if "l \<noteq> k" "st_lists s l \<noteq> None" for l
  proof -
    have "l \<noteq> fr" using that(2) s1(2) by auto
    then show ?thesis using stack_opD(1) [OF op C1, of l] that(1) C(2) s1(3) by (simp add: s1(4))
  qed
  moreover have "ctx_keeps {c} s s2"
    unfolding ctx_keeps_def s2 s1(4) using ctx_id by simp
  ultimately show ?thesis using s1(1) unfolding vm_keeps_def s2 by (simp add: s1(4))
qed

subsection \<open>Arithmetic on a frame of numbers\<close>

definition number_at :: "akl_state \<Rightarrow> addr \<Rightarrow> double \<Rightarrow> bool" where
  "number_at s p d \<longleftrightarrow> p \<noteq> 0 \<and> (\<exists>V. st_vals s p = Some V \<and> va_type V = VT_NUMBER \<and> va_value V = V_number d \<and> \<not> va_nil V)"

definition numbers_at :: "akl_state \<Rightarrow> addr list \<Rightarrow> double list \<Rightarrow> bool" where
  "numbers_at s = list_all2 (number_at s)"

lemma numbers_at_simps [simp]:
  "numbers_at s [] ds \<longleftrightarrow> ds = []"
  "numbers_at s (p # ps) ds \<longleftrightarrow> (\<exists>e es. ds = e # es \<and> number_at s p e \<and> numbers_at s ps es)"
  by (auto simp: numbers_at_def list_all2_Cons1)

lemma numbers_at_append: "numbers_at s (ps @ qs) ds \<longleftrightarrow>
    (\<exists>ds1 ds2. ds = ds1 @ ds2 \<and> numbers_at s ps ds1 \<and> numbers_at s qs ds2)"
  unfolding numbers_at_def list_all2_append1 by (metis list_all2_lengthD)

lemma numbers_at_nonzero: "numbers_at s ps ds \<Longrightarrow> 0 \<notin> set ps"
  by (induction ps arbitrary: ds) (auto simp: number_at_def)

lemma numbers_at_cong: "(\<And>p d. number_at s p d \<Longrightarrow> number_at t p d) \<Longrightarrow> numbers_at s ps ds \<Longrightarrow> numbers_at t ps ds"
  by (simp add: numbers_at_def list_all2_mono)

lemma number_at_keeps: "vm_keeps k X s s' \<Longrightarrow> number_at s p d \<Longrightarrow> number_at s' p d"
  by (auto simp: number_at_def dest: vm_keeps_vals)

lemma number_at_vals: "st_vals s' = st_vals s \<Longrightarrow> number_at s' = number_at s"
  by (simp add: number_at_def fun_eq_iff)

lemma numbers_at_vals: "st_vals s' = st_vals s \<Longrightarrow> numbers_at s' = numbers_at s"
  by (simp only: numbers_at_def number_at_vals [of s' s])

lemma is_type_number: "number_at s p d \<Longrightarrow> is_type s p VT_NUMBER = Some True"
  by (auto simp: number_at_def is_type_def)

lemma get_number_value: "number_at s p d \<Longrightarrow> AKL_GET_NUMBER_VALUE s p = Some d"
  by (auto simp: number_at_def AKL_GET_NUMBER_VALUE_def)

text \<open>A step of the loops: the next value of the frame.\<close>

lemma pop_number_ok:
  assumes "heap_ok s" "in_frame s cx bs (ps @ [p]) as" "number_at s p d"
  obtains s1 where "akl_frame_pop_number s cx = Some (Some d, s1)" "in_frame s1 cx bs ps as" "stack_op cx s s1" "heap_ok s1"
proof -
  obtain s1 where s1: "akl_frame_pop s cx = Some (p, s1)" "in_frame s1 cx bs ps as" "stack_op cx s s1" "heap_ok s1"
    by (rule pop_value [OF assms(1,2)])
  have "number_at s1 p d" using assms(3) number_at_vals [OF stack_op_fields(1) [OF s1(3)]] by simp
  then have "akl_frame_pop_number s cx = Some (Some d, s1)"
    using s1(1) is_type_number [of s1 p d] by (auto simp: akl_frame_pop_number_def number_at_def)
  then show thesis using that s1 by blast
qed

lemma pop_number_none: "in_frame s cx bs [] as \<Longrightarrow> akl_frame_pop_number s cx = Some (None, s)"
  by (simp add: akl_frame_pop_number_def pop_none is_type_def)

text \<open>
  The loop of \<open>+\<close> and that of \<open>*\<close>: \<open>loop\<close> with the operation \<open>f\<close>, from the last argument to
  the first.
\<close>

lemma pop_loop_ok:
  assumes "\<And>s acc. loop s cx acc = do { (n, s) \<leftarrow> akl_frame_pop_number s cx;
      (case n of None \<Rightarrow> Some (acc, s) | Some d \<Rightarrow> loop s cx (f acc d)) }"
    and "heap_ok s" "in_frame s cx bs ps as" "numbers_at s ps ds"
  shows "\<exists>s'. loop s cx acc = Some (foldl f acc (rev ds), s') \<and> in_frame s' cx bs [] as \<and> stack_op cx s s' \<and> heap_ok s'"
  using assms(2-)
proof (induction ps arbitrary: s acc ds rule: rev_induct)
  case Nil
  then show ?case using assms(1) [of s acc] pop_number_none in_frame_op_refl by auto
next
  case (snoc p ps)
  obtain d ds1 where ds: "ds = ds1 @ [d]" "numbers_at s ps ds1" "number_at s p d"
    using snoc.prems(3) by (auto simp: numbers_at_append)
  obtain s1 where s1: "akl_frame_pop_number s cx = Some (Some d, s1)" "in_frame s1 cx bs ps as" "stack_op cx s s1" "heap_ok s1"
    by (rule pop_number_ok [OF snoc.prems(1,2) ds(3)])
  have "numbers_at s1 ps ds1" using ds(2) numbers_at_vals [OF stack_op_fields(1) [OF s1(3)]] by simp
  from snoc.IH [OF s1(4,2) this, of "f acc d"] obtain s' where
    s': "loop s1 cx (f acc d) = Some (foldl f (f acc d) (rev ds1), s')" "in_frame s' cx bs [] as"
      "stack_op cx s1 s'" "heap_ok s'" by blast
  have "loop s cx acc = Some (foldl f acc (rev ds), s')" using assms(1) [of s acc] s1(1) s'(1) ds(1) by simp
  then show ?case using s' stack_op_trans [OF s1(3)] by blast
qed

lemma shift_number_ok:
  assumes "heap_ok s" "in_frame s cx bs (p # ps) as" "number_at s p d"
  obtains s1 where "akl_frame_shift s cx = Some (p, s1)" "in_frame s1 cx bs ps as" "stack_op cx s s1" "heap_ok s1"
    "number_at s1 p d"
proof -
  obtain s1 where s1: "akl_frame_shift s cx = Some (p, s1)" "in_frame s1 cx bs ps as" "stack_op cx s s1" "heap_ok s1"
    by (rule shift_value [OF assms(1,2)])
  then show thesis using that assms(3) number_at_vals [OF stack_op_fields(1) [OF s1(3)]] by simp
qed

lemma minus_loop_ok:
  assumes "heap_ok s" "in_frame s cx bs ps as" "numbers_at s ps ds"
  shows "\<exists>s'. minus_loop s cx a = AKL_NUMBER s' cx (foldl dbl_sub a ds) \<and> in_frame s' cx bs [] as \<and>
    stack_op cx s s' \<and> heap_ok s'"
  using assms
proof (induction ps arbitrary: s a ds)
  case Nil
  then show ?case using in_frame_op_refl by (subst minus_loop.simps) (auto simp: shift_none)
next
  case (Cons p ps)
  obtain d ds1 where ds: "ds = d # ds1" "number_at s p d" "numbers_at s ps ds1" using Cons.prems(3) by auto
  obtain s1 where s1: "akl_frame_shift s cx = Some (p, s1)" "in_frame s1 cx bs ps as" "stack_op cx s s1" "heap_ok s1"
    "number_at s1 p d"
    by (rule shift_number_ok [OF Cons.prems(1,2) ds(2)])
  have "numbers_at s1 ps ds1" using ds(3) numbers_at_vals [OF stack_op_fields(1) [OF s1(3)]] by simp
  from Cons.IH [OF s1(4,2) this, of "dbl_sub a d"] obtain s' where
    s': "minus_loop s1 cx (dbl_sub a d) = AKL_NUMBER s' cx (foldl dbl_sub a ds)" "in_frame s' cx bs [] as"
      "stack_op cx s1 s'" "heap_ok s'" using ds(1) by auto
  have "p \<noteq> 0" using ds(2) by (simp add: number_at_def)
  then have "minus_loop s cx a = AKL_NUMBER s' cx (foldl dbl_sub a ds)"
    using s1(1) is_type_number [OF s1(5)] get_number_value [OF s1(5)] s'(1)
    by (subst minus_loop.simps) simp
  then show ?case using s' stack_op_trans [OF s1(3)] by blast
qed

text \<open>The value of an arithmetic function; \<open>+\<close> and \<open>*\<close> start with the last argument.\<close>

fun arith_value :: "akl_cfun \<Rightarrow> double list \<Rightarrow> double option" where
  "arith_value fn_plus ds = Some (foldl dbl_add (dbl_of_int 0) (rev ds))"
| "arith_value fn_mul ds = Some (foldl dbl_mul (dbl_of_int 1) (rev ds))"
| "arith_value fn_minus ds = Some (case ds of [] \<Rightarrow> dbl_of_int 0 | d # es \<Rightarrow> foldl dbl_sub d es)"
| "arith_value f ds = None"

lemma in_frame_cong:
  assumes "st_ents s' = st_ents s" "st_lists s' = st_lists s" "st_ctxs s' = st_ctxs s"
  shows "in_frame s' = in_frame s"
proof -
  have f: "is_frame s' = is_frame s"
    unfolding fun_eq_iff is_frame_def is_list_def chain_def assms by blast
  have e: "edata s' = edata s" using assms(1) by (simp add: fun_eq_iff edata_def)
  show ?thesis by (intro ext) (simp only: in_frame_def f e)
qed

lemma new_number_ok:
  assumes "heap_ok s" "in_frame s cx bs [] as"
  shows "\<exists>s'. AKL_NUMBER s cx d = Some (st_next s, s') \<and> in_frame s' cx bs [] as \<and> heap_ok s' \<and>
    number_at s' (st_next s) d \<and> vm_keeps k X s s' \<and> st_ctxs s' = st_ctxs s"
proof -
  obtain C where C: "cx \<noteq> 0" "st_ctxs s cx = Some C" "cx_state C" using in_frame_ctx [OF assms(2)] by blast
  define s' where "s' = s\<lparr>st_next := st_next s + 1, st_vals := (st_vals s)(st_next s \<mapsto> raw_value VT_NUMBER (V_number d))\<rparr>"
  have new: "akl_new_number_value s d = (st_next s, s')"
    by (simp add: akl_new_number_value_def new_value_with_def s'_def Let_def)
  have ok: "heap_ok s'" using new_value_with_ok [OF assms(1)] new unfolding akl_new_number_value_def by blast
  have fr: "st_vals s (st_next s) = None" "st_next s \<noteq> 0"
    using heap_ok_fresh [OF assms(1)] assms(1) by (auto simp: heap_live_def heap_ok_def)
  have "vm_keeps k X s s'"
  proof (rule vm_keeps_heap)
    show "s' = s\<lparr>st_next := st_next s + 1, st_vals := st_vals s', st_ctxs := st_ctxs s\<rparr>" by (simp add: s'_def)
    show "st_vals s' x = st_vals s x" if "st_vals s x \<noteq> None" for x using that fr by (auto simp: s'_def)
  qed (use ctx_id in simp_all)
  moreover have "in_frame s' cx bs [] as"
    using assms(2) in_frame_cong [of s' s] by (simp add: s'_def)
  moreover have "number_at s' (st_next s) d" using fr by (simp add: number_at_def s'_def raw_value_def)
  moreover have "AKL_NUMBER s cx d = Some (st_next s, s')" using C new by (simp add: AKL_NUMBER_def)
  ultimately show ?thesis using ok by (auto simp: s'_def)
qed

text \<open>The arithmetic functions on a frame of numbers.\<close>

lemma fn_plus_ok:
  assumes "heap_ok s" "in_frame s cx bs ps as" "numbers_at s ps ds"
  shows "\<exists>s1. akl_fn_plus s cx = AKL_NUMBER s1 cx (foldl dbl_add (dbl_of_int 0) (rev ds)) \<and>
    in_frame s1 cx bs [] as \<and> stack_op cx s s1 \<and> heap_ok s1"
proof -
  obtain s1 where "plus_loop s cx (dbl_of_int 0) = Some (foldl dbl_add (dbl_of_int 0) (rev ds), s1)"
    "in_frame s1 cx bs [] as" "stack_op cx s s1" "heap_ok s1"
    using pop_loop_ok [where loop = plus_loop and f = dbl_add, OF _ assms] plus_loop.simps by blast
  then show ?thesis by (auto simp: akl_fn_plus_def)
qed

lemma fn_mul_ok:
  assumes "heap_ok s" "in_frame s cx bs ps as" "numbers_at s ps ds"
  shows "\<exists>s1. akl_fn_mul s cx = AKL_NUMBER s1 cx (foldl dbl_mul (dbl_of_int 1) (rev ds)) \<and>
    in_frame s1 cx bs [] as \<and> stack_op cx s s1 \<and> heap_ok s1"
proof -
  obtain s1 where "mul_loop s cx (dbl_of_int 1) = Some (foldl dbl_mul (dbl_of_int 1) (rev ds), s1)"
    "in_frame s1 cx bs [] as" "stack_op cx s s1" "heap_ok s1"
    using pop_loop_ok [where loop = mul_loop and f = dbl_mul, OF _ assms] mul_loop.simps by blast
  then show ?thesis by (auto simp: akl_fn_mul_def)
qed

lemma fn_minus_ok:
  assumes "heap_ok s" "in_frame s cx bs ps as" "numbers_at s ps ds"
  shows "\<exists>s1. akl_fn_minus s cx =
      AKL_NUMBER s1 cx (case ds of [] \<Rightarrow> dbl_of_int 0 | d # es \<Rightarrow> foldl dbl_sub d es) \<and>
    in_frame s1 cx bs [] as \<and> stack_op cx s s1 \<and> heap_ok s1"
proof (cases ps)
  case Nil
  then show ?thesis using assms in_frame_op_refl [of s cx bs "[]" as]
    by (auto simp: akl_fn_minus_def shift_none)
next
  case (Cons p qs)
  obtain d es where ds: "ds = d # es" "number_at s p d" "numbers_at s qs es" using assms(3) Cons by auto
  obtain s1 where s1: "akl_frame_shift s cx = Some (p, s1)" "in_frame s1 cx bs qs as" "stack_op cx s s1" "heap_ok s1"
    "number_at s1 p d"
    by (rule shift_number_ok [OF assms(1) assms(2) [unfolded Cons] ds(2)])
  have "numbers_at s1 qs es" using ds(3) numbers_at_vals [OF stack_op_fields(1) [OF s1(3)]] by simp
  from minus_loop_ok [OF s1(4,2) this, of d] obtain s2 where
    s2: "minus_loop s1 cx d = AKL_NUMBER s2 cx (foldl dbl_sub d es)" "in_frame s2 cx bs [] as" "stack_op cx s1 s2" "heap_ok s2"
    by blast
  have "p \<noteq> 0" using ds(2) by (simp add: number_at_def)
  then have "akl_fn_minus s cx = AKL_NUMBER s2 cx (foldl dbl_sub d es)"
    using s1(1) is_type_number [OF s1(5)] get_number_value [OF s1(5)] s2(1) by (simp add: akl_fn_minus_def)
  then show ?thesis using s2 stack_op_trans [OF s1(3)] ds(1) by auto
qed

lemma call_arith:
  assumes ok: "heap_ok s" and fr: "in_frame s cx bs ps as" and ns: "numbers_at s ps ds"
    and v: "arith_value f ds = Some d"
  shows "\<exists>s1. (\<forall>ext n call argc. call_cfun ext n call f s cx argc = AKL_NUMBER s1 cx d) \<and>
    in_frame s1 cx bs [] as \<and> stack_op cx s s1 \<and> heap_ok s1"
proof -
  have "f = fn_plus \<or> f = fn_mul \<or> f = fn_minus" using v by (cases "(f, ds)" rule: arith_value.cases) auto
  then show ?thesis
    using v fn_plus_ok [OF ok fr ns] fn_mul_ok [OF ok fr ns] fn_minus_ok [OF ok fr ns]
    by (elim disjE) (simp_all add: call_cfun_def)
qed

text \<open>Pushing the result behind the frame.\<close>

lemma frame_push_value:
  assumes ok: "heap_ok s" and fr: "in_frame s cx bs [] as" and v: "v \<noteq> 0"
    and C: "st_ctxs s cx = Some C" "cx_stack C = k"
  shows "\<exists>s'. akl_stack_push s cx v = Some s' \<and> in_frame s' cx bs [] (as @ [v]) \<and> heap_ok s' \<and>
    vm_keeps k {} s s' \<and> st_vals s' = st_vals s \<and> st_ctxs s' = st_ctxs s"
proof -
  obtain b a where f: "is_frame s cx b [] a" "bs = map (edata s) b" "as = map (edata s) a"
    using fr by (auto simp: in_frame_def)
  obtain L where L: "cx \<noteq> 0" "cx_state C" "is_list s k (b @ [] @ a)" "cx_frame C \<noteq> 0" "cx_frame C \<noteq> k"
    "st_lists s (cx_frame C) = Some L" "li_count L = of_nat (length ([] :: addr list))"
    using f(1) C by (elim is_frameE) auto
  let ?e = "st_next s"
  obtain s' where s': "akl_list_append_value s k v = Some (?e, s')" "is_list s' k ((b @ [] @ a) @ [?e])"
    "edata s' ?e = v" "list_op (set (b @ [] @ a)) k s s'" "heap_ok s'"
    using append_value_ok [OF ok L(3)] by blast
  have new: "st_ents s ?e = None" using heap_ok_fresh [OF ok] by (auto simp: heap_live_def)
  have keep: "vm_keeps k {} s s'" by (rule push_keeps [OF s'(4) L(3) s'(2) new])
  have "st_lists s' (cx_frame C) = Some L" using s'(4) L(5,6) unfolding list_op_def by simp
  then have "is_frame s' cx b [] (a @ [?e])"
    using L s'(2) C list_op_fields(1) [OF s'(4)] by (simp add: is_frame_def)
  moreover have "map (edata s') (b @ a) = map (edata s) (b @ a)"
    using list_op_data [OF s'(4) L(3)] by simp
  ultimately have "in_frame s' cx bs [] (as @ [v])"
    unfolding in_frame_def f(2,3) using s'(3)
    by (intro exI [of _ b] exI [of _ "[]"] exI [of _ "a @ [?e]"]) simp
  moreover have "akl_stack_push s cx v = Some s'" using s'(1) C v L(1) by (simp add: akl_stack_push_def)
  ultimately show ?thesis using s'(5) keep list_op_fields(1,2) [OF s'(4)] by blast
qed

lemma frame_destroy_empty: "in_frame s cx bs [] as \<Longrightarrow> akl_frame_destroy s cx = Some s"
  by (subst akl_frame_destroy.simps) (simp add: pop_none)

text \<open>The call of an arithmetic function: the numbers on the stack become the result.\<close>

lemma call_arith_bound:
  assumes ok: "heap_ok s" and st: "stack_holds s cx (bs @ ps)" and ns: "numbers_at s ps ds"
    and len: "length ps < 2147483648" and C: "st_ctxs s cx = Some C" "cx_stack C = k"
    and F: "st_funs s (cx_func C) = Some F" "fn_type F = FUNC_CFUN" "fn_body F = B_cfun f"
    and v: "arith_value f ds = Some d"
  shows "\<exists>p s'. (\<forall>ext n. call_bound ext (Suc n) s cx (int (length ps)) = Some (p, s')) \<and> number_at s' p d \<and>
    holds s' k (bs @ [p]) \<and> heap_ok s' \<and> vm_keeps k {cx} s s'"
proof -
  obtain es where es: "is_list s k es" using st C by (auto simp: stack_holds_def holds_def)
  obtain s1 where s1: "akl_init_frame s cx (int (length ps)) = Some s1" "in_frame s1 cx bs ps []" "heap_ok s1" "framed s cx s1"
    using init_frame_ok [OF ok st len] by blast
  have "numbers_at s1 ps ds" using ns numbers_at_vals [OF framed_fields(1) [OF s1(4)]] by simp
  from call_arith [OF s1(3,2) this v] obtain s2 where
    s2: "\<And>ext n call argc. call_cfun ext n call f s1 cx argc = AKL_NUMBER s2 cx d" "in_frame s2 cx bs [] []"
      "stack_op cx s1 s2" "heap_ok s2" by blast
  have k2: "vm_keeps k {cx} s s2" by (rule frame_keeps [OF s1(4) s2(3) C es])
  let ?p = "st_next s2"
  obtain s3 where s3: "AKL_NUMBER s2 cx d = Some (?p, s3)" "in_frame s3 cx bs [] []" "heap_ok s3" "number_at s3 ?p d"
    "vm_keeps k {cx} s2 s3"
    using new_number_ok [OF s2(4,2)] by blast
  have p: "?p \<noteq> 0" using s3(4) by (simp add: number_at_def)
  have k3: "vm_keeps k {cx} s s3" by (rule vm_keeps_trans [OF k2 s3(5)])
  obtain C3 where C3: "st_ctxs s3 cx = Some C3" "cx_stack C3 = k"
  proof -
    obtain n ls fr len where "st_ctxs s1 cx = Some (C\<lparr>cx_frame := fr, cx_frame_len := len\<rparr>)"
      using s1(4) C(1) unfolding framed_def by auto
    then have "st_ctxs s2 cx = Some (C\<lparr>cx_frame := fr, cx_frame_len := len\<rparr>)" by (simp add: stack_op_fields(2) [OF s2(3)])
    moreover have "st_ctxs s3 = st_ctxs s2" using new_number_ok [OF s2(4,2), of d] s3(1) by force
    ultimately show thesis using that C(2) by simp
  qed
  obtain s4 where s4: "akl_stack_push s3 cx ?p = Some s4" "in_frame s4 cx bs [] ([] @ [?p])" "heap_ok s4" "vm_keeps k {} s3 s4"
    "st_vals s4 = st_vals s3" "st_ctxs s4 = st_ctxs s3"
    using frame_push_value [OF s3(3,2) p C3] by blast
  have "call_bound ext (Suc n) s cx (int (length ps)) = Some (?p, s4)" for ext n
    using C(1) s1(1) F s2(1) s3(1) s4(1) p frame_destroy_empty [OF s4(2)] framed_fields(3) [OF s1(4)]
    by (simp add: call_function_bound_def)
  moreover have "number_at s4 ?p d" using s3(4) number_at_vals [OF s4(5)] by simp
  moreover have "holds s4 k (bs @ [?p])" using in_frame_stack [OF s4(2)] s4(6) C3 by (simp add: stack_holds_def)
  moreover have "vm_keeps k {cx} s s4" by (rule vm_keeps_trans [OF k3 vm_keeps_weaken [OF s4(4)]])
  ultimately show ?thesis using s4(3) by blast
qed

subsection \<open>The instructions of arithmetic code\<close>

definition runs :: "akl_state \<Rightarrow> addr \<Rightarrow> addr \<Rightarrow> addr list \<Rightarrow> bool" where
  "runs s ctx k vs \<longleftrightarrow> heap_ok s \<and> ctx \<noteq> 0 \<and> (\<exists>C. st_ctxs s ctx = Some C \<and> cx_state C \<and> cx_stack C = k) \<and> holds s k vs"

lemma runs_stack: "runs s ctx k vs \<Longrightarrow> stack_holds s ctx vs"
  by (auto simp: runs_def stack_holds_def)

lemma runs_after:
  assumes "vm_keeps k {} s s'" "runs s ctx k vs" "heap_ok s'" "holds s' k ws"
  shows "runs s' ctx k ws"
proof -
  obtain C where C: "st_ctxs s ctx = Some C" "cx_state C" "cx_stack C = k" using assms(2) by (auto simp: runs_def)
  then obtain i where "st_ctxs s' ctx = Some (C\<lparr>cx_lex_info := i\<rparr>)"
    using assms(1) unfolding vm_keeps_def ctx_keeps_def by blast
  then show ?thesis using C assms by (auto simp: runs_def)
qed

lemma holds_cong:
  assumes "st_ents s' = st_ents s" "st_lists s' = st_lists s"
  shows "holds s' = holds s"
proof -
  have e: "edata s' = edata s" using assms(1) by (simp add: fun_eq_iff edata_def)
  have "is_list s' = is_list s" unfolding fun_eq_iff is_list_def chain_def assms by blast
  then show ?thesis by (intro ext) (simp only: holds_def e)
qed

text \<open>Changing the position of the context.\<close>

lemma set_lex_info_ok:
  assumes "runs s ctx k vs"
  shows "\<exists>s'. set_lex_info s ctx i = Some s' \<and> runs s' ctx k vs \<and> vm_keeps k {} s s' \<and> st_vals s' = st_vals s \<and>
    st_next s' = st_next s"
proof -
  obtain C where C: "st_ctxs s ctx = Some C" "cx_state C" "cx_stack C = k" using assms by (auto simp: runs_def)
  define s' where "s' = s\<lparr>st_ctxs := (st_ctxs s)(ctx \<mapsto> C\<lparr>cx_lex_info := i\<rparr>)\<rparr>"
  have k: "vm_keeps k {} s s'"
  proof (rule vm_keeps_heap)
    show "s' = s\<lparr>st_next := st_next s, st_vals := st_vals s, st_ctxs := st_ctxs s'\<rparr>" by (simp add: s'_def)
    show "\<exists>i. st_ctxs s' c = Some (D\<lparr>cx_lex_info := i\<rparr>)" if "st_ctxs s c = Some D" for c D
      using that C(1) ctx_id by (auto simp: s'_def)
  qed simp_all
  have "heap_live s' = heap_live s" using C(1) by (auto simp: heap_live_def s'_def)
  then have ok: "heap_ok s'" using assms by (simp add: runs_def heap_ok_def s'_def)
  have "holds s' k vs" using assms holds_cong [of s' s] by (simp add: runs_def s'_def)
  then have "runs s' ctx k vs" by (rule runs_after [OF k assms ok])
  then show ?thesis using k C(1) by (auto simp: set_lex_info_def upd_ctx_def s'_def)
qed

lemma push_runs:
  assumes "runs s ctx k vs" "v \<noteq> 0"
  shows "\<exists>s'. akl_stack_push s ctx v = Some s' \<and> runs s' ctx k (vs @ [v]) \<and> vm_keeps k {} s s'"
proof -
  obtain C es where C: "heap_ok s" "ctx \<noteq> 0" "st_ctxs s ctx = Some C" "cx_stack C = k" "is_list s k es" "vs = map (edata s) es"
    using assms(1) by (auto simp: runs_def holds_def)
  let ?e = "st_next s"
  obtain s' where s': "akl_list_append_value s k v = Some (?e, s')" "is_list s' k (es @ [?e])"
    "edata s' ?e = v" "list_op (set es) k s s'" "heap_ok s'"
    using append_value_ok [OF C(1,5)] by blast
  have new: "st_ents s ?e = None" using heap_ok_fresh [OF C(1)] by (auto simp: heap_live_def)
  have k: "vm_keeps k {} s s'" by (rule push_keeps [OF s'(4) C(5) s'(2) new])
  have "vs @ [v] = map (edata s') (es @ [?e])" using list_op_data [OF s'(4) C(5)] C(6) s'(3) by simp
  then have "holds s' k (vs @ [v])" using s'(2) unfolding holds_def by blast
  then have "runs s' ctx k (vs @ [v])" by (rule runs_after [OF k assms(1) s'(5)])
  then show ?thesis using k s'(1) C assms(2) by (auto simp: akl_stack_push_def)
qed

lemma exec_push_ok:
  assumes "runs s ctx k vs" "in_arg0 I = A_value v" "v \<noteq> 0" "st_vals s v \<noteq> None"
  shows "\<exists>s'. exec_push s ctx nxt I = Some (nxt, s') \<and> runs s' ctx k (vs @ [v]) \<and> vm_keeps k {} s s'"
proof -
  obtain V where V: "st_vals s v = Some V" using assms(4) by auto
  obtain s1 where s1: "set_lex_info s ctx (va_lex_info V) = Some s1" "runs s1 ctx k vs" "vm_keeps k {} s s1"
    using set_lex_info_ok [OF assms(1)] by blast
  obtain s2 where s2: "akl_stack_push s1 ctx v = Some s2" "runs s2 ctx k (vs @ [v])" "vm_keeps k {} s1 s2"
    using push_runs [OF s1(2) assms(3)] by blast
  have "exec_push s ctx nxt I = Some (nxt, s2)"
    using assms(2,3) V s1(1) s2(1) by (simp add: exec_push_def operand_value_def)
  then show ?thesis using s2(2) vm_keeps_trans [OF s1(3) s2(3)] by blast
qed

text \<open>The context of a call.\<close>

definition sym_ok :: "akl_state \<Rightarrow> addr \<Rightarrow> bool" where
  "sym_ok s y \<longleftrightarrow> y = 0 \<or> st_syms s y \<noteq> None"

lemma bound_function_ok:
  assumes "runs s ctx k vs" "sym_ok s symb" "fn \<noteq> 0"
  shows "\<exists>s' C. akl_bound_function s ctx symb fn = Some (st_next s, s') \<and> runs s' ctx k vs \<and> vm_keeps k {} s s' \<and>
    stack_holds s' (st_next s) vs \<and> st_ctxs s' (st_next s) = Some C \<and> cx_stack C = k \<and> cx_func C = fn \<and>
    st_ctxs s (st_next s) = None \<and> st_vals s' = st_vals s"
proof -
  obtain C where C: "heap_ok s" "st_ctxs s ctx = Some C" "cx_state C" "cx_stack C = k" "holds s k vs"
    using assms(1) by (auto simp: runs_def)
  obtain name where name: "sym_name s symb = Some name" 
    using assms(2) by (cases "symb = 0") (auto simp: sym_ok_def sym_name_def)
  let ?c = "st_next s"
  have fr: "st_ctxs s ?c = None" "?c \<noteq> 0"
    using heap_ok_fresh [OF C(1)] C(1) by (auto simp: heap_live_def heap_ok_def)
  define C' where "C' = C\<lparr>cx_func := fn, cx_func_name := (if symb = 0 then Some ''lambda'' else name), cx_parent := ctx\<rparr>"
  define s' where "s' = s\<lparr>st_next := ?c + 1, st_ctxs := (st_ctxs s)(?c \<mapsto> C')\<rparr>"
  have run: "akl_bound_function s ctx symb fn = Some (?c, s')"
    using C(2) name assms(3)
    by (cases "symb = 0") (auto simp: akl_bound_function_def akl_new_context_def upd_ctx_def s'_def C'_def sym_name_def Let_def)
  have "heap_live s' = insert ?c (heap_live s)" by (simp add: heap_live_def s'_def)
  then have ok: "heap_ok s'" using heap_ok_alloc [OF C(1), of s'] by (simp add: s'_def)
  have k: "vm_keeps k {} s s'"
  proof (rule vm_keeps_heap)
    show "s' = s\<lparr>st_next := ?c + 1, st_vals := st_vals s, st_ctxs := st_ctxs s'\<rparr>" by (simp add: s'_def)
    show "\<exists>i. st_ctxs s' c = Some (D\<lparr>cx_lex_info := i\<rparr>)" if "st_ctxs s c = Some D" for c D
      using that fr ctx_id by (auto simp: s'_def)
  qed simp_all
  have h: "holds s' k vs" using C(5) holds_cong [of s' s] by (simp add: s'_def)
  have "runs s' ctx k vs" by (rule runs_after [OF k assms(1) ok h])
  moreover have "st_ctxs s' ?c = Some C'" "cx_stack C' = k" "cx_func C' = fn" "cx_state C'"
    using C(3,4) by (simp_all add: s'_def C'_def)
  moreover have "stack_holds s' ?c vs" using h fr(2) calculation by (auto simp: stack_holds_def)
  ultimately show ?thesis using run k fr(1) by (auto simp: s'_def)
qed

lemma exec_call_ok:
  assumes run: "runs s ctx k (bs @ ps)" and ns: "numbers_at s ps ds" and len: "length ps < 2147483648"
    and I: "in_arg0 I = A_symbol symb" "in_arg1 I = A_num (of_nat (length ps))" "in_fun I = fn" "fn \<noteq> 0" "sym_ok s symb"
    and F: "st_funs s fn = Some F" "fn_type F = FUNC_CFUN" "fn_body F = B_cfun f"
    and v: "arith_value f ds = Some d"
  shows "\<exists>p s'. (\<forall>ext n. exec_call (call_bound ext (Suc n)) s ctx I = Some s') \<and> number_at s' p d \<and>
    runs s' ctx k (bs @ [p]) \<and> vm_keeps k {} s s'"
proof -
  obtain s1 where s1: "set_lex_info s ctx (in_linfo I) = Some s1" "runs s1 ctx k (bs @ ps)" "vm_keeps k {} s s1"
    "st_vals s1 = st_vals s"
    using set_lex_info_ok [OF run] by blast
  have sy: "sym_ok s1 symb" using I(5) vm_keeps_fields(2) [OF s1(3)] by (simp add: sym_ok_def)
  obtain s2 C where s2: "akl_bound_function s1 ctx symb fn = Some (st_next s1, s2)" "runs s2 ctx k (bs @ ps)"
    "vm_keeps k {} s1 s2" "stack_holds s2 (st_next s1) (bs @ ps)" "st_ctxs s2 (st_next s1) = Some C" "cx_stack C = k"
    "cx_func C = fn" "st_ctxs s1 (st_next s1) = None" "st_vals s2 = st_vals s1"
    using bound_function_ok [OF s1(2) sy I(4)] by blast
  let ?c = "st_next s1"
  have ok2: "heap_ok s2" and c0: "?c \<noteq> 0" using s2(2,4) by (auto simp: runs_def stack_holds_def)
  have ns2: "numbers_at s2 ps ds" using ns numbers_at_vals [of s2 s] s2(9) s1(4) by simp
  have F2: "st_funs s2 (cx_func C) = Some F"
    using F(1) s2(7) vm_keeps_fields(1) [OF s1(3)] vm_keeps_fields(1) [OF s2(3)] by simp
  obtain p s3 where s3: "\<And>ext n. call_bound ext (Suc n) s2 ?c (int (length ps)) = Some (p, s3)" "number_at s3 p d"
    "holds s3 k (bs @ [p])" "heap_ok s3" "vm_keeps k {?c} s2 s3"
    using call_arith_bound [OF ok2 s2(4) ns2 len s2(5,6) F2 F(2,3) v] by blast
  have k13: "vm_keeps k {} s1 s3"
    by (rule vm_keeps_fresh_ctx [OF vm_keeps_trans [OF vm_keeps_weaken [OF s2(3)] s3(5)] s2(8)])
  have k: "vm_keeps k {} s s3" by (rule vm_keeps_trans [OF s1(3) k13])
  have n: "sint (of_nat (length ps) :: u32) = int (length ps)"
    using len by (simp add: signed_of_nat signed_take_bit_int_eq_self)
  have "exec_call (call_bound ext (Suc m)) s ctx I = Some s3" for ext m
    using s1(1) I s2(1) s3(1) c0 n
    by (simp add: exec_call_def operand_symbol_def operand_ui_num_def del: call_bound.simps)
  then show ?thesis using s3(2) runs_after [OF k run s3(4,3)] k by blast
qed

subsection \<open>Arithmetic expressions and their code\<close>

text \<open>
  An expression is a constant (a value on the heap) or a call of a function by its symbol. The
  code is what the compiler makes of it: the arguments from left to right, then the call.
\<close>

datatype aexp = Const addr | App addr addr "aexp list"

datatype code_op = C_push addr | C_call addr addr nat

fun code_of :: "aexp \<Rightarrow> code_op list" where
  "code_of (Const v) = [C_push v]"
| "code_of (App symb fn es) = concat (map code_of es) @ [C_call symb fn (length es)]"

definition instr_is :: "akl_ir_instruction \<Rightarrow> code_op \<Rightarrow> bool" where
  "instr_is I c = (case c of
      C_push v \<Rightarrow> in_op I = IR_PUSH \<and> in_arg0 I = A_value v
    | C_call symb fn n \<Rightarrow> in_op I = IR_CALL \<and> in_arg0 I = A_symbol symb \<and> in_fun I = fn \<and> in_arg1 I = A_num (of_nat n))"

text \<open>The value of an expression, and what it needs of the heap.\<close>

definition function_of :: "akl_state \<Rightarrow> addr \<Rightarrow> akl_cfun option" where
  "function_of s fn = (case st_funs s fn of None \<Rightarrow> None
     | Some F \<Rightarrow> if fn_type F = FUNC_CFUN then (case fn_body F of B_cfun f \<Rightarrow> Some f | _ \<Rightarrow> None) else None)"

fun list_some :: "'a option list \<Rightarrow> 'a list option" where
  "list_some [] = Some []"
| "list_some (x # xs) = do { y \<leftarrow> x; ys \<leftarrow> list_some xs; Some (y # ys) }"

fun eval :: "akl_state \<Rightarrow> aexp \<Rightarrow> double option" where
  "eval s (Const v) =
     (if v = 0 then None
      else do { V \<leftarrow> st_vals s v; (if va_type V = VT_NUMBER \<and> \<not> va_nil V then get_number V else None) })"
| "eval s (App symb fn es) =
     (if fn = 0 \<or> \<not> sym_ok s symb \<or> 2147483648 \<le> length es then None
      else do { f \<leftarrow> function_of s fn; ds \<leftarrow> list_some (map (eval s) es); arith_value f ds })"

text \<open>Code in the memory: a chain of entries outside the stack \<open>k\<close> that ends at \<open>fin\<close>.\<close>

fun code_at :: "akl_state \<Rightarrow> addr \<Rightarrow> addr \<Rightarrow> code_op list \<Rightarrow> addr \<Rightarrow> bool" where
  "code_at s k ip [] fin \<longleftrightarrow> ip = fin"
| "code_at s k ip (c # cs) fin \<longleftrightarrow> ip \<noteq> 0 \<and>
     (\<exists>es. is_list s k es \<and> ip \<notin> set es) \<and>
     (\<exists>E I. st_ents s ip = Some E \<and> le_next E \<noteq> ip \<and> st_instrs s (le_data E) = Some I \<and> instr_is I c \<and>
        code_at s k (le_next E) cs fin)"

lemma code_at_append: "code_at s k ip (cs @ ds) fin \<longleftrightarrow> (\<exists>mid. code_at s k ip cs mid \<and> code_at s k mid ds fin)"
  by (induction cs arbitrary: ip) auto

lemma code_at_keeps:
  assumes "vm_keeps k X s s'"
  shows "code_at s k ip cs fin \<Longrightarrow> code_at s' k ip cs fin"
proof (induction cs arbitrary: ip)
  case Nil
  then show ?case by simp
next
  case (Cons c cs)
  obtain es E I where c: "ip \<noteq> 0" "is_list s k es" "ip \<notin> set es" "st_ents s ip = Some E" "le_next E \<noteq> ip"
    "st_instrs s (le_data E) = Some I" "instr_is I c" "code_at s k (le_next E) cs fin"
    using Cons.prems by auto
  have ek: "ents_keep k s s'" using assms unfolding vm_keeps_def by blast
  have e: "st_ents s' ip = Some E" using ents_keepD(3) [OF ek c(2,3)] c(4) by simp
  obtain es' where es': "is_list s' k es'" "set es' \<subseteq> set es \<union> {x. st_ents s x = None}"
    using ents_keepD(2) [OF ek c(2)] by blast
  have "ip \<notin> set es'" using subsetD [OF es'(2), of ip] c(3,4) by auto
  then show ?case
    using c(1,5-7) e es'(1) Cons.IH [OF c(8)] vm_keeps_fields(4) [OF assms] by auto
qed

text \<open>One instruction of the code, run by the machine.\<close>

lemma exec_branch_step:
  assumes "code_at s k ip (c # cs) fin" "\<not> ai_interrupted s"
    and I: "\<And>I E. st_ents s ip = Some E \<Longrightarrow> st_instrs s (le_data E) = Some I \<Longrightarrow> instr_is I c \<Longrightarrow>
       exec_instr (call_bound ext n) s ctx (le_next E) I = Some (le_next E, s')"
  shows "\<exists>nxt. code_at s k nxt cs fin \<and> (\<forall>E. st_ents s ip = Some E \<longrightarrow> nxt = le_next E) \<and>
     exec_branch ext (Suc n) s ctx ip = exec_branch ext n s' ctx nxt"
proof -
  obtain E J where c: "ip \<noteq> 0" "st_ents s ip = Some E" "le_next E \<noteq> ip" "st_instrs s (le_data E) = Some J"
    "instr_is J c" "code_at s k (le_next E) cs fin"
    using assms(1) by auto
  show ?thesis
    using c assms(2) I [OF c(2,4,5)] by (intro exI [of _ "le_next E"]) (simp add: exec_step_def)
qed

text \<open>The value of an expression does not depend on what running code changes.\<close>

lemma list_some_map: "list_some (map f es) = Some ds \<longleftrightarrow> list_all2 (\<lambda>e d. f e = Some d) es ds"
  by (induction es arbitrary: ds) (auto simp: Option.bind_eq_Some_conv list_all2_Cons1)

lemma function_of_mono:
  assumes "\<And>x F. st_funs s x = Some F \<Longrightarrow> st_funs s' x = Some F"
  shows "function_of s fn = Some g \<Longrightarrow> function_of s' fn = Some g"
  using assms by (auto simp: function_of_def split: option.splits)

lemma eval_mono:
  assumes "\<And>x V. st_vals s x = Some V \<Longrightarrow> st_vals s' x = Some V"
    "\<And>x F. st_funs s x = Some F \<Longrightarrow> st_funs s' x = Some F" "st_syms s' = st_syms s"
  shows "eval s e = Some d \<Longrightarrow> eval s' e = Some d"
proof (induction e arbitrary: d)
  case (Const v)
  then show ?case using assms(1) by (auto simp: Option.bind_eq_Some_conv split: if_splits)
next
  case (App symb fn es)
  obtain f ds where f: "fn \<noteq> 0" "sym_ok s symb" "length es < 2147483648" "function_of s fn = Some f"
    "list_all2 (\<lambda>e d. eval s e = Some d) es ds" "arith_value f ds = Some d"
    using App.prems by (auto simp: Option.bind_eq_Some_conv list_some_map split: if_splits)
  have "list_all2 (\<lambda>e d. eval s' e = Some d) es ds"
    using f(5) App.IH by (auto simp: list_all2_conv_all_nth)
  then have "list_some (map (eval s') es) = Some ds" by (simp add: list_some_map)
  moreover have "function_of s' fn = Some f" by (rule function_of_mono [OF assms(2) f(4)])
  ultimately show ?case using f assms(3) by (simp add: sym_ok_def)
qed

lemma eval_keeps: "vm_keeps k X s s' \<Longrightarrow> eval s e = Some d \<Longrightarrow> eval s' e = Some d"
  by (rule eval_mono [of s s']) (use vm_keeps_vals [of k X s s'] vm_keeps_fields(1,2) [of k X s s'] in simp_all)

lemma eval_const: "eval s (Const v) = Some d \<Longrightarrow> number_at s v d"
  by (auto simp: number_at_def Option.bind_eq_Some_conv split: if_splits va_union.splits)

text \<open>\<open>computes\<close>: running the code \<open>cs\<close> before \<open>rst\<close> pushes numbers.\<close>

definition computes ::
    "akl_state \<Rightarrow> addr \<Rightarrow> addr \<Rightarrow> addr list \<Rightarrow> addr \<Rightarrow> nat \<Rightarrow> code_op list \<Rightarrow> addr \<Rightarrow> double list \<Rightarrow> bool" where
  "computes s ctx k vs ip len rst fin ds \<longleftrightarrow>
     (\<exists>ps s' mid. numbers_at s' ps ds \<and> runs s' ctx k (vs @ ps) \<and> vm_keeps k {} s s' \<and> code_at s' k mid rst fin \<and>
        (\<forall>ext n. exec_branch ext (len + Suc n) s ctx ip = exec_branch ext (Suc n) s' ctx mid))"

lemma computes_push:
  assumes "runs s ctx k vs" "\<not> ai_interrupted s" "code_at s k ip (C_push v # rst) fin" "number_at s v d"
  shows "computes s ctx k vs ip 1 rst fin [d]"
proof -
  obtain E I where c: "st_ents s ip = Some E" "st_instrs s (le_data E) = Some I" "instr_is I (C_push v)"
    using assms(3) by auto
  have v: "v \<noteq> 0" "st_vals s v \<noteq> None" using assms(4) by (auto simp: number_at_def)
  obtain s' where s': "exec_push s ctx (le_next E) I = Some (le_next E, s')" "runs s' ctx k (vs @ [v])" "vm_keeps k {} s s'"
    using exec_push_ok [OF assms(1) _ v, of I "le_next E"] c(3) by (auto simp: instr_is_def)
  have run: "exec_branch ext (Suc (Suc n)) s ctx ip = exec_branch ext (Suc n) s' ctx (le_next E)" for ext n
    using exec_branch_step [OF assms(3,2), of ext "Suc n" ctx s'] c s'(1) by (auto simp: exec_instr_def instr_is_def)
  have "code_at s k (le_next E) rst fin" using assms(3) c(1) by auto
  then have "code_at s' k (le_next E) rst fin" by (rule code_at_keeps [OF s'(3)])
  then show ?thesis
    unfolding computes_def using s'(2,3) run number_at_keeps [OF s'(3) assms(4)]
    by (intro exI [of _ "[v]"] exI [of _ s'] exI [of _ "le_next E"]) simp
qed

lemma computes_call:
  assumes "runs s ctx k (vs @ ps)" "\<not> ai_interrupted s" "code_at s k ip (C_call symb fn (length ps) # rst) fin"
    "numbers_at s ps ds" "length ps < 2147483648" "fn \<noteq> 0" "sym_ok s symb" "function_of s fn = Some f"
    "arith_value f ds = Some d"
  shows "computes s ctx k vs ip 1 rst fin [d]"
proof -
  obtain E I where c: "st_ents s ip = Some E" "st_instrs s (le_data E) = Some I" "instr_is I (C_call symb fn (length ps))"
    using assms(3) by auto
  obtain F where F: "st_funs s fn = Some F" "fn_type F = FUNC_CFUN" "fn_body F = B_cfun f"
    using assms(8) by (auto simp: function_of_def split: option.splits if_splits fn_body.splits)
  have I: "in_op I = IR_CALL" "in_arg0 I = A_symbol symb" "in_arg1 I = A_num (of_nat (length ps))" "in_fun I = fn"
    using c(3) by (simp_all add: instr_is_def)
  obtain p s' where s': "\<And>ext n. exec_call (call_bound ext (Suc n)) s ctx I = Some s'" "number_at s' p d"
    "runs s' ctx k (vs @ [p])" "vm_keeps k {} s s'"
    using exec_call_ok [OF assms(1,4,5) I(2-4) assms(6,7) F assms(9)] by blast
  have run: "exec_branch ext (Suc (Suc n)) s ctx ip = exec_branch ext (Suc n) s' ctx (le_next E)" for ext n
    using exec_branch_step [OF assms(3,2), of ext "Suc n" ctx s'] c s'(1) I(1)
    by (auto simp: exec_instr_def simp del: call_bound.simps)
  have "code_at s k (le_next E) rst fin" using assms(3) c(1) by auto
  then have "code_at s' k (le_next E) rst fin" by (rule code_at_keeps [OF s'(4)])
  then show ?thesis
    unfolding computes_def using s'(2-4) run
    by (intro exI [of _ "[p]"] exI [of _ s'] exI [of _ "le_next E"]) simp
qed

lemma computes_trans:
  assumes 1: "computes s ctx k vs ip m (cs @ rst) fin ds1"
    and 2: "\<And>s' ps mid. runs s' ctx k (vs @ ps) \<Longrightarrow> numbers_at s' ps ds1 \<Longrightarrow> vm_keeps k {} s s' \<Longrightarrow>
      code_at s' k mid (cs @ rst) fin \<Longrightarrow> computes s' ctx (k::addr) (vs @ ps) mid n rst fin ds2"
  shows "computes s ctx k vs ip (m + n) rst fin (ds1 @ ds2)"
proof -
  obtain ps s1 mid where s1: "numbers_at s1 ps ds1" "runs s1 ctx k (vs @ ps)" "vm_keeps k {} s s1"
    "code_at s1 k mid (cs @ rst) fin"
    "\<And>ext n. exec_branch ext (m + Suc n) s ctx ip = exec_branch ext (Suc n) s1 ctx mid"
    using 1 unfolding computes_def by blast
  obtain qs s2 mid2 where s2: "numbers_at s2 qs ds2" "runs s2 ctx k ((vs @ ps) @ qs)" "vm_keeps k {} s1 s2"
    "code_at s2 k mid2 rst fin"
    "\<And>ext m. exec_branch ext (n + Suc m) s1 ctx mid = exec_branch ext (Suc m) s2 ctx mid2"
    using 2 [OF s1(2,1,3,4)] unfolding computes_def by blast
  have "numbers_at s2 ps ds1" by (rule numbers_at_cong [OF number_at_keeps [OF s2(3)] s1(1)])
  then have "numbers_at s2 (ps @ qs) (ds1 @ ds2)" using s2(1) by (auto simp: numbers_at_append)
  moreover have "exec_branch ext (m + n + Suc j) s ctx ip = exec_branch ext (Suc j) s2 ctx mid2" for ext j
    using s1(5) [of ext "n + j"] s2(5) [of ext j] by (simp add: add.assoc)
  ultimately show ?thesis
    unfolding computes_def using s2(2,4) vm_keeps_trans [OF s1(3) s2(3)]
    by (intro exI [of _ "ps @ qs"] exI [of _ s2] exI [of _ mid2]) simp
qed

lemma computes_nil: "runs s ctx k vs \<Longrightarrow> code_at s k ip rst fin \<Longrightarrow> computes s ctx k vs ip 0 rst fin []"
proof -
  assume r: "runs s ctx k vs" "code_at s k ip rst fin"
  have "vm_keeps k {} s s" by (rule vm_keeps_heap [where n = "st_next s" and vs = "st_vals s" and cs = "st_ctxs s"])
      (use ctx_id in simp_all)
  then show ?thesis unfolding computes_def using r by (intro exI [of _ "[]"] exI [of _ s] exI [of _ ip]) simp
qed

text \<open>Expressions one after the other.\<close>

lemma computes_list:
  assumes one: "\<And>e s d vs ip rst. e \<in> set es \<Longrightarrow> eval s e = Some d \<Longrightarrow> runs s ctx k vs \<Longrightarrow> \<not> ai_interrupted s \<Longrightarrow>
      code_at s k ip (code_of e @ rst) fin \<Longrightarrow> computes s ctx k vs ip (length (code_of e)) rst fin [d]"
  shows "list_all2 (\<lambda>e d. eval s e = Some d) es ds \<Longrightarrow> runs s ctx k vs \<Longrightarrow> \<not> ai_interrupted s \<Longrightarrow>
    code_at s k ip (concat (map code_of es) @ rst) fin \<Longrightarrow>
    computes s ctx k vs ip (length (concat (map code_of es))) rst fin ds"
  using one
proof (induction es arbitrary: ds s vs ip)
  case Nil
  then show ?case using computes_nil [of s ctx k vs ip rst fin] by simp
next
  case (Cons e es)
  obtain d ds1 where ds: "ds = d # ds1" "eval s e = Some d" "list_all2 (\<lambda>e d. eval s e = Some d) es ds1"
    using Cons.prems(1) by (auto simp: list_all2_Cons1)
  have "computes s ctx k vs ip (length (code_of e)) (concat (map code_of es) @ rst) fin [d]"
    by (rule Cons.prems(5)) (use Cons.prems(2-4) ds in auto)
  then have "computes s ctx k vs ip (length (code_of e) + length (concat (map code_of es))) rst fin ([d] @ ds1)"
  proof (rule computes_trans)
    fix s' ps mid
    assume s': "runs s' ctx k (vs @ ps)" "vm_keeps k {} s s'" "code_at s' k mid (concat (map code_of es) @ rst) fin"
    have a: "list_all2 (\<lambda>e d. eval s' e = Some d) es ds1"
      using ds(3) eval_keeps [OF s'(2)] by (rule list_all2_mono)
    have i: "\<not> ai_interrupted s'" using Cons.prems(3) vm_keeps_fields(9) [OF s'(2)] by simp
    show "computes s' ctx k (vs @ ps) mid (length (concat (map code_of es))) rst fin ds1"
      by (rule Cons.IH [OF a s'(1) i s'(3)]) (rule Cons.prems(5), simp)
  qed
  then show ?case using ds(1) by simp
qed

lemma code_computes:
  "eval s e = Some d \<Longrightarrow> runs s ctx k vs \<Longrightarrow> \<not> ai_interrupted s \<Longrightarrow> code_at s k ip (code_of e @ rst) fin \<Longrightarrow>
   computes s ctx k vs ip (length (code_of e)) rst fin [d]"
proof (induction e arbitrary: s d vs ip rst)
  case (Const v)
  then show ?case using computes_push [of s ctx k vs ip v rst fin d] eval_const by simp
next
  case (App symb fn es)
  obtain f ds where f: "fn \<noteq> 0" "sym_ok s symb" "length es < 2147483648" "function_of s fn = Some f"
    "list_all2 (\<lambda>e d. eval s e = Some d) es ds" "arith_value f ds = Some d"
    using App.prems(1) by (auto simp: Option.bind_eq_Some_conv list_some_map split: if_splits)
  let ?n = "length (concat (map code_of es))"
  have 1: "computes s ctx k vs ip ?n (C_call symb fn (length es) # rst) fin ds"
    by (rule computes_list [OF App.IH f(5)]) (use App.prems in auto)
  obtain ps s1 mid where s1: "numbers_at s1 ps ds" "runs s1 ctx k (vs @ ps)" "vm_keeps k {} s s1"
    "code_at s1 k mid (C_call symb fn (length es) # rst) fin"
    "\<And>ext n. exec_branch ext (?n + Suc n) s ctx ip = exec_branch ext (Suc n) s1 ctx mid"
    using 1 unfolding computes_def by blast
  have len: "length ps = length es" using s1(1) f(5) by (auto simp: numbers_at_def dest!: list_all2_lengthD)
  have "computes s1 ctx k vs mid 1 rst fin [d]"
    using computes_call [of s1 ctx k vs ps mid symb fn rst fin ds f d] s1 f len App.prems(3)
      vm_keeps_fields(1,2,9) [OF s1(3)] by (simp add: function_of_def sym_ok_def)
  then obtain qs s2 mid2 where s2: "numbers_at s2 qs [d]" "runs s2 ctx k (vs @ qs)" "vm_keeps k {} s1 s2"
    "code_at s2 k mid2 rst fin"
    "\<And>ext m. exec_branch ext (1 + Suc m) s1 ctx mid = exec_branch ext (Suc m) s2 ctx mid2"
    unfolding computes_def by blast
  have "exec_branch ext (length (code_of (App symb fn es)) + Suc j) s ctx ip = exec_branch ext (Suc j) s2 ctx mid2" for ext j
    using s1(5) [of ext "Suc j"] s2(5) [of ext j] by simp
  then show ?case
    unfolding computes_def using s2(1,2,4) vm_keeps_trans [OF s1(3) s2(3)] by blast
qed

subsection \<open>Properties\<close>

text \<open>
  C9. Calling \<open>+\<close>, \<open>-\<close> or \<open>*\<close> on a stack that ends with \<open>n\<close> numbers takes these off and
  leaves one new number in their place, the result of the function on them; \<open>+\<close> and \<open>*\<close>
  combine them from the last to the first. The call returns whatever the fuel, keeps the rest
  of the stack, and reports no error.
\<close>

theorem arithmetic_call_protocol:
  assumes "heap_ok s" "stack_holds s cx (bs @ ps)" "numbers_at s ps ds" "length ps < 2147483648"
    "st_ctxs s cx = Some C" "function_of s (cx_func C) = Some f" "arith_value f ds = Some d"
  shows "\<exists>p s'. (\<forall>ext n. call_bound ext (Suc n) s cx (int (length ps)) = Some (p, s')) \<and> number_at s' p d \<and>
    holds s' (cx_stack C) (bs @ [p]) \<and> heap_ok s' \<and> st_errs s' = st_errs s"
proof -
  obtain F where F: "st_funs s (cx_func C) = Some F" "fn_type F = FUNC_CFUN" "fn_body F = B_cfun f"
    using assms(6) by (auto simp: function_of_def split: option.splits if_splits fn_body.splits)
  show ?thesis using call_arith_bound [OF assms(1-5) refl F assms(7)] vm_keeps_fields(7) by blast
qed

text \<open>A program \<open>(+ 1 2)\<close> in the memory, and the context of a call over a stack with two numbers.\<close>

definition entry_at :: "addr \<Rightarrow> addr \<Rightarrow> addr \<Rightarrow> akl_list_entry" where
  "entry_at prev nxt data = \<lparr>le_gc = AKL_GC_INIT_OBJ GC_LIST_ENTRY, le_next = nxt, le_prev = prev, le_data = data\<rparr>"

definition instr_at :: "akl_ir_op \<Rightarrow> addr \<Rightarrow> operand \<Rightarrow> operand \<Rightarrow> akl_ir_instruction" where
  "instr_at op fn a b = \<lparr>in_op = op, in_fun = fn, in_arg0 = a, in_arg1 = b, in_linfo = None\<rparr>"

definition prog12 :: akl_state where
  "prog12 = state0\<lparr>st_next := 30,
     st_vals := [NIL_ADDR \<mapsto> NIL_VALUE, TRUE_ADDR \<mapsto> TRUE_VALUE,
                 3 \<mapsto> raw_value VT_NUMBER (V_number (dbl_of_int 1)), 4 \<mapsto> raw_value VT_NUMBER (V_number (dbl_of_int 2))],
     st_lists := [5 \<mapsto> empty_list, 20 \<mapsto> empty_list\<lparr>li_head := 21, li_last := 22, li_count := 2\<rparr>],
     st_ctxs := [6 \<mapsto> init_context\<lparr>cx_state := True, cx_stack := 5\<rparr>,
                 7 \<mapsto> init_context\<lparr>cx_state := True, cx_stack := 20, cx_func := 8\<rparr>],
     st_funs := [8 \<mapsto> \<lparr>fn_gc = AKL_GC_INIT_OBJ GC_FUNCTION, fn_type = FUNC_CFUN, fn_body = B_cfun fn_plus\<rparr>],
     st_instrs := [9 \<mapsto> instr_at IR_PUSH 0 (A_value 3) A_none, 10 \<mapsto> instr_at IR_PUSH 0 (A_value 4) A_none,
                   11 \<mapsto> instr_at IR_CALL 8 (A_symbol 0) (A_num 2)],
     st_ents := [12 \<mapsto> entry_at 0 13 9, 13 \<mapsto> entry_at 12 14 10, 14 \<mapsto> entry_at 13 0 11,
                 21 \<mapsto> entry_at 0 22 3, 22 \<mapsto> entry_at 21 0 4]\<rparr>"

lemma prog12_ok: "heap_ok prog12"
  by (auto simp: heap_ok_def heap_live_def prog12_def state0_def NIL_ADDR_def TRUE_ADDR_def split: if_splits)

lemma prog12_stack: "stack_holds prog12 7 ([] @ [3, 4])"
proof -
  have l: "is_list prog12 20 [21, 22]"
    by (simp add: is_list_def chain_def prog12_def entry_at_def first0_def last0_def)
  have "[] @ [3, 4] = map (edata prog12) [21, 22]" by (simp add: edata_def prog12_def entry_at_def)
  then have "holds prog12 20 ([] @ [3, 4])" using l unfolding holds_def by blast
  then show ?thesis by (simp add: stack_holds_def prog12_def init_context_def)
qed

lemma prog12_numbers: "numbers_at prog12 [3, 4] [dbl_of_int 1, dbl_of_int 2]"
  by (simp add: number_at_def prog12_def raw_value_def NIL_ADDR_def TRUE_ADDR_def)

theorem arithmetic_call_protocol_witness:
  "\<exists>p s'. call_bound (\<lambda>f s cx n. None) 1 prog12 7 2 = Some (p, s') \<and>
    number_at s' p (dbl_add (dbl_add (dbl_of_int 0) (dbl_of_int 2)) (dbl_of_int 1)) \<and> holds s' 20 [p]"
proof -
  have c: "st_ctxs prog12 7 = Some (init_context\<lparr>cx_state := True, cx_stack := 20, cx_func := 8\<rparr>)"
    by (simp add: prog12_def)
  have f: "function_of prog12 (cx_func (init_context\<lparr>cx_state := True, cx_stack := 20, cx_func := 8\<rparr>)) = Some fn_plus"
    by (simp add: function_of_def prog12_def)
  obtain p s' where p: "\<forall>ext n. call_bound ext (Suc n) prog12 7 (int (length [3, 4::addr])) = Some (p, s')"
    "number_at s' p (dbl_add (dbl_add (dbl_of_int 0) (dbl_of_int 2)) (dbl_of_int 1))"
    "holds s' (cx_stack (init_context\<lparr>cx_state := True, cx_stack := 20, cx_func := 8\<rparr>)) ([] @ [p])"
    using arithmetic_call_protocol [OF prog12_ok prog12_stack prog12_numbers _ c f, of
        "dbl_add (dbl_add (dbl_of_int 0) (dbl_of_int 2)) (dbl_of_int 1)"] by auto
  have "call_bound (\<lambda>f s cx n. None) (Suc 0) prog12 7 (int (length [3, 4::addr])) = Some (p, s')"
    using p(1) by blast
  then show ?thesis using p(2,3) by (auto simp del: call_bound.simps)
qed

text \<open>
  C8. The machine computes the value of arithmetic expressions. Running the code of an
  expression whose functions are \<open>+\<close>, \<open>-\<close> and \<open>*\<close>, nested to any depth, from any stack,
  pushes exactly one number, the value of the expression, and goes on behind the code. As many
  iterations as the code has instructions are enough, for every amount of fuel left over.
\<close>

theorem machine_computes_expressions:
  assumes "eval s e = Some d" "runs s ctx k vs" "\<not> ai_interrupted s" "code_at s k ip (code_of e) fin"
  shows "\<exists>p s'. number_at s' p d \<and> runs s' ctx k (vs @ [p]) \<and> st_errs s' = st_errs s \<and>
    (\<forall>ext n. exec_branch ext (length (code_of e) + Suc n) s ctx ip = exec_branch ext (Suc n) s' ctx fin)"
proof -
  obtain ps s' mid where r: "numbers_at s' ps [d]" "runs s' ctx k (vs @ ps)" "vm_keeps k {} s s'" "code_at s' k mid [] fin"
    "\<And>ext n. exec_branch ext (length (code_of e) + Suc n) s ctx ip = exec_branch ext (Suc n) s' ctx mid"
    using code_computes [OF assms(1-3), of ip "[]" fin] assms(4) unfolding computes_def by auto
  obtain p where "ps = [p]" "number_at s' p d" using r(1) by (auto simp: numbers_at_def list_all2_Cons2)
  then show ?thesis using r(2,4,5) vm_keeps_fields(7) [OF r(3)] by auto
qed

definition sum12 :: aexp where
  "sum12 = App 0 8 [Const 3, Const 4]"

lemma prog12_runs: "runs prog12 6 5 []"
proof -
  have "is_list prog12 5 []" by (simp add: is_list_def chain_def prog12_def empty_list_def)
  then have "holds prog12 5 []" unfolding holds_def by fastforce
  then show ?thesis using prog12_ok by (simp add: runs_def prog12_def init_context_def)
qed

lemma prog12_code: "code_at prog12 5 12 (code_of sum12) 0"
proof -
  have "is_list prog12 5 []" by (simp add: is_list_def chain_def prog12_def empty_list_def)
  then have "\<exists>es. is_list prog12 5 es \<and> ip \<notin> set es" for ip by fastforce
  then show ?thesis by (simp add: sum12_def) (simp add: prog12_def entry_at_def instr_at_def instr_is_def)
qed

theorem machine_computes_expressions_witness:
  "\<exists>p s'. number_at s' p (dbl_add (dbl_add (dbl_of_int 0) (dbl_of_int 2)) (dbl_of_int 1)) \<and> runs s' 6 5 [p] \<and>
    exec_branch (\<lambda>f s cx n. None) 4 prog12 6 12 = Some s'"
proof -
  have e: "eval prog12 sum12 = Some (dbl_add (dbl_add (dbl_of_int 0) (dbl_of_int 2)) (dbl_of_int 1))"
    by (simp add: sum12_def prog12_def raw_value_def NIL_ADDR_def TRUE_ADDR_def sym_ok_def function_of_def)
  have i: "\<not> ai_interrupted prog12" by (simp add: prog12_def state0_def)
  obtain p s' where "number_at s' p (dbl_add (dbl_add (dbl_of_int 0) (dbl_of_int 2)) (dbl_of_int 1))"
    "runs s' 6 5 ([] @ [p])"
    "\<forall>ext n. exec_branch ext (length (code_of sum12) + Suc n) prog12 6 12 = exec_branch ext (Suc n) s' 6 0"
    using machine_computes_expressions [OF e prog12_runs i prog12_code] by blast
  moreover have "length (code_of sum12) + Suc 0 = 4" by (simp add: sum12_def)
  ultimately show ?thesis by (metis append_Nil exec_branch.simps(2))
qed

text \<open>
  The result of a program does not depend on the fuel: two executions from the same state
  that both end, end in the same state.
\<close>

theorem machine_result_unique:
  assumes "exec_branch ext n s ctx ip = Some a" "exec_branch ext m s ctx ip = Some b"
  shows "a = b"
proof (cases "n \<le> m")
  case True
  then show ?thesis using le_optD [OF fuel_mono(1) [OF True] assms(1)] assms(2) by simp
next
  case False
  then have "m \<le> n" by simp
  then show ?thesis using le_optD [OF fuel_mono(1) assms(2)] assms(1) by simp
qed

text \<open>The state after the program \<open>(+ 1 2)\<close>, whatever the fuel.\<close>

definition run12 :: "nat \<Rightarrow> akl_state" where
  "run12 n = the (exec_branch (\<lambda>f s cx n. None) n prog12 6 12)"

lemma run12_ok: "exec_branch (\<lambda>f s cx n. None) (4 + k) prog12 6 12 = Some (run12 (4 + k))"
proof -
  have e: "\<exists>d. eval prog12 sum12 = Some d"
    by (simp add: sum12_def prog12_def raw_value_def NIL_ADDR_def TRUE_ADDR_def sym_ok_def function_of_def)
  have i: "\<not> ai_interrupted prog12" by (simp add: prog12_def state0_def)
  obtain ps s' mid where r: "code_at s' 5 mid [] 0"
    "\<And>ext n. exec_branch ext (length (code_of sum12) + Suc n) prog12 6 12 = exec_branch ext (Suc n) s' 6 mid"
    using code_computes [OF _ prog12_runs i, of sum12 _ 12 "[]" 0] prog12_code e unfolding computes_def by auto
  have "length (code_of sum12) = 3" by (simp add: sum12_def)
  then have "exec_branch (\<lambda>f s cx n. None) (4 + k) prog12 6 12 = Some s'"
    using r(1) r(2) [of "\<lambda>f s cx n. None" k] by simp
  then show ?thesis by (simp add: run12_def)
qed

theorem machine_result_unique_witness: "run12 4 = run12 9"
  using machine_result_unique [OF run12_ok [of 0] run12_ok [of 5]] by simp

text \<open>
  C18. An interruption stops the machine. When the flag is set, execution from any entry ends
  at once, whatever the code there is: no instruction is run, and the warning is reported
  (unless there is one like it).
\<close>

theorem interruption_stops:
  assumes "ai_interrupted s" "reports_ok s" "st_ctxs s ctx = Some C" "cx_state C" "ip \<noteq> 0"
  shows "\<exists>s'. (\<forall>ext n. exec_branch ext (Suc (Suc n)) s ctx ip = Some s') \<and>
    (\<exists>e\<in>set (reports s'). err_type e = ALERT_WARNING \<and> err_msg e = ''Program interruption.'') \<and>
    set (reports s) \<subseteq> set (reports s')"
proof -
  obtain s' where s': "akl_raise_error s ctx ALERT_WARNING ''Program interruption.'' = Some s'"
    "reports s' = (if \<exists>e\<in>set (reports s). same_report (cx_lex_info C) ALERT_WARNING ''Program interruption.'' e
       then reports s else reports s @ [\<lparr>err_info = cx_lex_info C, err_type = ALERT_WARNING, err_msg = ''Program interruption.''\<rparr>])"
    using raise_error_ok [OF assms(2-4)] by blast
  have "exec_branch ext (Suc (Suc n)) s ctx ip = Some s'" for ext n
    using assms(1,5) s'(1) by (simp add: exec_step_def)
  moreover have "\<exists>e\<in>set (reports s'). err_type e = ALERT_WARNING \<and> err_msg e = ''Program interruption.''"
    unfolding s'(2) by (auto simp: same_report_def)
  ultimately show ?thesis using s'(2) by auto
qed

definition stopped3 :: akl_state where
  "stopped3 = stack3\<lparr>ai_interrupted := True\<rparr>"

theorem interruption_stops_witness:
  "\<exists>s'. exec_branch (\<lambda>f s cx n. None) 2 stopped3 6 1 = Some s' \<and>
    (\<exists>e. e \<in> set (reports s') \<and> err_type e = ALERT_WARNING)"
proof -
  have l: "heap_live stopped3 = heap_live stack3" by (simp add: heap_live_def stopped3_def)
  have "reports_ok stopped3"
    using stack3_ok l by (simp add: reports_ok_def heap_ok_def stopped3_def is_list_def chain_def edata_def)
  moreover have "st_ctxs stopped3 6 = Some (init_context\<lparr>cx_state := True, cx_stack := 3, cx_lex_info := Some named_pos\<rparr>)"
    "ai_interrupted stopped3" by (simp_all add: stopped3_def stack3_def)
  ultimately obtain s' where s': "\<forall>ext n. exec_branch ext (Suc (Suc n)) stopped3 6 1 = Some s'"
    "\<exists>e\<in>set (reports s'). err_type e = ALERT_WARNING \<and> err_msg e = ''Program interruption.''"
    using interruption_stops [of stopped3 6 _ 1] by force
  then have "exec_branch (\<lambda>f s cx n. None) (Suc (Suc 0)) stopped3 6 1 = Some s'" by blast
  then show ?thesis using s'(2) by (auto simp: numeral_2_eq_2 simp del: exec_branch.simps)
qed

end
