(* ===== verification/Functions.thy ===== *)
theory Functions
  imports Calls
begin

text \<open>
  What functions of the library do on their frames: comparison, the answer to a wrong number of
  arguments, division by zero, the predicates on types, \<open>split\<close>, and \<open>akl-cfg!\<close>.
\<close>

subsection \<open>Comparison\<close>

lemma compare_number_values:
  assumes "number_at s p d1" "number_at s q d2" "to_c_long d1 = Some i" "to_c_long d2 = Some j"
  shows "akl_compare_values s p q = Some (compare_numbers i j)"
proof -
  obtain n where n: "text_fuel s = Suc n" by (simp add: text_fuel_def)
  show ?thesis using assms by (auto simp: akl_compare_values_def n number_at_def)
qed

lemma get_and_compare_numbers:
  assumes "heap_ok s" "in_frame s cx bs [p, q] as" "number_at s p d1" "number_at s q d2"
    "to_c_long d1 = Some i" "to_c_long d2 = Some j"
  shows "\<exists>s'. get_and_compare_values s cx = Some (compare_numbers i j, s') \<and> in_frame s' cx bs [] as \<and>
    stack_op cx s s' \<and> heap_ok s'"
proof -
  have "0 \<notin> set [p, q]" using assms(3,4) by (auto simp: number_at_def)
  then obtain s' where s': "akl_get_args s cx (length [p, q]) = Some (Some [p, q], s')" "in_frame s' cx bs [] as"
    "stack_op cx s s'" "heap_ok s'"
    by (rule get_args_ok [OF assms(1,2)])
  have "number_at s' p d1" "number_at s' q d2"
    using assms(3,4) number_at_vals [OF stack_op_fields(1) [OF s'(3)]] by simp_all
  from compare_number_values [OF this assms(5,6)] show ?thesis
    using s' by (auto simp: get_and_compare_values_def numeral_2_eq_2)
qed

lemma compare_numbers_iff:
  "compare_numbers i j = 0 \<longleftrightarrow> i = j" "compare_numbers i j > 0 \<longleftrightarrow> i > j" "compare_numbers i j < 0 \<longleftrightarrow> i < j"
  "compare_numbers i j \<ge> 0 \<longleftrightarrow> i \<ge> j" "compare_numbers i j \<le> 0 \<longleftrightarrow> i \<le> j"
  by (auto simp: compare_numbers_def)

subsection \<open>A wrong number of arguments\<close>

text \<open>\<open>akl_get_args\<close> reports the error and leaves the frame alone.\<close>

lemma get_args_wrong_count:
  assumes "reports_ok s" "in_frame s cx bs xs as" "st_ctxs s cx = Some C" "n \<noteq> length xs" "n < 4294967296"
  shows "\<exists>s'. akl_get_args s cx n = Some (None, s') \<and>
    akl_raise_error s cx ALERT_ERROR (expected_args (cx_func_name C) (int n) (of_nat (length xs))) = Some s'"
proof -
  have c: "akl_frame_get_count s cx = Some (of_nat (length xs))" "length xs < 4294967296" "cx_state C"
    using in_frame_count [OF assms(2)] in_frame_ctx [OF assms(2)] assms(3) by auto
  have "(of_nat n :: u32) \<noteq> of_nat (length xs)" using of_nat_u32_inj [of n "length xs"] assms(4,5) c(2) by simp
  moreover obtain s' where
    "akl_raise_error s cx ALERT_ERROR (expected_args (cx_func_name C) (int n) (of_nat (length xs))) = Some s'"
    using raise_error_ok [OF assms(1,3) c(3)] by blast
  ultimately show ?thesis using c assms(3) by (simp add: akl_get_args_def)
qed

subsection \<open>Division\<close>

lemma shift_number_value:
  assumes "heap_ok s" "in_frame s cx bs (p # ps) as" "number_at s p d"
  obtains s1 where "akl_frame_shift_number s cx = Some (Some d, s1)" "in_frame s1 cx bs ps as" "stack_op cx s s1" "heap_ok s1"
proof -
  obtain s1 where s1: "akl_frame_shift s cx = Some (p, s1)" "in_frame s1 cx bs ps as" "stack_op cx s s1" "heap_ok s1"
    "number_at s1 p d"
    by (rule shift_number_ok [OF assms])
  then have "akl_frame_shift_number s cx = Some (Some d, s1)"
    using is_type_number [OF s1(5)] by (auto simp: akl_frame_shift_number_def number_at_def)
  then show thesis using that s1 by blast
qed

lemma shift_number_none: "in_frame s cx bs [] as \<Longrightarrow> akl_frame_shift_number s cx = Some (None, s)"
  by (simp add: akl_frame_shift_number_def shift_none is_type_def)

text \<open>The reports are not on the stack, so taking values from a frame keeps them.\<close>

definition reports_apart :: "akl_state \<Rightarrow> addr \<Rightarrow> bool" where
  "reports_apart s cx \<longleftrightarrow>
     (\<exists>C. st_ctxs s cx = Some C \<and> cx_state C \<and> (\<exists>fs. is_list s (cx_stack C) fs \<and>
        (ai_errors s \<noteq> 0 \<longrightarrow> ai_errors s \<noteq> cx_stack C \<and> ai_errors s \<noteq> cx_frame C \<and>
           (\<forall>es. is_list s (ai_errors s) es \<longrightarrow> set es \<inter> set fs = {}))))"

lemma reports_stack_op:
  assumes op: "stack_op cx s s'" and ok: "reports_ok s" "heap_ok s'" and ap: "reports_apart s cx"
  shows "reports_ok s' \<and> reports s' = reports s"
proof (cases "ai_errors s = 0")
  case True
  then show ?thesis using ok stack_op_fields(9) [OF op] by (simp add: reports_ok_def reports_def)
next
  case False
  obtain es where es: "is_list s (ai_errors s) es" "\<forall>e\<in>set es. edata s e \<noteq> 0 \<and> st_errs s (edata s e) \<noteq> None"
    using ok(1) False by (auto simp: reports_ok_def)
  obtain C fs where C: "st_ctxs s cx = Some C" "is_list s (cx_stack C) fs" "ai_errors s \<noteq> cx_stack C"
    "ai_errors s \<noteq> cx_frame C" "set es \<inter> set fs = {}"
    using ap False es(1) unfolding reports_apart_def by blast
  have e: "st_ents s' x = st_ents s x" if "x \<in> set es" for x
    using stack_opD(3) [OF op C(1,2), of x] C(5) that by blast
  have "dll (st_ents s') 0 es 0 \<longleftrightarrow> dll (st_ents s) 0 es 0" by (rule dll_cong) (rule e)
  moreover have "st_lists s' (ai_errors s) = st_lists s (ai_errors s)" by (rule stack_opD(1) [OF op C(1,3,4)])
  ultimately have l: "is_list s' (ai_errors s') es"
    using es(1) stack_op_fields(9) [OF op] by (simp add: is_list_def chain_def)
  have d: "edata s' x = edata s x" if "x \<in> set es" for x using e [OF that] by (simp add: edata_def)
  have "reports s' = reports s"
    using reports_holds [OF False es(1)] reports_holds [OF _ l] False d stack_op_fields(8,9) [OF op] by simp
  moreover have "reports_ok s'"
    unfolding reports_ok_def using ok(2) l es(2) d stack_op_fields(8) [OF op] by auto
  ultimately show ?thesis by blast
qed

text \<open>The truncating quotient of \<open>idiv\<close> for two numbers.\<close>

lemma fn_idiv_two:
  assumes ok: "heap_ok s" and fr: "in_frame s cx bs [p, q] as" and ns: "number_at s p d1" "number_at s q d2"
    and l: "to_c_long d1 = Some i" "to_c_int d2 = Some j" "j \<noteq> 0" "i \<noteq> - (2 ^ 63) \<or> j \<noteq> - 1"
  shows "\<exists>s1. akl_fn_idiv s cx = AKL_NUMBER s1 cx (dbl_of_int (sgn i * sgn j * (\<bar>i\<bar> div \<bar>j\<bar>))) \<and>
    in_frame s1 cx bs [] as \<and> stack_op cx s s1 \<and> heap_ok s1"
proof -
  obtain s1 where s1: "akl_frame_shift_number s cx = Some (Some d1, s1)" "in_frame s1 cx bs [q] as" "stack_op cx s s1" "heap_ok s1"
    by (rule shift_number_value [OF ok fr ns(1)])
  have q: "number_at s1 q d2" using ns(2) number_at_vals [OF stack_op_fields(1) [OF s1(3)]] by simp
  obtain s2 where s2: "akl_frame_shift_number s1 cx = Some (Some d2, s2)" "in_frame s2 cx bs [] as" "stack_op cx s1 s2" "heap_ok s2"
    by (rule shift_number_value [OF s1(4,2) q])
  have lj: "to_c_long d2 = Some j"
    using l(2) by (auto simp: to_c_int_def to_c_long_def dbl_to_int_def split: option.splits if_splits)
  have "c_div 64 i j = Some (sgn i * sgn j * (\<bar>i\<bar> div \<bar>j\<bar>))" using l(3,4) by (auto simp: c_div_def)
  then have "idiv_loop s1 cx i = AKL_NUMBER s2 cx (dbl_of_int (sgn i * sgn j * (\<bar>i\<bar> div \<bar>j\<bar>)))"
    using s2(1,2) lj l(2,3)
    by (subst idiv_loop.simps, simp) (subst idiv_loop.simps, simp add: shift_number_none)
  then show ?thesis
    using s1(1) l(1) s2 stack_op_trans [OF s1(3) s2(3)] by (auto simp: akl_fn_idiv_def)
qed

subsection \<open>Types\<close>

text \<open>The predicates take the last value of the frame.\<close>

definition well_typed :: "akl_value \<Rightarrow> bool" where
  "well_typed V \<longleftrightarrow> (case va_type V of
      VT_NUMBER \<Rightarrow> (\<exists>d. va_value V = V_number d)
    | VT_STRING \<Rightarrow> (\<exists>t. va_value V = V_string (Some t))
    | VT_NIL \<Rightarrow> va_nil V
    | _ \<Rightarrow> True) \<and> (va_nil V \<longrightarrow> va_type V = VT_NIL)"

lemma predicate_values:
  assumes "heap_ok s" "in_frame s cx bs (xs @ [p]) as" "p \<noteq> 0" "st_vals s p = Some V" "well_typed V"
  shows "\<exists>s'. akl_fn_isnumber s cx = Some (AKL_BOOL (va_type V = VT_NUMBER), s') \<and>
    akl_fn_isstring s cx = Some (AKL_BOOL (va_type V = VT_STRING), s') \<and>
    akl_fn_islist s cx = Some (AKL_BOOL (va_type V = VT_LIST \<or> va_type V = VT_NIL), s') \<and>
    akl_fn_issymbol s cx = Some (AKL_BOOL (va_type V = VT_SYMBOL), s') \<and>
    akl_fn_isnil s cx = Some (AKL_BOOL (va_type V = VT_NIL), s') \<and>
    akl_fn_not s cx = Some (AKL_BOOL (va_type V = VT_NIL), s') \<and> in_frame s' cx bs xs as \<and> stack_op cx s s' \<and> heap_ok s'"
proof -
  obtain s' where s': "akl_frame_pop s cx = Some (p, s')" "in_frame s' cx bs xs as" "stack_op cx s s'" "heap_ok s'"
    by (rule pop_value [OF assms(1,2)])
  have V: "st_vals s' p = Some V" using assms(4) stack_op_fields(1) [OF s'(3)] by simp
  have nil: "va_nil V \<longleftrightarrow> va_type V = VT_NIL" using assms(5) by (auto simp: well_typed_def)
  have num: "akl_frame_pop_number s cx = Some (if va_type V = VT_NUMBER then (case va_value V of V_number d \<Rightarrow> Some d | _ \<Rightarrow> None) else None, s')"
    using s'(1) V assms(3,5) by (auto simp: akl_frame_pop_number_def is_type_def well_typed_def)
  have "akl_fn_isnumber s cx = Some (AKL_BOOL (va_type V = VT_NUMBER), s')"
    using num assms(5) by (auto simp: akl_fn_isnumber_def well_typed_def)
  moreover have "akl_fn_isstring s cx = Some (AKL_BOOL (va_type V = VT_STRING), s')"
    using s'(1) V assms(3,5)
    by (auto simp: akl_fn_isstring_def akl_frame_pop_string_def AKL_GET_STRING_VALUE_def well_typed_def)
  moreover have "akl_fn_islist s cx = Some (AKL_BOOL (va_type V = VT_LIST \<or> va_type V = VT_NIL), s')"
    using s'(1) V assms(3) by (simp add: akl_fn_islist_def is_type_def)
  moreover have "akl_fn_issymbol s cx = Some (AKL_BOOL (va_type V = VT_SYMBOL), s')"
    using s'(1) V assms(3) by (simp add: akl_fn_issymbol_def is_type_def)
  moreover have "akl_fn_isnil s cx = Some (AKL_BOOL (va_type V = VT_NIL), s')"
    using s'(1) V assms(3) nil by (simp add: akl_fn_isnil_def AKL_IS_NIL_def)
  moreover have "akl_fn_not s cx = Some (AKL_BOOL (va_type V = VT_NIL), s')"
    using s'(1) V assms(3) nil by (simp add: akl_fn_not_def AKL_IS_NIL_def)
  ultimately show ?thesis using s' by blast
qed

subsection \<open>Splitting strings\<close>

definition string_at :: "akl_state \<Rightarrow> addr \<Rightarrow> string \<Rightarrow> bool" where
  "string_at s p t \<longleftrightarrow> p \<noteq> 0 \<and> (\<exists>V. st_vals s p = Some V \<and> va_type V = VT_STRING \<and> va_value V = V_string (Some t))"

lemma string_at_keeps: "vm_keeps k X s s' \<Longrightarrow> string_at s p t \<Longrightarrow> string_at s' p t"
  by (auto simp: string_at_def dest: vm_keeps_vals)

lemma string_at_vals: "st_vals s' = st_vals s \<Longrightarrow> string_at s p t \<Longrightarrow> string_at s' p t"
  by (simp add: string_at_def)

text \<open>Appending a new string to a list.\<close>

lemma append_string_ok:
  assumes ok: "heap_ok s" and h: "holds s l xs"
  shows "\<exists>p s1 e s2. akl_new_string_value s (Some t) = (p, s1) \<and> akl_list_append_value s1 l p = Some (e, s2) \<and>
    holds s2 l (xs @ [p]) \<and> string_at s2 p t \<and> heap_ok s2 \<and> vm_keeps l {} s s2"
proof -
  let ?p = "st_next s"
  define s1 where "s1 = s\<lparr>st_next := ?p + 1, st_vals := (st_vals s)(?p \<mapsto> raw_value VT_STRING (V_string (Some t)))\<rparr>"
  have new: "akl_new_string_value s (Some t) = (?p, s1)"
    by (simp add: akl_new_string_value_def new_value_with_def s1_def Let_def)
  have ok1: "heap_ok s1" using new_value_with_ok [OF ok] new unfolding akl_new_string_value_def by blast
  have fr: "st_vals s ?p = None" "?p \<noteq> 0" using heap_ok_fresh [OF ok] ok by (auto simp: heap_live_def heap_ok_def)
  have k1: "vm_keeps l {} s s1"
  proof (rule vm_keeps_heap)
    show "s1 = s\<lparr>st_next := ?p + 1, st_vals := st_vals s1, st_ctxs := st_ctxs s\<rparr>" by (simp add: s1_def)
    show "st_vals s1 x = st_vals s x" if "st_vals s x \<noteq> None" for x using that fr by (auto simp: s1_def)
  qed (use ctx_id in simp_all)
  have "holds s1 l xs" using h holds_cong [of s1 s] by (simp add: s1_def)
  then obtain es where es: "is_list s1 l es" "xs = map (edata s1) es" unfolding holds_def by blast
  obtain s2 where s2: "akl_list_append_value s1 l ?p = Some (st_next s1, s2)" "is_list s2 l (es @ [st_next s1])"
    "edata s2 (st_next s1) = ?p" "list_op (set es) l s1 s2" "heap_ok s2"
    using append_value_ok [OF ok1 es(1)] by blast
  have "st_ents s1 (st_next s1) = None" using heap_ok_fresh [OF ok1] by (auto simp: heap_live_def)
  then have k2: "vm_keeps l {} s1 s2" by (rule push_keeps [OF s2(4) es(1) s2(2)])
  have "xs @ [?p] = map (edata s2) (es @ [st_next s1])" using list_op_data [OF s2(4) es(1)] es(2) s2(3) by simp
  then have "holds s2 l (xs @ [?p])" using s2(2) unfolding holds_def by blast
  moreover have "string_at s1 ?p t" using fr by (simp add: string_at_def s1_def raw_value_def)
  ultimately show ?thesis using new s2(1,5) string_at_keeps [OF k2] vm_keeps_trans [OF k1 k2] by blast
qed

lemma split_loop_ok:
  "heap_ok s \<Longrightarrow> holds s l xs \<Longrightarrow> \<exists>ps s'. split_loop s l ts = Some s' \<and> holds s' l (xs @ ps) \<and>
     list_all2 (string_at s') ps ts \<and> heap_ok s' \<and> vm_keeps l {} s s'"
proof (induction ts arbitrary: s xs)
  case Nil
  have "vm_keeps l {} s s"
    by (rule vm_keeps_heap [where n = "st_next s" and vs = "st_vals s" and cs = "st_ctxs s"]) (use ctx_id in simp_all)
  then show ?case using Nil by (intro exI [of _ "[]"]) simp
next
  case (Cons t ts)
  obtain p s1 e s2 where s2: "akl_new_string_value s (Some t) = (p, s1)" "akl_list_append_value s1 l p = Some (e, s2)"
    "holds s2 l (xs @ [p])" "string_at s2 p t" "heap_ok s2" "vm_keeps l {} s s2"
    using append_string_ok [OF Cons.prems] by blast
  obtain ps s' where s': "split_loop s2 l ts = Some s'" "holds s' l ((xs @ [p]) @ ps)" "list_all2 (string_at s') ps ts"
    "heap_ok s'" "vm_keeps l {} s2 s'"
    using Cons.IH [OF s2(5,3)] by blast
  have "string_at s' p t" by (rule string_at_keeps [OF s'(5) s2(4)])
  then show ?case
    using s2(1,2) s' vm_keeps_trans [OF s2(6) s'(5)] by (intro exI [of _ "p # ps"] exI [of _ s']) simp
qed

lemma new_quoted_list_ok:
  assumes "heap_ok s"
  shows "\<exists>s1. new_quoted_list s = (st_next s, s1) \<and> holds s1 (st_next s) [] \<and> heap_ok s1 \<and>
    st_ctxs s1 = st_ctxs s \<and> st_vals s1 = st_vals s"
proof -
  define s1 where "s1 = s\<lparr>st_next := st_next s + 1, st_lists := (st_lists s)(st_next s \<mapsto> empty_list\<lparr>li_quoted := True\<rparr>)\<rparr>"
  have "heap_live s1 = insert (st_next s) (heap_live s)" by (simp add: heap_live_def s1_def)
  then have "heap_ok s1" using heap_ok_alloc [OF assms, of s1] by (simp add: s1_def)
  moreover have "st_next s \<noteq> 0" using assms by (simp add: heap_ok_def)
  then have "is_list s1 (st_next s) []" by (simp add: is_list_def chain_def s1_def empty_list_def)
  then have "holds s1 (st_next s) []" unfolding holds_def by fastforce
  ultimately show ?thesis by (auto simp: new_quoted_list_def s1_def Let_def)
qed

lemma fn_split_ok:
  assumes ok: "heap_ok s" and fr: "in_frame s cx bs [p, q] as" and ns: "string_at s p t" "string_at s q delim"
  shows "\<exists>v s' V l ps. akl_fn_split s cx = Some (v, s') \<and> st_vals s' v = Some V \<and> va_type V = VT_LIST \<and>
    va_value V = V_list l \<and> holds s' l ps \<and> list_all2 (string_at s') ps (strtok_all delim t []) \<and> heap_ok s'"
proof -
  obtain s1 where s1: "akl_frame_shift s cx = Some (p, s1)" "in_frame s1 cx bs [q] as" "stack_op cx s s1" "heap_ok s1"
    by (rule shift_value [OF ok fr])
  obtain s2 where s2: "akl_frame_shift s1 cx = Some (q, s2)" "in_frame s2 cx bs [] as" "stack_op cx s1 s2" "heap_ok s2"
    by (rule shift_value [OF s1(4,2)])
  have v2: "st_vals s2 = st_vals s" "st_vals s1 = st_vals s"
    using stack_op_fields(1) [OF s1(3)] stack_op_fields(1) [OF s2(3)] by simp_all
  have str: "string_at s2 p t" "string_at s2 q delim" using ns v2 string_at_vals by auto
  obtain l s3 where s3: "new_quoted_list s2 = (l, s3)" "holds s3 l []" "heap_ok s3" "st_ctxs s3 = st_ctxs s2"
    using new_quoted_list_ok [OF s2(4)] by blast
  obtain ps s4 where s4: "split_loop s3 l (strtok_all delim t []) = Some s4" "holds s4 l ([] @ ps)"
    "list_all2 (string_at s4) ps (strtok_all delim t [])" "heap_ok s4" "vm_keeps l {} s3 s4"
    using split_loop_ok [OF s3(3,2)] by blast
  obtain C where C: "st_ctxs s2 cx = Some C" "cx_state C" using in_frame_ctx [OF s2(2)] by blast
  obtain C4 where C4: "st_ctxs s4 cx = Some C4" "cx_state C4"
    using s4(5) C s3(4) unfolding vm_keeps_def ctx_keeps_def by force
  have l0: "l \<noteq> 0" using s4(2) by (auto simp: holds_def is_list_def)
  define v where "v = st_next s4"
  define V where "V = raw_value VT_LIST (V_list l)"
  define s5 where "s5 = s4\<lparr>st_next := v + 1, st_vals := (st_vals s4)(v \<mapsto> V)\<rparr>"
  have new: "akl_new_list_value s4 l = Some (v, s5)"
    using l0 by (simp add: akl_new_list_value_def new_value_with_def s5_def v_def V_def Let_def)
  have ok5: "heap_ok s5"
    using new_value_with_ok [OF s4(4), of V v s5] by (simp add: new_value_with_def s5_def v_def Let_def)
  have fv: "st_vals s4 v = None" using heap_ok_fresh [OF s4(4)] by (auto simp: heap_live_def v_def)
  have "string_at s5 x y" if "string_at s4 x y" for x y
    using that fv by (auto simp: string_at_def s5_def)
  then have "list_all2 (string_at s5) ps (strtok_all delim t [])" using s4(3) by (rule list_all2_mono [rotated])
  moreover have "holds s5 l ps" using s4(2) holds_cong [of s5 s4] by (simp add: s5_def)
  moreover have "akl_fn_split s cx = Some (v, s5)"
    using s1(1) s2(1) str(1,2) ns v2 s3(1) s4(1) C4 new
    by (auto simp: akl_fn_split_def is_type_def AKL_GET_STRING_VALUE_def string_at_def)
  moreover have "st_vals s5 v = Some V" "va_type V = VT_LIST" "va_value V = V_list l"
    by (simp_all add: s5_def V_def raw_value_def)
  ultimately show ?thesis using ok5 by blast
qed

text \<open>Joining words with a delimiter.\<close>

fun join :: "char \<Rightarrow> string list \<Rightarrow> string" where
  "join d [] = []"
| "join d [w] = w"
| "join d (w # ws) = w @ d # join d ws"

lemma strtok_word:
  "set w \<inter> set delim = {} \<Longrightarrow> strtok_all delim (w @ cs) cur = strtok_all delim cs (cur @ w)"
  by (induction w arbitrary: cur) auto

lemma strtok_join:
  assumes "d \<in> set delim" "\<forall>w\<in>set ws. w \<noteq> [] \<and> set w \<inter> set delim = {}"
  shows "strtok_all delim (join d ws) [] = ws"
  using assms
proof (induction d ws rule: join.induct)
  case (2 d w)
  then show ?case using strtok_word [of w delim "[]" "[]"] by simp
next
  case (3 d w w' ws)
  then show ?case using strtok_word [of w delim "d # join d (w' # ws)" "[]"] by simp
qed simp

subsection \<open>A frame of two values\<close>

text \<open>For the examples: a context with the values at 3 and 4 on its stack, which are its frame.\<close>

definition two_args :: "akl_value \<Rightarrow> akl_value \<Rightarrow> akl_state" where
  "two_args V1 V2 = state0\<lparr>st_next := 30,
     st_vals := [NIL_ADDR \<mapsto> NIL_VALUE, TRUE_ADDR \<mapsto> TRUE_VALUE, 3 \<mapsto> V1, 4 \<mapsto> V2],
     st_lists := [20 \<mapsto> empty_list\<lparr>li_head := 21, li_last := 22, li_count := 2\<rparr>,
                  23 \<mapsto> empty_list\<lparr>li_head := 21, li_last := 22, li_count := 2\<rparr>],
     st_ctxs := [7 \<mapsto> init_context\<lparr>cx_state := True, cx_stack := 20, cx_frame := 23, cx_func_name := Some ''f''\<rparr>],
     st_ents := [21 \<mapsto> entry_at 0 22 3, 22 \<mapsto> entry_at 21 0 4]\<rparr>"

lemma two_args_ok: "heap_ok (two_args V1 V2)" "in_frame (two_args V1 V2) 7 [] [3, 4] []"
  "reports_ok (two_args V1 V2)" "reports (two_args V1 V2) = []" "reports_apart (two_args V1 V2) 7"
proof -
  let ?s = "two_args V1 V2"
  show ok: "heap_ok ?s"
    by (auto simp: heap_ok_def heap_live_def two_args_def state0_def NIL_ADDR_def TRUE_ADDR_def split: if_splits)
  have l: "is_list ?s 20 ([] @ [21, 22] @ [])"
    by (simp add: is_list_def chain_def two_args_def entry_at_def first0_def last0_def)
  then have "is_frame ?s 7 [] [21, 22] []"
    by (simp add: is_frame_def) (simp add: two_args_def init_context_def)
  then show "in_frame ?s 7 [] [3, 4] []"
    unfolding in_frame_def
    by (intro exI [of _ "[]"] exI [of _ "[21, 22]"]) (simp add: edata_def two_args_def entry_at_def)
  show "reports_ok ?s" "reports ?s = []" using ok by (simp_all add: reports_ok_def reports_def two_args_def state0_def)
  show "reports_apart ?s 7"
    using l unfolding reports_apart_def by (auto simp: two_args_def init_context_def state0_def)
qed

lemma two_args_vals: "st_vals (two_args V1 V2) 3 = Some V1" "st_vals (two_args V1 V2) 4 = Some V2"
  by (simp_all add: two_args_def NIL_ADDR_def TRUE_ADDR_def)

abbreviation number_value :: "double \<Rightarrow> akl_value" where
  "number_value d \<equiv> raw_value VT_NUMBER (V_number d)"

lemma two_args_numbers:
  "number_at (two_args (number_value d1) (number_value d2)) 3 d1"
  "number_at (two_args (number_value d1) (number_value d2)) 4 d2"
  by (simp_all add: number_at_def two_args_vals raw_value_def)

subsection \<open>Properties\<close>

text \<open>
  C28. The comparison functions compare the integer parts of numbers: on two numbers within the
  range of \<open>long\<close>, each of the six functions answers for the truncated numbers (so 1.5 and 1.25
  are equal) and takes the two arguments off the stack.
\<close>

theorem comparison_truncates:
  assumes "heap_ok s" "in_frame s cx bs [p, q] []" "number_at s p d1" "number_at s q d2"
    "to_c_long d1 = Some i" "to_c_long d2 = Some j"
  shows "\<exists>s'. akl_fn_eq s cx = Some (AKL_BOOL (i = j), s') \<and> akl_fn_neq s cx = Some (AKL_BOOL (i \<noteq> j), s') \<and>
    akl_fn_lt s cx = Some (AKL_BOOL (i < j), s') \<and> akl_fn_gt s cx = Some (AKL_BOOL (i > j), s') \<and>
    akl_fn_lteq s cx = Some (AKL_BOOL (i \<le> j), s') \<and> akl_fn_gteq s cx = Some (AKL_BOOL (i \<ge> j), s') \<and>
    stack_holds s' cx bs \<and> heap_ok s'"
proof -
  obtain s' where s': "get_and_compare_values s cx = Some (compare_numbers i j, s')" "in_frame s' cx bs [] []" "heap_ok s'"
    using get_and_compare_numbers [OF assms] by blast
  show ?thesis
    using s'(1,3) in_frame_stack [OF s'(2)] compare_numbers_iff [of i j]
    by (simp add: akl_fn_eq_def akl_fn_neq_def akl_fn_lt_def akl_fn_gt_def akl_fn_lteq_def akl_fn_gteq_def)
qed

text \<open>1.5 and 1.25 with their 53 bits.\<close>

definition dbl_1_5 :: double where "dbl_1_5 = Fin False (3 * 2 ^ 51) (- 52)"
definition dbl_1_25 :: double where "dbl_1_25 = Fin False (5 * 2 ^ 50) (- 52)"

lemma long_values: "to_c_long dbl_1_5 = Some 1" "to_c_long dbl_1_25 = Some 1" "\<not> dbl_eq dbl_1_5 dbl_1_25"
  by (simp_all add: to_c_long_def dbl_to_int_def dbl_1_5_def dbl_1_25_def signed_mant_def)

theorem comparison_truncates_witness:
  "\<not> dbl_eq dbl_1_5 dbl_1_25 \<and>
   (\<exists>s'. akl_fn_eq (two_args (number_value dbl_1_5) (number_value dbl_1_25)) 7 = Some (TRUE_ADDR, s'))"
  using long_values(3)
    comparison_truncates [OF two_args_ok(1,2) two_args_numbers [of dbl_1_5 dbl_1_25] long_values(1,2)]
  by (auto simp: AKL_BOOL_def)

text \<open>
  C29. Called with a number of arguments other than two, the comparison functions report the
  error, but \<open><\<close>, \<open><=\<close> and \<open>!=\<close> answer true: the failure -2 is taken for "less".
\<close>

theorem wrong_arity_is_less:
  assumes "reports_ok s" "in_frame s cx bs xs []" "st_ctxs s cx = Some C" "length xs \<noteq> 2"
  shows "\<exists>s'. akl_fn_lt s cx = Some (TRUE_ADDR, s') \<and> akl_fn_lteq s cx = Some (TRUE_ADDR, s') \<and>
    akl_fn_neq s cx = Some (TRUE_ADDR, s') \<and> akl_fn_gt s cx = Some (NIL_ADDR, s') \<and>
    akl_fn_gteq s cx = Some (NIL_ADDR, s') \<and> akl_fn_eq s cx = Some (NIL_ADDR, s') \<and>
    (\<exists>e\<in>set (reports s'). err_type e = ALERT_ERROR \<and>
       err_msg e = expected_args (cx_func_name C) 2 (of_nat (length xs)))"
proof -
  obtain s' where s': "akl_get_args s cx 2 = Some (None, s')"
    "akl_raise_error s cx ALERT_ERROR (expected_args (cx_func_name C) (int 2) (of_nat (length xs))) = Some s'"
    using get_args_wrong_count [OF assms(1-3), of 2] assms(4) by auto
  have "cx_state C" using in_frame_ctx [OF assms(2)] assms(3) by auto
  from raise_error_ok [OF assms(1,3) this] s'(2)
  have r: "\<exists>e\<in>set (reports s'). err_type e = ALERT_ERROR \<and>
       err_msg e = expected_args (cx_func_name C) 2 (of_nat (length xs))"
    by (fastforce simp: same_report_def split: if_splits)
  have "get_and_compare_values s cx = Some (- 2, s')" using s'(1) by (simp add: get_and_compare_values_def)
  then show ?thesis
    using r by (simp add: akl_fn_eq_def akl_fn_neq_def akl_fn_lt_def akl_fn_gt_def akl_fn_lteq_def akl_fn_gteq_def AKL_BOOL_def)
qed

text \<open>The context of a call without arguments.\<close>

definition no_args :: akl_state where
  "no_args = state0\<lparr>st_next := 30, st_lists := [20 \<mapsto> empty_list, 23 \<mapsto> empty_list],
     st_ctxs := [7 \<mapsto> init_context\<lparr>cx_state := True, cx_stack := 20, cx_frame := 23, cx_func_name := Some ''<''\<rparr>]\<rparr>"

lemma no_args_ok: "reports_ok no_args" "in_frame no_args 7 [] [] []"
  "st_ctxs no_args 7 = Some (init_context\<lparr>cx_state := True, cx_stack := 20, cx_frame := 23, cx_func_name := Some ''<''\<rparr>)"
proof -
  have "heap_ok no_args"
    by (auto simp: heap_ok_def heap_live_def no_args_def state0_def NIL_ADDR_def TRUE_ADDR_def split: if_splits)
  then show "reports_ok no_args" by (simp add: reports_ok_def no_args_def state0_def)
  have "is_frame no_args 7 [] [] []"
    by (simp add: is_frame_def is_list_def chain_def no_args_def init_context_def empty_list_def)
  then show "in_frame no_args 7 [] [] []" unfolding in_frame_def by fastforce
  show "st_ctxs no_args 7 = Some (init_context\<lparr>cx_state := True, cx_stack := 20, cx_frame := 23, cx_func_name := Some ''<''\<rparr>)"
    by (simp add: no_args_def)
qed

theorem wrong_arity_is_less_witness:
  "\<exists>s'. akl_fn_lt no_args 7 = Some (TRUE_ADDR, s') \<and>
    (\<exists>e. e \<in> set (reports s') \<and> err_msg e = ''<: Expected 2 arguments, but got 0'')"
proof -
  have "expected_args (Some ''<'') 2 (of_nat 0) = ''<: Expected 2 arguments, but got 0''" by code_simp
  then show ?thesis using wrong_arity_is_less [OF no_args_ok] by auto
qed

text \<open>
  C27. Integer division of two numbers truncates towards zero: \<open>idiv\<close> takes both arguments and
  makes the number \<open>sgn i * sgn j * (|i| div |j|)\<close> of their integer parts \<open>i\<close> and \<open>j\<close>. A divisor
  whose integer part is 0 gives nil and the report "Zero division." instead.
\<close>

theorem integer_division:
  assumes "reports_ok s" "reports_apart s cx" "in_frame s cx bs [p, q] []" "number_at s p d1" "number_at s q d2"
    "to_c_long d1 = Some i" "to_c_int d2 = Some j" "i \<noteq> - (2 ^ 63) \<or> j \<noteq> - 1"
  shows "\<exists>v s'. akl_fn_idiv s cx = Some (v, s') \<and>
    (if j = 0 then v = NIL_ADDR \<and> (\<exists>e\<in>set (reports s'). err_type e = ALERT_ERROR \<and> err_msg e = ''Zero division.'')
     else number_at s' v (dbl_of_int (sgn i * sgn j * (\<bar>i\<bar> div \<bar>j\<bar>))) \<and> stack_holds s' cx bs)"
proof (cases "j = 0")
  case False
  have ok: "heap_ok s" using assms(1) by (simp add: reports_ok_def)
  obtain s1 where s1: "akl_fn_idiv s cx = AKL_NUMBER s1 cx (dbl_of_int (sgn i * sgn j * (\<bar>i\<bar> div \<bar>j\<bar>)))"
    "in_frame s1 cx bs [] []" "heap_ok s1"
    using fn_idiv_two [OF ok assms(3-7) False assms(8)] by blast
  obtain s' where s': "AKL_NUMBER s1 cx (dbl_of_int (sgn i * sgn j * (\<bar>i\<bar> div \<bar>j\<bar>))) = Some (st_next s1, s')"
    "in_frame s' cx bs [] []" "number_at s' (st_next s1) (dbl_of_int (sgn i * sgn j * (\<bar>i\<bar> div \<bar>j\<bar>)))"
    using new_number_ok [OF s1(3,2)] by blast
  then show ?thesis using s1(1) in_frame_stack [OF s'(2)] False by auto
next
  case True
  have ok: "heap_ok s" using assms(1) by (simp add: reports_ok_def)
  obtain s1 where s1: "akl_frame_shift_number s cx = Some (Some d1, s1)" "in_frame s1 cx bs [q] []" "stack_op cx s s1" "heap_ok s1"
    by (rule shift_number_value [OF ok assms(3,4)])
  have q: "number_at s1 q d2" using assms(5) number_at_vals [OF stack_op_fields(1) [OF s1(3)]] by simp
  obtain s2 where s2: "akl_frame_shift_number s1 cx = Some (Some d2, s2)" "in_frame s2 cx bs [] []" "stack_op cx s1 s2" "heap_ok s2"
    by (rule shift_number_value [OF s1(4,2) q])
  have r2: "reports_ok s2" using reports_stack_op [OF stack_op_trans [OF s1(3) s2(3)] assms(1) s2(4) assms(2)] by blast
  obtain C where C: "st_ctxs s2 cx = Some C" "cx_state C" using in_frame_ctx [OF s2(2)] by blast
  obtain s3 where s3: "akl_raise_error s2 cx ALERT_ERROR ''Zero division.'' = Some s3"
    "\<exists>e\<in>set (reports s3). err_type e = ALERT_ERROR \<and> err_msg e = ''Zero division.''"
    using raise_error_ok [OF r2 C, of ALERT_ERROR "''Zero division.''"] by (fastforce simp: same_report_def split: if_splits)
  have "to_c_long d2 = Some 0"
    using assms(7) True by (auto simp: to_c_int_def to_c_long_def dbl_to_int_def split: option.splits if_splits)
  then have "akl_fn_idiv s cx = Some (NIL_ADDR, s3)"
    using s1(1) s2(1) s3(1) assms(6)
    by (simp add: akl_fn_idiv_def) (subst idiv_loop.simps, simp add: zero_division_def)
  then show ?thesis using s3(2) True by simp
qed

theorem integer_division_witness:
  "(\<exists>v s'. akl_fn_idiv (two_args (number_value (dbl_of_int (- 7))) (number_value (dbl_of_int 2))) 7 = Some (v, s') \<and>
     number_at s' v (dbl_of_int (- 3)))"
proof -
  let ?s = "two_args (number_value (dbl_of_int (- 7))) (number_value (dbl_of_int 2))"
  have "to_c_long (dbl_of_int (- 7)) = Some (- 7)" "to_c_int (dbl_of_int 2) = Some 2"
    by (simp_all add: to_c_long_def to_c_int_def dbl_to_int_def dbl_trunc_int)
  from integer_division [OF two_args_ok(3,5,2) two_args_numbers this]
  have "\<exists>v s'. akl_fn_idiv ?s 7 = Some (v, s') \<and> number_at s' v (dbl_of_int (- 3)) \<and> stack_holds s' 7 []"
    by (simp add: sgn_if)
  then show ?thesis by blast
qed

text \<open>
  C25. The predicates decide the type tag. On a well-formed value, \<open>number?\<close>, \<open>string?\<close>,
  \<open>list?\<close>, \<open>symbol?\<close>, \<open>nil?\<close> and \<open>not\<close> answer exactly whether the value has the type (a nil is
  a list too), and take the value off the stack.
\<close>

theorem predicates_decide_types:
  assumes "heap_ok s" "in_frame s cx bs (xs @ [p]) []" "p \<noteq> 0" "st_vals s p = Some V" "well_typed V"
  shows "\<exists>s'. akl_fn_isnumber s cx = Some (AKL_BOOL (va_type V = VT_NUMBER), s') \<and>
    akl_fn_isstring s cx = Some (AKL_BOOL (va_type V = VT_STRING), s') \<and>
    akl_fn_islist s cx = Some (AKL_BOOL (va_type V = VT_LIST \<or> va_type V = VT_NIL), s') \<and>
    akl_fn_issymbol s cx = Some (AKL_BOOL (va_type V = VT_SYMBOL), s') \<and>
    akl_fn_isnil s cx = Some (AKL_BOOL (va_type V = VT_NIL), s') \<and>
    akl_fn_not s cx = Some (AKL_BOOL (va_type V = VT_NIL), s') \<and> stack_holds s' cx (bs @ xs)"
proof -
  show ?thesis using predicate_values [OF assms] in_frame_stack by fastforce
qed

theorem predicates_decide_types_witness:
  "\<exists>s'. akl_fn_isstring (two_args NIL_VALUE (raw_value VT_STRING (V_string (Some ''abc'')))) 7 = Some (TRUE_ADDR, s') \<and>
    stack_holds s' 7 [3]"
proof -
  let ?V = "raw_value VT_STRING (V_string (Some ''abc''))"
  have "well_typed ?V" by (simp add: well_typed_def raw_value_def)
  moreover have "in_frame (two_args NIL_VALUE ?V) 7 [] ([3] @ [4]) []" using two_args_ok(2) by simp
  ultimately show ?thesis
    using predicates_decide_types [OF two_args_ok(1) _ _ two_args_vals(2), of NIL_VALUE ?V 7 "[]" "[3]"]
    by (auto simp: AKL_BOOL_def raw_value_def)
qed

text \<open>
  C26. Splitting undoes joining. For words without delimiters and not empty, \<open>split\<close> of their
  join with a delimiter is a list of new strings, the words in order.
\<close>

theorem split_join:
  assumes "heap_ok s" "in_frame s cx bs [p, q] as" "string_at s p (join d ws)" "string_at s q delim"
    "d \<in> set delim" "\<forall>w\<in>set ws. w \<noteq> [] \<and> set w \<inter> set delim = {}"
  shows "\<exists>v s' V l ps. akl_fn_split s cx = Some (v, s') \<and> st_vals s' v = Some V \<and> va_type V = VT_LIST \<and>
    va_value V = V_list l \<and> holds s' l ps \<and> list_all2 (string_at s') ps ws"
  using fn_split_ok [OF assms(1-4)] strtok_join [OF assms(5,6)] by auto

theorem split_join_witness:
  "\<exists>v s' V l ps. akl_fn_split (two_args (raw_value VT_STRING (V_string (Some ''ab,c''))) (raw_value VT_STRING (V_string (Some '','')))) 7
      = Some (v, s') \<and> st_vals s' v = Some V \<and> va_value V = V_list l \<and> holds s' l ps \<and>
    list_all2 (string_at s') ps [''ab'', ''c'']"
proof -
  let ?V1 = "raw_value VT_STRING (V_string (Some ''ab,c''))"
  let ?V2 = "raw_value VT_STRING (V_string (Some '',''))"
  have "string_at (two_args ?V1 ?V2) 3 (join (CHR '','') [''ab'', ''c''])" "string_at (two_args ?V1 ?V2) 4 '',''"
    by (simp_all add: string_at_def two_args_vals raw_value_def)
  from split_join [OF two_args_ok(1,2) this] show ?thesis by auto
qed

text \<open>Reporting an error changes neither the features nor the contexts.\<close>

definition kept :: "akl_state \<Rightarrow> 64 word \<times> (addr \<Rightarrow> akl_context option)" where
  "kept s = (ai_config s, st_ctxs s)"

lemma kept_upd:
  "upd_ent u e f = Some u' \<Longrightarrow> kept u' = kept u" "upd_list u l g = Some u' \<Longrightarrow> kept u' = kept u"
  by (auto simp: upd_ent_def upd_list_def Option.bind_eq_Some_conv kept_def)

lemma kept_append: "akl_list_append u l d = Some (e, u') \<Longrightarrow> kept u' = kept u"
proof -
  assume a: "akl_list_append u l d = Some (e, u')"
  obtain n u1 where n: "akl_new_list_entry u = (n, u1)" by force
  then have k: "kept u1 = kept u" by (auto simp: akl_new_list_entry_def Let_def kept_def)
  obtain L u2 u3 where u: "st_lists u l = Some L" "upd_ent u1 n (\<lambda>E. E\<lparr>le_data := d\<rparr>) = Some u2"
    "(if li_head L = 0 then upd_list u2 l (\<lambda>L. L\<lparr>li_head := n\<rparr>)
      else do { s \<leftarrow> upd_ent u2 (li_last L) (\<lambda>E. E\<lparr>le_next := n\<rparr>); upd_ent s n (\<lambda>E. E\<lparr>le_prev := li_last L\<rparr>) }) = Some u3"
    "upd_list u3 l (\<lambda>L. L\<lparr>li_last := n, li_count := li_count L + 1, li_nil := False\<rparr>) = Some u'"
    using a n by (auto simp: akl_list_append_def Option.bind_eq_Some_conv)
  have "kept u3 = kept u2"
    using u(3) kept_upd by (auto simp: Option.bind_eq_Some_conv split: if_split_asm)
  then show ?thesis using kept_upd(1) [OF u(2)] kept_upd(2) [OF u(4)] k by simp
qed

lemma raise_error_kept:
  assumes "akl_raise_error s ctx t msg = Some s'"
  shows "kept s' = kept s"
proof -
  obtain l u where n: "akl_new_list s = (l, u)" by force
  then have u: "kept (u\<lparr>ai_errors := l\<rparr>) = kept s" by (auto simp: akl_new_list_def akl_init_list_def Let_def kept_def)
  define v where "v = (if ai_errors s = 0 then u\<lparr>ai_errors := l\<rparr> else s)"
  have v: "kept v = kept s" using u by (simp add: v_def)
  obtain C where C: "st_ctxs s ctx = Some C" using assms by (auto simp: akl_raise_error_def Option.bind_eq_Some_conv)
  have "s' = s \<or> s' = v \<or> (\<exists>e. akl_list_append (add_report v (cx_lex_info C) t msg) (ai_errors v) (st_next v) = Some (e, s'))"
    using assms C n unfolding akl_raise_error_def v_def
    by (auto simp: Option.bind_eq_Some_conv Let_def add_report_def split: if_split_asm)
  moreover have "kept (add_report v i t msg) = kept v" for i by (simp add: kept_def add_report_def)
  ultimately show ?thesis using v kept_append by metis
qed

lemma raise_error_keeps:
  "akl_raise_error s ctx t msg = Some s' \<Longrightarrow> ai_config s' = ai_config s \<and> st_ctxs s' = st_ctxs s"
  using raise_error_kept by (fastforce simp: kept_def)

text \<open>
  \<open>akl-cfg!\<close> switches nothing: called without or with one argument, whatever it is, it
  gives nil and leaves the features as they are (its only expected argument is the pseudotype
  of the optional arguments, which counts for none).
\<close>

theorem cfg_switches_nothing:
  assumes "reports_ok s" "reports_apart s cx" "in_frame s cx bs xs []" "length xs \<le> 1" "\<forall>x\<in>set xs. x \<noteq> 0 \<and> st_vals s x \<noteq> None"
  shows "\<exists>s'. akl_fn_akl_cfg s cx = Some (NIL_ADDR, s') \<and> ai_config s' = ai_config s"
proof -
  obtain C where C: "st_ctxs s cx = Some C" "cx_state C" using in_frame_ctx [OF assms(3)] by blast
  have ok: "heap_ok s" using assms(1) by (simp add: reports_ok_def)
  have "\<exists>s'. akl_get_args_strict s cx [TYPE_OPT] = Some (None, s') \<and> ai_config s' = ai_config s \<and> st_ctxs s' cx \<noteq> None"
  proof (cases xs)
    case Nil
    obtain s' where s': "akl_raise_error s cx ALERT_ERROR (''Bug in the interpreter (NULL in stack) for the '' @ show_int 1 @ ''. argument'') = Some s'"
      using raise_error_ok [OF assms(1) C] by blast
    have f: "akl_frame_shift s cx = Some (0, s)" "akl_frame_get_count s cx = Some 0"
      using assms(3) in_frame_count [OF assms(3)] by (simp_all add: Nil shift_none)
    show ?thesis using s' f C raise_error_keeps [OF s']
      by (simp add: akl_get_args_strict_def del: append.simps)
  next
    case (Cons x ys)
    then have xs: "xs = [x]" using assms(4) by simp
    obtain s1 where s1: "akl_frame_shift s cx = Some (x, s1)" "in_frame s1 cx bs [] []" "stack_op cx s s1" "heap_ok s1"
      using shift_value [OF ok, of cx bs x "[]" "[]"] assms(3) xs by metis
    obtain V where V: "x \<noteq> 0" "st_vals s1 x = Some V" using assms(5) xs stack_op_fields(1) [OF s1(3)] by auto
    have r1: "reports_ok s1" using reports_stack_op [OF s1(3) assms(1) s1(4) assms(2)] by blast
    have C1: "st_ctxs s1 cx = Some C" using C stack_op_fields(2) [OF s1(3)] by simp
    obtain s2 where s2: "akl_raise_error s1 cx ALERT_ERROR (expected_args (cx_func_name C) (- 1) 0) = Some s2"
      using raise_error_ok [OF r1 C1 C(2)] by blast
    have n: "akl_frame_get_count s cx = Some 1" using in_frame_count [OF assms(3)] xs by simp
    show ?thesis using s1(1) s2 V C n raise_error_keeps [OF s2] stack_op_fields(10) [OF s1(3)] C1
      by (simp add: akl_get_args_strict_def)
  qed
  then show ?thesis by (auto simp: akl_fn_akl_cfg_def show_features_def out_text_def)
qed

theorem cfg_switches_nothing_witness:
  "\<exists>s'. akl_fn_akl_cfg no_args 7 = Some (NIL_ADDR, s') \<and> ai_config s' = 0"
proof -
  have "is_list no_args 20 []" by (simp add: is_list_def chain_def no_args_def empty_list_def)
  then have "reports_apart no_args 7"
    unfolding reports_apart_def by (auto simp: no_args_def init_context_def state0_def)
  from cfg_switches_nothing [OF no_args_ok(1) this no_args_ok(2)] show ?thesis
    by (simp add: no_args_def state0_def)
qed

lemma it_first:
  assumes "is_list s l (e # f # es)"
  shows "akl_list_it_begin s l = Some e" "akl_list_it_has_next s e = Some True"
    "akl_list_it_next s e = Some (edata s e, f)"
proof -
  obtain E where E: "st_ents s e = Some E" "e \<noteq> 0" "le_next E = f"
    using frame_entry_links [of s l "[]" e "f # es"] assms by (auto simp: first0_def)
  have "f \<noteq> 0" using is_list_ents [OF assms, of f] by simp
  then show "akl_list_it_has_next s e = Some True" "akl_list_it_next s e = Some (edata s e, f)"
    using E by (simp_all add: akl_list_it_has_next_def akl_list_it_next_def edata_def)
  show "akl_list_it_begin s l = Some e" using assms by (auto simp: is_list_def akl_list_it_begin_def)
qed

lemma it_next_data:
  assumes "is_list s l (es @ e # fs)"
  shows "\<exists>n. akl_list_it_next s e = Some (edata s e, n)"
proof -
  obtain E where "st_ents s e = Some E" "e \<noteq> 0" by (rule frame_entry_links [OF assms])
  then show ?thesis by (simp add: akl_list_it_next_def edata_def)
qed

text \<open>
  Two lists are compared by the first two elements of the first one: for lists of at least
  two elements each, when these two numbers differ the result is their comparison, whatever
  the second list holds. So a list of two different numbers is not equal to itself.
\<close>

theorem list_comparison_ignores_second:
  assumes "st_vals s x = Some X" "va_type X = VT_LIST" "va_value X = V_list l" "holds s l (a # b # us)"
    "st_vals s y = Some Y" "va_type Y = VT_LIST" "va_value Y = V_list m" "holds s m (c # d # vs)"
    "x \<noteq> 0" "y \<noteq> 0" "number_at s a d1" "number_at s b d2" "to_c_long d1 = Some i" "to_c_long d2 = Some j" "i \<noteq> j"
  shows "akl_compare_values s x y = Some (compare_numbers i j)"
proof -
  obtain e f es where l: "is_list s l (e # f # es)" "a = edata s e" "b = edata s f"
    using assms(4) by (auto simp: holds_def Cons_eq_map_conv)
  obtain g h gs where m: "is_list s m (g # h # gs)"
    using assms(8) by (auto simp: holds_def Cons_eq_map_conv)
  obtain k where f: "akl_list_it_next s f = Some (b, k)" using it_next_data [of s l "[e]" f es] l by auto
  obtain n where n: "text_fuel s = Suc (Suc (Suc n))" by (simp add: text_fuel_def)
  have ne: "compare_numbers i j \<noteq> 0" using assms(15) compare_numbers_iff(1) [of i j] by simp
  have "compare_values (Suc n) s a b = Some (compare_numbers i j)"
    using assms(11-14) by (auto simp: number_at_def)
  then have "compare_lists (Suc (Suc n)) s e g 0 0 = Some (compare_numbers i j)"
    using it_first [OF l(1)] it_first(2) [OF m] f l(2) ne by (simp del: compare_values.simps)
  then have "compare_values (Suc (Suc (Suc n))) s x y = Some (compare_numbers i j)"
    using assms(1-3,5-7,9,10) it_first(1) [OF l(1)] it_first(1) [OF m]
    by (simp add: AKL_GET_LIST_VALUE_def del: compare_lists.simps)
  then show ?thesis by (simp only: akl_compare_values_def n)
qed

definition list12 :: akl_state where
  "list12 = (two_args (number_value (dbl_of_int 1)) (number_value (dbl_of_int 2)))
     \<lparr>st_vals := [3 \<mapsto> number_value (dbl_of_int 1), 4 \<mapsto> number_value (dbl_of_int 2), 5 \<mapsto> raw_value VT_LIST (V_list 20)]\<rparr>"

theorem list_comparison_ignores_second_witness: "akl_compare_values list12 5 5 = Some (- 1)"
proof -
  have "is_list list12 20 [21, 22]"
    by (simp add: is_list_def chain_def list12_def two_args_def entry_at_def first0_def last0_def)
  moreover have "3 # 4 # [] = map (edata list12) [21, 22]" by (simp add: edata_def list12_def two_args_def entry_at_def)
  ultimately have h: "holds list12 20 (3 # 4 # [])" unfolding holds_def by metis
  have X: "st_vals list12 5 = Some (raw_value VT_LIST (V_list 20))" by (simp add: list12_def)
  have "number_at list12 3 (dbl_of_int 1)" "number_at list12 4 (dbl_of_int 2)"
    by (simp_all add: number_at_def list12_def raw_value_def)
  moreover have "to_c_long (dbl_of_int 1) = Some 1" "to_c_long (dbl_of_int 2) = Some 2"
    by (simp_all add: to_c_long_def dbl_to_int_def dbl_trunc_int)
  ultimately have "akl_compare_values list12 5 5 = Some (compare_numbers 1 2)"
    by (intro list_comparison_ignores_second [OF X _ _ h X _ _ h]) (simp_all add: raw_value_def)
  then show ?thesis by (simp add: compare_numbers_def)
qed

end
