(* ===== verification/Control.thy ===== *)
theory Control
  imports Calls
begin

text \<open>
  The control flow of the machine against an abstract one. The abstract machine has a program
  (at some addresses: an instruction and the address of the next one) and a stack that is a list
  of values; it knows nothing of entries, labels, contexts or linked lists. The loop of the
  interpreter (\<open>exec_branch\<close>) computes exactly what it computes, for any program of pushes and jumps,
  and runs for ever exactly when it does.
\<close>

subsection \<open>The abstract machine\<close>

datatype ctl_op = C_NOP | C_PUSH addr | C_JMP addr | C_JT addr | C_JN addr | C_BRANCH addr

text \<open>One instruction: \<open>nil\<close> tells the values that are nil; an empty stack pops NULL, which is nil too.\<close>

fun ctl_next :: "(addr \<Rightarrow> bool) \<Rightarrow> addr \<Rightarrow> addr list \<Rightarrow> ctl_op \<Rightarrow> addr \<times> addr list" where
  "ctl_next nil nxt vs C_NOP = (nxt, vs)"
| "ctl_next nil nxt vs (C_PUSH v) = (nxt, vs @ [v])"
| "ctl_next nil nxt vs (C_JMP t) = (t, vs)"
| "ctl_next nil nxt vs (C_JT t) = (if vs = [] \<or> nil (last vs) then nxt else t, butlast vs)"
| "ctl_next nil nxt vs (C_JN t) = (if vs = [] \<or> nil (last vs) then t else nxt, butlast vs)"
| "ctl_next nil nxt vs (C_BRANCH t) = (t, butlast vs)"

type_synonym ctl_prog = "addr \<Rightarrow> (ctl_op \<times> addr) option"

fun ctl_run :: "ctl_prog \<Rightarrow> (addr \<Rightarrow> bool) \<Rightarrow> nat \<Rightarrow> addr \<Rightarrow> addr list \<Rightarrow> addr list option" where
  "ctl_run P nil 0 ip vs = None"
| "ctl_run P nil (Suc n) ip vs =
     (if ip = 0 then Some vs
      else case P ip of None \<Rightarrow> None
           | Some (i, nxt) \<Rightarrow> (case ctl_next nil nxt vs i of (ip', vs') \<Rightarrow> ctl_run P nil n ip' vs'))"

text \<open>Every address the program goes to is one of the program, or the end.\<close>

fun ctl_targets :: "ctl_op \<Rightarrow> addr set" where
  "ctl_targets C_NOP = {}"
| "ctl_targets (C_PUSH v) = {}"
| "ctl_targets (C_JMP t) = {t}"
| "ctl_targets (C_JT t) = {t}"
| "ctl_targets (C_JN t) = {t}"
| "ctl_targets (C_BRANCH t) = {t}"

definition ctl_closed :: "ctl_prog \<Rightarrow> bool" where
  "ctl_closed P \<longleftrightarrow> (\<forall>ip i nxt. P ip = Some (i, nxt) \<longrightarrow> insert nxt (ctl_targets i) \<subseteq> insert 0 (dom P))"

subsection \<open>The program in the memory\<close>

definition label_to :: "akl_state \<Rightarrow> operand \<Rightarrow> addr \<Rightarrow> bool" where
  "label_to s a t \<longleftrightarrow> (\<exists>l L. a = A_label l \<and> st_labels s l = Some L \<and> la_branch L = t)"

fun ctl_instr :: "akl_state \<Rightarrow> akl_ir_instruction \<Rightarrow> ctl_op \<Rightarrow> bool" where
  "ctl_instr s I C_NOP \<longleftrightarrow> in_op I = IR_NOP \<or> in_op I = IR_RET"
| "ctl_instr s I (C_PUSH v) \<longleftrightarrow> in_op I = IR_PUSH \<and> in_arg0 I = A_value v \<and> v \<noteq> 0 \<and> st_vals s v \<noteq> None"
| "ctl_instr s I (C_JMP t) \<longleftrightarrow> in_op I = IR_JMP \<and> label_to s (in_arg0 I) t"
| "ctl_instr s I (C_JT t) \<longleftrightarrow> in_op I = IR_JT \<and> label_to s (in_arg0 I) t"
| "ctl_instr s I (C_JN t) \<longleftrightarrow> in_op I = IR_JN \<and> label_to s (in_arg0 I) t"
| "ctl_instr s I (C_BRANCH t) \<longleftrightarrow> in_op I = IR_BRANCH \<and> label_to s (in_arg0 I) t"

text \<open>The instructions are the data of entries that are not of the stack \<open>k\<close>.\<close>

definition ctl_at :: "akl_state \<Rightarrow> addr \<Rightarrow> ctl_prog \<Rightarrow> bool" where
  "ctl_at s k P \<longleftrightarrow> (\<forall>ip i nxt. P ip = Some (i, nxt) \<longrightarrow> ip \<noteq> 0 \<and> nxt \<noteq> ip \<and> (\<exists>es. is_list s k es \<and> ip \<notin> set es) \<and>
     (\<exists>E I. st_ents s ip = Some E \<and> le_next E = nxt \<and> st_instrs s (le_data E) = Some I \<and> ctl_instr s I i))"

definition value_nil :: "akl_state \<Rightarrow> addr \<Rightarrow> bool" where
  "value_nil s v \<longleftrightarrow> (case st_vals s v of None \<Rightarrow> True | Some V \<Rightarrow> va_nil V)"

definition values_in :: "akl_state \<Rightarrow> addr list \<Rightarrow> bool" where
  "values_in s vs \<longleftrightarrow> (\<forall>v\<in>set vs. v \<noteq> 0 \<and> st_vals s v \<noteq> None)"

lemma ctl_instr_keeps: "vm_keeps k X s s' \<Longrightarrow> ctl_instr s I i \<Longrightarrow> ctl_instr s' I i"
  using vm_keeps_fields(5) [of k X s s'] vm_keeps_vals [of k X s s'] by (cases i) (auto simp: label_to_def)

lemma ctl_at_keeps:
  assumes "vm_keeps k X s s'" "ctl_at s k P" shows "ctl_at s' k P"
  unfolding ctl_at_def
proof (intro allI impI)
  fix ip i nxt assume p: "P ip = Some (i, nxt)"
  obtain es E I where c: "ip \<noteq> 0" "nxt \<noteq> ip" "is_list s k es" "ip \<notin> set es" "st_ents s ip = Some E" "le_next E = nxt"
    "st_instrs s (le_data E) = Some I" "ctl_instr s I i"
    using assms(2) p unfolding ctl_at_def by blast
  have ek: "ents_keep k s s'" using assms(1) unfolding vm_keeps_def by blast
  have e: "st_ents s' ip = Some E" using ents_keepD(3) [OF ek c(3,4)] c(5) by simp
  obtain es' where es': "is_list s' k es'" "set es' \<subseteq> set es \<union> {x. st_ents s x = None}"
    using ents_keepD(2) [OF ek c(3)] by blast
  have "ip \<notin> set es'" using subsetD [OF es'(2), of ip] c(4,5) by auto
  then show "ip \<noteq> 0 \<and> nxt \<noteq> ip \<and> (\<exists>es. is_list s' k es \<and> ip \<notin> set es) \<and>
     (\<exists>E I. st_ents s' ip = Some E \<and> le_next E = nxt \<and> st_instrs s' (le_data E) = Some I \<and> ctl_instr s' I i)"
    using c(1,2,6,7) e es'(1) ctl_instr_keeps [OF assms(1) c(8)] vm_keeps_fields(4) [OF assms(1)] by auto
qed

lemma values_in_keeps: "vm_keeps k X s s' \<Longrightarrow> values_in s vs \<Longrightarrow> values_in s' vs"
  unfolding values_in_def using vm_keeps_vals by fastforce

lemma value_nil_keeps: "vm_keeps k X s s' \<Longrightarrow> st_vals s v \<noteq> None \<Longrightarrow> value_nil s' v = value_nil s v"
  using vm_keeps_vals by (fastforce simp: value_nil_def)

subsection \<open>Popping\<close>

lemma list_op_keeps_vm:
  assumes "list_op (set es) k s s'" "is_list s k es" "is_list s' k es'" "set es' \<subseteq> set es"
  shows "vm_keeps k {} s s'"
proof -
  obtain n h ls where "s' = s\<lparr>st_next := n, st_ents := h, st_lists := ls\<rparr>" using assms(1) unfolding list_op_def by blast
  then have s': "s' = s\<lparr>st_next := n, st_ents := h, st_lists := ls, st_vals := st_vals s, st_ctxs := st_ctxs s\<rparr>" by simp
  then have ex: "\<exists>n h ls vs cs. s' = s\<lparr>st_next := n, st_ents := h, st_lists := ls, st_vals := vs, st_ctxs := cs\<rparr>" by blast
  have cx: "ctx_keeps {} s s'" unfolding s' ctx_keeps_def using ctx_id by simp
  have "ents_keep k s s'"
    unfolding ents_keep_def
  proof (intro conjI allI impI)
    fix x assume "st_ents s x \<noteq> None"
    then show "st_ents s' x \<noteq> None" "edata s' x = edata s x" using assms(1) unfolding list_op_def by auto
  next
    fix fs assume "is_list s k fs"
    then have fs: "fs = es" using is_list_unique assms(2) by blast
    show "\<exists>es'. is_list s' k es' \<and> set es' \<subseteq> set fs \<union> {x. st_ents s x = None}"
      using assms(3,4) fs by (intro exI [of _ es']) auto
    fix x assume "x \<notin> set fs" "st_ents s x \<noteq> None"
    then show "st_ents s' x = st_ents s x" using assms(1) fs unfolding list_op_def by blast
  qed
  moreover have "st_vals s' = st_vals s" by (simp add: s')
  ultimately show ?thesis using assms(1) ex cx unfolding vm_keeps_def list_op_def by simp
qed

lemma pop_runs:
  assumes "runs s ctx k (vs @ [v])" "v \<noteq> 0"
  shows "\<exists>s'. akl_stack_pop s ctx = Some (v, s') \<and> runs s' ctx k vs \<and> vm_keeps k {} s s'"
proof -
  obtain C xs where C: "heap_ok s" "st_ctxs s ctx = Some C" "cx_stack C = k" "is_list s k xs" "vs @ [v] = map (edata s) xs"
    using assms(1) by (auto simp: runs_def holds_def)
  obtain es e where es: "xs = es @ [e]" "vs = map (edata s) es" "v = edata s e"
    using C(5) by (cases xs rule: rev_cases) auto
  have l: "is_list s k (es @ [e])" using C(4) es(1) by simp
  obtain s' where s': "akl_list_pop_entry s k = Some (e, s')" "is_list s' k es" "list_op (set (es @ [e])) k s s'" "heap_ok s'"
    using pop_entry_ok [OF C(1) l] by blast
  have "st_ents s e \<noteq> None \<and> e \<noteq> 0" by (rule is_list_ents [OF l]) simp
  then have "st_ents s' e \<noteq> None \<and> e \<noteq> 0" "edata s' e = edata s e" using s'(3) by (simp_all add: list_op_def)
  then have pop: "akl_list_pop s k = Some (v, s')" using s'(1) entry_data_edata [of s' e] es(3) by (simp add: akl_list_pop_def)
  have keeps: "vm_keeps k {} s s'" by (rule list_op_keeps_vm [OF s'(3) l s'(2)]) auto
  have "map (edata s') (es @ [e]) = map (edata s) (es @ [e])" by (rule list_op_data [OF s'(3) l])
  then have "holds s' k vs" using s'(2) es(2) unfolding holds_def by auto
  then have "runs s' ctx k vs" by (rule runs_after [OF keeps assms(1) s'(4)])
  then show ?thesis using pop keeps C(2,3) assms(2) by (auto simp: akl_stack_pop_def)
qed

lemma pop_runs_empty:
  assumes "runs s ctx k []" "st_ctxs s ctx = Some C" "cx_parent C = 0"
  shows "akl_stack_pop s ctx = Some (0, s)"
  using assms pop_empty [of s k] by (auto simp: runs_def akl_stack_pop_def)

lemma vm_keeps_refl: "vm_keeps k {} s s"
  by (rule vm_keeps_heap [where n = "st_next s" and vs = "st_vals s" and cs = "st_ctxs s"]) (simp_all add: ctx_id)

text \<open>A conditional jump.\<close>

lemma cond_runs:
  assumes "runs s ctx k vs" "st_ctxs s ctx = Some C" "cx_parent C = 0" "values_in s vs"
    "\<And>s'. vm_keeps k {} s s' \<Longrightarrow> on_nil s' = Some a" "\<And>s'. vm_keeps k {} s s' \<Longrightarrow> on_true s' = Some b"
  shows "\<exists>s'. exec_cond s ctx on_nil on_true = Some (if vs = [] \<or> value_nil s (last vs) then a else b, s') \<and>
    runs s' ctx k (butlast vs) \<and> vm_keeps k {} s s'"
proof (cases vs rule: rev_cases)
  case Nil
  show ?thesis
    using vm_keeps_refl [of k s] Nil assms pop_runs_empty [of s ctx k C] by (simp add: exec_cond_def AKL_IS_NIL_def)
next
  case (snoc ws v)
  have v: "v \<noteq> 0" "st_vals s v \<noteq> None" using assms(4) snoc by (simp_all add: values_in_def)
  obtain s' where s': "akl_stack_pop s ctx = Some (v, s')" "runs s' ctx k ws" "vm_keeps k {} s s'"
    using pop_runs [of s ctx k ws v] assms(1) snoc v(1) by auto
  obtain V where V: "st_vals s v = Some V" using v(2) by blast
  have "AKL_IS_NIL s' v = Some (value_nil s v)"
    using v(1) V vm_keeps_vals [OF s'(3) V] by (simp add: AKL_IS_NIL_def value_nil_def)
  then show ?thesis using s' snoc assms(5,6) [OF s'(3)] by (simp add: exec_cond_def)
qed

subsection \<open>The refinement\<close>

lemma label_branch_to: "label_to s a t \<Longrightarrow> vm_keeps k X s s' \<Longrightarrow> label_branch s' a = Some t"
  using vm_keeps_fields(5) [of k X s s'] by (auto simp: label_to_def label_branch_def operand_label_def)

lemma instr_refines:
  assumes "runs s ctx k vs" "st_ctxs s ctx = Some C" "cx_parent C = 0" "values_in s vs" "ctl_instr s I i"
    "ctl_next (value_nil s) nxt vs i = (ip', vs')"
  shows "\<exists>s'. exec_instr call s ctx nxt I = Some (ip', s') \<and> runs s' ctx k vs' \<and> vm_keeps k {} s s' \<and> values_in s' vs'"
proof -
  have bl: "values_in s' (butlast vs)" if "vm_keeps k {} s s'" for s'
    using values_in_keeps [OF that assms(4)] by (auto simp: values_in_def dest: in_set_butlastD)
  note refl = vm_keeps_refl [of k s]
  note jump = label_branch_to [of s "in_arg0 I"]
  show ?thesis
  proof (cases i)
    case C_NOP
    then show ?thesis using assms refl by (auto simp: exec_instr_def)
  next
    case (C_PUSH v)
    then have v: "in_op I = IR_PUSH" "in_arg0 I = A_value v" "v \<noteq> 0" "st_vals s v \<noteq> None" "ip' = nxt" "vs' = vs @ [v]"
      using assms(5,6) by auto
    obtain s' where s': "exec_push s ctx nxt I = Some (nxt, s')" "runs s' ctx k (vs @ [v])" "vm_keeps k {} s s'"
      using exec_push_ok [OF assms(1) v(2-4)] by blast
    have "values_in s (vs @ [v])" using assms(4) v(3,4) by (auto simp: values_in_def)
    then show ?thesis using s' v values_in_keeps [OF s'(3)] by (simp add: exec_instr_def)
  next
    case (C_JMP t)
    then show ?thesis using assms refl jump [OF _ refl] by (auto simp: exec_instr_def)
  next
    case (C_JT t)
    obtain s' where "exec_cond s ctx (\<lambda>s. Some nxt) (\<lambda>s. label_branch s (in_arg0 I)) =
        Some (if vs = [] \<or> value_nil s (last vs) then nxt else t, s')" "runs s' ctx k (butlast vs)" "vm_keeps k {} s s'"
      using cond_runs [OF assms(1-4), of "\<lambda>s. Some nxt" nxt "\<lambda>s. label_branch s (in_arg0 I)" t] jump C_JT assms(5) by auto
    then show ?thesis using C_JT assms(5,6) bl by (auto simp: exec_instr_def)
  next
    case (C_JN t)
    obtain s' where "exec_cond s ctx (\<lambda>s. label_branch s (in_arg0 I)) (\<lambda>s. Some nxt) =
        Some (if vs = [] \<or> value_nil s (last vs) then t else nxt, s')" "runs s' ctx k (butlast vs)" "vm_keeps k {} s s'"
      using cond_runs [OF assms(1-4), of "\<lambda>s. label_branch s (in_arg0 I)" t "\<lambda>s. Some nxt" nxt] jump C_JN assms(5) by auto
    then show ?thesis using C_JN assms(5,6) bl by (auto simp: exec_instr_def)
  next
    case (C_BRANCH t)
    obtain s' where "exec_cond s ctx (\<lambda>s. label_branch s (in_arg0 I)) (\<lambda>s. label_branch s (in_arg0 I)) =
        Some (if vs = [] \<or> value_nil s (last vs) then t else t, s')" "runs s' ctx k (butlast vs)" "vm_keeps k {} s s'"
      using cond_runs [OF assms(1-4), of "\<lambda>s. label_branch s (in_arg0 I)" t "\<lambda>s. label_branch s (in_arg0 I)" t]
        jump C_BRANCH assms(5) by auto
    then show ?thesis using C_BRANCH assms(5,6) bl by (auto simp: exec_instr_def)
  qed
qed

lemma ctl_next_target:
  "ctl_next nil nxt vs i = (ip', vs') \<Longrightarrow> ip' \<in> insert nxt (ctl_targets i)"
  by (cases i) (auto split: if_splits)

lemma ctl_next_cong:
  "(\<And>v. v \<in> set vs \<Longrightarrow> nil v = nil' v) \<Longrightarrow> ctl_next nil nxt vs i = ctl_next nil' nxt vs i"
  by (cases i) (auto split: if_splits)

text \<open>The abstract run with the nil values of two states that agree on the values of the program.\<close>

lemma ctl_run_cong:
  assumes "\<And>v. st_vals s v \<noteq> None \<Longrightarrow> nil v = nil' v" "\<And>ip v nxt. P ip = Some (C_PUSH v, nxt) \<Longrightarrow> v \<noteq> 0 \<and> st_vals s v \<noteq> None"
  shows "values_in s vs \<Longrightarrow> ctl_run P nil n ip vs = ctl_run P nil' n ip vs"
proof (induction n arbitrary: ip vs)
  case (Suc n)
  show ?case
  proof (cases "P ip")
    case (Some p)
    obtain i nxt where p: "p = (i, nxt)" by force
    obtain ip' vs' where r: "ctl_next nil nxt vs i = (ip', vs')" by force
    have "ctl_next nil' nxt vs i = ctl_next nil nxt vs i"
      by (rule sym, rule ctl_next_cong) (use assms(1) Suc.prems in \<open>auto simp: values_in_def\<close>)
    moreover have "values_in s vs'"
      using r Suc.prems assms(2) [of ip] Some p
      by (cases i) (auto simp: values_in_def dest: in_set_butlastD)
    then have "ctl_run P nil n ip' vs' = ctl_run P nil' n ip' vs'" by (rule Suc.IH)
    ultimately show ?thesis using Some p by (simp add: r)
  qed simp
qed simp

lemma loop_refines:
  "runs s ctx k vs \<Longrightarrow> \<not> ai_interrupted s \<Longrightarrow> st_ctxs s ctx = Some C \<Longrightarrow> cx_parent C = 0 \<Longrightarrow> ctl_at s k P \<Longrightarrow>
   ctl_closed P \<Longrightarrow> ip \<in> insert 0 (dom P) \<Longrightarrow> values_in s vs \<Longrightarrow>
   case ctl_run P (value_nil s) n ip vs of
     None \<Rightarrow> exec_branch ext n s ctx ip = None
   | Some ws \<Rightarrow> \<exists>s'. exec_branch ext n s ctx ip = Some s' \<and> runs s' ctx k ws \<and> vm_keeps k {} s s'"
proof (induction n arbitrary: s C ip vs)
  case 0
  then show ?case by simp
next
  case (Suc n)
  show ?case
  proof (cases "ip = 0")
    case True
    then show ?thesis using Suc.prems(1) vm_keeps_refl by auto
  next
    case False
    then obtain i nxt where p: "P ip = Some (i, nxt)" using Suc.prems(7) by auto
    then obtain E I where c: "nxt \<noteq> ip" "st_ents s ip = Some E" "le_next E = nxt" "st_instrs s (le_data E) = Some I" "ctl_instr s I i"
      using Suc.prems(5) unfolding ctl_at_def by blast
    obtain ip' vs' where r: "ctl_next (value_nil s) nxt vs i = (ip', vs')" by force
    obtain s1 where s1: "exec_instr (call_bound ext n) s ctx nxt I = Some (ip', s1)" "runs s1 ctx k vs'" "vm_keeps k {} s s1"
      "values_in s1 vs'"
      using instr_refines [OF Suc.prems(1,3,4,8) c(5) r] by blast
    have step: "exec_branch ext (Suc n) s ctx ip = exec_branch ext n s1 ctx ip'"
      using False Suc.prems(2) c s1(1) by (auto simp: exec_step_def)
    obtain j where C1: "st_ctxs s1 ctx = Some (C\<lparr>cx_lex_info := j\<rparr>)"
      using s1(3) Suc.prems(3) unfolding vm_keeps_def ctx_keeps_def by blast
    have tgt: "ip' \<in> insert 0 (dom P)"
      using ctl_next_target [OF r] Suc.prems(6) p unfolding ctl_closed_def by blast
    have at1: "ctl_at s1 k P" by (rule ctl_at_keeps [OF s1(3) Suc.prems(5)])
    have int: "\<not> ai_interrupted s1" using vm_keeps_fields(9) [OF s1(3)] Suc.prems(2) by simp
    have pv: "v \<noteq> 0 \<and> st_vals s v \<noteq> None" if "P x = Some (C_PUSH v, y)" for x v y
      using that Suc.prems(5) unfolding ctl_at_def by fastforce
    have ws: "values_in s vs'"
      using r Suc.prems(8) c(5) by (cases i) (auto simp: values_in_def dest: in_set_butlastD)
    have "ctl_run P (value_nil s) n ip' vs' = ctl_run P (value_nil s1) n ip' vs'"
      by (rule ctl_run_cong [OF _ pv ws]) (simp_all add: value_nil_keeps [OF s1(3)])
    then have run: "ctl_run P (value_nil s) (Suc n) ip vs = ctl_run P (value_nil s1) n ip' vs'"
      using False p r by simp
    have "cx_parent (C\<lparr>cx_lex_info := j\<rparr>) = 0" using Suc.prems(4) by simp
    from Suc.IH [OF s1(2) int C1 this at1 Suc.prems(6) tgt s1(4)] show ?thesis
      unfolding run step using vm_keeps_trans [OF s1(3)] by (auto split: option.splits)
  qed
qed

subsection \<open>The property\<close>

text \<open>
  C11. The machine executes control flow as it should. For any program of pushes, jumps,
  conditional jumps, branches and no-ops, wherever its instructions and labels are in the memory,
  the loop of the interpreter run for any number of iterations does what the abstract machine on a
  list of values does: it ends exactly when that ends, with exactly its stack, and changes
  nothing but the stack; so it loops for ever exactly when that does. (No interruption is pending,
  the context has no parent whose stack an empty one would fall back to, and no instruction is its
  own successor, which the loop takes for the end.) JT jumps when the popped
  value is not nil and JN when it is (an empty stack counts as nil); a branch goes to its first
  label in both cases.
\<close>

theorem control_flow_refines:
  assumes "runs s ctx k vs" "\<not> ai_interrupted s" "st_ctxs s ctx = Some C" "cx_parent C = 0"
    "ctl_at s k P" "ctl_closed P" "ip \<in> insert 0 (dom P)" "values_in s vs"
  shows "case ctl_run P (value_nil s) n ip vs of
      None \<Rightarrow> exec_branch ext n s ctx ip = None
    | Some ws \<Rightarrow> \<exists>s'. exec_branch ext n s ctx ip = Some s' \<and> stack_holds s' ctx ws \<and> vm_keeps k {} s s'"
  using loop_refines [OF assms, where n = n and ext = ext] runs_stack by (auto split: option.splits)

text \<open>The code of \<open>(if NIL 3 4)\<close>: push nil, jump to the other branch when it is nil, push 3 and jump to the end, or push 4.\<close>

definition prog_if :: akl_state where
  "prog_if = prog12\<lparr>
     st_labels := [25 \<mapsto> \<lparr>la_ir = 0, la_branch = 16, la_ind = 0, la_name = None\<rparr>,
                   26 \<mapsto> \<lparr>la_ir = 0, la_branch = 17, la_ind = 1, la_name = None\<rparr>],
     st_instrs := [8 \<mapsto> instr_at IR_PUSH 0 (A_value NIL_ADDR) A_none, 9 \<mapsto> instr_at IR_JN 0 (A_label 25) A_none,
                   10 \<mapsto> instr_at IR_PUSH 0 (A_value 3) A_none, 11 \<mapsto> instr_at IR_JMP 0 (A_label 26) A_none,
                   18 \<mapsto> instr_at IR_PUSH 0 (A_value 4) A_none, 19 \<mapsto> instr_at IR_NOP 0 A_none A_none],
     st_ents := [12 \<mapsto> entry_at 0 13 8, 13 \<mapsto> entry_at 12 14 9, 14 \<mapsto> entry_at 13 15 10, 15 \<mapsto> entry_at 14 16 11,
                 16 \<mapsto> entry_at 15 17 18, 17 \<mapsto> entry_at 16 0 19, 21 \<mapsto> entry_at 0 22 3, 22 \<mapsto> entry_at 21 0 4]\<rparr>"

definition ctl_if :: ctl_prog where
  "ctl_if = [12 \<mapsto> (C_PUSH NIL_ADDR, 13), 13 \<mapsto> (C_JN 16, 14), 14 \<mapsto> (C_PUSH 3, 15), 15 \<mapsto> (C_JMP 17, 16),
     16 \<mapsto> (C_PUSH 4, 17), 17 \<mapsto> (C_NOP, 0)]"

theorem control_flow_refines_witness:
  "\<exists>s'. exec_branch (\<lambda>f s cx n. None) 6 prog_if 6 12 = Some s' \<and> stack_holds s' 6 [4]"
proof -
  have l: "is_list prog_if 5 []" by (simp add: is_list_def chain_def prog_if_def prog12_def empty_list_def)
  then have "holds prog_if 5 []" unfolding holds_def by fastforce
  moreover have "heap_ok prog_if"
    by (auto simp: heap_ok_def heap_live_def prog_if_def prog12_def state0_def NIL_ADDR_def TRUE_ADDR_def split: if_splits)
  ultimately have r: "runs prog_if 6 5 []" by (simp add: runs_def prog_if_def prog12_def init_context_def)
  have i: "\<not> ai_interrupted prog_if" by (simp add: prog_if_def prog12_def state0_def)
  have c: "st_ctxs prog_if 6 = Some (init_context\<lparr>cx_state := True, cx_stack := 5\<rparr>)"
    "cx_parent (init_context\<lparr>cx_state := True, cx_stack := 5\<rparr>) = 0"
    by (simp_all add: prog_if_def prog12_def init_context_def)
  have e: "\<exists>es. is_list prog_if 5 es \<and> ip \<notin> set es" for ip using l by fastforce
  have "ctl_at prog_if 5 ctl_if"
    unfolding ctl_at_def ctl_if_def using e
    by (auto split: if_splits)
      (simp_all add: prog_if_def prog12_def entry_at_def instr_at_def label_to_def NIL_ADDR_def TRUE_ADDR_def)
  moreover have "ctl_closed ctl_if" by (auto simp: ctl_closed_def ctl_if_def split: if_splits)
  moreover have "12 \<in> insert 0 (dom ctl_if)" by (simp add: ctl_if_def)
  moreover have "values_in prog_if []" by (simp add: values_in_def)
  ultimately have "case ctl_run ctl_if (value_nil prog_if) 6 12 [] of
      None \<Rightarrow> exec_branch (\<lambda>f s cx n. None) 6 prog_if 6 12 = None
    | Some ws \<Rightarrow> \<exists>s'. exec_branch (\<lambda>f s cx n. None) 6 prog_if 6 12 = Some s' \<and> stack_holds s' 6 ws \<and> vm_keeps 5 {} prog_if s'"
    by (rule control_flow_refines [OF r i c])
  moreover have "value_nil prog_if NIL_ADDR" by (simp add: value_nil_def prog_if_def prog12_def NIL_ADDR_def TRUE_ADDR_def NIL_VALUE_def)
  then have "ctl_run ctl_if (value_nil prog_if) 6 12 [] = Some [4]"
    by (simp add: ctl_if_def eval_nat_numeral)
  ultimately show ?thesis by auto
qed

end
