(* ===== verification/Tokens.thy ===== *)
theory Tokens
  imports Lexer
begin

text \<open>
  The lexer on strings and files: what it reads from a text, character by character, and that
  it gives back the lexemes of a text in order.
\<close>

subsection \<open>The text that is left\<close>

definition btext :: "akl_io_device \<Rightarrow> string" where
  "btext dev = (case iod_buffer dev of Some (Some t) \<Rightarrow> t | _ \<Rightarrow> [])"

text \<open>
  A device before the text \<open>txt\<close>; the text of a file is without the character 255, which the
  lexer cannot tell from the end.
\<close>

definition reads :: "akl_io_device \<Rightarrow> string \<Rightarrow> bool" where
  "reads dev txt \<longleftrightarrow> NUL \<notin> set txt \<and>
     (case iod_source dev of
        DEVICE_STRING str \<Rightarrow> iod_pos dev \<le> length str \<and> drop (iod_pos dev) str = txt
      | DEVICE_FILE cs e \<Rightarrow> cs = txt \<and> \<not> e \<and> EOF_CHAR \<notin> set txt)"

text \<open>A usable buffer; filling it does not wrap around its size.\<close>

definition buffer_ok :: "akl_io_device \<Rightarrow> bool" where
  "buffer_ok dev \<longleftrightarrow> iod_buffer dev \<noteq> None \<and> 50 \<le> unat (iod_buffer_size dev) \<and> unat (iod_buffer_size dev) < 2 ^ 31"

lemma char_int [simp]: "int_to_char (char_to_int c) = c"
proof -
  have c: "(of_char c :: nat) < 256" by simp
  have "(int (of_char c) - 256) mod 256 = int (of_char c) mod 256" by simp
  then have "char_to_int c mod 256 = int (of_char c)" using c by (simp add: char_to_int_def)
  then show ?thesis by (simp add: int_to_char_def)
qed

lemma char_to_int_0 [simp]: "char_to_int c = 0 \<longleftrightarrow> c = NUL"
proof
  assume "char_to_int c = 0"
  moreover have "(of_char c :: nat) \<noteq> 256" by (metis less_irrefl nat_of_char_less_256)
  ultimately have "(of_char c :: nat) = of_char NUL" by (simp add: char_to_int_def split: if_splits)
  then show "c = NUL" by (simp only: of_char_eq_iff)
qed (simp add: char_to_int_def)

lemma char_byte [simp]: "int_to_char (int (of_char c)) = c"
proof -
  have "int (of_char c :: nat) mod 256 = int (of_char c)"
    using nat_of_char_less_256 [of c] by (intro mod_pos_pos_trivial) simp_all
  then show ?thesis by (simp add: int_to_char_def)
qed

lemma char_byte_0 [simp]: "int (of_char c) = 0 \<longleftrightarrow> c = NUL"
proof
  assume "int (of_char c) = 0"
  then have "(of_char c :: nat) = of_char NUL" by simp
  then show "c = NUL" by (simp only: of_char_eq_iff)
qed simp

lemma char_pos [simp]: "(0::nat) < of_char c \<longleftrightarrow> c \<noteq> NUL"
proof -
  have "(of_char c :: nat) = 0 \<longleftrightarrow> c = NUL" using char_byte_0 [of c] by simp
  then show ?thesis by (metis bot_nat_0.not_eq_extremum)
qed

lemma int_to_char_EOF: "int_to_char (- 1) = EOF_CHAR"
  by code_simp

lemma char_to_int_EOF: "char_to_int c = - 1 \<Longrightarrow> c = EOF_CHAR"
proof -
  assume "char_to_int c = - 1"
  moreover note int_to_char_EOF
  ultimately show ?thesis using char_int [of c] by metis
qed

text \<open>What reading a character and putting it back leave alone.\<close>

definition same_buffer :: "akl_io_device \<Rightarrow> akl_io_device \<Rightarrow> bool" where
  "same_buffer d e \<longleftrightarrow> iod_buffer e = iod_buffer d \<and> iod_buffer_size e = iod_buffer_size d \<and>
     iod_backlog e = iod_backlog d"

lemma same_buffer_trans: "same_buffer d e \<Longrightarrow> same_buffer e f \<Longrightarrow> same_buffer d f"
  by (simp add: same_buffer_def)

lemma same_buffer_ok:
  "same_buffer d e \<Longrightarrow> buffer_ok e = buffer_ok d" "same_buffer d e \<Longrightarrow> btext e = btext d"
  "same_buffer d e \<Longrightarrow> iod_backlog e = iod_backlog d"
  by (simp_all add: same_buffer_def buffer_ok_def btext_def)

text \<open>\<open>dev'\<close> is \<open>dev\<close> after the character \<open>c\<close> was read, as the integer \<open>i\<close>.\<close>

definition after :: "akl_io_device \<Rightarrow> char \<Rightarrow> int \<Rightarrow> akl_io_device \<Rightarrow> bool" where
  "after dev c i dev' \<longleftrightarrow> akl_io_getc dev = Some (i, dev') \<and> int_to_char i = c \<and> i \<noteq> 0 \<and> c \<noteq> NUL \<and> same_buffer dev dev'"

lemma after_char: "after dev c i dev' \<Longrightarrow> getc_char dev = Some (c, dev')"
  by (simp add: after_def getc_char_def)

lemma reads_Cons:
  assumes "reads dev (c # txt)"
  shows "\<exists>i dev'. after dev c i dev' \<and> reads dev' txt"
proof (cases "iod_source dev")
  case (DEVICE_STRING str)
  then have str: "drop (iod_pos dev) str = c # txt" "NUL \<notin> set (c # txt)" using assms by (auto simp: reads_def)
  have l: "iod_pos dev < length str" using str(1) by (cases "iod_pos dev < length str") auto
  have n: "str ! iod_pos dev = c" using str(1) by (rule nth_via_drop)
  have d: "drop (Suc (iod_pos dev)) str = txt" using Cons_nth_drop_Suc [OF l] str(1) by simp
  show ?thesis
    using str l n d DEVICE_STRING by (auto simp: akl_io_getc_def reads_def after_def same_buffer_def)
next
  case (DEVICE_FILE cs e)
  then show ?thesis using assms by (auto simp: akl_io_getc_def reads_def after_def same_buffer_def)
qed

lemma reads_more: "reads dev (c # txt) \<Longrightarrow> akl_io_eof dev = Some False"
proof (cases "iod_source dev")
  case (DEVICE_STRING str)
  assume "reads dev (c # txt)"
  then have str: "drop (iod_pos dev) str = c # txt" "NUL \<noteq> c" using DEVICE_STRING by (auto simp: reads_def)
  then have "iod_pos dev < length str" by (cases "iod_pos dev < length str") auto
  moreover have "str ! iod_pos dev = c" using str(1) by (rule nth_via_drop)
  ultimately show ?thesis using DEVICE_STRING str(2) by (simp add: akl_io_eof_def)
qed (simp add: reads_def akl_io_eof_def)

text \<open>At the end of a string the character 0 is read, at the end of a file the character 255.\<close>

lemma reads_Nil:
  assumes "reads dev []"
  shows "\<exists>c dev'. getc_char dev = Some (c, dev') \<and> (c = NUL \<or> c = EOF_CHAR)"
proof -
  have "char_to_int NUL = 0" by simp
  then have z: "int_to_char 0 = NUL" using char_int [of NUL] by metis
  with int_to_char_EOF assms show ?thesis by (auto simp: reads_def akl_io_getc_def getc_char_def split: iod_source.splits)
qed

text \<open>What does not matter for reading.\<close>

lemma reads_cong:
  "iod_source dev' = iod_source dev \<Longrightarrow> iod_pos dev' = iod_pos dev \<Longrightarrow> reads dev' txt = reads dev txt"
  by (simp add: reads_def cong: iod_source.case_cong)

lemma lex_fuel_reads: "reads dev txt \<Longrightarrow> lex_fuel dev = length txt + 4"
  by (auto simp: reads_def lex_fuel_def split: iod_source.splits)

text \<open>Putting the character just read back, as it was read or converted to a \<open>char\<close>.\<close>

lemma ungetc_reads:
  assumes "reads dev (c # txt)" "after dev c i dev'" "ch = i \<or> ch = char_to_int c"
    "iod_source e = iod_source dev'" "iod_pos e = iod_pos dev'"
  shows "\<exists>e'. akl_io_ungetc ch e = Some e' \<and> reads e' (c # txt) \<and> same_buffer e e'"
proof (cases "iod_source dev")
  case (DEVICE_STRING str)
  have l: "iod_pos dev < length str" using assms(1) DEVICE_STRING by (cases "iod_pos dev < length str") (auto simp: reads_def)
  then have "iod_source dev' = DEVICE_STRING str" "iod_pos dev' = iod_pos dev + 1"
    using assms(2) DEVICE_STRING by (auto simp: after_def akl_io_getc_def)
  then show ?thesis using assms(1,4,5) DEVICE_STRING l
    by (auto simp: akl_io_ungetc_def reads_def same_buffer_def)
next
  case (DEVICE_FILE cs eof)
  have cs: "cs = c # txt" "c \<noteq> EOF_CHAR" using assms(1) DEVICE_FILE by (auto simp: reads_def)
  have "i = int (of_char c)" "iod_source dev' = DEVICE_FILE txt eof"
    using assms(2) DEVICE_FILE cs(1) by (auto simp: after_def akl_io_getc_def)
  moreover have "int_to_char ch = c \<and> ch \<noteq> - 1"
    using assms(3) calculation(1) char_to_int_EOF [of c] cs(2) by auto
  ultimately show ?thesis using assms(1,4) DEVICE_FILE cs
    by (auto simp: akl_io_ungetc_def reads_def same_buffer_def)
qed

subsection \<open>The buffer\<close>

text \<open>The size of the buffer is ahead of the next position; it grows by a half when needed.\<close>

lemma put_buffer_ok:
  assumes "buffer_ok dev" "k \<le> length (btext dev)" "k + 1 < 2 ^ 30" "k + 1 \<le> unat (iod_buffer_size dev)"
  shows "\<exists>dev'. put_buffer dev k c = Some dev' \<and> btext dev' = take k (btext dev) @ [c] \<and> buffer_ok dev' \<and>
    k + 2 \<le> unat (iod_buffer_size dev') \<and> iod_source dev' = iod_source dev \<and> iod_pos dev' = iod_pos dev \<and>
    iod_backlog dev' = iod_backlog dev"
proof -
  let ?z = "iod_buffer_size dev"
  let ?grow = "?z \<le> of_nat (k + 1)"
  define z' where "z' = (if ?grow then ?z + ?z div 2 else ?z)"
  have k: "unat (of_nat (k + 1) :: u32) = k + 1" using assms(3) by (simp add: unat_of_nat del: of_nat_add of_nat_Suc)
  have z: "50 \<le> unat ?z" "unat ?z < 2 ^ 31" using assms(1) by (simp_all add: buffer_ok_def)
  have g: "unat z' = (if unat ?z \<le> k + 1 then unat ?z + unat ?z div 2 else unat ?z)"
  proof -
    have "unat (?z div 2) = unat ?z div 2" by (simp add: unat_div)
    moreover have "unat ?z + unat ?z div 2 < 2 ^ 32" using z(2) by simp
    ultimately have "unat (?z + ?z div 2) = unat ?z + unat ?z div 2" using unat_add_lem [of ?z "?z div 2"] by simp
    then show ?thesis using k by (simp add: z'_def word_le_nat_alt)
  qed
  have z': "k + 2 \<le> unat z'" "50 \<le> unat z'" "unat z' < 2 ^ 31"
    using g z assms(3,4) by (auto split: if_splits)
  have f: "\<not> z' \<le> of_nat (k + 1)" using z'(1) k by (simp add: word_le_nat_alt)
  obtain b where b: "iod_buffer dev = Some b" using assms(1) by (auto simp: buffer_ok_def)
  define dev' where "dev' = dev\<lparr>iod_buffer_size := z', iod_buffer := Some (Some (take k (btext dev) @ [c]))\<rparr>"
  have t: "(case b of None \<Rightarrow> [] | Some t \<Rightarrow> t) = btext dev" using b by (simp add: btext_def)
  have "put_buffer dev k c = Some dev'"
  proof (cases ?grow)
    case True
    then show ?thesis using b t f assms(2) by (auto simp: put_buffer_def z'_def dev'_def Let_def)
  next
    case False
    then have "dev\<lparr>iod_buffer_size := ?z\<rparr> = dev" "z' = ?z" by (simp_all add: z'_def)
    then show ?thesis using b t f assms(2) False by (auto simp: put_buffer_def dev'_def Let_def)
  qed
  then show ?thesis using z' by (simp add: dev'_def btext_def buffer_ok_def)
qed

subsection \<open>Atoms and numbers\<close>

text \<open>What a loop that copies characters leaves behind.\<close>

definition copied :: "akl_io_device \<Rightarrow> nat \<Rightarrow> string \<Rightarrow> string \<Rightarrow> akl_io_device \<Rightarrow> bool" where
  "copied dev i w rst dev' \<longleftrightarrow> reads dev' rst \<and> buffer_ok dev' \<and> iod_backlog dev' = iod_backlog dev \<and>
     btext dev' = (if w = [] then btext dev else take i (btext dev) @ w)"

lemma buffer_ok_cong:
  "iod_buffer dev' = iod_buffer dev \<Longrightarrow> iod_buffer_size dev' = iod_buffer_size dev \<Longrightarrow> buffer_ok dev' = buffer_ok dev"
  "iod_buffer dev' = iod_buffer dev \<Longrightarrow> btext dev' = btext dev"
  by (simp_all add: buffer_ok_def btext_def)

text \<open>
  The loops of \<open>copy_atom\<close> and \<open>copy_number\<close>: characters that satisfy \<open>P\<close> are copied as \<open>f\<close>
  of them; the first other one is put back.
\<close>

lemma copy_loop_ok:
  assumes step: "\<And>n dev i c k dev1. after dev c k dev1 \<Longrightarrow>
      loop (Suc n) dev i =
        (if P c
         then do { dev \<leftarrow> put_buffer dev1 i (f c); e \<leftarrow> akl_io_eof dev;
                   (if e then Some dev else loop n dev (i + 1)) }
         else akl_io_ungetc (g c k) dev1)"
    and g: "\<And>c k. g c k = k \<or> g c k = char_to_int c"
    and "reads dev (w @ rst)" "\<forall>c\<in>set w. P c" "rst \<noteq> []" "\<not> P (hd rst)"
    "buffer_ok dev" "i \<le> length (btext dev)" "i + length w + 1 < 2 ^ 30" "i + 1 \<le> unat (iod_buffer_size dev)"
    "length w < n"
  shows "\<exists>dev'. loop n dev i = Some dev' \<and> copied dev i (map f w) rst dev'"
  using assms(3-)
proof (induction w arbitrary: dev i n)
  case Nil
  then obtain c cs where r: "rst = c # cs" "\<not> P c" by (cases rst) auto
  obtain m where n: "n = Suc m" using Nil.prems(9) by (cases n) auto
  have rd: "reads dev (c # cs)" using Nil.prems(1) r(1) by simp
  obtain k d1 where d1: "after dev c k d1" using reads_Cons [OF rd] by blast
  obtain d2 where d2: "akl_io_ungetc (g c k) d1 = Some d2" "reads d2 (c # cs)" "same_buffer d1 d2"
    using ungetc_reads [OF rd d1 g refl refl] by blast
  have "loop n dev i = Some d2" using step [OF d1] d2(1) r(2) n by simp
  moreover have "same_buffer dev d2" using d1 d2(3) same_buffer_trans by (auto simp: after_def)
  ultimately show ?case
    using d2(2) r(1) Nil.prems(5) by (simp add: copied_def same_buffer_ok [of dev d2])
next
  case (Cons c w)
  obtain m where n: "n = Suc m" "length w < m" using Cons.prems(9) by (cases n) auto
  obtain k d1 where d1: "after dev c k d1" "reads d1 (w @ rst)"
    using reads_Cons [of dev c "w @ rst"] Cons.prems(1) by auto
  have sb: "same_buffer dev d1" using d1(1) by (simp add: after_def)
  have b1: "buffer_ok d1" "btext d1 = btext dev" "iod_buffer_size d1 = iod_buffer_size dev" "iod_backlog d1 = iod_backlog dev"
    using Cons.prems(5) same_buffer_ok [OF sb] sb by (simp_all add: same_buffer_def)
  obtain d2 where d2: "put_buffer d1 i (f c) = Some d2" "btext d2 = take i (btext dev) @ [f c]" "buffer_ok d2"
    "i + 2 \<le> unat (iod_buffer_size d2)" "iod_source d2 = iod_source d1" "iod_pos d2 = iod_pos d1"
    "iod_backlog d2 = iod_backlog d1"
    using put_buffer_ok [OF b1(1), of i "f c"] b1 Cons.prems(6-8) by auto
  have r2: "reads d2 (w @ rst)" using d1(2) reads_cong [OF d2(5,6)] by simp
  have ne: "w @ rst \<noteq> []" using Cons.prems(3) by simp
  then have e: "akl_io_eof d2 = Some False" using r2 reads_more [of d2] by (cases "w @ rst") auto
  have c: "P c" using Cons.prems(2) by simp
  have l2: "length (btext d2) = i + 1" using d2(2) Cons.prems(6) by simp
  have "\<exists>dev'. loop m d2 (i + 1) = Some dev' \<and> copied d2 (i + 1) (map f w) rst dev'"
    by (rule Cons.IH [OF r2]) (use Cons.prems n l2 d2(3,4) in auto)
  then obtain dev' where d: "loop m d2 (i + 1) = Some dev'" "copied d2 (i + 1) (map f w) rst dev'" by blast
  have "loop n dev i = Some dev'" using step [OF d1(1)] d2(1) e c n(1) d(1) by auto
  moreover have "copied dev i (map f (c # w)) rst dev'"
    using d(2) l2 d2(2,7) b1(4) by (auto simp: copied_def)
  ultimately show ?case by blast
qed

lemma copy_atom_loop_ok:
  assumes "reads dev (w @ rst)" "\<forall>c\<in>set w. \<not> ends_atom c" "rst \<noteq> []" "ends_atom (hd rst)"
    "buffer_ok dev" "i \<le> length (btext dev)" "i + length w + 1 < 2 ^ 30" "i + 1 \<le> unat (iod_buffer_size dev)"
    "length w < n"
  shows "\<exists>dev'. copy_atom_loop n dev i = Some dev' \<and> copied dev i (map tolower w) rst dev'"
  by (rule copy_loop_ok [where P = "\<lambda>c. \<not> ends_atom c" and loop = copy_atom_loop and g = "\<lambda>c k. char_to_int c"])
    (use assms in \<open>auto simp: getc_char_def ungetc_char_def after_def\<close>)

lemma copy_number_loop_ok:
  assumes "reads dev (w @ rst)" "\<forall>c\<in>set w. is_valid_in_number c" "rst \<noteq> []" "\<not> is_valid_in_number (hd rst)"
    "buffer_ok dev" "i \<le> length (btext dev)" "i + length w + 1 < 2 ^ 30" "i + 1 \<le> unat (iod_buffer_size dev)"
    "length w < n"
  shows "\<exists>dev'. copy_number_loop n dev i = Some dev' \<and> copied dev i w rst dev'"
  using copy_loop_ok [where P = is_valid_in_number and loop = copy_number_loop and f = "\<lambda>c. c" and g = "\<lambda>c k. k", OF _ _ assms]
  by (auto simp: after_def)

subsection \<open>Lexemes\<close>

datatype lexeme = L_open | L_close | L_atom string | L_number string

fun lexeme_text :: "lexeme \<Rightarrow> string" where
  "lexeme_text L_open = ''(''"
| "lexeme_text L_close = '')''"
| "lexeme_text (L_atom w) = w"
| "lexeme_text (L_number w) = w"

fun lexeme_token :: "lexeme \<Rightarrow> akl_token" where
  "lexeme_token L_open = tLBRACE"
| "lexeme_token L_close = tRBRACE"
| "lexeme_token (L_atom w) = tATOM"
| "lexeme_token (L_number w) = tNUMBER"

text \<open>
  The characters an atom starts with, without those that have a meaning of their own; a sign is
  an atom only when it stands alone.
\<close>

definition starts_atom :: "char \<Rightarrow> bool" where
  "starts_atom c \<longleftrightarrow> (is_alpha c \<or> is_punct c) \<and> c \<notin> set ''#+-();:'' \<and> c \<noteq> DQUOTE \<and> c \<noteq> QUOTE"

fun lexeme_ok :: "lexeme \<Rightarrow> bool" where
  "lexeme_ok L_open = True"
| "lexeme_ok L_close = True"
| "lexeme_ok (L_atom w) = (w = ''+'' \<or> w = ''-'' \<or>
     (w \<noteq> [] \<and> starts_atom (hd w) \<and> (\<forall>c\<in>set w. \<not> ends_atom c \<and> c \<noteq> NUL) \<and> length w < 2 ^ 29 \<and>
      strcasecmp (map tolower w) ''NIL'' \<noteq> 0 \<and> strcasecmp (map tolower w) ''T'' \<noteq> 0))"
| "lexeme_ok (L_number w) = (w \<noteq> [] \<and> (\<forall>c\<in>set w. is_digit c) \<and> length w < 2 ^ 29)"

text \<open>
  What may follow a lexeme, and the text of the buffer after it. After a sign the lexer does not
  stop at the end of the line: a digit at the start of the next line would belong to it.
\<close>

fun follows_ok :: "lexeme \<Rightarrow> string \<Rightarrow> bool" where
  "follows_ok L_open r = (r \<noteq> [] \<and> hd r \<noteq> CHR '')'')"
| "follows_ok L_close r = True"
| "follows_ok (L_atom w) r =
     (r \<noteq> [] \<and> (hd r = CHR '' '' \<or> hd r = CHR '')'' \<or> hd r = NL \<and> w \<noteq> ''+'' \<and> w \<noteq> ''-''))"
| "follows_ok (L_number w) r = (r \<noteq> [] \<and> (hd r = CHR '' '' \<or> hd r = CHR '')'' \<or> hd r = NL))"

fun token_text :: "lexeme \<Rightarrow> string option" where
  "token_text (L_atom w) = Some (map tolower w)"
| "token_text (L_number w) = Some w"
| "token_text l = None"

text \<open>The characters with a meaning of their own.\<close>

lemma not_digit [simp]:
  "\<not> is_digit CHR '' ''" "\<not> is_digit CHR ''(''" "\<not> is_digit CHR '')''" "\<not> is_digit CHR ''+''" "\<not> is_digit CHR ''-''"
  "\<not> is_digit NL"
  by (simp_all add: is_digit_def)

text \<open>A device before a text with blanks and ends of lines skipped.\<close>

definition blank :: "char \<Rightarrow> bool" where "blank c \<longleftrightarrow> c = CHR '' '' \<or> c = NL"

definition ready :: "akl_io_device \<Rightarrow> string \<Rightarrow> bool" where
  "ready dev t \<longleftrightarrow> (\<exists>u. reads dev u \<and> dropWhile blank u = dropWhile blank t) \<and> buffer_ok dev \<and> iod_backlog dev = tEOF"

lemma skip_blanks:
  "reads dev u \<Longrightarrow> buffer_ok dev \<Longrightarrow> length u + 4 \<le> n \<Longrightarrow>
   \<exists>m dev'. lex_loop n dev None = lex_loop m dev' None \<and> reads dev' (dropWhile blank u) \<and> buffer_ok dev' \<and>
     iod_backlog dev' = iod_backlog dev \<and> length (dropWhile blank u) + 4 \<le> m"
proof (induction u arbitrary: dev n)
  case Nil
  then show ?case by (intro exI [of _ n] exI [of _ dev]) simp
next
  case (Cons c u)
  show ?case
  proof (cases "blank c")
    case False
    then show ?thesis using Cons.prems by (intro exI [of _ n] exI [of _ dev]) simp
  next
    case True
    obtain m where n: "n = Suc m" "length u + 4 \<le> m" using Cons.prems(3) by (cases n) auto
    obtain k d1 where d1: "after dev c k d1" "reads d1 u" using reads_Cons [OF Cons.prems(1)] by blast
    define d2 where "d2 = (if c = NL then d1\<lparr>iod_line_count := iod_line_count d1 + 1, iod_char_count := 0\<rparr>
       else d1\<lparr>iod_column := iod_char_count d1 + 1\<rparr>)"
    have "c = CHR '' '' \<or> c = NL" using True by (simp add: blank_def)
    then have "lex_loop n dev None = lex_loop m d2 None"
      by (elim disjE) (simp_all add: after_char [OF d1(1)] n(1) d2_def Let_def)
    moreover have "reads d2 u" using d1(2) reads_cong [of d2 d1] by (simp add: d2_def)
    moreover have "same_buffer dev d2" using d1(1) by (simp add: d2_def after_def same_buffer_def)
    then have "buffer_ok d2" "iod_backlog d2 = iod_backlog dev" using Cons.prems(2) same_buffer_ok [of dev d2] by simp_all
    ultimately show ?thesis using Cons.IH [of d2 m] n(2) True by simp
  qed
qed

text \<open>One lexeme, by its kinds.\<close>

lemma readyI:
  "reads dev u \<Longrightarrow> dropWhile blank u = dropWhile blank t \<Longrightarrow> buffer_ok dev \<Longrightarrow> iod_backlog dev = tEOF \<Longrightarrow> ready dev t"
  unfolding ready_def by blast

lemma lex_brace:
  assumes "reads dev (lexeme_text l @ rst)" "l = L_open \<or> l = L_close" "follows_ok l rst"
    "buffer_ok dev" "iod_backlog dev = tEOF"
  shows "\<exists>dev'. lex_loop (Suc n) dev None = Some (lexeme_token l, dev') \<and> ready dev' rst"
proof (cases l)
  case L_close
  have rd: "reads dev (CHR '')'' # rst)" using assms(1) L_close by simp
  obtain k d1 where d1: "after dev CHR '')'' k d1" "reads d1 rst" using reads_Cons [OF rd] by blast
  define d2 where "d2 = d1\<lparr>iod_column := iod_char_count d1 + 1\<rparr>"
  have sb: "same_buffer dev d2" using d1(1) by (simp add: d2_def after_def same_buffer_def)
  have "lex_loop (Suc n) dev None = Some (tRBRACE, d2)" using after_char [OF d1(1)] by (simp add: d2_def Let_def)
  moreover have "ready d2 rst"
    by (rule readyI [of d2 rst]) (use d1(2) assms(4,5) same_buffer_ok [OF sb] reads_cong [of d2 d1] in \<open>simp_all add: d2_def\<close>)
  ultimately show ?thesis using L_close by auto
next
  case L_open
  obtain c r where r: "rst = c # r" "c \<noteq> CHR '')''" using assms(3) L_open by (cases rst) auto
  have rd: "reads dev (CHR ''('' # c # r)" using assms(1) L_open r by simp
  obtain k d1 where d1: "after dev CHR ''('' k d1" "reads d1 (c # r)" using reads_Cons [OF rd] by blast
  define d2 where "d2 = d1\<lparr>iod_column := iod_char_count d1 + 1\<rparr>"
  have r2: "reads d2 (c # r)" using d1(2) reads_cong [of d2 d1] by (simp add: d2_def)
  obtain j d3 where d3: "after d2 c j d3" using reads_Cons [OF r2] by blast
  obtain d4 where d4: "akl_io_ungetc (char_to_int c) d3 = Some d4" "reads d4 (c # r)" "same_buffer d3 d4"
    using ungetc_reads [OF r2 d3 _ refl refl] by blast
  have "same_buffer dev d3" using d1(1) d3 by (simp add: d2_def after_def same_buffer_def)
  then have sb: "same_buffer dev d4" using d4(3) same_buffer_trans by blast
  have "lex_loop (Suc n) dev None = Some (tLBRACE, d4)"
    using after_char [OF d1(1)] after_char [OF d3] d4(1) r(2) by (simp add: d2_def Let_def ungetc_char_def)
  moreover have "ready d4 rst"
    by (rule readyI [OF d4(2)]) (use r assms(4,5) same_buffer_ok [OF sb] in simp_all)
  ultimately show ?thesis using L_open by auto
qed (use assms(2) in auto)

text \<open>A sign that stands alone: the blank after it is read, a brace is put back.\<close>

lemma lex_sign:
  assumes "reads dev (c # rst)" "c = CHR ''+'' \<or> c = CHR ''-''" "follows_ok (L_atom [c]) rst"
    "buffer_ok dev" "iod_backlog dev = tEOF"
  shows "\<exists>dev'. lex_loop (Suc (Suc n)) dev None = Some (tATOM, dev') \<and> ready dev' rst \<and> btext dev' = [c]"
proof -
  obtain b r where r: "rst = b # r" "b = CHR '' '' \<or> b = CHR '')''" using assms(2,3) by (cases rst) auto
  obtain k d1 where d1: "after dev c k d1" "reads d1 (b # r)" using reads_Cons [OF assms(1)] r by blast
  have s1: "lex_loop (Suc (Suc n)) dev None = lex_loop (Suc n) d1 (Some c)"
    using after_char [OF d1(1)] assms(2) by (subst lex_loop.simps) auto
  obtain j d2 where d2: "after d1 b j d2" "reads d2 r" using reads_Cons [OF d1(2)] by blast
  define d3 where "d3 = set_buffer (d2\<lparr>iod_column := iod_char_count d2 + 1\<rparr>) [c]"
  have b: "buffer_ok d3" "btext d3 = [c]" "iod_backlog d3 = tEOF"
    using assms(4,5) d1(1) d2(1) by (simp_all add: d3_def buffer_ok_def btext_def set_buffer_def after_def same_buffer_def)
  show ?thesis
  proof (cases "b = CHR '' ''")
    case True
    have "lex_loop (Suc n) d1 (Some c) = Some (tATOM, d3)"
      using after_char [OF d2(1)] True assms(2) by (auto simp: d3_def Let_def)
    moreover have "ready d3 rst"
      by (rule readyI [of d3 r]) (use d2(2) reads_cong [of d3 d2] b r True in \<open>simp_all add: d3_def set_buffer_def blank_def\<close>)
    ultimately show ?thesis using s1 b(2) by auto
  next
    case False
    then have bb: "b = CHR '')''" using r(2) by simp
    obtain d4 where d4: "akl_io_ungetc (char_to_int b) d3 = Some d4" "reads d4 (b # r)" "same_buffer d3 d4"
      using ungetc_reads [OF d1(2) d2(1), of "char_to_int b" d3] by (auto simp: d3_def set_buffer_def)
    have "lex_loop (Suc n) d1 (Some c) = Some (tATOM, d4)"
      using after_char [OF d2(1)] bb assms(2) d4(1) by (auto simp: d3_def Let_def ungetc_char_def)
    moreover have "ready d4 rst"
      by (rule readyI [OF d4(2)]) (use r b same_buffer_ok [OF d4(3)] in simp_all)
    moreover have "btext d4 = [c]" using b(2) same_buffer_ok [OF d4(3)] by simp
    ultimately show ?thesis using s1 by auto
  qed
qed

text \<open>The first character of a word is put back.\<close>

lemma first_back:
  assumes "reads dev (c # u)"
  shows "\<exists>d1 d2. getc_char dev = Some (c, d1) \<and> c \<noteq> NUL \<and> akl_io_ungetc (char_to_int c) d1 = Some d2 \<and>
    reads d2 (c # u) \<and> same_buffer dev d2"
proof -
  obtain k d1 where d1: "after dev c k d1" using reads_Cons [OF assms] by blast
  obtain d2 where d2: "akl_io_ungetc (char_to_int c) d1 = Some d2" "reads d2 (c # u)" "same_buffer d1 d2"
    using ungetc_reads [OF assms d1 _ refl refl] by blast
  have "same_buffer dev d2" using d1 d2(3) same_buffer_trans by (auto simp: after_def)
  then show ?thesis using d1 d2(1,2) after_char [OF d1] by (auto simp: after_def)
qed

lemma lex_number:
  assumes "reads dev (w @ rst)" "lexeme_ok (L_number w)" "follows_ok (L_number w) rst" "buffer_ok dev" "iod_backlog dev = tEOF"
  shows "\<exists>dev'. lex_loop (Suc n) dev None = Some (tNUMBER, dev') \<and> ready dev' rst \<and> btext dev' = w"
proof -
  obtain c u where w: "w = c # u" "is_digit c" "\<forall>c\<in>set w. is_digit c" "length w < 2 ^ 29" using assms(2) by (cases w) auto
  obtain b r where r: "rst = b # r" "b = CHR '' '' \<or> b = CHR '')'' \<or> b = NL" using assms(3) by (cases rst) auto
  have rd: "reads dev (c # u @ rst)" using assms(1) w(1) by simp
  obtain d1 d2 where d: "getc_char dev = Some (c, d1)" "c \<noteq> NUL" "akl_io_ungetc (char_to_int c) d1 = Some d2"
    "reads d2 (w @ rst)" "same_buffer dev d2"
    using first_back [OF rd] w(1) by auto
  have b2: "buffer_ok d2" "iod_backlog d2 = tEOF" using assms(4,5) same_buffer_ok [OF d(5)] by simp_all
  have v: "\<forall>c\<in>set w. is_valid_in_number c" using w(3) by (simp add: is_valid_in_number_def)
  have nv: "\<not> is_valid_in_number (hd rst)" using r by (auto simp: is_valid_in_number_def tolower_def is_upper_def)
  obtain d3 where d3: "copy_number_loop (lex_fuel d2) d2 0 = Some d3" "copied d2 0 w rst d3"
    using copy_number_loop_ok [OF d(4) v _ nv b2(1), of 0 "lex_fuel d2"] w(1,4) r(1) lex_fuel_reads [OF d(4)] b2(1)
    by (auto simp: buffer_ok_def)
  have "c \<noteq> CHR ''#'' \<and> c \<noteq> EOF_CHAR \<and> c \<noteq> NL \<and> c \<noteq> CHR ''+'' \<and> c \<noteq> CHR ''-''"
    using w(2) by (auto simp: is_digit_def)
  then have "lex_loop (Suc n) dev None = Some (tNUMBER, d3)"
    using d(1-3) d3(1) w(2) by (auto simp: ungetc_char_def copy_number_def)
  moreover have "ready d3 rst" "btext d3 = w"
    using d3(2) b2(2) w(1) readyI [of d3 rst rst] by (auto simp: copied_def)
  ultimately show ?thesis by blast
qed

lemma atom_class:
  assumes "is_alpha c \<or> is_punct c"
  shows "c \<noteq> EOF_CHAR \<and> c \<noteq> NL \<and> \<not> is_digit c \<and> c \<noteq> CHR '' ''"
proof -
  have "\<not> (is_alpha x \<or> is_punct x)" if "x = EOF_CHAR \<or> x = NL \<or> x = CHR '' ''" for x
    using that by (elim disjE) (simp_all add: is_alpha_def is_punct_def is_upper_def is_lower_def)
  moreover have "\<not> is_digit c"
    using assms by (auto simp: is_alpha_def is_punct_def is_digit_def is_upper_def is_lower_def)
  ultimately show ?thesis using assms by blast
qed

lemma lex_atom:
  assumes "reads dev (w @ rst)" "lexeme_ok (L_atom w)" "w \<noteq> ''+''" "w \<noteq> ''-''" "follows_ok (L_atom w) rst"
    "buffer_ok dev" "iod_backlog dev = tEOF"
  shows "\<exists>dev'. lex_loop (Suc n) dev None = Some (tATOM, dev') \<and> ready dev' rst \<and> btext dev' = map tolower w"
proof -
  obtain c u where w: "w = c # u" "starts_atom c" "\<forall>c\<in>set w. \<not> ends_atom c \<and> c \<noteq> NUL" "length w < 2 ^ 29"
    "strcasecmp (map tolower w) ''NIL'' \<noteq> 0" "strcasecmp (map tolower w) ''T'' \<noteq> 0"
    using assms(2-4) by (cases w) auto
  obtain b r where r: "rst = b # r" "b = CHR '' '' \<or> b = CHR '')'' \<or> b = NL" using assms(5) by (cases rst) auto
  have rd: "reads dev (c # u @ rst)" using assms(1) w(1) by simp
  obtain d1 d2 where d: "getc_char dev = Some (c, d1)" "c \<noteq> NUL" "akl_io_ungetc (char_to_int c) d1 = Some d2"
    "reads d2 (w @ rst)" "same_buffer dev d2"
    using first_back [OF rd] w(1) by auto
  have b2: "buffer_ok d2" "iod_backlog d2 = tEOF" using assms(6,7) same_buffer_ok [OF d(5)] by simp_all
  have nv: "ends_atom (hd rst)" using r by (auto simp: ends_atom_def)
  obtain d3 where d3: "copy_atom_loop (lex_fuel d2) d2 0 = Some d3" "copied d2 0 (map tolower w) rst d3"
    using copy_atom_loop_ok [OF d(4) _ _ nv b2(1), of 0 "lex_fuel d2"] w(1,3,4) r(1) lex_fuel_reads [OF d(4)] b2(1)
    by (auto simp: buffer_ok_def)
  have t: "btext d3 = map tolower w" using d3(2) w(1) by (simp add: copied_def)
  have low: "tolower x \<noteq> NUL" if "x \<noteq> NUL" for x
  proof (cases "is_upper x")
    case True
    then have "(of_char (tolower x) :: nat) \<noteq> of_char NUL" by (simp add: tolower_def is_upper_def)
    then show ?thesis by metis
  qed (use that in \<open>simp add: tolower_def\<close>)
  have "takeWhile (\<lambda>c. c \<noteq> NUL) (map tolower w) = map tolower w"
    using w(3) low by (auto simp: takeWhile_eq_all_conv)
  moreover have "iod_buffer d3 = Some (Some (map tolower w))"
    using t w(1) by (auto simp: btext_def split: option.splits)
  ultimately have bt: "buffer_text d3 = Some (map tolower w)" by (simp add: buffer_text_def)
  have c: "is_alpha c \<or> is_punct c" "c \<noteq> CHR ''#''" "c \<noteq> CHR ''+''" "c \<noteq> CHR ''-''" "c \<noteq> CHR ''(''" "c \<noteq> CHR '')''"
    "c \<noteq> DQUOTE" "c \<noteq> QUOTE" "c \<noteq> CHR '':''" "c \<noteq> CHR '';''" using w(2) by (auto simp: starts_atom_def)
  have c2: "c \<noteq> EOF_CHAR" "c \<noteq> NL" "\<not> is_digit c" "c \<noteq> CHR '' ''" using atom_class [OF c(1)] by blast+
  have "lex_loop (Suc n) dev None = Some (tATOM, d3)"
    using d(1-3) d3(1) c c2 bt w(5,6) by (simp add: ungetc_char_def copy_atom_def)
  moreover have "ready d3 rst" using d3(2) b2(2) readyI [of d3 rst rst] by (auto simp: copied_def)
  ultimately show ?thesis using t by blast
qed

lemma lex_lexeme:
  assumes "reads dev (lexeme_text l @ rst)" "lexeme_ok l" "follows_ok l rst" "buffer_ok dev" "iod_backlog dev = tEOF"
    "2 \<le> n"
  shows "\<exists>dev'. lex_loop n dev None = Some (lexeme_token l, dev') \<and> ready dev' rst \<and>
    (\<forall>t. token_text l = Some t \<longrightarrow> btext dev' = t)"
proof -
  obtain m where n: "n = Suc (Suc m)" using assms(6) by (metis Suc_le_D numeral_2_eq_2 Suc_le_mono)
  show ?thesis
  proof (cases l)
    case (L_atom w)
    show ?thesis
    proof (cases "w = ''+'' \<or> w = ''-''")
      case True
      then obtain c where c: "w = [c]" "c = CHR ''+'' \<or> c = CHR ''-''" by auto
      then have "tolower c = c" by (auto simp: tolower_def is_upper_def)
      then show ?thesis using lex_sign [of dev c rst m] assms c L_atom n by auto
    next
      case False
      then show ?thesis using lex_atom [of dev w rst "Suc m"] assms L_atom n by auto
    qed
  next
    case (L_number w)
    then show ?thesis using lex_number [of dev w rst "Suc m"] assms n by auto
  qed (use lex_brace [OF assms(1) _ assms(3-5), of "Suc m"] n in auto)
qed

text \<open>The blanks before a lexeme are skipped.\<close>

lemma starts_atom_blank: "starts_atom c \<Longrightarrow> \<not> blank c"
  using atom_class [of c] unfolding starts_atom_def blank_def by blast

lemma lexeme_start: "lexeme_ok l \<Longrightarrow> dropWhile blank (lexeme_text l @ rst) = lexeme_text l @ rst"
proof (cases l)
  case (L_atom w)
  assume "lexeme_ok l"
  then have "w = ''+'' \<or> w = ''-'' \<or> w \<noteq> [] \<and> \<not> blank (hd w)" using L_atom starts_atom_blank by auto
  then show ?thesis using L_atom by (cases w) (auto simp: blank_def)
next
  case (L_number w)
  assume "lexeme_ok l"
  then obtain c u where cu: "w = c # u" "is_digit c" using L_number by (cases w) auto
  then have "\<not> blank c" unfolding blank_def using not_digit(1,6) by metis
  then show ?thesis using L_number cu(1) by simp
qed (simp_all add: blank_def)

lemma akl_lex_ready:
  assumes "ready dev (lexeme_text l @ rst)" "lexeme_ok l" "follows_ok l rst"
  shows "\<exists>dev'. akl_lex dev = Some (lexeme_token l, dev') \<and> ready dev' rst \<and>
    (\<forall>t. token_text l = Some t \<longrightarrow> btext dev' = t)"
proof -
  obtain u where u: "reads dev u" "dropWhile blank u = lexeme_text l @ rst" "buffer_ok dev" "iod_backlog dev = tEOF"
    using assms(1) lexeme_start [OF assms(2)] by (auto simp: ready_def)
  obtain m d1 where d1: "lex_loop (lex_fuel dev) dev None = lex_loop m d1 None" "reads d1 (lexeme_text l @ rst)"
    "buffer_ok d1" "iod_backlog d1 = tEOF" "4 \<le> m"
    using skip_blanks [OF u(1,3), of "lex_fuel dev"] u(2,4) lex_fuel_reads [OF u(1)] by auto
  obtain b where "iod_buffer dev = Some b" using u(3) by (auto simp: buffer_ok_def)
  then have "akl_lex dev = lex_loop m d1 None" using u(4) d1(1) by (simp add: akl_lex_def)
  then show ?thesis using lex_lexeme [OF d1(2) assms(2,3) d1(3,4), of m] d1(5) by simp
qed

text \<open>The end of the text.\<close>

lemma akl_lex_end:
  assumes "ready dev []"
  shows "\<exists>dev'. akl_lex dev = Some (tEOF, dev')"
proof -
  obtain u where u: "reads dev u" "dropWhile blank u = []" "buffer_ok dev" "iod_backlog dev = tEOF"
    using assms by (auto simp: ready_def)
  obtain m d1 where d1: "lex_loop (lex_fuel dev) dev None = lex_loop m d1 None" "reads d1 []" "4 \<le> m"
    using skip_blanks [OF u(1,3), of "lex_fuel dev"] u(2,4) lex_fuel_reads [OF u(1)] by auto
  obtain c d2 where c: "getc_char d1 = Some (c, d2)" "c = NUL \<or> c = EOF_CHAR" using reads_Nil [OF d1(2)] by blast
  obtain k where m: "m = Suc k" using d1(3) by (cases m) auto
  from c(2) have "lex_loop m d1 None = Some (tEOF, d2)" by (elim disjE) (simp_all add: c(1) m)
  moreover obtain b where "iod_buffer dev = Some b" using u(3) by (auto simp: buffer_ok_def)
  ultimately show ?thesis using u(4) d1(1) by (simp add: akl_lex_def)
qed

text \<open>All tokens of a device, with the text an atom or a number leaves in the buffer.\<close>

fun lex_all :: "nat \<Rightarrow> akl_io_device \<Rightarrow> (akl_token \<times> string option) list option" where
  "lex_all 0 dev = None"
| "lex_all (Suc n) dev =
     do {
       (tok, dev) \<leftarrow> akl_lex dev;
       (if tok = tEOF then Some []
        else do {
          ts \<leftarrow> lex_all n dev;
          Some ((tok, if tok = tATOM \<or> tok = tNUMBER then Some (btext dev) else None) # ts)
        })
     }"

text \<open>A text: lexemes with the blanks and ends of lines behind each.\<close>

fun spell :: "(lexeme \<times> string) list \<Rightarrow> string" where
  "spell [] = []"
| "spell ((l, bl) # ls) = lexeme_text l @ bl @ spell ls"

fun spell_ok :: "(lexeme \<times> string) list \<Rightarrow> bool" where
  "spell_ok [] = True"
| "spell_ok ((l, bl) # ls) = (lexeme_ok l \<and> (\<forall>c\<in>set bl. blank c) \<and> follows_ok l (bl @ spell ls) \<and> spell_ok ls)"

lemma ready_blanks: "\<forall>c\<in>set bl. blank c \<Longrightarrow> ready dev (bl @ t) = ready dev t"
  by (simp add: ready_def dropWhile_append2)

lemma lex_all_spell:
  "spell_ok ls \<Longrightarrow> ready dev (spell ls) \<Longrightarrow> length ls < n \<Longrightarrow>
   lex_all n dev = Some (map (\<lambda>(l, k). (lexeme_token l, token_text l)) ls)"
proof (induction ls arbitrary: dev n rule: spell_ok.induct)
  case 1
  then show ?case using akl_lex_end [of dev] by (cases n) auto
next
  case (2 l k ls)
  obtain m where n: "n = Suc m" "length ls < m" using "2.prems"(3) by (cases n) auto
  obtain d1 where d1: "akl_lex dev = Some (lexeme_token l, d1)" "ready d1 (k @ spell ls)"
    "\<forall>t. token_text l = Some t \<longrightarrow> btext d1 = t"
    using akl_lex_ready [of dev l "k @ spell ls"] "2.prems"(1,2) by auto
  have "lex_all m d1 = Some (map (\<lambda>(l, k). (lexeme_token l, token_text l)) ls)"
    using "2.IH" "2.prems"(1) d1(2) n(2) by (simp add: ready_blanks [of k])
  then show ?case using d1(1,3) n(1) by (cases l) auto
qed

text \<open>A device nothing has been read from, and the text it holds.\<close>

definition fresh_device :: "akl_io_device \<Rightarrow> string \<Rightarrow> bool" where
  "fresh_device dev t \<longleftrightarrow> iod_buffer dev = None \<and>
     (iod_source dev = DEVICE_STRING t \<and> iod_pos dev = 0 \<or>
      iod_source dev = DEVICE_FILE t False \<and> CHR 0xFF \<notin> set t)"

lemma fresh_ready:
  assumes "spell_ok ls" "fresh_device dev (spell ls)"
  shows "ready (init_lexer dev) (spell ls)"
proof -
  have nul: "spell_ok ks \<Longrightarrow> NUL \<notin> set (spell ks)" for ks
  proof (induction ks rule: spell_ok.induct)
    case (2 l bl ks)
    then have "NUL \<notin> set (lexeme_text l)" by (cases l) (auto simp: is_digit_def)
    moreover have "\<forall>c\<in>set bl. blank c" using "2.prems" by simp
    then have "NUL \<notin> set bl" unfolding blank_def by fastforce
    ultimately show ?case using 2 by auto
  qed simp
  have b: "buffer_ok (init_lexer dev)" by (simp add: buffer_ok_def init_lexer_def DEF_BUFFER_SIZE_def)
  show ?thesis
    by (rule readyI [OF _ refl b]) (use assms nul in \<open>auto simp: fresh_device_def reads_def init_lexer_def\<close>)
qed

subsection \<open>Properties\<close>

text \<open>
  C17. The lexer reads back what is written. A text of braces, atoms and decimal numbers with
  any blanks and ends of lines between them (at least one character where two would run
  together, a blank behind a sign, and none needed before a closing brace) gives exactly these
  lexemes in order, atoms in small letters, and then the end of the input; on a fresh string
  device and on a fresh file with any line and column (a file without the character 255).
\<close>

theorem lex_spell:
  assumes "spell_ok ls" "fresh_device dev (spell ls)"
  shows "lex_all (length ls + 1) dev = Some (map (\<lambda>(l, k). (lexeme_token l, token_text l)) ls)"
proof -
  have r: "ready (init_lexer dev) (spell ls)" by (rule fresh_ready [OF assms])
  have "akl_lex (init_lexer dev) = akl_lex dev" using assms(2) by (simp add: akl_lex_def init_lexer_def fresh_device_def)
  then have "lex_all (length ls + 1) (init_lexer dev) = lex_all (length ls + 1) dev" by simp
  then show ?thesis using lex_all_spell [OF assms(1) r, of "length ls + 1"] by simp
qed

definition string_device :: "string \<Rightarrow> akl_io_device" where
  "string_device t = \<lparr>iod_source = DEVICE_STRING t, iod_name = None, iod_pos = 0, iod_buffer = None,
     iod_buffer_size = 0, iod_char_count = 0, iod_line_count = 1, iod_column = 0, iod_backlog = tEOF\<rparr>"

definition file_device :: "string \<Rightarrow> akl_io_device" where
  "file_device t = (string_device t)\<lparr>iod_source := DEVICE_FILE t False\<rparr>"

text \<open>The text \<open>(+ 12\<close>, the end of the line and \<open>Foo)\<close> in a file.\<close>

theorem lex_spell_witness:
  "lex_all 6 (file_device (''(+ 12'' @ CHR 0x0A # ''Foo)'')) =
    Some [(tLBRACE, None), (tATOM, Some ''+''), (tNUMBER, Some ''12''), (tATOM, Some ''foo''), (tRBRACE, None)]"
proof -
  let ?ls = "[(L_open, ''''), (L_atom ''+'', '' ''), (L_number ''12'', [CHR 0x0A]), (L_atom ''Foo'', ''''), (L_close, '''')]"
  have f: "starts_atom CHR ''F''" by (simp add: starts_atom_def is_alpha_def is_upper_def)
  have low: "map tolower ''Foo'' = ''foo''" "map tolower ''+'' = ''+''" by code_simp+
  have "strcasecmp ''foo'' ''NIL'' \<noteq> 0" "strcasecmp ''foo'' ''T'' \<noteq> 0"
    by (simp_all add: strcasecmp_eq case_key_def tolower_def is_upper_def)
  then have "lexeme_ok (L_atom ''Foo'')" using f low(1) by (simp add: ends_atom_def del: list.map)
  moreover have "lexeme_ok (L_number ''12'')" by (simp add: is_digit_def)
  moreover have "lexeme_ok (L_atom ''+'')" by simp
  ultimately have ok: "spell_ok ?ls" by (simp add: blank_def del: lexeme_ok.simps(3,4))
  have tt: "token_text (L_atom ''Foo'') = Some ''foo''" "token_text (L_atom ''+'') = Some ''+''" using low by simp_all
  have "lex_all (length ?ls + 1) (file_device (spell ?ls)) = Some (map (\<lambda>(l, k). (lexeme_token l, token_text l)) ?ls)"
    by (rule lex_spell [OF ok]) (simp_all add: fresh_device_def file_device_def string_device_def)
  moreover have "spell ?ls = ''(+ 12'' @ CHR 0x0A # ''Foo)''" "length ?ls + 1 = 6" by simp_all
  ultimately show ?thesis using tt by (simp add: numeral_eq_Suc del: lex_all.simps token_text.simps(1))
qed

end
