(* ===== verification/Codegen.thy ===== *)
theory Codegen
  imports Calls Tokens
begin

text \<open>
  From the text of an arithmetic program to its result: the compiler reads the tokens and
  appends instructions, which are the code that \<open>Calls\<close> runs.
\<close>

subsection \<open>What compiling keeps\<close>

text \<open>
  Symbols and variables stay; values, functions, instructions and entries are added, the
  position of a device moves.
\<close>

definition comp_keeps :: "akl_state \<Rightarrow> akl_state \<Rightarrow> bool" where
  "comp_keeps s s' \<longleftrightarrow>
     (\<exists>n h ls vs fs is cs ds. s' = s\<lparr>st_next := n, st_ents := h, st_lists := ls, st_vals := vs, st_funs := fs,
        st_instrs := is, st_ctxs := cs, st_devs := ds\<rparr>) \<and>
     (\<forall>x V. st_vals s x = Some V \<longrightarrow> st_vals s' x = Some V) \<and>
     (\<forall>x F. st_funs s x = Some F \<longrightarrow> st_funs s' x = Some F)"

lemma comp_keeps_fields:
  assumes "comp_keeps s s'"
  shows "st_syms s' = st_syms s" "st_vars s' = st_vars s" "ai_symbols s' = ai_symbols s"
    "ai_global_vars s' = ai_global_vars s" "ai_interrupted s' = ai_interrupted s"
    "st_out s' = st_out s" "ai_config s' = ai_config s" "ai_errors s' = ai_errors s"
  using assms by (auto simp: comp_keeps_def)

lemma comp_keeps_refl [simp]: "comp_keeps s s"
proof -
  have "s = s\<lparr>st_next := st_next s, st_ents := st_ents s, st_lists := st_lists s, st_vals := st_vals s,
    st_funs := st_funs s, st_instrs := st_instrs s, st_ctxs := st_ctxs s, st_devs := st_devs s\<rparr>" by simp
  then show ?thesis unfolding comp_keeps_def by blast
qed

lemma comp_keeps_trans [trans]: "comp_keeps s t \<Longrightarrow> comp_keeps t u \<Longrightarrow> comp_keeps s u"
  unfolding comp_keeps_def by (elim conjE exE) (intro conjI exI, simp_all)

lemma comp_keepsI:
  assumes "s' = s\<lparr>st_next := st_next s', st_ents := st_ents s', st_lists := st_lists s', st_vals := st_vals s',
      st_funs := st_funs s', st_instrs := st_instrs s', st_ctxs := st_ctxs s', st_devs := st_devs s'\<rparr>"
    "\<And>x V. st_vals s x = Some V \<Longrightarrow> st_vals s' x = Some V" "\<And>x F. st_funs s x = Some F \<Longrightarrow> st_funs s' x = Some F"
  shows "comp_keeps s s'"
  unfolding comp_keeps_def using assms by blast

lemma vm_keeps_comp: "vm_keeps k X s s' \<Longrightarrow> comp_keeps s s'"
  using vm_keeps_vals [of k X s s'] by (intro comp_keepsI) (auto simp: vm_keeps_def)

lemma heap_ok_grow:
  assumes "heap_ok s" "st_next s \<le> st_next s'" "heap_live s' \<subseteq> heap_live s \<union> {st_next s..<st_next s'}"
    "\<And>x V. st_vals s x = Some V \<Longrightarrow> st_vals s' x = Some V"
  shows "heap_ok s'"
proof -
  have n: "3 \<le> st_next s" "heap_live s \<subseteq> {0<..<st_next s}" using assms(1) by (simp_all add: heap_ok_def)
  have "heap_live s' \<subseteq> {0<..<st_next s'}"
  proof
    fix x assume "x \<in> heap_live s'"
    then have "x \<in> {0<..<st_next s} \<or> x \<in> {st_next s..<st_next s'}" using assms(3) n(2) by blast
    then show "x \<in> {0<..<st_next s'}" using assms(2) n(1) by auto
  qed
  then show ?thesis using assms(1,2,4) n(1) by (simp add: heap_ok_def)
qed

subsection \<open>The code under construction\<close>

definition nop_instr :: akl_ir_instruction where
  "nop_instr = \<lparr>in_op = IR_NOP, in_fun = 0, in_arg0 = A_none, in_arg1 = A_none, in_linfo = None\<rparr>"

definition instr_here :: "akl_state \<Rightarrow> addr \<Rightarrow> code_op \<Rightarrow> bool" where
  "instr_here s p c \<longleftrightarrow> (\<exists>I. st_instrs s p = Some I \<and> instr_is I c)"

text \<open>The list \<open>ir\<close> holds the code \<open>cs\<close> and, unless it is empty, the NOP to be filled next.\<close>

definition code_list :: "akl_state \<Rightarrow> addr list \<Rightarrow> code_op list \<Rightarrow> bool" where
  "code_list s ps cs \<longleftrightarrow> distinct ps \<and>
     (ps = [] \<and> cs = [] \<or>
      (\<exists>qs q I. ps = qs @ [q] \<and> list_all2 (instr_here s) qs cs \<and> st_instrs s q = Some I \<and> in_op I = IR_NOP))"

definition written :: "akl_state \<Rightarrow> addr \<Rightarrow> code_op list \<Rightarrow> bool" where
  "written s ir cs \<longleftrightarrow> (\<exists>ps. holds s ir ps \<and> code_list s ps cs)"

lemma code_list_defined: "code_list s ps cs \<Longrightarrow> p \<in> set ps \<Longrightarrow> st_instrs s p \<noteq> None"
proof -
  assume c: "code_list s ps cs" and p: "p \<in> set ps"
  then obtain qs q I where q: "ps = qs @ [q]" "list_all2 (instr_here s) qs cs" "st_instrs s q = Some I"
    by (auto simp: code_list_def)
  show ?thesis
    using p q by (auto simp: list_all2_conv_all_nth in_set_conv_nth instr_here_def)
qed

lemma last_holds: "holds s l ps \<Longrightarrow> akl_list_last s l = Some (if ps = [] then 0 else last ps)"
proof -
  assume "holds s l ps"
  then obtain es where es: "is_list s l es" "ps = map (edata s) es" by (auto simp: holds_def)
  obtain L where L: "st_lists s l = Some L" "li_last L = 0 \<longleftrightarrow> es = []" "li_last L = last0 es"
    by (rule is_list_first_last [OF es(1)])
  have "l \<noteq> 0" using es(1) by (simp add: is_list_def)
  then show ?thesis
    using L es is_list_ents [OF es(1), of "last es"]
    by (auto simp: akl_list_last_def last0_def last_map edata_def)
qed

lemma empty_holds: "holds s l ps \<Longrightarrow> length ps < 2 ^ 32 \<Longrightarrow> akl_list_is_empty s l = Some (ps = [])"
  by (simp add: akl_list_is_empty_def count_holds word_of_nat_eq_0_iff) (use nat_dvd_not_less in force)

lemma list_op_keeps: "list_op A l s s' \<Longrightarrow> comp_keeps s s'"
proof (rule comp_keepsI)
  assume l: "list_op A l s s'"
  show "s' = s\<lparr>st_next := st_next s', st_ents := st_ents s', st_lists := st_lists s', st_vals := st_vals s',
      st_funs := st_funs s', st_instrs := st_instrs s', st_ctxs := st_ctxs s', st_devs := st_devs s'\<rparr>"
    using l unfolding list_op_def by auto
  show "st_vals s' x = Some V" if "st_vals s x = Some V" for x V using that list_op_fields(2) [OF l] by simp
  show "st_funs s' x = Some F" if "st_funs s x = Some F" for x F using that list_op_fields(3) [OF l] by simp
qed

lemma instr_here_cong: "st_instrs s' p = st_instrs s p \<Longrightarrow> instr_here s' p c = instr_here s p c"
  by (simp add: instr_here_def)

lemma instrs_here_cong:
  "(\<And>p. p \<in> set qs \<Longrightarrow> st_instrs s' p = st_instrs s p) \<Longrightarrow>
   list_all2 (instr_here s') qs cs = list_all2 (instr_here s) qs cs"
  by (induction qs arbitrary: cs) (auto simp: list_all2_Cons1 instr_here_def)

text \<open>A new NOP at the end of a list.\<close>

lemma append_nop:
  assumes "heap_ok s" "holds s l ps"
  shows "\<exists>e s'. akl_list_append (snd (new_instr s)) l (st_next s) = Some (e, s') \<and> heap_ok s' \<and>
    holds s' l (ps @ [st_next s]) \<and> st_instrs s' = (st_instrs s)(st_next s \<mapsto> nop_instr) \<and>
    st_ctxs s' = st_ctxs s \<and> st_devs s' = st_devs s \<and> comp_keeps s s' \<and> st_instrs s (st_next s) = None"
proof -
  let ?p = "st_next s"
  define s1 where "s1 = snd (new_instr s)"
  have s1: "s1 = s\<lparr>st_next := ?p + 1, st_instrs := (st_instrs s)(?p \<mapsto> nop_instr)\<rparr>"
    by (simp add: s1_def new_instr_def nop_instr_def Let_def)
  have k1: "comp_keeps s s1" by (rule comp_keepsI) (simp_all add: s1)
  have ok1: "heap_ok s1"
    by (rule heap_ok_grow [OF assms(1)]) (auto simp: s1 heap_live_def split: if_splits)
  have h1: "holds s1 l ps" using assms(2) holds_cong [of s1 s] by (simp add: s1)
  then obtain es where es: "is_list s1 l es" "ps = map (edata s1) es" by (auto simp: holds_def)
  obtain s2 where s2: "akl_list_append s1 l ?p = Some (st_next s1, s2)" "is_list s2 l (es @ [st_next s1])"
    "edata s2 (st_next s1) = ?p" "list_op (set es) l s1 s2" "heap_ok s2"
    using append_ok [OF ok1 es(1)] by blast
  have "map (edata s2) (es @ [st_next s1]) = ps @ [?p]" using list_op_data [OF s2(4) es(1)] s2(3) es(2) by simp
  then have "holds s2 l (ps @ [?p])" using s2(2) unfolding holds_def by metis
  moreover have "st_instrs s2 = (st_instrs s)(?p \<mapsto> nop_instr)" "st_ctxs s2 = st_ctxs s"
    using list_op_fields [OF s2(4)] by (simp_all add: s1)
  moreover have "st_devs s2 = st_devs s" using s2(4) unfolding list_op_def by (auto simp: s1)
  moreover have "comp_keeps s s2" by (rule comp_keeps_trans [OF k1 list_op_keeps [OF s2(4)]])
  moreover have "st_instrs s ?p = None" using heap_ok_fresh [OF assms(1)] by (auto simp: heap_live_def)
  ultimately show ?thesis using s2(1,5) unfolding s1_def by blast
qed

text \<open>The instruction to be filled next, followed by a NOP.\<close>

lemma create_instr_ok:
  assumes "heap_ok s" "written s (cx_ir C) cs" "st_ctxs s cx = Some C" "length cs + 1 < 2 ^ 32"
  shows "\<exists>i s' qs q. create_instr s cx = Some (i, s') \<and> heap_ok s' \<and> holds s' (cx_ir C) (qs @ [i, q]) \<and>
    distinct (qs @ [i, q]) \<and> list_all2 (instr_here s') qs cs \<and> st_instrs s' i \<noteq> None \<and>
    st_instrs s' q = Some nop_instr \<and> st_ctxs s' = st_ctxs s \<and> st_devs s' = st_devs s \<and> comp_keeps s s'"
proof -
  let ?l = "cx_ir C"
  obtain ps where ps: "holds s ?l ps" "code_list s ps cs" using assms(2) by (auto simp: written_def)
  have len: "length ps < 2 ^ 32"
    using ps(2) assms(4) by (auto simp: code_list_def dest: list_all2_lengthD)
  have e: "akl_list_is_empty s ?l = Some (ps = [])" by (rule empty_holds [OF ps(1) len])
  obtain i s1 qs where s1: "create_or_get_instr s cx = Some (i, s1)" "heap_ok s1" "holds s1 ?l (qs @ [i])"
    "distinct (qs @ [i])" "list_all2 (instr_here s1) qs cs" "st_instrs s1 i \<noteq> None" "st_ctxs s1 = st_ctxs s"
    "st_devs s1 = st_devs s" "comp_keeps s s1" "\<And>p. p \<in> set (qs @ [i]) \<Longrightarrow> st_instrs s1 p \<noteq> None"
  proof (cases "ps = []")
    case True
    then have cs: "cs = []" using ps(2) by (auto simp: code_list_def)
    obtain ent t where t: "akl_list_append (snd (new_instr s)) ?l (st_next s) = Some (ent, t)" "heap_ok t"
      "holds t ?l ([] @ [st_next s])" "st_instrs t = (st_instrs s)(st_next s \<mapsto> nop_instr)" "st_ctxs t = st_ctxs s"
      "st_devs t = st_devs s" "comp_keeps s t"
      using append_nop [OF assms(1) ps(1)] True by auto
    have "create_or_get_instr s cx = Some (st_next s, t)"
      using assms(3) e True t(1) by (simp add: create_or_get_instr_def new_instr_def Let_def)
    then show thesis by (rule that [OF _ t(2), of _ "[]"]) (use t cs in simp_all)
  next
    case False
    then obtain qs q I where q: "ps = qs @ [q]" "list_all2 (instr_here s) qs cs" "st_instrs s q = Some I" "distinct ps"
      using ps(2) False unfolding code_list_def by blast
    have "create_or_get_instr s cx = Some (q, s)"
      using assms(3) e False last_holds [OF ps(1)] q(1) by (simp add: create_or_get_instr_def)
    then show thesis
      by (rule that [OF _ assms(1), of _ qs]) (use q ps code_list_defined [OF ps(2)] in auto)
  qed
  let ?q = "st_next s1"
  obtain ent t where t: "akl_list_append (snd (new_instr s1)) ?l ?q = Some (ent, t)" "heap_ok t"
    "holds t ?l ((qs @ [i]) @ [?q])" "st_instrs t = (st_instrs s1)(?q \<mapsto> nop_instr)" "st_ctxs t = st_ctxs s1"
    "st_devs t = st_devs s1" "comp_keeps s1 t" "st_instrs s1 ?q = None"
    using append_nop [OF s1(2,3)] by blast
  have nq: "p \<noteq> ?q" if "p \<in> set (qs @ [i])" for p using s1(10) [OF that] t(8) by auto
  have run: "create_instr s cx = Some (i, t)"
    using s1(1,7) assms(3) t(1) by (simp add: create_instr_def new_instr_def Let_def)
  have "list_all2 (instr_here t) qs cs"
    using s1(5) instrs_here_cong [of qs t s1 cs] nq t(4) by auto
  moreover have "distinct (qs @ [i, ?q])" using s1(4) nq by auto
  moreover have "st_instrs t i \<noteq> None" using s1(6) t(4) by simp
  moreover have "st_instrs t ?q = Some nop_instr" using t(4) by simp
  moreover have "holds t ?l (qs @ [i, ?q])" using t(3) by simp
  moreover have "st_ctxs t = st_ctxs s" "st_devs t = st_devs s" using t(5,6) s1(7,8) by simp_all
  ultimately show ?thesis using run t(2) comp_keeps_trans [OF s1(9) t(7)] by blast
qed

lemma emit_ok:
  assumes "heap_ok s" "written s (cx_ir C) cs" "st_ctxs s cx = Some C" "length cs + 1 < 2 ^ 32"
    and f: "\<And>I. instr_is (f I) c"
  shows "\<exists>s'. (do { (i, s) \<leftarrow> create_instr s cx; upd_instr s i f }) = Some s' \<and> heap_ok s' \<and>
    written s' (cx_ir C) (cs @ [c]) \<and> st_ctxs s' = st_ctxs s \<and> st_devs s' = st_devs s \<and> comp_keeps s s'"
proof -
  obtain i s1 qs q where s1: "create_instr s cx = Some (i, s1)" "heap_ok s1" "holds s1 (cx_ir C) (qs @ [i, q])"
    "distinct (qs @ [i, q])" "list_all2 (instr_here s1) qs cs" "st_instrs s1 i \<noteq> None"
    "st_instrs s1 q = Some nop_instr" "st_ctxs s1 = st_ctxs s" "st_devs s1 = st_devs s" "comp_keeps s s1"
    using create_instr_ok [OF assms(1-4)] by blast
  obtain I where I: "st_instrs s1 i = Some I" using s1(6) by auto
  define s' where "s' = s1\<lparr>st_instrs := (st_instrs s1)(i \<mapsto> f I)\<rparr>"
  have "comp_keeps s1 s'" by (rule comp_keepsI) (simp_all add: s'_def)
  then have k: "comp_keeps s s'" by (rule comp_keeps_trans [OF s1(10)])
  have ok: "heap_ok s'"
    by (rule heap_ok_grow [OF s1(2)]) (use I in \<open>auto simp: s'_def heap_live_def split: if_splits\<close>)
  have h: "holds s' (cx_ir C) (qs @ [i, q])" using s1(3) holds_cong [of s' s1] by (simp add: s'_def)
  have "p \<in> set qs \<Longrightarrow> p \<noteq> i" for p using s1(4) by auto
  then have "list_all2 (instr_here s') qs cs" using s1(5) instrs_here_cong [of qs s' s1 cs] by (auto simp: s'_def)
  then have "list_all2 (instr_here s') (qs @ [i]) (cs @ [c])"
    using f [of I] by (simp add: list_all2_appendI instr_here_def s'_def)
  then have "code_list s' (qs @ [i, q]) (cs @ [c])"
    using s1(4,7) unfolding code_list_def
    by (intro conjI disjI2 exI [of _ "qs @ [i]"] exI [of _ q] exI [of _ nop_instr]) (auto simp: s'_def nop_instr_def)
  then have "written s' (cx_ir C) (cs @ [c])" using h by (auto simp: written_def)
  then show ?thesis using s1(1,8,9) I ok k by (auto simp: upd_instr_def s'_def)
qed

subsection \<open>Reading while building\<close>

text \<open>A device before the text \<open>t\<close>; the first token allocates the buffer.\<close>

definition at_text :: "akl_io_device \<Rightarrow> string \<Rightarrow> bool" where
  "at_text D t \<longleftrightarrow> ready (if iod_buffer D = None then init_lexer D else D) t"

lemma akl_lex_init: "akl_lex (if iod_buffer D = None then init_lexer D else D) = akl_lex D"
  by (simp add: akl_lex_def init_lexer_def)

lemma ready_at_text: "ready D t \<Longrightarrow> at_text D t"
  by (auto simp: at_text_def ready_def buffer_ok_def)

lemma lex_fuel_at_text:
  assumes "at_text D (spell ls)" "spell_ok ls" shows "length ls \<le> lex_fuel D"
proof -
  let ?D = "if iod_buffer D = None then init_lexer D else D"
  obtain u where u: "reads ?D u" "dropWhile blank u = dropWhile blank (spell ls)"
    using assms(1) unfolding at_text_def ready_def by blast
  have "length ks \<le> length (spell ks)" if "spell_ok ks" for ks
    using that
  proof (induction ks rule: spell_ok.induct)
    case (2 l n ks)
    then have "lexeme_text l \<noteq> []" by (cases l) auto
    then have "1 \<le> length (lexeme_text l)" by (cases "lexeme_text l") auto
    then show ?case using 2 by auto
  qed simp
  moreover have "dropWhile blank (spell ls) = spell ls"
    using assms(2) by (cases ls rule: spell.cases) (simp_all add: lexeme_start)
  ultimately have "length ls \<le> length (dropWhile blank u)" using u(2) assms(2) by simp
  then have "length ls \<le> length u" using length_dropWhile_le [of blank u] by linarith
  moreover have "lex_fuel (init_lexer D) = lex_fuel D" by (cases "iod_source D") (simp_all add: lex_fuel_def init_lexer_def)
  then have "lex_fuel D = lex_fuel ?D" by simp
  ultimately show ?thesis using lex_fuel_reads [OF u(1)] by simp
qed

text \<open>The state in the middle of compiling: code \<open>cs\<close> is written, the device is \<open>D\<close>.\<close>

definition builds :: "akl_state \<Rightarrow> addr \<Rightarrow> akl_context \<Rightarrow> code_op list \<Rightarrow> akl_io_device \<Rightarrow> bool" where
  "builds s cx C cs D \<longleftrightarrow> heap_ok s \<and> \<not> ai_interrupted s \<and> cx_state C \<and>
     (\<exists>i. st_ctxs s cx = Some (C\<lparr>cx_lex_info := i\<rparr>)) \<and> written s (cx_ir C) cs \<and> st_devs s (cx_dev C) = Some D"

lemma written_cong:
  assumes "st_ents s' = st_ents s" "st_lists s' = st_lists s" "st_instrs s' = st_instrs s"
  shows "written s' ir cs = written s ir cs"
proof -
  have i: "instr_here s' = instr_here s" using assms(3) by (intro ext) (simp add: instr_here_def)
  show ?thesis unfolding written_def code_list_def i assms(3) holds_cong [OF assms(1,2)] by (rule refl)
qed

lemma builds_dev:
  assumes "builds s cx C cs D"
  shows "builds (upd_dev s (cx_dev C) D') cx C cs D'" "comp_keeps s (upd_dev s (cx_dev C) D')"
proof -
  let ?s = "upd_dev s (cx_dev C) D'"
  have b: "heap_ok s" "\<not> ai_interrupted s" "cx_state C" "\<exists>i. st_ctxs s cx = Some (C\<lparr>cx_lex_info := i\<rparr>)"
    "written s (cx_ir C) cs" "st_devs s (cx_dev C) = Some D"
    using assms by (simp_all add: builds_def)
  have "heap_ok ?s" by (rule heap_ok_grow [OF b(1)]) (use b(6) in \<open>auto simp: upd_dev_def heap_live_def split: if_splits\<close>)
  moreover have "written ?s (cx_ir C) cs" using b(5) written_cong [of ?s s] by (simp add: upd_dev_def)
  ultimately show "builds ?s cx C cs D'" using b(2-4) by (simp add: builds_def upd_dev_def)
  show "comp_keeps s ?s" by (rule comp_keepsI) (simp_all add: upd_dev_def)
qed

lemma builds_lex_info:
  assumes "builds s cx C cs D"
  shows "\<exists>s'. upd_ctx s cx (\<lambda>C. C\<lparr>cx_lex_info := i\<rparr>) = Some s' \<and> builds s' cx C cs D \<and> comp_keeps s s' \<and>
    st_vals s' = st_vals s"
proof -
  obtain j where b: "heap_ok s" "\<not> ai_interrupted s" "cx_state C" "st_ctxs s cx = Some (C\<lparr>cx_lex_info := j\<rparr>)"
    "written s (cx_ir C) cs" "st_devs s (cx_dev C) = Some D"
    using assms unfolding builds_def by blast
  define s' where "s' = s\<lparr>st_ctxs := (st_ctxs s)(cx \<mapsto> C\<lparr>cx_lex_info := i\<rparr>)\<rparr>"
  have run: "upd_ctx s cx (\<lambda>C. C\<lparr>cx_lex_info := i\<rparr>) = Some s'" using b(4) by (simp add: upd_ctx_def s'_def)
  have "heap_ok s'" by (rule heap_ok_grow [OF b(1)]) (use b(4) in \<open>auto simp: s'_def heap_live_def split: if_splits\<close>)
  moreover have "written s' (cx_ir C) cs" using b(5) written_cong [of s' s] by (simp add: s'_def)
  ultimately have "builds s' cx C cs D" using b(2,3,6) by (auto simp: builds_def s'_def)
  moreover have "comp_keeps s s'" by (rule comp_keepsI) (simp_all add: s'_def)
  ultimately show ?thesis using run by (simp add: s'_def)
qed

lemma builds_emit:
  assumes "builds s cx C cs D" "\<And>I. instr_is (f I) c" "length cs + 1 < 2 ^ 32"
  shows "\<exists>s'. (do { (i, s) \<leftarrow> create_instr s cx; upd_instr s i f }) = Some s' \<and> builds s' cx C (cs @ [c]) D \<and>
    comp_keeps s s'"
proof -
  obtain i where b: "heap_ok s" "\<not> ai_interrupted s" "cx_state C" "st_ctxs s cx = Some (C\<lparr>cx_lex_info := i\<rparr>)"
    "written s (cx_ir C) cs" "st_devs s (cx_dev C) = Some D"
    using assms(1) unfolding builds_def by blast
  have w: "written s (cx_ir (C\<lparr>cx_lex_info := i\<rparr>)) cs" using b(5) by simp
  obtain s' where s': "(do { (i, s) \<leftarrow> create_instr s cx; upd_instr s i f }) = Some s'" "heap_ok s'"
    "written s' (cx_ir C) (cs @ [c])" "st_ctxs s' = st_ctxs s" "st_devs s' = st_devs s" "comp_keeps s s'"
    using emit_ok [of s "C\<lparr>cx_lex_info := i\<rparr>" cs cx f c, OF b(1) w b(4) assms(3,2)] by auto
  have "builds s' cx C (cs @ [c]) D"
    using b(2-4,6) s'(2-5) comp_keeps_fields(5) [OF s'(6)] unfolding builds_def by auto
  then show ?thesis using s'(1,6) by blast
qed

lemma akl_lex_buffer:
  assumes "at_text D (lexeme_text l @ r)" "lexeme_ok l" "follows_ok l r"
  shows "\<exists>D'. akl_lex D = Some (lexeme_token l, D') \<and> ready D' r \<and> (\<forall>t. token_text l = Some t \<longrightarrow> buffer_text D' = Some t)"
proof -
  obtain D' where D': "akl_lex D = Some (lexeme_token l, D')" "ready D' r" "\<forall>t. token_text l = Some t \<longrightarrow> btext D' = t"
    using akl_lex_ready [OF assms(1) [unfolded at_text_def] assms(2,3)] unfolding akl_lex_init by blast
  have low: "tolower x \<noteq> NUL" if "x \<noteq> NUL" for x
  proof (cases "is_upper x")
    case True
    then have "(of_char (tolower x) :: nat) \<noteq> of_char NUL" by (simp add: tolower_def is_upper_def)
    then show ?thesis by metis
  qed (use that in \<open>simp add: tolower_def\<close>)
  have "t \<noteq> [] \<and> NUL \<notin> set t" if "token_text l = Some t" for t
  proof (cases l)
    case (L_atom w)
    then have w: "w \<noteq> [] \<and> NUL \<notin> set w" using assms(2) by auto
    have "NUL \<notin> tolower ` set w"
    proof
      assume "NUL \<in> tolower ` set w"
      then obtain x where "NUL = tolower x" "x \<in> set w" by (rule imageE)
      then show False using low [of x] w by metis
    qed
    then show ?thesis using that L_atom w by auto
  next
    case (L_number w)
    then show ?thesis using that assms(2) by (auto simp: is_digit_def)
  qed (use that in simp_all)
  then have "buffer_text D' = Some t" if "token_text l = Some t" for t
    using that D'(3) by (auto simp: btext_def buffer_text_def takeWhile_eq_all_conv split: option.splits)
  then show ?thesis using D'(1,2) by blast
qed

lemma builds_token:
  assumes "builds s cx C cs D" "at_text D (lexeme_text l @ r)" "lexeme_ok l" "follows_ok l r"
  shows "\<exists>s' D'. lex_token s (cx_dev C) = Some (lexeme_token l, s') \<and> builds s' cx C cs D' \<and> comp_keeps s s' \<and>
    ready D' r \<and> (\<forall>t. token_text l = Some t \<longrightarrow> buffer_text D' = Some t)"
proof -
  obtain D' where D': "akl_lex D = Some (lexeme_token l, D')" "ready D' r"
    "\<forall>t. token_text l = Some t \<longrightarrow> buffer_text D' = Some t"
    using akl_lex_buffer [OF assms(2-4)] by blast
  have "lex_token s (cx_dev C) = Some (lexeme_token l, upd_dev s (cx_dev C) D')"
    using assms(1) D'(1) by (simp add: lex_token_def builds_def)
  then show ?thesis using D'(2,3) builds_dev [OF assms(1), of D'] by blast
qed

subsection \<open>Arithmetic programs\<close>

text \<open>The source: a number, or a call of a function by its name. Its lexemes and its meaning.\<close>

datatype expr = Num nat | Call string "expr list"

fun lexemes :: "expr \<Rightarrow> lexeme list" where
  "lexemes (Num n) = [L_number (dec_digits n)]"
| "lexemes (Call f es) = L_open # L_atom f # concat (map lexemes es) @ [L_close]"

text \<open>The symbol and the function of a name, if its variable holds a function.\<close>

definition resolve :: "akl_state \<Rightarrow> string \<Rightarrow> (addr \<times> addr) option" where
  "resolve s f =
     (let symb = akl_get_symbol s (Some f); var = akl_get_global_var s symb in
      if symb = 0 \<or> symbol_name s symb = None \<or> var = 0 then None
      else do { fn \<leftarrow> akl_var_to_function s var; (if fn = 0 then None else Some (symb, fn)) })"

fun denotes :: "akl_state \<Rightarrow> expr \<Rightarrow> double option" where
  "denotes s (Num n) = Some (dbl_of_int (int n))"
| "denotes s (Call f es) =
     (if 2147483648 \<le> length es then None
      else do {
        (symb, fn) \<leftarrow> resolve s (map tolower f);
        g \<leftarrow> function_of s fn;
        ds \<leftarrow> list_some (map (denotes s) es);
        arith_value g ds
      })"

lemma symbols_keep:
  assumes "comp_keeps s s'"
  shows "symbol_name s' = symbol_name s" "akl_get_symbol s' = akl_get_symbol s"
    "akl_get_global_var s' = akl_get_global_var s"
proof -
  note f = comp_keeps_fields [OF assms]
  show n: "symbol_name s' = symbol_name s" by (intro ext) (simp only: symbol_name_def f)
  show "akl_get_symbol s' = akl_get_symbol s" by (intro ext) (simp only: akl_get_symbol_def n f)
  have "variable_name s' = variable_name s" by (intro ext) (simp only: variable_name_def n f)
  then have "akl_rb_cmp_var s' = akl_rb_cmp_var s" by (intro ext) (simp only: akl_rb_cmp_var_def)
  then show "akl_get_global_var s' = akl_get_global_var s"
    by (intro ext) (simp only: akl_get_global_var_def akl_get_global_variable_def n f)
qed

lemma function_of_keep: "comp_keeps s s' \<Longrightarrow> function_of s fn = Some g \<Longrightarrow> function_of s' fn = Some g"
  by (rule function_of_mono [of s]) (simp_all add: comp_keeps_def)

lemma var_to_function_keep:
  assumes "comp_keeps s s'" "akl_var_to_function s var = Some fn"
  shows "akl_var_to_function s' var = Some fn"
proof (cases "var = 0")
  case False
  obtain V b where V: "st_vars s var = Some V" "is_type s (vr_value V) VT_FUNCTION = Some b"
    using assms(2) False by (auto simp: akl_var_to_function_def Option.bind_eq_Some_conv)
  have keep: "st_vals s' x = Some X" if "st_vals s x = Some X" for x X
    using assms(1) that unfolding comp_keeps_def by blast
  have "is_type s' (vr_value V) VT_FUNCTION = Some b"
    using V(2) keep by (auto simp: is_type_def Option.bind_eq_Some_conv split: if_splits)
  then show ?thesis
    using assms(2) False V keep comp_keeps_fields(2) [OF assms(1)]
    by (cases b) (auto simp: akl_var_to_function_def Option.bind_eq_Some_conv)
qed (use assms in \<open>simp add: akl_var_to_function_def\<close>)

lemma resolveE:
  assumes "resolve s f = Some (symb, fn)"
  shows "akl_get_symbol s (Some f) = symb" "symb \<noteq> 0" "symbol_name s symb \<noteq> None" "fn \<noteq> 0"
    "akl_get_global_var s symb \<noteq> 0" "akl_var_to_function s (akl_get_global_var s symb) = Some fn"
  using assms by (auto simp: resolve_def Let_def Option.bind_eq_Some_conv split: if_splits)

lemma resolve_keep:
  assumes "comp_keeps s s'" "resolve s f = Some r"
  shows "resolve s' f = Some r"
proof -
  obtain symb fn where r: "r = (symb, fn)" by (cases r)
  note e = resolveE [OF assms(2) [unfolded r]]
  show ?thesis
    unfolding resolve_def symbols_keep [OF assms(1)] Let_def e(1)
    using e var_to_function_keep [OF assms(1) e(6)] r by simp
qed

lemma denotes_keep: "comp_keeps s s' \<Longrightarrow> denotes s e = Some d \<Longrightarrow> denotes s' e = Some d"
proof (induction e arbitrary: d)
  case (Call f es)
  obtain symb fn g ds where f: "length es < 2147483648" "resolve s (map tolower f) = Some (symb, fn)"
    "function_of s fn = Some g" "list_all2 (\<lambda>e d. denotes s e = Some d) es ds" "arith_value g ds = Some d"
    using Call.prems(2) by (auto simp: Option.bind_eq_Some_conv list_some_map split: if_splits)
  have "list_all2 (\<lambda>e d. denotes s' e = Some d) es ds"
    using f(4) Call.IH [OF _ Call.prems(1)] by (auto simp: list_all2_conv_all_nth)
  then have "list_some (map (denotes s') es) = Some ds" by (simp add: list_some_map)
  then show ?case using f resolve_keep [OF Call.prems(1) f(2)] function_of_keep [OF Call.prems(1) f(3)] by simp
qed simp

lemma eval_keep: "comp_keeps s s' \<Longrightarrow> eval s a = Some d \<Longrightarrow> eval s' a = Some d"
  by (rule eval_mono [of s s']) (use comp_keeps_fields [of s s'] in \<open>auto simp: comp_keeps_def\<close>)

subsection \<open>The values of tokens\<close>

text \<open>A decimal number reads back.\<close>

lemma lex_get_number_digits:
  assumes "buffer_text D = Some (dec_digits n)"
  shows "akl_lex_get_number D = Some (dbl_of_int (int n), set_buffer D [])"
proof (cases "n = 0")
  case True
  then have "dec_digits n = ''0''" by (simp add: dec_digits.simps [of 0])
  moreover have "sscanf_o ''0'' = Some 0"
    by (simp add: sscanf_o_def skip_space_def is_space_def is_base_digit_def digits_value_def read_sign_def digit_value_def is_digit_def)
  ultimately show ?thesis using assms True by (simp add: akl_lex_get_number_def)
next
  case False
  then obtain c u where c: "dec_digits n = c # u" "c \<noteq> CHR ''0''"
  proof -
    obtain d cs where "dec_digits n = digit_char d # cs" "0 < d" "d < 10" using hd_dec_digits [of n] False by blast
    moreover have "digit_char d \<noteq> CHR ''0''"
    proof
      assume "digit_char d = CHR ''0''"
      then have "(of_char (digit_char d) :: nat) = of_char CHR ''0''" by simp
      then show False using \<open>0 < d\<close> \<open>d < 10\<close> by simp
    qed
    ultimately show thesis using that by blast
  qed
  have "strtod (dec_digits n) = dbl_of_int (int n)" using strtod_dec_digits(1) [of n] False by (simp add: dbl_of_int_def)
  then show ?thesis using assms c by (simp add: akl_lex_get_number_def)
qed

text \<open>The end of \<open>akl_parse_token\<close>: a value just allocated gets its flag and position.\<close>

lemma finish_value:
  assumes "builds s cx C cs D" "s' = s\<lparr>st_next := st_next s + 1, st_vals := (st_vals s)(st_next s \<mapsto> V)\<rparr>"
  shows "\<exists>t. (do { t \<leftarrow> set_quoted s' (st_next s) q; t \<leftarrow> akl_set_lex_info t cx (st_next s); Some (st_next s, t) })
      = Some (st_next s, t) \<and> builds t cx C cs D \<and> comp_keeps s t \<and>
    (\<exists>i. st_vals t (st_next s) = Some (V\<lparr>va_quoted := q, va_lex_info := i\<rparr>)) \<and> st_next s \<noteq> 0"
proof -
  obtain j where b: "heap_ok s" "\<not> ai_interrupted s" "cx_state C" "st_ctxs s cx = Some (C\<lparr>cx_lex_info := j\<rparr>)"
    "written s (cx_ir C) cs" "st_devs s (cx_dev C) = Some D"
    using assms unfolding builds_def by blast
  let ?i = "akl_new_lex_info (Some D) no_info"
  define t where "t = s\<lparr>st_next := st_next s + 1,
    st_vals := (st_vals s)(st_next s \<mapsto> V\<lparr>va_quoted := q, va_lex_info := ?i\<rparr>)\<rparr>"
  have fr: "st_vals s (st_next s) = None" "st_next s \<noteq> 0"
    using heap_ok_fresh [OF b(1)] b(1) by (auto simp: heap_live_def heap_ok_def)
  have run: "(do { t \<leftarrow> set_quoted s' (st_next s) q; t \<leftarrow> akl_set_lex_info t cx (st_next s); Some (st_next s, t) })
      = Some (st_next s, t)"
    using b(4,6) by (simp add: set_quoted_def akl_set_lex_info_def assms(2) t_def)
  have k: "comp_keeps s t" by (rule comp_keepsI) (use fr in \<open>auto simp: t_def\<close>)
  have "heap_ok t" by (rule heap_ok_grow [OF b(1)]) (use fr in \<open>auto simp: t_def heap_live_def split: if_splits\<close>)
  moreover have "written t (cx_ir C) cs" using b(5) written_cong [of t s] by (simp add: t_def)
  ultimately have "builds t cx C cs D" using b(2-4,6) by (auto simp: builds_def t_def)
  then show ?thesis using run k fr(2) by (auto simp: t_def)
qed

lemma parse_number:
  assumes "builds s cx C cs D" "buffer_text D = Some (dec_digits n)"
  shows "\<exists>t. akl_parse_token s cx tNUMBER q = Some (st_next s, t) \<and> builds t cx C cs (set_buffer D []) \<and>
    comp_keeps s t \<and> number_at t (st_next s) (dbl_of_int (int n))"
proof -
  let ?s = "upd_dev s (cx_dev C) (set_buffer D [])"
  let ?V = "raw_value VT_NUMBER (V_number (dbl_of_int (int n)))"
  have b: "builds ?s cx C cs (set_buffer D [])" "comp_keeps s ?s" using builds_dev [OF assms(1)] by blast+
  have nx: "st_next ?s = st_next s" by (simp add: upd_dev_def)
  obtain t i where t: "(do { t \<leftarrow> set_quoted (?s\<lparr>st_next := st_next ?s + 1, st_vals := (st_vals ?s)(st_next ?s \<mapsto> ?V)\<rparr>) (st_next ?s) q;
       t \<leftarrow> akl_set_lex_info t cx (st_next ?s); Some (st_next ?s, t) }) = Some (st_next ?s, t)"
    "builds t cx C cs (set_buffer D [])" "comp_keeps ?s t" "st_vals t (st_next ?s) = Some (?V\<lparr>va_quoted := q, va_lex_info := i\<rparr>)"
    "st_next ?s \<noteq> 0"
    using finish_value [OF b(1) refl, of ?V q] by auto
  obtain j where C: "st_ctxs s cx = Some (C\<lparr>cx_lex_info := j\<rparr>)" "cx_state C" "st_devs s (cx_dev C) = Some D"
    using assms(1) unfolding builds_def by blast
  have "akl_parse_token s cx tNUMBER q = Some (st_next s, t)"
    using C t(1) lex_get_number_digits [OF assms(2)]
    by (simp add: akl_parse_token_def parse_token_def token_value_def akl_new_number_value_def new_value_with_def Let_def nx)
  moreover have "number_at t (st_next s) (dbl_of_int (int n))" using t(4,5) by (simp add: nx number_at_def raw_value_def)
  ultimately show ?thesis using t(2) comp_keeps_trans [OF b(2) t(3)] by blast
qed

lemma parse_atom:
  assumes "builds s cx C cs D" "buffer_text D = Some f" "akl_get_symbol s (Some f) = symb" "symb \<noteq> 0"
    "symbol_name s symb \<noteq> None"
  shows "\<exists>t V. akl_parse_token s cx tATOM q = Some (st_next s, t) \<and> builds t cx C cs (set_buffer D []) \<and>
    comp_keeps s t \<and> st_vals t (st_next s) = Some V \<and> va_value V = V_symbol symb"
proof -
  let ?s = "upd_dev s (cx_dev C) (set_buffer D [])"
  let ?V = "raw_value VT_SYMBOL (V_symbol symb)"
  let ?R = "raw_value VT_NIL (V_number (dbl_of_int 0))"
  have b: "builds ?s cx C cs (set_buffer D [])" "comp_keeps s ?s" using builds_dev [OF assms(1)] by blast+
  have nx: "st_next ?s = st_next s" by (simp add: upd_dev_def)
  obtain t i where t: "(do { t \<leftarrow> set_quoted (?s\<lparr>st_next := st_next ?s + 1, st_vals := (st_vals ?s)(st_next ?s \<mapsto> ?V)\<rparr>) (st_next ?s) q;
       t \<leftarrow> akl_set_lex_info t cx (st_next ?s); Some (st_next ?s, t) }) = Some (st_next ?s, t)"
    "builds t cx C cs (set_buffer D [])" "comp_keeps ?s t" "st_vals t (st_next ?s) = Some (?V\<lparr>va_quoted := q, va_lex_info := i\<rparr>)"
    "st_next ?s \<noteq> 0"
    using finish_value [OF b(1) refl, of ?V q] by auto
  obtain j where C: "st_ctxs s cx = Some (C\<lparr>cx_lex_info := j\<rparr>)" "cx_state C" "st_devs s (cx_dev C) = Some D"
    using assms(1) unfolding builds_def by blast
  define s1 where "s1 = s\<lparr>st_next := st_next s + 1, st_vals := (st_vals s)(st_next s \<mapsto> ?R)\<rparr>"
  have new: "akl_new_value s = (st_next s, s1)" by (simp add: akl_new_value_def new_value_with_def s1_def Let_def)
  have "st_vals s (st_next s) = None"
    using assms(1) heap_ok_fresh [of s] by (auto simp: builds_def heap_live_def)
  then have "comp_keeps s s1" by (intro comp_keepsI) (auto simp: s1_def)
  note n = symbols_keep(1,2) [OF this]
  have "akl_get_or_create_symbol s1 (Some f) = Some (symb, s1)"
    using assms(3-5) by (auto simp: n akl_get_or_create_symbol_def get_or_create_symbol_def Let_def)
  then have gs: "akl_lex_get_symbol s1 (cx_dev C) = Some (symb, upd_dev s1 (cx_dev C) (set_buffer D []))"
    using C(3) assms(2) by (simp add: akl_lex_get_symbol_def s1_def)
  let ?t = "?s\<lparr>st_next := st_next ?s + 1, st_vals := (st_vals ?s)(st_next ?s \<mapsto> ?V)\<rparr>"
  have "(upd_dev s1 (cx_dev C) (set_buffer D []))\<lparr>st_vals := (st_vals s1)(st_next s \<mapsto>
      ?R\<lparr>va_value := V_symbol symb, va_type := VT_SYMBOL\<rparr>)\<rparr> = ?t"
    by (simp add: s1_def upd_dev_def raw_value_def)
  then have "token_value akl_parse_list s cx tATOM = Some (st_next s, ?t)"
    using C new gs by (simp add: token_value_def upd_val_def Let_def) (simp add: upd_dev_def s1_def)
  then have "akl_parse_token s cx tATOM q = Some (st_next s, t)"
    using C t(1) by (simp add: akl_parse_token_def parse_token_def del: fun_upd_apply) (simp add: nx)
  then show ?thesis using t(2,4) comp_keeps_trans [OF b(2) t(3)] by (auto simp: nx raw_value_def)
qed

subsection \<open>The cases of \<open>akl_compile_list\<close>\<close>

lemma compile_number:
  assumes "builds s cx C cs D" "buffer_text D = Some (dec_digits n)" "length cs + 1 < 2 ^ 32"
  shows "\<exists>p t. compile_const s cx tNUMBER vars = Some (vars\<lparr>cl_argc := cl_argc vars + 1\<rparr>, t) \<and>
    builds t cx C (cs @ [C_push p]) (set_buffer D []) \<and> comp_keeps s t \<and> number_at t p (dbl_of_int (int n))"
proof -
  let ?p = "st_next s" and ?D = "set_buffer D []"
  obtain s1 where s1: "akl_parse_token s cx tNUMBER True = Some (?p, s1)" "builds s1 cx C cs ?D" "comp_keeps s s1"
    "number_at s1 ?p (dbl_of_int (int n))"
    using parse_number [OF assms(1,2)] by blast
  obtain V where V: "st_vals s1 ?p = Some V" using s1(4) by (auto simp: number_at_def)
  obtain s2 where s2: "upd_ctx s1 cx (\<lambda>C. C\<lparr>cx_lex_info := va_lex_info V\<rparr>) = Some s2" "builds s2 cx C cs ?D"
    "comp_keeps s1 s2" "st_vals s2 = st_vals s1"
    using builds_lex_info [OF s1(2)] by blast
  obtain s3 where s3: "akl_build_push s2 cx ?p = Some s3" "builds s3 cx C (cs @ [C_push ?p]) ?D" "comp_keeps s2 s3"
    using builds_emit [OF s2(2), of "\<lambda>I. I\<lparr>in_op := IR_PUSH, in_arg0 := A_value ?p\<rparr>" "C_push ?p"] assms(3)
    unfolding akl_build_push_def by (auto simp: instr_is_def)
  have k: "comp_keeps s1 s3" by (rule comp_keeps_trans [OF s2(3) s3(3)])
  have "number_at s3 ?p (dbl_of_int (int n))"
    using s1(4) k unfolding number_at_def comp_keeps_def by blast
  moreover have "compile_const s cx tNUMBER vars = Some (vars\<lparr>cl_argc := cl_argc vars + 1\<rparr>, s3)"
    using s1(1) V s2(1) s3(1) by (simp add: compile_const_def)
  ultimately show ?thesis using s3(2) comp_keeps_trans [OF s1(3) k] by blast
qed

lemma compile_name:
  assumes "builds s cx C cs D" "buffer_text D = Some f" "resolve s f = Some (symb, fn)" "function_of s fn = Some g"
  shows "\<exists>info t. compile_atom nxt s cx False init_vars =
      Some (init_vars\<lparr>cl_call_info := info, cl_pf_st := PF_FN_NORMAL, cl_fun := fn, cl_sym := symb\<rparr>, t) \<and>
    builds t cx C cs (set_buffer D []) \<and> comp_keeps s t"
proof -
  let ?p = "st_next s" and ?D = "set_buffer D []"
  note r = resolveE [OF assms(3)]
  obtain s1 V where s1: "akl_parse_token s cx tATOM False = Some (?p, s1)" "builds s1 cx C cs ?D" "comp_keeps s s1"
    "st_vals s1 ?p = Some V" "va_value V = V_symbol symb"
    using parse_atom [OF assms(1,2) r(1-3)] by blast
  obtain s2 where s2: "upd_ctx s1 cx (\<lambda>C. C\<lparr>cx_lex_info := va_lex_info V\<rparr>) = Some s2" "builds s2 cx C cs ?D"
    "comp_keeps s1 s2" "st_vals s2 = st_vals s1"
    using builds_lex_info [OF s1(2)] by blast
  define info where "info = akl_new_lex_info (Some ?D) no_info"
  obtain s3 where s3: "upd_ctx s2 cx (\<lambda>C. C\<lparr>cx_lex_info := info\<rparr>) = Some s3" "builds s3 cx C cs ?D"
    "comp_keeps s2 s3" "st_vals s3 = st_vals s2"
    using builds_lex_info [OF s2(2)] by blast
  have k: "comp_keeps s s3" using s1(3) s2(3) s3(3) comp_keeps_trans by blast
  note r3 = resolveE [OF resolve_keep [OF k assms(3)]]
  have g3: "function_of s3 fn = Some g" by (rule function_of_keep [OF k assms(4)])
  then obtain F where F: "st_funs s3 fn = Some F" "fn_type F = FUNC_CFUN"
    by (auto simp: function_of_def split: option.splits if_splits)
  obtain X where X: "st_vars s3 (akl_get_global_var s3 symb) = Some X" "is_type s3 (vr_value X) VT_FUNCTION = Some True"
    using r3(4,5,6) by (auto simp: akl_var_to_function_def Option.bind_eq_Some_conv split: if_splits)
  have pf: "prefetch_function s3 ?p = Some (PF_FN_NORMAL, fn)"
    using s1(4,5) s2(4) s3(4) X F r3(4-6) by (simp add: prefetch_function_def Let_def)
  obtain j where C: "st_ctxs s2 cx = Some (C\<lparr>cx_lex_info := j\<rparr>)" "st_devs s2 (cx_dev C) = Some ?D"
    using s2(2) unfolding builds_def by blast
  have "compile_atom nxt s cx False init_vars =
      Some (init_vars\<lparr>cl_call_info := info, cl_pf_st := PF_FN_NORMAL, cl_fun := fn, cl_sym := symb\<rparr>, s3)"
    using s1(1,4,5) s2(1) C s3(1) pf by (simp add: compile_atom_def init_vars_def info_def Let_def)
  then show ?thesis using s3(2) k by blast
qed

text \<open>\<open>akl_ir_set_lex_info\<close> changes the position of the last instruction alone.\<close>

lemma ir_set_lex_info_ok:
  assumes "builds s cx C cs D"
  shows "\<exists>s'. akl_ir_set_lex_info s cx info = Some s' \<and> builds s' cx C cs D \<and> comp_keeps s s'"
proof -
  obtain j where b: "heap_ok s" "\<not> ai_interrupted s" "cx_state C" "st_ctxs s cx = Some (C\<lparr>cx_lex_info := j\<rparr>)"
    "written s (cx_ir C) cs" "st_devs s (cx_dev C) = Some D"
    using assms unfolding builds_def by blast
  obtain ps where ps: "holds s (cx_ir C) ps" "code_list s ps cs" using b(5) by (auto simp: written_def)
  have ir: "cx_ir C \<noteq> 0" using ps(1) by (auto simp: holds_def is_list_def)
  let ?li = "if ps = [] then 0 else last ps"
  have l: "akl_list_last s (cx_ir C) = Some ?li" by (rule last_holds [OF ps(1)])
  show ?thesis
  proof (cases "?li \<noteq> 0 \<and> info \<noteq> None")
    case False
    then have "akl_ir_set_lex_info s cx info = Some s" using b(4) ir l by (auto simp: akl_ir_set_lex_info_def)
    then show ?thesis using assms by simp
  next
    case True
    then have ne: "ps \<noteq> []" by auto
    obtain qs q I where q: "ps = qs @ [q]" "list_all2 (instr_here s) qs cs" "st_instrs s q = Some I" "in_op I = IR_NOP"
      "distinct ps"
      using ps(2) ne unfolding code_list_def by blast
    define s' where "s' = s\<lparr>st_instrs := (st_instrs s)(q \<mapsto> I\<lparr>in_linfo := info\<rparr>)\<rparr>"
    have run: "akl_ir_set_lex_info s cx info = Some s'"
      using b(4) ir l q(1,3) True ne by (simp add: akl_ir_set_lex_info_def upd_instr_def s'_def)
    have k: "comp_keeps s s'" by (rule comp_keepsI) (simp_all add: s'_def)
    have ok: "heap_ok s'" by (rule heap_ok_grow [OF b(1)]) (use q(3) in \<open>auto simp: s'_def heap_live_def split: if_splits\<close>)
    have h: "holds s' (cx_ir C) ps" using ps(1) holds_cong [of s' s] by (simp add: s'_def)
    have "p \<in> set qs \<Longrightarrow> p \<noteq> q" for p using q(1,5) by auto
    then have "list_all2 (instr_here s') qs cs" using q(2) instrs_here_cong [of qs s' s cs] by (auto simp: s'_def)
    then have "code_list s' ps cs" using q(1,4,5) by (auto simp: code_list_def s'_def)
    then have "builds s' cx C cs D" using b(2-4,6) ok h by (auto simp: builds_def written_def s'_def)
    then show ?thesis using run k by blast
  qed
qed

lemma compile_close:
  assumes "builds s cx C cs D" "cl_sym vars \<noteq> 0" "length cs + 1 < 2 ^ 32"
  shows "\<exists>t. compile_rbrace s cx vars = Some (0, t) \<and>
    builds t cx C (cs @ [C_call (cl_sym vars) (cl_fun vars) (cl_argc vars)]) D \<and> comp_keeps s t"
proof -
  obtain s1 where s1: "akl_ir_set_lex_info s cx (cl_call_info vars) = Some s1" "builds s1 cx C cs D" "comp_keeps s s1"
    using ir_set_lex_info_ok [OF assms(1)] by blast
  let ?c = "C_call (cl_sym vars) (cl_fun vars) (cl_argc vars)"
  obtain s2 where s2: "akl_build_call s1 cx (cl_sym vars) (cl_fun vars) (cl_argc vars) = Some s2"
    "builds s2 cx C (cs @ [?c]) D" "comp_keeps s1 s2"
    using builds_emit [OF s1(2), of "\<lambda>I. I\<lparr>in_op := IR_CALL, in_arg0 := A_symbol (cl_sym vars), in_fun := cl_fun vars,
        in_arg1 := A_num (of_nat (cl_argc vars))\<rparr>" ?c] assms(3)
    unfolding akl_build_call_def by (auto simp: instr_is_def)
  then show ?thesis using assms(2) s1(1) comp_keeps_trans [OF s1(3) s2(3)] by (auto simp: compile_rbrace_def)
qed

subsection \<open>Compiling an expression\<close>

lemma builds_lexeme:
  assumes "builds s cx C cs D" "at_text D (spell ((l, k) # ls))" "spell_ok ((l, k) # ls)"
  shows "\<exists>s' D'. lex_token s (cx_dev C) = Some (lexeme_token l, s') \<and> builds s' cx C cs D' \<and> comp_keeps s s' \<and>
    at_text D' (spell ls) \<and> (\<forall>t. token_text l = Some t \<longrightarrow> buffer_text D' = Some t)"
proof -
  have k: "\<forall>c\<in>set k. blank c" using assms(3) by simp
  have "at_text D (lexeme_text l @ k @ spell ls)" "lexeme_ok l" "follows_ok l (k @ spell ls)" using assms(2,3) by simp_all
  from builds_token [OF assms(1) this] show ?thesis using ready_at_text unfolding ready_blanks [OF k] by blast
qed

lemma set_buffer_at_text: "buffer_text D = Some t \<Longrightarrow> at_text D u \<Longrightarrow> at_text (set_buffer D []) u"
proof -
  assume b: "buffer_text D = Some t" and a: "at_text D u"
  then have "iod_buffer D \<noteq> None" by (auto simp: buffer_text_def split: option.splits)
  then have "ready D u" using a by (auto simp: at_text_def split: if_split_asm)
  then obtain v where v: "reads D v" "dropWhile blank v = dropWhile blank u" "buffer_ok D" "iod_backlog D = tEOF"
    by (auto simp: ready_def)
  have "ready (set_buffer D []) u"
    by (rule readyI [of _ v]) (use v reads_cong [of "set_buffer D []" D] in \<open>simp_all add: set_buffer_def buffer_ok_def\<close>)
  then show ?thesis by (rule ready_at_text)
qed

lemma loop_step:
  assumes "builds s cx C cs D" "lex_token s (cx_dev C) = Some (tok, s1)" "builds s1 cx C cs D1" "tok \<noteq> tEOF" "tok \<noteq> tQUOTE"
  shows "compile_list_loop (Suc m) s cx vars =
    (if tok = tRBRACE then compile_rbrace s1 cx vars
     else do {
       (vars, s) \<leftarrow>
         (if tok = tATOM
          then compile_atom (compile_next (\<lambda>s c. compile_list_loop m s c init_vars)) s1 cx False vars
          else if tok = tLBRACE then compile_lbrace (\<lambda>s c. compile_list_loop m s c init_vars) s1 cx False vars
          else compile_const s1 cx tok vars);
       compile_list_loop m s cx (vars\<lparr>cl_felem := False\<rparr>)
     })"
proof -
  obtain j where "st_ctxs s cx = Some (C\<lparr>cx_lex_info := j\<rparr>)" using assms(1) unfolding builds_def by blast
  moreover have "\<not> ai_interrupted s1" using assms(3) by (simp add: builds_def)
  ultimately show ?thesis using assms(2,4,5) by simp
qed

text \<open>
  What an expression in the middle of a list does: one round of the loop, in which its code is
  written and one more argument counted.
\<close>

definition compiles :: "expr \<Rightarrow> bool" where
  "compiles e \<longleftrightarrow>
     (\<forall>s cx C cs D us bs d vars m. map fst us = lexemes e \<longrightarrow> spell_ok (us @ bs) \<longrightarrow> builds s cx C cs D \<longrightarrow>
        at_text D (spell (us @ bs)) \<longrightarrow> denotes s e = Some d \<longrightarrow> length (us @ bs) \<le> m \<longrightarrow>
        length cs + length (us @ bs) < 2 ^ 32 \<longrightarrow>
        (\<exists>a t D'. compile_list_loop (Suc m) s cx vars =
             compile_list_loop m t cx (vars\<lparr>cl_argc := cl_argc vars + 1, cl_felem := False\<rparr>) \<and>
           builds t cx C (cs @ code_of a) D' \<and> comp_keeps s t \<and> at_text D' (spell bs) \<and> eval t a = Some d \<and>
           length (code_of a) \<le> length us))"

lemma compilesD:
  assumes "compiles e" "map fst us = lexemes e" "spell_ok (us @ bs)" "builds s cx C cs D" "at_text D (spell (us @ bs))"
    "denotes s e = Some d" "length (us @ bs) \<le> m" "length cs + length (us @ bs) < 2 ^ 32"
  shows "\<exists>a t D'. compile_list_loop (Suc m) s cx vars =
      compile_list_loop m t cx (vars\<lparr>cl_argc := cl_argc vars + 1, cl_felem := False\<rparr>) \<and>
    builds t cx C (cs @ code_of a) D' \<and> comp_keeps s t \<and> at_text D' (spell bs) \<and> eval t a = Some d \<and>
    length (code_of a) \<le> length us"
  using assms unfolding compiles_def by blast

lemma spell_ok_append: "spell_ok (us @ bs) \<Longrightarrow> spell_ok bs"
  by (induction us rule: spell_ok.induct) auto

lemma compiles_number: "compiles (Num n)"
  unfolding compiles_def
proof (intro allI impI)
  fix s cx C cs D us bs d vars m
  assume a: "map fst us = lexemes (Num n)" "spell_ok (us @ bs)" "builds s cx C cs D" "at_text D (spell (us @ bs))"
    "denotes s (Num n) = Some d" "length (us @ bs) \<le> m" "length cs + length (us @ bs) < 2 ^ 32"
  obtain k where us: "us = [(L_number (dec_digits n), k)]" using a(1) by (cases us) auto
  have tx: "at_text D (spell ((L_number (dec_digits n), k) # bs))" "spell_ok ((L_number (dec_digits n), k) # bs)"
    using a(2,4) us by simp_all
  obtain s1 D1 where s1: "lex_token s (cx_dev C) = Some (tNUMBER, s1)" "builds s1 cx C cs D1" "comp_keeps s s1"
    "at_text D1 (spell bs)" "buffer_text D1 = Some (dec_digits n)"
    using builds_lexeme [OF a(3) tx] by auto
  have len: "length cs + 1 < 2 ^ 32" using a(7) us by simp
  obtain p t where t: "compile_const s1 cx tNUMBER vars = Some (vars\<lparr>cl_argc := cl_argc vars + 1\<rparr>, t)"
    "builds t cx C (cs @ [C_push p]) (set_buffer D1 [])" "comp_keeps s1 t" "number_at t p (dbl_of_int (int n))"
    using compile_number [OF s1(2,5) len] by blast
  have "eval t (Const p) = Some d" using t(4) a(5) by (auto simp: number_at_def)
  moreover have "compile_list_loop (Suc m) s cx vars =
      compile_list_loop m t cx (vars\<lparr>cl_argc := cl_argc vars + 1, cl_felem := False\<rparr>)"
    using loop_step [OF a(3) s1(1,2)] t(1) by simp
  ultimately show "\<exists>a t D'. compile_list_loop (Suc m) s cx vars =
             compile_list_loop m t cx (vars\<lparr>cl_argc := cl_argc vars + 1, cl_felem := False\<rparr>) \<and>
           builds t cx C (cs @ code_of a) D' \<and> comp_keeps s t \<and> at_text D' (spell bs) \<and> eval t a = Some d \<and>
           length (code_of a) \<le> length us"
    using t(2) comp_keeps_trans [OF s1(3) t(3)] set_buffer_at_text [OF s1(5,4)] us
    by (intro exI [of _ "Const p"] exI [of _ t] exI [of _ "set_buffer D1 []"]) simp
qed

lemma compile_args:
  assumes "\<forall>e\<in>set es. compiles e"
    and "map fst us = concat (map lexemes es)" "spell_ok (us @ bs)" "builds s cx C cs D" "at_text D (spell (us @ bs))"
    "list_all2 (\<lambda>e d. denotes s e = Some d) es ds" "length (us @ bs) < n" "length cs + length (us @ bs) < 2 ^ 32"
    "\<not> cl_felem vars"
  shows "\<exists>xs t D' n'. compile_list_loop n s cx vars = compile_list_loop n' t cx (vars\<lparr>cl_argc := cl_argc vars + length es\<rparr>) \<and>
    builds t cx C (cs @ concat (map code_of xs)) D' \<and> comp_keeps s t \<and> at_text D' (spell bs) \<and>
    list_all2 (\<lambda>a d. eval t a = Some d) xs ds \<and> length (concat (map code_of xs)) \<le> length us \<and> length bs < n'"
  using assms
proof (induction es arbitrary: us s cs D ds n vars)
  case Nil
  have "vars\<lparr>cl_argc := cl_argc vars + length []\<rparr> = vars" by simp
  then show ?case using Nil.prems by (intro exI [of _ "[]"] exI [of _ s] exI [of _ D] exI [of _ n]) simp
next
  case (Cons e es)
  obtain xs ys where xy: "us = xs @ ys" "map fst xs = lexemes e" "map fst ys = concat (map lexemes es)"
    using Cons.prems(2) by (auto simp: map_eq_append_conv)
  obtain d ds1 where ds: "ds = d # ds1" "denotes s e = Some d" "list_all2 (\<lambda>e d. denotes s e = Some d) es ds1"
    using Cons.prems(6) by (auto simp: list_all2_Cons1)
  obtain m where m: "n = Suc m" "length (xs @ ys @ bs) \<le> m" using Cons.prems(7) xy(1) by (cases n) auto
  have "compiles e" using Cons.prems(1) by simp
  obtain a t D1 where t: "compile_list_loop n s cx vars =
       compile_list_loop m t cx (vars\<lparr>cl_argc := cl_argc vars + 1, cl_felem := False\<rparr>)"
    "builds t cx C (cs @ code_of a) D1" "comp_keeps s t" "at_text D1 (spell (ys @ bs))" "eval t a = Some d"
    "length (code_of a) \<le> length xs"
    using compilesD [OF \<open>compiles e\<close> xy(2), of "ys @ bs" s cx C cs D d m vars] Cons.prems(3-5,8) xy(1) ds(2) m
    by auto
  have ne: "xs \<noteq> []" using xy(2) by (cases e) auto
  let ?v = "vars\<lparr>cl_argc := cl_argc vars + 1, cl_felem := False\<rparr>"
  have IH: "\<exists>zs u D' n'. compile_list_loop m t cx ?v = compile_list_loop n' u cx (?v\<lparr>cl_argc := cl_argc ?v + length es\<rparr>) \<and>
    builds u cx C ((cs @ code_of a) @ concat (map code_of zs)) D' \<and> comp_keeps t u \<and> at_text D' (spell bs) \<and>
    list_all2 (\<lambda>a d. eval u a = Some d) zs ds1 \<and> length (concat (map code_of zs)) \<le> length ys \<and> length bs < n'"
  proof (rule Cons.IH)
    show "list_all2 (\<lambda>e d. denotes t e = Some d) es ds1"
      using ds(3) denotes_keep [OF t(3)] by (auto elim: list_all2_mono)
    show "length (ys @ bs) < m" using m(2) ne by (cases xs) auto
    show "length (cs @ code_of a) + length (ys @ bs) < 2 ^ 32" using Cons.prems(8) xy(1) t(6) by simp
    show "spell_ok (ys @ bs)" using Cons.prems(3) xy(1) spell_ok_append [of xs "ys @ bs"] by simp
  qed (use Cons.prems(1) xy(3) t(2,4) in simp_all)
  then obtain zs u D' n' where u: "compile_list_loop m t cx ?v = compile_list_loop n' u cx (?v\<lparr>cl_argc := cl_argc ?v + length es\<rparr>)"
    "builds u cx C ((cs @ code_of a) @ concat (map code_of zs)) D'" "comp_keeps t u" "at_text D' (spell bs)"
    "list_all2 (\<lambda>a d. eval u a = Some d) zs ds1" "length (concat (map code_of zs)) \<le> length ys" "length bs < n'"
    by blast
  have v: "?v\<lparr>cl_argc := cl_argc ?v + length es\<rparr> = vars\<lparr>cl_argc := cl_argc vars + length (e # es)\<rparr>"
    using Cons.prems(9) by simp
  have "compile_list_loop n s cx vars = compile_list_loop n' u cx (vars\<lparr>cl_argc := cl_argc vars + length (e # es)\<rparr>)"
    using t(1) u(1) unfolding v by (rule trans)
  moreover have "eval u a = Some d" using eval_keep [OF u(3) t(5)] .
  ultimately show ?case
    using u(2,4-7) t(6) ds(1) xy(1) comp_keeps_trans [OF t(3) u(3)]
    by (intro exI [of _ "a # zs"] exI [of _ u] exI [of _ D'] exI [of _ n']) simp
qed

text \<open>The rest of a call after its opening brace, as \<open>akl_compile_list\<close> reads it.\<close>

lemma compile_body:
  assumes "\<forall>e\<in>set es. compiles e"
    and us: "map fst us = L_atom f # concat (map lexemes es) @ [L_close]" "spell_ok (us @ bs)"
    and b: "builds s cx C cs D" "at_text D (spell (us @ bs))" and d: "denotes s (Call f es) = Some d"
    and len: "length (us @ bs) < n" "length cs + length (us @ bs) < 2 ^ 32"
  shows "\<exists>a t D'. compile_list_loop n s cx init_vars = Some (0, t) \<and> builds t cx C (cs @ code_of a) D' \<and>
    comp_keeps s t \<and> at_text D' (spell bs) \<and> eval t a = Some d \<and> length (code_of a) \<le> length us"
proof -
  obtain k xs k' where u: "us = (L_atom f, k) # xs @ [(L_close, k')]" "map fst xs = concat (map lexemes es)"
  proof -
    obtain p us1 where 1: "us = p # us1" "fst p = L_atom f" "map fst us1 = concat (map lexemes es) @ [L_close]"
      using us(1) by (auto simp: map_eq_Cons_conv)
    then obtain xs q where "us1 = xs @ [q]" "map fst xs = concat (map lexemes es)" "fst q = L_close"
      by (auto simp: map_eq_append_conv map_eq_Cons_conv)
    then show thesis using 1 by (intro that [of "snd p" xs "snd q"]) (auto simp: prod_eq_iff)
  qed
  obtain symb fn g ds where f: "length es < 2147483648" "resolve s (map tolower f) = Some (symb, fn)"
    "function_of s fn = Some g" "list_all2 (\<lambda>e d. denotes s e = Some d) es ds" "arith_value g ds = Some d"
    using d by (auto simp: Option.bind_eq_Some_conv list_some_map split: if_splits)
  let ?ys = "xs @ (L_close, k') # bs"
  have tx: "at_text D (spell ((L_atom f, k) # ?ys))" "spell_ok ((L_atom f, k) # ?ys)" using us(2) b(2) u(1) by simp_all
  obtain s1 D1 where s1: "lex_token s (cx_dev C) = Some (tATOM, s1)" "builds s1 cx C cs D1" "comp_keeps s s1"
    "at_text D1 (spell ?ys)" "buffer_text D1 = Some (map tolower f)"
    using builds_lexeme [OF b(1) tx] by auto
  have g1: "function_of s1 fn = Some g" by (rule function_of_keep [OF s1(3) f(3)])
  obtain m where m: "n = Suc m" "length ?ys < m" using len(1) u(1) by (cases n) auto
  let ?next = "compile_next (\<lambda>s c. compile_list_loop m s c init_vars)"
  obtain info s2 where s2: "compile_atom ?next s1 cx False init_vars =
      Some (init_vars\<lparr>cl_call_info := info, cl_pf_st := PF_FN_NORMAL, cl_fun := fn, cl_sym := symb\<rparr>, s2)"
    "builds s2 cx C cs (set_buffer D1 [])" "comp_keeps s1 s2"
    using compile_name [OF s1(2,5) resolve_keep [OF s1(3) f(2)] g1, where nxt = ?next] by blast
  define v where "v = init_vars\<lparr>cl_call_info := info, cl_pf_st := PF_FN_NORMAL, cl_fun := fn, cl_sym := symb, cl_felem := False\<rparr>"
  have run1: "compile_list_loop n s cx init_vars = compile_list_loop m s2 cx v"
    using loop_step [OF b(1) s1(1,2), of m init_vars] s2(1) m(1) by (simp add: v_def)
  have k2: "comp_keeps s s2" by (rule comp_keeps_trans [OF s1(3) s2(3)])
  have ds2: "list_all2 (\<lambda>e d. denotes s2 e = Some d) es ds"
    using f(4) denotes_keep [OF k2] by (auto elim: list_all2_mono)
  have ok: "spell_ok ?ys" using tx(2) by simp
  have len2: "length cs + length ?ys < 2 ^ 32" using len(2) u(1) by simp
  have v0: "\<not> cl_felem v" "cl_argc v = 0" "cl_sym v = symb" "cl_fun v = fn" by (simp_all add: v_def init_vars_def)
  obtain as' s3 D3 n' where s3: "compile_list_loop m s2 cx v = compile_list_loop n' s3 cx (v\<lparr>cl_argc := cl_argc v + length es\<rparr>)"
    "builds s3 cx C (cs @ concat (map code_of as')) D3" "comp_keeps s2 s3" "at_text D3 (spell ((L_close, k') # bs))"
    "list_all2 (\<lambda>a d. eval s3 a = Some d) as' ds" "length (concat (map code_of as')) \<le> length xs" "length ((L_close, k') # bs) < n'"
    using compile_args [OF assms(1) u(2) ok s2(2) set_buffer_at_text [OF s1(5,4)] ds2 m(2) len2 v0(1)] by blast
  obtain j where j: "n' = Suc j" using s3(7) by (cases n') auto
  have okc: "spell_ok ((L_close, k') # bs)" using ok by (rule spell_ok_append)
  obtain s4 D4 where s4: "lex_token s3 (cx_dev C) = Some (tRBRACE, s4)"
    "builds s4 cx C (cs @ concat (map code_of as')) D4" "comp_keeps s3 s4" "at_text D4 (spell bs)"
    using builds_lexeme [OF s3(2,4) okc] by auto
  let ?v = "v\<lparr>cl_argc := cl_argc v + length es\<rparr>"
  have n32: "length (cs @ concat (map code_of as')) + 1 < 2 ^ 32" using s3(6) len2 by simp
  have nz: "cl_sym ?v \<noteq> 0" using v0(3) resolveE(2) [OF f(2)] by simp
  obtain t where t: "compile_rbrace s4 cx ?v = Some (0, t)"
    "builds t cx C ((cs @ concat (map code_of as')) @ [C_call symb fn (length es)]) D4" "comp_keeps s4 t"
    using compile_close [OF s4(2) nz n32] v0 by auto
  have run: "compile_list_loop n s cx init_vars = Some (0, t)"
    using run1 s3(1) loop_step [OF s3(2) s4(1,2), of j ?v] t(1) j by simp
  have k: "comp_keeps s3 t" by (rule comp_keeps_trans [OF s4(3) t(3)])
  have kt: "comp_keeps s t" by (rule comp_keeps_trans [OF k2 comp_keeps_trans [OF s3(3) k]])
  have la: "length as' = length es" using list_all2_lengthD [OF f(4)] list_all2_lengthD [OF s3(5)] by simp
  have "list_all2 (\<lambda>a d. eval t a = Some d) as' ds"
    using s3(5) eval_keep [OF k] by (auto elim: list_all2_mono)
  then have "list_some (map (eval t) as') = Some ds" by (simp add: list_some_map)
  moreover have "sym_ok t symb"
    using resolveE(3) [OF f(2)] comp_keeps_fields(1) [OF kt] by (auto simp: sym_ok_def symbol_name_def split: option.splits)
  moreover have "function_of t fn = Some g" by (rule function_of_keep [OF kt f(3)])
  ultimately have "eval t (App symb fn as') = Some d" using f(1,5) la resolveE(4) [OF f(2)] by simp
  moreover have "builds t cx C (cs @ code_of (App symb fn as')) D4" using t(2) la by simp
  moreover have "length (code_of (App symb fn as')) \<le> length us" using s3(6) u(1) by simp
  ultimately show ?thesis using run kt s4(4) by blast
qed

lemma compiles_expr: "compiles e"
proof (induction e)
  case (Num n)
  show ?case by (rule compiles_number)
next
  case (Call f es)
  show ?case
    unfolding compiles_def
  proof (intro allI impI)
    fix s cx C cs D us bs d vars m
    assume a: "map fst us = lexemes (Call f es)" "spell_ok (us @ bs)" "builds s cx C cs D" "at_text D (spell (us @ bs))"
      "denotes s (Call f es) = Some d" "length (us @ bs) \<le> m" "length cs + length (us @ bs) < 2 ^ 32"
    obtain k vs where us: "us = (L_open, k) # vs" "map fst vs = L_atom f # concat (map lexemes es) @ [L_close]"
      using a(1) by (cases us) auto
    have tx: "at_text D (spell ((L_open, k) # vs @ bs))" "spell_ok ((L_open, k) # vs @ bs)" using a(2,4) us(1) by simp_all
    obtain s1 D1 where s1: "lex_token s (cx_dev C) = Some (tLBRACE, s1)" "builds s1 cx C cs D1" "comp_keeps s s1"
      "at_text D1 (spell (vs @ bs))"
      using builds_lexeme [OF a(3) tx] by auto
    have ok: "spell_ok (vs @ bs)" "length (vs @ bs) < m" "length cs + length (vs @ bs) < 2 ^ 32"
      using tx(2) a(6,7) us(1) by simp_all
    have "\<forall>e\<in>set es. compiles e" using Call.IH by blast
    then obtain x t D' where t: "compile_list_loop m s1 cx init_vars = Some (0, t)" "builds t cx C (cs @ code_of x) D'"
      "comp_keeps s1 t" "at_text D' (spell bs)" "eval t x = Some d" "length (code_of x) \<le> length vs"
      using compile_body [OF _ us(2) ok(1) s1(2,4) denotes_keep [OF s1(3) a(5)] ok(2,3)] by blast
    have "compile_list_loop (Suc m) s cx vars =
        compile_list_loop m t cx (vars\<lparr>cl_argc := cl_argc vars + 1, cl_felem := False\<rparr>)"
      using loop_step [OF a(3) s1(1,2), of m vars] t(1) by (simp add: compile_lbrace_def)
    then show "\<exists>a t D'. compile_list_loop (Suc m) s cx vars =
        compile_list_loop m t cx (vars\<lparr>cl_argc := cl_argc vars + 1, cl_felem := False\<rparr>) \<and>
      builds t cx C (cs @ code_of a) D' \<and> comp_keeps s t \<and> at_text D' (spell bs) \<and> eval t a = Some d \<and>
      length (code_of a) \<le> length us"
      using t(2,4-6) us(1) comp_keeps_trans [OF s1(3) t(3)]
      by (intro exI [of _ x] exI [of _ t] exI [of _ D']) simp
  qed
qed

subsection \<open>Compiling a program\<close>

lemma parse_fuel_text:
  assumes "builds s cx C cs D" "at_text D (spell us)" "spell_ok us"
  shows "length us + 3 \<le> parse_fuel s cx"
proof -
  obtain j where "st_ctxs s cx = Some (C\<lparr>cx_lex_info := j\<rparr>)" "st_devs s (cx_dev C) = Some D"
    using assms(1) unfolding builds_def by blast
  then have "parse_fuel s cx = 3 * lex_fuel D + 3" by (simp add: parse_fuel_def)
  then show ?thesis using lex_fuel_at_text [OF assms(2,3)] by simp
qed

text \<open>One expression of a program.\<close>

lemma compile_next_expr:
  assumes us: "map fst us = lexemes e" "spell_ok (us @ bs)" and b: "builds s cx C cs D" "at_text D (spell (us @ bs))"
    and d: "denotes s e = Some d" and len: "length cs + length (us @ bs) < 2 ^ 32"
  shows "\<exists>a tok f t D'. akl_compile_next s cx = Some (tok, f, t) \<and> tok \<noteq> tEOF \<and> builds t cx C (cs @ code_of a) D' \<and>
    comp_keeps s t \<and> at_text D' (spell bs) \<and> eval t a = Some d \<and> length (code_of a) \<le> length us"
proof -
  obtain j where C: "st_ctxs s cx = Some (C\<lparr>cx_lex_info := j\<rparr>)" using b(1) unfolding builds_def by blast
  show ?thesis
  proof (cases e)
    case (Num n)
    obtain k where u: "us = [(L_number (dec_digits n), k)]" using us(1) Num by (cases us) auto
    have tx: "at_text D (spell ((L_number (dec_digits n), k) # bs))" "spell_ok ((L_number (dec_digits n), k) # bs)"
      using us(2) b(2) u by simp_all
    obtain s1 D1 where s1: "lex_token s (cx_dev C) = Some (tNUMBER, s1)" "builds s1 cx C cs D1" "comp_keeps s s1"
      "at_text D1 (spell bs)" "buffer_text D1 = Some (dec_digits n)"
      using builds_lexeme [OF b(1) tx] by auto
    let ?p = "st_next s1" and ?D = "set_buffer D1 []"
    obtain s2 where s2: "akl_parse_token s1 cx tNUMBER False = Some (?p, s2)" "builds s2 cx C cs ?D" "comp_keeps s1 s2"
      "number_at s2 ?p (dbl_of_int (int n))"
      using parse_number [OF s1(2,5)] by blast
    have l1: "length cs + 1 < 2 ^ 32" using len u by simp
    obtain s3 where s3: "akl_build_push s2 cx ?p = Some s3" "builds s3 cx C (cs @ [C_push ?p]) ?D" "comp_keeps s2 s3"
      using builds_emit [OF s2(2), of "\<lambda>I. I\<lparr>in_op := IR_PUSH, in_arg0 := A_value ?p\<rparr>" "C_push ?p"] l1
      unfolding akl_build_push_def by (auto simp: instr_is_def)
    have "eval s2 (Const ?p) = Some d" using s2(4) d Num by (auto simp: number_at_def)
    then have "eval s3 (Const ?p) = Some d" by (rule eval_keep [OF s3(3)])
    moreover have "akl_compile_next s cx = Some (tNUMBER, 0, s3)"
      using C s1(1) s2(1) s3(1) by (simp add: akl_compile_next_def compile_next_def)
    moreover have "comp_keeps s s3" by (rule comp_keeps_trans [OF s1(3) comp_keeps_trans [OF s2(3) s3(3)]])
    ultimately show ?thesis
      using s3(2) set_buffer_at_text [OF s1(5,4)] u
      by (intro exI [of _ "Const ?p"] exI [of _ tNUMBER] exI [of _ 0] exI [of _ s3] exI [of _ ?D]) simp
  next
    case (Call f es)
    obtain k vs where u: "us = (L_open, k) # vs" "map fst vs = L_atom f # concat (map lexemes es) @ [L_close]"
      using us(1) Call by (cases us) auto
    have tx: "at_text D (spell ((L_open, k) # vs @ bs))" "spell_ok ((L_open, k) # vs @ bs)" using us(2) b(2) u(1) by simp_all
    obtain s1 D1 where s1: "lex_token s (cx_dev C) = Some (tLBRACE, s1)" "builds s1 cx C cs D1" "comp_keeps s s1"
      "at_text D1 (spell (vs @ bs))"
      using builds_lexeme [OF b(1) tx] by auto
    have ok: "spell_ok (vs @ bs)" "length cs + length (vs @ bs) < 2 ^ 32" using tx(2) len u(1) by simp_all
    have fuel: "length (vs @ bs) < parse_fuel s1 cx" using parse_fuel_text [OF s1(2,4) ok(1)] by simp
    have d1: "denotes s1 (Call f es) = Some d" using denotes_keep [OF s1(3) d] unfolding Call .
    obtain a t D' where t: "compile_list_loop (parse_fuel s1 cx) s1 cx init_vars = Some (0, t)"
      "builds t cx C (cs @ code_of a) D'" "comp_keeps s1 t" "at_text D' (spell bs)" "eval t a = Some d"
      "length (code_of a) \<le> length vs"
      using compile_body [OF _ u(2) ok(1) s1(2,4) d1 fuel ok(2)] compiles_expr by blast
    have "akl_compile_next s cx = Some (tLBRACE, 0, t)"
      using C s1(1) t(1) by (simp add: akl_compile_next_def compile_next_def akl_compile_list_def)
    then show ?thesis
      using t(2,4-6) u(1) comp_keeps_trans [OF s1(3) t(3)]
      by (intro exI [of _ a] exI [of _ tLBRACE] exI [of _ 0] exI [of _ t] exI [of _ D']) simp
  qed
qed

lemma compile_loop_program:
  assumes "map fst us = concat (map lexemes es)" "spell_ok us" "builds s cx C cs D" "at_text D (spell us)"
    "list_all2 (\<lambda>e d. denotes s e = Some d) es ds" "length cs + length us < 2 ^ 32" "length us < n"
  shows "\<exists>xs t D'. compile_loop n s cx = Some t \<and> builds t cx C (cs @ concat (map code_of xs)) D' \<and>
    comp_keeps s t \<and> list_all2 (\<lambda>a d. eval t a = Some d) xs ds \<and> length (concat (map code_of xs)) \<le> length us"
  using assms
proof (induction es arbitrary: us s cs D ds n)
  case Nil
  obtain m where m: "n = Suc m" using Nil.prems(7) by (cases n) auto
  have "ready (if iod_buffer D = None then init_lexer D else D) []" using Nil.prems(1,4) by (simp add: at_text_def)
  then obtain D' where D': "akl_lex D = Some (tEOF, D')" using akl_lex_end unfolding akl_lex_init [of D, symmetric] by blast
  obtain j where C: "st_ctxs s cx = Some (C\<lparr>cx_lex_info := j\<rparr>)" "st_devs s (cx_dev C) = Some D"
    using Nil.prems(3) unfolding builds_def by blast
  let ?t = "upd_dev s (cx_dev C) D'"
  have "compile_loop n s cx = Some ?t"
    using C D' m by (simp add: akl_compile_next_def compile_next_def lex_token_def)
  then show ?case
    using builds_dev [OF Nil.prems(3), of D'] Nil.prems(5)
    by (intro exI [of _ "[]"] exI [of _ ?t] exI [of _ D']) simp
next
  case (Cons e es)
  obtain vs bs where u: "us = vs @ bs" "map fst vs = lexemes e" "map fst bs = concat (map lexemes es)"
    using Cons.prems(1) by (auto simp: map_eq_append_conv)
  obtain d ds1 where ds: "ds = d # ds1" "denotes s e = Some d" "list_all2 (\<lambda>e d. denotes s e = Some d) es ds1"
    using Cons.prems(5) by (auto simp: list_all2_Cons1)
  obtain a tok f t D1 where t: "akl_compile_next s cx = Some (tok, f, t)" "tok \<noteq> tEOF" "builds t cx C (cs @ code_of a) D1"
    "comp_keeps s t" "at_text D1 (spell bs)" "eval t a = Some d" "length (code_of a) \<le> length vs"
    using compile_next_expr [OF u(2) _ Cons.prems(3) _ ds(2)] Cons.prems(2,4,6) u(1) by blast
  have ne: "vs \<noteq> []" using u(2) by (cases e) auto
  obtain m where m: "n = Suc m" "length bs < m" using Cons.prems(7) u(1) ne by (cases n; cases vs) auto
  have "\<exists>xs w D'. compile_loop m t cx = Some w \<and> builds w cx C ((cs @ code_of a) @ concat (map code_of xs)) D' \<and>
    comp_keeps t w \<and> list_all2 (\<lambda>a d. eval w a = Some d) xs ds1 \<and> length (concat (map code_of xs)) \<le> length bs"
  proof (rule Cons.IH [OF u(3) _ t(3,5) _ _ m(2)])
    show "list_all2 (\<lambda>e d. denotes t e = Some d) es ds1"
      using ds(3) denotes_keep [OF t(4)] by (auto elim: list_all2_mono)
    show "length (cs @ code_of a) + length bs < 2 ^ 32" using Cons.prems(6) u(1) t(7) by simp
    show "spell_ok bs" using Cons.prems(2) u(1) spell_ok_append by blast
  qed
  then obtain xs w D' where w: "compile_loop m t cx = Some w" "builds w cx C ((cs @ code_of a) @ concat (map code_of xs)) D'"
    "comp_keeps t w" "list_all2 (\<lambda>a d. eval w a = Some d) xs ds1" "length (concat (map code_of xs)) \<le> length bs" by blast
  have "compile_loop n s cx = Some w" using m(1) t(1,2) w(1) by simp
  moreover have "eval w a = Some d" by (rule eval_keep [OF w(3) t(6)])
  ultimately show ?case
    using w(2,4,5) t(7) u(1) ds(1) comp_keeps_trans [OF t(4) w(3)]
    by (intro exI [of _ "a # xs"] exI [of _ w] exI [of _ D']) simp
qed

text \<open>The code in the memory, once the compiler is done.\<close>

definition code_in :: "akl_state \<Rightarrow> addr \<Rightarrow> code_op list \<Rightarrow> bool" where
  "code_in s ir cs \<longleftrightarrow> (\<exists>ps. holds s ir ps \<and> list_all2 (instr_here s) ps cs)"

text \<open>The compiler drops the last NOP.\<close>

lemma pop_nop:
  assumes "heap_ok s" "written s ir cs"
  shows "\<exists>lip s'. akl_list_pop s ir = Some (lip, s') \<and> (lip = 0 \<or> (\<exists>I. st_instrs s' lip = Some I \<and> in_op I = IR_NOP)) \<and>
    heap_ok s' \<and> code_in s' ir cs \<and> st_ctxs s' = st_ctxs s \<and> comp_keeps s s'"
proof -
  obtain ps where ps: "holds s ir ps" "code_list s ps cs" using assms(2) by (auto simp: written_def)
  show ?thesis
  proof (cases "ps = []")
    case True
    then have "code_in s ir cs" using ps by (auto simp: code_in_def code_list_def)
    moreover have "akl_list_pop s ir = Some (0, s)" using pop_empty ps(1) True by simp
    ultimately show ?thesis using assms(1) by simp
  next
    case False
    then obtain qs q I where q: "ps = qs @ [q]" "list_all2 (instr_here s) qs cs" "st_instrs s q = Some I" "in_op I = IR_NOP"
      using ps(2) unfolding code_list_def by blast
    obtain es e where es: "is_list s ir (es @ [e])" "qs = map (edata s) es" "q = edata s e"
      using ps(1) q(1) by (auto simp: holds_def map_eq_append_conv append_eq_map_conv)
    obtain s' where s': "akl_list_pop_entry s ir = Some (e, s')" "is_list s' ir es" "list_op (set (es @ [e])) ir s s'" "heap_ok s'"
      using pop_entry_ok [OF assms(1) es(1)] by blast
    have dt: "map (edata s') (es @ [e]) = map (edata s) (es @ [e])" by (rule list_op_data [OF s'(3) es(1)])
    have "st_ents s' e \<noteq> None \<and> e \<noteq> 0"
      using s'(3) is_list_ents [OF es(1), of e] unfolding list_op_def by auto
    then have "akl_list_pop s ir = Some (q, s')"
      using s'(1) es(3) dt entry_data_edata [of s' e] by (auto simp: akl_list_pop_def)
    moreover have "holds s' ir qs" using s'(2) es(2) dt unfolding holds_def by auto
    moreover have i: "st_instrs s' = st_instrs s" "st_ctxs s' = st_ctxs s" using list_op_fields [OF s'(3)] by simp_all
    moreover have "list_all2 (instr_here s') qs cs" using q(2) instrs_here_cong [of qs s' s cs] i(1) by simp
    ultimately show ?thesis using q(3,4) s'(4) list_op_keeps [OF s'(3)] unfolding code_in_def by auto
  qed
qed

text \<open>The state in which \<open>akl_compile\<close> starts to read.\<close>

definition main_context :: "addr \<Rightarrow> addr \<Rightarrow> addr \<Rightarrow> akl_context" where
  "main_context f dev ir =
     init_context\<lparr>cx_state := True, cx_fn_main := f, cx_dev := dev, cx_comp_func := f, cx_ir := ir\<rparr>"

lemma start_compile:
  assumes "heap_ok s" "\<not> ai_interrupted s" "st_devs s dev = Some D"
  shows "\<exists>s1 s2 s3 f uf. akl_new_context s = (st_next s, s1) \<and> new_ufun s1 = (f, s2) \<and> get_ufun s2 f = Some uf \<and>
    upd_ctx s2 (st_next s) (\<lambda>C. C\<lparr>cx_fn_main := f, cx_dev := dev, cx_comp_func := f, cx_ir := uf_body uf\<rparr>) = Some s3 \<and>
    builds s3 (st_next s) (main_context f dev (uf_body uf)) [] D \<and>
    comp_keeps s s3 \<and> f \<noteq> 0 \<and> st_funs s3 f = st_funs s2 f"
proof -
  let ?c = "st_next s" and ?f = "st_next s + 1" and ?b = "st_next s + 2" and ?l = "st_next s + 3"
  define s1 where "s1 = s\<lparr>st_next := ?c + 1, st_ctxs := (st_ctxs s)(?c \<mapsto> init_context\<lparr>cx_state := True\<rparr>)\<rparr>"
  define uf where "uf = \<lparr>uf_args = [], uf_body = ?b, uf_labels = ?l, uf_info = None\<rparr>"
  define F where "F = \<lparr>fn_gc = AKL_GC_INIT_OBJ GC_FUNCTION, fn_type = FUNC_USER, fn_body = B_ufun uf\<rparr>"
  define s2 where "s2 = s1\<lparr>st_next := st_next s + 4, st_lists := (st_lists s)(?b \<mapsto> empty_list, ?l \<mapsto> empty_list),
    st_funs := (st_funs s)(?f \<mapsto> F)\<rparr>"
  let ?C = "main_context ?f dev ?b"
  define s3 where "s3 = s2\<lparr>st_ctxs := (st_ctxs s2)(?c \<mapsto> ?C)\<rparr>"
  have fr: "x \<notin> heap_live s" if "?c \<le> x" for x using assms(1) that by (auto simp: heap_ok_def)
  have n1: "akl_new_context s = (?c, s1)" by (simp add: akl_new_context_def s1_def Let_def)
  have n2: "new_ufun s1 = (?f, s2)"
    using assms(1) by (simp add: new_ufun_def akl_new_function_def akl_new_list_def akl_init_list_def Let_def s1_def s2_def
      F_def uf_def heap_ok_def eval_nat_numeral)
  have uf: "get_ufun s2 ?f = Some uf" by (simp add: get_ufun_def s2_def F_def)
  have n3: "upd_ctx s2 ?c (\<lambda>C. C\<lparr>cx_fn_main := ?f, cx_dev := dev, cx_comp_func := ?f, cx_ir := ?b\<rparr>) = Some s3"
    by (simp add: upd_ctx_def s3_def s2_def s1_def main_context_def)
  have k: "comp_keeps s s3"
  proof (rule comp_keepsI)
    show "s3 = s\<lparr>st_next := st_next s3, st_ents := st_ents s3, st_lists := st_lists s3, st_vals := st_vals s3,
        st_funs := st_funs s3, st_instrs := st_instrs s3, st_ctxs := st_ctxs s3, st_devs := st_devs s3\<rparr>"
      by (simp add: s3_def s2_def s1_def)
    show "st_vals s3 x = Some V" if "st_vals s x = Some V" for x V using that by (simp add: s3_def s2_def s1_def)
    show "st_funs s3 x = Some G" if "st_funs s x = Some G" for x G
      using that fr [of ?f] by (auto simp: s3_def s2_def s1_def heap_live_def)
  qed
  have ok: "heap_ok s3"
    by (rule heap_ok_grow [OF assms(1)]) (auto simp: s3_def s2_def s1_def heap_live_def split: if_splits)
  have "is_list s3 ?b []" by (simp add: is_list_def chain_def s3_def s2_def empty_list_def)
  then have "written s3 ?b []" unfolding written_def holds_def by (intro exI [of _ "[]"]) (simp add: code_list_def)
  then have "builds s3 ?c ?C [] D" using assms(2,3) ok by (simp add: builds_def s3_def s2_def s1_def main_context_def init_context_def)
  moreover have "uf_body uf = ?b" "?f \<noteq> 0" "st_funs s3 ?f = st_funs s2 ?f" by (simp_all add: uf_def s3_def)
  ultimately show ?thesis using n1 n2 n3 uf k
    by - (rule exI [of _ s1], rule exI [of _ s2], rule exI [of _ s3], rule exI [of _ ?f], rule exI [of _ uf], simp)
qed

lemma akl_compile_program:
  assumes "heap_ok s" "\<not> ai_interrupted s" "st_devs s dev = Some D" "at_text D (spell us)" "spell_ok us"
    "map fst us = concat (map lexemes es)" "list_all2 (\<lambda>e d. denotes s e = Some d) es ds" "length us < 2 ^ 32"
  shows "\<exists>cx t C xs uf. akl_compile s dev = Some (cx, t) \<and> heap_ok t \<and> \<not> ai_interrupted t \<and> st_ctxs t cx = Some C \<and>
    cx_state C \<and> cx \<noteq> 0 \<and> cx_fn_main C \<noteq> 0 \<and> get_ufun t (cx_fn_main C) = Some uf \<and> cx_ir C = uf_body uf \<and>
    code_in t (uf_body uf) (concat (map code_of xs)) \<and> list_all2 (\<lambda>a d. eval t a = Some d) xs ds \<and>
    length (concat (map code_of xs)) \<le> length us \<and> comp_keeps s t"
proof -
  let ?c = "st_next s"
  obtain s1 s2 s3 f uf where s: "akl_new_context s = (?c, s1)" "new_ufun s1 = (f, s2)" "get_ufun s2 f = Some uf"
    "upd_ctx s2 ?c (\<lambda>C. C\<lparr>cx_fn_main := f, cx_dev := dev, cx_comp_func := f, cx_ir := uf_body uf\<rparr>) = Some s3"
    "builds s3 ?c (main_context f dev (uf_body uf)) [] D"
    "comp_keeps s s3" "f \<noteq> 0" "st_funs s3 f = st_funs s2 f"
    using start_compile [OF assms(1-3)] by (elim exE conjE) (rule that)
  define C where "C = main_context f dev (uf_body uf)"
  note b = s(5) [folded C_def]
  have ds3: "list_all2 (\<lambda>e d. denotes s3 e = Some d) es ds"
    using assms(7) denotes_keep [OF s(6)] by (auto elim: list_all2_mono)
  have fuel: "length us < parse_fuel s3 ?c" using parse_fuel_text [OF b assms(4,5)] by simp
  obtain xs t D' where t: "compile_loop (parse_fuel s3 ?c) s3 ?c = Some t" "builds t ?c C ([] @ concat (map code_of xs)) D'"
    "comp_keeps s3 t" "list_all2 (\<lambda>a d. eval t a = Some d) xs ds" "length (concat (map code_of xs)) \<le> length us"
    using compile_loop_program [OF assms(6,5) b assms(4) ds3 _ fuel] assms(8) by auto
  have ir: "cx_ir C = uf_body uf" by (simp add: C_def main_context_def)
  have bt: "heap_ok t" "\<not> ai_interrupted t" "cx_state C" "written t (uf_body uf) (concat (map code_of xs))"
    using t(2) ir unfolding builds_def by simp_all
  obtain j where ctx: "st_ctxs t ?c = Some (C\<lparr>cx_lex_info := j\<rparr>)" using t(2) unfolding builds_def by blast
  obtain lip u where u: "akl_list_pop t (uf_body uf) = Some (lip, u)"
    "lip = 0 \<or> (\<exists>I. st_instrs u lip = Some I \<and> in_op I = IR_NOP)" "heap_ok u"
    "code_in u (uf_body uf) (concat (map code_of xs))" "st_ctxs u = st_ctxs t" "comp_keeps t u"
    using pop_nop [OF bt(1,4)] by blast
  have dev: "dev \<noteq> 0" using assms(1,3) by (auto simp: heap_ok_def heap_live_def)
  have c0: "?c \<noteq> 0" using assms(1) by (simp add: heap_ok_def)
  have run: "akl_compile s dev = Some (?c, u)"
    using dev s(1-4) t(1) u(1,2) by (auto simp: akl_compile_def Let_def)
  have ku: "comp_keeps s3 u" by (rule comp_keeps_trans [OF t(3) u(6)])
  obtain F where F: "st_funs s2 f = Some F" using s(3) by (auto simp: get_ufun_def Option.bind_eq_Some_conv)
  then have body: "fn_body F = B_ufun uf" using s(3) by (cases "fn_body F") (simp_all add: get_ufun_def)
  have "st_funs u f = Some F" using F s(8) ku by (simp add: comp_keeps_def)
  then have "get_ufun u f = Some uf" using body by (simp add: get_ufun_def)
  moreover have "list_all2 (\<lambda>a d. eval u a = Some d) xs ds"
    using t(4) eval_keep [OF u(6)] by (auto elim: list_all2_mono)
  moreover have "\<not> ai_interrupted u" using bt(2) comp_keeps_fields(5) [OF u(6)] by simp
  ultimately show ?thesis
    using run u(3-5) ctx c0 s(7) t(5) comp_keeps_trans [OF s(6) ku]
    by (intro exI [of _ ?c] exI [of _ u] exI [of _ "C\<lparr>cx_lex_info := j\<rparr>"] exI [of _ xs] exI [of _ uf]) (simp add: C_def main_context_def)
qed

subsection \<open>Running the compiled program\<close>

lemma code_at_chain:
  assumes "is_list s k []"
  shows "dll (st_ents s) p es 0 \<Longrightarrow> distinct es \<Longrightarrow> list_all2 (\<lambda>e c. instr_here s (edata s e) c) es cs \<Longrightarrow>
    code_at s k (first0 es) cs 0"
proof (induction es arbitrary: p cs)
  case Nil
  then show ?case by simp
next
  case (Cons e es)
  obtain c ds where cs: "cs = c # ds" "instr_here s (edata s e) c" "list_all2 (\<lambda>e c. instr_here s (edata s e) c) es ds"
    using Cons.prems(3) by (auto simp: list_all2_Cons1)
  obtain E where E: "st_ents s e = Some E" "le_next E = first0 es"
    using dll_hd [OF Cons.prems(1)] by (auto simp: first0_def)
  have e: "e \<noteq> 0" using dll_nonzero [OF Cons.prems(1), of e] by simp
  have d: "dll (st_ents s) e es 0" using Cons.prems(1) by auto
  have ne: "first0 es \<noteq> e" using e Cons.prems(2) by (cases es) auto
  have "code_at s k (first0 es) ds 0" by (rule Cons.IH [OF d _ cs(3)]) (use Cons.prems(2) in simp)
  moreover obtain I where "st_instrs s (edata s e) = Some I" "instr_is I c" using cs(2) by (auto simp: instr_here_def)
  ultimately show ?case using E e ne cs(1) assms by (force simp: edata_def)
qed

lemma run_compiled:
  assumes ok: "heap_ok t" "\<not> ai_interrupted t" "st_ctxs t cx = Some C" "cx_state C" "cx \<noteq> 0" "cx_fn_main C \<noteq> 0"
    and uf: "get_ufun t (cx_fn_main C) = Some uf" "cx_ir C = uf_body uf"
    and code: "code_in t (uf_body uf) (concat (map code_of xs))" "list_all2 (\<lambda>a d. eval t a = Some d) xs ds"
  shows "\<exists>u ps D es qs. (\<forall>ext n. akl_execute ext (length (concat (map code_of xs)) + Suc n) t cx = Some u) \<and>
    stack_holds u cx ps \<and> numbers_at u ps ds \<and> heap_ok u \<and> st_ctxs u cx = Some D \<and> cx_ir D = cx_ir C \<and>
    cx_stack D \<noteq> cx_ir C \<and> is_list u (cx_ir C) es \<and> is_list u (cx_stack D) qs \<and> ps = map (edata u) qs \<and> set qs \<inter> set es = {} \<and> length es = length (concat (map code_of xs)) \<and>
    comp_keeps t u"
proof -
  let ?cs = "concat (map code_of xs)" and ?k = "st_next t"
  obtain es where es: "is_list t (uf_body uf) es" "list_all2 (instr_here t) (map (edata t) es) ?cs"
    using code(1) by (auto simp: code_in_def holds_def)
  define s1 where "s1 = t\<lparr>st_next := ?k + 1, st_lists := (st_lists t)(?k \<mapsto> empty_list)\<rparr>"
  define s2 where "s2 = s1\<lparr>st_ctxs := (st_ctxs t)(cx \<mapsto> C\<lparr>cx_stack := ?k\<rparr>)\<rparr>"
  have k0: "?k \<noteq> 0" "?k \<notin> heap_live t" using ok(1) heap_ok_fresh by (auto simp: heap_ok_def)
  have "akl_new_list t = (?k, s1)" using k0(1) by (simp add: akl_new_list_def akl_init_list_def s1_def Let_def)
  moreover have "t\<lparr>ai_interrupted := False\<rparr> = t" using ok(2) by simp
  moreover have "upd_ctx s1 cx (\<lambda>C. C\<lparr>cx_stack := ?k\<rparr>) = Some s2" using ok(3) by (simp add: upd_ctx_def s1_def s2_def)
  moreover have "get_ufun s2 (cx_fn_main C) = Some uf" using uf(1) by (simp add: get_ufun_def s1_def s2_def)
  moreover obtain L where L: "st_lists t (uf_body uf) = Some L" "li_head L = first0 es"
    by (rule is_list_first_last [OF es(1)])
  have b: "uf_body uf \<noteq> 0" "uf_body uf \<noteq> ?k" using es(1) L(1) k0(2) by (auto simp: is_list_def heap_live_def)
  then have "akl_list_it_begin s2 (uf_body uf) = Some (first0 es)"
    using L by (simp add: akl_list_it_begin_def s1_def s2_def)
  ultimately have run: "akl_execute ext n t cx = exec_branch ext n s2 cx (first0 es)" for ext n
    using ok(3,4,6) uf(2) b(1) by (simp add: akl_execute_def Let_def)
  have "heap_ok s2"
    by (rule heap_ok_grow [OF ok(1)]) (use ok(3) in \<open>auto simp: s1_def s2_def heap_live_def split: if_splits\<close>)
  moreover have l: "is_list s2 ?k []" using k0(1) by (simp add: is_list_def chain_def s1_def s2_def empty_list_def)
  then have "holds s2 ?k []" unfolding holds_def by fastforce
  ultimately have r: "runs s2 cx ?k []" using ok(3-5) by (simp add: runs_def s2_def)
  have same: "st_ents s2 = st_ents t" "st_instrs s2 = st_instrs t" by (simp_all add: s1_def s2_def)
  then have "list_all2 (\<lambda>e c. instr_here s2 (edata s2 e) c) es ?cs"
    using es(2) by (simp add: list_all2_map1 instr_here_def edata_def)
  then have c: "code_at s2 ?k (first0 es) (?cs @ []) 0"
    using code_at_chain [OF l, of 0 es ?cs] es(1) same(1) by (simp add: is_list_def chain_def)
  have ev: "list_all2 (\<lambda>a d. eval s2 a = Some d) xs ds"
    using code(2) by (rule list_all2_mono) (rule eval_mono [of t], simp_all add: s1_def s2_def)
  have i: "\<not> ai_interrupted s2" using ok(2) by (simp add: s1_def s2_def)
  have "computes s2 cx ?k [] (first0 es) (length ?cs) [] 0 ds"
    by (rule computes_list [OF _ ev r i c]) (rule code_computes)
  then obtain ps u mid where u: "numbers_at u ps ds" "runs u cx ?k ([] @ ps)" "code_at u ?k mid [] 0"
    "\<And>ext n. exec_branch ext (length ?cs + Suc n) s2 cx (first0 es) = exec_branch ext (Suc n) u cx mid" "vm_keeps ?k {} s2 u"
    unfolding computes_def by blast
  have ex: "akl_execute ext (length ?cs + Suc n) t cx = Some u" for ext n using run u(3,4) by simp
  obtain D where D: "st_ctxs u cx = Some D" "cx_stack D = ?k" using u(2) by (auto simp: runs_def)
  have "st_ctxs s2 cx = Some (C\<lparr>cx_stack := ?k\<rparr>)" by (simp add: s2_def)
  moreover have "ctx_keeps {} s2 u" using u(5) by (simp add: vm_keeps_def)
  ultimately obtain i where "st_ctxs u cx = Some (C\<lparr>cx_stack := ?k, cx_lex_info := i\<rparr>)" unfolding ctx_keeps_def by blast
  then have ir: "cx_ir D = cx_ir C" using D(1) by simp
  have "is_list u (uf_body uf) es"
  proof -
    have "st_ents u x = st_ents t x" if "x \<in> set es" for x
    proof -
      have "st_ents s2 x \<noteq> None" using is_list_ents [OF es(1) that] same(1) by simp
      then show ?thesis using ents_keepD(3) [of ?k s2 u "[]" x] l u(5) same(1) by (simp add: vm_keeps_def)
    qed
    then have "dll (st_ents u) 0 es 0 = dll (st_ents t) 0 es 0" by (intro dll_cong) simp
    moreover have "st_lists u (uf_body uf) = Some L" using u(5) b(2) L(1) by (simp add: vm_keeps_def s1_def s2_def)
    ultimately show ?thesis using es(1) L(1) by (simp add: is_list_def chain_def)
  qed
  moreover obtain qs where qs: "is_list u ?k qs" "[] @ ps = map (edata u) qs" using u(2) by (auto simp: runs_def holds_def)
  moreover have "set qs \<inter> set es = {}"
  proof -
    obtain rs where "is_list u ?k rs" "set rs \<subseteq> set [] \<union> {x. st_ents s2 x = None}"
      using ents_keepD(2) [of ?k s2 u "[]"] l u(5) unfolding vm_keeps_def by blast
    then have "set qs \<subseteq> {x. st_ents t x = None}" using is_list_unique [OF qs(1)] same(1) by auto
    then show ?thesis using is_list_ents [OF es(1)] by blast
  qed
  moreover have "length es = length ?cs" using es(2) by (auto dest: list_all2_lengthD)
  moreover have "comp_keeps t s2" by (rule comp_keepsI) (simp_all add: s1_def s2_def)
  then have "comp_keeps t u" by (rule comp_keeps_trans) (rule vm_keeps_comp [OF u(5)])
  ultimately show ?thesis
    using ex u(1) runs_stack [OF u(2)] u(2) D ir uf(2) b(2)
    by - (rule exI [of _ u], rule exI [of _ ps], rule exI [of _ D], rule exI [of _ es], rule exI [of _ qs], auto simp: runs_def)
qed

text \<open>Compiling and running a program, with what both leave as it was.\<close>

lemma program_runs:
  assumes "heap_ok s" "\<not> ai_interrupted s" "st_devs s dev = Some D" "fresh_device D (spell us)"
    "spell_ok us" "map fst us = concat (map lexemes es)" "length us < 2 ^ 32"
    "map (denotes s) es = map Some ds"
  shows "\<exists>cx t C u ps E fs N qs. akl_compile s dev = Some (cx, t) \<and> N \<le> length us \<and>
    (\<forall>ext n. akl_execute ext (N + Suc n) t cx = Some u) \<and> stack_holds u cx ps \<and> numbers_at u ps ds \<and>
    cx \<noteq> 0 \<and> st_ctxs t cx = Some C \<and> ai_config t = ai_config s \<and> heap_ok u \<and> st_ctxs u cx = Some E \<and>
    cx_stack E \<noteq> cx_ir E \<and> is_list u (cx_ir E) fs \<and> length fs \<le> length us \<and>
    is_list u (cx_stack E) qs \<and> ps = map (edata u) qs \<and> set qs \<inter> set fs = {} \<and>
    comp_keeps s u"
proof -
  have "at_text D (spell us)" using fresh_ready [OF assms(5,4)] assms(4) by (simp add: at_text_def fresh_device_def)
  moreover have "list_all2 (\<lambda>e d. denotes s e = Some d) es ds"
    using assms(8) by (simp add: list_eq_iff_nth_eq list_all2_conv_all_nth)
  ultimately obtain cx t C xs uf where t: "akl_compile s dev = Some (cx, t)" "heap_ok t" "\<not> ai_interrupted t"
    "st_ctxs t cx = Some C" "cx_state C" "cx \<noteq> 0" "cx_fn_main C \<noteq> 0" "get_ufun t (cx_fn_main C) = Some uf"
    "cx_ir C = uf_body uf" "code_in t (uf_body uf) (concat (map code_of xs))" "list_all2 (\<lambda>a d. eval t a = Some d) xs ds"
    "length (concat (map code_of xs)) \<le> length us" "comp_keeps s t"
    using akl_compile_program [OF assms(1-3) _ assms(5,6) _ assms(7)] by blast
  obtain u ps E fs qs where u: "\<forall>ext n. akl_execute ext (length (concat (map code_of xs)) + Suc n) t cx = Some u"
    "stack_holds u cx ps" "numbers_at u ps ds" "heap_ok u" "st_ctxs u cx = Some E" "cx_ir E = cx_ir C" "cx_stack E \<noteq> cx_ir C"
    "is_list u (cx_ir C) fs" "is_list u (cx_stack E) qs" "ps = map (edata u) qs" "set qs \<inter> set fs = {}" "length fs = length (concat (map code_of xs))"
    "comp_keeps t u"
    using run_compiled [OF t(2-11)] by (elim exE conjE) (rule that)
  show ?thesis
    using t(1,4,6,12) u comp_keeps_fields [OF t(13)] comp_keeps_trans [OF t(13) u(13)]
    by - (rule exI [of _ cx], rule exI [of _ t], rule exI [of _ C], rule exI [of _ u], rule exI [of _ ps], rule exI [of _ E],
        rule exI [of _ fs], rule exI [of _ "length (concat (map code_of xs))"], rule exI [of _ qs], simp)
qed

subsection \<open>The property\<close>

text \<open>
  C5. A program of arithmetic expressions computes their values, from its text to the stack.
  For every text that spells such expressions (any nesting, any number of arguments, any blanks
  and line ends that keep tokens apart), on a string or a file nothing has been read from, with
  the names bound to \<open>+\<close>, \<open>-\<close>, \<open>*\<close>: \<open>akl_compile\<close> succeeds, and \<open>akl_execute\<close> of the context it gives ends
  with the values of the expressions, in order, as the whole stack. Fuel: one more than the
  number of instructions, of which there are at most as many as tokens; more changes nothing.
\<close>

theorem source_to_result:
  assumes "heap_ok s" "\<not> ai_interrupted s" "st_devs s dev = Some D" "fresh_device D (spell us)"
    "spell_ok us" "map fst us = concat (map lexemes es)" "length us < 2 ^ 32"
    "map (denotes s) es = map Some ds"
  shows "\<exists>cx t u ps N. akl_compile s dev = Some (cx, t) \<and> N \<le> length us \<and>
    (\<forall>ext n. akl_execute ext (N + Suc n) t cx = Some u) \<and> stack_holds u cx ps \<and> numbers_at u ps ds"
proof -
  obtain cx t C u ps E fs N qs where "akl_compile s dev = Some (cx, t)" "N \<le> length us"
    "\<forall>ext n. akl_execute ext (N + Suc n) t cx = Some u" "stack_holds u cx ps" "numbers_at u ps ds"
    using program_runs [OF assms] by (elim exE conjE) (rule that)
  then show ?thesis by blast
qed

text \<open>A state with the function \<open>+\<close> and a device with a program.\<close>

definition calc :: akl_state where
  "calc = state0\<lparr>st_next := 10,
     st_vals := [NIL_ADDR \<mapsto> NIL_VALUE, TRUE_ADDR \<mapsto> TRUE_VALUE, 5 \<mapsto> raw_value VT_FUNCTION (V_func 6)],
     st_syms := [3 \<mapsto> \<lparr>sb_name = Some ''+'', sb_is_cdef = True\<rparr>],
     st_vars := [4 \<mapsto> \<lparr>vr_gc = AKL_GC_INIT_OBJ GC_VARIABLE, vr_symbol = 3, vr_value = 5, vr_lex_info = None,
                       vr_desc = None, vr_is_cdesc = True, vr_is_const = True\<rparr>],
     st_funs := [6 \<mapsto> \<lparr>fn_gc = AKL_GC_INIT_OBJ GC_FUNCTION, fn_type = FUNC_CFUN, fn_body = B_cfun fn_plus\<rparr>],
     st_devs := [7 \<mapsto> string_device ''(+ 1 (+ 2 3))''],
     ai_symbols := RB_NODE 3 RB_BLACK RB_NULL RB_NULL, ai_global_vars := RB_NODE 4 RB_BLACK RB_NULL RB_NULL\<rparr>"

definition calc_prog :: expr where
  "calc_prog = Call ''+'' [Num 1, Call ''+'' [Num 2, Num 3]]"

lemma calc_ok: "heap_ok calc"
  by (auto simp: heap_ok_def heap_live_def calc_def state0_def NIL_ADDR_def TRUE_ADDR_def split: if_splits)

lemma calc_plus: "resolve calc ''+'' = Some (3, 6)" "function_of calc 6 = Some fn_plus"
proof -
  have t: "ai_symbols calc = RB_NODE 3 RB_BLACK RB_NULL RB_NULL" "ai_global_vars calc = RB_NODE 4 RB_BLACK RB_NULL RB_NULL"
    by (simp_all add: calc_def)
  have n: "symbol_name calc 3 = Some ''+''" by (simp add: symbol_name_def calc_def)
  then have v: "variable_name calc 4 = Some ''+''" unfolding variable_name_def by (simp add: calc_def symbol_name_def)
  have "akl_get_symbol calc (Some ''+'') = 3"
    using n by (simp add: akl_get_symbol_def akl_rb_cmp_sym_def addr0_def t)
  moreover have "akl_get_global_var calc 3 = 4"
    using n v by (simp add: akl_get_global_var_def akl_get_global_variable_def akl_rb_cmp_var_def akl_rb_cmp_sym_def addr0_def t)
  moreover have "akl_var_to_function calc 4 = Some 6"
    by (simp add: akl_var_to_function_def is_type_def calc_def raw_value_def NIL_ADDR_def TRUE_ADDR_def)
  ultimately show "resolve calc ''+'' = Some (3, 6)" using n by (simp add: resolve_def)
  show "function_of calc 6 = Some fn_plus" by (simp add: function_of_def calc_def)
qed

lemma calc_value: "denotes calc calc_prog = Some (dbl_of_int 6)"
proof -
  have p: "tolower CHR ''+'' = CHR ''+''" by code_simp
  have i: "dbl_add (dbl_of_int 0) (dbl_of_int 3) = dbl_of_int 3" "dbl_add (dbl_of_int 3) (dbl_of_int 2) = dbl_of_int 5"
    "dbl_add (dbl_of_int 0) (dbl_of_int 5) = dbl_of_int 5" "dbl_add (dbl_of_int 5) (dbl_of_int 1) = dbl_of_int 6"
    using dbl_add_int by simp_all
  show ?thesis by (simp add: calc_prog_def p calc_plus i)
qed

definition calc_text :: "(lexeme \<times> string) list" where
  "calc_text = [(L_open, ''''), (L_atom ''+'', '' ''), (L_number ''1'', '' ''), (L_open, ''''), (L_atom ''+'', '' ''), (L_number ''2'', '' ''),
     (L_number ''3'', ''''), (L_close, ''''), (L_close, '''')]"

theorem source_to_result_witness:
  "\<exists>cx t u p. akl_compile calc 7 = Some (cx, t) \<and> (\<forall>ext. akl_execute ext 20 t cx = Some u) \<and>
    stack_holds u cx [p] \<and> number_at u p (dbl_of_int 6)"
proof -
  have dd: "dec_digits 1 = ''1''" "dec_digits 2 = ''2''" "dec_digits 3 = ''3''"
    by (simp_all add: dec_digits.simps digit_char_def) code_simp+
  have ok: "spell_ok calc_text" by (simp add: calc_text_def is_digit_def blank_def)
  have tx: "spell calc_text = ''(+ 1 (+ 2 3))''" by (simp add: calc_text_def)
  have D: "st_devs calc 7 = Some (string_device (spell calc_text))" by (simp add: calc_def tx)
  have m: "map fst calc_text = concat (map lexemes [calc_prog])"
    by (simp add: calc_text_def calc_prog_def dd [simplified])
  obtain cx t u ps N where r: "akl_compile calc 7 = Some (cx, t)" "N \<le> length calc_text"
    "\<forall>ext n. akl_execute ext (N + Suc n) t cx = Some u" "stack_holds u cx ps" "numbers_at u ps [dbl_of_int 6]"
    using source_to_result [OF calc_ok _ D _ ok m, of "[dbl_of_int 6]"] calc_value
    by (auto simp: fresh_device_def string_device_def calc_def [THEN arg_cong [where f = ai_interrupted]] state0_def calc_text_def)
  have "N \<le> 9" using r(2) by (simp add: calc_text_def)
  then have "N + Suc (19 - N) = 20" by simp
  then have "akl_execute ext 20 t cx = Some u" for ext using r(3) by metis
  moreover obtain p where "ps = [p]" "number_at u p (dbl_of_int 6)"
    using r(5) by (auto simp: numbers_at_def list_all2_Cons2)
  ultimately show ?thesis using r(1,4) by blast
qed

end
