(* ===== verification/Reading.thy ===== *)
theory Reading
  imports Codegen
begin

text \<open>
  Reading data back: the lists \<open>akl_parse_list\<close> builds from a text, and what \<open>akl_print_list\<close>
  writes for them. Every value occupies an interval of addresses of its own, because addresses
  are handed out in order; its text depends on that interval and on the names of symbols alone.
\<close>

subsection \<open>Printing with more fuel\<close>

lemma text_mono:
  "(\<forall>x t. value_text n s x = Some t \<longrightarrow> value_text (Suc n) s x = Some t) \<and>
   (\<forall>x t. list_text n s x = Some t \<longrightarrow> list_text (Suc n) s x = Some t) \<and>
   (\<forall>x t. entries_text n s x = Some t \<longrightarrow> entries_text (Suc n) s x = Some t)"
proof (induction n)
  case (Suc n)
  have v: "value_text n s x = Some t \<Longrightarrow> value_text (Suc n) s x = Some t" for x t using Suc by blast
  have l: "list_text n s x = Some t \<Longrightarrow> list_text (Suc n) s x = Some t" for x t using Suc by blast
  have e: "entries_text n s x = Some t \<Longrightarrow> entries_text (Suc n) s x = Some t" for x t using Suc by blast
  have "value_text (Suc (Suc n)) s x = Some t" if a: "value_text (Suc n) s x = Some t" for x t
  proof -
    obtain nil where nil: "AKL_IS_NIL s x = Some nil" using a unfolding value_text.simps(2) by (auto simp: Option.bind_eq_Some_conv)
    show ?thesis
    proof (cases nil)
      case False
      obtain V where V: "st_vals s x = Some V" using a nil False unfolding value_text.simps(2) by (auto simp: Option.bind_eq_Some_conv)
      show ?thesis
      proof (cases "va_type V = VT_LIST \<and> (\<exists>y. va_value V = V_list y)")
        case True
        then obtain y where y: "va_type V = VT_LIST" "va_value V = V_list y" by blast
        have "list_text n s y = Some t" using a nil False V y unfolding value_text.simps(2) by simp
        then show ?thesis using nil False V y l unfolding value_text.simps(2) [of "Suc n"] by simp
      next
        case other: False
        then show ?thesis using a nil False V unfolding value_text.simps(2) by (auto split: va_union.splits if_splits)
      qed
    qed (use a nil in \<open>simp add: value_text.simps(2)\<close>)
  qed
  moreover have "list_text (Suc (Suc n)) s x = Some t" if a: "list_text (Suc n) s x = Some t" for x t
  proof -
    obtain nil where nil: "nil_list s x = Some nil" using a unfolding list_text.simps(2) by (auto simp: Option.bind_eq_Some_conv)
    show ?thesis
    proof (cases nil)
      case False
      obtain L u where "st_lists s x = Some L" "entries_text n s (li_head L) = Some u" "t = (if li_quoted L then [CHR 0x27] else []) @ ''('' @ u @ '')''"
        using a nil False unfolding list_text.simps(2) by (auto simp: Option.bind_eq_Some_conv)
      then show ?thesis using nil False e unfolding list_text.simps(2) [of "Suc n"] by simp
    qed (use a nil in \<open>simp add: list_text.simps(2)\<close>)
  qed
  moreover have "entries_text (Suc (Suc n)) s x = Some t" if a: "entries_text (Suc n) s x = Some t" for x t
  proof (cases "x = 0")
    case False
    obtain E where E: "st_ents s x = Some E" using a False unfolding entries_text.simps(2) by (auto simp: Option.bind_eq_Some_conv)
    show ?thesis
    proof (cases "le_data E = 0")
      case d: False
      obtain u w where "value_text n s (le_data E) = Some u" "entries_text n s (le_next E) = Some w"
        "t = u @ (if le_next E = 0 then [] else '' '') @ w"
        using a False E d unfolding entries_text.simps(2) by (auto simp: Option.bind_eq_Some_conv)
      then show ?thesis using False E d v e unfolding entries_text.simps(2) [of "Suc n"] by simp
    qed (use a E False in \<open>simp add: entries_text.simps(2)\<close>)
  qed (use a in \<open>simp add: entries_text.simps(2)\<close>)
  ultimately show ?case by blast
qed simp

lemma text_more:
  shows "value_text n s x = Some t \<Longrightarrow> n \<le> m \<Longrightarrow> value_text m s x = Some t"
    and "list_text n s x = Some t \<Longrightarrow> n \<le> m \<Longrightarrow> list_text m s x = Some t"
    and "entries_text n s x = Some t \<Longrightarrow> n \<le> m \<Longrightarrow> entries_text m s x = Some t"
proof -
  have "n \<le> m \<Longrightarrow> (value_text n s x = Some t \<longrightarrow> value_text m s x = Some t) \<and>
    (list_text n s x = Some t \<longrightarrow> list_text m s x = Some t) \<and> (entries_text n s x = Some t \<longrightarrow> entries_text m s x = Some t)"
    by (induction m rule: dec_induct) (use text_mono in \<open>simp, meson\<close>)
  then show "value_text n s x = Some t \<Longrightarrow> n \<le> m \<Longrightarrow> value_text m s x = Some t"
    "list_text n s x = Some t \<Longrightarrow> n \<le> m \<Longrightarrow> list_text m s x = Some t"
    "entries_text n s x = Some t \<Longrightarrow> n \<le> m \<Longrightarrow> entries_text m s x = Some t" by blast+
qed

subsection \<open>Values in intervals of addresses\<close>

text \<open>What printing sees of a list.\<close>

definition list_view :: "akl_state \<Rightarrow> addr \<Rightarrow> (addr \<times> u32 \<times> bool \<times> bool) option" where
  "list_view s l = map_option (\<lambda>L. (li_head L, li_count L, li_quoted L, li_nil L)) (st_lists s l)"

definition unchanged :: "addr \<Rightarrow> addr \<Rightarrow> akl_state \<Rightarrow> akl_state \<Rightarrow> bool" where
  "unchanged lo hi s s' \<longleftrightarrow> ai_config s' = ai_config s \<and>
     (\<forall>x n. symbol_name s x = Some n \<longrightarrow> symbol_name s' x = Some n) \<and>
     (\<forall>x. lo \<le> x \<and> x < hi \<longrightarrow> st_vals s' x = st_vals s x \<and> st_ents s' x = st_ents s x \<and> list_view s' x = list_view s x)"

lemma unchanged_refl [simp]: "unchanged lo hi s s"
  by (simp add: unchanged_def)

lemma unchanged_trans: "unchanged lo hi s s' \<Longrightarrow> unchanged lo hi s' s'' \<Longrightarrow> unchanged lo hi s s''"
  by (simp add: unchanged_def)

lemma unchanged_sub: "unchanged lo hi s s' \<Longrightarrow> lo \<le> lo' \<Longrightarrow> hi' \<le> hi \<Longrightarrow> unchanged lo' hi' s s'"
  by (auto simp: unchanged_def)

text \<open>The value \<open>v\<close> is printed as \<open>t\<close>, and nothing outside the interval matters.\<close>

definition says :: "akl_state \<Rightarrow> addr \<Rightarrow> addr \<Rightarrow> addr \<Rightarrow> string \<Rightarrow> bool" where
  "says s lo hi v t \<longleftrightarrow> v \<noteq> 0 \<and> (\<forall>s'. unchanged lo hi s s' \<longrightarrow> value_text (3 * (hi - lo)) s' v = Some t)"

lemma says_keep: "says s lo hi v t \<Longrightarrow> unchanged lo hi s s' \<Longrightarrow> says s' lo hi v t"
  unfolding says_def using unchanged_trans by blast

text \<open>
  The entries of a list under construction with their values and texts: every value was made
  just before its entry.
\<close>

fun parts :: "akl_state \<Rightarrow> addr \<Rightarrow> addr \<Rightarrow> (addr \<times> addr \<times> string) list \<Rightarrow> bool" where
  "parts s lo hi [] \<longleftrightarrow> lo = hi"
| "parts s lo hi ((e, v, t) # ps) \<longleftrightarrow> lo \<le> e \<and> e < hi \<and> says s lo e v t \<and> edata s e = v \<and> parts s (Suc e) hi ps"

lemma parts_bounds: "parts s lo hi ps \<Longrightarrow> lo \<le> hi \<and> (\<forall>e\<in>fst ` set ps. lo \<le> e \<and> e < hi)"
proof (induction ps arbitrary: lo)
  case (Cons p ps)
  then show ?case using Cons.IH [of "Suc (fst p)"] by (cases p) fastforce
qed simp

lemma parts_append:
  "parts s lo hi ps \<Longrightarrow> says s hi e v t \<Longrightarrow> hi \<le> e \<Longrightarrow> edata s e = v \<Longrightarrow> parts s lo (Suc e) (ps @ [(e, v, t)])"
proof (induction ps arbitrary: lo)
  case (Cons p ps)
  obtain e1 v1 t1 where p: "p = (e1, v1, t1)" by (cases p)
  have b: "lo \<le> e1" "e1 < hi" "says s lo e1 v1 t1" "edata s e1 = v1" "parts s (Suc e1) hi ps" using Cons.prems(1) p by simp_all
  have "parts s (Suc e1) (Suc e) (ps @ [(e, v, t)])" by (rule Cons.IH [OF b(5) Cons.prems(2-4)])
  then show ?case using b p Cons.prems(3) by simp
qed simp

text \<open>Changes at the entries of the list itself, of their links, keep the parts.\<close>

lemma parts_keep:
  assumes "parts s lo hi ps" "\<forall>e\<in>fst ` set ps. edata s' e = edata s e" "ai_config s' = ai_config s"
    "\<And>x n. symbol_name s x = Some n \<Longrightarrow> symbol_name s' x = Some n"
    "\<And>x. lo \<le> x \<Longrightarrow> x < hi \<Longrightarrow> x \<notin> fst ` set ps \<Longrightarrow>
       st_vals s' x = st_vals s x \<and> st_ents s' x = st_ents s x \<and> list_view s' x = list_view s x"
  shows "parts s' lo hi ps"
  using assms
proof (induction ps arbitrary: lo)
  case (Cons p ps)
  obtain e v t where p: "p = (e, v, t)" by (cases p)
  have b: "lo \<le> e" "e < hi" "says s lo e v t" "edata s e = v" "parts s (Suc e) hi ps" using Cons.prems(1) p by simp_all
  have later: "\<forall>x\<in>fst ` set ps. Suc e \<le> x" using parts_bounds b by blast
  have "unchanged lo e s s'"
    unfolding unchanged_def
  proof (intro conjI allI impI)
    fix x assume "lo \<le> x \<and> x < e"
    moreover from this have "x \<notin> fst ` set (p # ps)" using later p by fastforce
    ultimately have "st_vals s' x = st_vals s x \<and> st_ents s' x = st_ents s x \<and> list_view s' x = list_view s x"
      using Cons.prems(5) [of x] b by simp
    then show "st_vals s' x = st_vals s x" "st_ents s' x = st_ents s x" "list_view s' x = list_view s x" by simp_all
  qed (use Cons.prems(3,4) in simp_all)
  moreover have "parts s' (Suc e) hi ps"
  proof (rule Cons.IH)
    fix x assume "Suc e \<le> x" "x < hi" "x \<notin> fst ` set ps"
    then show "st_vals s' x = st_vals s x \<and> st_ents s' x = st_ents s x \<and> list_view s' x = list_view s x"
      using Cons.prems(5) [of x] b p by simp
  qed (use Cons.prems b p in auto)
  ultimately show ?case using b p Cons.prems(2) says_keep [OF b(3)] by simp
qed simp

subsection \<open>The text of a list\<close>

fun joined :: "string list \<Rightarrow> string" where
  "joined [] = []"
| "joined [t] = t"
| "joined (t # ts) = t @ '' '' @ joined ts"

lemma joined_Cons: "joined (t # ts) = t @ (if ts = [] then [] else '' '') @ joined ts"
  by (cases ts) simp_all

lemma entries_text_parts:
  assumes "parts s lo hi ps" "dll (st_ents s) p (map fst ps) 0"
  shows "entries_text (3 * (hi - lo) + 1) s (first0 (map fst ps)) = Some (joined (map (\<lambda>p. snd (snd p)) ps))"
  using assms
proof (induction ps arbitrary: lo p)
  case (Cons q ps)
  obtain e v t where q: "q = (e, v, t)" by (cases q)
  have b: "lo \<le> e" "e < hi" "says s lo e v t" "edata s e = v" "parts s (Suc e) hi ps" using Cons.prems(1) q by simp_all
  obtain E where E: "e \<noteq> 0" "st_ents s e = Some E" "le_next E = first0 (map fst ps)" "dll (st_ents s) e (map fst ps) 0"
    using Cons.prems(2) q by (auto simp: first0_def)
  have d: "le_data E = v" "v \<noteq> 0" using b E(2) by (simp_all add: edata_def says_def)
  have "value_text (3 * (e - lo)) s v = Some t" using b unchanged_refl unfolding says_def by blast
  then have v: "value_text (3 * (hi - lo)) s v = Some t" by (rule text_more(1)) (use b in simp)
  have "entries_text (3 * (hi - Suc e) + 1) s (first0 (map fst ps)) = Some (joined (map (\<lambda>p. snd (snd p)) ps))"
    using Cons.IH b E(4) by blast
  then have n: "entries_text (3 * (hi - lo)) s (first0 (map fst ps)) = Some (joined (map (\<lambda>p. snd (snd p)) ps))"
    by (rule text_more(3)) (use b in simp)
  have z: "first0 (map fst ps) = 0 \<longleftrightarrow> ps = []"
    using dll_nonzero [OF E(4)] by (cases ps) (auto simp: first0_def)
  show ?case
    using E d v n z q by (simp add: joined_Cons del: joined.simps)
qed simp

subsection \<open>Names\<close>

lemma tolower_idem: "tolower (tolower c) = tolower c"
proof (cases "is_upper c")
  case True
  then have "65 \<le> (of_char c :: nat)" "(of_char c :: nat) \<le> 90" by (simp_all add: is_upper_def)
  then have "(of_char (tolower c) :: nat) = of_char c + 32" using True by (simp add: tolower_def)
  then have "\<not> is_upper (tolower c)" using \<open>65 \<le> (of_char c :: nat)\<close> by (simp add: is_upper_def)
  then show ?thesis by (simp add: tolower_def)
qed (simp add: tolower_def)

lemma case_key_lower: "case_key (map tolower a) = case_key (map tolower b) \<longleftrightarrow> map tolower a = map tolower b"
proof -
  have "case_key (map tolower w) = map of_char (map tolower w)" for w by (simp add: case_key_def tolower_idem)
  moreover have "inj (of_char :: char \<Rightarrow> nat)" by (rule inj_of_char)
  ultimately show ?thesis by (simp add: inj_map_eq_map del: map_map)
qed

text \<open>The name an atom is printed with: the one of the symbol it denotes, or its own in small letters.\<close>

definition atom_word :: "akl_state \<Rightarrow> string \<Rightarrow> string" where
  "atom_word s w =
     (let y = akl_get_symbol s (Some (map tolower w)) in
      if y = 0 then map tolower w else the (symbol_name s y))"

text \<open>What reading a value leaves alone: everything below the address \<open>N\<close>, and the names of atoms.\<close>

definition kept :: "addr \<Rightarrow> akl_state \<Rightarrow> akl_state \<Rightarrow> bool" where
  "kept N s s' \<longleftrightarrow> unchanged 0 N s s' \<and> (\<forall>x<N. st_lists s' x = st_lists s x) \<and> st_next s \<le> st_next s' \<and>
     (\<forall>w. atom_word s' w = atom_word s w)"

lemma kept_refl [simp]: "kept N s s"
  by (simp add: kept_def)

lemma kept_trans: "kept N s s' \<Longrightarrow> kept M s' s'' \<Longrightarrow> N \<le> M \<Longrightarrow> kept N s s''"
  unfolding kept_def using unchanged_trans unchanged_sub [of 0 M s' s'' 0 N] by fastforce

lemma kept_same_symbols:
  assumes "st_syms s' = st_syms s" "ai_symbols s' = ai_symbols s" "ai_config s' = ai_config s" "st_next s \<le> st_next s'"
    "\<And>x. x < N \<Longrightarrow> st_vals s' x = st_vals s x \<and> st_ents s' x = st_ents s x \<and> st_lists s' x = st_lists s x"
  shows "kept N s s'"
proof -
  have n: "symbol_name s' = symbol_name s" by (rule ext) (simp add: symbol_name_def assms(1))
  then have "akl_get_symbol s' m = akl_get_symbol s m" for m by (simp add: akl_get_symbol_def assms(2))
  then have "atom_word s' w = atom_word s w" for w unfolding atom_word_def Let_def n by simp
  then show ?thesis using assms n by (simp add: kept_def unchanged_def list_view_def)
qed

text \<open>Looking a name up in the middle of reading, or entering it.\<close>

lemma lookup_symbol:
  assumes "heap_ok s" "symbols_ok s" "n = map tolower w"
  shows "\<exists>p s'. akl_get_or_create_symbol s (Some n) = Some (p, s') \<and> p \<noteq> 0 \<and> symbol_name s' p = Some (atom_word s w) \<and>
    symbols_ok s' \<and> heap_ok s' \<and> kept (st_next s) s s' \<and>
    s' = s\<lparr>st_next := st_next s', st_syms := st_syms s', ai_symbols := ai_symbols s'\<rparr>"
proof (cases "akl_get_symbol s (Some n) = 0")
  case False
  let ?p = "akl_get_symbol s (Some n)"
  have f: "symbol_name s ?p \<noteq> None" using get_symbol_found [OF assms(2) refl False] by simp
  then have "akl_get_or_create_symbol s (Some n) = Some (?p, s)"
    using False by (auto simp: akl_get_or_create_symbol_def get_or_create_symbol_def Let_def)
  then show ?thesis using f False assms by (intro exI [of _ ?p] exI [of _ s]) (auto simp: atom_word_def)
next
  case True
  let ?p = "st_next s"
  obtain s1 where s1: "get_or_create_symbol s (Some n) = Some (?p, s1)" "symbol_name s1 ?p = None"
    "\<And>c. let s2 = set_symbol s1 ?p \<lparr>sb_name = Some n, sb_is_cdef = c\<rparr> in
      symbols_ok s2 \<and> st_next s2 = Suc ?p \<and>
      (\<forall>m. akl_get_symbol s2 (Some m) = (if strcasecmp m n = 0 then ?p else akl_get_symbol s (Some m))) \<and>
      (\<forall>x. x \<noteq> ?p \<longrightarrow> symbol_name s2 x = symbol_name s x)"
    using get_or_create_new [OF assms(2) True] by blast
  define s2 where "s2 = set_symbol s1 ?p \<lparr>sb_name = Some n, sb_is_cdef = False\<rparr>"
  have i: "symbols_ok s2" "st_next s2 = Suc ?p"
    "\<And>m. akl_get_symbol s2 (Some m) = (if strcasecmp m n = 0 then ?p else akl_get_symbol s (Some m))"
    "\<And>x. x \<noteq> ?p \<Longrightarrow> symbol_name s2 x = symbol_name s x"
    using s1(3) [of False] unfolding Let_def s2_def [symmetric] by blast+
  have p0: "?p \<noteq> 0" using assms(1) by (simp add: heap_ok_def)
  have nm: "symbol_name s2 ?p = Some n" by (simp add: s2_def symbol_name_set)
  have fr: "st_syms s ?p = None" using heap_ok_fresh [OF assms(1)] by (auto simp: heap_live_def)
  have run: "akl_get_or_create_symbol s (Some n) = Some (?p, s2)"
    using s1(1,2) p0 by (simp add: akl_get_or_create_symbol_def s2_def)
  obtain t where "s1 = s\<lparr>st_next := Suc ?p, ai_symbols := t, st_syms := (st_syms s)(?p \<mapsto> \<lparr>sb_name = None, sb_is_cdef = True\<rparr>)\<rparr>"
    using s1(1) True by (auto simp: get_or_create_symbol_def Let_def set_symbol_def Option.bind_eq_Some_conv)
  then have sh: "s2 = s\<lparr>st_next := Suc ?p, ai_symbols := t,
      st_syms := (st_syms s)(?p \<mapsto> \<lparr>sb_name = Some n, sb_is_cdef = False\<rparr>)\<rparr>"
    by (simp add: s2_def set_symbol_def)
  have hok: "heap_ok s2" by (rule heap_ok_grow [OF assms(1)]) (auto simp: sh heap_live_def split: if_splits)
  have aw: "atom_word s2 v = atom_word s v" for v
  proof (cases "strcasecmp (map tolower v) n = 0")
    case t: True
    then have v: "map tolower v = n" using case_key_lower assms(3) by (simp add: strcasecmp_eq)
    then show ?thesis using i(3) True nm p0 by (simp add: atom_word_def strcasecmp_eq)
  next
    case False
    let ?q = "akl_get_symbol s (Some (map tolower v))"
    have "?q \<noteq> 0 \<Longrightarrow> ?q \<noteq> ?p"
      using get_symbol_found [OF assms(2) refl, of "map tolower v"] fr by (auto simp: symbol_name_def)
    then show ?thesis using False i(3,4) by (simp add: atom_word_def Let_def)
  qed
  have "symbol_name s2 x = Some m" if "symbol_name s x = Some m" for x m
    using that i(4) [of x] fr by (cases "x = ?p") (auto simp: symbol_name_def)
  then have "kept ?p s s2" using aw by (simp add: kept_def unchanged_def sh list_view_def)
  then show ?thesis
    using run p0 i(1) hok nm True assms(3) sh by (intro exI [of _ ?p] exI [of _ s2]) (simp add: atom_word_def)
qed

subsection \<open>The data and its text\<close>

datatype sexp = D_num nat | D_sym string | D_list "sexp list"

fun sexp_lexemes :: "sexp \<Rightarrow> lexeme list" where
  "sexp_lexemes (D_num n) = [L_number (dec_digits n)]"
| "sexp_lexemes (D_sym w) = [L_atom w]"
| "sexp_lexemes (D_list es) = L_open # concat (map sexp_lexemes es) @ [L_close]"

text \<open>
  The printed form: \<open>akl_parse_list\<close> marks every list as quoted, an empty list is NIL. Numbers of
  more than six digits are rounded by the format \<open>%g\<close>; the counter of a list has 32 bits.
\<close>

fun sexp_ok :: "sexp \<Rightarrow> bool" where
  "sexp_ok (D_num n) \<longleftrightarrow> n < 10 ^ 6"
| "sexp_ok (D_sym w) \<longleftrightarrow> True"
| "sexp_ok (D_list es) \<longleftrightarrow> length es < 2 ^ 32 \<and> list_all sexp_ok es"

fun sexp_text :: "akl_state \<Rightarrow> sexp \<Rightarrow> string" where
  "sexp_text s (D_num n) = colored s AKL_YELLOW (dec_digits n)"
| "sexp_text s (D_sym w) = colored s AKL_PURPLE (atom_word s w)"
| "sexp_text s (D_list es) =
     (if es = [] then colored s AKL_GRAY ''NIL'' else [CHR 0x27] @ ''('' @ joined (map (sexp_text s) es) @ '')'')"

lemma colored_kept: "ai_config s' = ai_config s \<Longrightarrow> colored s' = colored s"
  by (intro ext) (simp add: colored_def AKL_COLORFUL_def AKL_IS_FEATURE_ON_def)

lemma sexp_text_kept: "kept N s s' \<Longrightarrow> sexp_text s' e = sexp_text s e"
proof (induction e)
  case (D_list es)
  then have "map (sexp_text s') es = map (sexp_text s) es" by simp
  moreover have "colored s' = colored s" using D_list.prems colored_kept [of s' s] by (simp add: kept_def unchanged_def)
  ultimately show ?case unfolding sexp_text.simps by argo
qed (use colored_kept [of s' s] in \<open>simp_all add: kept_def unchanged_def\<close>)

text \<open>A value of any other type than a list.\<close>

lemma says_atom:
  assumes "st_vals s p = Some V" "\<not> va_nil V" "va_type V \<noteq> VT_LIST" "p \<noteq> 0" "lo \<le> p" "p < hi"
    "\<And>s'. unchanged lo hi s s' \<Longrightarrow> atom_text s' V = Some t"
  shows "says s lo hi p t"
  unfolding says_def
proof (intro conjI allI impI assms(4))
  fix s' assume u: "unchanged lo hi s s'"
  obtain k where k: "3 * (hi - lo) = Suc k" using assms(5,6) by (cases "3 * (hi - lo)") auto
  have "st_vals s' p = Some V" using u assms(1,5,6) by (simp add: unchanged_def)
  then show "value_text (3 * (hi - lo)) s' p = Some t"
    using assms(7) [OF u] assms(2-4) unfolding k value_text.simps(2) by (simp add: AKL_IS_NIL_def)
qed

subsection \<open>Reading one value\<close>

definition reading :: "akl_state \<Rightarrow> addr \<Rightarrow> akl_context \<Rightarrow> akl_io_device \<Rightarrow> bool" where
  "reading s cx C D \<longleftrightarrow> heap_ok s \<and> symbols_ok s \<and> cx_state C \<and> st_ctxs s cx = Some C \<and> st_devs s (cx_dev C) = Some D"

lemma symbols_ok_grow:
  assumes "symbols_ok s" "st_syms s' = st_syms s" "ai_symbols s' = ai_symbols s" "st_next s \<le> st_next s'"
  shows "symbols_ok s'"
proof -
  have "symbol_name s' = symbol_name s" by (rule ext) (simp add: symbol_name_def assms(2))
  then show ?thesis
    using assms(1,3,4) name_tree_cong(1) [of "symbol_name s" "st_next s" "ai_symbols s" "symbol_name s" "st_next s'"]
    by (simp add: symbols_ok_def)
qed

text \<open>Steps that leave the symbols and everything but new addresses and the device alone.\<close>

lemma reading_step:
  assumes "reading s cx C D" "heap_ok s'" "st_syms s' = st_syms s" "ai_symbols s' = ai_symbols s" "st_next s \<le> st_next s'"
    "st_ctxs s' = st_ctxs s" "st_devs s' (cx_dev C) = Some D'"
  shows "reading s' cx C D'"
  using assms symbols_ok_grow [of s s'] by (simp add: reading_def)

lemma reading_dev:
  assumes "reading s cx C D"
  shows "reading (upd_dev s (cx_dev C) D') cx C D'" "kept N s (upd_dev s (cx_dev C) D')"
proof -
  let ?s = "upd_dev s (cx_dev C) D'"
  have r: "heap_ok s" "st_devs s (cx_dev C) = Some D" using assms by (simp_all add: reading_def)
  have "heap_ok ?s" by (rule heap_ok_grow [OF r(1)]) (use r(2) in \<open>auto simp: upd_dev_def heap_live_def split: if_splits\<close>)
  then show "reading ?s cx C D'" by (rule reading_step [OF assms]) (simp_all add: upd_dev_def)
  show "kept N s ?s" by (rule kept_same_symbols) (simp_all add: upd_dev_def)
qed

lemma reading_lexeme:
  assumes "reading s cx C D" "at_text D (spell ((l, k) # ls))" "spell_ok ((l, k) # ls)"
  shows "\<exists>D'. lex_token s (cx_dev C) = Some (lexeme_token l, upd_dev s (cx_dev C) D') \<and> at_text D' (spell ls) \<and>
    (\<forall>t. token_text l = Some t \<longrightarrow> buffer_text D' = Some t)"
proof -
  have k: "\<forall>c\<in>set k. blank c" using assms(3) by simp
  have "at_text D (lexeme_text l @ k @ spell ls)" "lexeme_ok l" "follows_ok l (k @ spell ls)" using assms(2,3) by simp_all
  then obtain D' where "akl_lex D = Some (lexeme_token l, D')" "ready D' (k @ spell ls)"
    "\<forall>t. token_text l = Some t \<longrightarrow> buffer_text D' = Some t" using akl_lex_buffer by blast
  then show ?thesis using assms(1) ready_at_text unfolding ready_blanks [OF k] by (auto simp: lex_token_def reading_def)
qed

text \<open>The flag and the position of a value are set last.\<close>

lemma finish_reading:
  assumes "reading s cx C D" "st_vals s p = Some V" "N \<le> p" "p \<noteq> NIL_ADDR" "p \<noteq> TRUE_ADDR"
  shows "\<exists>i s'. (do { t \<leftarrow> set_quoted s p q; t \<leftarrow> akl_set_lex_info t cx p; Some (p, t) }) = Some (p, s') \<and>
    s' = s\<lparr>st_vals := (st_vals s)(p \<mapsto> V\<lparr>va_quoted := q, va_lex_info := i\<rparr>)\<rparr> \<and> reading s' cx C D \<and> kept N s s'"
proof -
  let ?i = "akl_new_lex_info (Some D) no_info"
  define s' where "s' = s\<lparr>st_vals := (st_vals s)(p \<mapsto> V\<lparr>va_quoted := q, va_lex_info := ?i\<rparr>)\<rparr>"
  have r: "heap_ok s" "st_ctxs s cx = Some C" "st_devs s (cx_dev C) = Some D" using assms(1) by (simp_all add: reading_def)
  have run: "(do { t \<leftarrow> set_quoted s p q; t \<leftarrow> akl_set_lex_info t cx p; Some (p, t) }) = Some (p, s')"
    using r assms(2) by (simp add: set_quoted_def akl_set_lex_info_def s'_def)
  have "heap_live s' = heap_live s" using assms(2) by (auto simp: s'_def heap_live_def)
  then have "heap_ok s'" using r(1) assms(4,5) by (simp add: heap_ok_def s'_def)
  then have "reading s' cx C D" by (rule reading_step [OF assms(1)]) (use r(3) in \<open>simp_all add: s'_def\<close>)
  moreover have "kept N s s'" by (rule kept_same_symbols) (use assms(3) in \<open>auto simp: s'_def\<close>)
  ultimately show ?thesis using run s'_def by blast
qed

definition parses :: "sexp \<Rightarrow> bool" where
  "parses e \<longleftrightarrow>
     (\<forall>s cx C D us bs m. map fst us = sexp_lexemes e \<longrightarrow> spell_ok (us @ bs) \<longrightarrow> reading s cx C D \<longrightarrow>
        at_text D (spell (us @ bs)) \<longrightarrow> sexp_ok e \<longrightarrow> length us \<le> m \<longrightarrow>
        (\<exists>v V s' D'. parse_value (parse_list_n m) s cx = Some (v, s') \<and> reading s' cx C D' \<and> at_text D' (spell bs) \<and>
           kept (st_next s) s s' \<and> st_vals s' v = Some V \<and>
           (va_type V = VT_LIST \<longrightarrow> (\<exists>l L. va_value V = V_list l \<and> st_next s \<le> l \<and> st_lists s' l = Some L)) \<and>
           says s' (st_next s) (st_next s') v (sexp_text s e)))"

lemma parsesD:
  assumes "parses e" "map fst us = sexp_lexemes e" "spell_ok (us @ bs)" "reading s cx C D" "at_text D (spell (us @ bs))"
    "sexp_ok e" "length us \<le> m"
  shows "\<exists>v V s' D'. parse_value (parse_list_n m) s cx = Some (v, s') \<and> reading s' cx C D' \<and> at_text D' (spell bs) \<and>
    kept (st_next s) s s' \<and> st_vals s' v = Some V \<and>
    (va_type V = VT_LIST \<longrightarrow> (\<exists>l L. va_value V = V_list l \<and> st_next s \<le> l \<and> st_lists s' l = Some L)) \<and>
    says s' (st_next s) (st_next s') v (sexp_text s e)"
  using assms unfolding parses_def by blast

text \<open>One round of \<open>parse_value\<close>.\<close>

lemma parse_value_token:
  assumes "reading s cx C D" "lex_token s (cx_dev C) = Some (tok, s1)" "reading s1 cx C D1" "tok \<notin> {tQUOTE, tEOF, tRBRACE}"
    "token_value plist s1 cx tok = Some (p, s2)" "reading s2 cx C D2"
    "st_vals s2 p = Some V" "N \<le> p" "p \<noteq> NIL_ADDR" "p \<noteq> TRUE_ADDR"
  shows "\<exists>i s'. parse_value plist s cx = Some (p, s') \<and>
    s' = s2\<lparr>st_vals := (st_vals s2)(p \<mapsto> V\<lparr>va_quoted := False, va_lex_info := i\<rparr>)\<rparr> \<and> reading s' cx C D2 \<and> kept N s2 s'"
proof -
  obtain i s' where s': "(do { t \<leftarrow> set_quoted s2 p False; t \<leftarrow> akl_set_lex_info t cx p; Some (p, t) }) = Some (p, s')"
    "s' = s2\<lparr>st_vals := (st_vals s2)(p \<mapsto> V\<lparr>va_quoted := False, va_lex_info := i\<rparr>)\<rparr>" "reading s' cx C D2" "kept N s2 s'"
    using finish_reading [OF assms(6-10)] by blast
  have "parse_value plist s cx = Some (p, s')"
    using assms(1-5) s'(1) by (simp add: parse_value_def parse_token_def reading_def)
  then show ?thesis using s'(2-4) by blast
qed

text \<open>The next address is none of the constants.\<close>

lemma next_addr: "reading s cx C D \<Longrightarrow> st_next s \<noteq> 0 \<and> st_next s \<noteq> NIL_ADDR \<and> st_next s \<noteq> TRUE_ADDR"
  by (auto simp: reading_def heap_ok_def NIL_ADDR_def TRUE_ADDR_def)

lemma new_value_reading:
  assumes "reading s cx C D"
  shows "reading (snd (new_value_with s V)) cx C D" "kept (st_next s) s (snd (new_value_with s V))"
proof -
  let ?s = "snd (new_value_with s V)"
  have fr: "st_vals s (st_next s) = None"
    using assms heap_ok_fresh [of s] by (auto simp: reading_def heap_live_def)
  have e: "?s = s\<lparr>st_next := st_next s + 1, st_vals := (st_vals s)(st_next s \<mapsto> V)\<rparr>"
    by (simp add: new_value_with_def Let_def)
  have "heap_ok s" using assms by (simp add: reading_def)
  then have "heap_ok ?s" by (rule heap_ok_grow) (use fr in \<open>auto simp: e heap_live_def split: if_splits\<close>)
  then show "reading ?s cx C D" by (rule reading_step [OF assms]) (use assms in \<open>simp_all add: e reading_def\<close>)
  show "kept (st_next s) s ?s" by (rule kept_same_symbols) (simp_all add: e)
qed

lemma parses_number: "parses (D_num n)"
  unfolding parses_def
proof (intro allI impI)
  fix s cx C D us bs m
  assume a: "map fst us = sexp_lexemes (D_num n)" "spell_ok (us @ bs)" "reading s cx C D" "at_text D (spell (us @ bs))"
    "sexp_ok (D_num n)" "length us \<le> (m::nat)"
  obtain k where us: "us = [(L_number (dec_digits n), k)]" using a(1) by (cases us) auto
  have tx: "at_text D (spell ((L_number (dec_digits n), k) # bs))" "spell_ok ((L_number (dec_digits n), k) # bs)"
    using a(2,4) us by simp_all
  obtain D1 where D1: "lex_token s (cx_dev C) = Some (tNUMBER, upd_dev s (cx_dev C) D1)" "at_text D1 (spell bs)"
    "buffer_text D1 = Some (dec_digits n)"
    using reading_lexeme [OF a(3) tx] by auto
  let ?V = "raw_value VT_NUMBER (V_number (dbl_of_int (int n)))" and ?p = "st_next s"
  define s1 where "s1 = upd_dev s (cx_dev C) D1"
  define s2 where "s2 = upd_dev s1 (cx_dev C) (set_buffer D1 [])"
  define s3 where "s3 = snd (new_value_with s2 ?V)"
  have r1: "reading s1 cx C D1" "kept ?p s s1" using reading_dev [OF a(3)] by (simp_all add: s1_def)
  have r2: "reading s2 cx C (set_buffer D1 [])" "kept ?p s1 s2" using reading_dev [OF r1(1)] by (simp_all add: s2_def)
  have nx: "st_next s2 = ?p" by (simp add: s2_def s1_def upd_dev_def)
  have r3: "reading s3 cx C (set_buffer D1 [])" "kept ?p s2 s3" using new_value_reading [OF r2(1), of ?V] nx by (simp_all add: s3_def)
  have tv: "token_value (parse_list_n m) s1 cx tNUMBER = Some (?p, s3)"
    using r1(1) lex_get_number_digits [OF D1(3)] nx
    by (simp add: token_value_def reading_def akl_new_number_value_def s3_def s2_def [symmetric] new_value_with_def Let_def)
  have v3: "st_vals s3 ?p = Some ?V" by (simp add: s3_def new_value_with_def nx Let_def)
  obtain i s' where s': "parse_value (parse_list_n m) s cx = Some (?p, s')"
    "s' = s3\<lparr>st_vals := (st_vals s3)(?p \<mapsto> ?V\<lparr>va_quoted := False, va_lex_info := i\<rparr>)\<rparr>"
    "reading s' cx C (set_buffer D1 [])" "kept ?p s3 s'"
    using parse_value_token [OF a(3) D1(1) [folded s1_def] r1(1) _ tv r3(1) v3, of ?p] next_addr [OF a(3)] by auto
  have k: "kept ?p s s'"
    using kept_trans [OF kept_trans [OF kept_trans [OF r1(2) r2(2)] r3(2)] s'(4)] by simp
  have nx': "st_next s' = Suc ?p" by (simp add: s'(2) s3_def new_value_with_def nx Let_def)
  have V: "st_vals s' ?p = Some (?V\<lparr>va_quoted := False, va_lex_info := i\<rparr>)" by (simp add: s'(2))
  have "says s' ?p (st_next s') ?p (sexp_text s (D_num n))"
  proof (rule says_atom [OF V])
    fix t assume "unchanged ?p (st_next s') s' t"
    then have "ai_config t = ai_config s" using k by (simp add: unchanged_def kept_def)
    moreover have "format_g (dbl_of_int (int n)) = dec_digits n" using a(5) format_g_int [of "int n"] by (simp add: show_int_def)
    ultimately show "atom_text t (?V\<lparr>va_quoted := False, va_lex_info := i\<rparr>) = Some (sexp_text s (D_num n))"
      using colored_kept [of t s] by (simp add: atom_text_def raw_value_def)
  qed (use next_addr [OF a(3)] nx' in \<open>simp_all add: raw_value_def\<close>)
  then show "\<exists>v V s' D'. parse_value (parse_list_n m) s cx = Some (v, s') \<and> reading s' cx C D' \<and> at_text D' (spell bs) \<and>
      kept (st_next s) s s' \<and> st_vals s' v = Some V \<and>
      (va_type V = VT_LIST \<longrightarrow> (\<exists>l L. va_value V = V_list l \<and> st_next s \<le> l \<and> st_lists s' l = Some L)) \<and>
      says s' (st_next s) (st_next s') v (sexp_text s (D_num n))"
    using s'(1,3) k V set_buffer_at_text [OF D1(3,2)]
    by - (rule exI [of _ ?p], rule exI [of _ "?V\<lparr>va_quoted := False, va_lex_info := i\<rparr>"], rule exI [of _ s'],
        rule exI [of _ "set_buffer D1 []"], simp add: raw_value_def)
qed

text \<open>The value of an atom: the symbol is looked up or entered.\<close>

lemma atom_value:
  assumes "reading s cx C D" "buffer_text D = Some (map tolower w)"
  shows "\<exists>y V s'. token_value plist s cx tATOM = Some (st_next s, s') \<and> reading s' cx C (set_buffer D []) \<and>
    kept (st_next s) s s' \<and> st_next s < st_next s' \<and> st_vals s' (st_next s) = Some V \<and>
    V = raw_value VT_SYMBOL (V_symbol y) \<and> y \<noteq> 0 \<and> symbol_name s' y = Some (atom_word s w)"
proof -
  let ?p = "st_next s" and ?R = "raw_value VT_NIL (V_number (dbl_of_int 0))"
  define a where "a = snd (new_value_with s ?R)"
  have r: "st_ctxs s cx = Some C" "st_devs s (cx_dev C) = Some D" using assms(1) by (simp_all add: reading_def)
  have ra: "reading a cx C D" "kept ?p s a" using new_value_reading [OF assms(1), of ?R] by (simp_all add: a_def)
  have na: "akl_new_value s = (?p, a)" "st_next a = Suc ?p" "st_vals a ?p = Some ?R"
    by (simp_all add: akl_new_value_def a_def new_value_with_def Let_def)
  have ok: "heap_ok a" "symbols_ok a" using ra(1) by (simp_all add: reading_def)
  obtain y b where b: "akl_get_or_create_symbol a (Some (map tolower w)) = Some (y, b)" "y \<noteq> 0"
    "symbol_name b y = Some (atom_word a w)" "symbols_ok b" "heap_ok b" "kept (st_next a) a b"
    "b = a\<lparr>st_next := st_next b, st_syms := st_syms b, ai_symbols := ai_symbols b\<rparr>"
    using lookup_symbol [OF ok refl, of w] by (elim exE conjE) (rule that)
  have fb: "st_vals b = st_vals a" "st_ctxs b = st_ctxs a" "st_devs b = st_devs a" by (subst b(7), simp)+
  have rb: "reading b cx C D" using ra(1) b(4,5) fb by (simp add: reading_def)
  define c where "c = upd_dev b (cx_dev C) (set_buffer D [])"
  have rc: "reading c cx C (set_buffer D [])" "kept ?p b c" using reading_dev [OF rb] by (simp_all add: c_def)
  let ?V = "raw_value VT_SYMBOL (V_symbol y)"
  define d where "d = c\<lparr>st_vals := (st_vals c)(?p \<mapsto> ?V)\<rparr>"
  have vc: "st_vals c ?p = Some ?R" using na(3) fb(1) by (simp add: c_def upd_dev_def)
  have okc: "heap_ok c" using rc(1) by (simp add: reading_def)
  have "heap_live d = heap_live c" using vc by (auto simp: d_def heap_live_def)
  then have "heap_ok d" using okc next_addr [OF assms(1)] by (simp add: heap_ok_def d_def)
  then have rd: "reading d cx C (set_buffer D [])"
    by (rule reading_step [OF rc(1)]) (use rc(1) in \<open>simp_all add: d_def reading_def\<close>)
  have kd: "kept ?p c d" by (rule kept_same_symbols) (simp_all add: d_def)
  have gs: "akl_lex_get_symbol a (cx_dev C) = Some (y, c)"
    using ra(1) assms(2) b(1) by (simp add: akl_lex_get_symbol_def reading_def c_def)
  have run: "token_value plist s cx tATOM = Some (?p, d)"
    using r na(1) gs vc by (simp add: token_value_def upd_val_def d_def raw_value_def)
  have k1: "kept ?p a b" using b(6) na(2) kept_trans [of ?p a a "st_next a" b] by simp
  have k: "kept ?p s d" by (rule kept_trans [OF kept_trans [OF kept_trans [OF ra(2) k1] rc(2)] kd]) simp_all
  have "symbol_name d y = Some (atom_word s w)"
    using b(3) ra(2) by (simp add: kept_def symbol_name_def d_def c_def upd_dev_def)
  moreover have "?p < st_next d" using b(6) na(2) by (simp add: d_def c_def upd_dev_def kept_def)
  moreover have "st_vals d ?p = Some ?V" by (simp add: d_def)
  ultimately show ?thesis using run rd k b(2) by blast
qed

lemma parses_symbol: "parses (D_sym w)"
  unfolding parses_def
proof (intro allI impI)
  fix s cx C D us bs m
  assume a: "map fst us = sexp_lexemes (D_sym w)" "spell_ok (us @ bs)" "reading s cx C D" "at_text D (spell (us @ bs))"
    "sexp_ok (D_sym w)" "length us \<le> (m::nat)"
  let ?p = "st_next s"
  obtain k where us: "us = [(L_atom w, k)]" using a(1) by (cases us) auto
  have tx: "at_text D (spell ((L_atom w, k) # bs))" "spell_ok ((L_atom w, k) # bs)" using a(2,4) us by simp_all
  obtain D1 where D1: "lex_token s (cx_dev C) = Some (tATOM, upd_dev s (cx_dev C) D1)" "at_text D1 (spell bs)"
    "buffer_text D1 = Some (map tolower w)"
    using reading_lexeme [OF a(3) tx] by auto
  define s1 where "s1 = upd_dev s (cx_dev C) D1"
  have r1: "reading s1 cx C D1" "kept ?p s s1" using reading_dev [OF a(3)] by (simp_all add: s1_def)
  have nx: "st_next s1 = ?p" by (simp add: s1_def upd_dev_def)
  obtain y V s2 where s2: "token_value (parse_list_n m) s1 cx tATOM = Some (?p, s2)" "reading s2 cx C (set_buffer D1 [])"
    "kept ?p s1 s2" "?p < st_next s2" "st_vals s2 ?p = Some V" "V = raw_value VT_SYMBOL (V_symbol y)" "y \<noteq> 0"
    "symbol_name s2 y = Some (atom_word s1 w)"
    using atom_value [OF r1(1) D1(3)] unfolding nx by blast
  obtain i s' where s': "parse_value (parse_list_n m) s cx = Some (?p, s')"
    "s' = s2\<lparr>st_vals := (st_vals s2)(?p \<mapsto> V\<lparr>va_quoted := False, va_lex_info := i\<rparr>)\<rparr>"
    "reading s' cx C (set_buffer D1 [])" "kept ?p s2 s'"
    using parse_value_token [OF a(3) D1(1) [folded s1_def] r1(1) _ s2(1,2,5), of ?p] next_addr [OF a(3)] by auto
  have k: "kept ?p s s'" by (rule kept_trans [OF kept_trans [OF r1(2) s2(3)] s'(4)]) simp_all
  let ?W = "V\<lparr>va_quoted := False, va_lex_info := i\<rparr>"
  have W: "st_vals s' ?p = Some ?W" by (simp add: s'(2))
  have "says s' ?p (st_next s') ?p (sexp_text s (D_sym w))"
  proof (rule says_atom [OF W])
    fix t assume u: "unchanged ?p (st_next s') s' t"
    then have "ai_config t = ai_config s" using k by (simp add: unchanged_def kept_def)
    moreover have "symbol_name t y = Some (atom_word s w)"
      using u s2(8) r1(2) s'(4) by (simp add: unchanged_def kept_def)
    then have "sym_name t y = Some (Some (atom_word s w))"
      using s2(7) by (auto simp: symbol_name_def sym_name_def split: option.splits)
    ultimately show "atom_text t ?W = Some (sexp_text s (D_sym w))"
      using colored_kept [of t s] s2(6) by (simp add: atom_text_def raw_value_def)
  qed (use next_addr [OF a(3)] s2(4,6) s'(2) in \<open>simp_all add: raw_value_def\<close>)
  then show "\<exists>v V s' D'. parse_value (parse_list_n m) s cx = Some (v, s') \<and> reading s' cx C D' \<and> at_text D' (spell bs) \<and>
      kept (st_next s) s s' \<and> st_vals s' v = Some V \<and>
      (va_type V = VT_LIST \<longrightarrow> (\<exists>l L. va_value V = V_list l \<and> st_next s \<le> l \<and> st_lists s' l = Some L)) \<and>
      says s' (st_next s) (st_next s') v (sexp_text s (D_sym w))"
    using s'(1,3) k W set_buffer_at_text [OF D1(3,2)] s2(6)
    by - (rule exI [of _ ?p], rule exI [of _ ?W], rule exI [of _ s'], rule exI [of _ "set_buffer D1 []"], simp add: raw_value_def)
qed

subsection \<open>Reading the elements of a list\<close>

lemma kept_mono: "kept N s s' \<Longrightarrow> M \<le> N \<Longrightarrow> kept M s s'"
  unfolding kept_def using unchanged_sub [of 0 N s s' 0 M] by auto

lemma parts_kept:
  assumes "parts s lo hi ps" "kept N s s'" "hi \<le> N"
  shows "parts s' lo hi ps"
proof (rule parts_keep [OF assms(1)])
  show "\<forall>e\<in>fst ` set ps. edata s' e = edata s e"
    using parts_bounds [OF assms(1)] assms(2,3) by (fastforce simp: kept_def unchanged_def edata_def)
qed (use assms(2,3) in \<open>auto simp: kept_def unchanged_def\<close>)

lemma is_list_kept:
  assumes "is_list s l es" "kept N s s'" "l < N" "\<forall>e\<in>set es. e < N"
  shows "is_list s' l es"
proof -
  have "dll (st_ents s') 0 es 0 = dll (st_ents s) 0 es 0"
    by (rule dll_cong) (use assms(2,4) in \<open>simp add: kept_def unchanged_def\<close>)
  moreover have "st_lists s' l = st_lists s l" using assms(2,3) by (simp add: kept_def)
  ultimately show ?thesis using assms(1) by (simp add: is_list_def chain_def)
qed

text \<open>The parent of a list that is an element.\<close>

lemma adopt_ok:
  assumes "reading s cx C D" "st_vals s v = Some V" "v \<noteq> 0"
    "va_type V = VT_LIST \<longrightarrow> (\<exists>k L. va_value V = V_list k \<and> N \<le> k \<and> st_lists s k = Some L)"
  shows "\<exists>b s'. is_type s v VT_LIST = Some b \<and>
    (if b then do { lval \<leftarrow> AKL_GET_LIST_VALUE s v; upd_list s lval (\<lambda>L. L\<lparr>li_parent := l\<rparr>) } else Some s) = Some s' \<and>
    reading s' cx C D \<and> kept N s s' \<and> unchanged lo hi s s' \<and> st_next s' = st_next s"
proof (cases "va_type V = VT_LIST")
  case False
  then show ?thesis using assms by (auto simp: is_type_def)
next
  case True
  then obtain k L where k: "va_value V = V_list k" "N \<le> k" "st_lists s k = Some L" using assms(4) by blast
  define s' where "s' = s\<lparr>st_lists := (st_lists s)(k \<mapsto> L\<lparr>li_parent := l\<rparr>)\<rparr>"
  have "is_type s v VT_LIST = Some True" "AKL_GET_LIST_VALUE s v = Some k"
    using assms(2,3) True k(1) by (simp_all add: is_type_def AKL_GET_LIST_VALUE_def)
  moreover have "upd_list s k (\<lambda>L. L\<lparr>li_parent := l\<rparr>) = Some s'" using k(3) by (simp add: upd_list_def s'_def)
  moreover have "heap_live s' = heap_live s" using k(3) by (auto simp: heap_live_def s'_def)
  then have "heap_ok s'" using assms(1) by (simp add: reading_def heap_ok_def s'_def)
  then have "reading s' cx C D" by (rule reading_step [OF assms(1)]) (use assms(1) in \<open>simp_all add: s'_def reading_def\<close>)
  moreover have kp: "kept N s s'" by (rule kept_same_symbols) (use k(2) in \<open>auto simp: s'_def\<close>)
  moreover have "list_view s' x = list_view s x" for x using k(3) by (simp add: list_view_def s'_def)
  then have "unchanged lo hi s s'" by (simp add: unchanged_def s'_def symbol_name_def)
  ultimately show ?thesis by - (rule exI [of _ True], rule exI [of _ s'], simp add: s'_def)
qed

text \<open>Appending changes the list, its entries and the next address alone.\<close>

lemma append_value_frame:
  assumes "heap_ok s" "is_list s l es" "akl_list_append_value s l d = Some (e, s')" "st_lists s l = Some L"
  shows "st_next s' = Suc (st_next s)" "x \<noteq> st_next s \<Longrightarrow> x \<notin> set es \<Longrightarrow> st_ents s' x = st_ents s x"
    "\<exists>L'. st_lists s' l = Some L' \<and> \<not> li_nil L'" "st_devs s' = st_devs s" "ai_symbols s' = ai_symbols s"
    "ai_config s' = ai_config s"
proof -
  obtain K where K: "st_lists s l = Some K" "li_head K = 0 \<longleftrightarrow> es = []" "li_last K = 0 \<longleftrightarrow> es = []" "li_last K = last0 es"
    using is_list_first_last [OF assms(2)] by metis
  have nz: "st_ents s (li_last K) \<noteq> None \<and> li_last K \<in> set es" if "li_last K \<noteq> 0"
    using that is_list_ents [OF assms(2), of "last es"] K(3,4) by (auto simp: last0_def)
  define t where "t = s\<lparr>st_next := Suc (st_next s), st_ents := append_links s (li_last K) d,
    st_lists := (st_lists s)(l \<mapsto> K\<lparr>li_head := (if li_head K = 0 then st_next s else li_head K),
      li_last := st_next s, li_count := li_count K + 1, li_nil := False\<rparr>)\<rparr>"
  have "akl_list_append s l d = Some (st_next s, t)"
    unfolding t_def by (rule append_raw [OF assms(1) K(1)]) (use K(2,3) nz in auto)
  then obtain F where s': "s' = t\<lparr>st_ents := (st_ents t)(st_next s \<mapsto> F)\<rparr>"
    using assms(3) by (auto simp: akl_list_append_value_def upd_ent_def Option.bind_eq_Some_conv)
  show "st_next s' = Suc (st_next s)" "\<exists>L'. st_lists s' l = Some L' \<and> \<not> li_nil L'" "st_devs s' = st_devs s"
    "ai_symbols s' = ai_symbols s" "ai_config s' = ai_config s" by (simp_all add: s' t_def)
  show "x \<noteq> st_next s \<Longrightarrow> x \<notin> set es \<Longrightarrow> st_ents s' x = st_ents s x"
    using nz by (cases "li_last K = 0") (auto simp: s' t_def append_links_def Let_def)
qed

lemma parse_list_loop_Suc:
  "parse_list_loop (Suc n) s cx l =
     do {
       (val, s) \<leftarrow> parse_value (parse_list_n n) s cx;
       (if val = 0 then Some s
        else do {
          b \<leftarrow> is_type s val VT_LIST;
          s \<leftarrow> (if b then do { lval \<leftarrow> AKL_GET_LIST_VALUE s val; upd_list s lval (\<lambda>L. L\<lparr>li_parent := l\<rparr>) } else Some s);
          (ent, s) \<leftarrow> akl_list_append_value s l val;
          parse_list_loop n s cx l
        })
     }"
proof -
  have "parse_list_n n = (\<lambda>s ctx. do { let (l, s) = akl_new_list s; s \<leftarrow> parse_list_loop n s ctx l;
      s \<leftarrow> upd_list s l (\<lambda>L. L\<lparr>li_quoted := True\<rparr>); Some (l, s) })"
    by (intro ext) (rule parse_list_n_def)
  then show ?thesis by simp
qed

text \<open>The state after an element is read, adopted and appended.\<close>

lemma append_part:
  assumes "reading s cx C D" "is_list s l (map fst ps)" "parts s (Suc l) N ps" "says s N (st_next s) v t" "N \<le> st_next s"
    "l < N"
  shows "\<exists>s'. akl_list_append_value s l v = Some (st_next s, s') \<and> reading s' cx C D \<and> kept l s s' \<and>
    is_list s' l (map fst (ps @ [(st_next s, v, t)])) \<and> parts s' (Suc l) (st_next s') (ps @ [(st_next s, v, t)]) \<and>
    (\<exists>L. st_lists s' l = Some L \<and> \<not> li_nil L)"
proof -
  let ?e = "st_next s"
  have ok: "heap_ok s" using assms(1) by (simp add: reading_def)
  obtain L where L: "st_lists s l = Some L" using is_list_first_last [OF assms(2)] by metis
  obtain s' where s': "akl_list_append_value s l v = Some (?e, s')" "is_list s' l (map fst ps @ [?e])" "edata s' ?e = v"
    "list_op (set (map fst ps)) l s s'" "heap_ok s'"
    using append_value_ok [OF ok assms(2), of v] by blast
  note f = append_value_frame [OF ok assms(2) s'(1) L]
  note g = list_op_fields [OF s'(4)]
  have inps: "Suc l \<le> x \<and> x < N" if "x \<in> fst ` set ps" for x using parts_bounds [OF assms(3)] that by blast
  have ents: "st_ents s' x = st_ents s x" if "x \<noteq> ?e" "x \<notin> fst ` set ps" for x using f(2) that by simp
  have lists: "st_lists s' x = st_lists s x" if "x \<noteq> l" for x using s'(4) that by (simp add: list_op_def)
  have "reading s' cx C D"
    by (rule reading_step [OF assms(1) s'(5) g(4) f(5) _ g(1)]) (use f(1,4) assms(1) in \<open>simp_all add: reading_def\<close>)
  moreover have "kept l s s'"
  proof (rule kept_same_symbols [OF g(4) f(5,6)])
    fix x assume "x < l"
    moreover from this have "x \<notin> fst ` set ps" using inps by fastforce
    ultimately show "st_vals s' x = st_vals s x \<and> st_ents s' x = st_ents s x \<and> st_lists s' x = st_lists s x"
      using ents [of x] lists [of x] g(2) assms(5,6) by simp
  qed (simp add: f(1))
  moreover have u: "unchanged N ?e s s'"
    unfolding unchanged_def
  proof (intro conjI allI impI)
    fix x assume x: "N \<le> x \<and> x < ?e"
    then have "x \<notin> fst ` set ps" using inps by fastforce
    then show "st_ents s' x = st_ents s x" using ents [of x] x by simp
    show "list_view s' x = list_view s x" using lists [of x] x assms(6) by (simp add: list_view_def)
  qed (use g f(6) in \<open>simp_all add: symbol_name_def\<close>)
  have "parts s' (Suc l) N ps"
  proof (rule parts_keep [OF assms(3)])
    have "edata s' x = edata s x" if "x \<in> fst ` set ps" for x
      using s'(4) is_list_ents [OF assms(2), of x] that unfolding list_op_def by auto
    then show "\<forall>e\<in>fst ` set ps. edata s' e = edata s e" by blast
    fix x assume x: "Suc l \<le> x" "x < N" "x \<notin> fst ` set ps"
    then show "st_vals s' x = st_vals s x \<and> st_ents s' x = st_ents s x \<and> list_view s' x = list_view s x"
      using ents [of x] lists [of x] g(2) assms(5) by (simp add: list_view_def)
  qed (use g(4) f(6) in \<open>simp_all add: symbol_name_def\<close>)
  then have "parts s' (Suc l) (st_next s') (ps @ [(?e, v, t)])"
    unfolding f(1) by (rule parts_append [OF _ says_keep [OF assms(4) u] assms(5) s'(3)])
  ultimately show ?thesis using s'(1,2) f(3) by auto
qed

lemma parse_items:
  assumes "\<forall>e\<in>set es. parses e" "list_all sexp_ok es" "map fst us = concat (map sexp_lexemes es) @ [L_close]"
    "spell_ok (us @ bs)" "reading s cx C D" "at_text D (spell (us @ bs))" "is_list s l (map fst ps)"
    "parts s (Suc l) (st_next s) ps" "length us \<le> n" "st_lists s l = Some L" "\<not> li_nil L"
  shows "\<exists>s' D' ps' L'. parse_list_loop n s cx l = Some s' \<and> reading s' cx C D' \<and> at_text D' (spell bs) \<and> kept l s s' \<and>
    is_list s' l (map fst ps') \<and> parts s' (Suc l) (st_next s') ps' \<and>
    map (\<lambda>p. snd (snd p)) ps' = map (\<lambda>p. snd (snd p)) ps @ map (sexp_text s) es \<and>
    st_lists s' l = Some L' \<and> \<not> li_nil L'"
  using assms
proof (induction es arbitrary: us s D ps n L)
  case Nil
  obtain k where us: "us = [(L_close, k)]" using Nil.prems(3) by (cases us) auto
  obtain m where n: "n = Suc m" using Nil.prems(9) us by (cases n) auto
  have tx: "at_text D (spell ((L_close, k) # bs))" "spell_ok ((L_close, k) # bs)" using Nil.prems(4,6) us by simp_all
  obtain D1 where D1: "lex_token s (cx_dev C) = Some (tRBRACE, upd_dev s (cx_dev C) D1)" "at_text D1 (spell bs)"
    using reading_lexeme [OF Nil.prems(5) tx] by auto
  let ?s = "upd_dev s (cx_dev C) D1"
  have r: "reading ?s cx C D1" "kept (st_next s) s ?s" using reading_dev [OF Nil.prems(5)] by simp_all
  have lt: "l < st_next s" using parts_bounds [OF Nil.prems(8)] by simp
  have "parse_value (parse_list_n m) s cx = Some (0, ?s)"
    using Nil.prems(5) D1(1) r(1) by (simp add: parse_value_def parse_token_def reading_def)
  then have "parse_list_loop n s cx l = Some ?s" unfolding n parse_list_loop_Suc by simp
  moreover have "is_list ?s l (map fst ps)"
    by (rule is_list_kept [OF Nil.prems(7) r(2) lt]) (use parts_bounds [OF Nil.prems(8)] in auto)
  moreover have "parts ?s (Suc l) (st_next ?s) ps"
    using parts_kept [OF Nil.prems(8) r(2)] by (simp add: upd_dev_def)
  moreover have "st_lists ?s l = Some L" using Nil.prems(10) by (simp add: upd_dev_def)
  ultimately show ?case using r(1) D1(2) kept_mono [OF r(2), of l] lt Nil.prems(11)
    by - (rule exI [of _ ?s], rule exI [of _ D1], rule exI [of _ ps], rule exI [of _ L], simp)
next
  case (Cons e es)
  let ?N = "st_next s"
  obtain vs ws where u: "us = vs @ ws" "map fst vs = sexp_lexemes e" "map fst ws = concat (map sexp_lexemes es) @ [L_close]"
    using Cons.prems(3) map_eq_append_conv [of fst us "sexp_lexemes e" "concat (map sexp_lexemes es) @ [L_close]"] by auto
  have ne: "vs \<noteq> []" "ws \<noteq> []" using u(2,3) by (cases e; auto)+
  obtain m where n: "n = Suc m" "length vs \<le> m" "length ws \<le> m"
    using Cons.prems(9) u(1) ne by (cases n; cases vs; cases ws) auto
  have tx: "spell_ok (vs @ ws @ bs)" "at_text D (spell (vs @ ws @ bs))" using Cons.prems(4,6) u(1) by simp_all
  have lt: "l < ?N" using parts_bounds [OF Cons.prems(8)] by simp
  have pe: "parses e" "sexp_ok e" using Cons.prems(1,2) by simp_all
  obtain v V s1 D1 where s1: "parse_value (parse_list_n m) s cx = Some (v, s1)" "reading s1 cx C D1"
    "at_text D1 (spell (ws @ bs))" "kept ?N s s1" "st_vals s1 v = Some V"
    "va_type V = VT_LIST \<longrightarrow> (\<exists>l L. va_value V = V_list l \<and> ?N \<le> l \<and> st_lists s1 l = Some L)"
    "says s1 ?N (st_next s1) v (sexp_text s e)"
    using parsesD [OF pe(1) u(2) tx(1) Cons.prems(5) tx(2) pe(2) n(2)] by blast
  have v0: "v \<noteq> 0" using s1(7) by (simp add: says_def)
  obtain b s2 where s2: "is_type s1 v VT_LIST = Some b"
    "(if b then do { lval \<leftarrow> AKL_GET_LIST_VALUE s1 v; upd_list s1 lval (\<lambda>L. L\<lparr>li_parent := l\<rparr>) } else Some s1) = Some s2"
    "reading s2 cx C D1" "kept ?N s1 s2" "unchanged ?N (st_next s1) s1 s2" "st_next s2 = st_next s1"
    using adopt_ok [OF s1(2,5) v0 s1(6)] by blast
  have k2: "kept ?N s s2" by (rule kept_trans [OF s1(4) s2(4)]) simp
  have N2: "?N \<le> st_next s2" using k2 by (simp add: kept_def)
  have l2: "is_list s2 l (map fst ps)"
    by (rule is_list_kept [OF Cons.prems(7) k2 lt]) (use parts_bounds [OF Cons.prems(8)] in auto)
  have p2: "parts s2 (Suc l) ?N ps" by (rule parts_kept [OF Cons.prems(8) k2]) simp
  have sy: "says s2 ?N (st_next s2) v (sexp_text s e)" using says_keep [OF s1(7) s2(5)] s2(6) by simp
  let ?ps = "ps @ [(st_next s2, v, sexp_text s e)]"
  obtain s3 L3 where s3: "akl_list_append_value s2 l v = Some (st_next s2, s3)" "reading s3 cx C D1" "kept l s2 s3"
    "is_list s3 l (map fst ?ps)" "parts s3 (Suc l) (st_next s3) ?ps" "st_lists s3 l = Some L3" "\<not> li_nil L3"
    using append_part [OF s2(3) l2 p2 sy N2 lt] by blast
  have k3: "kept l s s3" by (rule kept_trans [OF kept_mono [OF k2] s3(3)]) (use lt in simp_all)
  have "\<exists>s' D' ps' L'. parse_list_loop m s3 cx l = Some s' \<and> reading s' cx C D' \<and> at_text D' (spell bs) \<and> kept l s3 s' \<and>
    is_list s' l (map fst ps') \<and> parts s' (Suc l) (st_next s') ps' \<and>
    map (\<lambda>p. snd (snd p)) ps' = map (\<lambda>p. snd (snd p)) ?ps @ map (sexp_text s3) es \<and>
    st_lists s' l = Some L' \<and> \<not> li_nil L'"
    by (rule Cons.IH [OF _ _ u(3) _ s3(2) s1(3) s3(4,5) n(3) s3(6,7)])
      (use Cons.prems(1,2) tx(1) spell_ok_append [of vs "ws @ bs"] in simp_all)
  then obtain s' D' ps' L' where s': "parse_list_loop m s3 cx l = Some s'" "reading s' cx C D'" "at_text D' (spell bs)"
    "kept l s3 s'" "is_list s' l (map fst ps')" "parts s' (Suc l) (st_next s') ps'"
    "map (\<lambda>p. snd (snd p)) ps' = map (\<lambda>p. snd (snd p)) ?ps @ map (sexp_text s3) es" "st_lists s' l = Some L'" "\<not> li_nil L'"
    by (elim exE conjE) (rule that)
  have "parse_list_loop n s cx l = Some s'"
    unfolding n(1) parse_list_loop_Suc using s1(1) v0 s2(1,2) s3(1) s'(1) by simp
  moreover have "map (sexp_text s3) es = map (sexp_text s) es" using sexp_text_kept [OF k3] by simp
  then have "map (\<lambda>p. snd (snd p)) ps' = map (\<lambda>p. snd (snd p)) ps @ map (sexp_text s) (e # es)" using s'(7) by simp
  moreover have "kept l s s'" by (rule kept_trans [OF k3 s'(4)]) simp
  ultimately show ?case using s'(2,3,5,6,8,9)
    by - (rule exI [of _ s'], rule exI [of _ D'], rule exI [of _ ps'], rule exI [of _ L'], simp)
qed

subsection \<open>Reading a list\<close>

lemma parts_unchanged:
  assumes "parts s lo hi ps" "unchanged lo hi s s'"
  shows "parts s' lo hi ps"
proof (rule parts_keep [OF assms(1)])
  show "\<forall>e\<in>fst ` set ps. edata s' e = edata s e"
    using parts_bounds [OF assms(1)] assms(2) by (fastforce simp: unchanged_def edata_def)
qed (use assms(2) in \<open>auto simp: unchanged_def\<close>)

text \<open>The text of the list at \<open>l\<close> with the parts \<open>ps\<close>, in any state with the same interval.\<close>

lemma list_says:
  assumes "is_list s l (map fst ps)" "parts s (Suc l) hi ps" "st_lists s l = Some L" "li_quoted L" "\<not> li_nil L"
    "length ps < 2 ^ 32" "unchanged l hi s s'"
  shows "list_text (3 * (hi - l)) s' l =
    Some (if ps = [] then colored s AKL_GRAY ''NIL'' else [CHR 0x27] @ ''('' @ joined (map (\<lambda>p. snd (snd p)) ps) @ '')'')"
proof -
  have lh: "l < hi" using parts_bounds [OF assms(2)] by simp
  then have "list_view s' l = list_view s l" using assms(7) by (simp add: unchanged_def)
  then obtain L' where L': "st_lists s' l = Some L'" "li_head L' = li_head L" "li_count L' = li_count L" "li_quoted L'" "\<not> li_nil L'"
    using assms(3-5) by (auto simp: list_view_def)
  have L: "li_head L = first0 (map fst ps)" "li_count L = of_nat (length ps)" "l \<noteq> 0" "dll (st_ents s) 0 (map fst ps) 0"
    using assms(1,3) by (auto simp: is_list_def chain_def)
  have "dll (st_ents s') 0 (map fst ps) 0 = dll (st_ents s) 0 (map fst ps) 0"
    by (rule dll_cong) (use parts_bounds [OF assms(2)] assms(7) in \<open>auto simp: unchanged_def\<close>)
  then have d: "dll (st_ents s') 0 (map fst ps) 0" using L(4) by simp
  have "unchanged (Suc l) hi s s'" by (rule unchanged_sub [OF assms(7)]) simp_all
  then have p: "parts s' (Suc l) hi ps" by (rule parts_unchanged [OF assms(2)])
  obtain k where k: "3 * (hi - l) = Suc k" "3 * (hi - Suc l) + 1 \<le> k"
    using lh by (cases "3 * (hi - l)") auto
  have e: "entries_text k s' (li_head L') = Some (joined (map (\<lambda>p. snd (snd p)) ps))"
    unfolding L'(2) L(1) by (rule text_more(3) [OF entries_text_parts [OF p d] k(2)])
  have "unat (of_nat (length ps) :: u32) = length ps" using assms(6) by (simp add: unat_of_nat)
  then have "li_count L' = 0 \<longleftrightarrow> ps = []" using L'(3) L(2) by (metis length_0_conv unat_eq_zero of_nat_0)
  then have "nil_list s' l = Some (ps = [])" using L(3) L'(1,5) by (simp add: nil_list_def)
  moreover have "colored s' = colored s" using assms(7) colored_kept [of s' s] by (simp add: unchanged_def)
  ultimately show ?thesis unfolding k(1) list_text.simps(2) using L'(1,4) e by simp
qed

lemma parse_list_text:
  assumes "\<forall>e\<in>set es. parses e" "sexp_ok (D_list es)" "map fst us = concat (map sexp_lexemes es) @ [L_close]"
    "spell_ok (us @ bs)" "reading s cx C D" "at_text D (spell (us @ bs))" "length us \<le> n"
  shows "\<exists>s' D' L. parse_list_n n s cx = Some (st_next s, s') \<and> reading s' cx C D' \<and> at_text D' (spell bs) \<and>
    kept (st_next s) s s' \<and> st_next s < st_next s' \<and> st_lists s' (st_next s) = Some L \<and>
    (\<forall>s''. unchanged (st_next s) (st_next s') s' s'' \<longrightarrow>
      list_text (3 * (st_next s' - st_next s)) s'' (st_next s) = Some (sexp_text s (D_list es)))"
proof -
  let ?l = "st_next s"
  define s0 where "s0 = s\<lparr>st_next := Suc ?l, st_lists := (st_lists s)(?l \<mapsto> empty_list)\<rparr>"
  have ok: "heap_ok s" and l0: "?l \<noteq> 0" using assms(5) next_addr [OF assms(5)] by (simp_all add: reading_def)
  have new: "akl_new_list s = (?l, s0)" using l0 by (simp add: akl_new_list_def akl_init_list_def Let_def s0_def)
  have "heap_ok s0" by (rule heap_ok_grow [OF ok]) (auto simp: s0_def heap_live_def split: if_splits)
  then have r0: "reading s0 cx C D" by (rule reading_step [OF assms(5)]) (use assms(5) in \<open>simp_all add: s0_def reading_def\<close>)
  have k0: "kept ?l s s0" by (rule kept_same_symbols) (simp_all add: s0_def)
  have li: "is_list s0 ?l (map fst [])" "parts s0 (Suc ?l) (st_next s0) []" "st_lists s0 ?l = Some empty_list" "\<not> li_nil empty_list"
    using l0 by (simp_all add: is_list_def chain_def s0_def empty_list_def)
  have oks: "list_all sexp_ok es" using assms(2) by simp
  obtain s1 D' ps L where s1: "parse_list_loop n s0 cx ?l = Some s1" "reading s1 cx C D'" "at_text D' (spell bs)"
    "kept ?l s0 s1" "is_list s1 ?l (map fst ps)" "parts s1 (Suc ?l) (st_next s1) ps"
    "map (\<lambda>p. snd (snd p)) ps = map (sexp_text s0) es" "st_lists s1 ?l = Some L" "\<not> li_nil L"
    using parse_items [OF assms(1) oks assms(3,4) r0 assms(6) li(1,2) assms(7) li(3,4)]
    by (elim exE conjE) (rule that, simp_all)
  let ?L = "L\<lparr>li_quoted := True\<rparr>"
  define s' where "s' = s1\<lparr>st_lists := (st_lists s1)(?l \<mapsto> ?L)\<rparr>"
  have run: "parse_list_n n s cx = Some (?l, s')"
    using new s1(1,8) by (simp add: parse_list_n_def upd_list_def s'_def)
  have "heap_live s' = heap_live s1" using s1(8) by (auto simp: heap_live_def s'_def)
  then have "heap_ok s'" using s1(2) by (simp add: reading_def heap_ok_def s'_def)
  then have r: "reading s' cx C D'" by (rule reading_step [OF s1(2)]) (use s1(2) in \<open>simp_all add: s'_def reading_def\<close>)
  have "kept ?l s1 s'" by (rule kept_same_symbols) (simp_all add: s'_def)
  then have k: "kept ?l s s'" using kept_trans [OF kept_trans [OF k0 s1(4)]] by simp
  have nx: "st_next s' = st_next s1" by (simp add: s'_def)
  have li': "is_list s' ?l (map fst ps)" using s1(5,8) by (auto simp: is_list_def chain_def s'_def)
  have "unchanged (Suc ?l) (st_next s1) s1 s'" by (simp add: unchanged_def s'_def list_view_def symbol_name_def)
  then have pa: "parts s' (Suc ?l) (st_next s') ps" unfolding nx by (rule parts_unchanged [OF s1(6)])
  have tx: "map (\<lambda>p. snd (snd p)) ps = map (sexp_text s) es" using s1(7) sexp_text_kept [OF k0] by simp
  then have len: "length ps = length es" by (metis length_map)
  have cs: "colored s' = colored s" using k colored_kept [of s' s] by (simp add: kept_def unchanged_def)
  have "list_text (3 * (st_next s' - ?l)) s'' ?l = Some (sexp_text s (D_list es))" if "unchanged ?l (st_next s') s' s''" for s''
  proof -
    have "st_lists s' ?l = Some ?L" "li_quoted ?L" "\<not> li_nil ?L" "length ps < 2 ^ 32"
      using s1(9) assms(2) len by (simp_all add: s'_def)
    note list_says [OF li' pa this that]
    moreover have "ps = [] \<longleftrightarrow> es = []" using len by auto
    ultimately show ?thesis using tx cs by simp
  qed
  then show ?thesis
    using run r s1(3) k parts_bounds [OF pa] by (intro exI [of _ s'] exI [of _ D'] exI [of _ ?L]) (simp add: s'_def)
qed

lemma parses_list:
  assumes "\<forall>e\<in>set es. parses e"
  shows "parses (D_list es)"
  unfolding parses_def
proof (intro allI impI)
  fix s cx C D us bs m
  assume a: "map fst us = sexp_lexemes (D_list es)" "spell_ok (us @ bs)" "reading s cx C D" "at_text D (spell (us @ bs))"
    "sexp_ok (D_list es)" "length us \<le> (m::nat)"
  let ?l = "st_next s"
  obtain k vs where us: "us = (L_open, k) # vs" "map fst vs = concat (map sexp_lexemes es) @ [L_close]"
    using a(1) by (cases us) auto
  have tx: "at_text D (spell ((L_open, k) # vs @ bs))" "spell_ok ((L_open, k) # vs @ bs)" using a(2,4) us(1) by simp_all
  obtain D1 where D1: "lex_token s (cx_dev C) = Some (tLBRACE, upd_dev s (cx_dev C) D1)" "at_text D1 (spell (vs @ bs))"
    using reading_lexeme [OF a(3) tx] by auto
  define s1 where "s1 = upd_dev s (cx_dev C) D1"
  have r1: "reading s1 cx C D1" "kept ?l s s1" using reading_dev [OF a(3)] by (simp_all add: s1_def)
  have nx: "st_next s1 = ?l" by (simp add: s1_def upd_dev_def)
  have ok: "spell_ok (vs @ bs)" "length vs \<le> m" using tx(2) a(6) us(1) by simp_all
  obtain s2 D' L where s2: "parse_list_n m s1 cx = Some (?l, s2)" "reading s2 cx C D'" "at_text D' (spell bs)" "kept ?l s1 s2"
    "?l < st_next s2" "st_lists s2 ?l = Some L"
    "\<forall>t. unchanged ?l (st_next s2) s2 t \<longrightarrow> list_text (3 * (st_next s2 - ?l)) t ?l = Some (sexp_text s1 (D_list es))"
    using parse_list_text [OF assms a(5) us(2) ok(1) r1(1) D1(2) ok(2)] unfolding nx by (elim exE conjE) (rule that)
  let ?p = "st_next s2" and ?V = "raw_value VT_LIST (V_list ?l)"
  define s3 where "s3 = snd (new_value_with s2 ?V)"
  have r3: "reading s3 cx C D'" "kept ?p s2 s3" using new_value_reading [OF s2(2)] by (simp_all add: s3_def)
  have n3: "new_value_with s2 ?V = (?p, s3)" "st_next s3 = Suc ?p" "st_vals s3 ?p = Some ?V"
    by (simp_all add: s3_def new_value_with_def Let_def)
  have tv: "token_value (parse_list_n m) s1 cx tLBRACE = Some (?p, s3)"
    using r1(1) s2(1) n3(1) next_addr [OF a(3)] by (simp add: token_value_def reading_def akl_new_list_value_def)
  obtain i s' where s': "parse_value (parse_list_n m) s cx = Some (?p, s')"
    "s' = s3\<lparr>st_vals := (st_vals s3)(?p \<mapsto> ?V\<lparr>va_quoted := False, va_lex_info := i\<rparr>)\<rparr>"
    "reading s' cx C D'" "kept ?p s3 s'"
    using parse_value_token [OF a(3) D1(1) [folded s1_def] r1(1) _ tv r3(1) n3(3), of ?p] next_addr [OF s2(2)] by auto
  let ?W = "?V\<lparr>va_quoted := False, va_lex_info := i\<rparr>"
  have W: "st_vals s' ?p = Some ?W" by (simp add: s'(2))
  have nx': "st_next s' = Suc ?p" using n3(2) by (simp add: s'(2))
  have k2: "kept ?p s2 s'" by (rule kept_trans [OF r3(2) s'(4)]) simp
  have k: "kept ?l s s'"
    by (rule kept_trans [OF kept_trans [OF r1(2) s2(4)] k2]) (use s2(5) in simp_all)
  have tx1: "sexp_text s1 (D_list es) = sexp_text s (D_list es)" by (rule sexp_text_kept [OF r1(2)])
  have "says s' ?l (st_next s') ?p (sexp_text s (D_list es))"
    unfolding says_def
  proof (intro conjI allI impI)
    fix t assume u: "unchanged ?l (st_next s') s' t"
    obtain j where j: "3 * (st_next s' - ?l) = Suc j" "3 * (?p - ?l) \<le> j"
      using nx' s2(5) by (cases "3 * (st_next s' - ?l)") auto
    have "unchanged ?l ?p s2 s'" using k2 unchanged_sub by (auto simp: kept_def)
    then have "unchanged ?l ?p s2 t"
      using unchanged_trans unchanged_sub [OF u, of ?l ?p] nx' by auto
    then have "list_text j t ?l = Some (sexp_text s (D_list es))" using s2(7) tx1 text_more(2) [OF _ j(2)] by metis
    moreover have "st_vals t ?p = Some ?W" using u W nx' s2(5) by (simp add: unchanged_def)
    ultimately show "value_text (3 * (st_next s' - ?l)) t ?p = Some (sexp_text s (D_list es))"
      using next_addr [OF s2(2)] unfolding j(1) value_text.simps(2) by (simp add: AKL_IS_NIL_def raw_value_def del: sexp_text.simps)
  qed (use next_addr [OF s2(2)] in simp)
  moreover have "st_lists s' ?l = Some L" using k2 s2(5,6) by (simp add: kept_def)
  ultimately show "\<exists>v V s' D'. parse_value (parse_list_n m) s cx = Some (v, s') \<and> reading s' cx C D' \<and> at_text D' (spell bs) \<and>
      kept (st_next s) s s' \<and> st_vals s' v = Some V \<and>
      (va_type V = VT_LIST \<longrightarrow> (\<exists>l L. va_value V = V_list l \<and> st_next s \<le> l \<and> st_lists s' l = Some L)) \<and>
      says s' (st_next s) (st_next s') v (sexp_text s (D_list es))"
    using s'(1,3) s2(3) k W
    by - (rule exI [of _ ?p], rule exI [of _ ?W], rule exI [of _ s'], rule exI [of _ D'], simp add: raw_value_def del: sexp_text.simps)
qed

lemma parses_all: "parses e"
proof (induction e)
  case (D_list es)
  then show ?case using parses_list by blast
qed (rule parses_number, rule parses_symbol)

text \<open>
  C7. Reading a list and printing it gives the list back: \<open>akl_str_to_list\<close> applied to the text
  of a list of numbers (of up to six digits), names and lists of these, written with any
  blanks and line ends between the lexemes, returns a list, and \<open>akl_print_list\<close> prints that list in its
  canonical form: the same elements in the same order and nesting, one blank between them,
  every non-empty list with a quote before it, an empty one as NIL, every name as the symbol of
  the table that equals it up to case, or in small letters when the symbol is new.
\<close>

theorem parse_then_print:
  assumes "heap_ok s" "symbols_ok s" "map fst us = sexp_lexemes (D_list es)" "spell_ok us" "sexp_ok (D_list es)"
  shows "\<exists>l s'. akl_str_to_list junk s (spell us) = Some (l, s') \<and>
    akl_print_list s' l = Some (out_text s' (sexp_text s (D_list es)))"
proof -
  let ?d = "st_next s" and ?c = "Suc (st_next s)"
  define D where "D = junk\<lparr>iod_source := DEVICE_STRING (spell us), iod_pos := 0, iod_line_count := 1, iod_char_count := 0,
      iod_name := Some ''string'', iod_buffer := None, iod_buffer_size := 0\<rparr>"
  define C where "C = init_context\<lparr>cx_state := True, cx_dev := ?d\<rparr>"
  define s0 where "s0 = s\<lparr>st_next := Suc ?c, st_devs := (st_devs s)(?d \<mapsto> D), st_ctxs := (st_ctxs s)(?c \<mapsto> C)\<rparr>"
  obtain k vs where us: "us = (L_open, k) # vs" "map fst vs = concat (map sexp_lexemes es) @ [L_close]"
    using assms(3) by (cases us) auto
  have "heap_ok s0" by (rule heap_ok_grow [OF assms(1)]) (auto simp: s0_def heap_live_def split: if_splits)
  moreover have "symbols_ok s0" by (rule symbols_ok_grow [OF assms(2)]) (simp_all add: s0_def)
  ultimately have r: "reading s0 ?c C D" by (simp add: reading_def s0_def C_def)
  have k0: "kept ?d s s0" by (rule kept_same_symbols) (simp_all add: s0_def)
  have "ready (init_lexer D) (spell us)" by (rule fresh_ready [OF assms(4)]) (simp add: D_def fresh_device_def)
  then have t: "at_text D (spell ((L_open, k) # vs))" by (simp add: at_text_def D_def us(1))
  have so: "spell_ok ((L_open, k) # vs)" using assms(4) us(1) by simp
  then obtain D1 where D1: "lex_token s0 (cx_dev C) = Some (tLBRACE, upd_dev s0 (cx_dev C) D1)" "at_text D1 (spell vs)"
    using reading_lexeme [OF r t so] by auto
  define s1 where "s1 = upd_dev s0 (cx_dev C) D1"
  have r1: "reading s1 ?c C D1" "kept ?d s0 s1" using reading_dev [OF r] by (simp_all add: s1_def)
  have ok: "spell_ok (vs @ [])" "at_text D1 (spell (vs @ []))" using assms(4) us(1) D1(2) by simp_all
  have "parse_fuel s1 ?c = 3 * lex_fuel D1 + 3" using r1(1) by (simp add: parse_fuel_def reading_def)
  then have fuel: "length vs \<le> parse_fuel s1 ?c" using lex_fuel_at_text [of D1 vs] ok by simp
  have all: "\<forall>e\<in>set es. parses e" using parses_all by blast
  let ?l = "st_next s1"
  obtain s2 D2 L where s2: "parse_list_n (parse_fuel s1 ?c) s1 ?c = Some (?l, s2)" "?l < st_next s2"
    "\<forall>t. unchanged ?l (st_next s2) s2 t \<longrightarrow> list_text (3 * (st_next s2 - ?l)) t ?l = Some (sexp_text s1 (D_list es))"
    using parse_list_text [OF all assms(5) us(2) ok(1) r1(1) ok(2) fuel] by (elim exE conjE) (rule that)
  define s' where "s' = s2\<lparr>st_devs := (st_devs s2)(?d := None), st_ctxs := (st_ctxs s2)(?c := None)\<rparr>"
  define t1 where "t1 = s\<lparr>st_next := ?c, st_devs := (st_devs s)(?d \<mapsto> D)\<rparr>"
  define t2 where "t2 = t1\<lparr>st_next := Suc ?c, st_ctxs := (st_ctxs t1)(?c \<mapsto> init_context\<lparr>cx_state := True\<rparr>)\<rparr>"
  have n1: "akl_new_string_device junk s (Some ''string'') (spell us) = (?d, t1)"
    by (simp add: akl_new_string_device_def Let_def D_def t1_def)
  have n2: "akl_new_context t1 = (?c, t2)" by (simp add: akl_new_context_def Let_def t2_def t1_def)
  have n3: "upd_ctx t2 ?c (\<lambda>C. C\<lparr>cx_dev := ?d\<rparr>) = Some s0" by (simp add: upd_ctx_def t2_def t1_def s0_def C_def)
  have n4: "lex_token s0 ?d = Some (tLBRACE, s1)" using D1(1) by (simp add: s1_def C_def)
  have run: "akl_str_to_list junk s (spell us) = Some (?l, s')"
    using s2(1) by (simp add: akl_str_to_list_def n1 n2 n3 n4 akl_parse_list_def s'_def)
  have "unchanged ?l (st_next s2) s2 s'" by (simp add: unchanged_def s'_def list_view_def symbol_name_def)
  then have "list_text (3 * (st_next s2 - ?l)) s' ?l = Some (sexp_text s1 (D_list es))" using s2(3) by blast
  then have "list_text (text_fuel s') s' ?l = Some (sexp_text s1 (D_list es))"
    by (rule text_more(2)) (simp add: text_fuel_def s'_def)
  moreover have "sexp_text s1 (D_list es) = sexp_text s (D_list es)"
    by (rule sexp_text_kept [OF kept_trans [OF k0 r1(2)]]) simp
  ultimately show ?thesis using run by (simp add: akl_print_list_def del: sexp_text.simps)
qed

text \<open>\<open>(1 (Two 34)( ) )\<close> without colours and without symbols.\<close>

definition data_us :: "(lexeme \<times> string) list" where
  "data_us = [(L_open, ''''), (L_number ''1'', '' ''), (L_open, ''''), (L_atom ''Two'', '' ''), (L_number ''34'', ''''), (L_close, ''''),
     (L_open, '' ''), (L_close, '' ''), (L_close, '''')]"

definition data_es :: "sexp list" where
  "data_es = [D_num 1, D_list [D_sym ''Two'', D_num 34], D_list []]"

theorem parse_then_print_witness:
  "spell data_us = ''(1 (Two 34)( ) )'' \<and> (\<exists>l s'. akl_str_to_list (string_device []) state0 (spell data_us) = Some (l, s') \<and>
    akl_print_list s' l = Some (out_text s' (CHR 0x27 # ''(1 '' @ CHR 0x27 # ''(two 34) NIL)'')))"
proof -
  have low: "map tolower ''Two'' = ''two''" by code_simp
  have dg: "dec_digits 1 = ''1''" "dec_digits 34 = ''34''" by code_simp+
  have sp: "spell data_us = ''(1 (Two 34)( ) )''" by (simp add: data_us_def eval_nat_numeral)
  have lx: "map fst data_us = sexp_lexemes (D_list data_es)"
    by (simp only: data_us_def data_es_def sexp_lexemes.simps dg list.map fst_conv concat.simps append.simps)
  have f: "starts_atom CHR ''T''" by (simp add: starts_atom_def is_alpha_def is_upper_def)
  have "strcasecmp ''two'' ''NIL'' \<noteq> 0" "strcasecmp ''two'' ''T'' \<noteq> 0"
    by (simp_all add: strcasecmp_eq case_key_def tolower_def is_upper_def)
  then have "lexeme_ok (L_atom ''Two'')" using f low by (simp add: ends_atom_def del: list.map)
  moreover have "lexeme_ok (L_number ''1'')" "lexeme_ok (L_number ''34'')" by (simp_all add: is_digit_def)
  ultimately have so: "spell_ok data_us" by (simp add: data_us_def blank_def del: lexeme_ok.simps(3,4))
  have no: "akl_get_symbol state0 (Some n) = 0" for n by (simp add: akl_get_symbol_def state0_def addr0_def)
  have cl: "colored state0 c t = t" for c t by (simp add: colored_def AKL_COLORFUL_def AKL_IS_FEATURE_ON_def state0_def)
  have "sexp_text state0 (D_list data_es) = CHR 0x27 # ''(1 '' @ CHR 0x27 # ''(two 34) NIL)''"
    unfolding data_es_def sexp_text.simps list.map dg cl atom_word_def no using low by simp
  then show ?thesis
    using parse_then_print [OF state0_ok state0_tables(1) lx so, of "string_device []"] sp by (simp add: data_es_def del: sexp_text.simps)
qed

end
