(* ===== verification/Startup.thy ===== *)
theory Startup
  imports Codegen
begin

text \<open>
  The start of the interpreter: declaring functions and setting global variables keep the
  tables, so that after \<open>init_aklisp\<close> every function of the library is bound to its name.
\<close>

subsection \<open>Tables and the heap\<close>

definition tables_ok :: "akl_state \<Rightarrow> bool" where
  "tables_ok s \<longleftrightarrow> heap_ok s \<and> symbols_ok s \<and> vars_ok s"

lemma symbols_ok_cong:
  assumes "symbols_ok s" "st_syms s' = st_syms s" "ai_symbols s' = ai_symbols s" "st_next s \<le> st_next s'"
  shows "symbols_ok s'" "akl_get_symbol s' = akl_get_symbol s"
proof -
  have n: "symbol_name s' = symbol_name s" using assms(2) by (intro ext) (simp add: symbol_name_def)
  show "symbols_ok s'"
    using assms name_tree_cong(1) [of "symbol_name s" "st_next s" "ai_symbols s" "symbol_name s" "st_next s'"]
    by (simp add: symbols_ok_def n)
  show "akl_get_symbol s' = akl_get_symbol s" using assms(3) by (intro ext) (simp add: akl_get_symbol_def n)
qed

lemma vars_ok_cong:
  assumes "vars_ok s" "st_syms s' = st_syms s" "st_vars s' = st_vars s" "ai_global_vars s' = ai_global_vars s" "st_next s \<le> st_next s'"
  shows "vars_ok s'" "akl_get_global_value s' = akl_get_global_value s"
proof -
  have n: "symbol_name s' = symbol_name s" using assms(2) by (intro ext) (simp add: symbol_name_def)
  have v: "variable_name s' = variable_name s" by (intro ext) (simp only: variable_name_def n assms(3))
  show "vars_ok s'"
    using assms name_tree_cong(1) [of "variable_name s" "st_next s" "ai_global_vars s" "variable_name s" "st_next s'"]
    by (simp add: vars_ok_def v)
  show "akl_get_global_value s' = akl_get_global_value s"
    by (intro ext) (simp only: akl_get_global_value_def akl_get_global_variable_def akl_rb_cmp_var_def [abs_def] v assms(3,4))
qed

lemma value_cong:
  assumes "vars_ok s" "\<And>x. x \<in> set (rb_inorder (ai_global_vars s)) \<Longrightarrow> variable_name s' x = variable_name s x"
    "st_vars s' = st_vars s" "ai_global_vars s' = ai_global_vars s" "st_next s \<le> st_next s'"
  shows "vars_ok s'" "akl_get_global_value s' (Some m) = akl_get_global_value s (Some m)"
proof -
  have t: "name_tree (variable_name s) (st_next s) (ai_global_vars s)" using assms(1) by (simp add: vars_ok_def)
  note c = name_tree_cong [OF t assms(2,5)]
  show "vars_ok s'" using c(1) assms by (simp add: vars_ok_def)
  show "akl_get_global_value s' (Some m) = akl_get_global_value s (Some m)"
    by (simp only: c(2) assms(3,4) akl_get_global_value_def get_variable_tree)
qed

lemma symbol_live: "heap_ok s \<Longrightarrow> symbol_name s x \<noteq> None \<Longrightarrow> x < st_next s"
  by (auto simp: heap_ok_def heap_live_def symbol_name_def dom_def subset_iff split: option.splits)

text \<open>A new symbol, or the one there is.\<close>

lemma new_symbol_frame:
  assumes "symbols_ok s" "akl_new_symbol s (Some n) c = Some (p, s')"
  shows "s' = s\<lparr>st_next := st_next s', st_syms := st_syms s', ai_symbols := ai_symbols s'\<rparr>" "st_next s \<le> st_next s'"
    "st_syms s' = st_syms s \<or> st_next s < st_next s' \<and> (\<exists>S. st_syms s' = (st_syms s)(st_next s \<mapsto> S))"
proof -
  have f: "akl_get_symbol s (Some n) \<noteq> 0 \<Longrightarrow> symbol_name s (akl_get_symbol s (Some n)) \<noteq> None"
    using get_symbol_found [OF assms(1) refl] by blast
  have "(\<exists>m y t. s' = s\<lparr>st_next := m, st_syms := y, ai_symbols := t\<rparr>) \<and> st_next s \<le> st_next s' \<and>
      (st_syms s' = st_syms s \<or> st_next s < st_next s' \<and> (\<exists>S. st_syms s' = (st_syms s)(st_next s \<mapsto> S)))"
  proof (cases "akl_get_symbol s (Some n) = 0")
    case True
    obtain t where t: "get_or_create_symbol s (Some n) =
        Some (st_next s, s\<lparr>st_next := st_next s + 1, ai_symbols := t,
          st_syms := (st_syms s)(st_next s \<mapsto> \<lparr>sb_name = None, sb_is_cdef = True\<rparr>)\<rparr>)"
      using True assms(2) by (auto simp: akl_new_symbol_def get_or_create_symbol_def Let_def set_symbol_def Option.bind_eq_Some_conv)
    have "s' = s\<lparr>st_next := st_next s + 1, st_syms := (st_syms s)(st_next s \<mapsto> \<lparr>sb_name = Some n, sb_is_cdef = c\<rparr>), ai_symbols := t\<rparr>
        \<or> s' = s\<lparr>st_next := st_next s + 1, st_syms := (st_syms s)(st_next s \<mapsto> \<lparr>sb_name = None, sb_is_cdef = True\<rparr>), ai_symbols := t\<rparr>"
      using assms(2) t by (auto simp: akl_new_symbol_def set_symbol_def split: if_splits)
    then show ?thesis by auto
  next
    case False
    have "s' = s" using assms(2) False f by (auto simp: akl_new_symbol_def get_or_create_symbol_def Let_def split: if_splits)
    moreover have "s = s\<lparr>st_next := st_next s, st_syms := st_syms s, ai_symbols := ai_symbols s\<rparr>" by simp
    ultimately show ?thesis by (intro conjI exI) (simp_all only: order.refl simp_thms)
  qed
  then show "s' = s\<lparr>st_next := st_next s', st_syms := st_syms s', ai_symbols := ai_symbols s'\<rparr>" "st_next s \<le> st_next s'"
    "st_syms s' = st_syms s \<or> st_next s < st_next s' \<and> (\<exists>S. st_syms s' = (st_syms s)(st_next s \<mapsto> S))" by auto
qed

lemma new_symbol_ok:
  assumes "tables_ok s"
  shows "\<exists>p s' k. akl_new_symbol s (Some n) c = Some (p, s') \<and> p \<noteq> 0 \<and> tables_ok s' \<and>
    s' = s\<lparr>st_next := st_next s', st_syms := st_syms s', ai_symbols := ai_symbols s'\<rparr> \<and>
    symbol_name s' p = Some k \<and> case_key k = case_key n \<and>
    (\<forall>m. akl_get_symbol s' (Some m) = (if strcasecmp m n = 0 then p else akl_get_symbol s (Some m))) \<and>
    (\<forall>m. akl_get_global_value s' (Some m) = akl_get_global_value s (Some m))"
proof -
  have t: "heap_ok s" "symbols_ok s" "vars_ok s" using assms by (simp_all add: tables_ok_def)
  obtain p s' where s': "akl_new_symbol s (Some n) c = Some (p, s')" "p \<noteq> 0" "symbols_ok s'"
    "\<And>m. akl_get_symbol s' (Some m) = (if strcasecmp m n = 0 then p else akl_get_symbol s (Some m))"
    "case_key (the (symbol_name s' p)) = case_key n" "symbol_name s' p \<noteq> None"
    "\<And>x. symbol_name s x \<noteq> None \<Longrightarrow> x < st_next s \<Longrightarrow> symbol_name s' x = symbol_name s x"
    using symbol_creation(2) [OF t(2), of n c] unfolding symbol_spec_def by blast
  note f = new_symbol_frame [OF t(2) s'(1)]
  have ok: "heap_ok s'"
  proof (rule heap_ok_grow [OF t(1) f(2)])
    show "heap_live s' \<subseteq> heap_live s \<union> {st_next s..<st_next s'}"
      using f(3) by (subst f(1)) (auto simp: heap_live_def split: if_splits)
    show "st_vals s' x = Some V" if "st_vals s x = Some V" for x V using that by (subst f(1)) simp
  qed
  have v: "st_vars s' = st_vars s" "ai_global_vars s' = ai_global_vars s" by (subst f(1), simp)+
  have "variable_name s' x = variable_name s x" if "x \<in> set (rb_inorder (ai_global_vars s))" for x
  proof -
    have "variable_name s x \<noteq> None" using t(3) that by (auto simp: vars_ok_def name_tree_def)
    then obtain V where V: "st_vars s x = Some V" "symbol_name s (vr_symbol V) \<noteq> None"
      by (auto simp: variable_name_def split: option.splits)
    then show ?thesis using s'(7) [OF V(2) symbol_live [OF t(1) V(2)]] v(1) by (simp add: variable_name_def)
  qed
  note g = value_cong [OF t(3) this v f(2)]
  obtain k where "symbol_name s' p = Some k" "case_key k = case_key n" using s'(5,6) by auto
  then show ?thesis using s'(1-4) f(1) ok g by (auto simp: tables_ok_def)
qed

subsection \<open>Setting a global variable by name\<close>

lemma set_global_var_frame:
  assumes "akl_set_global_var s symb desc c v = Some (var, s')"
  shows "s' = s\<lparr>st_next := st_next s', st_vars := st_vars s', ai_global_vars := ai_global_vars s'\<rparr>"
    "st_next s' = st_next s + 1" "dom (st_vars s') \<subseteq> insert (st_next s) (dom (st_vars s))"
  using assms
  by (auto simp: akl_set_global_var_def akl_new_var_def set_global_def Let_def Option.bind_eq_Some_conv
      split: if_splits)

lemma set_global_variable_symbol:
  assumes "akl_new_symbol s (Some n) c = Some (p, s1)" "p \<noteq> 0" "v \<noteq> 0"
  shows "akl_set_global_variable s (Some n) c desc d v = akl_set_global_var s1 p desc d v"
  using assms by (simp add: akl_set_global_variable_def akl_new_variable_def akl_set_global_var_def split: prod.splits)

lemma set_global_variable_ok:
  assumes "tables_ok s" "v \<noteq> 0"
  shows "\<exists>var s'. akl_set_global_variable s (Some n) c desc d v = Some (var, s') \<and> var \<noteq> 0 \<and> tables_ok s' \<and>
    s' = s\<lparr>st_next := st_next s', st_syms := st_syms s', ai_symbols := ai_symbols s', st_vars := st_vars s',
           ai_global_vars := ai_global_vars s'\<rparr> \<and> st_next s \<le> st_next s' \<and>
    (\<forall>m. akl_get_symbol s' (Some m) \<noteq> 0 \<longleftrightarrow> strcasecmp m n = 0 \<or> akl_get_symbol s (Some m) \<noteq> 0) \<and>
    (\<forall>m. akl_get_global_value s' (Some m) = (if strcasecmp m n = 0 then Some v else akl_get_global_value s (Some m)))"
proof -
  obtain p s1 k where s1: "akl_new_symbol s (Some n) c = Some (p, s1)" "p \<noteq> 0" "tables_ok s1"
    "s1 = s\<lparr>st_next := st_next s1, st_syms := st_syms s1, ai_symbols := ai_symbols s1\<rparr>"
    "symbol_name s1 p = Some k" "case_key k = case_key n"
    "\<And>m. akl_get_symbol s1 (Some m) = (if strcasecmp m n = 0 then p else akl_get_symbol s (Some m))"
    "\<And>m. akl_get_global_value s1 (Some m) = akl_get_global_value s (Some m)"
    using new_symbol_ok [OF assms(1), of n c] by blast
  have symbols_s: "symbols_ok s" using assms(1) by (simp add: tables_ok_def)
  have t: "heap_ok s1" "symbols_ok s1" "vars_ok s1" using s1(3) by (simp_all add: tables_ok_def)
  obtain var s' where s': "akl_set_global_var s1 p desc d v = Some (var, s')" "var \<noteq> 0" "vars_ok s'"
    "\<And>m. akl_get_global_value s' (Some m) = (if strcasecmp m k = 0 then Some v else akl_get_global_value s1 (Some m))"
    using set_global_var_spec [OF t(3) s1(5,2) assms(2)] by blast
  note f = set_global_var_frame [OF s'(1)]
  have ok: "heap_ok s'"
  proof (rule heap_ok_grow [OF t(1)])
    show "st_next s1 \<le> st_next s'" using f(2) by simp
    show "heap_live s' \<subseteq> heap_live s1 \<union> {st_next s1..<st_next s'}"
      using f(2,3) by (subst f(1)) (auto simp: heap_live_def)
    show "st_vals s' x = Some V" if "st_vals s1 x = Some V" for x V using that by (subst f(1)) simp
  qed
  have y: "st_syms s' = st_syms s1" "ai_symbols s' = ai_symbols s1" by (subst f(1), simp)+
  note g = symbols_ok_cong [OF t(2) y] f(2)
  have so: "symbols_ok s'" "akl_get_symbol s' = akl_get_symbol s1" using g by simp_all
  have "s' = s\<lparr>st_next := st_next s', st_syms := st_syms s', ai_symbols := ai_symbols s', st_vars := st_vars s',
           ai_global_vars := ai_global_vars s'\<rparr>"
  proof -
    obtain m x t where e1: "s1 = s\<lparr>st_next := m, st_syms := x, ai_symbols := t\<rparr>" using s1(4) by blast
    obtain m' x' t' where e2: "s' = s1\<lparr>st_next := m', st_vars := x', ai_global_vars := t'\<rparr>" using f(1) by blast
    show ?thesis by (simp add: e2 e1)
  qed
  moreover have "st_next s \<le> st_next s'" using f(2) new_symbol_frame(2) [OF symbols_s s1(1)] by simp
  moreover have "strcasecmp m k = 0 \<longleftrightarrow> strcasecmp m n = 0" for m using s1(6) by (simp add: strcasecmp_eq)
  ultimately show ?thesis
    using set_global_variable_symbol [OF s1(1,2) assms(2)] s'(1-4) ok so s1(2,7,8)
    by - (rule exI [of _ var], rule exI [of _ s'], simp add: tables_ok_def)
qed


lemma tables_ok_cong:
  assumes "tables_ok s" "heap_ok s'" "st_syms s' = st_syms s" "ai_symbols s' = ai_symbols s" "st_vars s' = st_vars s"
    "ai_global_vars s' = ai_global_vars s" "st_next s \<le> st_next s'"
  shows "tables_ok s'" "akl_get_symbol s' = akl_get_symbol s" "akl_get_global_value s' = akl_get_global_value s"
  using assms symbols_ok_cong [of s s'] vars_ok_cong [of s s'] by (simp_all add: tables_ok_def)

subsection \<open>Declaring functions\<close>

text \<open>A name is bound to a function of the given kind and body.\<close>

definition bound_to :: "akl_state \<Rightarrow> string \<Rightarrow> akl_function_type \<Rightarrow> fn_body \<Rightarrow> bool" where
  "bound_to s n ty b \<longleftrightarrow> akl_get_symbol s (Some n) \<noteq> 0 \<and>
     (\<exists>v V f F. akl_get_global_value s (Some n) = Some v \<and> v \<noteq> 0 \<and> st_vals s v = Some V \<and> va_type V = VT_FUNCTION \<and>
        va_value V = V_func f \<and> f \<noteq> 0 \<and> st_funs s f = Some F \<and> fn_type F = ty \<and> fn_body F = b)"

lemma bound_toI:
  "akl_get_symbol s (Some n) \<noteq> 0 \<Longrightarrow> akl_get_global_value s (Some n) = Some v \<Longrightarrow> v \<noteq> 0 \<Longrightarrow> st_vals s v = Some V \<Longrightarrow>
   va_type V = VT_FUNCTION \<Longrightarrow> va_value V = V_func f \<Longrightarrow> f \<noteq> 0 \<Longrightarrow> st_funs s f = Some F \<Longrightarrow> fn_type F = ty \<Longrightarrow>
   fn_body F = b \<Longrightarrow> bound_to s n ty b"
  unfolding bound_to_def by (intro conjI exI [of _ v] exI [of _ V] exI [of _ f] exI [of _ F])

lemma bound_to_mono:
  assumes "bound_to s n ty b" "akl_get_symbol s (Some n) \<noteq> 0 \<Longrightarrow> akl_get_symbol s' (Some n) \<noteq> 0"
    "akl_get_global_value s' (Some n) = akl_get_global_value s (Some n)"
    "\<And>x V. st_vals s x = Some V \<Longrightarrow> st_vals s' x = Some V" "\<And>x F. st_funs s x = Some F \<Longrightarrow> st_funs s' x = Some F"
  shows "bound_to s' n ty b"
proof -
  obtain v V f F where o: "akl_get_symbol s (Some n) \<noteq> 0" "akl_get_global_value s (Some n) = Some v" "v \<noteq> 0"
    "st_vals s v = Some V" "va_type V = VT_FUNCTION" "va_value V = V_func f" "f \<noteq> 0" "st_funs s f = Some F"
    "fn_type F = ty" "fn_body F = b"
    using assms(1) unfolding bound_to_def by blast
  show ?thesis
    by (rule bound_toI [OF assms(2) [OF o(1)] _ o(3) assms(4) [OF o(4)] o(5-7) assms(5) [OF o(8)] o(9,10)])
      (simp only: assms(3) o(2))
qed

text \<open>What setting up the tables leaves alone.\<close>

definition setup_keeps :: "akl_state \<Rightarrow> akl_state \<Rightarrow> bool" where
  "setup_keeps s s' \<longleftrightarrow> ai_config s' = ai_config s \<and> ai_errors s' = ai_errors s \<and> ai_interrupted s' = ai_interrupted s \<and>
     st_out s' = st_out s"

lemma setup_keeps_refl [simp]: "setup_keeps s s"
  by (simp add: setup_keeps_def)

lemma setup_keeps_trans [trans]: "setup_keeps s t \<Longrightarrow> setup_keeps t u \<Longrightarrow> setup_keeps s u"
  by (simp add: setup_keeps_def)

lemma set_global_setup:
  assumes "tables_ok s" "v \<noteq> 0"
  shows "\<exists>var s'. akl_set_global_variable s (Some n) c desc d v = Some (var, s') \<and> tables_ok s' \<and> setup_keeps s s' \<and>
    st_next s \<le> st_next s' \<and> st_vals s' = st_vals s \<and> st_funs s' = st_funs s \<and> st_lists s' = st_lists s \<and> st_ents s' = st_ents s \<and> st_devs s' = st_devs s \<and>
    akl_get_symbol s' (Some n) \<noteq> 0 \<and> akl_get_global_value s' (Some n) = Some v \<and>
    (\<forall>m. akl_get_symbol s (Some m) \<noteq> 0 \<longrightarrow> akl_get_symbol s' (Some m) \<noteq> 0) \<and>
    (\<forall>m. strcasecmp m n \<noteq> 0 \<longrightarrow> akl_get_global_value s' (Some m) = akl_get_global_value s (Some m))"
proof -
  obtain var s' where s': "akl_set_global_variable s (Some n) c desc d v = Some (var, s')" "tables_ok s'"
    "s' = s\<lparr>st_next := st_next s', st_syms := st_syms s', ai_symbols := ai_symbols s', st_vars := st_vars s',
           ai_global_vars := ai_global_vars s'\<rparr>" "st_next s \<le> st_next s'"
    "\<And>m. akl_get_symbol s' (Some m) \<noteq> 0 \<longleftrightarrow> strcasecmp m n = 0 \<or> akl_get_symbol s (Some m) \<noteq> 0"
    "\<And>m. akl_get_global_value s' (Some m) = (if strcasecmp m n = 0 then Some v else akl_get_global_value s (Some m))"
    using set_global_variable_ok [OF assms, of n c desc d] by blast
  obtain a b c' d' e where e: "s' = s\<lparr>st_next := a, st_syms := b, ai_symbols := c', st_vars := d', ai_global_vars := e\<rparr>"
    using s'(3) by blast
  have f: "setup_keeps s s'" "st_vals s' = st_vals s" "st_funs s' = st_funs s" "st_lists s' = st_lists s" "st_ents s' = st_ents s"
    "st_devs s' = st_devs s"
    by (simp_all add: e setup_keeps_def)
  have "akl_get_symbol s' (Some n) \<noteq> 0" "\<forall>m. akl_get_symbol s (Some m) \<noteq> 0 \<longrightarrow> akl_get_symbol s' (Some m) \<noteq> 0"
    using s'(5) by simp_all
  moreover have "akl_get_global_value s' (Some n) = Some v"
    "\<forall>m. strcasecmp m n \<noteq> 0 \<longrightarrow> akl_get_global_value s' (Some m) = akl_get_global_value s (Some m)"
    using s'(6) by simp_all
  ultimately show ?thesis using s'(1,2,4) f by blast
qed

lemma unused_address:
  assumes "heap_ok s" "st_next s \<le> x"
  shows "st_vals s x = None" "st_funs s x = None"
proof -
  have "x \<notin> heap_live s" using assms unfolding heap_ok_def by (meson greaterThanLessThan_iff leD subsetD)
  then show "st_vals s x = None" "st_funs s x = None" by (simp_all add: heap_live_def domIff)
qed

lemma add_global_fun_ok:
  assumes "tables_ok s"
  shows "\<exists>s'. akl_add_global_fun s ty b n desc = Some s' \<and> tables_ok s' \<and> setup_keeps s s' \<and> st_lists s' = st_lists s \<and>
    bound_to s' n ty b \<and> (\<forall>m ty b. strcasecmp m n \<noteq> 0 \<longrightarrow> bound_to s m ty b \<longrightarrow> bound_to s' m ty b)"
proof -
  define f where "f = st_next s"
  define F where "F = \<lparr>fn_gc = AKL_GC_INIT_OBJ GC_FUNCTION, fn_type = FUNC_CFUN, fn_body = B_null\<rparr>"
  define V where "V = raw_value VT_FUNCTION (V_func f)"
  define s2 where "s2 = s\<lparr>st_next := f + 2, st_funs := (st_funs s)(f \<mapsto> F), st_vals := (st_vals s)(f + 1 \<mapsto> V)\<rparr>"
  have h: "heap_ok s" using assms by (simp add: tables_ok_def)
  have fr: "st_vals s (f + 1) = None" "st_funs s f = None" "f \<noteq> 0"
    using unused_address [OF h, of "f + 1"] unused_address [OF h, of f] h by (simp_all add: f_def heap_ok_def)
  have n1: "akl_new_function s = (f, s\<lparr>st_next := f + 1, st_funs := (st_funs s)(f \<mapsto> F)\<rparr>)"
    by (simp add: akl_new_function_def f_def F_def Let_def)
  have n2: "akl_new_function_value (s\<lparr>st_next := f + 1, st_funs := (st_funs s)(f \<mapsto> F)\<rparr>) f = (f + 1, s2)"
    by (simp add: akl_new_function_value_def new_value_with_def Let_def s2_def V_def)
  have old: "st_vals s2 x = Some W" if "st_vals s x = Some W" for x W using that fr by (auto simp: s2_def)
  have "heap_ok s2"
    by (rule heap_ok_grow [OF h _ _ old]) (auto simp: s2_def f_def heap_live_def split: if_splits)
  note t2 = tables_ok_cong [OF assms this]
  have t: "tables_ok s2" "akl_get_symbol s2 = akl_get_symbol s" "akl_get_global_value s2 = akl_get_global_value s"
    using t2 by (simp_all add: s2_def f_def)
  have "f + 1 \<noteq> 0" by simp
  from set_global_setup [OF t(1) this, of n True desc True]
  obtain var s3 where s3: "akl_set_global_variable s2 (Some n) True desc True (f + 1) = Some (var, s3)" "tables_ok s3"
    "setup_keeps s2 s3" "st_next s2 \<le> st_next s3" "st_vals s3 = st_vals s2" "st_funs s3 = st_funs s2" "st_lists s3 = st_lists s2"
    "st_ents s3 = st_ents s2" "st_devs s3 = st_devs s2" "akl_get_symbol s3 (Some n) \<noteq> 0" "akl_get_global_value s3 (Some n) = Some (f + 1)"
    "\<forall>m. akl_get_symbol s2 (Some m) \<noteq> 0 \<longrightarrow> akl_get_symbol s3 (Some m) \<noteq> 0"
    "\<forall>m. strcasecmp m n \<noteq> 0 \<longrightarrow> akl_get_global_value s3 (Some m) = akl_get_global_value s2 (Some m)"
    by (elim exE conjE) (rule that)
  define s4 where "s4 = s3\<lparr>st_funs := (st_funs s3)(f \<mapsto> F\<lparr>fn_type := ty, fn_body := b\<rparr>)\<rparr>"
  have F3: "st_funs s3 f = Some F" using s3(6) by (simp add: s2_def)
  have run: "akl_add_global_fun s ty b n desc = Some s4"
    unfolding akl_add_global_fun_def akl_add_global_function_def n1 Let_def prod.case n2 s3(1) by (simp add: F3 s4_def)
  have h3: "heap_ok s3" using s3(2) by (simp add: tables_ok_def)
  have "heap_ok s4"
    by (rule heap_ok_grow [OF h3]) (use F3 in \<open>auto simp: s4_def heap_live_def split: if_splits\<close>)
  note t4 = tables_ok_cong [OF s3(2) this]
  have t4: "tables_ok s4" "akl_get_symbol s4 = akl_get_symbol s3" "akl_get_global_value s4 = akl_get_global_value s3"
    using t4 by (simp_all add: s4_def)
  have f4: "st_funs s4 f = Some (F\<lparr>fn_type := ty, fn_body := b\<rparr>)" "st_vals s4 = st_vals s2" "st_lists s4 = st_lists s"
    using s3(5,7) by (simp_all add: s4_def s2_def)
  have "bound_to s4 n ty b"
  proof (rule bound_toI [OF _ _ _ _ _ _ fr(3) f4(1)])
    show "akl_get_symbol s4 (Some n) \<noteq> 0" "akl_get_global_value s4 (Some n) = Some (f + 1)" using s3(10,11) t4 by simp_all
    show "st_vals s4 (f + 1) = Some V" using f4(2) by (simp add: s2_def)
  qed (simp_all add: V_def raw_value_def)
  moreover have "bound_to s4 m ty' b'" if m: "strcasecmp m n \<noteq> 0" "bound_to s m ty' b'" for m ty' b'
  proof (rule bound_to_mono [OF m(2)])
    show "akl_get_symbol s4 (Some m) \<noteq> 0" if "akl_get_symbol s (Some m) \<noteq> 0" using s3(12) that t(2) t4(2) by simp
    show "akl_get_global_value s4 (Some m) = akl_get_global_value s (Some m)" using s3(13) m(1) t(3) t4(3) by simp
    show "st_vals s4 x = Some W" if "st_vals s x = Some W" for x W using old [OF that] f4(2) by simp
    show "st_funs s4 x = Some G" if "st_funs s x = Some G" for x G
      using that fr(2) s3(6) by (auto simp: s4_def s2_def)
  qed
  moreover have "setup_keeps s s4" using s3(3) by (simp add: setup_keeps_def s4_def s2_def)
  ultimately show ?thesis using run t4(1) f4(3) by blast
qed


fun decl_name :: "akl_fun_decl \<Rightarrow> string" where
  "decl_name (Decl_cfun fn n d) = n"
| "decl_name (Decl_sfun fn n d) = n"

fun declared :: "akl_state \<Rightarrow> akl_fun_decl \<Rightarrow> bool" where
  "declared s (Decl_cfun fn n d) = bound_to s n FUNC_CFUN (B_cfun fn)"
| "declared s (Decl_sfun fn n d) = bound_to s n FUNC_SPECIAL (B_sfun fn)"

lemma declare_functions_ok:
  assumes "tables_ok s" "distinct (map (\<lambda>d. case_key (decl_name d)) ds)"
  shows "\<exists>s'. akl_declare_functions s ds = Some s' \<and> tables_ok s' \<and> setup_keeps s s' \<and> (\<forall>d\<in>set ds. declared s' d) \<and>
    (\<forall>n ty b. case_key n \<notin> (\<lambda>d. case_key (decl_name d)) ` set ds \<longrightarrow> bound_to s n ty b \<longrightarrow> bound_to s' n ty b)"
  using assms
proof (induction ds arbitrary: s)
  case (Cons d ds)
  define ty where "ty = (case d of Decl_cfun fn n e \<Rightarrow> FUNC_CFUN | Decl_sfun fn n e \<Rightarrow> FUNC_SPECIAL)"
  define b where "b = (case d of Decl_cfun fn n e \<Rightarrow> B_cfun fn | Decl_sfun fn n e \<Rightarrow> B_sfun fn)"
  define e where "e = (case d of Decl_cfun fn n e \<Rightarrow> e | Decl_sfun fn n e \<Rightarrow> e)"
  let ?n = "decl_name d"
  obtain s1 where s1: "akl_add_global_fun s ty b ?n e = Some s1" "tables_ok s1" "setup_keeps s s1" "bound_to s1 ?n ty b"
    "\<forall>m ty b. strcasecmp m ?n \<noteq> 0 \<longrightarrow> bound_to s m ty b \<longrightarrow> bound_to s1 m ty b"
    using add_global_fun_ok [OF Cons.prems(1), of ty b ?n e] by (elim exE conjE) (rule that)
  have "distinct (map (\<lambda>d. case_key (decl_name d)) ds)" using Cons.prems(2) by simp
  from Cons.IH [OF s1(2) this]
  obtain s' where s': "akl_declare_functions s1 ds = Some s'" "tables_ok s'" "setup_keeps s1 s'" "\<forall>d\<in>set ds. declared s' d"
    "\<forall>n ty b. case_key n \<notin> (\<lambda>d. case_key (decl_name d)) ` set ds \<longrightarrow> bound_to s1 n ty b \<longrightarrow> bound_to s' n ty b"
    by (elim exE conjE) (rule that)
  have run: "akl_declare_functions s (d # ds) = Some s'"
    using s1(1) s'(1) by (cases d) (simp_all add: ty_def b_def e_def akl_add_global_cfun_def akl_add_global_sfun_def)
  have "case_key ?n \<notin> (\<lambda>d. case_key (decl_name d)) ` set ds" using Cons.prems(2) by auto
  then have "bound_to s' ?n ty b" using s'(5) s1(4) by blast
  then have "declared s' d" by (cases d) (simp_all add: ty_def b_def)
  moreover have "bound_to s' n ty b" if "case_key n \<notin> (\<lambda>d. case_key (decl_name d)) ` set (d # ds)" "bound_to s n ty b" for n ty b
    using that s1(5) s'(5) by (simp add: strcasecmp_eq)
  ultimately show ?case using run s'(2,4) setup_keeps_trans [OF s1(3) s'(3)]
    by (intro exI [of _ s'] conjI) simp_all
qed simp

subsection \<open>The start\<close>

text \<open>All declarations, in the order of the start.\<close>

definition library_funs :: "akl_fun_decl list" where
  "library_funs = akl_basic_funs @ akl_debug_funs @ akl_io_funs @ akl_module_funs @ akl_sys_funs @ akl_spec_forms"

lemma declare_append: "akl_declare_functions s (ds @ es) = do { s \<leftarrow> akl_declare_functions s ds; akl_declare_functions s es }"
  by (induction s ds rule: akl_declare_functions.induct) (simp_all add: Option.bind_assoc cong: Option.bind_cong)

lemma lib_all: "AKL_LIB_ALL AND AKL_LIB_BASIC \<noteq> 0" "AKL_LIB_ALL AND AKL_LIB_FILE \<noteq> 0" "AKL_LIB_ALL AND AKL_LIB_SYSTEM \<noteq> 0"
  by (simp_all add: AKL_LIB_ALL_def AKL_LIB_BASIC_def AKL_LIB_FILE_def AKL_LIB_SYSTEM_def)

lemma init_library_all:
  "akl_init_library s AKL_LIB_ALL = do { s \<leftarrow> akl_declare_functions s library_funs; Some (akl_define_mod_path s) }"
  by (simp add: akl_init_library_def lib_all library_funs_def declare_append akl_spec_library_init_def Option.bind_assoc)

lemmas library_tables = library_funs_def akl_basic_funs_def akl_debug_funs_def akl_io_funs_def akl_module_funs_def
  akl_sys_funs_def akl_spec_forms_def

lemma library_names: "distinct (map (\<lambda>d. case_key (decl_name d)) library_funs)"
proof -
  have low: "list_all (\<lambda>c. \<not> is_upper c) n \<Longrightarrow> case_key n = str_key n" for n
    by (simp add: case_key_def str_key_def tolower_def list_all_iff)
  have "list_all (list_all (\<lambda>c. \<not> is_upper c)) (map decl_name library_funs)"
    by (simp add: library_tables is_upper_def)
  then have "map (\<lambda>d. case_key (decl_name d)) library_funs = map str_key (map decl_name library_funs)"
    by (simp add: list_all_iff low)
  moreover have "distinct (map decl_name library_funs)" by (simp add: library_tables)
  moreover have "inj str_key" by (rule injI) (simp add: str_key_def inj_map_eq_map inj_def)
  ultimately show ?thesis by (simp only: distinct_map) (simp add: inj_on_def inj_def)
qed

lemma init_tables: "tables_ok (akl_init_state c)"
  by (auto simp: tables_ok_def heap_ok_def heap_live_def symbols_ok_def vars_ok_def name_tree_def akl_init_state_def rb_shape_def
      by_name.ordered_def NIL_ADDR_def TRUE_ADDR_def split: if_splits)

lemma mod_path_ok:
  assumes "tables_ok s"
  shows "tables_ok (akl_define_mod_path s)" "bound_to (akl_define_mod_path s) n ty b = bound_to s n ty b"
    "setup_keeps s (akl_define_mod_path s)"
proof -
  let ?s = "akl_define_mod_path s"
  have e: "?s = s\<lparr>st_next := st_next s + 1, st_lists := (st_lists s)(st_next s \<mapsto> empty_list)\<rparr>" if "st_next s \<noteq> 0"
    using that by (simp add: akl_define_mod_path_def akl_new_list_def akl_init_list_def Let_def)
  have h: "heap_ok s" "st_next s \<noteq> 0" using assms by (simp_all add: tables_ok_def heap_ok_def)
  have "heap_ok ?s"
    by (rule heap_ok_grow [OF h(1)]) (auto simp: e [OF h(2)] heap_live_def split: if_splits)
  note t = tables_ok_cong [OF assms this]
  show "tables_ok ?s" using t(1) by (simp add: e [OF h(2)])
  have g: "akl_get_symbol ?s = akl_get_symbol s" "akl_get_global_value ?s = akl_get_global_value s"
    using t(2,3) by (simp_all add: e [OF h(2)])
  show "bound_to ?s n ty b = bound_to s n ty b" unfolding bound_to_def g by (simp add: e [OF h(2)])
  show "setup_keeps s ?s" by (simp add: e [OF h(2)] setup_keeps_def)
qed

lemma start_state:
  "\<exists>s. init_aklisp = Some s \<and> tables_ok s \<and> ai_errors s = 0 \<and> \<not> ai_interrupted s \<and> st_out s = [] \<and>
     ai_config s = AKL_CFG_USE_COLORS \<and> (\<forall>d\<in>set library_funs. declared s d)"
proof -
  let ?s0 = "akl_init_state 0"
  obtain s1 where s1: "akl_declare_functions ?s0 library_funs = Some s1" "tables_ok s1" "setup_keeps ?s0 s1"
    "\<forall>d\<in>set library_funs. declared s1 d"
    using declare_functions_ok [OF init_tables library_names, of 0] by blast
  note m = mod_path_ok [OF s1(2)]
  have "declared (akl_define_mod_path s1) d = declared s1 d" for d by (cases d) (simp_all add: m(2))
  then have "\<forall>d\<in>set library_funs. declared (akl_define_mod_path s1) d" using s1(4) by simp
  moreover have "setup_keeps ?s0 (akl_define_mod_path s1)" by (rule setup_keeps_trans [OF s1(3) m(3)])
  moreover have "init_aklisp = Some (akl_define_mod_path s1)" by (simp add: init_aklisp_def init_library_all s1(1))
  ultimately show ?thesis
    using m(1) by (intro exI [of _ "akl_define_mod_path s1"])
      (simp add: setup_keeps_def akl_init_state_def AKL_CFG_USE_COLORS_def AKL_CFG_USE_GC_def)
qed

text \<open>
  C12. The interpreter starts. \<open>init_aklisp\<close> ends without undefined behaviour in a state whose
  heap, symbol table and variable table are well-formed, with nothing reported, printed or
  interrupted, of the features only the colours on, and every function of the tables of
  the library and every special form bound to its name.
\<close>

theorem interpreter_starts:
  "\<exists>s. init_aklisp = Some s \<and> heap_ok s \<and> symbols_ok s \<and> vars_ok s \<and> ai_errors s = 0 \<and> \<not> ai_interrupted s \<and> st_out s = [] \<and>
     ai_config s = AKL_CFG_USE_COLORS \<and>
     list_all (declared s) (akl_basic_funs @ akl_debug_funs @ akl_io_funs @ akl_module_funs @ akl_sys_funs @ akl_spec_forms)"
  using start_state by (auto simp: tables_ok_def library_funs_def list_all_iff)

end
