(* ===== verification/Shell.thy ===== *)
theory Shell
  imports Machine "HOL-Library.Sublist"
begin

unbundle bit_operations_syntax

text \<open>
  The program \<open>aklisp\<close>, \<open>src/main.c\<close>: completion and the key bindings of the line editor, the
  options of the command line, the interactive loop and \<open>main\<close>. The editor itself (GNU
  readline), the lines the user types and the file system are parameters. A process that
  ends through a failed \<open>assert\<close> has no result, like undefined behaviour.
\<close>

subsection \<open>Completion\<close>

text \<open>\<open>strncasecmp\<close> compares at most \<open>n\<close> characters.\<close>

definition strncasecmp :: "string \<Rightarrow> string \<Rightarrow> nat \<Rightarrow> int" where
  "strncasecmp a b n = strcasecmp (take n a) (take n b)"

type_synonym cursor = "(addr rb_tree \<times> addr crumb list) option"

fun cursor_elm :: "addr rb_tree \<times> addr crumb list \<Rightarrow> addr" where
  "cursor_elm (RB_NODE x c l r, path) = x"
| "cursor_elm (RB_NULL, path) = 0"

fun cursor_left :: "cursor \<Rightarrow> nat" where
  "cursor_left None = 0"
| "cursor_left (Some p) = Suc (length (rest p))"

lemma cursor_next: "p = (RB_NODE x c l r, path) \<Longrightarrow> cursor_left (RB_NEXT p) < cursor_left (Some p)"
  using RB_NEXT_rest [of x c l r path] by (auto simp del: RB_NEXT.simps rest.simps split: option.splits)

text \<open>
  The loop of both generators over a tree of entries with names: the name is copied with
  \<open>strdup\<close>; an entry without one is undefined. The static variables of a generator are the
  cursor and the length of the text.
\<close>

function generator_loop :: "(addr \<Rightarrow> string option) \<Rightarrow> string \<Rightarrow> nat \<Rightarrow> cursor \<Rightarrow> (string option \<times> cursor) option" where
  "generator_loop nm txt tlen None = Some (None, None)"
| "generator_loop nm txt tlen (Some (RB_NULL, path)) = None"
| "generator_loop nm txt tlen (Some (RB_NODE x c l r, path)) =
     do {
       n \<leftarrow> nm x;
       (if strncasecmp n txt tlen = 0 then Some (Some n, Some (RB_NODE x c l r, path))
        else generator_loop nm txt tlen (RB_NEXT (RB_NODE x c l r, path)))
     }"
  by pat_completeness auto
termination
  by (relation "measure (\<lambda>(nm, txt, tlen, q). cursor_left q)")
    (simp, simp only: in_measure prod.case, rule cursor_next [OF refl])

type_synonym generator = "cursor \<times> nat"

definition generator_step ::
    "(addr \<Rightarrow> string option) \<Rightarrow> addr rb_tree \<Rightarrow> string \<Rightarrow> bool \<Rightarrow> generator \<Rightarrow> (string option \<times> generator) option" where
  "generator_step nm tree txt st g =
     do {
       (cur, tlen) \<leftarrow> (if \<not> st then Some (RB_MINMAX True tree [], length txt)
                      else case fst g of None \<Rightarrow> None | Some p \<Rightarrow> Some (RB_NEXT p, snd g));
       (res, cur) \<leftarrow> generator_loop nm txt tlen cur;
       Some (res, (cur, tlen))
     }"

definition akl_symbol_generator :: "akl_state \<Rightarrow> string \<Rightarrow> bool \<Rightarrow> generator \<Rightarrow> (string option \<times> generator) option" where
  "akl_symbol_generator s = generator_step (symbol_name s) (ai_symbols s)"

definition akl_var_generator :: "akl_state \<Rightarrow> string \<Rightarrow> bool \<Rightarrow> generator \<Rightarrow> (string option \<times> generator) option" where
  "akl_var_generator s = generator_step (variable_name s) (ai_global_vars s)"

text \<open>
  \<open>rl_completion_matches\<close> is a parameter. The character before the word decides; at the start
  of the line it is read from before the buffer.
\<close>

definition akl_completion ::
    "akl_state \<Rightarrow> (string \<Rightarrow> (string \<Rightarrow> bool \<Rightarrow> generator \<Rightarrow> (string option \<times> generator) option) \<Rightarrow> 'm) \<Rightarrow>
     string \<Rightarrow> string \<Rightarrow> nat \<Rightarrow> 'm option" where
  "akl_completion s rl_completion_matches rl_line_buffer txt start =
     (if start = 0 \<or> length rl_line_buffer < start then None
      else if rl_line_buffer ! (start - 1) = CHR '':''
      then Some (rl_completion_matches txt (akl_symbol_generator s))
      else Some (rl_completion_matches txt (akl_var_generator s)))"

subsection \<open>Key bindings\<close>

record rl_line =
  rl_line_buffer :: string
  rl_point :: nat

record rl_editor =
  rl_insert_text :: "string \<Rightarrow> rl_line \<Rightarrow> rl_line"
  rl_backward_char :: "nat \<Rightarrow> rl_line \<Rightarrow> rl_line"
  rl_delete_text :: "nat \<Rightarrow> nat \<Rightarrow> rl_line \<Rightarrow> rl_line"

definition akl_insert_rbrace :: "rl_editor \<Rightarrow> rl_line \<Rightarrow> rl_line" where
  "akl_insert_rbrace rl line = rl_backward_char rl 1 (rl_insert_text rl ''()'' line)"

definition akl_insert_strterm :: "rl_editor \<Rightarrow> rl_line \<Rightarrow> rl_line" where
  "akl_insert_strterm rl line = rl_backward_char rl 1 (rl_insert_text rl [CHR 0x22, CHR 0x22] line)"

text \<open>Reading behind the NUL at the end of the line is undefined. The message is not modelled.\<close>

definition line_char :: "rl_line \<Rightarrow> nat \<Rightarrow> char option" where
  "line_char line i =
     (if i < length (rl_line_buffer line) then Some (rl_line_buffer line ! i)
      else if i = length (rl_line_buffer line) then Some NUL else None)"

definition akl_char_delete :: "rl_editor \<Rightarrow> rl_line \<Rightarrow> rl_line option" where
  "akl_char_delete rl line =
     do {
       cch \<leftarrow> line_char line (rl_point line);
       nch \<leftarrow> line_char line (rl_point line + 1);
       Some (if cch = CHR ''('' \<and> nch = CHR '')'' \<or> cch = CHR 0x22 \<and> nch = cch
             then rl_delete_text rl (rl_point line) (rl_point line + 1) line else line)
     }"

text \<open>
  \<open>readline\<close> when the library is missing: the static buffer of 256 characters is not emptied
  between the calls, and the NUL behind a 256th character is written after its end. At the end
  of the input \<open>getchar\<close> gives \<open>EOF\<close>, stored as the character 255, again and again.
\<close>

definition INPUT_BUFSIZE :: nat where "INPUT_BUFSIZE = 256"

definition getchar :: "string \<Rightarrow> char \<times> string" where
  "getchar inp = (case inp of [] \<Rightarrow> (CHR 0xFF, []) | c # cs \<Rightarrow> (c, cs))"

fun readline_loop :: "nat \<Rightarrow> string \<Rightarrow> string \<Rightarrow> nat \<Rightarrow> (string \<times> string) option" where
  "readline_loop 0 inp buf ind = None"
| "readline_loop (Suc n) inp buf ind =
     (let (ch, inp) = getchar inp in
      if ch = CHR 0x0A \<or> INPUT_BUFSIZE \<le> ind then Some (buf, inp)
      else if ind + 1 = INPUT_BUFSIZE then None
      else readline_loop n inp (take ind buf @ [ch]) (ind + 1))"

definition readline :: "akl_state \<Rightarrow> string \<Rightarrow> string \<Rightarrow> string \<Rightarrow> (string \<times> string \<times> akl_state) option" where
  "readline s prompt inp buf =
     do { (line, inp) \<leftarrow> readline_loop (INPUT_BUFSIZE + 1) inp buf 0; Some (line, inp, out_text s prompt) }"

subsection \<open>The interactive mode\<close>

definition PROMPT_MAX :: nat where "PROMPT_MAX = 10"

text \<open>\<open>snprintf\<close> cuts the prompt: from line 100000 on it has no blank.\<close>

definition prompt_text :: "int \<Rightarrow> string" where
  "prompt_text lnum = take (PROMPT_MAX - 1) (''['' @ show_int lnum @ '']> '')"

definition banner :: string where
  "banner = ''Interactive AkLisp version '' @ show_int 0 @ ''.'' @ show_int 2 @ ''-prealpha'' @ NEWLINE @
     ''Copyleft (C) 2017 Akos Kovacs'' @ NEWLINE @ NEWLINE"

definition good_bye :: string where "good_bye = ''Bye!'' @ NEWLINE"

text \<open>
  The lines are those the user types before the end of the input, when \<open>readline\<close> returns NULL;
  it writes the prompt. The history is not modelled. The number of the line must stay an
  \<open>int\<close>.
\<close>

fun interactive_loop ::
    "ext_fn \<Rightarrow> nat \<Rightarrow> akl_io_device \<Rightarrow> bool \<Rightarrow> string list \<Rightarrow> int \<Rightarrow> akl_state \<Rightarrow> (string \<times> akl_state) option" where
  "interactive_loop ext n junk peval [] lnum s = Some ([], out_text (out_text s (prompt_text lnum)) good_bye)"
| "interactive_loop ext n junk peval (line # ls) lnum s =
     (let s = out_text s (prompt_text lnum) in
      if strcmp line ''exit'' = 0 then Some ([], out_text s good_bye)
      else do {
        (err, s) \<leftarrow> (if line \<noteq> []
                    then do {
                      let (dev, s) = akl_new_string_device junk s (Some ''stdio'') line;
                      (err, s) \<leftarrow> eval_dev ext n peval s dev;
                      Some (err, out_text s NEWLINE)
                    }
                    else Some ([], s));
        (if lnum = 2147483647 then None
         else do {
           (err', s) \<leftarrow> interactive_loop ext n junk peval ls (lnum + 1) s;
           Some (err @ err', s)
         })
      })"

definition set_feature :: "akl_state \<Rightarrow> 64 word \<Rightarrow> akl_state" where
  "set_feature s f = s\<lparr>ai_config := ai_config s OR f\<rparr>"

definition unset_feature :: "akl_state \<Rightarrow> 64 word \<Rightarrow> akl_state" where
  "unset_feature s f = s\<lparr>ai_config := ai_config s AND NOT f\<rparr>"

definition interactive_mode ::
    "ext_fn \<Rightarrow> nat \<Rightarrow> akl_io_device \<Rightarrow> bool \<Rightarrow> string list \<Rightarrow> akl_state \<Rightarrow> (string \<times> akl_state) option" where
  "interactive_mode ext n junk peval ls s =
     interactive_loop ext n junk peval ls 1 (set_feature (out_text s banner) AKL_CFG_INTERACTIVE)"

subsection \<open>Options\<close>

datatype option_arg = no_argument | required_argument
datatype option_flag = no_color_flag | eval_flag | peval_flag | compile_flag | force_interact_flag

text \<open>The values of the options; the flag a long option sets instead of being returned.\<close>

definition akl_options :: "(string \<times> option_arg \<times> option_flag option \<times> int) list" where
  "akl_options =
     [(''assemble'', no_argument, None, char_to_int CHR ''a''),
      (''compile'', no_argument, Some compile_flag, char_to_int CHR ''c''),
      (''define'', no_argument, None, char_to_int CHR ''D''),
      (''debug'', no_argument, None, char_to_int CHR ''d''),
      (''eval'', required_argument, Some eval_flag, char_to_int CHR ''e''),
      (''peval'', required_argument, Some peval_flag, char_to_int CHR ''E''),
      (''interactive'', no_argument, Some force_interact_flag, char_to_int CHR ''i''),
      (''config'', required_argument, None, char_to_int CHR ''C''),
      (''no-colors'', no_argument, Some no_color_flag, 1),
      (''help'', no_argument, None, char_to_int CHR ''h''),
      (''version'', no_argument, None, char_to_int CHR ''v'')]"

definition akl_option_desc :: "string list" where
  "akl_option_desc =
     [''Compile an AkLisp assembly file'', ''Compile an AkLisp program to bytecode'',
      ''Define a variable from command-line'', ''Set self debugging on (stack and instructions)'',
      ''Evaluate a command-line expression'', ''Evaluate a command-line expression and print the result'',
      ''Force interactive mode'', ''Pass configuration setting to akl-cfg!'', ''Disable colors'',
      ''This help message'', ''Print the version number'']"

text \<open>The loop of \<open>print_help\<close> stops one entry early: \<open>version\<close> is not listed.\<close>

fun help_lines :: "(string \<times> option_arg \<times> option_flag option \<times> int) list \<Rightarrow> string list \<Rightarrow> string" where
  "help_lines ((name, a, f, val) # o2 # os) (desc # ds) =
     (if val \<noteq> 1
      then TAB @ ''--'' @ pad_right 10 name @ TAB @ ''-'' @ [int_to_char val] @ TAB @ desc @ NEWLINE
      else TAB @ ''--'' @ pad_right 15 name @ TAB @ desc @ NEWLINE) @ help_lines (o2 # os) ds"
| "help_lines os ds = []"

definition print_help :: "akl_state \<Rightarrow> akl_state" where
  "print_help s = out_text s (''Usage: aklisp [options] [files] [args]'' @ NEWLINE @ help_lines akl_options akl_option_desc)"


text \<open>
  An option as the command line has it, with its argument if there is one. \<open>getopt_long\<close> gives
  the character or value of the option, its argument, and the flag it sets; 63 is the question
  mark of an error, whose message is not modelled. A long name may be abbreviated.
\<close>

datatype cmd_option = Opt_short char "string option" | Opt_long string "string option"

definition short_options :: "(char \<times> option_arg) list" where
  "short_options =
     [(CHR ''a'', no_argument), (CHR ''D'', required_argument), (CHR ''d'', no_argument), (CHR ''C'', required_argument),
      (CHR ''e'', required_argument), (CHR ''E'', required_argument), (CHR ''c'', no_argument),
      (CHR ''h'', no_argument), (CHR ''i'', no_argument), (CHR ''v'', no_argument)]"

definition arg_ok :: "option_arg \<Rightarrow> string option \<Rightarrow> bool" where
  "arg_ok a t \<longleftrightarrow> (a = required_argument) = (t \<noteq> None)"

definition long_option :: "string \<Rightarrow> (string \<times> option_arg \<times> option_flag option \<times> int) option" where
  "long_option name =
     (case find (\<lambda>opt. fst opt = name) akl_options of Some opt \<Rightarrow> Some opt
      | None \<Rightarrow> (case filter (\<lambda>opt. prefix name (fst opt)) akl_options of [opt] \<Rightarrow> Some opt | _ \<Rightarrow> None))"

fun getopt_long :: "cmd_option \<Rightarrow> int \<times> string option \<times> (option_flag \<times> int) option" where
  "getopt_long (Opt_short c t) =
     (case map_of short_options c of None \<Rightarrow> (63, None, None)
      | Some a \<Rightarrow> if arg_ok a t then (char_to_int c, t, None) else (63, None, None))"
| "getopt_long (Opt_long name t) =
     (case long_option name of None \<Rightarrow> (63, None, None)
      | Some (nm, a, flag, val) \<Rightarrow>
          if \<not> arg_ok a t then (63, None, None)
          else case flag of None \<Rightarrow> (val, t, None) | Some f \<Rightarrow> (0, t, Some (f, val)))"

subsection \<open>Definitions on the command line\<close>

text \<open>
  The buffers \<open>var\<close> and \<open>value\<close> are static, and neither \<open>akl_new_symbol\<close> nor
  \<open>akl_new_string_value\<close> copies its argument: the symbols and the values made here point into
  the buffers, and change with them. \<open>+-*\<close> in the set of characters is no range, as the codes
  go down: the three characters themselves.
\<close>

record define_buffers =
  db_symbols :: "addr list"
  db_values :: "addr list"

definition is_letter :: "char \<Rightarrow> bool" where "is_letter c \<longleftrightarrow> is_upper c \<or> is_lower c"

definition in_name :: "char \<Rightarrow> bool" where
  "in_name c \<longleftrightarrow> is_letter c \<or> c \<in> {CHR ''_'', CHR ''+'', CHR ''-'', CHR ''*''}"

definition in_value :: "char \<Rightarrow> bool" where
  "in_value c \<longleftrightarrow> is_letter c \<or> is_digit c \<or> c = CHR '' ''"

definition scan_define :: "string \<Rightarrow> string \<times> string" where
  "scan_define t =
     (let v = take 63 (takeWhile in_name t) in
      if v = [] then ([], [])
      else case drop (length v) t of [] \<Rightarrow> (v, [])
        | c # r \<Rightarrow> (v, if c = CHR ''='' then take 63 (takeWhile in_value r) else []))"

definition write_buffers :: "akl_state \<Rightarrow> define_buffers \<Rightarrow> string \<Rightarrow> string \<Rightarrow> akl_state" where
  "write_buffers s B v w =
     s\<lparr>st_syms := (\<lambda>x. if x \<in> set (db_symbols B) then map_option (\<lambda>S. S\<lparr>sb_name := Some v\<rparr>) (st_syms s x) else st_syms s x),
       st_vals := (\<lambda>x. if x \<in> set (db_values B) then map_option (\<lambda>V. V\<lparr>va_value := V_string (Some w)\<rparr>) (st_vals s x)
                       else st_vals s x)\<rparr>"

definition cmd_parse_define :: "akl_state \<Rightarrow> define_buffers \<Rightarrow> string option \<Rightarrow> (define_buffers \<times> akl_state) option" where
  "cmd_parse_define s B opt =
     do {
       t \<leftarrow> opt;
       let (v, w) = scan_define t;
       let s = write_buffers s B v w;
       let new = (akl_get_symbol s (Some v) = 0);
       let (val, s) = akl_new_string_value s (Some w);
       (var, s) \<leftarrow> akl_set_global_variable s (Some v) False None False val;
       let B = \<lparr>db_symbols = (if new then akl_get_symbol s (Some v) # db_symbols B else db_symbols B),
                db_values = val # db_values B\<rparr>;
       Some (B, out_text s (''define '' @ v @ '' as '' @ w @ NEWLINE))
     }"

subsection \<open>The main function\<close>

record main_vars =
  mv_flags :: "option_flag \<Rightarrow> int"
  mv_eval_arg :: "string option"
  mv_buffers :: define_buffers

text \<open>The loop over the options; the first component is the exit code if the program ends there.\<close>

definition option_step :: "cmd_option \<Rightarrow> main_vars \<Rightarrow> akl_state \<Rightarrow> (int option \<times> main_vars \<times> akl_state) option" where
  "option_step opt M s =
     (let (c, optarg, flag) = getopt_long opt;
          M = (case flag of None \<Rightarrow> M | Some (f, val) \<Rightarrow> M\<lparr>mv_flags := (mv_flags M)(f := val)\<rparr>);
          s = (if mv_flags M no_color_flag \<noteq> 0 then unset_feature s AKL_CFG_USE_COLORS else s) in
      if c = char_to_int CHR ''a'' then Some (Some 0, M, out_text s (''Assembling'' @ NEWLINE))
      else if c = char_to_int CHR ''h'' then Some (Some 0, M, print_help s)
      else if c = char_to_int CHR ''E''
      then Some (None, M\<lparr>mv_flags := (mv_flags M)(peval_flag := 1), mv_eval_arg := optarg\<rparr>, s)
      else if c = char_to_int CHR ''e'' then Some (None, M\<lparr>mv_eval_arg := optarg\<rparr>, s)
      else if c = char_to_int CHR ''v''
      then Some (Some 0, M, out_text s (''AkLisp v'' @ show_int 0 @ ''.'' @ show_int 2 @ ''-prealpha'' @ NEWLINE))
      else if c = char_to_int CHR ''D''
      then do { (B, s) \<leftarrow> cmd_parse_define s (mv_buffers M) optarg; Some (None, M\<lparr>mv_buffers := B\<rparr>, s) }
      else if c = char_to_int CHR ''C'' then Some (None, M, snd (akl_set_feature s optarg))
      else if c = char_to_int CHR ''d'' then Some (None, M, set_feature (set_feature s AKL_DEBUG_INSTR) AKL_DEBUG_STACK)
      else Some (None, M, s))"

fun option_loop :: "cmd_option list \<Rightarrow> main_vars \<Rightarrow> akl_state \<Rightarrow> (int option \<times> main_vars \<times> akl_state) option" where
  "option_loop [] M s = Some (None, M, s)"
| "option_loop (opt # opts) M s =
     do {
       (ret, M, s) \<leftarrow> option_step opt M s;
       (case ret of Some c \<Rightarrow> Some (Some c, M, s) | None \<Rightarrow> option_loop opts M s)
     }"

fun append_args :: "akl_state \<Rightarrow> addr \<Rightarrow> string list \<Rightarrow> akl_state option" where
  "append_args s args [] = Some s"
| "append_args s args (a # as) =
     do {
       let (v, s) = akl_new_string_value s (Some a);
       (ent, s) \<leftarrow> akl_list_append_value s args v;
       append_args s args as
     }"

text \<open>The variables \<open>*args*\<close> and \<open>*argc*\<close>.\<close>

definition set_args :: "akl_state \<Rightarrow> addr \<Rightarrow> string list \<Rightarrow> akl_state option" where
  "set_args s args operands =
     do {
       s \<leftarrow> append_args s args operands;
       k \<leftarrow> akl_list_count s args;
       (args_value, s) \<leftarrow> (if k > 0 then akl_new_list_value s args else Some (NIL_ADDR, s));
       (var, s) \<leftarrow> akl_set_global_variable s (Some ''*args*'') True (Some ''The list of command-line arguments'') True args_value;
       let (argc_value, s) = akl_new_number_value s (dbl_of_int (uint k));
       (var, s) \<leftarrow> akl_set_global_variable s (Some ''*argc*'') True
         (Some (''Count of the command-line arguments '' @ [CHR 0x27] @ ''(length *args*)'' @ [CHR 0x27])) True argc_value;
       Some s
     }"

text \<open>The device: the argument of \<open>-e\<close>, or the first operand as a file; \<open>Inl\<close> when it cannot be opened.\<close>

definition open_input ::
    "akl_io_device \<Rightarrow> (string \<Rightarrow> string option) \<Rightarrow> akl_state \<Rightarrow> string option \<Rightarrow> string option \<Rightarrow>
     string + (addr \<times> addr \<times> akl_state)" where
  "open_input junk fopen s eval_arg fname =
     (case eval_arg of
        Some t \<Rightarrow> let (dev, s) = akl_new_string_device junk s (Some ''eval'') t in Inr (dev, NIL_ADDR, s)
      | None \<Rightarrow> (case fname of
          None \<Rightarrow> Inr (0, NIL_ADDR, s)
        | Some f \<Rightarrow> (case fopen f of
            None \<Rightarrow> Inl (''ERROR: Cannot open file '' @ f @ ''!'' @ NEWLINE)
          | Some t \<Rightarrow> let (dev, s) = akl_new_file_device junk s (Some f) t; (v, s) = akl_new_string_value s (Some f) in
              Inr (dev, v, s))))"

text \<open>What follows the options: \<open>fopen\<close> gives the contents of a file, \<open>ls\<close> are the lines of the standard input.\<close>

definition main_input ::
    "ext_fn \<Rightarrow> nat \<Rightarrow> akl_io_device \<Rightarrow> (string \<Rightarrow> string option) \<Rightarrow> string list \<Rightarrow> string list \<Rightarrow> addr \<Rightarrow>
     string option \<Rightarrow> bool \<Rightarrow> akl_state \<Rightarrow> (int \<times> string \<times> akl_state) option" where
  "main_input ext n junk fopen ls operands args eval_arg peval s =
     do {
       s \<leftarrow> set_args s args operands;
       (case open_input junk fopen s eval_arg (if operands = [] then None else Some (hd operands)) of
          Inl msg \<Rightarrow> Some (- 1, msg, s)
        | Inr (dev, file_value, s) \<Rightarrow> do {
            (var, s) \<leftarrow> akl_set_global_variable s (Some ''*file*'') True (Some ''The current file'') True file_value;
            (err, s) \<leftarrow> (if dev \<noteq> 0 then eval_dev ext n peval (unset_feature s AKL_CFG_INTERACTIVE) dev
                        else interactive_mode ext n junk peval ls s);
            Some (0, err, s)
          })
     }"

text \<open>
  \<open>main\<close>, from the options and the operands of the command line: the exit code, the standard
  error output and the state. The local list \<open>args\<close> gets an address of its own.
\<close>

definition start_vars :: main_vars where
  "start_vars = \<lparr>mv_flags = (\<lambda>f. 0), mv_eval_arg = None, mv_buffers = \<lparr>db_symbols = [], db_values = []\<rparr>\<rparr>"

definition run_main ::
    "ext_fn \<Rightarrow> nat \<Rightarrow> akl_io_device \<Rightarrow> (string \<Rightarrow> string option) \<Rightarrow> string list \<Rightarrow> cmd_option list \<Rightarrow> string list \<Rightarrow>
     (int \<times> string \<times> akl_state) option" where
  "run_main ext n junk fopen ls opts operands =
     do {
       s \<leftarrow> init_aklisp;
       let (args, s) = akl_new_list s;
       (ret, M, s) \<leftarrow> option_loop opts start_vars s;
       (case ret of Some c \<Rightarrow> Some (c, [], s)
        | None \<Rightarrow> main_input ext n junk fopen ls operands args (mv_eval_arg M) (mv_flags M peval_flag \<noteq> 0) s)
     }"

subsection \<open>What completion offers\<close>

text \<open>The entries from a cursor on.\<close>

fun ahead :: "cursor \<Rightarrow> addr list" where
  "ahead None = []"
| "ahead (Some p) = cursor_elm p # rest p"

definition on_node :: "cursor \<Rightarrow> bool" where
  "on_node q \<longleftrightarrow> (\<forall>path. q \<noteq> Some (RB_NULL, path))"

lemma on_node_cases:
  assumes "on_node q" obtains "q = None" | x c l r path where "q = Some (RB_NODE x c l r, path)"
  using assms by (cases q) (auto simp: on_node_def, metis rb_tree.exhaust)

lemma next_ahead: "on_node (RB_NEXT (RB_NODE x c l r, path)) \<and> ahead (RB_NEXT (RB_NODE x c l r, path)) = rest (RB_NODE x c l r, path)"
  using RB_NEXT_rest [of x c l r path]
  by (auto simp: on_node_def simp del: RB_NEXT.simps rest.simps split: option.splits)

lemma min_ahead: "on_node (RB_MINMAX True t []) \<and> ahead (RB_MINMAX True t []) = rb_inorder t"
proof (cases "t = RB_NULL")
  case False
  obtain x c l r p where m: "RB_MINMAX True t [] = Some (RB_NODE x c l r, p)" "rb_inorder t @ after [] = x # rest (RB_NODE x c l r, p)"
    using rb_min_rest [OF False, of "[]"] by blast
  then show ?thesis by (simp add: on_node_def del: rest.simps)
qed (simp add: on_node_def)

definition completes :: "string \<Rightarrow> string \<Rightarrow> bool" where
  "completes txt n \<longleftrightarrow> prefix (case_key txt) (case_key n)"

lemma strncasecmp_prefix: "strncasecmp n txt (length txt) = 0 \<longleftrightarrow> completes txt n"
proof -
  have "strncasecmp n txt (length txt) = 0 \<longleftrightarrow> take (length (case_key txt)) (case_key n) = case_key txt"
    by (simp add: strncasecmp_def strcasecmp_eq case_key_def take_map)
  then show ?thesis by (metis completes_def append_eq_conv_conj prefix_def)
qed

lemma generator_loop_ok:
  assumes "on_node q" "\<forall>x\<in>set (ahead q). nm x \<noteq> None"
  shows "case dropWhile (\<lambda>x. \<not> completes txt (the (nm x))) (ahead q) of
      [] \<Rightarrow> generator_loop nm txt (length txt) q = Some (None, None)
    | x # xs \<Rightarrow> \<exists>p. generator_loop nm txt (length txt) q = Some (nm x, Some p) \<and> on_node (Some p) \<and> rest p = xs"
  using assms
proof (induction "cursor_left q" arbitrary: q rule: less_induct)
  case less
  from less.prems(1) show ?case
  proof (cases rule: on_node_cases)
    case (2 x c l r path)
    let ?p = "(RB_NODE x c l r, path)"
    obtain n where n: "nm x = Some n" using less.prems(2) 2 by auto
    show ?thesis
    proof (cases "completes txt n")
      case True
      then show ?thesis using 2 n less.prems(1) by (simp add: strncasecmp_prefix del: rest.simps)
    next
      case False
      have "cursor_left (RB_NEXT ?p) < cursor_left q" using cursor_next [OF refl] 2 by blast
      moreover have "generator_loop nm txt (length txt) q = generator_loop nm txt (length txt) (RB_NEXT ?p)"
        using 2 n False by (simp add: strncasecmp_prefix del: RB_NEXT.simps)
      moreover have "dropWhile (\<lambda>x. \<not> completes txt (the (nm x))) (ahead q) =
          dropWhile (\<lambda>x. \<not> completes txt (the (nm x))) (ahead (RB_NEXT ?p))"
        using next_ahead [of x c l r path] 2 n False by (simp del: RB_NEXT.simps rest.simps)
      moreover have "\<forall>y\<in>set (ahead (RB_NEXT ?p)). nm y \<noteq> None"
        using next_ahead [of x c l r path] less.prems(2) 2 by (simp del: RB_NEXT.simps rest.simps)
      ultimately show ?thesis
        using less.hyps [of "RB_NEXT ?p"] next_ahead [of x c l r path] by (simp only:)
    qed
  qed simp
qed

text \<open>
  The answers of a generator that is called until it returns NULL, first with the state 0, as
  the line editor does.
\<close>

fun generated :: "nat \<Rightarrow> (string \<Rightarrow> bool \<Rightarrow> generator \<Rightarrow> (string option \<times> generator) option) \<Rightarrow> string \<Rightarrow> bool \<Rightarrow>
    generator \<Rightarrow> string list option" where
  "generated 0 gen txt st g = None"
| "generated (Suc k) gen txt st g =
     do {
       (res, g) \<leftarrow> gen txt st g;
       (case res of None \<Rightarrow> Some []
        | Some n \<Rightarrow> do { ns \<leftarrow> generated k gen txt True g; Some (n # ns) })
     }"

lemma generated_from:
  assumes "on_node q" "\<forall>x\<in>set (ahead q). nm x \<noteq> None" "length (ahead q) < k"
    and step: "do { (res, cur) \<leftarrow> generator_loop nm txt (length txt) q; Some (res, (cur, length txt)) } = generator_step nm t txt st g"
  shows "generated k (generator_step nm t) txt st g = Some (map (the \<circ> nm) (filter (completes txt \<circ> the \<circ> nm) (ahead q)))"
  using assms
proof (induction k arbitrary: q st g)
  case (Suc k)
  let ?P = "\<lambda>x. completes txt (the (nm x))"
  note l = generator_loop_ok [OF Suc.prems(1,2), of "txt"]
  have f: "filter ?P zs = filter ?P (dropWhile (\<lambda>x. \<not> ?P x) zs)" for zs by (induction zs) simp_all
  show ?case
  proof (cases "dropWhile (\<lambda>x. \<not> ?P x) (ahead q)")
    case Nil
    then have "generator_loop nm txt (length txt) q = Some (None, None)" using l by (simp only: list.case)
    then have "generator_step nm t txt st g = Some (None, (None, length txt))" using Suc.prems(4) by simp
    then show ?thesis using f [of "ahead q"] Nil by (simp add: comp_def)
  next
    case (Cons x xs)
    obtain p where p: "generator_loop nm txt (length txt) q = Some (nm x, Some p)" "on_node (Some p)" "rest p = xs"
      using l Cons by auto
    have x: "x \<in> set (ahead q)" "?P x" using Cons hd_in_set dropWhile_eq_Cons_conv
      by (metis list.set_intros(1) set_dropWhileD, metis dropWhile_eq_Cons_conv)
    then obtain n where n: "nm x = Some n" using Suc.prems(2) by auto
    have step1: "generator_step nm t txt st g = Some (Some n, (Some p, length txt))"
      using p(1) n Suc.prems(4) by simp
    obtain y c u r path where q: "p = (RB_NODE y c u r, path)" using p(2) by (auto elim!: on_node_cases)
    have nx: "on_node (RB_NEXT p)" "ahead (RB_NEXT p) = xs" using next_ahead [of y c u r path] p(3) q by simp_all
    have sub: "set xs \<subseteq> set (ahead q)" using Cons by (metis list.set_intros(2) set_dropWhileD subsetI)
    have len: "length xs < length (ahead q)"
      using Cons length_dropWhile_le [of "\<lambda>x. \<not> ?P x" "ahead q"] by simp
    have "generated k (generator_step nm t) txt True (Some p, length txt) = Some (map (the \<circ> nm) (filter (completes txt \<circ> the \<circ> nm) (ahead (RB_NEXT p))))"
      by (rule Suc.IH) (use nx sub len Suc.prems(2,3) in \<open>auto simp: generator_step_def\<close>)
    then show ?thesis using step1 f [of "ahead q"] Cons x(2) n nx(2) by (simp add: comp_def)
  qed
qed simp


lemma generated_tree:
  assumes "\<forall>x\<in>set (rb_inorder t). nm x \<noteq> None" "length (rb_inorder t) < k"
  shows "generated k (generator_step nm t) txt False g = Some (map (the \<circ> nm) (filter (completes txt \<circ> the \<circ> nm) (rb_inorder t)))"
  using generated_from [of "RB_MINMAX True t []" nm k "txt" t False g] assms min_ahead [of t] by (simp add: generator_step_def)

lemma completions_of_tree:
  assumes t: "name_tree nm b t" and k: "length (RB_FOREACH t) < k"
  shows "\<exists>ns. generated k (generator_step nm t) txt False g = Some ns \<and> sorted_wrt (\<lambda>a b. strcasecmp a b < 0) ns \<and>
    (\<forall>n. n \<in> set ns \<longleftrightarrow> completes txt n \<and> tree_get nm t n \<noteq> 0 \<and> nm (tree_get nm t n) = Some n)"
proof -
  let ?ns = "map (the \<circ> nm) (filter (completes txt \<circ> the \<circ> nm) (rb_inorder t))"
  have nm: "\<forall>x\<in>set (rb_inorder t). x \<noteq> 0 \<and> nm x \<noteq> None" and o: "sorted_wrt (\<lambda>x y. case_key (the (nm x)) < case_key (the (nm y))) (rb_inorder t)"
    using t by (auto simp: name_tree_def by_name.ordered_def)
  have "sorted_wrt (\<lambda>a b. strcasecmp a b < 0) ?ns"
    using sorted_wrt_filter [OF o] by (simp add: sorted_wrt_map strcasecmp_less)
  moreover have "n \<in> set ?ns \<longleftrightarrow> completes txt n \<and> tree_get nm t n \<noteq> 0 \<and> nm (tree_get nm t n) = Some n" for n
  proof
    assume "n \<in> set ?ns"
    then obtain x where x: "x \<in> set (rb_inorder t)" "completes txt n" "nm x = Some n" using nm by auto
    then have "tree_get nm t n = x" using tree_get_iff [OF t, of x n] nm by auto
    then show "completes txt n \<and> tree_get nm t n \<noteq> 0 \<and> nm (tree_get nm t n) = Some n" using x nm by auto
  next
    assume r: "completes txt n \<and> tree_get nm t n \<noteq> 0 \<and> nm (tree_get nm t n) = Some n"
    then have "tree_get nm t n \<in> set (rb_inorder t)" using tree_get_iff [OF t, of "tree_get nm t n" n] by blast
    then show "n \<in> set ?ns" using r by force
  qed
  moreover have "generated k (generator_step nm t) txt False g = Some ?ns"
    by (rule generated_tree) (use nm k in \<open>auto simp: RB_FOREACH_inorder\<close>)
  ultimately show ?thesis by blast
qed


text \<open>
  C19. Completion offers exactly the names that start with the typed text, regardless of case,
  each once and in order. When the line editor calls a generator until it returns NULL, the
  calls end, after one more than there are entries at most; the generator for symbols gives the
  names under which a symbol is interned, the one for variables those of the global variables.
\<close>

theorem completion_enumerates:
  assumes "symbols_ok s" "vars_ok s" "length (RB_FOREACH (ai_symbols s)) < k" "length (RB_FOREACH (ai_global_vars s)) < k"
  shows "(\<exists>ns. generated k (akl_symbol_generator s) txt False g = Some ns \<and> sorted_wrt (\<lambda>a b. strcasecmp a b < 0) ns \<and>
      (\<forall>n. n \<in> set ns \<longleftrightarrow> completes txt n \<and> akl_get_symbol s (Some n) \<noteq> 0 \<and>
        symbol_name s (akl_get_symbol s (Some n)) = Some n)) \<and>
    (\<exists>ns. generated k (akl_var_generator s) txt False g = Some ns \<and> sorted_wrt (\<lambda>a b. strcasecmp a b < 0) ns \<and>
      (\<forall>n. n \<in> set ns \<longleftrightarrow> completes txt n \<and> akl_get_global_variable s (Some n) \<noteq> 0 \<and>
        variable_name s (akl_get_global_variable s (Some n)) = Some n))"
proof -
  have "name_tree (symbol_name s) (st_next s) (ai_symbols s)" "name_tree (variable_name s) (st_next s) (ai_global_vars s)"
    using assms(1,2) by (simp_all add: symbols_ok_def vars_ok_def)
  note c = completions_of_tree [OF this(1) assms(3)] completions_of_tree [OF this(2) assms(4)]
  have v: "akl_get_global_variable s (Some n) = tree_get (variable_name s) (ai_global_vars s) n" for n
    by (simp add: akl_get_global_variable_def akl_rb_cmp_var_def [abs_def] tree_get_def)
  show ?thesis
    unfolding akl_symbol_generator_def akl_var_generator_def get_symbol_tree v using c by (intro conjI) blast+
qed

text \<open>Two symbols, one variable.\<close>

definition two_names :: akl_state where
  "two_names = state0\<lparr>st_next := 6,
     st_syms := [3 \<mapsto> \<lparr>sb_name = Some ''Foo'', sb_is_cdef = True\<rparr>, 4 \<mapsto> \<lparr>sb_name = Some ''fun'', sb_is_cdef = True\<rparr>],
     st_vars := [5 \<mapsto> \<lparr>vr_gc = AKL_GC_INIT_OBJ GC_VARIABLE, vr_symbol = 3, vr_value = 1, vr_lex_info = None,
                       vr_desc = None, vr_is_cdesc = True, vr_is_const = True\<rparr>],
     ai_symbols := RB_NODE 3 RB_BLACK RB_NULL (RB_NODE 4 RB_RED RB_NULL RB_NULL),
     ai_global_vars := RB_NODE 5 RB_BLACK RB_NULL RB_NULL\<rparr>"

theorem completion_enumerates_witness:
  "\<exists>ns vs. generated 3 (akl_symbol_generator two_names) ''F'' False (None, 0) = Some ns \<and> ''Foo'' \<in> set ns \<and> ''fun'' \<in> set ns \<and>
    generated 3 (akl_var_generator two_names) ''F'' False (None, 0) = Some vs \<and> ''fun'' \<notin> set vs"
proof -
  have t: "ai_symbols two_names = RB_NODE 3 RB_BLACK RB_NULL (RB_NODE 4 RB_RED RB_NULL RB_NULL)"
    "ai_global_vars two_names = RB_NODE 5 RB_BLACK RB_NULL RB_NULL" "st_next two_names = 6"
    by (simp_all add: two_names_def)
  have n: "symbol_name two_names 3 = Some ''Foo''" "symbol_name two_names 4 = Some ''fun''"
    by (simp_all add: symbol_name_def two_names_def)
  then have v: "variable_name two_names 5 = Some ''Foo''" unfolding variable_name_def by (simp add: two_names_def symbol_name_def)
  have k: "case_key ''Foo'' = [102, 111, 111]" "case_key ''fun'' = [102, 117, 110]" "case_key ''F'' = [102]"
    by (simp_all add: case_key_def tolower_def is_upper_def)
  have c: "strcasecmp ''Foo'' ''fun'' = - 1" "strcasecmp ''fun'' ''Foo'' = 1" by (simp_all add: strcasecmp_def k)
  have so: "symbols_ok two_names" 
    using n k by (simp add: symbols_ok_def t name_tree_def rb_shape_def by_name.ordered_def)
  have vo: "vars_ok two_names"
    using v by (simp add: vars_ok_def t name_tree_def rb_shape_def by_name.ordered_def) (simp add: two_names_def)
  have l: "length (RB_FOREACH (ai_symbols two_names)) < 3" "length (RB_FOREACH (ai_global_vars two_names)) < 3"
    by (simp_all add: RB_FOREACH_inorder t)
  have g: "akl_get_symbol two_names (Some ''Foo'') = 3" "akl_get_symbol two_names (Some ''fun'') = 4"
    using n c by (simp_all add: akl_get_symbol_def akl_rb_cmp_sym_def addr0_def t)
  have gv: "akl_get_global_variable two_names (Some ''fun'') = 0"
    using v c by (simp add: akl_get_global_variable_def akl_rb_cmp_var_def akl_rb_cmp_sym_def addr0_def t)
  show ?thesis using completion_enumerates [OF so vo l, of "''F''" "(None, 0)"] g gv n by (auto simp: completes_def k)
qed

subsection \<open>The flag of the long option eval\<close>

definition without_eval :: "main_vars \<Rightarrow> main_vars" where
  "without_eval M = M\<lparr>mv_flags := (mv_flags M)(eval_flag := 0)\<rparr>"

definition seen :: "(int option \<times> main_vars \<times> akl_state) option \<Rightarrow> (int option \<times> main_vars \<times> akl_state) option" where
  "seen r = map_option (\<lambda>(c, M, s). (c, without_eval M, s)) r"

lemma option_step_seen: "without_eval M = without_eval M' \<Longrightarrow> seen (option_step opt M s) = seen (option_step opt M' s)"
proof -
  assume a: "without_eval M = without_eval M'"
  have f: "mv_flags M f = mv_flags M' f" if "f \<noteq> eval_flag" for f
    using arg_cong [OF a, of "\<lambda>M. mv_flags M f"] that by (simp add: without_eval_def)
  have e: "mv_eval_arg M = mv_eval_arg M'" "mv_buffers M = mv_buffers M'"
    using arg_cong [OF a, of mv_eval_arg] arg_cong [OF a, of mv_buffers] by (simp_all add: without_eval_def)
  obtain k where m: "M' = M\<lparr>mv_flags := (mv_flags M)(eval_flag := k)\<rparr>"
  proof
    show "M' = M\<lparr>mv_flags := (mv_flags M)(eval_flag := mv_flags M' eval_flag)\<rparr>"
      by (rule main_vars.equality) (use f e in auto)
  qed
  obtain c optarg flag where g: "getopt_long opt = (c, optarg, flag)" by (cases "getopt_long opt") auto
  define N where "N = (case flag of None \<Rightarrow> M | Some (f, val) \<Rightarrow> M\<lparr>mv_flags := (mv_flags M)(f := val)\<rparr>)"
  define N' where "N' = (case flag of None \<Rightarrow> M' | Some (f, val) \<Rightarrow> M'\<lparr>mv_flags := (mv_flags M')(f := val)\<rparr>)"
  obtain k' where n: "N' = N\<lparr>mv_flags := (mv_flags N)(eval_flag := k')\<rparr>"
  proof (cases flag)
    case None
    then show ?thesis using that [of k] m by (simp add: N_def N'_def)
  next
    case (Some p)
    then obtain f val where p: "flag = Some (f, val)" by (cases p) auto
    show ?thesis
      by (cases "f = eval_flag", rule that [of val]) (use m p that [of k] in \<open>auto simp: N_def N'_def fun_upd_twist\<close>)
  qed
  show ?thesis
    unfolding option_step_def g prod.case Let_def N_def [symmetric] N'_def [symmetric]
    by (simp add: n seen_def without_eval_def fun_upd_twist split: Option.bind_splits)
qed

lemma option_loop_seen: "without_eval M = without_eval M' \<Longrightarrow> seen (option_loop opts M s) = seen (option_loop opts M' s)"
proof (induction opts arbitrary: M M' s)
  case (Cons opt opts)
  note st = option_step_seen [OF Cons.prems, of opt s]
  show ?case
  proof (cases "option_step opt M s")
    case None
    then show ?thesis using st by (simp add: seen_def)
  next
    case (Some r)
    obtain c N t where r: "option_step opt M s = Some (c, N, t)" using Some by (cases r) auto
    obtain c' N' t' where q: "option_step opt M' s = Some (c', N', t')" using st r by (cases "option_step opt M' s") (auto simp: seen_def)
    then have "c' = c" "t' = t" "without_eval N = without_eval N'" using st r by (simp_all add: seen_def)
    with q have r': "option_step opt M' s = Some (c, N', t)" "without_eval N = without_eval N'" by simp_all
    show ?thesis using r r' Cons.IH [OF r'(2), of t] by (cases c) (simp_all add: seen_def)
  qed
qed (simp add: seen_def)

lemma option_codes:
  "char_to_int CHR ''a'' = 97" "char_to_int CHR ''h'' = 104" "char_to_int CHR ''E'' = 69" "char_to_int CHR ''e'' = 101"
  "char_to_int CHR ''v'' = 118" "char_to_int CHR ''D'' = 68" "char_to_int CHR ''C'' = 67" "char_to_int CHR ''d'' = 100"
  by (simp_all add: char_to_int_def)

lemma eval_option:
  "option_step (Opt_long ''eval'' (Some t)) M s =
    Some (None, M\<lparr>mv_flags := (mv_flags M)(eval_flag := 101)\<rparr>,
      if mv_flags M no_color_flag \<noteq> 0 then unset_feature s AKL_CFG_USE_COLORS else s)"
proof -
  have g: "getopt_long (Opt_long ''eval'' (Some t)) = (0, Some t, Some (eval_flag, 101))"
    by (simp add: long_option_def akl_options_def arg_ok_def option_codes)
  show ?thesis unfolding option_step_def g prod.case Let_def option_codes by simp
qed

text \<open>
  C22. The long option \<open>--eval\<close> evaluates nothing. It is declared to set a flag, which nothing
  reads, so its argument is lost: the program does whatever it does without the option (the
  interactive mode, when there is nothing else).
\<close>

theorem long_eval_ignored:
  "run_main ext n junk fopen ls (Opt_long ''eval'' (Some t) # opts) operands = run_main ext n junk fopen ls opts operands"
proof -
  let ?M = start_vars
  let ?N = "?M\<lparr>mv_flags := (mv_flags ?M)(eval_flag := 101)\<rparr>"
  have e: "option_loop (Opt_long ''eval'' (Some t) # opts) ?M s = option_loop opts ?N s" for s
    using eval_option [of t ?M s] by (simp add: start_vars_def)
  have w: "without_eval ?N = without_eval ?M" by (simp add: without_eval_def)
  have fields: "mv_eval_arg M = mv_eval_arg M'" "mv_flags M peval_flag = mv_flags M' peval_flag"
    if "without_eval M = without_eval M'" for M M'
    using arg_cong [OF that, of mv_eval_arg] arg_cong [OF that, of "\<lambda>M. mv_flags M peval_flag"]
    by (simp_all add: without_eval_def)
  show ?thesis
  proof (cases init_aklisp)
    case (Some s0)
    note i = Some
    obtain args s where a: "akl_new_list s0 = (args, s)" by (cases "akl_new_list s0")
    have q: "seen (option_loop opts ?N s) = seen (option_loop opts ?M s)" by (rule option_loop_seen [OF w])
    show ?thesis
    proof (cases "option_loop opts ?M s")
      case None
      then have "option_loop opts ?N s = None" using q by (simp add: seen_def)
      then show ?thesis using None a unfolding run_main_def i e by (simp split: option.split)
    next
      case (Some r)
      obtain c M t where r: "option_loop opts ?M s = Some (c, M, t)" using Some by (cases r) auto
      obtain c' M' t' where r': "option_loop opts ?N s = Some (c', M', t')" using q r by (cases "option_loop opts ?N s") (auto simp: seen_def)
      have m: "c' = c" "t' = t" "without_eval M' = without_eval M" using q r r' by (simp_all add: seen_def)
      show ?thesis using a r r' m(1,2) fields [OF m(3)] unfolding run_main_def i e by (simp split: option.split)
    qed
  qed (simp add: run_main_def)
qed

end
