(* ===== verification/Repl.thy ===== *)
theory Repl
  imports Codegen
begin

text \<open>
  From text to text: \<open>eval_dev\<close>, one round of the interactive program, compiles the text of a
  device, runs the code, prints the result and clears the code.
\<close>

subsection \<open>Popping\<close>

lemma pop_list:
  assumes "heap_ok s" "is_list s l (es @ [e])"
  shows "\<exists>s'. akl_list_pop s l = Some (edata s e, s') \<and> is_list s' l es \<and> list_op (set (es @ [e])) l s s' \<and> heap_ok s'"
proof -
  obtain s' where s': "akl_list_pop_entry s l = Some (e, s')" "is_list s' l es" "list_op (set (es @ [e])) l s s'" "heap_ok s'"
    using pop_entry_ok [OF assms] by blast
  have "st_ents s e \<noteq> None \<and> e \<noteq> 0" by (rule is_list_ents [OF assms(2)]) simp
  then have "st_ents s' e \<noteq> None \<and> e \<noteq> 0" "edata s' e = edata s e" using s'(3) by (simp_all add: list_op_def)
  then show ?thesis using s' entry_data_edata [of s' e] by (auto simp: akl_list_pop_def)
qed

lemma list_op_output:
  assumes "list_op A l s s'"
  shows "st_out s' = st_out s" "ai_config s' = ai_config s" "ai_errors s' = ai_errors s"
  using assms unfolding list_op_def by (elim conjE exE; simp)+

text \<open>\<open>akl_clear_ir\<close> ends for every list whose counter has not wrapped around.\<close>

lemma clear_ir_ok:
  "heap_ok s \<Longrightarrow> is_list s l es \<Longrightarrow> length es < 2 ^ 32 \<Longrightarrow>
   \<exists>s'. clear_ir_loop s l = Some s' \<and> heap_ok s' \<and> comp_keeps s s'"
proof (induction es arbitrary: s rule: rev_induct)
  case Nil
  then have "akl_list_count s l = Some 0" by (auto simp: is_list_def akl_list_count_def)
  then show ?case using clear_ir_loop.simps [of s l] Nil.prems(1) by simp
next
  case (snoc e es)
  obtain L where L: "st_lists s l = Some L" "li_count L = of_nat (length (es @ [e]))" "l \<noteq> 0"
    using snoc.prems(2) by (auto simp: is_list_def)
  have "unat (of_nat (length (es @ [e])) :: u32) = length (es @ [e])" using snoc.prems(3) by (simp add: unat_of_nat del: of_nat_Suc)
  then have n: "akl_list_count s l = Some (li_count L)" "li_count L \<noteq> 0"
    using L by (auto simp: akl_list_count_def unat_eq_zero [symmetric] simp del: of_nat_Suc)
  obtain s1 where s1: "akl_list_pop s l = Some (edata s e, s1)" "is_list s1 l es" "list_op (set (es @ [e])) l s s1" "heap_ok s1"
    using pop_list [OF snoc.prems(1,2)] by blast
  have "\<exists>s'. clear_ir_loop s1 l = Some s' \<and> heap_ok s' \<and> comp_keeps s1 s'"
    by (rule snoc.IH [OF s1(4,2)]) (use snoc.prems(3) in simp)
  then obtain s' where "clear_ir_loop s1 l = Some s'" "heap_ok s'" "comp_keeps s1 s'" by blast
  moreover have "clear_ir_loop s l = clear_ir_loop s1 l"
    using n s1(1) clear_ir_loop.simps [of s l] by simp
  ultimately show ?case using comp_keeps_trans [OF list_op_keeps [OF s1(3)]] by auto
qed

subsection \<open>The output of a program\<close>

lemma out_text_simps [simp]:
  "st_ctxs (out_text s t) = st_ctxs s" "st_vals (out_text s t) = st_vals s" "st_ents (out_text s t) = st_ents s"
  "st_lists (out_text s t) = st_lists s" "ai_config (out_text s t) = ai_config s" "ai_errors (out_text s t) = ai_errors s"
  "st_out (out_text s t) = st_out s @ t" "heap_ok (out_text s t) = heap_ok s"
  by (simp_all add: out_text_def heap_ok_def heap_live_def)

text \<open>What \<open>eval_dev\<close> writes for a result: interactively after an arrow, with \<open>-E\<close> on a line.\<close>

definition result_line :: "akl_state \<Rightarrow> bool \<Rightarrow> double \<Rightarrow> string" where
  "result_line s peval d =
     (let inter = AKL_IS_FEATURE_ON s AKL_CFG_INTERACTIVE in
      (if inter then '' => '' else []) @ (if inter \<or> peval then colored s AKL_YELLOW (format_g d) else []) @
      (if peval then NEWLINE else []))"

lemma feature_same: "ai_config s' = ai_config s \<Longrightarrow> AKL_IS_FEATURE_ON s' = AKL_IS_FEATURE_ON s"
  by (rule ext) (simp add: AKL_IS_FEATURE_ON_def)

lemma number_text:
  assumes "number_at s p d"
  shows "value_text (text_fuel s) s p = Some (colored s AKL_YELLOW (format_g d))"
proof -
  obtain V where V: "p \<noteq> 0" "st_vals s p = Some V" "va_type V = VT_NUMBER" "va_value V = V_number d" "\<not> va_nil V"
    using assms by (auto simp: number_at_def)
  have "text_fuel s = Suc (3 * st_next s + 2)" by (simp add: text_fuel_def)
  then show ?thesis using V by (simp add: AKL_IS_NIL_def atom_text_def)
qed

text \<open>
  What a round does besides writing: the definitions, the features and the reports are kept, so
  that the state is ready for the next round.
\<close>

definition round_keeps :: "akl_state \<Rightarrow> akl_state \<Rightarrow> bool" where
  "round_keeps s w \<longleftrightarrow> comp_keeps s (w\<lparr>st_out := st_out s\<rparr>)"

lemma round_keeps_out: "round_keeps s (out_text w t) = round_keeps s w"
  by (simp add: round_keeps_def out_text_def)

lemma comp_keeps_out: "comp_keeps w w' \<Longrightarrow> comp_keeps (w\<lparr>st_out := t\<rparr>) (w'\<lparr>st_out := t\<rparr>)"
  by (intro comp_keepsI) (auto simp: comp_keeps_def)

lemma round_keeps_comp:
  assumes "round_keeps s w" "comp_keeps w w'"
  shows "round_keeps s w'"
  using assms(1) comp_keeps_trans comp_keeps_out [OF assms(2)] unfolding round_keeps_def by blast

lemma eval_dev_runs:
  assumes "heap_ok s" "\<not> ai_interrupted s" "st_devs s dev = Some D" "fresh_device D (spell us)"
    "spell_ok us" "map fst us = concat (map lexemes es)" "length us < 2 ^ 32"
    "map (denotes s) es = map Some (ds @ [d])"
    "\<not> AKL_IS_FEATURE_ON s AKL_DEBUG_INSTR" "\<not> AKL_IS_FEATURE_ON s AKL_DEBUG_STACK" "ai_errors s = 0"
  shows "\<exists>N w. N \<le> length us \<and> (\<forall>ext n. eval_dev ext (N + Suc n) peval s dev = Some ([], w)) \<and>
    st_out w = st_out s @ result_line s peval d \<and> heap_ok w \<and> round_keeps s w"
proof -
  obtain cx t C u ps E fs N qs where r: "akl_compile s dev = Some (cx, t)" "N \<le> length us"
    "\<forall>ext n. akl_execute ext (N + Suc n) t cx = Some u" "stack_holds u cx ps" "numbers_at u ps (ds @ [d])"
    "cx \<noteq> 0" "st_ctxs t cx = Some C" "ai_config t = ai_config s" "heap_ok u" "st_ctxs u cx = Some E"
    "cx_stack E \<noteq> cx_ir E" "is_list u (cx_ir E) fs" "length fs \<le> length us"
    "is_list u (cx_stack E) qs" "ps = map (edata u) qs" "set qs \<inter> set fs = {}" "comp_keeps s u"
    using program_runs [OF assms(1-8)] by (elim exE conjE) (rule that)
  note k = comp_keeps_fields(6-8) [OF r(17)]
  note f = feature_same [OF r(8)] feature_same [OF k(2)]
  let ?inter = "AKL_IS_FEATURE_ON s AKL_CFG_INTERACTIVE"
  define u0 where "u0 = (if ?inter then out_text u '' => '' else u)"
  have u0: "heap_ok u0" "st_ctxs u0 = st_ctxs u" "st_vals u0 = st_vals u" "st_ents u0 = st_ents u" "st_lists u0 = st_lists u"
    "ai_config u0 = ai_config s" "ai_errors u0 = 0" "st_out u0 = st_out s @ (if ?inter then '' => '' else [])"
    using r(9) k assms(11) by (simp_all add: u0_def)
  have same: "is_list u0 l zs = is_list u l zs" "edata u0 = edata u" for l zs
    by (simp add: is_list_def chain_def u0(4,5)) (intro ext, simp add: edata_def u0(4))
  obtain ms q where ms: "qs = ms @ [q]" "number_at u (edata u q) d"
  proof -
    obtain rs p where p: "ps = rs @ [p]" "number_at u p d"
      using r(5) by (auto simp: numbers_at_def list_all2_append2 list_all2_Cons2)
    then show thesis using that r(15) by (auto simp: append_eq_map_conv map_eq_append_conv)
  qed
  define v where "v = edata u q"
  have v: "v \<noteq> 0" "number_at u0 v d" using ms(2) u0(3) by (simp_all add: v_def number_at_def)
  obtain u1 where u1: "akl_list_pop u0 (cx_stack E) = Some (v, u1)" "list_op (set qs) (cx_stack E) u0 u1" "heap_ok u1"
    using pop_list [OF u0(1), of "cx_stack E" ms q] r(14) ms(1) same by (auto simp: v_def)
  have pop: "akl_stack_pop u0 cx = Some (v, u1)" using r(10) u0(2) u1(1) v(1) by (simp add: akl_stack_pop_def)
  have n1: "number_at u1 v d" using v(2) list_op_fields(2) [OF u1(2)] by (simp add: number_at_def)
  note o1 = list_op_output [OF u1(2)]
  have c1: "colored u1 = colored s" using o1(2) u0(6) by (intro ext) (simp add: colored_def AKL_COLORFUL_def AKL_IS_FEATURE_ON_def)
  let ?line = "colored s AKL_YELLOW (format_g d)"
  have print: "akl_print_value u1 v = Some (out_text u1 ?line)" using number_text [OF n1] c1 by (simp add: akl_print_value_def)
  define w0 where "w0 = (if ?inter \<or> peval then (if peval then out_text (out_text u1 ?line) NEWLINE else out_text u1 ?line) else u0)"
  have w0: "heap_ok w0" "st_ctxs w0 = st_ctxs u" "ai_config w0 = ai_config s" "ai_errors w0 = 0"
    "st_out w0 = st_out s @ result_line s peval d"
    using u1(3) u0 o1 list_op_fields(1) [OF u1(2)] by (simp_all add: w0_def result_line_def Let_def)
  have code: "is_list w0 (cx_ir E) fs"
  proof -
    have c0: "is_list u0 (cx_ir E) fs" using r(12) by (simp only: same(1))
    have "set fs \<inter> set qs = {}" using r(16) by blast
    then have c1: "is_list u1 (cx_ir E) fs"
      using list_op_frame [OF u1(2) c0 r(11) [symmetric]] by simp
    show ?thesis
    proof (cases "?inter \<or> peval")
      case True
      then show ?thesis using c1 by (auto simp: w0_def is_list_def chain_def)
    qed (use c0 in \<open>simp add: w0_def\<close>)
  qed
  obtain w where w: "clear_ir_loop w0 (cx_ir E) = Some w" "heap_ok w" "comp_keeps w0 w"
    using clear_ir_ok [OF w0(1) code] r(13) assms(7) by auto
  have ir: "cx_ir E \<noteq> 0" using r(12) by (simp add: is_list_def)
  have "eval_dev ext (N + Suc n) peval s dev = Some ([], w)" for ext n
  proof -
    have p: "(if ?inter \<or> peval
        then do { (v, s) \<leftarrow> akl_stack_pop u0 cx; s \<leftarrow> akl_print_value s v; Some (if peval then out_text s NEWLINE else s) }
        else Some u0) = Some w0"
      by (simp only: pop print w0_def Option.bind.bind_lunit prod.case if_distrib [of Some])
    have g: "AKL_IS_FEATURE_ON w0 = AKL_IS_FEATURE_ON s" "AKL_IS_FEATURE_ON u0 = AKL_IS_FEATURE_ON s"
      using feature_same [OF w0(3)] feature_same [OF u0(6)] by simp_all
    have e: "akl_print_errors w0 = Some []" "akl_clear_errors w0 = Some w0"
      using w0(4) by (simp_all add: akl_print_errors_def akl_clear_errors_def)
    have c: "akl_clear_ir w0 cx = Some w" using w(1) w0(2) r(6,10) ir by (simp add: akl_clear_ir_def)
    have x: "akl_execute ext (N + Suc n) t cx = Some u" using r(3) by blast
    show ?thesis
      unfolding eval_dev_def
      by (simp only: r(1,7) f(1) assms(9) if_False Option.bind.bind_lunit prod.case x Let_def f(2) u0_def [symmetric] g(2) p
          g(1) assms(10) e c)
  qed
  moreover have "round_keeps s w"
  proof -
    have "u\<lparr>st_out := st_out s\<rparr> = u\<lparr>st_out := st_out u\<rparr>" by (simp only: k(1))
    then have "round_keeps s u" using r(17) by (simp add: round_keeps_def)
    then have "round_keeps s u0" by (simp add: u0_def round_keeps_out)
    moreover from this have "round_keeps s u1" by (rule round_keeps_comp) (rule list_op_keeps [OF u1(2)])
    ultimately have "round_keeps s w0" by (simp add: w0_def round_keeps_out)
    then show ?thesis by (rule round_keeps_comp) (rule w(3))
  qed
  ultimately show ?thesis using r(2) w(2) w0(5) comp_keeps_fields(6) [OF w(3)]
    by - (rule exI [of _ N], rule exI [of _ w], simp)
qed

text \<open>
  C6. The interactive program answers with the value of the last expression: for a text of
  arithmetic expressions, in a string or a file, with the debugging features off and no
  error reported before, \<open>eval_dev\<close> ends, writes nothing to the standard error output, and
  appends to the standard output exactly the line for the last value: after an arrow in
  interactive mode, followed by a newline with the option \<open>-E\<close>, nothing otherwise.
\<close>

theorem eval_dev_prints:
  assumes "heap_ok s" "\<not> ai_interrupted s" "st_devs s dev = Some D" "fresh_device D (spell us)"
    "spell_ok us" "map fst us = concat (map lexemes es)" "length us < 2 ^ 32"
    "map (denotes s) es = map Some (ds @ [d])"
    "\<not> AKL_IS_FEATURE_ON s AKL_DEBUG_INSTR" "\<not> AKL_IS_FEATURE_ON s AKL_DEBUG_STACK" "ai_errors s = 0"
  shows "\<exists>N w. N \<le> length us \<and> (\<forall>ext n. eval_dev ext (N + Suc n) peval s dev = Some ([], w)) \<and>
    st_out w = st_out s @ result_line s peval d"
  using eval_dev_runs [OF assms, of peval] by blast

theorem eval_dev_prints_witness:
  "\<exists>w. (\<forall>ext. eval_dev ext 20 True calc 7 = Some ([], w)) \<and> st_out w = ''6'' @ NEWLINE"
proof -
  have dd: "dec_digits 1 = ''1''" "dec_digits 2 = ''2''" "dec_digits 3 = ''3''" "dec_digits 6 = ''6''"
    by (simp_all add: dec_digits.simps digit_char_def) code_simp+
  have ok: "spell_ok calc_text" by (simp add: calc_text_def is_digit_def blank_def)
  have tx: "spell calc_text = ''(+ 1 (+ 2 3))''" by (simp add: calc_text_def)
  have D: "st_devs calc 7 = Some (string_device (spell calc_text))" by (simp add: calc_def tx)
  have m: "map fst calc_text = concat (map lexemes [calc_prog])"
    by (simp add: calc_text_def calc_prog_def dd [simplified])
  have c0: "ai_config calc = 0" "ai_errors calc = 0" "st_out calc = []" "\<not> ai_interrupted calc"
    by (simp_all add: calc_def state0_def)
  then have off: "\<not> AKL_IS_FEATURE_ON calc x" for x by (simp add: AKL_IS_FEATURE_ON_def)
  obtain N w where r: "N \<le> length calc_text" "\<forall>ext n. eval_dev ext (N + Suc n) True calc 7 = Some ([], w)"
    "st_out w = st_out calc @ result_line calc True (dbl_of_int 6)"
    using eval_dev_prints [OF calc_ok c0(4) D _ ok m, of "[]" "dbl_of_int 6" True] calc_value off c0(2)
    by (auto simp: fresh_device_def string_device_def calc_text_def)
  have "N \<le> 9" using r(1) by (simp add: calc_text_def)
  then have "N + Suc (19 - N) = 20" by simp
  then have "eval_dev ext 20 True calc 7 = Some ([], w)" for ext using r(2) by metis
  moreover have "format_g (dbl_of_int 6) = ''6''" using format_g_int [of 6] dd(4) by (simp add: show_int_def)
  then have "st_out w = ''6'' @ NEWLINE"
    using r(3) off c0(3) by (simp add: result_line_def colored_def AKL_COLORFUL_def)
  ultimately show ?thesis by blast
qed

end
