(* ===== verification/Session.thy ===== *)
theory Session
  imports Shell Repl
begin

text \<open>
  A session: what the interactive program writes when it is given lines of arithmetic
  expressions, from the banner to the end of the input.
\<close>

subsection \<open>States that are ready for a line\<close>

definition calm :: "akl_state \<Rightarrow> bool" where
  "calm s \<longleftrightarrow> heap_ok s \<and> \<not> ai_interrupted s \<and> ai_errors s = 0 \<and>
     \<not> AKL_IS_FEATURE_ON s AKL_DEBUG_INSTR \<and> \<not> AKL_IS_FEATURE_ON s AKL_DEBUG_STACK"

text \<open>A line of expressions the last of which has the value \<open>d\<close>, with fewer than \<open>n\<close> tokens.\<close>

definition answers :: "akl_state \<Rightarrow> nat \<Rightarrow> string \<Rightarrow> double \<Rightarrow> bool" where
  "answers s n line d \<longleftrightarrow> (\<exists>us es ds. line = spell us \<and> spell_ok us \<and> map fst us = concat (map lexemes es) \<and>
     length us < n \<and> length us < 2 ^ 32 \<and> map (denotes s) es = map Some (ds @ [d]))"

lemma denotes_config: "denotes (s\<lparr>st_out := t, ai_config := c\<rparr>) = denotes s"
proof -
  let ?s = "s\<lparr>st_out := t, ai_config := c\<rparr>"
  have n: "symbol_name ?s = symbol_name s" by (intro ext) (simp add: symbol_name_def)
  then have "variable_name ?s = variable_name s" by (intro ext) (simp add: variable_name_def cong: option.case_cong)
  then have c: "akl_rb_cmp_var ?s = akl_rb_cmp_var s" by (intro ext) (simp only: akl_rb_cmp_var_def)
  have g: "akl_get_symbol ?s = akl_get_symbol s" by (intro ext) (simp add: akl_get_symbol_def n)
  have v: "akl_get_global_var ?s = akl_get_global_var s"
    by (intro ext) (simp add: akl_get_global_var_def akl_get_global_variable_def n c)
  have m: "st_vars ?s = st_vars s" "st_vals ?s = st_vals s" by simp_all
  have ty: "is_type ?s = is_type s" by (intro ext) (simp add: is_type_def)
  have fn: "akl_var_to_function ?s = akl_var_to_function s" by (intro ext) (simp only: akl_var_to_function_def ty m)
  have k: "resolve ?s = resolve s" by (intro ext) (simp only: resolve_def n g v fn)
  have f: "function_of ?s = function_of s" by (intro ext) (simp add: function_of_def)
  show ?thesis
  proof (rule ext)
    show "denotes ?s e = denotes s e" for e
    proof (induction e)
      case (Call h es)
      then have "map (denotes ?s) es = map (denotes s) es" by simp
      then show ?case by (simp only: denotes.simps k f)
    qed simp
  qed
qed

lemma denotes_out: "denotes (s\<lparr>st_out := t\<rparr>) = denotes s"
  using denotes_config [where s = s and t = t and c = "ai_config s"] by simp

lemma denotes_round: "round_keeps s w \<Longrightarrow> denotes s e = Some d \<Longrightarrow> denotes w e = Some d"
  using denotes_keep [of s "w\<lparr>st_out := st_out s\<rparr>" e d] by (simp add: round_keeps_def denotes_out)

lemma answers_round:
  assumes "round_keeps s w" "answers s n line d"
  shows "answers w n line d"
proof -
  obtain us es ds where a: "line = spell us" "spell_ok us" "map fst us = concat (map lexemes es)" "length us < n"
    "length us < 2 ^ 32" "map (denotes s) es = map Some (ds @ [d])"
    using assms(2) unfolding answers_def by blast
  have "map (denotes w) es = map Some (ds @ [d])"
    using a(6) denotes_round [OF assms(1)] by (auto simp: list_eq_iff_nth_eq simp del: map_append)
  then show ?thesis using a unfolding answers_def by blast
qed

lemma calm_round:
  assumes "round_keeps s w" "heap_ok w" "calm s"
  shows "calm w" "ai_config w = ai_config s"
  using assms comp_keeps_fields [of s "w\<lparr>st_out := st_out s\<rparr>"]
  by (simp_all add: round_keeps_def calm_def AKL_IS_FEATURE_ON_def)

lemma round_keeps_trans:
  assumes "round_keeps s t" "round_keeps t u"
  shows "round_keeps s u"
proof -
  have "comp_keeps (t\<lparr>st_out := st_out s\<rparr>) (u\<lparr>st_out := st_out s\<rparr>)"
    using comp_keeps_out [of t "u\<lparr>st_out := st_out t\<rparr>" "st_out s"] assms(2) by (simp add: round_keeps_def)
  then show ?thesis using assms(1) comp_keeps_trans unfolding round_keeps_def by blast
qed

lemma out_round: "round_keeps s (out_text s t)"
  by (simp add: round_keeps_out) (simp add: round_keeps_def)

subsection \<open>One line\<close>

text \<open>A line of expressions is neither empty nor \<open>exit\<close>.\<close>

lemma expr_lexemes: "\<exists>l ls. lexemes e = l # ls \<and> (l = L_open \<or> (\<exists>w. l = L_number w))"
  by (cases e) auto

lemma answers_line:
  assumes "answers s n line d"
  shows "line \<noteq> []" "line \<noteq> ''exit''"
proof -
  obtain us es ds where a: "line = spell us" "spell_ok us" "map fst us = concat (map lexemes es)"
    "map (denotes s) es = map Some (ds @ [d])"
    using assms unfolding answers_def by blast
  obtain e es' where "es = e # es'" using a(4) by (cases es) auto
  then obtain l ls where "map fst us = l # ls" "l = L_open \<or> (\<exists>w. l = L_number w)"
    using a(3) expr_lexemes [of e] by auto
  then obtain k us' where u: "us = (l, k) # us'" "l = L_open \<or> (\<exists>w. l = L_number w)" by (cases us) auto
  then have "lexeme_ok l" using a(2) by simp
  then have "\<exists>c cs. lexeme_text l = c # cs \<and> (c = CHR ''('' \<or> is_digit c)"
    using u(2) by (auto simp: neq_Nil_conv)
  then obtain c cs where "line = c # cs" "c = CHR ''('' \<or> is_digit c" using a(1) u(1) by auto
  then show "line \<noteq> []" "line \<noteq> ''exit''" by (auto simp: is_digit_def)
qed

text \<open>The answer to a line.\<close>

lemma line_runs:
  assumes "calm s" "answers s n line d"
  shows "\<exists>w. (do { let (dev, s) = akl_new_string_device junk s name line; eval_dev ext n peval s dev }) = Some ([], w) \<and>
    calm w \<and> round_keeps s w \<and> st_out w = st_out s @ result_line s peval d"
proof -
  define dv where "dv = st_next s"
  obtain D t where t: "akl_new_string_device junk s name line = (dv, t)" "st_devs t dv = Some D"
    "fresh_device D line" "t = s\<lparr>st_next := dv + 1, st_devs := (st_devs s)(dv \<mapsto> D)\<rparr>"
    by (simp add: akl_new_string_device_def Let_def dv_def fresh_device_def)
  have c: "heap_ok s" "\<not> ai_interrupted s" "ai_errors s = 0" "\<not> AKL_IS_FEATURE_ON s AKL_DEBUG_INSTR"
    "\<not> AKL_IS_FEATURE_ON s AKL_DEBUG_STACK"
    using assms(1) by (simp_all add: calm_def)
  have ok: "heap_ok t"
    by (rule heap_ok_grow [OF c(1)]) (auto simp: t(4) dv_def heap_live_def split: if_splits)
  have ct: "comp_keeps s t" by (rule comp_keepsI) (simp_all add: t(4))
  then have k: "round_keeps s t" by (simp add: round_keeps_def t(4))
  obtain us es ds where a: "line = spell us" "spell_ok us" "map fst us = concat (map lexemes es)" "length us < n"
    "length us < 2 ^ 32" "map (denotes t) es = map Some (ds @ [d])"
    using answers_round [OF k assms(2)] unfolding answers_def by blast
  have ct: "calm t" "ai_config t = ai_config s" using calm_round [OF k ok assms(1)] by simp_all
  have f: "heap_ok t" "\<not> ai_interrupted t" "ai_errors t = 0" "\<not> AKL_IS_FEATURE_ON t AKL_DEBUG_INSTR"
    "\<not> AKL_IS_FEATURE_ON t AKL_DEBUG_STACK"
    using ct(1) by (simp_all add: calm_def)
  obtain N w where w: "N \<le> length us" "\<forall>ext n. eval_dev ext (N + Suc n) peval t dv = Some ([], w)"
    "st_out w = st_out t @ result_line t peval d" "heap_ok w" "round_keeps t w"
    using eval_dev_runs [OF f(1,2) t(2) t(3) [unfolded a(1)] a(2,3,5,6) f(4,5,3), of peval]
    by (elim exE conjE) (rule that)
  have "N + Suc (n - Suc N) = n" using w(1) a(4) by simp
  then have "eval_dev ext n peval t dv = Some ([], w)" using w(2) by metis
  moreover have "round_keeps s w" by (rule round_keeps_trans [OF k w(5)])
  moreover have "result_line t peval d = result_line s peval d"
    using ct(2) by (simp add: result_line_def AKL_IS_FEATURE_ON_def colored_def AKL_COLORFUL_def)
  moreover have "st_out t = st_out s" by (simp add: t(4))
  moreover have "calm w" by (rule calm_round(1) [OF w(5,4) ct(1)])
  ultimately show ?thesis using t(1) w(3) by simp
qed

subsection \<open>All lines\<close>

text \<open>What a session with answers \<open>ds\<close> writes after the banner; \<open>col\<close> colours the numbers.\<close>

fun transcript :: "(string \<Rightarrow> string) \<Rightarrow> int \<Rightarrow> double list \<Rightarrow> string" where
  "transcript col i [] = prompt_text i @ good_bye"
| "transcript col i (d # ds) =
     prompt_text i @ '' => '' @ col (format_g d) @ NEWLINE @ transcript col (i + 1) ds"

lemma loop_end:
  "unread = [] \<or> hd unread = ''exit'' \<Longrightarrow>
   interactive_loop ext n junk peval unread i s = Some ([], out_text (out_text s (prompt_text i)) good_bye)"
  by (cases unread) (simp_all add: Let_def)

lemma loop_session:
  assumes "calm s" "AKL_IS_FEATURE_ON s AKL_CFG_INTERACTIVE" "list_all2 (answers s n) ls ds"
    "unread = [] \<or> hd unread = ''exit''" "i + int (length ls) \<le> 2147483647"
  shows "\<exists>w. interactive_loop ext n junk False (ls @ unread) i s = Some ([], w) \<and> st_out w = st_out s @ transcript (colored s AKL_YELLOW) i ds"
  using assms
proof (induction ls arbitrary: s i ds)
  case Nil
  then show ?case by (simp add: loop_end)
next
  case (Cons line ls)
  obtain d ds' where ds: "ds = d # ds'" "answers s n line d" "list_all2 (answers s n) ls ds'"
    using Cons.prems(3) by (auto simp: list_all2_Cons1)
  let ?s = "out_text s (prompt_text i)"
  have "heap_ok ?s" using Cons.prems(1) by (simp add: calm_def)
  note c1 = calm_round [OF out_round this Cons.prems(1)]
  obtain w where w: "(do { let (dev, s) = akl_new_string_device junk ?s (Some ''stdio'') line; eval_dev ext n False s dev }) = Some ([], w)"
    "calm w" "round_keeps ?s w" "st_out w = st_out ?s @ result_line ?s False d"
    using line_runs [OF c1(1) answers_round [OF out_round ds(2)]] by blast
  let ?w = "out_text w NEWLINE"
  have k: "round_keeps s ?w" by (rule round_keeps_trans [OF round_keeps_trans [OF out_round w(3)] out_round])
  have "heap_ok ?w" using w(2) by (simp add: calm_def)
  note c2 = calm_round [OF k this Cons.prems(1)]
  have f: "AKL_IS_FEATURE_ON ?w = AKL_IS_FEATURE_ON s" "AKL_IS_FEATURE_ON ?s = AKL_IS_FEATURE_ON s"
    by (rule feature_same [OF c2(2)], rule feature_same) simp
  have col: "colored ?w = colored s" "colored ?s = colored s" by (intro ext, simp add: colored_def AKL_COLORFUL_def f)+
  have a2: "list_all2 (answers ?w n) ls ds'" using ds(3) by (rule list_all2_mono) (rule answers_round [OF k])
  obtain v where v: "interactive_loop ext n junk False (ls @ unread) (i + 1) ?w = Some ([], v)"
    "st_out v = st_out ?w @ transcript (colored ?w AKL_YELLOW) (i + 1) ds'"
    using Cons.IH [OF c2(1) _ a2 Cons.prems(4), of "i + 1"] Cons.prems(2,5) f(1) by auto
  have "interactive_loop ext n junk False ((line # ls) @ unread) i s = Some ([], v)"
    using answers_line [OF ds(2)] w(1) v(1) Cons.prems(5) by (simp add: Let_def split: prod.splits)
  moreover have "result_line ?s False d = '' => '' @ colored s AKL_YELLOW (format_g d)"
    using Cons.prems(2) f(2) col(2) by (simp add: result_line_def)
  ultimately show ?case using v(2) w(4) ds(1) col(1) by simp
qed

text \<open>
  The interactive mode from a ready state. Given lines of arithmetic expressions with
  values \<open>ds\<close>, and then the end of the input or the line \<open>exit\<close>, the program ends, reports
  nothing, and writes exactly: the banner, for every line the numbered prompt and the value of
  its last expression after an arrow, and the last prompt with the farewell. What follows
  \<open>exit\<close> is not read. Fuel: unread than any line has tokens.
\<close>

lemma interactive_session:
  assumes "heap_ok s" "\<not> ai_interrupted s" "ai_errors s = 0"
    "\<not> AKL_IS_FEATURE_ON s AKL_DEBUG_INSTR" "\<not> AKL_IS_FEATURE_ON s AKL_DEBUG_STACK"
    "list_all2 (answers s n) ls ds" "unread = [] \<or> hd unread = ''exit''" "length ls < 2147483647"
  shows "\<exists>w. interactive_mode ext n junk False (ls @ unread) s = Some ([], w) \<and>
    st_out w = st_out s @ banner @ transcript (colored s AKL_YELLOW) 1 ds"
proof -
  let ?b = "out_text s banner"
  let ?s = "set_feature ?b AKL_CFG_INTERACTIVE"
  have m: "(x OR AKL_CFG_INTERACTIVE) AND f = x AND f" if "f \<in> {AKL_DEBUG_INSTR, AKL_DEBUG_STACK, AKL_CFG_USE_COLORS}" for x f :: "64 word"
    using that by (intro mask_disjoint(1)) (auto simp: AKL_CFG_INTERACTIVE_def AKL_DEBUG_INSTR_def AKL_DEBUG_STACK_def AKL_CFG_USE_COLORS_def)
  have f: "AKL_IS_FEATURE_ON ?s x = AKL_IS_FEATURE_ON s x" if "x \<in> {AKL_DEBUG_INSTR, AKL_DEBUG_STACK, AKL_CFG_USE_COLORS}" for x
    using m [OF that] by (simp add: AKL_IS_FEATURE_ON_def set_feature_def)
  have "(x OR AKL_CFG_INTERACTIVE) AND AKL_CFG_INTERACTIVE = AKL_CFG_INTERACTIVE" for x by (simp add: bit_eq_iff bit_simps)
  then have i: "AKL_IS_FEATURE_ON ?s AKL_CFG_INTERACTIVE"
    by (simp add: AKL_IS_FEATURE_ON_def set_feature_def) (simp add: AKL_CFG_INTERACTIVE_def)
  have cs: "colored ?s = colored s" using f [of AKL_CFG_USE_COLORS] by (intro ext) (simp add: colored_def AKL_COLORFUL_def)
  have "heap_ok ?s" using assms(1) by (simp add: set_feature_def heap_ok_def heap_live_def out_text_def)
  moreover have "\<not> ai_interrupted ?s" "ai_errors ?s = 0" using assms(2,3) by (simp_all add: set_feature_def out_text_def)
  ultimately have "calm ?s" using assms(4,5) f by (simp add: calm_def)
  moreover have "denotes ?s = denotes s"
    using denotes_config [where s = s and t = "st_out s @ banner"] by (simp add: set_feature_def out_text_def)
  then have "list_all2 (answers ?s n) ls ds" using assms(6) by (simp add: answers_def [abs_def])
  ultimately obtain w where "interactive_loop ext n junk False (ls @ unread) 1 ?s = Some ([], w)"
    "st_out w = st_out ?s @ transcript (colored ?s AKL_YELLOW) 1 ds"
    using loop_session [OF _ i _ assms(7), of n ls ds 1 ext junk] assms(8) by auto
  then show ?thesis using cs by (simp add: interactive_mode_def) (simp add: set_feature_def)
qed

end
