(* ===== verification/Program.thy ===== *)
theory Program
  imports Startup Session
begin

text \<open>
  The whole program, from the command line to the output: \<open>main\<close> with a program of arithmetic
  expressions as the argument of an option, or line by line on the standard input.
\<close>

subsection \<open>Names and functions\<close>

lemma bound_resolve:
  assumes "tables_ok s" "bound_to s n FUNC_CFUN (B_cfun g)"
  shows "\<exists>symb fn. resolve s n = Some (symb, fn) \<and> function_of s fn = Some g"
proof -
  obtain v V f F where b: "akl_get_symbol s (Some n) \<noteq> 0" "akl_get_global_value s (Some n) = Some v" "v \<noteq> 0"
    "st_vals s v = Some V" "va_type V = VT_FUNCTION" "va_value V = V_func f" "f \<noteq> 0" "st_funs s f = Some F"
    "fn_type F = FUNC_CFUN" "fn_body F = B_cfun g"
    using assms(2) unfolding bound_to_def by blast
  have t: "symbols_ok s" "vars_ok s" using assms(1) by (simp_all add: tables_ok_def)
  let ?p = "akl_get_symbol s (Some n)" and ?v = "akl_get_global_variable s (Some n)"
  obtain k where k: "symbol_name s ?p = Some k" "case_key k = case_key n"
    using get_symbol_found [OF t(1) refl b(1)] by auto
  have v0: "?v \<noteq> 0" using b(2,3) by (auto simp: akl_get_global_value_def Let_def split: if_splits)
  then obtain X where X: "st_vars s ?v = Some X" "vr_value X = v"
    using b(2) by (auto simp: akl_get_global_value_def Let_def)
  have nt: "name_tree (variable_name s) (st_next s) (ai_global_vars s)" using t(2) by (simp add: vars_ok_def)
  have "akl_get_global_variable s (Some k) = ?v"
    using tree_get_iff [OF nt v0 [unfolded get_variable_tree], of k] tree_get_iff [OF nt v0 [unfolded get_variable_tree], of n] k(2)
    unfolding get_variable_tree by simp
  then have g: "akl_get_global_var s ?p = ?v" using k(1) by (simp add: akl_get_global_var_def)
  have "akl_var_to_function s ?v = Some f"
    using v0 X b(3-6) by (simp add: akl_var_to_function_def is_type_def)
  then have "resolve s n = Some (?p, f)" using b(1,7) k(1) v0 g by (simp add: resolve_def)
  moreover have "function_of s f = Some g" using b(8-10) by (simp add: function_of_def)
  ultimately show ?thesis by blast
qed

text \<open>The value of an expression of the three functions, without reference to a state.\<close>

definition arith_fun :: "string \<Rightarrow> akl_cfun option" where
  "arith_fun f = (if f = ''+'' then Some fn_plus else if f = ''-'' then Some fn_minus else if f = ''*'' then Some fn_mul else None)"

fun meaning :: "expr \<Rightarrow> double option" where
  "meaning (Num n) = Some (dbl_of_int (int n))"
| "meaning (Call f es) =
     (if 2147483648 \<le> length es then None
      else do { g \<leftarrow> arith_fun f; ds \<leftarrow> list_some (map meaning es); arith_value g ds })"

definition arith_ready :: "akl_state \<Rightarrow> bool" where
  "arith_ready s \<longleftrightarrow> tables_ok s \<and> ai_errors s = 0 \<and> \<not> ai_interrupted s \<and> st_out s = [] \<and> ai_config s = AKL_CFG_USE_COLORS \<and>
     (\<forall>f g. arith_fun f = Some g \<longrightarrow> bound_to s f FUNC_CFUN (B_cfun g))"

lemma meaning_denotes: "arith_ready s \<Longrightarrow> meaning e = Some d \<Longrightarrow> denotes s e = Some d"
proof (induction e arbitrary: d)
  case (Call f es)
  obtain g ds where f: "length es < 2147483648" "arith_fun f = Some g" "list_all2 (\<lambda>e d. meaning e = Some d) es ds"
    "arith_value g ds = Some d"
    using Call.prems(2) by (auto simp: Option.bind_eq_Some_conv list_some_map split: if_splits)
  have "list_all2 (\<lambda>e d. denotes s e = Some d) es ds"
    using f(3) Call.IH [OF _ Call.prems(1)] by (auto simp: list_all2_conv_all_nth)
  then have "list_some (map (denotes s) es) = Some ds" by (simp add: list_some_map)
  moreover have "map tolower f = f"
    using f(2) by (auto simp: arith_fun_def tolower_def is_upper_def split: if_splits)
  moreover obtain symb fn where "resolve s f = Some (symb, fn)" "function_of s fn = Some g"
    using bound_resolve [of s f g] Call.prems(1) f(2) by (auto simp: arith_ready_def)
  ultimately show ?case using f(1,4) by simp
qed simp

lemma start_ready: "\<exists>s. init_aklisp = Some s \<and> arith_ready s"
proof -
  obtain s where s: "init_aklisp = Some s" "tables_ok s" "ai_errors s = 0" "\<not> ai_interrupted s" "st_out s = []"
    "ai_config s = AKL_CFG_USE_COLORS" "\<forall>d\<in>set library_funs. declared s d"
    using start_state by blast
  have "bound_to s f FUNC_CFUN (B_cfun g)" if g: "arith_fun f = Some g" for f g
  proof -
    have "\<exists>h. Decl_cfun g f h \<in> set akl_basic_funs"
      using g by (auto simp: arith_fun_def akl_basic_funs_def split: if_splits)
    then obtain h where "Decl_cfun g f h \<in> set library_funs" by (auto simp: library_funs_def)
    then show ?thesis using s(7) by force
  qed
  then show ?thesis using s by (auto simp: arith_ready_def)
qed

subsection \<open>Up to the evaluation\<close>

lemma arith_ready_grow:
  assumes "arith_ready s" "heap_ok s'"
    "s' = s\<lparr>st_next := st_next s', st_ents := st_ents s', st_lists := st_lists s', st_vals := st_vals s', st_devs := st_devs s'\<rparr>"
    "st_next s \<le> st_next s'" "\<And>x V. st_vals s x = Some V \<Longrightarrow> st_vals s' x = Some V"
  shows "arith_ready s'"
proof -
  obtain a b c d e where q: "s' = s\<lparr>st_next := a, st_ents := b, st_lists := c, st_vals := d, st_devs := e\<rparr>" using assms(3) by blast
  have t: "tables_ok s" using assms(1) by (simp add: arith_ready_def)
  note k = tables_ok_cong [OF t assms(2)]
  have k: "tables_ok s'" "akl_get_symbol s' = akl_get_symbol s" "akl_get_global_value s' = akl_get_global_value s"
    using k assms(4) by (simp_all add: q)
  have "bound_to s' f FUNC_CFUN (B_cfun g)" if "arith_fun f = Some g" for f g
  proof (rule bound_to_mono)
    show "bound_to s f FUNC_CFUN (B_cfun g)" using assms(1) that by (simp add: arith_ready_def)
    show "st_funs s' x = Some F" if "st_funs s x = Some F" for x F using that by (simp add: q)
  qed (use k assms(5) in simp_all)
  then show ?thesis using assms(1) k(1) unfolding arith_ready_def by (simp add: q)
qed

lemma append_args_ready:
  assumes "arith_ready s" "is_list s l es"
  shows "\<exists>s' fs. append_args s l as = Some s' \<and> arith_ready s' \<and> is_list s' l fs"
  using assms
proof (induction as arbitrary: s es)
  case (Cons a as)
  have h: "heap_ok s" using Cons.prems(1) by (simp add: arith_ready_def tables_ok_def)
  obtain v s1 where v: "akl_new_string_value s (Some a) = (v, s1)" by (cases "akl_new_string_value s (Some a)")
  have s1: "s1 = s\<lparr>st_next := st_next s + 1, st_vals := (st_vals s)(st_next s \<mapsto> raw_value VT_STRING (V_string (Some a)))\<rparr>"
    using v by (auto simp: akl_new_string_value_def new_value_with_def Let_def)
  have h1: "heap_ok s1" using new_value_with_ok [OF h] v by (auto simp: akl_new_string_value_def)
  have r1: "arith_ready s1"
    by (rule arith_ready_grow [OF Cons.prems(1) h1]) (use unused_address(1) [OF h, of "st_next s"] in \<open>auto simp: s1\<close>)
  have "is_list s1 l es" using Cons.prems(2) by (simp add: is_list_def chain_def s1)
  from append_value_ok [OF h1 this, of v]
  obtain s2 where s2: "akl_list_append_value s1 l v = Some (st_next s1, s2)" "is_list s2 l (es @ [st_next s1])"
    "list_op (set es) l s1 s2" "heap_ok s2" by blast
  have r2: "arith_ready s2"
  proof (rule arith_ready_grow [OF r1 s2(4)])
    obtain a b c where q: "s2 = s1\<lparr>st_next := a, st_ents := b, st_lists := c\<rparr>" "st_next s1 \<le> st_next s2"
      using s2(3) by (auto simp: list_op_def)
    then show "s2 = s1\<lparr>st_next := st_next s2, st_ents := st_ents s2, st_lists := st_lists s2, st_vals := st_vals s2, st_devs := st_devs s2\<rparr>"
      "st_next s1 \<le> st_next s2" by simp_all
    show "st_vals s2 x = Some V" if "st_vals s1 x = Some V" for x V using that q(1) by simp
  qed
  show ?case using Cons.IH [OF r2 s2(2)] v s2(1) by simp
qed auto

lemma set_global_ready:
  assumes "arith_ready s" "v \<noteq> 0" "length n > 1"
  shows "\<exists>var s'. akl_set_global_variable s (Some n) c desc d v = Some (var, s') \<and> arith_ready s' \<and>
    st_lists s' = st_lists s \<and> st_ents s' = st_ents s \<and> st_devs s' = st_devs s \<and> st_next s \<le> st_next s'"
proof -
  have t: "tables_ok s" using assms(1) by (simp add: arith_ready_def)
  from set_global_setup [OF t assms(2), of n c desc d]
  obtain var s' where s': "akl_set_global_variable s (Some n) c desc d v = Some (var, s')" "tables_ok s'" "setup_keeps s s'"
    "st_next s \<le> st_next s'" "st_vals s' = st_vals s" "st_funs s' = st_funs s" "st_lists s' = st_lists s" "st_ents s' = st_ents s"
    "st_devs s' = st_devs s" "\<forall>m. akl_get_symbol s (Some m) \<noteq> 0 \<longrightarrow> akl_get_symbol s' (Some m) \<noteq> 0"
    "\<forall>m. strcasecmp m n \<noteq> 0 \<longrightarrow> akl_get_global_value s' (Some m) = akl_get_global_value s (Some m)"
    by (elim exE conjE) (rule that)
  have "bound_to s' f FUNC_CFUN (B_cfun g)" if g: "arith_fun f = Some g" for f g
  proof (rule bound_to_mono)
    show "bound_to s f FUNC_CFUN (B_cfun g)" using assms(1) g by (simp add: arith_ready_def)
    have "length f = 1" using g by (auto simp: arith_fun_def split: if_splits)
    then have "strcasecmp f n \<noteq> 0" using assms(3) by (auto simp: strcasecmp_eq case_key_def dest: arg_cong [where f = length])
    then show "akl_get_global_value s' (Some f) = akl_get_global_value s (Some f)" using s'(11) by blast
  qed (use s'(5,6,10) in simp_all)
  then show ?thesis using s' assms(1) by (simp add: arith_ready_def setup_keeps_def)
qed


lemma new_device_ready:
  assumes "arith_ready s" "akl_new_string_device junk s name t = (dev, s') \<or>
    akl_new_file_device junk s name t = (dev, s') \<and> CHR 0xFF \<notin> set t"
  shows "arith_ready s'" "dev \<noteq> 0" "\<exists>D. st_devs s' dev = Some D \<and> fresh_device D t"
proof -
  have h: "heap_ok s" using assms(1) by (simp add: arith_ready_def tables_ok_def)
  obtain D where s': "dev = st_next s" "s' = s\<lparr>st_next := st_next s + 1, st_devs := (st_devs s)(st_next s \<mapsto> D)\<rparr>"
    "fresh_device D t"
  proof -
    let ?S = "junk\<lparr>iod_source := DEVICE_STRING t, iod_pos := 0, iod_line_count := 1, iod_char_count := 0,
      iod_name := name, iod_buffer := None, iod_buffer_size := 0\<rparr>"
    let ?F = "junk\<lparr>iod_source := DEVICE_FILE t False, iod_pos := 0, iod_line_count := 1,
      iod_name := name, iod_buffer := None, iod_buffer_size := 0\<rparr>"
    have f: "fresh_device ?S t" "CHR 0xFF \<notin> set t \<Longrightarrow> fresh_device ?F t" by (simp_all add: fresh_device_def)
    from assms(2) show thesis
    proof (elim disjE conjE)
      assume "akl_new_string_device junk s name t = (dev, s')"
      then show thesis using that [of ?S] f(1) by (auto simp: akl_new_string_device_def Let_def)
    next
      assume "akl_new_file_device junk s name t = (dev, s')" "CHR 0xFF \<notin> set t"
      then show thesis using that [of ?F] f(2) by (auto simp: akl_new_file_device_def Let_def)
    qed
  qed
  have "heap_ok s'" by (rule heap_ok_grow [OF h]) (auto simp: s'(2) heap_live_def split: if_splits)
  then show "arith_ready s'" by (rule arith_ready_grow [OF assms(1)]) (simp_all add: s'(2))
  show "dev \<noteq> 0" using s'(1) h by (simp add: heap_ok_def)
  show "\<exists>D. st_devs s' dev = Some D \<and> fresh_device D t" using s' by simp
qed

lemma new_value_ready:
  assumes "arith_ready s" "new_value_with s v = (p, s')"
  shows "arith_ready s'" "p \<noteq> 0"
proof -
  have h: "heap_ok s" using assms(1) by (simp add: arith_ready_def tables_ok_def)
  have s': "p = st_next s" "s' = s\<lparr>st_next := st_next s + 1, st_vals := (st_vals s)(st_next s \<mapsto> v)\<rparr>"
    using assms(2) by (auto simp: new_value_with_def Let_def)
  have "heap_ok s'" using new_value_with_ok [OF h assms(2)] by simp
  then show "arith_ready s'"
    by (rule arith_ready_grow [OF assms(1)]) (use unused_address(1) [OF h, of "st_next s"] in \<open>auto simp: s'(2)\<close>)
  show "p \<noteq> 0" using s'(1) h by (simp add: heap_ok_def)
qed

lemma set_args_ready:
  assumes "arith_ready s" "is_list s args es"
  shows "\<exists>s'. set_args s args as = Some s' \<and> arith_ready s'"
proof -
  obtain s1 fs where s1: "append_args s args as = Some s1" "arith_ready s1" "is_list s1 args fs"
    using append_args_ready [OF assms] by blast
  obtain L where L: "st_lists s1 args = Some L" "args \<noteq> 0" using s1(3) by (auto simp: is_list_def)
  define k where "k = li_count L"
  have k: "akl_list_count s1 args = Some k" using L by (simp add: akl_list_count_def k_def)
  obtain v s2 where s2: "(if k > 0 then akl_new_list_value s1 args else Some (NIL_ADDR, s1)) = Some (v, s2)" "arith_ready s2" "v \<noteq> 0"
  proof (cases "k > 0")
    case True
    obtain p t where t: "new_value_with s1 (raw_value VT_LIST (V_list args)) = (p, t)"
      by (cases "new_value_with s1 (raw_value VT_LIST (V_list args))")
    then show ?thesis using that [of p t] True L(2) new_value_ready [OF s1(2) t] by (simp add: akl_new_list_value_def)
  next
    case False
    then show ?thesis using that [of NIL_ADDR s1] s1(2) by (simp add: NIL_ADDR_def)
  qed
  obtain v1 s3 where s3: "akl_set_global_variable s2 (Some ''*args*'') True (Some ''The list of command-line arguments'') True v = Some (v1, s3)"
    "arith_ready s3"
    using set_global_ready [OF s2(2,3), of "''*args*''" True "Some ''The list of command-line arguments''" True] by auto
  obtain w s4 where s4: "akl_new_number_value s3 (dbl_of_int (uint k)) = (w, s4)" by (cases "akl_new_number_value s3 (dbl_of_int (uint k))")
  note r4 = new_value_ready [OF s3(2) s4 [unfolded akl_new_number_value_def]]
  let ?d = "Some (''Count of the command-line arguments '' @ [CHR 0x27] @ ''(length *args*)'' @ [CHR 0x27])"
  obtain v2 s5 where s5: "akl_set_global_variable s4 (Some ''*argc*'') True ?d True w = Some (v2, s5)" "arith_ready s5"
    using set_global_ready [OF r4, of "''*argc*''" True ?d True] by auto
  have "set_args s args as = Some s5"
    unfolding set_args_def by (simp only: s1(1) k s2(1) s3(1) s4 s5(1) Option.bind.bind_lunit prod.case Let_def)
  then show ?thesis using s5(2) by blast
qed

subsection \<open>From the command line\<close>

lemma new_list_ready:
  assumes "arith_ready s" "akl_new_list s = (args, s')"
  shows "arith_ready s'" "is_list s' args []"
proof -
  have h: "heap_ok s" using assms(1) by (simp add: arith_ready_def tables_ok_def)
  then have s': "args = st_next s" "s' = s\<lparr>st_next := st_next s + 1, st_lists := (st_lists s)(st_next s \<mapsto> empty_list)\<rparr>"
    using assms(2) by (auto simp: akl_new_list_def akl_init_list_def Let_def heap_ok_def)
  have "heap_ok s'" by (rule heap_ok_grow [OF h]) (auto simp: s'(2) heap_live_def split: if_splits)
  then show "arith_ready s'" by (rule arith_ready_grow [OF assms(1)]) (simp_all add: s'(2))
  show "is_list s' args []" using s' h by (simp add: is_list_def chain_def empty_list_def heap_ok_def)
qed

lemma arith_ready_calm: "arith_ready s \<Longrightarrow> calm s"
  by (simp add: arith_ready_def calm_def tables_ok_def AKL_IS_FEATURE_ON_def AKL_CFG_USE_COLORS_def AKL_DEBUG_INSTR_def AKL_DEBUG_STACK_def)

lemma arith_ready_config: "arith_ready s \<Longrightarrow> unset_feature s AKL_CFG_INTERACTIVE = s"
  by (simp add: arith_ready_def unset_feature_def AKL_CFG_USE_COLORS_def AKL_CFG_INTERACTIVE_def)

lemma arith_ready_colored: "arith_ready s \<Longrightarrow> colored s c t = c @ t @ AKL_END_COLOR_MARK"
  by (simp add: arith_ready_def colored_def AKL_COLORFUL_def AKL_IS_FEATURE_ON_def AKL_CFG_USE_COLORS_def)

text \<open>Up to the input: a ready state, with the options taken.\<close>

definition main_from :: "akl_state \<Rightarrow> addr \<Rightarrow> bool" where
  "main_from s args \<longleftrightarrow> (\<forall>ext n junk fopen ls opts operands. run_main ext n junk fopen ls opts operands =
      do { (ret, M, s) \<leftarrow> option_loop opts start_vars s;
           (case ret of Some c \<Rightarrow> Some (c, [], s)
            | None \<Rightarrow> main_input ext n junk fopen ls operands args (mv_eval_arg M) (mv_flags M peval_flag \<noteq> 0) s) })"

lemma main_start:
  obtains s args where "arith_ready s" "is_list s args []" "main_from s args"
proof -
  obtain s0 where s0: "init_aklisp = Some s0" "arith_ready s0" using start_ready by blast
  obtain args s where a: "akl_new_list s0 = (args, s)" by (cases "akl_new_list s0")
  have "main_from s args" by (simp only: main_from_def run_main_def s0(1) a Option.bind.bind_lunit Let_def prod.case) simp
  then show thesis by (rule that [OF new_list_ready [OF s0(2) a]])
qed

text \<open>A text of expressions with values \<open>ds\<close>, with fewer than \<open>n\<close> tokens.\<close>

definition spells :: "nat \<Rightarrow> string \<Rightarrow> double list \<Rightarrow> bool" where
  "spells n t ds \<longleftrightarrow> (\<exists>us es. t = spell us \<and> spell_ok us \<and> map fst us = concat (map lexemes es) \<and>
     length us < n \<and> length us < 2 ^ 32 \<and> map meaning es = map Some ds)"

lemma spells_answers: "arith_ready s \<Longrightarrow> spells n t (ds @ [d]) \<Longrightarrow> answers s n t d"
proof -
  assume r: "arith_ready s" and "spells n t (ds @ [d])"
  then obtain us es where a: "t = spell us" "spell_ok us" "map fst us = concat (map lexemes es)"
    "length us < n" "length us < 2 ^ 32" "map meaning es = map Some (ds @ [d])"
    unfolding spells_def by blast
  have "map (denotes s) es = map Some (ds @ [d])"
    using a(6) meaning_denotes [OF r] by (auto simp: list_eq_iff_nth_eq simp del: map_append)
  then show "answers s n t d" using a unfolding answers_def by blast
qed

text \<open>Evaluating a text in a ready state.\<close>

lemma eval_ready:
  assumes "arith_ready s" "answers s n t d" "st_devs s dev = Some D" "fresh_device D t"
  shows "\<exists>w. eval_dev ext n peval s dev = Some ([], w) \<and>
    st_out w = (if peval then AKL_YELLOW @ format_g d @ AKL_END_COLOR_MARK @ NEWLINE else [])"
proof -
  have c: "heap_ok s" "\<not> ai_interrupted s" "ai_errors s = 0" "\<not> AKL_IS_FEATURE_ON s AKL_DEBUG_INSTR"
    "\<not> AKL_IS_FEATURE_ON s AKL_DEBUG_STACK"
    using arith_ready_calm [OF assms(1)] by (simp_all add: calm_def)
  obtain us es ds where a: "t = spell us" "spell_ok us" "map fst us = concat (map lexemes es)" "length us < n"
    "length us < 2 ^ 32" "map (denotes s) es = map Some (ds @ [d])"
    using assms(2) unfolding answers_def by blast
  obtain N w where w: "N \<le> length us" "\<forall>ext n. eval_dev ext (N + Suc n) peval s dev = Some ([], w)"
    "st_out w = st_out s @ result_line s peval d" "heap_ok w" "round_keeps s w"
    using eval_dev_runs [OF c(1,2) assms(3) assms(4) [unfolded a(1)] a(2,3,5,6) c(4,5,3), of peval]
    by (elim exE conjE) (rule that)
  have "N + Suc (n - Suc N) = n" using w(1) a(4) by simp
  then have run: "eval_dev ext n peval s dev = Some ([], w)" using w(2) by metis
  have i: "\<not> AKL_IS_FEATURE_ON s AKL_CFG_INTERACTIVE" and o: "st_out s = []"
    using assms(1) by (simp_all add: arith_ready_def AKL_IS_FEATURE_ON_def AKL_CFG_USE_COLORS_def AKL_CFG_INTERACTIVE_def)
  have "result_line s peval d = (if peval then AKL_YELLOW @ format_g d @ AKL_END_COLOR_MARK @ NEWLINE else [])"
    using i arith_ready_colored [OF assms(1)] by (simp add: result_line_def)
  then show ?thesis using run w(3) o by simp
qed

text \<open>The options \<open>-e\<close> and \<open>-E\<close>.\<close>

lemma start_fields: "mv_flags start_vars f = 0" "mv_eval_arg start_vars = None"
  by (simp_all add: start_vars_def)

lemma eval_options:
  "option_loop [Opt_short CHR ''e'' (Some t)] start_vars s = Some (None, start_vars\<lparr>mv_eval_arg := Some t\<rparr>, s)"
  "option_loop [Opt_short CHR ''E'' (Some t)] start_vars s =
     Some (None, start_vars\<lparr>mv_flags := (mv_flags start_vars)(peval_flag := 1), mv_eval_arg := Some t\<rparr>, s)"
proof -
  have g: "getopt_long (Opt_short CHR ''e'' (Some t)) = (101, Some t, None)" "getopt_long (Opt_short CHR ''E'' (Some t)) = (69, Some t, None)"
    by (simp_all add: short_options_def arg_ok_def option_codes)
  show "option_loop [Opt_short CHR ''e'' (Some t)] start_vars s = Some (None, start_vars\<lparr>mv_eval_arg := Some t\<rparr>, s)"
    "option_loop [Opt_short CHR ''E'' (Some t)] start_vars s =
     Some (None, start_vars\<lparr>mv_flags := (mv_flags start_vars)(peval_flag := 1), mv_eval_arg := Some t\<rparr>, s)"
    unfolding option_loop.simps option_step_def g prod.case Let_def option_codes by (simp_all add: start_vars_def)
qed

text \<open>
  C1. From the command line to the output. \<open>aklisp -E TEXT\<close>, for a text of expressions of the
  functions \<open>+\<close>, \<open>-\<close> and \<open>*\<close> on numbers, with any operands behind it, ends with exit code 0,
  writes nothing to the standard error output, and writes the value of the last expression, in
  yellow, and a newline to the standard output; with \<open>-e\<close> it writes nothing. Nothing is assumed
  of the state: it is the one the program starts in. Fuel: more than the text has tokens.
\<close>

theorem command_line_evaluates:
  assumes "spells n t (ds @ [d])"
  shows "(\<exists>w. run_main ext n junk fopen ls [Opt_short CHR ''E'' (Some t)] operands = Some (0, [], w) \<and>
      st_out w = AKL_YELLOW @ format_g d @ AKL_END_COLOR_MARK @ NEWLINE) \<and>
    (\<exists>w. run_main ext n junk fopen ls [Opt_short CHR ''e'' (Some t)] operands = Some (0, [], w) \<and> st_out w = [])"
proof -
  obtain s args where s: "arith_ready s" "is_list s args []" and run: "main_from s args" by (rule main_start)
  have "\<exists>w. main_input ext n junk fopen ls operands args (Some t) peval s = Some (0, [], w) \<and>
      st_out w = (if peval then AKL_YELLOW @ format_g d @ AKL_END_COLOR_MARK @ NEWLINE else [])" for peval
  proof -
    obtain s1 where s1: "set_args s args operands = Some s1" "arith_ready s1" using set_args_ready [OF s] by blast
    obtain dev s2 where s2: "akl_new_string_device junk s1 (Some ''eval'') t = (dev, s2)"
      by (cases "akl_new_string_device junk s1 (Some ''eval'') t")
    note r2 = new_device_ready [OF s1(2) disjI1 [OF s2]]
    have "NIL_ADDR \<noteq> 0" "1 < length ''*file*''" by (simp_all add: NIL_ADDR_def)
    from set_global_ready [OF r2(1) this, of True "Some ''The current file''" True]
    obtain var s3 where s3: "akl_set_global_variable s2 (Some ''*file*'') True (Some ''The current file'') True NIL_ADDR = Some (var, s3)"
      "arith_ready s3" "st_devs s3 = st_devs s2" by blast
    obtain w where w: "eval_dev ext n peval s3 dev = Some ([], w)"
      "st_out w = (if peval then AKL_YELLOW @ format_g d @ AKL_END_COLOR_MARK @ NEWLINE else [])"
      using eval_ready [OF s3(2) spells_answers [OF s3(2) assms], of dev _ ext peval] r2(3) s3(3) by auto
    show ?thesis
      using s1(1) s2 s3(1) r2(2) w arith_ready_config [OF s3(2)] by (simp add: main_input_def open_input_def)
  qed
  from this [of True] this [of False] show ?thesis
    by (simp add: run [unfolded main_from_def, rule_format] eval_options start_fields del: option_loop.simps)
qed


text \<open>Two calls, the inner one with a number in front of it.\<close>

definition sum_text :: "(lexeme \<times> string) list" where
  "sum_text = [(L_open, ''''), (L_atom ''*'', '' ''), (L_number ''2'', '' ''), (L_open, ''''), (L_atom ''+'', '' ''), (L_number ''1'', '' ''),
     (L_number ''2'', ''''), (L_close, ''''), (L_close, '''')]"

lemma sum_parts:
  "spell_ok sum_text \<and> map fst sum_text = concat (map lexemes [Call ''*'' [Num 2, Call ''+'' [Num 1, Num 2]]]) \<and>
   map meaning [Call ''*'' [Num 2, Call ''+'' [Num 1, Num 2]]] = map Some ([] @ [dbl_of_int 6])"
proof -
  have dd: "dec_digits 1 = ''1''" "dec_digits 2 = ''2''" by (simp_all add: dec_digits.simps digit_char_def) code_simp+
  have "lexeme_ok (L_atom ''*'')"
    by (simp add: starts_atom_def is_punct_def is_alpha_def is_lower_def is_digit_def ends_atom_def strcasecmp_eq case_key_def tolower_def is_upper_def)
  then have "spell_ok sum_text" by (simp add: sum_text_def is_digit_def blank_def)
  moreover have "map fst sum_text = concat (map lexemes [Call ''*'' [Num 2, Call ''+'' [Num 1, Num 2]]])"
    by (simp add: sum_text_def dd [simplified])
  moreover have "dbl_add (dbl_of_int 0) (dbl_of_int 2) = dbl_of_int 2" "dbl_add (dbl_of_int 2) (dbl_of_int 1) = dbl_of_int 3"
    "dbl_mul (dbl_of_int 1) (dbl_of_int 3) = dbl_of_int 3" "dbl_mul (dbl_of_int 3) (dbl_of_int 2) = dbl_of_int 6"
    using dbl_add_int dbl_mul_int by simp_all
  then have "map meaning [Call ''*'' [Num 2, Call ''+'' [Num 1, Num 2]]] = map Some ([] @ [dbl_of_int 6])"
    by (simp add: arith_fun_def)
  ultimately show ?thesis by blast
qed

lemma sum_spells: "spells 10 ''(* 2 (+ 1 2))'' ([] @ [dbl_of_int 6])"
proof -
  have "spell sum_text = ''(* 2 (+ 1 2))''" "length sum_text < 10" by (simp_all add: sum_text_def)
  with sum_parts show ?thesis
    unfolding spells_def by (intro exI [of _ sum_text] exI [of _ "[Call ''*'' [Num 2, Call ''+'' [Num 1, Num 2]]]"]) simp
qed

lemma six_text: "format_g (dbl_of_int 6) = ''6''"
proof -
  have "dec_digits 6 = ''6''" by (simp add: dec_digits.simps digit_char_def) code_simp
  then show ?thesis using format_g_int [of 6] by (simp add: show_int_def)
qed

theorem command_line_evaluates_witness:
  "\<exists>w. run_main (\<lambda>f s cx n. None) 10 (string_device []) (\<lambda>f. None) [] [Opt_short CHR ''E'' (Some ''(* 2 (+ 1 2))'')] [''a''] = Some (0, [], w) \<and>
    st_out w = AKL_YELLOW @ ''6'' @ AKL_END_COLOR_MARK @ NEWLINE"
  using command_line_evaluates [OF sum_spells, of "\<lambda>f s cx n. None" "string_device []" "\<lambda>f. None" "[]" "[''a'']"]
  unfolding six_text by blast

text \<open>
  C2. A whole session. \<open>aklisp\<close> without arguments, given lines of expressions of \<open>+\<close>, \<open>-\<close> and
  \<open>*\<close> whose last values are \<open>ds\<close>, and then the end of the input or the line \<open>exit\<close>, ends with
  exit code 0, reports nothing, and writes exactly: the banner, for every line the numbered prompt and its
  value in yellow behind an arrow, and the last prompt with the farewell. What follows
  \<open>exit\<close> is not read. Fuel: more than any line has tokens.
\<close>

theorem program_session:
  assumes "list_all2 (\<lambda>l d. \<exists>ds. spells n l (ds @ [d])) ls ds" "unread = [] \<or> hd unread = ''exit''" "length ls < 2147483647"
  shows "\<exists>w. run_main ext n junk fopen (ls @ unread) [] [] = Some (0, [], w) \<and>
    st_out w = banner @ transcript (\<lambda>t. AKL_YELLOW @ t @ AKL_END_COLOR_MARK) 1 ds"
proof -
  obtain s args where s: "arith_ready s" "is_list s args []" and run: "main_from s args" by (rule main_start)
  obtain s1 where s1: "set_args s args [] = Some s1" "arith_ready s1" using set_args_ready [OF s] by blast
  have "NIL_ADDR \<noteq> 0" "1 < length ''*file*''" by (simp_all add: NIL_ADDR_def)
  from set_global_ready [OF s1(2) this, of True "Some ''The current file''" True]
  obtain var s2 where s2: "akl_set_global_variable s1 (Some ''*file*'') True (Some ''The current file'') True NIL_ADDR = Some (var, s2)"
    "arith_ready s2" by blast
  have a: "list_all2 (answers s2 n) ls ds"
    using assms(1) by (rule list_all2_mono) (use spells_answers [OF s2(2)] in blast)
  have c: "heap_ok s2" "\<not> ai_interrupted s2" "ai_errors s2 = 0" "\<not> AKL_IS_FEATURE_ON s2 AKL_DEBUG_INSTR"
    "\<not> AKL_IS_FEATURE_ON s2 AKL_DEBUG_STACK" "st_out s2 = []"
    using arith_ready_calm [OF s2(2)] s2(2) by (simp_all add: calm_def arith_ready_def)
  have col: "colored s2 AKL_YELLOW = (\<lambda>t. AKL_YELLOW @ t @ AKL_END_COLOR_MARK)"
    by (rule ext) (rule arith_ready_colored [OF s2(2)])
  obtain w where w: "interactive_mode ext n junk False (ls @ unread) s2 = Some ([], w)"
    "st_out w = banner @ transcript (\<lambda>t. AKL_YELLOW @ t @ AKL_END_COLOR_MARK) 1 ds"
    using interactive_session [OF c(1-5) a assms(2,3), of ext junk] c(6) col by auto
  have "main_input ext n junk fopen (ls @ unread) [] args None False s = Some (0, [], w)"
    using s1(1) s2(1) w(1) by (simp add: main_input_def open_input_def)
  then show ?thesis using w(2) by (simp add: run [unfolded main_from_def, rule_format] start_fields)
qed

theorem program_session_witness:
  "\<exists>w. run_main (\<lambda>f s cx n. None) 10 (string_device []) (\<lambda>f. None) ([''(* 2 (+ 1 2))''] @ [''exit'', ''(+'']) [] [] = Some (0, [], w) \<and>
    st_out w = banner @ ''[1]> '' @ '' => '' @ AKL_YELLOW @ ''6'' @ AKL_END_COLOR_MARK @ NEWLINE @ ''[2]> '' @ ''Bye!'' @ NEWLINE"
proof -
  let ?col = "\<lambda>t. AKL_YELLOW @ t @ AKL_END_COLOR_MARK"
  have a: "list_all2 (\<lambda>l d. \<exists>ds. spells 10 l (ds @ [d])) [''(* 2 (+ 1 2))''] [dbl_of_int 6]"
    using sum_spells by blast
  have dd: "dec_digits 1 = ''1''" "dec_digits 2 = ''2''" by (simp_all add: dec_digits.simps digit_char_def) code_simp+
  have "prompt_text 1 = ''[1]> ''" "prompt_text 2 = ''[2]> ''"
    by (simp_all add: prompt_text_def PROMPT_MAX_def show_int_def dd [simplified])
  then have tr: "transcript ?col 1 [dbl_of_int 6] =
      ''[1]> '' @ '' => '' @ AKL_YELLOW @ ''6'' @ AKL_END_COLOR_MARK @ NEWLINE @ ''[2]> '' @ ''Bye!'' @ NEWLINE"
    by (simp add: six_text good_bye_def)
  have "\<exists>w. run_main (\<lambda>f s cx n. None) 10 (string_device []) (\<lambda>f. None) ([''(* 2 (+ 1 2))''] @ [''exit'', ''(+'']) [] [] = Some (0, [], w) \<and>
      st_out w = banner @ transcript ?col 1 [dbl_of_int 6]"
    by (rule program_session [OF a]) simp_all
  then show ?thesis unfolding tr .
qed


subsection \<open>A file on the command line\<close>

text \<open>
  C3. A script. \<open>aklisp FILE\<close>, with any operands behind it, for a file with expressions of
  \<open>+\<close>, \<open>-\<close> and \<open>*\<close> on any number of lines (and without the character 255), evaluates it
  without a report and without a word and ends with exit code 0. For a file that cannot be
  opened it ends with exit code -1 and exactly the message that says so. Fuel: more than the
  text has tokens.
\<close>

theorem script_file_runs:
  assumes "\<forall>t. fopen f = Some t \<longrightarrow> CHR 0xFF \<notin> set t \<and> (\<exists>ds d. spells n t (ds @ [d]))"
  shows "\<exists>w. run_main ext n junk fopen ls [] (f # operands) =
      Some (case fopen f of None \<Rightarrow> (- 1, ''ERROR: Cannot open file '' @ f @ ''!'' @ NEWLINE, w) | Some t \<Rightarrow> (0, [], w)) \<and>
    st_out w = []"
proof -
  obtain s args where s: "arith_ready s" "is_list s args []" and run: "main_from s args" by (rule main_start)
  obtain s1 where s1: "set_args s args (f # operands) = Some s1" "arith_ready s1" using set_args_ready [OF s] by blast
  have "\<exists>w. main_input ext n junk fopen ls (f # operands) args None False s =
      Some (case fopen f of None \<Rightarrow> (- 1, ''ERROR: Cannot open file '' @ f @ ''!'' @ NEWLINE, w) | Some t \<Rightarrow> (0, [], w)) \<and>
      st_out w = []"
  proof (cases "fopen f")
    case None
    then show ?thesis using s1 by (simp add: main_input_def open_input_def arith_ready_def)
  next
    case (Some t)
    obtain ds d where t: "CHR 0xFF \<notin> set t" "spells n t (ds @ [d])" using assms Some by blast
    obtain dev s2 where s2: "akl_new_file_device junk s1 (Some f) t = (dev, s2)"
      by (cases "akl_new_file_device junk s1 (Some f) t")
    note r2 = new_device_ready [OF s1(2) disjI2 [OF conjI [OF s2 t(1)]]]
    obtain v s3 where s3: "akl_new_string_value s2 (Some f) = (v, s3)" by (cases "akl_new_string_value s2 (Some f)")
    note r3 = new_value_ready [OF r2(1) s3 [unfolded akl_new_string_value_def]]
    have d3: "st_devs s3 = st_devs s2" using s3 by (auto simp: akl_new_string_value_def new_value_with_def Let_def)
    have "1 < length ''*file*''" by simp
    from set_global_ready [OF r3 this, of True "Some ''The current file''" True]
    obtain var s4 where s4: "akl_set_global_variable s3 (Some ''*file*'') True (Some ''The current file'') True v = Some (var, s4)"
      "arith_ready s4" "st_devs s4 = st_devs s3" by blast
    obtain w where w: "eval_dev ext n False s4 dev = Some ([], w)" "st_out w = []"
      using eval_ready [OF s4(2) spells_answers [OF s4(2) t(2)], of dev _ ext False] r2(3) s4(3) d3 by auto
    have "unset_feature s4 AKL_CFG_INTERACTIVE = s4" using arith_ready_config [OF s4(2)] by simp
    then show ?thesis
      using s1(1) s2 s3 s4(1) r2(2) w Some by (simp add: main_input_def open_input_def)
  qed
  then show ?thesis
    by (simp add: run [unfolded main_from_def, rule_format] start_fields split: option.splits)
qed

text \<open>\<open>(* 2\<close>, the end of the line, \<open>(+ 1 2))\<close> and the end of the line.\<close>

definition script_text :: "(lexeme \<times> string) list" where
  "script_text = [(L_open, []), (L_atom ''*'', '' ''), (L_number ''2'', [CHR 0x0A]), (L_open, []), (L_atom ''+'', '' ''),
     (L_number ''1'', '' ''), (L_number ''2'', []), (L_close, []), (L_close, [CHR 0x0A])]"

theorem script_file_runs_witness:
  "\<exists>w. run_main (\<lambda>f s cx n. None) 10 (string_device [])
      (\<lambda>f. Some (''(* 2'' @ CHR 0x0A # ''(+ 1 2))'' @ [CHR 0x0A])) [] [] [''a.alisp'', ''x''] = Some (0, [], w) \<and> st_out w = []"
proof -
  obtain es where s: "spell_ok sum_text" "map fst sum_text = concat (map lexemes es)" "map meaning es = map Some ([] @ [dbl_of_int 6])"
    using sum_parts by blast
  have "spell_ok script_text" using s(1) by (simp add: sum_text_def script_text_def blank_def)
  moreover have "spell script_text = ''(* 2'' @ CHR 0x0A # ''(+ 1 2))'' @ [CHR 0x0A]" by (simp add: script_text_def)
  moreover have "map fst script_text = map fst sum_text" "length script_text < 10" by (simp_all add: script_text_def sum_text_def)
  ultimately have "spells 10 (''(* 2'' @ CHR 0x0A # ''(+ 1 2))'' @ [CHR 0x0A]) ([] @ [dbl_of_int 6])"
    using s(2,3) unfolding spells_def by (intro exI [of _ script_text] exI [of _ es]) simp
  then show ?thesis
    using script_file_runs [of "\<lambda>f. Some (''(* 2'' @ CHR 0x0A # ''(+ 1 2))'' @ [CHR 0x0A])" "''a.alisp''" 10
        "\<lambda>f s cx n. None" "string_device []" "[]" "[''x'']"]
    by (simp del: append.simps) blast
qed

subsection \<open>Definitions on the command line\<close>

abbreviation no_buffers :: define_buffers where
  "no_buffers \<equiv> \<lparr>db_symbols = [], db_values = []\<rparr>"

lemma write_no_buffers: "write_buffers s no_buffers v w = s"
  by (simp add: write_buffers_def)

lemma set_global_variable_frame:
  assumes "akl_set_global_variable s (Some n) c desc d v = Some (var, s')" "symbol_name s p = Some k" "p < st_next s"
  shows "symbol_name s' p = Some k" "st_vals s' = st_vals s"
proof -
  obtain q s1 where s1: "akl_new_symbol s (Some n) c = Some (q, s1)" and r: "set_global (snd (akl_new_var s1 q)) desc d v (fst (akl_new_var s1 q)) = Some (var, s')"
    using assms(1) by (auto simp: akl_set_global_variable_def akl_new_variable_def Option.bind_eq_Some_conv split: if_splits prod.splits)
  have "symbol_name s1 p = Some k \<and> st_vals s1 = st_vals s"
    using s1 assms(2,3)
    by (auto simp: akl_new_symbol_def get_or_create_symbol_def Let_def set_symbol_def symbol_name_def Option.bind_eq_Some_conv
        split: if_splits option.splits)
  moreover have "st_syms s' = st_syms s1 \<and> st_vals s' = st_vals s1"
    using r by (auto simp: set_global_def akl_new_var_def Let_def Option.bind_eq_Some_conv split: if_splits)
  ultimately show "symbol_name s' p = Some k" "st_vals s' = st_vals s" by (simp_all add: symbol_name_def)
qed

text \<open>
  C20. All definitions of the command line share one pair of buffers. After a first \<open>-D\<close> with a
  new name, the name is bound to a string value, as it should be; but a second \<open>-D\<close> renames the
  symbol of the first one to its own name, and replaces the text of its value with its own.
\<close>

theorem define_shares_buffers:
  assumes "tables_ok s" "scan_define t1 = (v1, w1)" "scan_define t2 = (v2, w2)" "akl_get_symbol s (Some v1) = 0"
  shows "\<exists>B1 s1 p x V. cmd_parse_define s \<lparr>db_symbols = [], db_values = []\<rparr> (Some t1) = Some (B1, s1) \<and>
    akl_get_symbol s1 (Some v1) = p \<and> p \<noteq> 0 \<and> symbol_name s1 p = Some v1 \<and>
    akl_get_global_value s1 (Some v1) = Some x \<and> st_vals s1 x = Some V \<and> va_value V = V_string (Some w1) \<and>
    (\<forall>B2 s2. cmd_parse_define s1 B1 (Some t2) = Some (B2, s2) \<longrightarrow>
       symbol_name s2 p = Some v2 \<and> st_vals s2 x = Some (V\<lparr>va_value := V_string (Some w2)\<rparr>))"
proof -
  have h: "heap_ok s" using assms(1) by (simp add: tables_ok_def)
  define x where "x = st_next s"
  define V where "V = raw_value VT_STRING (V_string (Some w1))"
  define sa where "sa = s\<lparr>st_next := x + 1, st_vals := (st_vals s)(x \<mapsto> V)\<rparr>"
  have n: "akl_new_string_value s (Some w1) = (x, sa)"
    by (simp add: akl_new_string_value_def new_value_with_def Let_def x_def sa_def V_def)
  have ha: "heap_ok sa" using new_value_with_ok [OF h] n by (simp add: akl_new_string_value_def)
  have x0: "x \<noteq> 0" using h by (simp add: x_def heap_ok_def)
  have ta: "tables_ok sa" "akl_get_symbol sa = akl_get_symbol s"
    using tables_ok_cong [OF assms(1) ha] by (simp_all add: sa_def x_def)
  obtain p sb k where sb: "akl_new_symbol sa (Some v1) False = Some (p, sb)" "p \<noteq> 0" "tables_ok sb"
    "symbol_name sb p = Some k" "akl_get_symbol sb (Some v1) = p"
    using new_symbol_ok [OF ta(1), of v1 False] by auto
  have k: "k = v1"
    using sb(1,4) ta(2) assms(4)
    by (auto simp: akl_new_symbol_def get_or_create_symbol_def Let_def set_symbol_def symbol_name_def Option.bind_eq_Some_conv
        split: if_splits)
  obtain var sc where sc: "akl_set_global_variable sa (Some v1) False None False x = Some (var, sc)" "tables_ok sc"
    "\<forall>m. akl_get_global_value sc (Some m) = (if strcasecmp m v1 = 0 then Some x else akl_get_global_value sa (Some m))"
    using set_global_variable_ok [OF ta(1) x0, of v1 False None False] by (elim exE conjE) (rule that)
  have g: "akl_set_global_var sb p None False x = Some (var, sc)"
    using set_global_variable_symbol [OF sb(1,2) x0] sc(1) by simp
  note fr = set_global_var_frame [OF g]
  have y: "st_syms sc = st_syms sb" "ai_symbols sc = ai_symbols sb" by (subst fr(1), simp)+
  have sy: "symbol_name sc p = Some v1" using sb(4) k y(1) by (simp add: symbol_name_def)
  have gs: "akl_get_symbol sc (Some v1) = p"
  proof -
    have "symbols_ok sb" using sb(3) by (simp add: tables_ok_def)
    from symbols_ok_cong(2) [OF this y] show ?thesis using fr(2) sb(5) by simp
  qed
  have px: "p < st_next sc" using symbol_live [of sc p] sc(2) sy by (simp add: tables_ok_def)
  have vx: "st_vals sc x = Some V"
  proof -
    have "st_vals sb = st_vals sa" using sb(1)
      by (auto simp: akl_new_symbol_def get_or_create_symbol_def Let_def set_symbol_def Option.bind_eq_Some_conv split: if_splits)
    moreover have "st_vals sc = st_vals sb" by (subst fr(1), simp)
    ultimately show ?thesis by (simp add: sa_def)
  qed
  have xs: "x < st_next sc"
  proof (rule ccontr)
    assume "\<not> x < st_next sc"
    then have "st_vals sc x = None" using unused_address(1) [of sc x] sc(2) by (simp add: tables_ok_def)
    then show False using vx by simp
  qed
  define s1 where "s1 = out_text sc (''define '' @ v1 @ '' as '' @ w1 @ NEWLINE)"
  define B1 where "B1 = \<lparr>db_symbols = [p], db_values = [x]\<rparr>"
  have o: "akl_get_symbol s1 = akl_get_symbol sc" "symbol_name s1 = symbol_name sc" "st_vals s1 = st_vals sc"
    "akl_get_global_value s1 = akl_get_global_value sc" "st_next s1 = st_next sc" "st_syms s1 = st_syms sc"
  proof -
    have e: "st_syms s1 = st_syms sc" "ai_symbols s1 = ai_symbols sc" "st_vars s1 = st_vars sc"
      "ai_global_vars s1 = ai_global_vars sc" "st_vals s1 = st_vals sc" "st_next s1 = st_next sc"
      by (simp_all add: s1_def out_text_def)
    then show "st_vals s1 = st_vals sc" "st_next s1 = st_next sc" "st_syms s1 = st_syms sc" by simp_all
    show "symbol_name s1 = symbol_name sc" by (rule ext) (simp add: symbol_name_def e(1))
    show "akl_get_symbol s1 = akl_get_symbol sc" "akl_get_global_value s1 = akl_get_global_value sc"
      using symbols_ok_cong(2) [OF _ e(1,2)] vars_ok_cong(2) [OF _ e(1,3,4)] sc(2) e(6) by (simp_all add: tables_ok_def)
  qed
  have run: "cmd_parse_define s no_buffers (Some t1) = Some (B1, s1)"
    unfolding cmd_parse_define_def Option.bind.bind_lunit assms(2) Let_def prod.case write_no_buffers n sc(1)
    using assms(4) gs by (simp add: B1_def s1_def)
  have "symbol_name s2 p = Some v2 \<and> st_vals s2 x = Some (V\<lparr>va_value := V_string (Some w2)\<rparr>)"
    if d: "cmd_parse_define s1 B1 (Some t2) = Some (B2, s2)" for B2 s2
  proof -
    let ?w = "write_buffers s1 B1 v2 w2"
    obtain val sd where sd: "akl_new_string_value ?w (Some w2) = (val, sd)" by (cases "akl_new_string_value ?w (Some w2)")
    have e: "sd = ?w\<lparr>st_next := st_next ?w + 1, st_vals := (st_vals ?w)(st_next ?w \<mapsto> raw_value VT_STRING (V_string (Some w2)))\<rparr>"
      using sd by (auto simp: akl_new_string_value_def new_value_with_def Let_def)
    have nx: "st_next ?w = st_next sc" by (simp add: write_buffers_def o(5))
    obtain var' se where se: "akl_set_global_variable sd (Some v2) False None False val = Some (var', se)"
      "s2 = out_text se (''define '' @ v2 @ '' as '' @ w2 @ NEWLINE)"
      using d unfolding cmd_parse_define_def Option.bind.bind_lunit assms(3) Let_def prod.case sd
      by (auto simp: Option.bind_eq_Some_conv)
    have "symbol_name sd p = Some v2"
      using sy o(6) by (auto simp: e symbol_name_def write_buffers_def B1_def split: option.splits)
    moreover have "p < st_next sd" using px nx by (simp add: e)
    moreover have "st_vals sd x = Some (V\<lparr>va_value := V_string (Some w2)\<rparr>)"
      using vx xs nx o(3) by (simp add: e) (simp add: write_buffers_def B1_def o(3))
    ultimately show ?thesis using set_global_variable_frame [OF se(1), of p v2]
      by (simp add: se(2) out_text_def symbol_name_def)
  qed
  then show ?thesis
    using run gs sb(2) sy sc(3) vx o
    by (intro exI [of _ B1] exI [of _ s1] exI [of _ p] exI [of _ x] exI [of _ V]) (simp add: V_def raw_value_def)
qed


text \<open>\<open>-D x=1 -D y=2\<close>: afterwards nothing is called \<open>x\<close>.\<close>

lemma scan_x_y: "scan_define ''x=1'' = (''x'', ''1'')" "scan_define ''y=2'' = (''y'', ''2'')"
  by (simp_all add: scan_define_def in_name_def in_value_def is_letter_def is_upper_def is_lower_def is_digit_def)

definition defined_x :: akl_state where
  "defined_x = state0\<lparr>st_next := 6, st_vals := (st_vals state0)(3 \<mapsto> raw_value VT_STRING (V_string (Some ''1''))),
     st_syms := [4 \<mapsto> \<lparr>sb_name = Some ''x'', sb_is_cdef = False\<rparr>],
     st_vars := [5 \<mapsto> \<lparr>vr_gc = AKL_GC_INIT_OBJ GC_VARIABLE, vr_symbol = 4, vr_value = 3, vr_lex_info = None, vr_desc = None,
                       vr_is_cdesc = False, vr_is_const = False\<rparr>],
     ai_symbols := RB_NODE 4 RB_BLACK RB_NULL RB_NULL, ai_global_vars := RB_NODE 5 RB_BLACK RB_NULL RB_NULL,
     st_out := ''define x as 1'' @ NEWLINE\<rparr>"

lemmas define_defs = cmd_parse_define_def akl_new_string_value_def new_value_with_def akl_set_global_variable_def
  akl_new_variable_def akl_new_symbol_def get_or_create_symbol_def akl_get_symbol_def set_global_def akl_new_var_def addr0_def
  write_buffers_def state0_def set_symbol_def symbol_name_def variable_name_def RB_INSERT_def akl_rb_cmp_var_def
  akl_rb_cmp_sym_def out_text_def akl_get_global_value_def akl_get_global_variable_def defined_x_def

lemma define_x: "cmd_parse_define state0 no_buffers (Some ''x=1'') = Some (\<lparr>db_symbols = [4], db_values = [3]\<rparr>, defined_x)"
  by (simp add: define_defs scan_x_y) (simp add: fun_eq_iff)

lemma define_y:
  "\<exists>s2. cmd_parse_define defined_x \<lparr>db_symbols = [4], db_values = [3]\<rparr> (Some ''y=2'') = Some (\<lparr>db_symbols = [4], db_values = [6, 3]\<rparr>, s2) \<and>
    akl_get_global_value s2 (Some ''x'') = Some 0"
proof -
  have "strcasecmp ''x'' ''y'' \<noteq> 0" "strcasecmp ''x'' ''y'' = - 1"
    by (simp_all add: strcasecmp_def case_key_def tolower_def is_upper_def)
  then show ?thesis by (simp add: define_defs scan_x_y)
qed

theorem define_shares_buffers_witness:
  "\<exists>B2 s2 V. cmd_parse_define state0 \<lparr>db_symbols = [], db_values = []\<rparr> (Some ''x=1'') = Some (\<lparr>db_symbols = [4], db_values = [3]\<rparr>, defined_x) \<and>
    symbol_name defined_x 4 = Some ''x'' \<and>
    cmd_parse_define defined_x \<lparr>db_symbols = [4], db_values = [3]\<rparr> (Some ''y=2'') = Some (B2, s2) \<and>
    symbol_name s2 4 = Some ''y'' \<and> st_vals s2 3 = Some V \<and> va_value V = V_string (Some ''2'') \<and>
    akl_get_global_value s2 (Some ''x'') = Some 0"
proof -
  have t: "tables_ok state0" using state0_ok state0_tables by (simp add: tables_ok_def)
  have new: "akl_get_symbol state0 (Some ''x'') = 0" by (simp add: akl_get_symbol_def state0_def addr0_def)
  have x: "akl_get_symbol defined_x (Some ''x'') = 4" "akl_get_global_value defined_x (Some ''x'') = Some 3"
    by (simp_all add: define_defs)
  obtain s2 where s2: "cmd_parse_define defined_x \<lparr>db_symbols = [4], db_values = [3]\<rparr> (Some ''y=2'') =
      Some (\<lparr>db_symbols = [4], db_values = [6, 3]\<rparr>, s2)" "akl_get_global_value s2 (Some ''x'') = Some 0"
    using define_y by blast
  from define_shares_buffers [OF t scan_x_y new]
  obtain V where V: "symbol_name defined_x 4 = Some ''x''" "\<forall>B2 s2. cmd_parse_define defined_x \<lparr>db_symbols = [4], db_values = [3]\<rparr>
      (Some ''y=2'') = Some (B2, s2) \<longrightarrow> symbol_name s2 4 = Some ''y'' \<and> st_vals s2 3 = Some (V\<lparr>va_value := V_string (Some ''2'')\<rparr>)"
    unfolding define_x x by (auto simp: x)
  show ?thesis using define_x V s2
    by (intro exI [of _ "\<lparr>db_symbols = [4], db_values = [6, 3]\<rparr>"] exI [of _ s2] exI [of _ "V\<lparr>va_value := V_string (Some ''2'')\<rparr>"]) simp
qed

end
