(* ===== verification/World.thy ===== *)
theory World
  imports Functions Modules Program
begin

text \<open>
  The functions of \<open>src/lib.c\<close> that look outside the program: at the clock, the standard input,
  the files and the addresses of structures. What they see there is the record \<open>world\<close>. They
  close the parameter \<open>ext\<close> of the virtual machine: a file that \<open>load\<close> evaluates may load
  others. Then names at the end of a file, and what \<open>load\<close> does with a file of expressions.
\<close>

subsection \<open>The world\<close>

text \<open>
  \<open>struct tm\<close>, and what the program sees of its surroundings; \<open>w_ptr\<close> is the format \<open>%p\<close>.
  \<open>w_version\<close> and \<open>w_build\<close> are texts fixed when the program is built; the structures of the
  modules and the counter of allocated bytes are kept outside \<open>akl_state\<close> (\<open>Modules\<close>, \<open>Memory\<close>).
\<close>

record tm =
  tm_sec :: int
  tm_min :: int
  tm_hour :: int
  tm_mday :: int
  tm_mon :: int
  tm_year :: int
  tm_wday :: nat

record world =
  w_clock :: tm
  w_ptr :: "addr \<Rightarrow> string"
  w_fopen :: "string \<Rightarrow> string option"
  w_realpath :: "string \<Rightarrow> string option"
  w_junk :: akl_io_device
  w_mods :: mods
  w_version :: string
  w_build :: string
  w_malloc_size :: u32
  w_other :: ext_fn

subsection \<open>Pointers\<close>

definition akl_fn_print_symbol_ptr :: "world \<Rightarrow> akl_state \<Rightarrow> addr \<Rightarrow> cfun_result" where
  "akl_fn_print_symbol_ptr W s cx =
     do {
       (val, s) \<leftarrow> akl_frame_pop s cx;
       sy \<leftarrow> is_type s val VT_SYMBOL;
       (if sy
        then do {
          V \<leftarrow> st_vals s val;
          symb \<leftarrow> (case va_value V of V_symbol y \<Rightarrow> Some y | _ \<Rightarrow> None);
          name \<leftarrow> sym_name s symb;
          Some (val, out_text s (''name: '' @ cstr name @ '', ptr: '' @ w_ptr W symb @ NEWLINE))
        }
        else do {
          s \<leftarrow> akl_raise_error s cx ALERT_WARNING ''Parameter is not a symbol'';
          Some (NIL_ADDR, s)
        })
     }"

fun dump_vars_lines :: "world \<Rightarrow> akl_state \<Rightarrow> addr list \<Rightarrow> string option" where
  "dump_vars_lines W s [] = Some []"
| "dump_vars_lines W s (var # vars) =
     do {
       V \<leftarrow> st_vars s var;
       name \<leftarrow> sym_name s (vr_symbol V);
       rest \<leftarrow> dump_vars_lines W s vars;
       Some (cstr name @ '' (var: '' @ w_ptr W var @ '', symbol: '' @ w_ptr W (vr_symbol V) @ '')'' @ NEWLINE @ rest)
     }"

definition akl_fn_dump_vars :: "world \<Rightarrow> akl_state \<Rightarrow> addr \<Rightarrow> cfun_result" where
  "akl_fn_dump_vars W s cx =
     do {
       C \<leftarrow> st_ctxs s cx;
       t \<leftarrow> (if cx_state C then dump_vars_lines W s (RB_FOREACH (ai_global_vars s)) else None);
       Some (NIL_ADDR, out_text s t)
     }"

subsection \<open>About the program\<close>

fun about_modules :: "mods \<Rightarrow> addr list \<Rightarrow> string option" where
  "about_modules M [] = Some []"
| "about_modules M (d # ds) =
     do {
       m \<leftarrow> M d;
       rest \<leftarrow> about_modules M ds;
       Some ((case (am_name m, am_path m) of
                (Some n, Some p) \<Rightarrow> TAB @ ''Name: '' @ [CHR 0x27] @ n @ [CHR 0x27] @ NEWLINE @
                  TAB @ ''Path: '' @ [CHR 0x27] @ p @ [CHR 0x27] @ NEWLINE
              | _ \<Rightarrow> []) @
             (case am_desc m of None \<Rightarrow> [] | Some x \<Rightarrow> TAB @ ''Description: '' @ [CHR 0x27] @ x @ [CHR 0x27] @ NEWLINE) @
             (case am_author m of None \<Rightarrow> [] | Some x \<Rightarrow> TAB @ ''Author: '' @ [CHR 0x27] @ x @ [CHR 0x27] @ NEWLINE) @
             NEWLINE @ rest)
     }"

definition akl_fn_about :: "world \<Rightarrow> akl_state \<Rightarrow> addr \<Rightarrow> cfun_result" where
  "akl_fn_about W s ctx =
     do {
       C \<leftarrow> st_ctxs s ctx;
       c \<leftarrow> (if cx_state C then akl_list_count s (ai_modules s) else None);
       es \<leftarrow> AKL_LIST_FOREACH s (ai_modules s);
       ds \<leftarrow> entries_data s es;
       mods \<leftarrow> about_modules (w_mods W) ds;
       Some (TRUE_ADDR, out_text s
         (NEWLINE @ ''AkLisp version '' @ w_version W @ NEWLINE @
          TAB @ ''Copyleft (c) Akos Kovacs'' @ NEWLINE @ w_build W @
          (if 0 < sint c then NEWLINE @ show_int (uint c) @ '' loaded module'' @ (if 1 < sint c then ''s'' else []) @ '':'' @ NEWLINE
           else []) @
          mods @ NEWLINE @ ''GC statistics:'' @ NEWLINE @
          TAB @ ''allocated memory: '' @ show_int (uint (w_malloc_size W)) @ '' bytes'' @ NEWLINE))
     }"

subsection \<open>The clock\<close>

definition day_names :: "string list" where
  "day_names = [''sunday'', ''monday'', ''tuesday'', ''wednesday'', ''thursday'', ''friday'', ''saturday'']"

text \<open>Appending the numbers to a list, each as a new value; NULL from \<open>AKL_NUMBER\<close> is appended too.\<close>

fun append_numbers :: "akl_state \<Rightarrow> addr \<Rightarrow> addr \<Rightarrow> int list \<Rightarrow> akl_state option" where
  "append_numbers s ctx l [] = Some s"
| "append_numbers s ctx l (k # ks) =
     do {
       (v, s) \<leftarrow> AKL_NUMBER s ctx (dbl_of_int k);
       (ent, s) \<leftarrow> akl_list_append_value s l v;
       append_numbers s ctx l ks
     }"

definition add_time_to_list :: "akl_state \<Rightarrow> addr \<Rightarrow> tm \<Rightarrow> addr \<Rightarrow> cfun_result" where
  "add_time_to_list s ctx time l =
     do {
       s \<leftarrow> append_numbers s ctx l [tm_hour time, tm_min time, tm_sec time];
       (lv, s) \<leftarrow> akl_new_list_value s l;
       s \<leftarrow> upd_list s l (\<lambda>L. L\<lparr>li_quoted := True\<rparr>);
       s \<leftarrow> set_quoted s lv True;
       Some (lv, s)
     }"

definition akl_fn_getdatetime :: "world \<Rightarrow> akl_state \<Rightarrow> addr \<Rightarrow> cfun_result" where
  "akl_fn_getdatetime W s ctx =
     do {
       let (l, s) = akl_new_list s;
       let time = w_clock W;
       s \<leftarrow> append_numbers s ctx l [tm_year time + 1900, tm_mon time, tm_mday time];
       day \<leftarrow> (if tm_wday time < length day_names then Some (day_names ! tm_wday time) else None);
       (day_of_week, s) \<leftarrow> akl_new_symbol s (Some day) True;
       (dow, s) \<leftarrow> akl_new_sym_value s day_of_week;
       s \<leftarrow> set_quoted s dow True;
       (ent, s) \<leftarrow> akl_list_append_value s l dow;
       add_time_to_list s ctx time l
     }"

definition akl_fn_gettime :: "world \<Rightarrow> akl_state \<Rightarrow> addr \<Rightarrow> cfun_result" where
  "akl_fn_gettime W s ctx = (let (l, s) = akl_new_list s in add_time_to_list s ctx (w_clock W) l)"

subsection \<open>The standard input\<close>

text \<open>
  The text that is left of the standard input is passed along. \<open>scan\<close> is \<open>fscanf("%lf")\<close>: the
  number it finds, if any, and what it leaves. A character 255 stops the flushing like the end
  of the input, because \<open>ch\<close> is a \<open>char\<close>.
\<close>

definition akl_fn_read_number ::
    "(string \<Rightarrow> double option \<times> string) \<Rightarrow> string \<Rightarrow> akl_state \<Rightarrow> addr \<Rightarrow> (addr \<times> akl_state \<times> string) option" where
  "akl_fn_read_number scan inp s ctx =
     (case scan inp of
        (Some n, inp) \<Rightarrow> do { (v, s) \<leftarrow> AKL_NUMBER s ctx n; Some (v, s, inp) }
      | (None, inp) \<Rightarrow> Some (NIL_ADDR, s, drop 1 (dropWhile (\<lambda>c. c \<noteq> NL \<and> c \<noteq> EOF_CHAR) inp)))"

text \<open>\<open>getline\<close>: the line without its end; a NUL in it ends the string.\<close>

definition akl_fn_read_string :: "string \<Rightarrow> akl_state \<Rightarrow> addr \<Rightarrow> (addr \<times> akl_state \<times> string) option" where
  "akl_fn_read_string inp s ctx =
     (if inp = [] then Some (NIL_ADDR, s, [])
      else do {
        C \<leftarrow> st_ctxs s ctx;
        let line = takeWhile (\<lambda>c. c \<noteq> NL) inp;
        let (v, s) = (if cx_state C then akl_new_string_value s (Some (takeWhile (\<lambda>c. c \<noteq> NUL) line)) else (0, s));
        Some (v, s, drop (length line + 1) inp)
      })"

subsection \<open>Loading a file\<close>

text \<open>\<open>lib.c\<close> defines \<open>PATH_MAX\<close> itself: the size of the buffer of \<open>load\<close>.\<close>

definition PATH_MAX :: nat where "PATH_MAX = 255"

text \<open>\<open>dirname\<close> of the C library.\<close>

definition strip_slashes :: "string \<Rightarrow> string" where
  "strip_slashes p = rev (dropWhile (\<lambda>c. c = CHR ''/'') (rev p))"

definition dirname :: "string \<Rightarrow> string" where
  "dirname p =
     (let q = strip_slashes p;
          d = rev (dropWhile (\<lambda>c. c \<noteq> CHR ''/'') (rev q))
      in if q = [] then (if p = [] then ''.'' else ''/'')
         else if d = [] then ''.''
         else if strip_slashes d = [] then ''/'' else strip_slashes d)"

text \<open>
  The file to open: a name after \<open>./\<close> is relative to the file that is evaluated. \<open>strncat\<close> gets
  the size of the whole buffer for what it may append, so a result that does not fit with its NUL
  is written behind the end of \<open>path\<close> (undefined: \<open>None\<close>). The device keeps a pointer to \<open>path\<close>, which ends with the call, as its name: the
  model keeps the text.
\<close>

definition load_path :: "world \<Rightarrow> string option \<Rightarrow> string \<Rightarrow> string option" where
  "load_path W curr_fname fname =
     (case Option.bind curr_fname (w_realpath W) of
        None \<Rightarrow> Some fname
      | Some r \<Rightarrow>
          (let path = dirname r @ tl fname in if length path < PATH_MAX then Some path else None))"

definition load_name :: "world \<Rightarrow> akl_state \<Rightarrow> addr \<Rightarrow> string \<Rightarrow> string option" where
  "load_name W s ctx fname =
     (if take 2 fname = ''./''
      then do {
        C \<leftarrow> st_ctxs s ctx;
        curr_fname \<leftarrow> (if cx_dev C = 0 then Some None else map_option akl_lex_get_filename (st_devs s (cx_dev C)));
        load_path W curr_fname fname
      }
      else Some fname)"

definition cannot_load :: "string \<Rightarrow> string" where
  "cannot_load fname = ''Cannot load '' @ [CHR 0x27] @ fname @ [CHR 0x27] @ '', cannot open file.''"

definition akl_fn_load :: "world \<Rightarrow> ext_fn \<Rightarrow> nat \<Rightarrow> akl_state \<Rightarrow> addr \<Rightarrow> cfun_result" where
  "akl_fn_load W ext n s ctx =
     do {
       (r, s) \<leftarrow> akl_get_args_strict s ctx [TYPE_OF VT_STRING];
       (case r of
          Some [ARG_string name] \<Rightarrow> do {
            name \<leftarrow> name;
            fname \<leftarrow> load_name W s ctx name;
            (case w_fopen W fname of
               None \<Rightarrow> do { s \<leftarrow> akl_raise_error s ctx ALERT_ERROR (cannot_load fname); Some (NIL_ADDR, s) }
             | Some txt \<Rightarrow> do {
                 let (dev, s) = akl_new_file_device (w_junk W) s (Some fname) txt;
                 (cx, s) \<leftarrow> akl_compile s dev;
                 s \<leftarrow> upd_ctx s cx (\<lambda>C. C\<lparr>cx_parent := ctx\<rparr>);
                 s \<leftarrow> akl_execute ext n s cx;
                 Some (TRUE_ADDR, s)
               })
          }
        | _ \<Rightarrow> Some (NIL_ADDR, s))
     }"

text \<open>The functions of the world, to any depth of files that load files.\<close>

fun world_ext :: "world \<Rightarrow> nat \<Rightarrow> ext_fn" where
  "world_ext W 0 f s cx argc = None"
| "world_ext W (Suc n) f s cx argc =
     (case f of
        fn_print_symbol_ptr \<Rightarrow> akl_fn_print_symbol_ptr W s cx
      | fn_dump_vars \<Rightarrow> akl_fn_dump_vars W s cx
      | fn_about \<Rightarrow> akl_fn_about W s cx
      | fn_getdatetime \<Rightarrow> akl_fn_getdatetime W s cx
      | fn_gettime \<Rightarrow> akl_fn_gettime W s cx
      | fn_load \<Rightarrow> akl_fn_load W (world_ext W n) n s cx
      | _ \<Rightarrow> w_other W f s cx argc)"

subsection \<open>Loading a file of expressions\<close>

lemma get_string_arg:
  assumes "heap_ok s" "in_frame s ctx bs [p] as" "st_vals s p = Some V" "va_type V = VT_STRING" "va_value V = V_string x"
  obtains s1 where "akl_get_args_strict s ctx [TYPE_OF VT_STRING] = Some (Some [ARG_string x], s1)"
    "in_frame s1 ctx bs [] as" "stack_op ctx s s1" "heap_ok s1"
proof -
  obtain s1 where s1: "akl_frame_shift s ctx = Some (p, s1)" "in_frame s1 ctx bs [] as" "stack_op ctx s s1" "heap_ok s1"
    by (rule shift_value [OF assms(1,2)])
  have "p \<noteq> 0" using assms(1,3) by (auto simp: heap_ok_def heap_live_def)
  moreover have "st_vals s1 p = Some V" using assms(3) stack_op_fields(1) [OF s1(3)] by simp
  moreover obtain C where "st_ctxs s ctx = Some C" "cx_state C" using in_frame_ctx [OF assms(2)] by blast
  moreover have "akl_frame_get_count s ctx = Some 1" using in_frame_count [OF assms(2)] by simp
  ultimately have "akl_get_args_strict s ctx [TYPE_OF VT_STRING] = Some (Some [ARG_string x], s1)"
    using s1(1) assms(4,5) by (simp add: akl_get_args_strict_def read_arg_def AKL_GET_STRING_VALUE_def)
  then show thesis using that s1 by blast
qed

text \<open>A text of expressions with values \<open>ds\<close> in a state, with fewer than \<open>n\<close> tokens.\<close>

definition evaluates :: "akl_state \<Rightarrow> nat \<Rightarrow> string \<Rightarrow> double list \<Rightarrow> bool" where
  "evaluates s n t ds \<longleftrightarrow> (\<exists>us es. t = spell us \<and> spell_ok us \<and> map fst us = concat (map lexemes es) \<and>
     length us < n \<and> length us < 2 ^ 32 \<and> map (denotes s) es = map Some ds)"

lemma evaluates_keep:
  assumes "comp_keeps s s'" "evaluates s n t ds"
  shows "evaluates s' n t ds"
proof -
  obtain us es where a: "t = spell us" "spell_ok us" "map fst us = concat (map lexemes es)" "length us < n"
    "length us < 2 ^ 32" "map (denotes s) es = map Some ds"
    using assms(2) unfolding evaluates_def by blast
  have "map (denotes s') es = map Some ds"
    using a(6) denotes_keep [OF assms(1)] by (auto simp: list_eq_iff_nth_eq)
  then show ?thesis using a unfolding evaluates_def by blast
qed

text \<open>Compiling and running a file, with a parent set in between.\<close>

lemma run_file:
  assumes "heap_ok s" "\<not> ai_interrupted s" "akl_new_file_device junk s name t = (dev, s1)" "CHR 0xFF \<notin> set t" "evaluates s n t ds"
  shows "\<exists>cx u ps. (do { (cx, s) \<leftarrow> akl_compile s1 dev; s \<leftarrow> upd_ctx s cx (\<lambda>C. C\<lparr>cx_parent := ctx\<rparr>); akl_execute ext n s cx }) = Some u \<and>
    comp_keeps s u \<and> stack_holds u cx ps \<and> numbers_at u ps ds"
proof -
  obtain D where s1: "dev = st_next s" "s1 = s\<lparr>st_next := st_next s + 1, st_devs := (st_devs s)(st_next s \<mapsto> D)\<rparr>"
    "fresh_device D t"
  proof -
    let ?F = "junk\<lparr>iod_source := DEVICE_FILE t False, iod_pos := 0, iod_line_count := 1,
      iod_name := name, iod_buffer := None, iod_buffer_size := 0\<rparr>"
    have "fresh_device ?F t" using assms(4) by (simp add: fresh_device_def)
    then show thesis using that [of ?F] assms(3) by (auto simp: akl_new_file_device_def Let_def)
  qed
  have ok: "heap_ok s1" by (rule heap_ok_grow [OF assms(1)]) (auto simp: s1(2) heap_live_def split: if_splits)
  have k1: "comp_keeps s s1" by (rule comp_keepsI) (simp_all add: s1(2))
  obtain us es where a: "t = spell us" "spell_ok us" "map fst us = concat (map lexemes es)" "length us < n"
    "length us < 2 ^ 32" "map (denotes s) es = map Some ds"
    using assms(5) unfolding evaluates_def by blast
  have d: "list_all2 (\<lambda>e d. denotes s1 e = Some d) es ds"
    using a(6) denotes_keep [OF k1] by (auto simp: list_eq_iff_nth_eq list_all2_conv_all_nth)
  have at: "at_text D (spell us)"
    using fresh_ready [OF a(2)] s1(3) a(1) by (simp add: at_text_def fresh_device_def)
  have dev: "st_devs s1 dev = Some D" and int: "\<not> ai_interrupted s1" using assms(2) by (simp_all add: s1(1,2))
  obtain cx v C xs uf where v: "akl_compile s1 dev = Some (cx, v)" "heap_ok v" "\<not> ai_interrupted v"
    "st_ctxs v cx = Some C" "cx_state C" "cx \<noteq> 0" "cx_fn_main C \<noteq> 0" "get_ufun v (cx_fn_main C) = Some uf"
    "cx_ir C = uf_body uf" "code_in v (uf_body uf) (concat (map code_of xs))" "list_all2 (\<lambda>a d. eval v a = Some d) xs ds"
    "length (concat (map code_of xs)) \<le> length us" "comp_keeps s1 v"
    using akl_compile_program [OF ok int dev at a(2,3) d a(5)] by (elim exE conjE) (rule that)
  let ?C = "C\<lparr>cx_parent := ctx\<rparr>"
  define w where "w = v\<lparr>st_ctxs := (st_ctxs v)(cx \<mapsto> ?C)\<rparr>"
  have upd: "upd_ctx v cx (\<lambda>C. C\<lparr>cx_parent := ctx\<rparr>) = Some w" using v(4) by (simp add: upd_ctx_def w_def)
  have kw: "comp_keeps v w" by (rule comp_keepsI) (simp_all add: w_def)
  have w: "heap_ok w" "\<not> ai_interrupted w" "st_ctxs w cx = Some ?C" "cx_state ?C" "cx_fn_main ?C \<noteq> 0"
    "get_ufun w (cx_fn_main ?C) = Some uf" "cx_ir ?C = uf_body uf" "list_all2 (\<lambda>a d. eval w a = Some d) xs ds"
  proof -
    show "heap_ok w" by (rule heap_ok_grow [OF v(2)]) (use v(4) in \<open>auto simp: w_def heap_live_def split: if_splits\<close>)
    show "list_all2 (\<lambda>a d. eval w a = Some d) xs ds" using v(11) by (rule list_all2_mono) (rule eval_keep [OF kw])
  qed (use v(3,5,7-9) in \<open>simp_all add: w_def get_ufun_def\<close>)
  have "instr_here w = instr_here v" by (intro ext) (simp add: instr_here_def w_def)
  moreover have "holds w = holds v" by (rule holds_cong) (simp_all add: w_def)
  ultimately have code: "code_in w (uf_body uf) (concat (map code_of xs))" using v(10) by (simp add: code_in_def)
  obtain u ps where u: "\<forall>ext n. akl_execute ext (length (concat (map code_of xs)) + Suc n) w cx = Some u"
    "stack_holds u cx ps" "numbers_at u ps ds" "comp_keeps w u"
    using run_compiled [OF w(1-4) v(6) w(5-7) code w(8)] by blast
  have "length (concat (map code_of xs)) + Suc (n - Suc (length (concat (map code_of xs)))) = n" using v(12) a(4) by simp
  then have "akl_execute ext n w cx = Some u" using u(1) by metis
  moreover have "comp_keeps s u"
    by (rule comp_keeps_trans [OF k1 comp_keeps_trans [OF v(13) comp_keeps_trans [OF kw u(4)]]])
  ultimately show ?thesis using v(1) upd u(2,3)
    by (intro exI [of _ cx] exI [of _ u] exI [of _ ps]) simp
qed

lemma load_name_cong:
  "st_ctxs s' = st_ctxs s \<Longrightarrow> st_devs s' = st_devs s \<Longrightarrow> load_name W s' ctx f = load_name W s ctx f"
  by (simp add: load_name_def cong: if_cong)

text \<open>
  C4. \<open>load\<close> evaluates a file in a context of its own. Called with a name, it opens the file the
  name stands for (\<open>load_name\<close>: relative to the file that is evaluated after \<open>./\<close>). When the
  file holds expressions, on any number of lines, they are compiled and run: their values end up,
  in order, on the stack of the new context, and the caller gets T, no output and no report, and
  finds its values and functions as they were. When the file cannot be opened the caller gets
  nil, and the error is reported. Fuel: more than the text has tokens.
\<close>

theorem load_file:
  assumes "reports_ok s" "reports_apart s ctx" "\<not> ai_interrupted s" "in_frame s ctx bs [p] as"
    "st_vals s p = Some V" "va_type V = VT_STRING" "va_value V = V_string (Some f)" "load_name W s ctx f = Some fname"
    "\<forall>t. w_fopen W fname = Some t \<longrightarrow> CHR 0xFF \<notin> set t \<and> evaluates s n t ds"
  shows "\<exists>s'. akl_fn_load W ext n s ctx = Some (if w_fopen W fname = None then NIL_ADDR else TRUE_ADDR, s') \<and>
    (if w_fopen W fname = None
     then \<exists>e\<in>set (reports s'). err_type e = ALERT_ERROR \<and> err_msg e = cannot_load fname
     else comp_keeps s s' \<and> (\<exists>cx ps. stack_holds s' cx ps \<and> numbers_at s' ps ds))"
proof -
  have ok: "heap_ok s" using assms(1) by (simp add: reports_ok_def)
  obtain s1 where s1: "akl_get_args_strict s ctx [TYPE_OF VT_STRING] = Some (Some [ARG_string (Some f)], s1)"
    "in_frame s1 ctx bs [] as" "stack_op ctx s s1" "heap_ok s1"
    by (rule get_string_arg [OF ok assms(4-7)])
  obtain h ls where h: "s1 = s\<lparr>st_ents := h, st_lists := ls\<rparr>" using s1(3) by (auto simp: stack_op_def)
  have ln: "load_name W s1 ctx f = Some fname" using assms(8) load_name_cong [of s1 s] by (simp add: h)
  show ?thesis
  proof (cases "w_fopen W fname")
    case None
    have r1: "reports_ok s1" using reports_stack_op [OF s1(3) assms(1) s1(4) assms(2)] by blast
    obtain C where C: "st_ctxs s1 ctx = Some C" "cx_state C" using in_frame_ctx [OF s1(2)] by blast
    obtain s2 where "akl_raise_error s1 ctx ALERT_ERROR (cannot_load fname) = Some s2"
      "\<exists>e\<in>set (reports s2). err_type e = ALERT_ERROR \<and> err_msg e = cannot_load fname"
      using raise_error_ok [OF r1 C, of ALERT_ERROR "cannot_load fname"] by (fastforce simp: same_report_def split: if_splits)
    then show ?thesis using s1(1) ln None by (simp add: akl_fn_load_def)
  next
    case (Some t)
    have k: "comp_keeps s s1" by (rule comp_keepsI) (simp_all add: h)
    have "evaluates s n t ds" "CHR 0xFF \<notin> set t" using assms(9) Some by blast+
    moreover from this have "evaluates s1 n t ds" using evaluates_keep [OF k] by blast
    moreover have "\<not> ai_interrupted s1" using assms(3) by (simp add: h)
    moreover obtain dev s2 where d: "akl_new_file_device (w_junk W) s1 (Some fname) t = (dev, s2)"
      by (cases "akl_new_file_device (w_junk W) s1 (Some fname) t")
    ultimately obtain cx u ps where u: "(do { (cx, s) \<leftarrow> akl_compile s2 dev; s \<leftarrow> upd_ctx s cx (\<lambda>C. C\<lparr>cx_parent := ctx\<rparr>);
        akl_execute ext n s cx }) = Some u" "comp_keeps s1 u" "stack_holds u cx ps" "numbers_at u ps ds"
      using run_file [OF s1(4) _ d] by blast
    then have "akl_fn_load W ext n s ctx = Some (TRUE_ADDR, u)"
      using s1(1) ln Some d by (simp add: akl_fn_load_def Option.bind_eq_Some_conv)
    then show ?thesis using u(3,4) comp_keeps_trans [OF k u(2)] Some by auto
  qed
qed

text \<open>A state with a name as the only argument, and a world with one file, \<open>42\<close> and the end of the line.\<close>

definition one_arg :: "akl_value \<Rightarrow> akl_state" where
  "one_arg V = state0\<lparr>st_next := 30,
     st_vals := [NIL_ADDR \<mapsto> NIL_VALUE, TRUE_ADDR \<mapsto> TRUE_VALUE, 3 \<mapsto> V],
     st_lists := [20 \<mapsto> empty_list\<lparr>li_head := 21, li_last := 21, li_count := 1\<rparr>,
                  23 \<mapsto> empty_list\<lparr>li_head := 21, li_last := 21, li_count := 1\<rparr>],
     st_ctxs := [7 \<mapsto> init_context\<lparr>cx_state := True, cx_stack := 20, cx_frame := 23, cx_func_name := Some ''load''\<rparr>],
     st_ents := [21 \<mapsto> entry_at 0 0 3]\<rparr>"

lemma one_arg_ok: "reports_ok (one_arg V)" "in_frame (one_arg V) 7 [] [3] []" "reports_apart (one_arg V) 7"
proof -
  let ?s = "one_arg V"
  have ok: "heap_ok ?s"
    by (auto simp: heap_ok_def heap_live_def one_arg_def state0_def NIL_ADDR_def TRUE_ADDR_def split: if_splits)
  have l: "is_list ?s 20 ([] @ [21] @ [])"
    by (simp add: is_list_def chain_def one_arg_def entry_at_def first0_def last0_def)
  then have "is_frame ?s 7 [] [21] []"
    by (simp add: is_frame_def) (simp add: one_arg_def init_context_def)
  then show "in_frame ?s 7 [] [3] []"
    unfolding in_frame_def by (intro exI [of _ "[]"] exI [of _ "[21]"]) (simp add: edata_def one_arg_def entry_at_def)
  show "reports_ok ?s" using ok by (simp add: reports_ok_def one_arg_def state0_def)
  show "reports_apart ?s 7" using l unfolding reports_apart_def by (auto simp: one_arg_def init_context_def state0_def)
qed

definition one_file :: world where
  "one_file = \<lparr>w_clock = \<lparr>tm_sec = 0, tm_min = 0, tm_hour = 0, tm_mday = 1, tm_mon = 0, tm_year = 70, tm_wday = 4\<rparr>,
     w_ptr = (\<lambda>p. []), w_fopen = (\<lambda>f. if f = ''a.lsp'' then Some (''42'' @ [CHR 0x0A]) else None),
     w_realpath = (\<lambda>f. None), w_junk = string_device [], w_mods = Map.empty, w_version = ''0.2-prealpha'',
     w_build = [], w_malloc_size = 0, w_other = (\<lambda>f s cx n. None)\<rparr>"

theorem load_file_witness:
  "\<exists>s' cx p. akl_fn_load one_file (\<lambda>f s cx n. None) 3 (one_arg (raw_value VT_STRING (V_string (Some ''a.lsp'')))) 7 = Some (TRUE_ADDR, s') \<and>
    stack_holds s' cx [p] \<and> number_at s' p (dbl_of_int 42)"
proof -
  let ?V = "raw_value VT_STRING (V_string (Some ''a.lsp''))"
  let ?s = "one_arg ?V" and ?us = "[(L_number ''42'', [CHR 0x0A])]"
  have v: "\<not> ai_interrupted ?s" "st_vals ?s 3 = Some ?V" "va_type ?V = VT_STRING" "va_value ?V = V_string (Some ''a.lsp'')"
    by (simp_all add: one_arg_def state0_def NIL_ADDR_def TRUE_ADDR_def raw_value_def)
  have n: "load_name one_file ?s 7 ''a.lsp'' = Some ''a.lsp''" by (simp add: load_name_def)
  have f: "w_fopen one_file ''a.lsp'' = Some (''42'' @ [CHR 0x0A])" by (simp add: one_file_def)
  have "dec_digits 42 = ''42''" by code_simp
  then have "map fst ?us = concat (map lexemes [Num 42])" by simp
  moreover have "spell_ok ?us" by (simp add: is_digit_def blank_def)
  ultimately have "evaluates ?s 3 (spell ?us) [dbl_of_int 42]"
    unfolding evaluates_def by (intro exI [of _ ?us] exI [of _ "[Num 42]"]) simp
  then have e: "evaluates ?s 3 (''42'' @ [CHR 0x0A]) [dbl_of_int 42]" by simp
  have a: "\<forall>t. w_fopen one_file ''a.lsp'' = Some t \<longrightarrow> CHR 0xFF \<notin> set t \<and> evaluates ?s 3 t [dbl_of_int 42]"
    unfolding f using e by simp
  from load_file [OF one_arg_ok(1,3) v(1) one_arg_ok(2) v(2-4) n a, of "\<lambda>f s cx n. None"]
  obtain s' cx ps where "akl_fn_load one_file (\<lambda>f s cx n. None) 3 ?s 7 = Some (TRUE_ADDR, s')"
    "stack_holds s' cx ps" "numbers_at s' ps [dbl_of_int 42]" by (simp add: f) blast
  then show ?thesis by (auto simp: numbers_at_def list_all2_Cons2)
qed

subsection \<open>The end of a file\<close>

lemma copy_atom_file:
  "iod_source dev = DEVICE_FILE w False \<Longrightarrow> \<forall>c\<in>set w. \<not> ends_atom c \<and> c \<noteq> NUL \<Longrightarrow> buffer_ok dev \<Longrightarrow>
   i \<le> length (btext dev) \<Longrightarrow> i + length w + 2 < 2 ^ 30 \<Longrightarrow> i + 1 \<le> unat (iod_buffer_size dev) \<Longrightarrow> length w < n \<Longrightarrow>
   \<exists>dev'. copy_atom_loop n dev i = Some dev' \<and> btext dev' = take i (btext dev) @ map tolower w @ [tolower EOF_CHAR]"
proof (induction w arbitrary: dev i n)
  case Nil
  obtain m where n: "n = Suc m" using Nil.prems(7) by (cases n) auto
  define d1 where "d1 = dev\<lparr>iod_char_count := iod_char_count dev + 1, iod_source := DEVICE_FILE [] True\<rparr>"
  have g: "getc_char dev = Some (EOF_CHAR, d1)"
    using Nil.prems(1) int_to_char_EOF by (simp add: getc_char_def akl_io_getc_def d1_def)
  have b: "buffer_ok d1" "btext d1 = btext dev" "iod_buffer_size d1 = iod_buffer_size dev"
    using Nil.prems(3) by (simp_all add: d1_def buffer_ok_def btext_def)
  obtain d2 where d2: "put_buffer d1 i (tolower EOF_CHAR) = Some d2" "btext d2 = take i (btext dev) @ [tolower EOF_CHAR]"
    "iod_source d2 = iod_source d1"
    using put_buffer_ok [OF b(1), of i "tolower EOF_CHAR"] b Nil.prems(4-6) by auto
  have "akl_io_eof d2 = Some True" using d2(3) by (simp add: akl_io_eof_def d1_def)
  moreover have "\<not> ends_atom EOF_CHAR" by (simp add: ends_atom_def)
  ultimately have "copy_atom_loop n dev i = Some d2" using g d2(1) n by simp
  then show ?case using d2(2) by simp
next
  case (Cons c w)
  obtain m where n: "n = Suc m" "length w < m" using Cons.prems(7) by (cases n) auto
  define d1 where "d1 = dev\<lparr>iod_char_count := iod_char_count dev + 1, iod_source := DEVICE_FILE w False\<rparr>"
  have g: "getc_char dev = Some (c, d1)" using Cons.prems(1) by (simp add: getc_char_def akl_io_getc_def d1_def)
  have b: "buffer_ok d1" "btext d1 = btext dev" "iod_buffer_size d1 = iod_buffer_size dev"
    using Cons.prems(3) by (simp_all add: d1_def buffer_ok_def btext_def)
  obtain d2 where d2: "put_buffer d1 i (tolower c) = Some d2" "btext d2 = take i (btext dev) @ [tolower c]" "buffer_ok d2"
    "i + 2 \<le> unat (iod_buffer_size d2)" "iod_source d2 = iod_source d1"
    using put_buffer_ok [OF b(1), of i "tolower c"] b Cons.prems(4-6) by auto
  have src: "iod_source d2 = DEVICE_FILE w False" using d2(5) by (simp add: d1_def)
  have "\<exists>dev'. copy_atom_loop m d2 (i + 1) = Some dev' \<and>
      btext dev' = take (i + 1) (btext d2) @ map tolower w @ [tolower EOF_CHAR]"
    by (rule Cons.IH [OF src]) (use Cons.prems n d2(2-4) in auto)
  then obtain dev' where d: "copy_atom_loop m d2 (i + 1) = Some dev'"
    "btext dev' = take (i + 1) (btext d2) @ map tolower w @ [tolower EOF_CHAR]" by blast
  have "akl_io_eof d2 = Some False" using src by (simp add: akl_io_eof_def)
  then have "copy_atom_loop n dev i = Some dev'" using g d2(1) d(1) Cons.prems(2) n(1) by simp
  then show ?case using d(2) d2(2) Cons.prems(4) by auto
qed

lemma key_end: "case_key (t @ [EOF_CHAR]) \<noteq> case_key ''NIL''" "case_key (t @ [EOF_CHAR]) \<noteq> case_key ''T''"
proof -
  have "tolower EOF_CHAR \<noteq> tolower CHR ''L''" "tolower EOF_CHAR \<noteq> tolower CHR ''T''" by code_simp+
  then have l: "of_char (tolower EOF_CHAR) \<noteq> (of_char (tolower CHR ''L'') :: nat)"
    "of_char (tolower EOF_CHAR) \<noteq> (of_char (tolower CHR ''T'') :: nat)" by (simp_all only: of_char_eq_iff not_False_eq_True)
  have "last (case_key (t @ [EOF_CHAR])) = of_char (tolower EOF_CHAR)" "last (case_key ''NIL'') = of_char (tolower CHR ''L'')"
    "last (case_key ''T'') = of_char (tolower CHR ''T'')"
    by (simp_all only: case_key_def map_append list.map last_snoc) (simp_all del: of_char_Char)
  then show "case_key (t @ [EOF_CHAR]) \<noteq> case_key ''NIL''" "case_key (t @ [EOF_CHAR]) \<noteq> case_key ''T''"
    using l by metis+
qed

text \<open>
  C21. A name at the very end of a file gets one character more. When a file ends with a name and
  no end of line follows, the lexer stores the end of the input, converted to the character 255,
  behind the name: \<open>foo\<close> is read as another symbol than \<open>foo\<close>, and \<open>nil\<close> as a symbol. (The end
  of a file is seen only after it was read, the end of a string before.)
\<close>

theorem name_at_end_of_file:
  assumes "w \<noteq> []" "starts_atom (hd w)" "\<forall>c\<in>set w. \<not> ends_atom c \<and> c \<noteq> NUL" "length w < 2 ^ 29"
    "iod_source dev = DEVICE_FILE w False" "iod_buffer dev = None"
  shows "\<exists>dev'. akl_lex dev = Some (tATOM, dev') \<and> buffer_text dev' = Some (map tolower w @ [CHR 0xFF])"
proof -
  obtain c u where w: "w = c # u" using assms(1) by (cases w) auto
  have c: "is_alpha c \<or> is_punct c" "c \<noteq> CHR ''#''" "c \<noteq> CHR ''+''" "c \<noteq> CHR ''-''" "c \<noteq> CHR ''(''" "c \<noteq> CHR '')''"
    "c \<noteq> DQUOTE" "c \<noteq> QUOTE" "c \<noteq> CHR '':''" "c \<noteq> CHR '';''" "c \<noteq> NUL"
    using assms(2,3) w by (auto simp: starts_atom_def)
  have c2: "c \<noteq> EOF_CHAR" "c \<noteq> NL" "\<not> is_digit c" "c \<noteq> CHR '' ''" using atom_class [OF c(1)] by blast+
  let ?d = "init_lexer dev"
  define d1 where "d1 = ?d\<lparr>iod_char_count := iod_char_count ?d + 1, iod_source := DEVICE_FILE u False\<rparr>"
  define d2 where "d2 = d1\<lparr>iod_char_count := iod_char_count d1 - 1, iod_source := DEVICE_FILE w False\<rparr>"
  have g: "getc_char ?d = Some (c, d1)"
    using assms(5) w by (simp add: getc_char_def akl_io_getc_def d1_def init_lexer_def)
  have "char_to_int c \<noteq> - 1" using char_to_int_EOF [of c] c2(1) by blast
  then have p: "ungetc_char c d1 = Some d2"
    using w by (simp add: ungetc_char_def akl_io_ungetc_def d1_def d2_def)
  have b: "buffer_ok d2" "btext d2 = []" "50 \<le> unat (iod_buffer_size d2)"
    by (simp_all add: d1_def d2_def init_lexer_def buffer_ok_def btext_def DEF_BUFFER_SIZE_def)
  obtain d3 where d3: "copy_atom_loop (lex_fuel d2) d2 0 = Some d3" "btext d3 = map tolower w @ [tolower EOF_CHAR]"
    using copy_atom_file [of d2 w 0 "lex_fuel d2"] assms(3,4) b by (auto simp: d2_def lex_fuel_def)
  have e: "tolower EOF_CHAR = EOF_CHAR" by code_simp
  have low: "tolower x \<noteq> NUL" if "x \<noteq> NUL" for x
  proof (cases "is_upper x")
    case True
    then have "(of_char (tolower x) :: nat) \<noteq> of_char NUL" by (simp add: tolower_def is_upper_def)
    then show ?thesis by metis
  qed (use that in \<open>simp add: tolower_def\<close>)
  let ?t = "map tolower w @ [EOF_CHAR]"
  have t: "takeWhile (\<lambda>c. c \<noteq> NUL) ?t = ?t" using assms(3) low by (auto simp: takeWhile_eq_all_conv)
  have "iod_buffer d3 = Some (Some ?t)" using d3(2) e by (auto simp: btext_def split: option.splits)
  then have bt: "buffer_text d3 = Some ?t" by (simp only: buffer_text_def option.case t)
  have "case_key ?t \<noteq> case_key ''NIL''" "case_key ?t \<noteq> case_key ''T''" using key_end by blast+
  then have ne: "strcasecmp ?t ''NIL'' \<noteq> 0" "strcasecmp ?t ''T'' \<noteq> 0" unfolding strcasecmp_eq by simp_all
  obtain m where m: "lex_fuel ?d = Suc m" using assms(5) by (auto simp: lex_fuel_def init_lexer_def)
  have "lex_loop (Suc m) ?d None = Some (tATOM, d3)"
    using g p d3(1) c c2 bt ne by (simp add: copy_atom_def)
  then have "akl_lex dev = Some (tATOM, d3)" using assms(6) m by (simp add: akl_lex_def) (simp add: init_lexer_def)
  then show ?thesis using bt by blast
qed

definition nil_file :: akl_io_device where "nil_file = file_device ''nil''"

theorem name_at_end_of_file_witness:
  "\<exists>dev'. akl_lex nil_file = Some (tATOM, dev') \<and> buffer_text dev' = Some (''nil'' @ [CHR 0xFF])"
proof -
  have "starts_atom CHR ''n''" by (simp add: starts_atom_def is_alpha_def is_lower_def)
  moreover have "map tolower ''nil'' = ''nil''" by code_simp
  ultimately show ?thesis
    using name_at_end_of_file [of "''nil''" nil_file] by (simp add: nil_file_def file_device_def string_device_def ends_atom_def)
qed

end
