(* ===== verification/Spec2Isabelle.thy ===== *)
theory Spec2Isabelle
  imports Memory Modules Marks Functions Control Reading Program World
begin

text \<open>
  AkLisp, a small Lisp interpreter written in C: a verification development.

  \<^bold>\<open>The program.\<close> Text from a device (a string or a file) is cut into tokens by the lexer
  (\<open>src/lexer.c\<close>). The parser (\<open>src/parser.c\<close>) builds values for quoted data, and the
  compiler (\<open>src/compile.c\<close>, with the special forms of \<open>src/lib_spec.c\<close>) turns every other
  list into a linked list of instructions, reading tokens as it goes. The virtual machine
  (\<open>src/aklisp.c\<close>) runs the instructions on an operand stack, which is a doubly linked list
  (\<open>src/list.c\<close>); a call shifts the entries of its arguments into a frame of their own, and the
  functions written in C (\<open>src/lib.c\<close>) read the arguments from it. Symbols and global
  variables are kept in red-black trees (\<open>src/akl_tree.h\<close>, used from \<open>src/util.c\<close>); the
  constructors are in \<open>src/types.c\<close>, memory comes from the pools of \<open>src/gc.c\<close>, and the pools
  and some tables are vectors (\<open>src/vector.c\<close>).

  \<^bold>\<open>The theories.\<close>
  \<^item> \<open>Prelude\<close>: general lemmas, the option monad. \<open>Interfaces\<close>: the locales \<open>lifo\<close>,
    \<open>allocator\<close> and \<open>table\<close>, each interpreted on the models of the code that provides it.
  \<^item> \<open>Vector\<close>: \<open>src/vector.c\<close>, with \<open>av_size\<close> and \<open>av_count\<close> as 32-bit words.
  \<^item> \<open>GcPool\<close>: \<open>src/gc.c\<close>: free maps, pools, the search for a slot, sweep, release.
  \<^item> \<open>RbTree\<close>: the part of \<open>src/akl_tree.h\<close> the interpreter uses, with the tree as a datatype
    and the parent pointers as the path to the node.
  \<^item> \<open>CString\<close>, \<open>Double\<close>, \<open>NumText\<close>: what the sources use of the C library: string comparison
    without case, IEEE doubles, \<open>printf\<close> and \<open>strtod\<close>. All executable.
  \<^item> \<open>Core\<close>: the structures of \<open>src/aklisp.h\<close> as records and datatypes, and \<open>akl_state\<close>,
    the state of the interpreter with one map per C type. \<open>Heap\<close>: the constructors of
    \<open>src/types.c\<close> and the invariant \<open>heap_ok\<close>. \<open>DList\<close>: \<open>src/list.c\<close>, pointer by pointer.
    \<open>Symbols\<close>: symbols, variables and features of \<open>src/util.c\<close>.
  \<^item> \<open>Lexer\<close>, \<open>Parser\<close>, \<open>Compiler\<close>: \<open>src/lexer.c\<close>, \<open>src/parser.c\<close>, \<open>src/compile.c\<close> with
    \<open>src/lib_spec.c\<close>, over a device that is a string or a file.
  \<^item> \<open>Stack\<close>: error reports, operand stack, frames and argument readers of \<open>src/aklisp.c\<close>.
    \<open>Print\<close>: printing and copying of values and the dumps. \<open>Builtins\<close>: the functions of
    \<open>src/lib.c\<close>. \<open>Library\<close>: the tables of functions and \<open>akl_init_state\<close>. \<open>Machine\<close>: the
    instructions, the calls and the loop of the virtual machine, as functions with fuel and
    as the step relation \<open>ir_step\<close>.
  \<^item> \<open>Modules\<close>: \<open>src/module.c\<close> and what \<open>src/os_unix.c\<close> does for it. \<open>Marks\<close>: the marker functions
    of \<open>src/gc.c\<close> on the structures of the interpreter. \<open>Memory\<close>: the start of the collector,
    creation and release of vectors with the counter of allocated bytes.
  \<^item> \<open>Shell\<close>: \<open>src/main.c\<close>: completion, key bindings, options, the interactive loop, \<open>main\<close>.
  \<^item> \<open>World\<close>: the functions of \<open>src/lib.c\<close> that look at the clock, the standard input, files,
    modules and addresses, \<open>load\<close> among them; \<open>world_ext\<close> closes the parameter \<open>ext\<close> of the machine
    with them.
  \<^item> \<open>Tokens\<close>, \<open>Frames\<close>, \<open>Reports\<close>, \<open>Steps\<close>, \<open>Calls\<close>, \<open>Control\<close>, \<open>Codegen\<close>, \<open>Reading\<close>, \<open>Repl\<close>, \<open>Startup\<close>,
    \<open>Session\<close>, \<open>Program\<close>, \<open>Functions\<close> hold no code: they prove what the components above do.

  \<^bold>\<open>What is shown.\<close>
  \<^item> The whole program: started with \<open>-E\<close> and a text of arithmetic expressions, or with lines
    of them on the standard input, or with a script, \<open>main\<close> ends and writes exactly the expected
    text (\<open>Program\<close>, over \<open>Session\<close>, one round after the other). \<open>load\<close> evaluates a file in a
    context of its own; a name at the very end of a file is misread (\<open>World\<close>). The start of the interpreter ends
    in a well-formed state with every library function bound (\<open>Startup\<close>). Completion
    enumerates the matching names (\<open>Shell\<close>).
  \<^item> From text to result: a text of arithmetic expressions is compiled to code that leaves the
    values of the expressions on the stack (\<open>Codegen\<close>, over \<open>Calls\<close> and \<open>Tokens\<close>). From text to
    text: the interactive program prints the value of the last expression (\<open>Repl\<close>); a list that
    is read and printed is printed in its canonical form (\<open>Reading\<close>).
  \<^item> Machine: the code of an arithmetic expression leaves the value of the expression on the
    stack and nothing else (\<open>Calls\<close>); calling an arithmetic function takes the arguments off
    the stack and puts the result there; the result does not depend on the fuel; an
    interruption stops a program; for any program of pushes, jumps and branches the loop computes,
    and runs for ever, exactly as an abstract machine on a list of values (\<open>Control\<close>).
  \<^item> Stack: push and pop are those of a stack, a frame of \<open>n\<close> arguments is the last \<open>n\<close> values
    of the stack, in order (\<open>Frames\<close>); an error is reported once per place (\<open>Reports\<close>).
  \<^item> Containers: the red-black tree keeps search order, colours and black height, finds the
    right entry with logarithmically many comparisons and is traversed in order (\<open>RbTree\<close>); the
    list operations refine those on lists, with what they do on empty lists, with negative and
    with wrong indices, and \<open>akl_list_find\<close> with its loop that never goes on (\<open>DList\<close>); vectors refine lists of elements within their
    capacity (\<open>Vector\<close>); without sweeps the pools never hand out a live slot twice if \<open>malloc\<close>
    returned zeroed memory, and do so with other memory; a collection keeps only what was marked
    before it, and releasing an empty pool is undefined (\<open>GcPool\<close>).
  \<^item> Symbols are interned, a global variable has the value last set, a feature is what was
    last switched (\<open>Symbols\<close>). Lexing spelled tokens gives the tokens, from a
    string or from a file of any number of lines (\<open>Tokens\<close>).
  \<^item> Library: comparison of numbers, division by zero, predicates on types, \<open>split\<close>, and the
    answers to bad arguments (\<open>Functions\<close>).
  \<^item> Modules and marking: what loading and unloading a module do (\<open>Modules\<close>), what marking a value
    reaches (\<open>Marks\<close>), how the counter of bytes is kept (\<open>Memory\<close>).

  \<^bold>\<open>Conventions.\<close> \<open>None\<close> is undefined behaviour of the C code (a NULL or dangling pointer, a
  read behind a string), or that it does not end; a C result NULL is the address 0. Functions that allocate return the new
  state. Addresses are never used again: \<open>akl_gc_init\<close> switches the collector off and nothing
  but the feature \<open>use-gc\<close> switches it on; \<open>GcPool\<close> models it on its own, with the memory that
  \<open>malloc\<close> gives as a parameter (the other theories suppose that it is zero). The output of
  the interpreter is a string in the state.

  \<^bold>\<open>Fuel.\<close> Loops that follow pointers or read devices carry fuel. \<open>lex_fuel\<close> exceeds the number
  of characters left, and every iteration reads one. \<open>parse_fuel\<close> bounds the tokens of a
  device: every token has a character, and one level of nesting takes at most three calls.
  \<open>text_fuel\<close> is three times the number of addresses and more: a value that does not contain
  itself is nested less deeply (printing a cyclic one never ends, and has no result). Programs may run for ever: \<open>exec_branch\<close> and \<open>call_bound\<close> get fuel from outside,
  more fuel gives the same result (\<open>fuel_mono\<close>), and the theorems about programs give an
  amount that is enough.

  \<^bold>\<open>Not modelled.\<close> The code of modules (shared objects, not in the sources; \<open>dlopen\<close> and the
  file system are parameters of \<open>Modules\<close>); the line editor, its history and the echo of typed text, and the messages of
  \<open>getopt_long\<close> (\<open>Shell\<close> takes the editor, the typed lines and the files as parameters); the rest of the operating
  system layer (the backtrace handler, processes and environment in \<open>src/os_unix.c\<close>,
  \<open>src/os_win.c\<close>, \<open>src/os_other.c\<close>); \<open>src/lib_file.c\<close>, which is
  not built; the assembler in \<open>src/lexer.c\<close>, \<open>src/parser.c\<close> and \<open>src/compile.c\<close>, which is
  compiled only with \<open>AKL_ASSEMBLER\<close>; the part of \<open>src/lib.c\<close> disabled with \<open>#if 0\<close>, \<open>exit!\<close>, which
  ends the process, and \<open>akl_split\<close>, which nothing calls; deletion, range
  queries and the splay trees of \<open>src/akl_tree.h\<close>, which nothing calls; the memory callbacks.
\<close>

end
